(* ===== verification/Nexus_Prelude.thy ===== *)
theory Nexus_Prelude
  imports Main "HOL-Library.Word" "HOL-Library.Product_Lexorder"
begin

text \<open>
  Shared vocabulary of the development: the machine integers of the Rust code with its
  saturating and checked arithmetic, the ordered map that stands for a
  \<open>BTreeMap\<close>, the \<open>Reverse\<close> wrapper of \<open>std::cmp\<close>, and the
  generic lemmas on lists and options that several components use.

  Conventions. A \<open>usize\<close> is 64 bits wide (the only build target is
  x86_64-pc-windows-msvc). A \<open>Result<T, E>\<close> is \<open>'e + 't\<close> with \<open>Inl\<close> for
  \<open>Err\<close>. A method taking \<open>&mut self\<close> returns the new state, followed by its result
  when it has one. A \<open>Mutex\<close> or \<open>RwLock\<close> protects one critical section, so each
  section is one definition; where two sections of one method can be interleaved with
  other threads the component's theory has a step relation.
\<close>

named_theorems word_arith \<open>saturating and checked arithmetic read as natural numbers\<close>
named_theorems btree \<open>lookup and key laws of the ordered map\<close>

type_synonym u8 = "8 word"
type_synonym u16 = "16 word"
type_synonym u32 = "32 word"
type_synonym u64 = "64 word"
type_synonym usize = "64 word"

section \<open>Rust integer arithmetic\<close>

definition saturating_add :: "'a::len word \<Rightarrow> 'a word \<Rightarrow> 'a word" where
  "saturating_add a b = (if unat a + unat b < 2 ^ LENGTH('a) then a + b else - 1)"

definition saturating_sub :: "'a::len word \<Rightarrow> 'a word \<Rightarrow> 'a word" where
  "saturating_sub a b = (if b \<le> a then a - b else 0)"

definition checked_add :: "'a::len word \<Rightarrow> 'a word \<Rightarrow> 'a word option" where
  "checked_add a b = (if unat a + unat b < 2 ^ LENGTH('a) then Some (a + b) else None)"

lemma unat_max_word: "unat (- 1 :: 'a::len word) = 2 ^ LENGTH('a) - 1"
  by (simp add: unsigned_minus_1_eq_mask mask_eq_exp_minus_1)

lemma unat_saturating_add [word_arith]:
  "unat (saturating_add a b) = min (unat a + unat b) (2 ^ LENGTH('a) - 1)"
  for a b :: "'a::len word"
  by (auto simp: saturating_add_def unat_max_word unat_word_ariths)

lemma unat_saturating_sub [word_arith]: "unat (saturating_sub a b) = unat a - unat b"
  by (auto simp: saturating_sub_def unat_sub word_le_nat_alt)

lemma saturating_add_ge [simp]: "a \<le> saturating_add a b"
proof -
  have "unat a < 2 ^ LENGTH('a)" by (rule unsigned_less)
  then have "unat a \<le> 2 ^ LENGTH('a) - 1" by linarith
  then show ?thesis by (simp add: word_le_nat_alt unat_saturating_add)
qed

lemma saturating_add_strict: "a \<noteq> - 1 \<Longrightarrow> a < saturating_add a 1"
  for a :: "'a::len word"
proof -
  assume ne: "a \<noteq> - 1"
  have "unat a \<noteq> 2 ^ LENGTH('a) - 1"
    using ne by (metis unat_max_word word_unat_eq_iff)
  moreover have "unat a < 2 ^ LENGTH('a)" by (rule unsigned_less)
  ultimately have "unat a + 1 \<le> 2 ^ LENGTH('a) - 1" by linarith
  then show ?thesis by (simp add: word_less_nat_alt unat_saturating_add)
qed

lemma saturating_add_zero_iff: "saturating_add a b = 0 \<longleftrightarrow> a = 0 \<and> b = 0"
  for a b :: "'a::len word"
proof -
  have "saturating_add a b = 0 \<longleftrightarrow> unat (saturating_add a b) = 0"
    by (simp add: word_unat_eq_iff)
  also have "\<dots> \<longleftrightarrow> unat a + unat b = 0"
  proof -
    have "(1 :: nat) < 2 ^ LENGTH('a)" by (rule one_less_power) simp_all
    then show ?thesis by (auto simp: unat_saturating_add min_def)
  qed
  finally show ?thesis by (simp add: unat_eq_zero)
qed

lemma saturating_add_max [simp]: "saturating_add (- 1) 1 = (- 1 :: 'a::len word)"
  by (simp add: saturating_add_def unat_max_word)

lemma checked_add_Some_iff [word_arith]:
  "checked_add a b = Some c \<longleftrightarrow> unat c = unat a + unat b"
  for a b c :: "'a::len word"
proof
  assume "checked_add a b = Some c"
  then show "unat c = unat a + unat b"
    by (auto simp: checked_add_def unat_word_ariths split: if_splits)
next
  assume eq: "unat c = unat a + unat b"
  have "unat c < 2 ^ LENGTH('a)" by (rule unsigned_less)
  with eq have "unat a + unat b < 2 ^ LENGTH('a)" by simp
  moreover from this eq have "a + b = c"
    by (simp add: word_unat_eq_iff unat_word_ariths)
  ultimately show "checked_add a b = Some c" by (simp add: checked_add_def)
qed

text \<open>Widening casts keep the value.\<close>

lemma unat_ucast_widen [word_arith]:
  "LENGTH('a) \<le> LENGTH('b) \<Longrightarrow> unat (ucast w :: 'b::len word) = unat w" for w :: "'a::len word"
proof -
  assume le: "LENGTH('a) \<le> LENGTH('b)"
  have "unat w < 2 ^ LENGTH('a)" by (rule unsigned_less)
  also have "\<dots> \<le> 2 ^ LENGTH('b)" using le by simp
  finally show ?thesis by (simp add: unsigned_ucast_eq take_bit_nat_eq_self)
qed

lemma checked_add_None_iff [word_arith]:
  "checked_add a b = None \<longleftrightarrow> 2 ^ LENGTH('a) \<le> unat a + unat b"
  for a b :: "'a::len word"
  by (auto simp: checked_add_def)

section \<open>Ordered maps\<close>

text \<open>
  \<open>BTreeMap\<close>: the pairs in ascending key order, so that iteration (\<open>values\<close>,
  \<open>iter\<close>) is the list itself. Lookup is \<open>map_of\<close>; \<open>get_mut\<close> followed by a
  mutation is \<open>bt_update\<close>.
\<close>

type_synonym ('k, 'v) btree = "('k \<times> 'v) list"

fun bt_insert :: "'k::linorder \<Rightarrow> 'v \<Rightarrow> ('k, 'v) btree \<Rightarrow> ('k, 'v) btree" where
  "bt_insert k v [] = [(k, v)]"
| "bt_insert k v (p # m) =
     (if k = fst p then (k, v) # m
      else if k < fst p then (k, v) # p # m
      else p # bt_insert k v m)"

definition bt_update :: "'k \<Rightarrow> ('v \<Rightarrow> 'v) \<Rightarrow> ('k, 'v) btree \<Rightarrow> ('k, 'v) btree" where
  "bt_update k f m = map (\<lambda>p. if fst p = k then (fst p, f (snd p)) else p) m"

definition bt_remove :: "'k \<Rightarrow> ('k, 'v) btree \<Rightarrow> ('k, 'v) btree" where
  "bt_remove k m = filter (\<lambda>p. fst p \<noteq> k) m"

definition bt_wf :: "('k::linorder, 'v) btree \<Rightarrow> bool" where
  "bt_wf m \<longleftrightarrow> sorted_wrt (<) (map fst m)"

lemma bt_wf_Nil [simp]: "bt_wf []"
  by (simp add: bt_wf_def)

lemma bt_wf_distinct: "bt_wf m \<Longrightarrow> distinct (map fst m)"
  unfolding bt_wf_def using strict_sorted_iff by blast

lemma keys_bt_insert [btree, simp]: "fst ` set (bt_insert k v m) = insert k (fst ` set m)"
  by (induction m) auto

lemma bt_get_insert [btree, simp]:
  "map_of (bt_insert k v m) = (map_of m)(k \<mapsto> v)"
  by (induction m) (auto simp: fun_eq_iff)

lemma bt_wf_insert [simp]: "bt_wf m \<Longrightarrow> bt_wf (bt_insert k v m)"
proof (induction m)
  case Nil
  then show ?case by (simp add: bt_wf_def)
next
  case (Cons p m)
  then have IH: "bt_wf (bt_insert k v m)" by (simp add: bt_wf_def)
  have "\<forall>x \<in> fst ` set m. fst p < x" using Cons.prems by (auto simp: bt_wf_def)
  then have "\<not> k \<le> fst p \<Longrightarrow> \<forall>x \<in> fst ` set (bt_insert k v m). fst p < x" by auto
  with Cons.prems IH show ?case by (auto simp: bt_wf_def)
qed

lemma keys_bt_update [btree, simp]: "map fst (bt_update k f m) = map fst m"
  by (induction m) (auto simp: bt_update_def)

lemma bt_get_update [btree, simp]:
  "map_of (bt_update k f m) = (map_of m)(k := map_option f (map_of m k))"
  by (induction m) (auto simp: bt_update_def fun_eq_iff)

lemma bt_wf_update [simp]: "bt_wf (bt_update k f m) = bt_wf m"
  by (simp add: bt_wf_def)

lemma bt_get_remove [btree, simp]: "map_of (bt_remove k m) = (map_of m)(k := None)"
  by (induction m) (auto simp: bt_remove_def fun_eq_iff)

lemma bt_wf_remove [simp]: "bt_wf m \<Longrightarrow> bt_wf (bt_remove k m)"
  by (auto simp: bt_wf_def bt_remove_def sorted_wrt_map intro: sorted_wrt_filter)

lemma bt_values_get: "bt_wf m \<Longrightarrow> v \<in> set (map snd m) \<longleftrightarrow> (\<exists>k. map_of m k = Some v)"
  by (force dest: bt_wf_distinct map_of_SomeD simp: image_iff)

section \<open>Reversed order\<close>

text \<open>\<open>std::cmp::Reverse\<close>: the same values in the opposite order.\<close>

datatype 'a reverse = Reverse (unreverse: 'a)

instantiation reverse :: (linorder) linorder
begin

definition less_eq_reverse :: "'a reverse \<Rightarrow> 'a reverse \<Rightarrow> bool" where
  "less_eq_reverse x y \<longleftrightarrow> unreverse y \<le> unreverse x"

definition less_reverse :: "'a reverse \<Rightarrow> 'a reverse \<Rightarrow> bool" where
  "less_reverse x y \<longleftrightarrow> unreverse y < unreverse x"

instance
  by standard (auto simp: less_eq_reverse_def less_reverse_def intro: reverse.expand)

end

lemma Reverse_le_iff [simp]: "Reverse a \<le> Reverse b \<longleftrightarrow> b \<le> a"
  by (simp add: less_eq_reverse_def)

lemma Reverse_less_iff [simp]: "Reverse a < Reverse b \<longleftrightarrow> b < a"
  by (simp add: less_reverse_def)

section \<open>Lists\<close>

text \<open>\<open>iter_mut().find(p)\<close> followed by a mutation of the element found.\<close>

fun update_first :: "('a \<Rightarrow> bool) \<Rightarrow> ('a \<Rightarrow> 'a) \<Rightarrow> 'a list \<Rightarrow> 'a list" where
  "update_first p f [] = []"
| "update_first p f (x # xs) = (if p x then f x # xs else x # update_first p f xs)"

lemma length_update_first [simp]: "length (update_first p f xs) = length xs"
  by (induction xs) auto

lemma map_update_first: "(\<And>x. g (f x) = g x) \<Longrightarrow> map g (update_first p f xs) = map g xs"
  by (induction xs) auto

lemma find_Some_iff_in: "find p xs = Some x \<Longrightarrow> x \<in> set xs \<and> p x"
  by (induction xs) (auto split: if_splits)

lemma set_update_first_subset:
  "y \<in> set (update_first p f xs) \<Longrightarrow> y \<in> set xs \<or> (\<exists>x \<in> set xs. p x \<and> y = f x)"
  by (induction xs) (auto split: if_splits)

section \<open>Runs\<close>

lemma three_steps: "r a b \<Longrightarrow> r b c \<Longrightarrow> r c d \<Longrightarrow> r\<^sup>*\<^sup>* a d"
  by (blast intro: rtranclp.rtrancl_into_rtrancl)

end
