(* ===== verification/Owner_Token.thy ===== *)
theory Owner_Token
  imports Nexus_Prelude
begin

text \<open>
  The identities every registry of the host is keyed by
  (src/crates/nexus-core/src/events.rs): one loaded generation of an addon, and the address
  of a foreign callback. Owners compare by both fields, so a reloaded addon (same signature,
  later generation) never inherits a registration.
\<close>

record owner_token =
  signature :: u32
  generation :: u64

type_synonym callback_id = usize

text \<open>\<open>CallbackId::new\<close>: only a non-null address is an identity.\<close>

definition callback_id_new :: "usize \<Rightarrow> callback_id option" where
  "callback_id_new address = (if address = 0 then None else Some address)"

definition callback_id_address :: "callback_id \<Rightarrow> usize" where
  "callback_id_address c = c"

lemma callback_id_roundtrip:
  "map_option callback_id_address (callback_id_new a) = (if a = 0 then None else Some a)"
  by (simp add: callback_id_new_def callback_id_address_def)

text \<open>
  What every registry promises its cleanup: after \<open>cleanup o\<close> nothing of \<open>o\<close> is left and
  every other owner has exactly what it had, in every state its operations can reach (\<open>inv\<close>).
  The registrations of an owner are compared as the registry itself exposes them (\<open>view\<close>), in
  order.
\<close>

locale owner_cleanup =
  fixes inv :: "'s \<Rightarrow> bool"
    and cleanup :: "'o \<Rightarrow> 's \<Rightarrow> 's"
    and view :: "'s \<Rightarrow> 'o \<Rightarrow> 'v list"
  assumes cleanup_inv: "inv s \<Longrightarrow> inv (cleanup o1 s)"
    and cleanup_own: "inv s \<Longrightarrow> view (cleanup o1 s) o1 = []"
    and cleanup_other: "inv s \<Longrightarrow> o2 \<noteq> o1 \<Longrightarrow> view (cleanup o1 s) o2 = view s o2"
begin

lemma cleanup_view: "inv s \<Longrightarrow> view (cleanup o1 s) o2 = (if o2 = o1 then [] else view s o2)"
  by (simp add: cleanup_own cleanup_other)

lemma cleanup_idem: "inv s \<Longrightarrow> view (cleanup o1 (cleanup o1 s)) o2 = view (cleanup o1 s) o2"
  by (simp add: cleanup_view cleanup_inv)

lemma cleanup_commute:
  "inv s \<Longrightarrow> view (cleanup o1 (cleanup o2 s)) o3 = view (cleanup o2 (cleanup o1 s)) o3"
  by (simp add: cleanup_view cleanup_inv)

text \<open>Any number of cleanups, in any order, leaves exactly the owners not cleaned up.\<close>

lemma cleanup_all:
  "inv s \<Longrightarrow> view (fold cleanup os s) o' = (if o' \<in> set os then [] else view s o')"
  by (induction os arbitrary: s) (auto simp: cleanup_view cleanup_inv)

end

end
