(* ===== verification/Admission_Contract.thy ===== *)
theory Admission_Contract
  imports Nexus_Prelude
begin

text \<open>
  The contract shared by the two admission gates of nexus-core, \<open>CallbackGate\<close>
  (src/crates/nexus-core/src/callback_gate.rs) and \<open>CallbackAdmission\<close>
  (src/crates/nexus-core/src/events.rs). Their clients unload native code once a closed
  gate has drained; what they rely on is that such a gate never admits again, whatever is
  asked of it afterwards. The contract is the locale \<open>admission_control\<close>, its two
  providers interpret it in their own theories.
\<close>

datatype 't admission_op = Enter 't | Leave 't | Close

text \<open>A history of requests made to one gate; a refused entry leaves it unchanged.\<close>

fun admission_run ::
  "('t \<Rightarrow> 's \<Rightarrow> 's option) \<Rightarrow> ('t \<Rightarrow> 's \<Rightarrow> 's) \<Rightarrow> ('s \<Rightarrow> 's) \<Rightarrow> 's \<Rightarrow> 't admission_op list \<Rightarrow> 's"
where
  "admission_run enter leave close s [] = s"
| "admission_run enter leave close s (Enter t # ops) =
     admission_run enter leave close (case enter t s of None \<Rightarrow> s | Some s' \<Rightarrow> s') ops"
| "admission_run enter leave close s (Leave t # ops) =
     admission_run enter leave close (leave t s) ops"
| "admission_run enter leave close s (Close # ops) =
     admission_run enter leave close (close s) ops"

text \<open>
  A guard leaves only when it was admitted (RAII: the guard or permit is dropped once), so a
  leave never meets an empty gate.
\<close>

fun disciplined ::
  "('t \<Rightarrow> 's \<Rightarrow> 's option) \<Rightarrow> ('t \<Rightarrow> 's \<Rightarrow> 's) \<Rightarrow> ('s \<Rightarrow> 's) \<Rightarrow> ('s \<Rightarrow> nat) \<Rightarrow>
   's \<Rightarrow> 't admission_op list \<Rightarrow> bool"
where
  "disciplined enter leave close load s [] = True"
| "disciplined enter leave close load s (Enter t # ops) =
     disciplined enter leave close load (case enter t s of None \<Rightarrow> s | Some s' \<Rightarrow> s') ops"
| "disciplined enter leave close load s (Leave t # ops) =
     (0 < load s \<and> disciplined enter leave close load (leave t s) ops)"
| "disciplined enter leave close load s (Close # ops) =
     disciplined enter leave close load (close s) ops"

locale admission_control =
  fixes enter :: "'t \<Rightarrow> 's \<Rightarrow> 's option"
    and leave :: "'t \<Rightarrow> 's \<Rightarrow> 's"
    and close :: "'s \<Rightarrow> 's"
    and accepts :: "'s \<Rightarrow> bool"
    and load :: "'s \<Rightarrow> nat"
    and capacity :: nat
  assumes closed_refuses: "\<not> accepts s \<Longrightarrow> enter t s = None"
    and enter_counts: "enter t s = Some s' \<Longrightarrow> load s < capacity \<Longrightarrow> load s' = Suc (load s)"
    and enter_accepts: "enter t s = Some s' \<Longrightarrow> accepts s'"
    and leave_counts: "0 < load s \<Longrightarrow> load (leave t s) = load s - 1"
    and leave_accepts: "accepts (leave t s) = accepts s"
    and close_counts: "load (close s) = load s"
    and close_closes: "\<not> accepts (close s)"
begin

lemma closed_forever: "\<not> accepts s \<Longrightarrow> \<not> accepts (admission_run enter leave close s ops)"
proof (induction ops arbitrary: s)
  case (Cons x ops)
  then show ?case
    by (cases x) (simp_all add: closed_refuses leave_accepts close_closes)
qed simp

lemma closed_load_shrinks:
  "\<not> accepts s \<Longrightarrow> disciplined enter leave close load s ops \<Longrightarrow>
   load (admission_run enter leave close s ops) \<le> load s"
proof (induction ops arbitrary: s)
  case (Cons x ops)
  show ?case
  proof (cases x)
    case (Enter t)
    with Cons show ?thesis by (simp add: closed_refuses)
  next
    case (Leave t)
    with Cons.prems have pos: "0 < load s"
      and d: "disciplined enter leave close load (leave t s) ops" by simp_all
    have "load (admission_run enter leave close (leave t s) ops) \<le> load (leave t s)"
      using Cons.IH d Cons.prems(1) by (simp add: leave_accepts)
    with Leave pos show ?thesis by (simp add: leave_counts)
  next
    case Close
    with Cons.prems have "disciplined enter leave close load (close s) ops" by simp
    from Cons.IH [OF close_closes this] Close show ?thesis by (simp add: close_counts)
  qed
qed simp

text \<open>Once closed and drained, a gate stays drained.\<close>

lemma drained_forever:
  assumes "\<not> accepts s" and "load s = 0" and "disciplined enter leave close load s ops"
  shows "load (admission_run enter leave close s ops) = 0"
  using closed_load_shrinks [OF assms(1,3)] assms(2) by simp

end

end
