(* ===== verification/Callback_Gate.thy ===== *)
theory Callback_Gate
  imports Admission_Contract
begin

text \<open>
  \<open>CallbackGate\<close> (src/crates/nexus-core/src/callback_gate.rs): the admission gate and
  drain counter of detours and native addon callbacks. The first part is each method run
  without interference; the second part interleaves the individual atomic accesses of any
  number of callers, because the guarantee the gate exists for (no callback runs after a
  drain) is about exactly those interleavings.

  Atomic accesses are sequentially consistent here. The code uses Acquire, Release and
  AcqRel; on its only target, x86-64, the read-modify-write accesses of \<open>try_enter\<close>,
  \<open>leave\<close> and \<open>close\<close> are locked instructions, which order the later loads after them.
\<close>

section \<open>The gate and its methods\<close>

record callback_gate =
  accepting :: bool
  in_flight :: usize

definition gate_open :: callback_gate where
  "gate_open = \<lparr>accepting = True, in_flight = 0\<rparr>"

text \<open>\<open>leave\<close> also reports whether it was the last one out, which wakes the waiters.\<close>

definition gate_leave :: "callback_gate \<Rightarrow> callback_gate \<times> bool" where
  "gate_leave g =
     (let previous = in_flight g
      in (g\<lparr>in_flight := previous - 1\<rparr>, previous = 1))"

definition gate_try_enter :: "callback_gate \<Rightarrow> callback_gate \<times> bool" where
  "gate_try_enter g =
     (if \<not> accepting g then (g, False)
      else let g' = g\<lparr>in_flight := in_flight g + 1\<rparr>
           in if accepting g' then (g', True) else (fst (gate_leave g'), False))"

definition gate_close :: "callback_gate \<Rightarrow> callback_gate \<times> bool" where
  "gate_close g = (g\<lparr>accepting := False\<rparr>, accepting g)"

definition gate_is_open :: "callback_gate \<Rightarrow> bool" where
  "gate_is_open g = accepting g"

text \<open>
  \<open>wait_for_drain\<close>. What the loop observes is one list entry per round: the counter
  it loads, the time elapsed since the start, whether the condition variable timed out, and
  the counter loaded after a timeout. \<open>None\<close> is a wait that has not returned yet.
  Durations are nanoseconds.
\<close>

record drain_round =
  dr_count :: usize
  dr_elapsed :: nat
  dr_timed_out :: bool
  dr_count_after :: usize

fun drain_loop :: "nat \<Rightarrow> drain_round list \<Rightarrow> bool option" where
  "drain_loop timeout [] = None"
| "drain_loop timeout (r # rs) =
     (if dr_count r = 0 then Some True
      else if timeout < dr_elapsed r then Some False
      else if timeout - dr_elapsed r = 0 then Some False
      else if dr_timed_out r then Some (dr_count_after r = 0)
      else drain_loop timeout rs)"

definition wait_for_drain :: "nat \<Rightarrow> usize \<Rightarrow> drain_round list \<Rightarrow> bool option" where
  "wait_for_drain timeout first rounds =
     (if first = 0 then Some True else drain_loop timeout rounds)"

lemma drain_loop_True:
  "drain_loop timeout rs = Some True \<Longrightarrow>
   \<exists>r \<in> set rs. dr_count r = 0 \<or> dr_timed_out r \<and> dr_count_after r = 0"
  by (induction timeout rs rule: drain_loop.induct) (auto split: if_splits)

lemma drain_loop_False:
  "drain_loop timeout rs = Some False \<Longrightarrow>
   \<exists>r \<in> set rs. dr_count r \<noteq> 0 \<and>
     (timeout \<le> dr_elapsed r \<or> dr_timed_out r \<and> dr_count_after r \<noteq> 0)"
  by (induction timeout rs rule: drain_loop.induct) (auto split: if_splits)

text \<open>The wait returns as soon as a round reaches the deadline, so it is bounded.\<close>

lemma drain_loop_returns:
  "r \<in> set rs \<Longrightarrow> timeout \<le> dr_elapsed r \<Longrightarrow> drain_loop timeout rs \<noteq> None"
  by (induction timeout rs rule: drain_loop.induct) auto

section \<open>The gate meets the admission contract\<close>

definition gate_enter_op :: "unit \<Rightarrow> callback_gate \<Rightarrow> callback_gate option" where
  "gate_enter_op t g = (if snd (gate_try_enter g) then Some (fst (gate_try_enter g)) else None)"

definition gate_leave_op :: "unit \<Rightarrow> callback_gate \<Rightarrow> callback_gate" where
  "gate_leave_op t g = fst (gate_leave g)"

definition gate_close_op :: "callback_gate \<Rightarrow> callback_gate" where
  "gate_close_op g = fst (gate_close g)"

definition gate_load :: "callback_gate \<Rightarrow> nat" where
  "gate_load g = unat (in_flight g)"

lemmas gate_defs = gate_try_enter_def gate_leave_def gate_close_def Let_def

lemmas gate_ops = gate_enter_op_def gate_leave_op_def gate_close_op_def gate_load_def gate_defs

lemma unat_usize_Suc: "unat (x :: usize) < 2 ^ 64 - 1 \<Longrightarrow> unat (x + 1) = Suc (unat x)"
  by (simp add: unat_word_ariths)

lemma unat_usize_pred: "0 < unat (x :: usize) \<Longrightarrow> unat (x - 1) = unat x - 1"
  by (metis One_nat_def unat_1 unat_sub word_le_nat_alt Suc_leI)

interpretation cg: admission_control
  gate_enter_op gate_leave_op gate_close_op accepting gate_load "2 ^ 64 - 1"
proof unfold_locales
  fix s s' t
  assume "gate_enter_op t s = Some s'" and "gate_load s < 2 ^ 64 - 1"
  then show "gate_load s' = Suc (gate_load s)"
    using unat_usize_Suc [of "in_flight s"] by (auto simp: gate_ops split: if_splits)
next
  fix s t
  assume "0 < gate_load s"
  then show "gate_load (gate_leave_op t s) = gate_load s - 1"
    using unat_usize_pred [of "in_flight s"] by (simp add: gate_ops)
qed (auto simp: gate_ops split: if_splits)

section \<open>Interleaved callers\<close>

text \<open>
  One caller of \<open>try_enter\<close> and the drop of its guard, access by access. A caller is
  \<open>Outside\<close>; it has passed the first check (\<open>Checked\<close>); it has incremented the
  counter (\<open>Counted\<close>); it holds a guard and its callback runs (\<open>Admitted\<close>); or it
  saw the gate closed at the second check and has still to undo its increment
  (\<open>Refused\<close>). \<open>n\<close> bounds the callers that are active at one time.
\<close>

datatype gate_pc = Outside | Checked | Counted | Admitted | Refused

record gate_world =
  gw_gate :: callback_gate
  gw_pc :: "nat \<Rightarrow> gate_pc"

definition gate_world_init :: gate_world where
  "gate_world_init = \<lparr>gw_gate = gate_open, gw_pc = (\<lambda>_. Outside)\<rparr>"

inductive gate_step :: "nat \<Rightarrow> gate_world \<Rightarrow> gate_world \<Rightarrow> bool" for n where
  gs_check: "i < n \<Longrightarrow> gw_pc w i = Outside \<Longrightarrow> accepting (gw_gate w) \<Longrightarrow>
    gate_step n w (w\<lparr>gw_pc := (gw_pc w)(i := Checked)\<rparr>)"
| gs_count: "i < n \<Longrightarrow> gw_pc w i = Checked \<Longrightarrow>
    gate_step n w
      (w\<lparr>gw_gate := (gw_gate w)\<lparr>in_flight := in_flight (gw_gate w) + 1\<rparr>,
         gw_pc := (gw_pc w)(i := Counted)\<rparr>)"
| gs_admit: "i < n \<Longrightarrow> gw_pc w i = Counted \<Longrightarrow> accepting (gw_gate w) \<Longrightarrow>
    gate_step n w (w\<lparr>gw_pc := (gw_pc w)(i := Admitted)\<rparr>)"
| gs_refuse: "i < n \<Longrightarrow> gw_pc w i = Counted \<Longrightarrow> \<not> accepting (gw_gate w) \<Longrightarrow>
    gate_step n w (w\<lparr>gw_pc := (gw_pc w)(i := Refused)\<rparr>)"
| gs_leave: "i < n \<Longrightarrow> gw_pc w i \<in> {Admitted, Refused} \<Longrightarrow>
    gate_step n w
      (w\<lparr>gw_gate := fst (gate_leave (gw_gate w)), gw_pc := (gw_pc w)(i := Outside)\<rparr>)"
| gs_close: "gate_step n w (w\<lparr>gw_gate := fst (gate_close (gw_gate w))\<rparr>)"

inductive_cases gate_stepE: "gate_step n w w'"

text \<open>The callers the counter stands for.\<close>

definition gate_counted :: "nat \<Rightarrow> gate_world \<Rightarrow> nat set" where
  "gate_counted n w = {i. i < n \<and> gw_pc w i \<in> {Counted, Admitted, Refused}}"

definition gate_inv :: "nat \<Rightarrow> gate_world \<Rightarrow> bool" where
  "gate_inv n w \<longleftrightarrow>
     unat (in_flight (gw_gate w)) = card (gate_counted n w) \<and> (\<forall>i \<ge> n. gw_pc w i = Outside)"

lemma finite_gate_counted [simp]: "finite (gate_counted n w)"
  by (simp add: gate_counted_def)

lemma card_gate_counted_less:
  assumes "i < n" and "gw_pc w i \<in> {Outside, Checked}"
  shows "card (gate_counted n w) < n"
proof -
  have "gate_counted n w \<subseteq> {..<n} - {i}" using assms by (auto simp: gate_counted_def)
  then have "card (gate_counted n w) \<le> card ({..<n} - {i})" by (simp add: card_mono)
  with assms(1) show ?thesis by simp
qed

lemma gate_counted_enter:
  "i < n \<Longrightarrow> gw_pc w i \<in> {Outside, Checked} \<Longrightarrow>
   gate_counted n (w\<lparr>gw_gate := g, gw_pc := (gw_pc w)(i := Counted)\<rparr>) =
     insert i (gate_counted n w) \<and> i \<notin> gate_counted n w"
  by (auto simp: gate_counted_def)

lemma gate_counted_leave:
  "gate_counted n (w\<lparr>gw_gate := g, gw_pc := (gw_pc w)(i := Outside)\<rparr>) =
     gate_counted n w - {i}"
  by (auto simp: gate_counted_def)

lemma gate_inv_init: "gate_inv n gate_world_init"
  by (simp add: gate_inv_def gate_world_init_def gate_open_def gate_counted_def)

lemma gate_inv_step:
  assumes "gate_step n w w'" and "n < 2 ^ 64" and "gate_inv n w"
  shows "gate_inv n w'"
  using assms(1)
proof (cases rule: gate_step.cases)
  case (gs_count i)
  then have "card (gate_counted n w) < n" by (simp add: card_gate_counted_less)
  with assms(2,3) have "unat (in_flight (gw_gate w)) < 2 ^ 64 - 1" by (simp add: gate_inv_def)
  with gs_count assms(3) gate_counted_enter [of i n w] show ?thesis
    by (simp add: gate_inv_def unat_usize_Suc)
next
  case (gs_leave i)
  then have mem: "i \<in> gate_counted n w" by (auto simp: gate_counted_def)
  then have pos: "0 < card (gate_counted n w)" using card_gt_0_iff by fastforce
  from mem have "card (gate_counted n w - {i}) = card (gate_counted n w) - 1" by simp
  with gs_leave assms(3) pos show ?thesis
    by (simp add: gate_inv_def gate_leave_def Let_def gate_counted_leave unat_usize_pred)
qed (use assms(3) in
  \<open>auto simp: gate_inv_def gate_counted_def gate_close_def intro!: arg_cong [where f = card]\<close>)

lemma gate_inv_steps:
  assumes "(gate_step n)\<^sup>*\<^sup>* gate_world_init w" and "n < 2 ^ 64"
  shows "gate_inv n w"
  using assms(1) by (induction rule: rtranclp_induct) (auto intro: gate_inv_init gate_inv_step assms(2))

text \<open>Sealed: the gate is closed and nobody is inside. No step leads out of it.\<close>

definition gate_sealed :: "gate_world \<Rightarrow> bool" where
  "gate_sealed w \<longleftrightarrow> \<not> accepting (gw_gate w) \<and> (\<forall>i. gw_pc w i \<noteq> Admitted)"

lemma gate_sealed_step: "gate_step n w w' \<Longrightarrow> gate_sealed w \<Longrightarrow> gate_sealed w'"
  by (erule gate_stepE) (auto simp: gate_sealed_def gate_leave_def gate_close_def Let_def)

lemma gate_drained_sealed:
  assumes "gate_inv n w" and "\<not> accepting (gw_gate w)" and "in_flight (gw_gate w) = 0"
  shows "gate_sealed w"
proof -
  have "gate_counted n w = {}" using assms(1,3) by (simp add: gate_inv_def)
  then have "gw_pc w i \<noteq> Admitted" for i
    using assms(1) by (cases "i < n") (auto simp: gate_counted_def gate_inv_def)
  with assms(2) show ?thesis by (simp add: gate_sealed_def)
qed

text \<open>
  C3. Once the gate has been closed and its counter has been read as zero (which is what a
  successful \<open>wait_for_drain\<close> after \<open>close\<close> has seen), no callback is inside, and however
  the callers that were still in the middle of \<open>try_enter\<close> go on, none ever gets in.
\<close>
theorem gate_drain_is_final:
  assumes "(gate_step n)\<^sup>*\<^sup>* gate_world_init w" and "n < 2 ^ 64"
    and "\<not> accepting (gw_gate w)" and "in_flight (gw_gate w) = 0"
    and "(gate_step n)\<^sup>*\<^sup>* w w'"
  shows "gw_pc w' i \<noteq> Admitted"
proof -
  have "gate_sealed w" using gate_drained_sealed gate_inv_steps assms by blast
  from assms(5) this have "gate_sealed w'"
    by (induction rule: rtranclp_induct) (auto intro: gate_sealed_step)
  then show ?thesis by (simp add: gate_sealed_def)
qed

text \<open>The race of the second check: caller 0 passes the first check, the gate closes.\<close>

definition gate_world_race :: gate_world where
  "gate_world_race =
     \<lparr>gw_gate = \<lparr>accepting = False, in_flight = 0\<rparr>, gw_pc = (\<lambda>_. Outside)(0 := Checked)\<rparr>"

lemma gate_world_race_reachable: "(gate_step 1)\<^sup>*\<^sup>* gate_world_init gate_world_race"
proof -
  have "gate_step 1 gate_world_init (gate_world_init\<lparr>gw_pc := (\<lambda>_. Outside)(0 := Checked)\<rparr>)"
    using gs_check [of 0 1 gate_world_init] by (simp add: gate_world_init_def gate_open_def)
  moreover have "gate_step 1 (gate_world_init\<lparr>gw_pc := (\<lambda>_. Outside)(0 := Checked)\<rparr>)
      gate_world_race"
    using gs_close [of 1 "gate_world_init\<lparr>gw_pc := (\<lambda>_. Outside)(0 := Checked)\<rparr>"]
    by (simp add: gate_world_init_def gate_world_race_def gate_open_def gate_close_def)
  ultimately show ?thesis by (meson converse_rtranclp_into_rtranclp r_into_rtranclp)
qed

theorem gate_drain_is_final_witness:
  "(gate_step 1)\<^sup>*\<^sup>* gate_world_init gate_world_race \<and>
   (\<nexists>w'. (gate_step 1)\<^sup>*\<^sup>* gate_world_race w' \<and> gw_pc w' 0 = Admitted)"
  using gate_drain_is_final [OF gate_world_race_reachable, of _ 0] gate_world_race_reachable
  by (auto simp: gate_world_race_def)

section \<open>The methods as uninterrupted runs\<close>

lemma gate_try_enter_run_open:
  assumes "i < n" and "gw_pc w i = Outside" and "accepting (gw_gate w)"
  shows "(gate_step n)\<^sup>*\<^sup>* w
    (w\<lparr>gw_gate := fst (gate_try_enter (gw_gate w)), gw_pc := (gw_pc w)(i := Admitted)\<rparr>)"
proof -
  define w1 where "w1 = w\<lparr>gw_pc := (gw_pc w)(i := Checked)\<rparr>"
  define w2 where "w2 = w1\<lparr>gw_gate := (gw_gate w)\<lparr>in_flight := in_flight (gw_gate w) + 1\<rparr>,
    gw_pc := (gw_pc w)(i := Counted)\<rparr>"
  have "gate_step n w w1" unfolding w1_def using assms by (rule gs_check)
  moreover have "gate_step n w1 w2" using gs_count [of i n w1] assms by (simp add: w1_def w2_def)
  moreover have "gate_step n w2
      (w\<lparr>gw_gate := fst (gate_try_enter (gw_gate w)), gw_pc := (gw_pc w)(i := Admitted)\<rparr>)"
    using gs_admit [of i n w2] assms by (simp add: w1_def w2_def gate_try_enter_def)
  ultimately show ?thesis by (rule three_steps)
qed

text \<open>
  \<open>try_enter\<close> run without interference is a run of the interleaved machine: it ends
  with the gate \<open>gate_try_enter\<close> returns, the caller inside exactly when it returned a guard.
\<close>
theorem gate_try_enter_refines:
  assumes "i < n" and "gw_pc w i = Outside"
  shows "\<exists>w'. (gate_step n)\<^sup>*\<^sup>* w w' \<and> gw_gate w' = fst (gate_try_enter (gw_gate w)) \<and>
    (gw_pc w' i = Admitted \<longleftrightarrow> snd (gate_try_enter (gw_gate w))) \<and>
    (\<forall>j. j \<noteq> i \<longrightarrow> gw_pc w' j = gw_pc w j)"
proof (cases "accepting (gw_gate w)")
  case True
  define w' where "w' = w\<lparr>gw_gate := fst (gate_try_enter (gw_gate w)),
    gw_pc := (gw_pc w)(i := Admitted)\<rparr>"
  have "(gate_step n)\<^sup>*\<^sup>* w w'"
    unfolding w'_def by (rule gate_try_enter_run_open [OF assms True])
  moreover have "snd (gate_try_enter (gw_gate w))" using True by (simp add: gate_try_enter_def)
  ultimately show ?thesis by (intro exI [of _ w']) (simp add: w'_def)
next
  case False
  show ?thesis by (rule exI [of _ w]) (use False assms in \<open>simp add: gate_try_enter_def\<close>)
qed

theorem gate_try_enter_refines_witness:
  "\<exists>w'. (gate_step 1)\<^sup>*\<^sup>* gate_world_init w' \<and>
     gw_gate w' = \<lparr>accepting = True, in_flight = 1\<rparr> \<and> gw_pc w' 0 = Admitted"
proof -
  obtain w' where "(gate_step 1)\<^sup>*\<^sup>* gate_world_init w'"
    and "gw_gate w' = fst (gate_try_enter gate_open)"
    and "gw_pc w' 0 = Admitted \<longleftrightarrow> snd (gate_try_enter gate_open)"
    using gate_try_enter_refines [of 0 1 gate_world_init] by (auto simp: gate_world_init_def)
  then show ?thesis by (intro exI [of _ w']) (simp add: gate_open_def gate_try_enter_def)
qed

end
