(* ===== verification/Address_Ownership.thy ===== *)
theory Address_Ownership
  imports Owner_Token Callback_Gate
begin

text \<open>
  \<open>AddressOwnershipIndex\<close> (src/crates/nexus-core/src/address_ownership.rs): which addon
  generation owns the code an API call comes from. The index is a list of mapped images; the
  host-owned callback gates are shared (\<open>Arc\<close>), so an entry holds a reference into a gate
  store and closing an entry closes the gate for everybody who holds it. Every method is one
  critical section of the index's lock.
\<close>

type_synonym 'g gate_store = "'g \<Rightarrow> callback_gate"

datatype address_ownership_error =
    ZeroSignature
  | EmptyRange
  | RangeOverflow
  | SignatureInUse
  | RangeChanged
  | CallbackGateChanged
  | Overlap

definition address_error_text :: "address_ownership_error \<Rightarrow> string" where
  "address_error_text e =
     (case e of
        ZeroSignature \<Rightarrow> ''addon signature is zero''
      | EmptyRange \<Rightarrow> ''module address range is empty''
      | RangeOverflow \<Rightarrow> ''module address range overflowed''
      | SignatureInUse \<Rightarrow> ''addon signature already has a mapped generation''
      | RangeChanged \<Rightarrow> ''addon generation was republished with different bounds''
      | CallbackGateChanged \<Rightarrow>
          ''addon generation was republished with a different callback gate''
      | Overlap \<Rightarrow> ''module address range overlaps another live module'')"

datatype address_publish = Inserted | AlreadyPresent

record 'g addr_entry =
  ae_owner :: owner_token
  ae_start :: usize
  ae_end :: usize
  ae_accepting :: bool
  ae_gate :: 'g

type_synonym 'g addr_index = "'g addr_entry list"

definition addr_new :: "'g addr_index" where
  "addr_new = []"

definition addr_publish ::
  "owner_token \<Rightarrow> usize \<Rightarrow> usize \<Rightarrow> 'g \<Rightarrow> 'g addr_index \<Rightarrow>
   address_ownership_error + 'g addr_index \<times> address_publish"
where
  "addr_publish owner start sz gate idx =
     (if signature owner = 0 then Inl ZeroSignature
      else if sz = 0 then Inl EmptyRange
      else case checked_add start sz of
        None \<Rightarrow> Inl RangeOverflow
      | Some stop \<Rightarrow>
          (case find (\<lambda>e. ae_owner e = owner) idx of
             Some e \<Rightarrow>
               (if ae_start e \<noteq> start \<or> ae_end e \<noteq> stop then Inl RangeChanged
                else if ae_gate e \<noteq> gate then Inl CallbackGateChanged
                else Inr (idx, AlreadyPresent))
           | None \<Rightarrow>
               (if \<exists>e \<in> set idx. signature (ae_owner e) = signature owner
                then Inl SignatureInUse
                else if \<exists>e \<in> set idx. start < ae_end e \<and> ae_start e < stop then Inl Overlap
                else Inr (idx @ [\<lparr>ae_owner = owner, ae_start = start, ae_end = stop,
                       ae_accepting = True, ae_gate = gate\<rparr>], Inserted))))"

definition addr_close ::
  "owner_token \<Rightarrow> 'g addr_index \<times> 'g gate_store \<Rightarrow> ('g addr_index \<times> 'g gate_store) \<times> bool"
where
  "addr_close owner s =
     (case s of (idx, gates) \<Rightarrow>
        (case find (\<lambda>e. ae_owner e = owner) idx of
           None \<Rightarrow> ((idx, gates), False)
         | Some e \<Rightarrow>
             ((update_first (\<lambda>e. ae_owner e = owner) (\<lambda>e. e\<lparr>ae_accepting := False\<rparr>) idx,
               gates(ae_gate e := fst (gate_close (gates (ae_gate e))))),
              ae_accepting e)))"

definition addr_retire :: "owner_token \<Rightarrow> 'g addr_index \<Rightarrow> 'g addr_index \<times> bool" where
  "addr_retire owner idx =
     (let kept = filter (\<lambda>e. ae_owner e \<noteq> owner) idx in (kept, length idx \<noteq> length kept))"

definition owner_for_address :: "'g addr_index \<Rightarrow> usize \<Rightarrow> owner_token option" where
  "owner_for_address idx address =
     map_option ae_owner (find (\<lambda>e. ae_start e \<le> address \<and> address < ae_end e) idx)"

definition is_current_owner :: "'g addr_index \<Rightarrow> owner_token \<Rightarrow> bool" where
  "is_current_owner idx owner \<longleftrightarrow> (\<exists>e \<in> set idx. ae_owner e = owner \<and> ae_accepting e)"

definition callback_gate_for_current :: "'g addr_index \<Rightarrow> owner_token \<Rightarrow> 'g option" where
  "callback_gate_for_current idx owner =
     map_option ae_gate (find (\<lambda>e. ae_owner e = owner \<and> ae_accepting e) idx)"

definition mapped_count :: "'g addr_index \<Rightarrow> nat" where
  "mapped_count idx = length idx"

text \<open>What the \<open>Debug\<close> output shows: counts only, no address.\<close>

definition addr_debug :: "'g addr_index \<Rightarrow> nat \<times> nat" where
  "addr_debug idx = (length idx, length (filter ae_accepting idx))"

section \<open>The invariant\<close>

definition addr_disjoint :: "'g addr_entry \<Rightarrow> 'g addr_entry \<Rightarrow> bool" where
  "addr_disjoint a b \<longleftrightarrow> ae_end a \<le> ae_start b \<or> ae_end b \<le> ae_start a"

definition addr_apart :: "'g addr_entry \<Rightarrow> 'g addr_entry \<Rightarrow> bool" where
  "addr_apart a b \<longleftrightarrow>
     addr_disjoint a b \<and> signature (ae_owner a) \<noteq> signature (ae_owner b)"

definition addr_wf :: "'g addr_index \<Rightarrow> bool" where
  "addr_wf idx \<longleftrightarrow>
     (\<forall>e \<in> set idx. signature (ae_owner e) \<noteq> 0 \<and> ae_start e < ae_end e) \<and>
     sorted_wrt addr_apart idx"

lemma addr_wf_Nil [simp]: "addr_wf []"
  by (simp add: addr_wf_def)

lemma addr_apart_sym: "addr_apart a b \<Longrightarrow> addr_apart b a"
  by (auto simp: addr_apart_def addr_disjoint_def)

lemma addr_wf_apart:
  assumes "addr_wf idx" and "a \<in> set idx" and "b \<in> set idx" and "a \<noteq> b"
  shows "addr_apart a b"
proof -
  have "sorted_wrt addr_apart idx" using assms(1) by (simp add: addr_wf_def)
  then show ?thesis using assms(2-4)
    by (induction idx) (auto intro: addr_apart_sym)
qed

lemma addr_wf_owner_unique:
  "addr_wf idx \<Longrightarrow> a \<in> set idx \<Longrightarrow> b \<in> set idx \<Longrightarrow>
   signature (ae_owner a) = signature (ae_owner b) \<Longrightarrow> a = b"
  using addr_wf_apart by (auto simp: addr_apart_def)

lemma addr_wf_address_unique:
  assumes "addr_wf idx" and "a \<in> set idx" and "b \<in> set idx"
    and "ae_start a \<le> x" and "x < ae_end a" and "ae_start b \<le> x" and "x < ae_end b"
  shows "a = b"
proof (rule ccontr)
  assume "a \<noteq> b"
  with assms(1-3) have "addr_disjoint a b" using addr_wf_apart by (auto simp: addr_apart_def)
  with assms(4-7) show False by (auto simp: addr_disjoint_def)
qed

lemma range_end_above: "sz \<noteq> 0 \<Longrightarrow> checked_add start sz = Some stop \<Longrightarrow> start < stop"
  for start sz stop :: usize
  by (auto simp: checked_add_Some_iff word_less_nat_alt unat_gt_0)

lemma addr_publish_wf:
  assumes "addr_wf idx" and "addr_publish owner start sz gate idx = Inr (idx', r)"
  shows "addr_wf idx'"
  using assms
  by (fastforce simp: addr_publish_def addr_wf_def sorted_wrt_append addr_apart_def
      addr_disjoint_def not_less dest: range_end_above
      split: if_splits option.splits)

text \<open>The invariant reads an entry's identity and bounds only.\<close>

definition addr_key :: "'g addr_entry \<Rightarrow> owner_token \<times> usize \<times> usize" where
  "addr_key e = (ae_owner e, ae_start e, ae_end e)"

fun key_apart :: "owner_token \<times> usize \<times> usize \<Rightarrow> owner_token \<times> usize \<times> usize \<Rightarrow> bool" where
  "key_apart (o1, s1, e1) (o2, s2, e2) =
     ((e1 \<le> s2 \<or> e2 \<le> s1) \<and> signature o1 \<noteq> signature o2)"

fun key_ok :: "owner_token \<times> usize \<times> usize \<Rightarrow> bool" where
  "key_ok (own, s, e) = (signature own \<noteq> 0 \<and> s < e)"

lemma addr_wf_keys:
  fixes idx :: "'g addr_index"
  shows "addr_wf idx \<longleftrightarrow>
     list_all key_ok (map addr_key idx) \<and> sorted_wrt key_apart (map addr_key idx)"
proof -
  have "(addr_apart :: 'g addr_entry \<Rightarrow> _) = (\<lambda>a b. key_apart (addr_key a) (addr_key b))"
    by (auto simp: fun_eq_iff addr_apart_def addr_disjoint_def addr_key_def)
  then show ?thesis
    by (simp add: addr_wf_def sorted_wrt_map list_all_iff addr_key_def)
qed

lemma addr_wf_key: "map addr_key xs = map addr_key ys \<Longrightarrow> addr_wf xs = addr_wf ys"
  by (simp only: addr_wf_keys)

lemma addr_wf_update_first:
  "(\<And>e. addr_key (f e) = addr_key e) \<Longrightarrow> addr_wf (update_first p f idx) = addr_wf idx"
  by (rule addr_wf_key) (rule map_update_first)

lemma addr_close_wf: "addr_wf (fst s) \<Longrightarrow> addr_wf (fst (fst (addr_close owner s)))"
  by (auto simp: addr_close_def addr_wf_update_first addr_key_def split: option.splits prod.splits)

lemma addr_retire_wf: "addr_wf idx \<Longrightarrow> addr_wf (fst (addr_retire owner idx))"
  by (auto simp: addr_retire_def addr_wf_def Let_def intro: sorted_wrt_filter)

section \<open>Each operation on every branch\<close>

lemma addr_publish_Inserted_iff:
  "addr_publish owner start sz gate idx = Inr (idx', Inserted) \<longleftrightarrow>
     (\<exists>stop. signature owner \<noteq> 0 \<and> sz \<noteq> 0 \<and> checked_add start sz = Some stop \<and>
       (\<forall>e \<in> set idx. signature (ae_owner e) \<noteq> signature owner) \<and>
       (\<forall>e \<in> set idx. stop \<le> ae_start e \<or> ae_end e \<le> start) \<and>
       idx' = idx @ [\<lparr>ae_owner = owner, ae_start = start, ae_end = stop,
                ae_accepting = True, ae_gate = gate\<rparr>])"
proof (cases "find (\<lambda>e. ae_owner e = owner) idx")
  case None
  have "(\<forall>e \<in> set idx. \<not> (start < ae_end e \<and> ae_start e < stop)) \<longleftrightarrow>
      (\<forall>e \<in> set idx. stop \<le> ae_start e \<or> ae_end e \<le> start)" for stop
    by (auto simp: not_less)
  with None show ?thesis
    by (auto simp: addr_publish_def split: option.splits if_splits)
next
  case (Some e)
  then have "e \<in> set idx" and "ae_owner e = owner" by (auto dest: find_Some_iff_in)
  then have "\<not> (\<forall>e \<in> set idx. signature (ae_owner e) \<noteq> signature owner)" by auto
  with Some show ?thesis by (simp add: addr_publish_def split: option.splits)
qed

lemma addr_publish_unchanged:
  "addr_publish owner start sz gate idx = Inr (idx', AlreadyPresent) \<Longrightarrow>
   idx' = idx \<and> (\<exists>e \<in> set idx. ae_owner e = owner \<and> ae_start e = start \<and> ae_gate e = gate)"
  by (auto simp: addr_publish_def split: option.splits if_splits dest!: find_Some_iff_in)

lemma addr_publish_keeps:
  "addr_publish owner start sz gate idx = Inr (idx', r) \<Longrightarrow> set idx \<subseteq> set idx'"
  by (auto simp: addr_publish_def split: option.splits if_splits)

interpretation addr_retirement: owner_cleanup
  "\<lambda>_. True" "\<lambda>own idx. fst (addr_retire own idx)" "\<lambda>idx own. filter (\<lambda>e. ae_owner e = own) idx"
  by unfold_locales (auto simp: addr_retire_def Let_def intro!: filter_cong)

section \<open>Histories\<close>

datatype 'g addr_op =
    Publish owner_token usize usize 'g
  | CloseAdmission owner_token
  | Retire owner_token

fun addr_apply :: "'g addr_op \<Rightarrow> 'g addr_index \<times> 'g gate_store \<Rightarrow> 'g addr_index \<times> 'g gate_store" where
  "addr_apply (Publish own start sz gate) (idx, gates) =
     (case addr_publish own start sz gate idx of
        Inl _ \<Rightarrow> (idx, gates) | Inr (idx', _) \<Rightarrow> (idx', gates))"
| "addr_apply (CloseAdmission own) s = fst (addr_close own s)"
| "addr_apply (Retire own) (idx, gates) = (fst (addr_retire own idx), gates)"

lemma addr_apply_wf: "addr_wf (fst s) \<Longrightarrow> addr_wf (fst (addr_apply x s))"
  by (cases x; cases s)
    (auto simp: addr_retire_wf addr_close_wf dest: addr_publish_wf split: sum.splits)

lemma addr_fold_wf: "addr_wf (fst s) \<Longrightarrow> addr_wf (fst (fold addr_apply ops s))"
  by (induction ops arbitrary: s) (auto simp: addr_apply_wf)

lemma owner_for_address_iff:
  assumes "addr_wf idx"
  shows "owner_for_address idx x = Some own \<longleftrightarrow>
    (\<exists>e \<in> set idx. ae_owner e = own \<and> ae_start e \<le> x \<and> x < ae_end e)"
proof
  assume "owner_for_address idx x = Some own"
  then show "\<exists>e \<in> set idx. ae_owner e = own \<and> ae_start e \<le> x \<and> x < ae_end e"
    by (auto simp: owner_for_address_def dest!: find_Some_iff_in)
next
  assume "\<exists>e \<in> set idx. ae_owner e = own \<and> ae_start e \<le> x \<and> x < ae_end e"
  then obtain e where e: "e \<in> set idx" "ae_owner e = own" "ae_start e \<le> x" "x < ae_end e"
    by blast
  then obtain e' where f: "find (\<lambda>e. ae_start e \<le> x \<and> x < ae_end e) idx = Some e'"
    by (metis (mono_tags, lifting) find_None_iff option.exhaust)
  with e assms have "e' = e" by (metis (mono_tags, lifting) addr_wf_address_unique find_Some_iff_in)
  with f e show "owner_for_address idx x = Some own" by (simp add: owner_for_address_def)
qed

text \<open>
  C15. Whatever was published, closed and retired, in any order, an address is attributed to
  an owner exactly when one of its mapped images contains it, and then to nobody else.
\<close>
theorem addr_attribution_exact:
  "let idx = fst (fold addr_apply ops (addr_new, gates)) in
     (owner_for_address idx x = Some own \<longleftrightarrow>
        (\<exists>e \<in> set idx. ae_owner e = own \<and> ae_start e \<le> x \<and> x < ae_end e)) \<and>
     card {o'. \<exists>e \<in> set idx. ae_owner e = o' \<and> ae_start e \<le> x \<and> x < ae_end e} \<le> 1"
proof -
  define idx where "idx = fst (fold addr_apply ops (addr_new, gates))"
  have wf: "addr_wf idx" using addr_fold_wf [of "(addr_new, gates)"]
    by (simp add: idx_def addr_new_def)
  have "{o'. \<exists>e \<in> set idx. ae_owner e = o' \<and> ae_start e \<le> x \<and> x < ae_end e} \<subseteq>
      {the (owner_for_address idx x)}"
  proof clarify
    fix e
    assume "e \<in> set idx" and "ae_start e \<le> x" and "x < ae_end e"
    then have "owner_for_address idx x = Some (ae_owner e)"
      using owner_for_address_iff [OF wf] by blast
    then show "ae_owner e = the (owner_for_address idx x)" by simp
  qed
  then have "card {o'. \<exists>e \<in> set idx. ae_owner e = o' \<and> ae_start e \<le> x \<and> x < ae_end e} \<le> 1"
    using card_mono [of "{the (owner_for_address idx x)}"] by fastforce
  with owner_for_address_iff [OF wf] show ?thesis by (simp add: idx_def Let_def)
qed

section \<open>A closed generation stays closed\<close>

text \<open>
  The generation still has its image mapped (so its addresses are attributed), but it is
  closed and so is its gate.
\<close>

definition addr_closed :: "'g addr_entry \<Rightarrow> 'g addr_index \<times> 'g gate_store \<Rightarrow> bool" where
  "addr_closed e s \<longleftrightarrow>
     addr_wf (fst s) \<and> e \<in> set (fst s) \<and> \<not> ae_accepting e \<and> \<not> accepting (snd s (ae_gate e))"

lemma update_first_other: "e \<in> set xs \<Longrightarrow> \<not> p e \<Longrightarrow> e \<in> set (update_first p f xs)"
  by (induction xs) auto

lemma update_first_same: "e \<in> set xs \<Longrightarrow> f e = e \<Longrightarrow> e \<in> set (update_first p f xs)"
  by (induction xs) auto

lemma addr_closed_apply:
  assumes "addr_closed e s" and "x \<noteq> Retire (ae_owner e)"
  shows "addr_closed e (addr_apply x s)"
proof -
  obtain idx gates where s: "s = (idx, gates)" by (cases s)
  have wf: "addr_wf (fst (addr_apply x s))"
    using assms(1) addr_apply_wf [of s x] by (simp add: addr_closed_def)
  have "e \<in> set (fst (addr_apply x s)) \<and> \<not> accepting (snd (addr_apply x s) (ae_gate e))"
    using assms s
    by (cases x)
      (auto simp: addr_closed_def addr_retire_def addr_close_def gate_close_def Let_def
        intro!: update_first_same dest: addr_publish_keeps
        split: sum.splits option.splits)
  with wf assms(1) show ?thesis by (simp add: addr_closed_def)
qed

lemma addr_closed_fold:
  "addr_closed e s \<Longrightarrow> Retire (ae_owner e) \<notin> set ops \<Longrightarrow> addr_closed e (fold addr_apply ops s)"
proof (induction ops arbitrary: s)
  case (Cons x ops)
  then have "addr_closed e (addr_apply x s)" by (intro addr_closed_apply) auto
  with Cons show ?case by simp
qed simp

lemma addr_closed_facts:
  assumes "addr_closed e s"
  shows "\<not> is_current_owner (fst s) (ae_owner e)"
    and "callback_gate_for_current (fst s) (ae_owner e) = None"
    and "gate_try_enter (snd s (ae_gate e)) = (snd s (ae_gate e), False)"
    and "ae_start e \<le> x \<Longrightarrow> x < ae_end e \<Longrightarrow> owner_for_address (fst s) x = Some (ae_owner e)"
proof -
  have wf: "addr_wf (fst s)" and mem: "e \<in> set (fst s)" and cl: "\<not> ae_accepting e"
    and g: "\<not> accepting (snd s (ae_gate e))"
    using assms by (auto simp: addr_closed_def)
  have uniq: "b = e" if "b \<in> set (fst s)" "ae_owner b = ae_owner e" for b
    using addr_wf_owner_unique [OF wf that(1) mem] that(2) by simp
  then show "\<not> is_current_owner (fst s) (ae_owner e)" using cl by (auto simp: is_current_owner_def)
  then show "callback_gate_for_current (fst s) (ae_owner e) = None"
    by (auto simp: is_current_owner_def callback_gate_for_current_def find_None_iff)
  show "gate_try_enter (snd s (ae_gate e)) = (snd s (ae_gate e), False)"
    using g by (simp add: gate_try_enter_def)
  show "ae_start e \<le> x \<Longrightarrow> x < ae_end e \<Longrightarrow> owner_for_address (fst s) x = Some (ae_owner e)"
    using owner_for_address_iff [OF wf] mem by blast
qed

lemma addr_close_closed:
  assumes "addr_wf idx" and "e \<in> set idx"
  shows "addr_closed (e\<lparr>ae_accepting := False\<rparr>) (fst (addr_close (ae_owner e) (idx, gates)))"
proof -
  obtain e' where f: "find (\<lambda>b. ae_owner b = ae_owner e) idx = Some e'"
    using assms(2) by (metis (mono_tags, lifting) find_None_iff option.exhaust)
  then have "e' \<in> set idx" and "ae_owner e' = ae_owner e" by (auto dest: find_Some_iff_in)
  then have "e' = e" using addr_wf_owner_unique [OF assms(1) _ assms(2)] by simp
  with f have f': "find (\<lambda>b. ae_owner b = ae_owner e) idx = Some e" by simp
  have "find p xs = Some y \<Longrightarrow> h y \<in> set (update_first p h xs)" for p xs y
    and h :: "'g addr_entry \<Rightarrow> 'g addr_entry"
    by (induction xs) (auto split: if_splits)
  from this [OF f'] f' assms(1) show ?thesis
    by (simp add: addr_closed_def addr_close_def gate_close_def addr_wf_update_first addr_key_def)
qed

text \<open>
  Closing a generation is final until its image is retired: whatever else is published,
  closed or retired afterwards (republishing the same generation included), it is never a
  current owner again, its gate is handed to no new callback and admits none, and its
  addresses are still attributed to it.
\<close>
theorem addr_close_is_final:
  assumes "s = fold addr_apply before (addr_new, gates)" and "e \<in> set (fst s)"
    and "Retire (ae_owner e) \<notin> set after"
    and "s' = fold addr_apply after (fst (addr_close (ae_owner e) s))"
  shows "\<not> is_current_owner (fst s') (ae_owner e) \<and>
    callback_gate_for_current (fst s') (ae_owner e) = None \<and>
    snd (gate_try_enter (snd s' (ae_gate e))) = False \<and>
    (ae_start e \<le> x \<and> x < ae_end e \<longrightarrow> owner_for_address (fst s') x = Some (ae_owner e))"
proof -
  let ?e = "e\<lparr>ae_accepting := False\<rparr>"
  have "addr_wf (fst s)" using assms(1) addr_fold_wf [of "(addr_new, gates)"]
    by (simp add: addr_new_def)
  then have "addr_closed ?e (fst (addr_close (ae_owner e) s))"
    using addr_close_closed [OF _ assms(2), of "snd s"] by simp
  then have "addr_closed ?e s'" using addr_closed_fold [of ?e] assms(3,4) by simp
  from addr_closed_facts [OF this] show ?thesis by auto
qed

theorem addr_close_is_final_witness:
  "\<not> is_current_owner
     (fst (fold addr_apply [Publish \<lparr>signature = 7, generation = 1\<rparr> 4096 512 (0 :: nat)]
        (fst (addr_close \<lparr>signature = 7, generation = 1\<rparr>
          (fold addr_apply [Publish \<lparr>signature = 7, generation = 1\<rparr> 4096 512 (0 :: nat)]
             (addr_new, \<lambda>_. gate_open))))))
     \<lparr>signature = 7, generation = 1\<rparr>"
proof -
  let ?o = "\<lparr>signature = 7, generation = 1\<rparr> :: owner_token"
  let ?e = "\<lparr>ae_owner = ?o, ae_start = 4096, ae_end = 4608, ae_accepting = True, ae_gate = 0 :: nat\<rparr>"
  let ?s = "fold addr_apply [Publish ?o 4096 512 (0 :: nat)] (addr_new, \<lambda>_. gate_open)"
  have "?s = ([?e], \<lambda>_. gate_open)"
    by (simp add: addr_new_def addr_publish_def checked_add_def)
  then have "?e \<in> set (fst ?s)" by simp
  from addr_close_is_final [OF refl this, of "[Publish ?o 4096 512 (0 :: nat)]", OF _ refl]
  show ?thesis by simp
qed

end
