(* ===== verification/Data_Link.thy ===== *)
theory Data_Link
  imports Nexus_Prelude
begin

text \<open>
  \<open>DataLink\<close> (src/crates/nexus-core/src/data_link.rs): named, zero-initialised, immovable
  allocations shared between addons. The registry is a hash map; it is kept here as the list
  of its pairs in insertion order (nothing in the code depends on the order). An allocation
  is its address and its bytes as created; what native code writes through the raw pointer
  afterwards is outside the model. Whether an allocation succeeds, and at which address, is
  decided by the allocator: an argument.

  \<open>share\<close> holds the lock twice: a lookup under the read lock, and, when that found nothing,
  an insertion under the write lock. Another thread can insert in between, so the two halves
  are separate definitions and the theorems about concurrency interleave them.
\<close>

datatype data_link_error =
    ZeroSize
  | SizeMismatch usize usize
  | AllocationFailed

fun decimal_digits :: "nat \<Rightarrow> string" where
  "decimal_digits n =
     (if n < 10 then [char_of (48 + n)] else decimal_digits (n div 10) @ [char_of (48 + n mod 10)])"

declare decimal_digits.simps [simp del]

definition data_link_error_text :: "data_link_error \<Rightarrow> string" where
  "data_link_error_text e =
     (case e of
        ZeroSize \<Rightarrow> ''DataLink resources cannot be empty''
      | SizeMismatch ex rq \<Rightarrow>
          ''DataLink resource size mismatch: existing '' @ decimal_digits (unat ex) @
          '', requested '' @ decimal_digits (unat rq)
      | AllocationFailed \<Rightarrow> ''DataLink resource allocation failed'')"

record shared_resource =
  sr_address :: usize
  sr_bytes :: "u8 list"

type_synonym data_link = "(string \<times> shared_resource) list"

definition dl_new :: data_link where
  "dl_new = []"

definition handle_len :: "shared_resource \<Rightarrow> usize" where
  "handle_len r = of_nat (length (sr_bytes r))"

definition handle_is_empty :: "shared_resource \<Rightarrow> bool" where
  "handle_is_empty r = (handle_len r = 0)"

definition handle_ptr :: "shared_resource \<Rightarrow> usize" where
  "handle_ptr r = sr_address r"

text \<open>\<open>try_reserve_exact\<close> either fails or yields the address of the new block.\<close>

definition sr_zeroed :: "usize option \<Rightarrow> usize \<Rightarrow> data_link_error + shared_resource" where
  "sr_zeroed alloc sz =
     (case alloc of
        None \<Rightarrow> Inl AllocationFailed
      | Some address \<Rightarrow> Inr \<lparr>sr_address = address, sr_bytes = replicate (unat sz) 0\<rparr>)"

definition dl_get :: "data_link \<Rightarrow> string \<Rightarrow> shared_resource option" where
  "dl_get dl ident = map_of dl ident"

definition size_checked ::
  "shared_resource \<Rightarrow> usize \<Rightarrow> data_link_error + shared_resource"
where
  "size_checked handle requested =
     (let existing = handle_len handle
      in if existing = requested then Inr handle else Inl (SizeMismatch existing requested))"

text \<open>First half: \<open>None\<close> means a candidate has to be created.\<close>

definition dl_share_lookup ::
  "string \<Rightarrow> usize \<Rightarrow> data_link \<Rightarrow> (data_link_error + shared_resource) option"
where
  "dl_share_lookup ident sz dl =
     (if sz = 0 then Some (Inl ZeroSize)
      else case dl_get dl ident of
        Some handle \<Rightarrow> Some (size_checked handle sz)
      | None \<Rightarrow> None)"

text \<open>Second half: \<open>entry(..).or_insert_with\<close> keeps what is there already.\<close>

definition dl_share_insert ::
  "string \<Rightarrow> usize \<Rightarrow> usize option \<Rightarrow> data_link \<Rightarrow>
   data_link \<times> (data_link_error + shared_resource)"
where
  "dl_share_insert ident sz alloc dl =
     (case sr_zeroed alloc sz of
        Inl e \<Rightarrow> (dl, Inl e)
      | Inr candidate \<Rightarrow>
          (case dl_get dl ident of
             Some handle \<Rightarrow> (dl, size_checked handle sz)
           | None \<Rightarrow> (dl @ [(ident, candidate)], size_checked candidate sz)))"

definition dl_share ::
  "string \<Rightarrow> usize \<Rightarrow> usize option \<Rightarrow> data_link \<Rightarrow>
   data_link \<times> (data_link_error + shared_resource)"
where
  "dl_share ident sz alloc dl =
     (case dl_share_lookup ident sz dl of
        Some r \<Rightarrow> (dl, r)
      | None \<Rightarrow> dl_share_insert ident sz alloc dl)"

definition resource_count :: "data_link \<Rightarrow> nat" where
  "resource_count dl = length dl"

section \<open>Invariant and stability\<close>

definition dl_wf :: "data_link \<Rightarrow> bool" where
  "dl_wf dl \<longleftrightarrow> distinct (map fst dl) \<and>
     (\<forall>(k, r) \<in> set dl. sr_bytes r \<noteq> [] \<and> length (sr_bytes r) < 2 ^ 64 \<and> set (sr_bytes r) = {0})"

lemma dl_wf_new [simp]: "dl_wf dl_new"
  by (simp add: dl_wf_def dl_new_def)

lemma dl_get_insert:
  "dl_get (fst (dl_share_insert ident sz alloc dl)) =
     (case dl_get dl ident of
        None \<Rightarrow> (case alloc of None \<Rightarrow> dl_get dl
          | Some a \<Rightarrow> (dl_get dl)(ident \<mapsto> \<lparr>sr_address = a, sr_bytes = replicate (unat sz) 0\<rparr>))
      | Some _ \<Rightarrow> dl_get dl)"
  by (auto simp: dl_share_insert_def dl_get_def sr_zeroed_def fun_eq_iff map_add_def
      split: option.splits)

lemma dl_wf_insert:
  assumes "dl_wf dl" and "sz \<noteq> 0"
  shows "dl_wf (fst (dl_share_insert ident sz alloc dl))"
proof (cases "dl_get dl ident")
  case None
  then have "ident \<notin> fst ` set dl" by (simp add: dl_get_def map_of_eq_None_iff)
  moreover have "0 < unat sz" and "unat sz < 2 ^ 64"
    using assms(2) unsigned_less [of sz] by (simp_all add: unat_gt_0)
  ultimately show ?thesis using assms(1) None
    by (auto simp: dl_wf_def dl_share_insert_def sr_zeroed_def split: option.splits)
qed (use assms(1) in \<open>simp add: dl_share_insert_def sr_zeroed_def split: option.splits\<close>)

text \<open>An identifier, once bound, keeps its allocation: address, size and owner.\<close>

lemma dl_insert_stable:
  "dl_get dl k = Some r \<Longrightarrow> dl_get (fst (dl_share_insert ident sz alloc dl)) k = Some r"
  by (auto simp: dl_get_insert split: option.splits)

section \<open>Interleaved sharers\<close>

text \<open>
  A history of second halves, each the continuation of a first half that ran at any earlier
  time (and so with a non-zero size); first halves change nothing.
\<close>

fun dl_inserts :: "(string \<times> usize \<times> usize option) list \<Rightarrow> data_link \<Rightarrow> data_link" where
  "dl_inserts [] dl = dl"
| "dl_inserts ((ident, sz, alloc) # rest) dl =
     dl_inserts rest (if sz = 0 then dl else fst (dl_share_insert ident sz alloc dl))"

lemma dl_inserts_wf: "dl_wf dl \<Longrightarrow> dl_wf (dl_inserts hs dl)"
  by (induction hs dl rule: dl_inserts.induct) (auto simp: dl_wf_insert)

lemma dl_inserts_stable: "dl_get dl k = Some r \<Longrightarrow> dl_get (dl_inserts hs dl) k = Some r"
  by (induction hs dl rule: dl_inserts.induct) (auto simp: dl_insert_stable)

lemma dl_insert_result:
  assumes "sz \<noteq> 0" and "dl_share_insert ident sz alloc dl = (dl', Inr handle)"
  shows "dl_get dl' ident = Some handle \<and> handle_len handle = sz"
  using assms
  by (auto simp: dl_share_insert_def sr_zeroed_def size_checked_def dl_get_def Let_def
      map_add_def split: option.splits sum.splits if_splits)

lemma dl_share_result:
  assumes "dl_share ident sz alloc dl = (dl', Inr handle)"
  shows "dl_get dl' ident = Some handle \<and> handle_len handle = sz \<and> sz \<noteq> 0"
  using assms dl_insert_result [of sz ident alloc dl dl' handle]
  by (auto simp: dl_share_def dl_share_lookup_def size_checked_def Let_def
      split: option.splits if_splits)

text \<open>
  Concurrent creation converges: one caller has been given \<open>handle\<close> for an identifier;
  any number of other sharers then insert, and a second caller who started before all of that
  (its lookup found nothing) completes. It gets the very same allocation when it asked for
  the same size, the size mismatch of that allocation otherwise, or the allocator's failure;
  and the first handle is still what \<open>get\<close> returns.
\<close>
theorem dl_concurrent_share_converges:
  assumes "sz1 \<noteq> 0" and "sz2 \<noteq> 0"
    and "dl_share_insert ident sz1 a1 dl = (dl1, Inr handle)"
    and "dl_share_insert ident sz2 a2 (dl_inserts others dl1) = (dl2, r)"
  shows "dl_get dl2 ident = Some handle \<and> dl2 = dl_inserts others dl1 \<and>
    r = (if a2 = None then Inl AllocationFailed
         else if sz2 = sz1 then Inr handle else Inl (SizeMismatch sz1 sz2))"
proof -
  have h: "dl_get dl1 ident = Some handle" "handle_len handle = sz1"
    using dl_insert_result [OF assms(1,3)] by auto
  then have g: "dl_get (dl_inserts others dl1) ident = Some handle" by (simp add: dl_inserts_stable)
  with assms(4) h(2) show ?thesis
    by (auto simp: dl_share_insert_def sr_zeroed_def size_checked_def Let_def
        split: option.splits)
qed

theorem dl_concurrent_share_converges_witness:
  "snd (dl_share_insert ''shared'' 16 (Some 9000)
     (dl_inserts [(''other'', 8, Some 5000)]
       (fst (dl_share_insert ''shared'' 16 (Some 4096) dl_new)))) =
   Inr \<lparr>sr_address = 4096, sr_bytes = replicate 16 0\<rparr>"
proof -
  let ?h = "\<lparr>sr_address = 4096, sr_bytes = replicate 16 0\<rparr>"
  have first: "dl_share_insert ''shared'' 16 (Some 4096) dl_new = ([(''shared'', ?h)], Inr ?h)"
    by (simp add: dl_share_insert_def sr_zeroed_def dl_get_def dl_new_def size_checked_def
        handle_len_def)
  from dl_concurrent_share_converges [OF _ _ first, of 16 "Some 9000" "[(''other'', 8, Some 5000)]",
      OF _ _ surjective_pairing]
  show ?thesis by (simp add: first)
qed

section \<open>What the registry promises\<close>

text \<open>
  The abstract registry: sizes that are written once. \<open>dl_abs\<close> forgets the allocations.
\<close>

definition dl_abs :: "data_link \<Rightarrow> string \<Rightarrow> usize option" where
  "dl_abs dl = (\<lambda>k. map_option handle_len (dl_get dl k))"

fun spec_share ::
  "string \<Rightarrow> usize \<Rightarrow> bool \<Rightarrow> (string \<Rightarrow> usize option) \<Rightarrow>
   (string \<Rightarrow> usize option) \<times> (data_link_error + usize)"
where
  "spec_share ident sz can_allocate m =
     (if sz = 0 then (m, Inl ZeroSize)
      else case m ident of
        Some n \<Rightarrow> (m, if n = sz then Inr n else Inl (SizeMismatch n sz))
      | None \<Rightarrow> if can_allocate then (m(ident \<mapsto> sz), Inr sz) else (m, Inl AllocationFailed))"

text \<open>
  \<open>share\<close> refines the write-once table of sizes, errors included; the memory it hands
  out is never empty.
\<close>
theorem dl_share_refines:
  "(let (dl', r) = dl_share ident sz alloc dl
    in (dl_abs dl', map_sum id handle_len r)) = spec_share ident sz (alloc \<noteq> None) (dl_abs dl)"
proof (cases "dl_get dl ident")
  case None
  have "map_option handle_len (dl_get (dl @ [(ident, c)]) k) =
      (if k = ident then Some (handle_len c) else map_option handle_len (dl_get dl k))" for c k
    using None by (auto simp: dl_get_def map_add_def split: option.splits)
  with None show ?thesis
    by (auto simp: dl_share_def dl_share_lookup_def dl_share_insert_def sr_zeroed_def
        size_checked_def dl_abs_def handle_len_def fun_eq_iff split: option.splits)
next
  case (Some h)
  then show ?thesis
    by (auto simp: dl_share_def dl_share_lookup_def size_checked_def dl_abs_def Let_def)
qed

end
