(* ===== verification/Event_Admission.thy ===== *)
theory Event_Admission
  imports Admission_Contract
begin

text \<open>
  \<open>CallbackAdmission\<close> (src/crates/nexus-core/src/events.rs): the gate of one event
  subscription. It counts the native frames in flight, in total and per thread, so that a
  thread that unsubscribes a callback can wait for the other threads without waiting for
  itself. Each method is one critical section of the admission's mutex.
\<close>

type_synonym thread_id = nat

record admission =
  ad_accepting :: bool
  ad_in_flight :: usize
  ad_by_thread :: "thread_id \<rightharpoonup> usize"

definition admission_open :: admission where
  "admission_open = \<lparr>ad_accepting = True, ad_in_flight = 0, ad_by_thread = Map.empty\<rparr>"

definition thread_count :: "admission \<Rightarrow> thread_id \<Rightarrow> usize" where
  "thread_count a t = (case ad_by_thread a t of None \<Rightarrow> 0 | Some n \<Rightarrow> n)"

definition admission_try_enter :: "thread_id \<Rightarrow> admission \<Rightarrow> admission option" where
  "admission_try_enter t a =
     (if \<not> ad_accepting a then None
      else case checked_add (ad_in_flight a) 1 of
        None \<Rightarrow> None
      | Some n_all \<Rightarrow>
          (case checked_add (thread_count a t) 1 of
             None \<Rightarrow> None
           | Some n_own \<Rightarrow>
               Some (a\<lparr>ad_in_flight := n_all, ad_by_thread := (ad_by_thread a)(t \<mapsto> n_own)\<rparr>)))"

definition admission_close :: "admission \<Rightarrow> admission" where
  "admission_close a = a\<lparr>ad_accepting := False\<rparr>"

definition admission_leave :: "thread_id \<Rightarrow> admission \<Rightarrow> admission" where
  "admission_leave t a =
     (let a' = a\<lparr>ad_in_flight := saturating_sub (ad_in_flight a) 1\<rparr>
      in case ad_by_thread a t of
        None \<Rightarrow> a'
      | Some n_own \<Rightarrow>
          (let left = saturating_sub n_own 1
           in if left = 0 then a'\<lparr>ad_by_thread := (ad_by_thread a)(t := None)\<rparr>
              else a'\<lparr>ad_by_thread := (ad_by_thread a)(t \<mapsto> left)\<rparr>))"

text \<open>
  \<open>wait_for_other_threads\<close>: the condition its loop tests, and the loop over the states the
  thread finds each time it holds the mutex (\<open>None\<close>: still waiting).
\<close>

definition others_left :: "thread_id \<Rightarrow> admission \<Rightarrow> bool" where
  "others_left t a \<longleftrightarrow> ad_in_flight a \<le> thread_count a t"

fun wait_for_other_threads :: "thread_id \<Rightarrow> admission list \<Rightarrow> unit option" where
  "wait_for_other_threads t [] = None"
| "wait_for_other_threads t (a # rest) =
     (if others_left t a then Some () else wait_for_other_threads t rest)"

lemma wait_returns_iff:
  "wait_for_other_threads t as = Some () \<longleftrightarrow> (\<exists>a \<in> set as. others_left t a)"
  by (induction t as rule: wait_for_other_threads.induct) auto

section \<open>Counting\<close>

definition admission_load :: "admission \<Rightarrow> nat" where
  "admission_load a = unat (ad_in_flight a)"

lemma try_enter_facts:
  "admission_try_enter t a = Some a' \<Longrightarrow>
     ad_accepting a \<and> ad_accepting a' \<and>
     unat (ad_in_flight a') = Suc (unat (ad_in_flight a)) \<and>
     unat (thread_count a' u) = unat (thread_count a u) + (if u = t then 1 else 0)"
  by (auto simp: admission_try_enter_def thread_count_def checked_add_Some_iff
      split: if_splits option.splits)

lemma admission_leave_facts:
  "ad_accepting (admission_leave t a) = ad_accepting a \<and>
   unat (ad_in_flight (admission_leave t a)) = unat (ad_in_flight a) - 1 \<and>
   unat (thread_count (admission_leave t a) u) =
     unat (thread_count a u) - (if u = t then 1 else 0)"
proof (cases "ad_by_thread a t")
  case None
  then show ?thesis
    by (auto simp: admission_leave_def thread_count_def unat_saturating_sub)
next
  case (Some n)
  have u: "unat (saturating_sub n 1) = unat n - 1" by (simp add: unat_saturating_sub)
  show ?thesis
  proof (cases "saturating_sub n 1 = 0")
    case True
    with u have "unat n - 1 = 0" by simp
    with True Some show ?thesis
      by (simp add: admission_leave_def thread_count_def unat_saturating_sub)
  next
    case False
    with Some u show ?thesis
      by (simp add: admission_leave_def thread_count_def unat_saturating_sub)
  qed
qed

lemma admission_close_facts [simp]:
  "ad_accepting (admission_close a) = False"
  "ad_in_flight (admission_close a) = ad_in_flight a"
  "thread_count (admission_close a) t = thread_count a t"
  by (simp_all add: admission_close_def thread_count_def)

lemma try_enter_closed [simp]: "\<not> ad_accepting a \<Longrightarrow> admission_try_enter t a = None"
  by (simp add: admission_try_enter_def)

interpretation ca: admission_control
  admission_try_enter admission_leave admission_close ad_accepting admission_load "2 ^ 64 - 1"
  by unfold_locales
    (auto simp: admission_load_def admission_leave_facts dest: try_enter_facts)

end
