(* ===== verification/Event_Bus.thy ===== *)
theory Event_Bus
  imports Owner_Token Event_Admission
begin

text \<open>
  \<open>EventBus\<close> (src/crates/nexus-core/src/events.rs): the synchronous ordered event registry.
  A subscription refers to its admission gate by identity (\<open>Arc\<close>), so the gates live in a
  store and the registry, the retirement lists and the frames of running dispatches share
  them. \<open>Subscription::new\<close> takes the next identity of the store for the gate and for the
  token. The registry's hash maps are association lists (subscriptions, whose iteration order
  the code leaves open) and partial maps.

  A method that takes the registry lock once is one definition on the world; a method that
  takes it several times is split where it lets go. Handlers are foreign code: \<open>handlers\<close>
  maps a handler to what calling it does to the world (it may use the bus again) and whether
  it panicked.
\<close>

section \<open>Data\<close>

datatype event_registration_error = OwnerRetired

definition event_error_text :: "event_registration_error \<Rightarrow> string" where
  "event_error_text e = (case e of OwnerRetired \<Rightarrow> ''the event owner generation is retired'')"

record owner_retirement =
  ret_retired :: usize
  ret_in_flight :: usize

definition quiescent :: "owner_retirement \<Rightarrow> bool" where
  "quiescent r = (ret_in_flight r = 0)"

type_synonym arc = nat
type_synonym handler = nat

record subscription =
  su_owner :: owner_token
  su_callback :: callback_id
  su_handler :: handler
  su_admission :: arc
  su_token :: arc

record dispatch_entry =
  de_owner :: owner_token
  de_handler :: handler
  de_admission :: arc

record dispatch_report =
  dr_invoked :: usize
  dr_panicked :: usize

record event_registry =
  er_subscriptions :: "(string \<times> subscription list) list"
  er_retired :: "u32 \<rightharpoonup> u64"
  er_retiring :: "owner_token \<rightharpoonup> arc list"

record event_world =
  ew_registry :: event_registry
  ew_admission :: "arc \<Rightarrow> admission"
  ew_next :: arc

record retirement_batch =
  rb_subscriptions :: "subscription list"
  rb_owners :: "owner_token list"

definition event_bus_new :: event_world where
  "event_bus_new =
     \<lparr>ew_registry = \<lparr>er_subscriptions = [], er_retired = Map.empty, er_retiring = Map.empty\<rparr>,
      ew_admission = (\<lambda>_. admission_open), ew_next = 0\<rparr>"

definition subscription_new ::
  "owner_token \<Rightarrow> callback_id \<Rightarrow> handler \<Rightarrow> event_world \<Rightarrow> event_world \<times> subscription"
where
  "subscription_new owner cb h w =
     (w\<lparr>ew_admission := (ew_admission w)(ew_next w := admission_open), ew_next := ew_next w + 1\<rparr>,
      \<lparr>su_owner = owner, su_callback = cb, su_handler = h,
       su_admission = ew_next w, su_token = ew_next w\<rparr>)"

definition dispatch_entry_of :: "subscription \<Rightarrow> dispatch_entry" where
  "dispatch_entry_of s =
     \<lparr>de_owner = su_owner s, de_handler = su_handler s, de_admission = su_admission s\<rparr>"

definition push_owner :: "owner_token list \<Rightarrow> owner_token \<Rightarrow> owner_token list" where
  "push_owner os own = (if own \<in> set os then os else os @ [own])"

section \<open>Registration\<close>

definition owner_retired :: "event_registry \<Rightarrow> owner_token \<Rightarrow> bool" where
  "owner_retired reg own =
     (case er_retired reg (signature own) of
        None \<Rightarrow> False | Some g \<Rightarrow> generation own \<le> g)"

definition push_subscription ::
  "string \<Rightarrow> subscription \<Rightarrow> (string \<times> subscription list) list \<Rightarrow>
   (string \<times> subscription list) list"
where
  "push_subscription ident s m =
     (case map_of m ident of
        None \<Rightarrow> m @ [(ident, [s])]
      | Some _ \<Rightarrow> bt_update ident (\<lambda>l. l @ [s]) m)"

definition subscribe ::
  "string \<Rightarrow> subscription \<Rightarrow> event_world \<Rightarrow> event_world \<times> (event_registration_error + arc)"
where
  "subscribe ident s w =
     (let reg = ew_registry w
      in if owner_retired reg (su_owner s) then (w, Inl OwnerRetired)
         else (w\<lparr>ew_registry :=
                 reg\<lparr>er_subscriptions := push_subscription ident s (er_subscriptions reg)\<rparr>\<rparr>,
               Inr (su_token s)))"

definition subscription_count :: "event_world \<Rightarrow> usize" where
  "subscription_count w =
     fold (\<lambda>p n. saturating_add n (of_nat (length (snd p))))
       (er_subscriptions (ew_registry w)) 0"

section \<open>Retirement\<close>

text \<open>
  \<open>stage_retirement\<close>: each removed subscription's gate is closed and remembered under its
  owner; the owners met are returned without repetition.
\<close>

fun stage_retirement ::
  "subscription list \<Rightarrow> event_world \<Rightarrow> owner_token list \<Rightarrow> event_world \<times> owner_token list"
where
  "stage_retirement [] w os = (w, os)"
| "stage_retirement (s # ss) w os =
     (let a = su_admission s; reg = ew_registry w;
          old = (case er_retiring reg (su_owner s) of None \<Rightarrow> [] | Some l \<Rightarrow> l)
      in stage_retirement ss
           (w\<lparr>ew_admission := (ew_admission w)(a := admission_close (ew_admission w a)),
              ew_registry := reg\<lparr>er_retiring := (er_retiring reg)(su_owner s \<mapsto> old @ [a])\<rparr>\<rparr>)
           (push_owner os (su_owner s)))"

definition set_subscriptions ::
  "(string \<times> subscription list) list \<Rightarrow> event_world \<Rightarrow> event_world"
where
  "set_subscriptions m w = w\<lparr>ew_registry := (ew_registry w)\<lparr>er_subscriptions := m\<rparr>\<rparr>"

definition retire_matching ::
  "string \<Rightarrow> (subscription \<Rightarrow> bool) \<Rightarrow> event_world \<Rightarrow> event_world \<times> retirement_batch"
where
  "retire_matching ident matches w =
     (let m = er_subscriptions (ew_registry w)
      in case map_of m ident of
        None \<Rightarrow> (w, \<lparr>rb_subscriptions = [], rb_owners = []\<rparr>)
      | Some callbacks \<Rightarrow>
          (let removed = filter matches callbacks;
               kept = filter (\<lambda>s. \<not> matches s) callbacks;
               m' = (if kept = [] then bt_remove ident m else bt_update ident (\<lambda>_. kept) m);
               (w', owners) = stage_retirement removed (set_subscriptions m' w) []
           in (w', \<lparr>rb_subscriptions = removed, rb_owners = owners\<rparr>)))"

definition retiring_of :: "event_world \<Rightarrow> owner_token \<Rightarrow> arc list" where
  "retiring_of w own = (case er_retiring (ew_registry w) own of None \<Rightarrow> [] | Some l \<Rightarrow> l)"

definition drop_retiring :: "owner_token \<Rightarrow> event_world \<Rightarrow> event_world" where
  "drop_retiring own w =
     w\<lparr>ew_registry := (ew_registry w)
         \<lparr>er_retiring := (er_retiring (ew_registry w))(own := None)\<rparr>\<rparr>"

definition reap_quiescent :: "owner_token \<Rightarrow> event_world \<Rightarrow> event_world" where
  "reap_quiescent own w =
     (if \<forall>a \<in> set (retiring_of w own). ad_in_flight (ew_admission w a) = 0
      then drop_retiring own w else w)"

definition owner_retirement_report ::
  "owner_token \<Rightarrow> usize \<Rightarrow> event_world \<Rightarrow> event_world \<times> owner_retirement"
where
  "owner_retirement_report own retired w =
     (let n = fold (\<lambda>a n. saturating_add n (ad_in_flight (ew_admission w a)))
                (retiring_of w own) 0
      in (if n = 0 then drop_retiring own w else w,
          \<lparr>ret_retired = retired, ret_in_flight = n\<rparr>))"

definition own_removed :: "owner_token \<Rightarrow> (string \<times> subscription list) list \<Rightarrow> subscription list"
where
  "own_removed own m = concat (map (\<lambda>p. filter (\<lambda>s. su_owner s = own) (snd p)) m)"

definition own_kept ::
  "owner_token \<Rightarrow> (string \<times> subscription list) list \<Rightarrow> (string \<times> subscription list) list"
where
  "own_kept own m =
     filter (\<lambda>p. snd p \<noteq> []) (map (\<lambda>p. (fst p, filter (\<lambda>s. su_owner s \<noteq> own) (snd p))) m)"

text \<open>First critical section of \<open>remove_owner\<close>: the generation is retired, its entries leave.\<close>

definition remove_owner_stage ::
  "owner_token \<Rightarrow> event_world \<Rightarrow> event_world \<times> retirement_batch"
where
  "remove_owner_stage own w =
     (let reg = ew_registry w;
          g = (case er_retired reg (signature own) of None \<Rightarrow> generation own | Some g \<Rightarrow> g);
          m = er_subscriptions reg;
          w1 = w\<lparr>ew_registry := reg
                  \<lparr>er_retired := (er_retired reg)(signature own \<mapsto> max g (generation own)),
                   er_subscriptions := own_kept own m\<rparr>\<rparr>;
          (w2, owners) = stage_retirement (own_removed own m) w1 []
      in (w2, \<lparr>rb_subscriptions = own_removed own m, rb_owners = owners\<rparr>))"

definition remove_owner :: "owner_token \<Rightarrow> event_world \<Rightarrow> event_world \<times> owner_retirement" where
  "remove_owner own w =
     (let (w', batch) = remove_owner_stage own w
      in owner_retirement_report own (of_nat (length (rb_subscriptions batch))) w')"

text \<open>
  \<open>finish_exact_retirement\<close> on thread \<open>t\<close> when nobody else moves: it blocks (\<open>None\<close>) unless
  every removed callback has no frame on another thread.
\<close>

definition finish_exact_retirement ::
  "thread_id \<Rightarrow> event_world \<times> retirement_batch \<Rightarrow> (event_world \<times> usize) option"
where
  "finish_exact_retirement t wb =
     (case wb of (w, batch) \<Rightarrow>
        if \<forall>s \<in> set (rb_subscriptions batch). others_left t (ew_admission w (su_admission s))
        then Some (fold reap_quiescent (rb_owners batch) w,
                   of_nat (length (rb_subscriptions batch)))
        else None)"

definition unsubscribe_registration ::
  "thread_id \<Rightarrow> string \<Rightarrow> arc \<Rightarrow> event_world \<Rightarrow> (event_world \<times> bool) option"
where
  "unsubscribe_registration t ident token w =
     (let (w', batch) = retire_matching ident (\<lambda>s. su_token s = token) w
      in map_option (\<lambda>r. (fst r, rb_subscriptions batch \<noteq> []))
           (finish_exact_retirement t (w', batch)))"

definition unsubscribe ::
  "thread_id \<Rightarrow> string \<Rightarrow> callback_id \<Rightarrow> event_world \<Rightarrow> (event_world \<times> usize) option"
where
  "unsubscribe t ident cb w =
     finish_exact_retirement t (retire_matching ident (\<lambda>s. su_callback s = cb) w)"

definition unsubscribe_owner ::
  "thread_id \<Rightarrow> string \<Rightarrow> owner_token \<Rightarrow> callback_id \<Rightarrow> event_world \<Rightarrow>
   (event_world \<times> usize) option"
where
  "unsubscribe_owner t ident own cb w =
     finish_exact_retirement t
       (retire_matching ident (\<lambda>s. su_owner s = own \<and> su_callback s = cb) w)"

section \<open>Dispatch\<close>

definition snapshot ::
  "string \<Rightarrow> (owner_token \<Rightarrow> bool) \<Rightarrow> event_world \<Rightarrow> dispatch_entry list"
where
  "snapshot ident filt w =
     (case map_of (er_subscriptions (ew_registry w)) ident of
        None \<Rightarrow> []
      | Some l \<Rightarrow> map dispatch_entry_of (filter (\<lambda>s. filt (su_owner s)) l))"

definition set_admission :: "arc \<Rightarrow> admission \<Rightarrow> event_world \<Rightarrow> event_world" where
  "set_admission a x w = w\<lparr>ew_admission := (ew_admission w)(a := x)\<rparr>"

fun dispatch_loop ::
  "(handler \<Rightarrow> event_world \<Rightarrow> event_world \<times> bool) \<Rightarrow> thread_id \<Rightarrow> dispatch_entry list \<Rightarrow>
   owner_token list \<Rightarrow> dispatch_report \<Rightarrow> event_world \<Rightarrow>
   event_world \<times> owner_token list \<times> dispatch_report"
where
  "dispatch_loop handlers t [] os rep w = (w, os, rep)"
| "dispatch_loop handlers t (e # es) os rep w =
     (case admission_try_enter t (ew_admission w (de_admission e)) of
        None \<Rightarrow> dispatch_loop handlers t es (push_owner os (de_owner e)) rep w
      | Some a \<Rightarrow>
          (let (w', panicked) = handlers (de_handler e) (set_admission (de_admission e) a w);
               rep' = rep\<lparr>dr_invoked := saturating_add (dr_invoked rep) 1,
                          dr_panicked := (if panicked then saturating_add (dr_panicked rep) 1
                                          else dr_panicked rep)\<rparr>;
               w'' = set_admission (de_admission e)
                       (admission_leave t (ew_admission w' (de_admission e))) w'
           in dispatch_loop handlers t es (push_owner os (de_owner e)) rep' w''))"

definition dispatch ::
  "(handler \<Rightarrow> event_world \<Rightarrow> event_world \<times> bool) \<Rightarrow> thread_id \<Rightarrow> string \<Rightarrow>
   (owner_token \<Rightarrow> bool) \<Rightarrow> event_world \<Rightarrow> event_world \<times> dispatch_report"
where
  "dispatch handlers t ident filt w =
     (let (w', os, rep) = dispatch_loop handlers t (snapshot ident filt w) []
                            \<lparr>dr_invoked = 0, dr_panicked = 0\<rparr> w
      in (fold reap_quiescent os w', rep))"

definition raise ::
  "(handler \<Rightarrow> event_world \<Rightarrow> event_world \<times> bool) \<Rightarrow> thread_id \<Rightarrow> string \<Rightarrow> event_world \<Rightarrow>
   event_world \<times> dispatch_report"
where
  "raise handlers t ident w = dispatch handlers t ident (\<lambda>_. True) w"

definition raise_targeted ::
  "(handler \<Rightarrow> event_world \<Rightarrow> event_world \<times> bool) \<Rightarrow> thread_id \<Rightarrow> u32 \<Rightarrow> string \<Rightarrow>
   event_world \<Rightarrow> event_world \<times> dispatch_report"
where
  "raise_targeted handlers t sig ident w =
     dispatch handlers t ident (\<lambda>own. signature own = sig) w"

end
