(* ===== verification/Event_Safety.thy ===== *)
theory Event_Safety
  imports Event_Bus
begin

text \<open>
  The event bus under interleaving: every method of \<open>EventBus\<close> is cut where it releases the
  registry lock, and any number of dispatches and retirements are in progress at once, on any
  threads, nested or not. The theorems are the two guarantees native code is unloaded on:
  a quiescent retirement report is final, and \<open>unsubscribe\<close> returns only when no other
  thread still runs the callback.
\<close>

section \<open>What the critical sections change\<close>

definition registered :: "event_world \<Rightarrow> subscription list" where
  "registered w = concat (map snd (er_subscriptions (ew_registry w)))"

definition keys_distinct :: "event_world \<Rightarrow> bool" where
  "keys_distinct w \<longleftrightarrow> distinct (map fst (er_subscriptions (ew_registry w)))"

lemma registered_mem:
  "s \<in> set (registered w) \<longleftrightarrow> (\<exists>p \<in> set (er_subscriptions (ew_registry w)). s \<in> set (snd p))"
  by (auto simp: registered_def)

lemma registered_set_subscriptions [simp]:
  "registered (set_subscriptions m w) = concat (map snd m)"
  "ew_admission (set_subscriptions m w) = ew_admission w"
  "ew_next (set_subscriptions m w) = ew_next w"
  "retiring_of (set_subscriptions m w) own = retiring_of w own"
  "er_retired (ew_registry (set_subscriptions m w)) = er_retired (ew_registry w)"
  "er_subscriptions (ew_registry (set_subscriptions m w)) = m"
  by (simp_all add: registered_def set_subscriptions_def retiring_of_def)

lemma stage_retirement_effect:
  assumes "stage_retirement ss w os = (w', os')"
  shows "er_subscriptions (ew_registry w') = er_subscriptions (ew_registry w) \<and>
    er_retired (ew_registry w') = er_retired (ew_registry w) \<and> ew_next w' = ew_next w \<and>
    (\<forall>a. ew_admission w' a =
      (if a \<in> su_admission ` set ss then admission_close (ew_admission w a)
       else ew_admission w a)) \<and>
    (\<forall>own. retiring_of w' own =
      retiring_of w own @ map su_admission (filter (\<lambda>s. su_owner s = own) ss)) \<and>
    set os' = set os \<union> su_owner ` set ss"
  using assms
proof (induction ss w os rule: stage_retirement.induct)
  case (2 s ss w os)
  have idem: "admission_close (admission_close x) = admission_close x" for x
    by (simp add: admission_close_def)
  from 2 show ?case
    by (force simp: Let_def retiring_of_def push_owner_def idem split: option.splits if_splits)
qed simp

lemma fold_saturating_zero:
  "fold (\<lambda>a n. saturating_add n (f a)) as (x :: usize) = 0 \<longleftrightarrow> x = 0 \<and> (\<forall>a \<in> set as. f a = 0)"
proof (induction as arbitrary: x)
  case (Cons a as)
  have "saturating_add x (f a) = 0 \<longleftrightarrow> x = 0 \<and> f a = 0" by (rule saturating_add_zero_iff)
  with Cons show ?case by auto
qed simp

lemma drop_retiring_effect [simp]:
  "ew_admission (drop_retiring own w) = ew_admission w"
  "registered (drop_retiring own w) = registered w"
  "keys_distinct (drop_retiring own w) = keys_distinct w"
  "ew_next (drop_retiring own w) = ew_next w"
  "er_retired (ew_registry (drop_retiring own w)) = er_retired (ew_registry w)"
  "retiring_of (drop_retiring own w) o' = (if o' = own then [] else retiring_of w o')"
  by (simp_all add: drop_retiring_def registered_def keys_distinct_def retiring_of_def)

text \<open>Reaping and reporting only ever forget drained gates.\<close>

definition all_drained :: "event_world \<Rightarrow> owner_token \<Rightarrow> bool" where
  "all_drained w own \<longleftrightarrow> (\<forall>a \<in> set (retiring_of w own). ad_in_flight (ew_admission w a) = 0)"

lemma reap_quiescent_cases:
  "reap_quiescent own w = (if all_drained w own then drop_retiring own w else w)"
  by (simp add: reap_quiescent_def all_drained_def)

lemma owner_retirement_report_cases:
  "fst (owner_retirement_report own n w) = (if all_drained w own then drop_retiring own w else w)"
  "quiescent (snd (owner_retirement_report own n w)) \<longleftrightarrow> all_drained w own"
  by (auto simp: owner_retirement_report_def all_drained_def quiescent_def Let_def
      fold_saturating_zero)

text \<open>The subscriptions filed under other identifiers.\<close>

definition elsewhere :: "string \<Rightarrow> (string \<times> subscription list) list \<Rightarrow> subscription set" where
  "elsewhere ident m = {s. \<exists>p \<in> set m. fst p \<noteq> ident \<and> s \<in> set (snd p)}"

lemma concat_bt_remove: "set (concat (map snd (bt_remove ident m))) = elsewhere ident m"
  by (auto simp: bt_remove_def elsewhere_def)

lemma concat_bt_update:
  assumes "(ident, l) \<in> set m"
  shows "set (concat (map snd (bt_update ident (\<lambda>_. ys) m))) = set ys \<union> elsewhere ident m"
proof (rule set_eqI)
  fix s
  have "s \<in> set (concat (map snd (bt_update ident (\<lambda>_. ys) m))) \<longleftrightarrow>
      (\<exists>p \<in> set m. if fst p = ident then s \<in> set ys else s \<in> set (snd p))"
    by (induction m) (auto simp: bt_update_def)
  also have "\<dots> \<longleftrightarrow> s \<in> set ys \<union> elsewhere ident m"
    using assms by (force simp: elsewhere_def)
  finally show "s \<in> set (concat (map snd (bt_update ident (\<lambda>_. ys) m))) \<longleftrightarrow>
      s \<in> set ys \<union> elsewhere ident m" .
qed

lemma concat_split:
  assumes "distinct (map fst m)" and "(ident, l) \<in> set m"
  shows "set (concat (map snd m)) = set l \<union> elsewhere ident m"
proof -
  have only: "v = l" if "(ident, v) \<in> set m" for v
    using assms that by (metis eq_key_imp_eq_value)
  show ?thesis
  proof (intro equalityI subsetI)
    fix s assume "s \<in> set (concat (map snd m))"
    then obtain k v where "(k, v) \<in> set m" "s \<in> set v" by auto
    then show "s \<in> set l \<union> elsewhere ident m"
      using only by (cases "k = ident") (auto simp: elsewhere_def intro: bexI [of _ "(k, v)"])
  next
    fix s assume "s \<in> set l \<union> elsewhere ident m"
    then show "s \<in> set (concat (map snd m))"
      using assms(2) by (auto simp: elsewhere_def intro: bexI [of _ "(ident, l)"])
  qed
qed
lemma retire_matching_effect:
  assumes "keys_distinct w" and "retire_matching ident P w = (w', batch)"
  shows "keys_distinct w' \<and> set (registered w') \<subseteq> set (registered w) \<and>
    (\<forall>s \<in> set (registered w). s \<in> set (registered w') \<or> s \<in> set (rb_subscriptions batch)) \<and>
    set (rb_subscriptions batch) \<subseteq> set (registered w) \<and> ew_next w' = ew_next w \<and>
    er_retired (ew_registry w') = er_retired (ew_registry w) \<and>
    (\<forall>a. ew_admission w' a =
      (if a \<in> su_admission ` set (rb_subscriptions batch) then admission_close (ew_admission w a)
       else ew_admission w a)) \<and>
    (\<forall>own. retiring_of w' own = retiring_of w own @
      map su_admission (filter (\<lambda>s. su_owner s = own) (rb_subscriptions batch)))"
proof (cases "map_of (er_subscriptions (ew_registry w)) ident")
  case None
  with assms show ?thesis by (auto simp: retire_matching_def)
next
  case (Some l)
  let ?m = "er_subscriptions (ew_registry w)"
  define removed where "removed = filter P l"
  define kept where "kept = filter (\<lambda>s. \<not> P s) l"
  define m' where "m' = (if kept = [] then bt_remove ident ?m else bt_update ident (\<lambda>_. kept) ?m)"
  obtain w2 os where st2: "stage_retirement removed (set_subscriptions m' w) [] = (w2, os)"
    by fastforce
  then have "retire_matching ident P w = (w2, \<lparr>rb_subscriptions = removed, rb_owners = os\<rparr>)"
    using Some unfolding m'_def kept_def removed_def
    by (simp add: retire_matching_def Let_def split del: if_split)
  with assms(2) st2 have st: "stage_retirement removed (set_subscriptions m' w) [] = (w', os)"
    and batch: "batch = \<lparr>rb_subscriptions = removed, rb_owners = os\<rparr>" by simp_all
  note eff = stage_retirement_effect [OF st]
  have d: "distinct (map fst ?m)" using assms(1) by (simp add: keys_distinct_def)
  have mem: "(ident, l) \<in> set ?m" using Some by (rule map_of_SomeD)
  have dk: "distinct (map fst m')"
    using d by (auto simp: m'_def bt_remove_def distinct_map_filter)
  have "set (registered w') = set (concat (map snd m'))" using eff by (simp add: registered_def)
  also have "\<dots> = set kept \<union> elsewhere ident ?m"
    by (simp only: m'_def concat_bt_remove concat_bt_update [OF mem] split: if_split) simp
  finally have reg': "set (registered w') = set kept \<union> elsewhere ident ?m" .
  have reg: "set (registered w) = set l \<union> elsewhere ident ?m"
    unfolding registered_def by (rule concat_split [OF d mem])
  have l: "set l = set removed \<union> set kept" by (auto simp: removed_def kept_def)
  have "keys_distinct w'" using eff dk by (simp add: keys_distinct_def)
  moreover have "set (registered w') \<subseteq> set (registered w)" using reg' reg l by blast
  moreover have "\<forall>s \<in> set (registered w). s \<in> set (registered w') \<or> s \<in> set removed"
    using reg' reg l by blast
  moreover have "set removed \<subseteq> set (registered w)" using reg l by blast
  ultimately show ?thesis using eff by (simp add: batch)
qed

lemma concat_own_kept:
  "concat (map snd (own_kept own m)) = filter (\<lambda>s. su_owner s \<noteq> own) (concat (map snd m))"
  by (induction m) (auto simp: own_kept_def)

lemma own_removed_filter:
  "own_removed own m = filter (\<lambda>s. su_owner s = own) (concat (map snd m))"
  by (induction m) (auto simp: own_removed_def)

lemma distinct_own_kept: "distinct (map fst m) \<Longrightarrow> distinct (map fst (own_kept own m))"
  by (simp add: own_kept_def distinct_map_filter o_def)

lemma remove_owner_stage_effect:
  assumes "remove_owner_stage own w = (w', batch)"
  shows "(keys_distinct w \<longrightarrow> keys_distinct w') \<and>
    registered w' = filter (\<lambda>s. su_owner s \<noteq> own) (registered w) \<and>
    rb_subscriptions batch = filter (\<lambda>s. su_owner s = own) (registered w) \<and>
    ew_next w' = ew_next w \<and>
    er_retired (ew_registry w') = (er_retired (ew_registry w))(signature own \<mapsto>
      (case er_retired (ew_registry w) (signature own) of
         None \<Rightarrow> generation own | Some g \<Rightarrow> max g (generation own))) \<and>
    (\<forall>a. ew_admission w' a =
      (if a \<in> su_admission ` set (rb_subscriptions batch) then admission_close (ew_admission w a)
       else ew_admission w a)) \<and>
    (\<forall>o'. retiring_of w' o' = retiring_of w o' @
      map su_admission (filter (\<lambda>s. su_owner s = o') (rb_subscriptions batch)))"
proof -
  let ?m = "er_subscriptions (ew_registry w)"
  define w1 where "w1 = w\<lparr>ew_registry := (ew_registry w)
    \<lparr>er_retired := (er_retired (ew_registry w))(signature own \<mapsto>
      max (case er_retired (ew_registry w) (signature own) of
         None \<Rightarrow> generation own | Some g \<Rightarrow> g) (generation own)),
     er_subscriptions := own_kept own ?m\<rparr>\<rparr>"
  obtain os where st: "stage_retirement (own_removed own ?m) w1 [] = (w', os)"
    and batch: "batch = \<lparr>rb_subscriptions = own_removed own ?m, rb_owners = os\<rparr>"
    using assms by (auto simp: remove_owner_stage_def w1_def Let_def split: prod.splits)
  note eff = stage_retirement_effect [OF st]
  have "retiring_of w1 o' = retiring_of w o'" for o' by (simp add: w1_def retiring_of_def)
  with eff batch show ?thesis
    by (simp add: registered_def keys_distinct_def w1_def concat_own_kept own_removed_filter
        distinct_own_kept split: option.splits)
qed

lemma push_subscription_effect:
  assumes "distinct (map fst m)"
  shows "distinct (map fst (push_subscription ident s m)) \<and>
    set (concat (map snd (push_subscription ident s m))) = insert s (set (concat (map snd m)))"
proof (cases "map_of m ident")
  case None
  then have "ident \<notin> fst ` set m" by (simp add: map_of_eq_None_iff)
  with None assms show ?thesis by (auto simp: push_subscription_def)
next
  case (Some l)
  then have mem: "(ident, l) \<in> set m" by (rule map_of_SomeD)
  have "set (concat (map snd (bt_update ident (\<lambda>l. l @ [s]) m))) = insert s (set (concat (map snd m)))"
    using mem by (force simp: bt_update_def split: if_splits)
  then show ?thesis using assms Some by (simp add: push_subscription_def)
qed

end
