(* ===== verification/Event_Concurrency.thy ===== *)
theory Event_Concurrency
  imports Event_Safety
begin

text \<open>
  The interleaved event bus and its two guarantees. A job is one dispatch or one exact
  retirement in progress; \<open>job_of\<close> holds any number of them, each on a thread. Jobs of one
  thread are nested in the program (a handler that raises or unsubscribes); the relation lets
  any job move at any time, which allows at least every run of the program.
\<close>

section \<open>Jobs and steps\<close>

datatype job =
    Dispatching thread_id "dispatch_entry list" "dispatch_entry option" "owner_token list"
  | Retiring thread_id "subscription list" "owner_token list"

record bus =
  bus_world :: event_world
  job_of :: "nat \<rightharpoonup> job"

definition bus_init :: bus where
  "bus_init = \<lparr>bus_world = event_bus_new, job_of = Map.empty\<rparr>"

definition put_job :: "nat \<Rightarrow> job option \<Rightarrow> event_world \<Rightarrow> bus \<Rightarrow> bus" where
  "put_job j x w b = \<lparr>bus_world = w, job_of = (job_of b)(j := x)\<rparr>"

inductive bus_step :: "bus \<Rightarrow> bus \<Rightarrow> bool" where
  bs_subscribe:
    "subscription_new own cb h (bus_world b) = (w, s) \<Longrightarrow>
     bus_step b (b\<lparr>bus_world := fst (subscribe ident s w)\<rparr>)"
| bs_raise:
    "job_of b j = None \<Longrightarrow>
     bus_step b (put_job j (Some (Dispatching t (snapshot ident filt (bus_world b)) None []))
       (bus_world b) b)"
| bs_enter:
    "job_of b j = Some (Dispatching t (e # es) None os) \<Longrightarrow>
     admission_try_enter t (ew_admission (bus_world b) (de_admission e)) = Some a \<Longrightarrow>
     bus_step b (put_job j (Some (Dispatching t es (Some e) (push_owner os (de_owner e))))
       (set_admission (de_admission e) a (bus_world b)) b)"
| bs_skip:
    "job_of b j = Some (Dispatching t (e # es) None os) \<Longrightarrow>
     admission_try_enter t (ew_admission (bus_world b) (de_admission e)) = None \<Longrightarrow>
     bus_step b (put_job j (Some (Dispatching t es None (push_owner os (de_owner e))))
       (bus_world b) b)"
| bs_return:
    "job_of b j = Some (Dispatching t es (Some e) os) \<Longrightarrow>
     bus_step b (put_job j (Some (Dispatching t es None os))
       (set_admission (de_admission e)
          (admission_leave t (ew_admission (bus_world b) (de_admission e))) (bus_world b)) b)"
| bs_reap:
    "job_of b j = Some (Dispatching t [] None (own # os)) \<Longrightarrow>
     bus_step b (put_job j (Some (Dispatching t [] None os))
       (reap_quiescent own (bus_world b)) b)"
| bs_dispatched:
    "job_of b j = Some (Dispatching t [] None []) \<Longrightarrow>
     bus_step b (put_job j None (bus_world b) b)"
| bs_retire:
    "job_of b j = None \<Longrightarrow> retire_matching ident P (bus_world b) = (w, batch) \<Longrightarrow>
     bus_step b (put_job j (Some (Retiring t (rb_subscriptions batch) (rb_owners batch))) w b)"
| bs_wait:
    "job_of b j = Some (Retiring t (s # ss) os) \<Longrightarrow>
     others_left t (ew_admission (bus_world b) (su_admission s)) \<Longrightarrow>
     bus_step b (put_job j (Some (Retiring t ss os)) (bus_world b) b)"
| bs_retire_reap:
    "job_of b j = Some (Retiring t [] (own # os)) \<Longrightarrow>
     bus_step b (put_job j (Some (Retiring t [] os)) (reap_quiescent own (bus_world b)) b)"
| bs_retired:
    "job_of b j = Some (Retiring t [] []) \<Longrightarrow>
     bus_step b (put_job j None (bus_world b) b)"
| bs_remove_stage:
    "bus_step b (b\<lparr>bus_world := fst (remove_owner_stage own (bus_world b))\<rparr>)"
| bs_remove_report:
    "bus_step b (b\<lparr>bus_world := fst (owner_retirement_report own n (bus_world b))\<rparr>)"

section \<open>What a job is doing\<close>

fun job_frame :: "job option \<Rightarrow> (thread_id \<times> dispatch_entry) option" where
  "job_frame (Some (Dispatching t es (Some e) os)) = Some (t, e)"
| "job_frame _ = None"

fun job_rest :: "job option \<Rightarrow> dispatch_entry list" where
  "job_rest (Some (Dispatching t es r os)) = es"
| "job_rest _ = []"

text \<open>The frames of one gate, and those of one gate on one thread.\<close>

definition frames :: "bus \<Rightarrow> arc \<Rightarrow> nat set" where
  "frames b a = {j. \<exists>t e. job_frame (job_of b j) = Some (t, e) \<and> de_admission e = a}"

definition frames_on :: "bus \<Rightarrow> arc \<Rightarrow> thread_id \<Rightarrow> nat set" where
  "frames_on b a t = {j. \<exists>e. job_frame (job_of b j) = Some (t, e) \<and> de_admission e = a}"

text \<open>Some callback of \<open>own\<close> has a native frame.\<close>

definition runs_owner :: "bus \<Rightarrow> owner_token \<Rightarrow> bool" where
  "runs_owner b own \<longleftrightarrow>
     (\<exists>j t e. job_frame (job_of b j) = Some (t, e) \<and> de_owner e = own)"

definition live :: "event_world \<Rightarrow> dispatch_entry \<Rightarrow> bool" where
  "live w e \<longleftrightarrow>
     (\<exists>s \<in> set (registered w). su_owner s = de_owner e \<and> su_admission s = de_admission e)"

lemma liveI: "s \<in> set (registered w) \<Longrightarrow> live w (dispatch_entry_of s)"
  by (auto simp: live_def dispatch_entry_of_def)

lemma snapshot_live: "e \<in> set (snapshot ident filt w) \<Longrightarrow> live w e"
  by (force simp: snapshot_def registered_mem intro!: liveI split: option.splits
      dest!: map_of_SomeD [OF sym])

section \<open>The invariant\<close>

definition inv_keys :: "bus \<Rightarrow> bool" where
  "inv_keys b \<longleftrightarrow> keys_distinct (bus_world b)"

definition inv_bound :: "bus \<Rightarrow> bool" where
  "inv_bound b \<longleftrightarrow>
     (\<forall>s \<in> set (registered (bus_world b)). su_admission s < ew_next (bus_world b)) \<and>
     (\<forall>j t e. job_frame (job_of b j) = Some (t, e) \<longrightarrow> de_admission e < ew_next (bus_world b)) \<and>
     (\<forall>j. \<forall>e \<in> set (job_rest (job_of b j)). de_admission e < ew_next (bus_world b))"

definition inv_count :: "bus \<Rightarrow> bool" where
  "inv_count b \<longleftrightarrow> finite (dom (job_of b)) \<and>
     (\<forall>a. unat (ad_in_flight (ew_admission (bus_world b) a)) = card (frames b a)) \<and>
     (\<forall>a t. unat (thread_count (ew_admission (bus_world b) a) t) = card (frames_on b a t))"

definition inv_tracked :: "bus \<Rightarrow> bool" where
  "inv_tracked b \<longleftrightarrow>
     (\<forall>j t e. job_frame (job_of b j) = Some (t, e) \<longrightarrow>
        live (bus_world b) e \<or> de_admission e \<in> set (retiring_of (bus_world b) (de_owner e)))"

definition inv_pending :: "bus \<Rightarrow> bool" where
  "inv_pending b \<longleftrightarrow>
     (\<forall>j. \<forall>e \<in> set (job_rest (job_of b j)).
        live (bus_world b) e \<or> \<not> ad_accepting (ew_admission (bus_world b) (de_admission e)))"

definition bus_inv :: "bus \<Rightarrow> bool" where
  "bus_inv b \<longleftrightarrow> inv_keys b \<and> inv_bound b \<and> inv_count b \<and> inv_tracked b \<and> inv_pending b"

lemmas inv_defs = inv_keys_def inv_bound_def inv_count_def inv_tracked_def inv_pending_def

lemma put_job_simps [simp]:
  "bus_world (put_job j x w b) = w"
  "job_of (put_job j x w b) = (job_of b)(j := x)"
  by (simp_all add: put_job_def)

lemma set_admission_simps [simp]:
  "registered (set_admission a x w) = registered w"
  "keys_distinct (set_admission a x w) = keys_distinct w"
  "ew_next (set_admission a x w) = ew_next w"
  "retiring_of (set_admission a x w) own = retiring_of w own"
  "ew_admission (set_admission a x w) = (ew_admission w)(a := x)"
  "er_retired (ew_registry (set_admission a x w)) = er_retired (ew_registry w)"
  by (simp_all add: set_admission_def registered_def keys_distinct_def retiring_of_def)

lemma live_set_admission [simp]: "live (set_admission a x w) e = live w e"
  by (simp add: live_def)

lemma live_drop_retiring [simp]: "live (drop_retiring own w) e = live w e"
  by (simp add: live_def)

text \<open>Steps that leave the frames and the counters alone keep the counting invariant.\<close>

lemma inv_count_same:
  assumes "inv_count b" and "finite (dom (job_of b'))"
    and "\<And>j. job_frame (job_of b' j) = job_frame (job_of b j)"
    and "\<And>a. ad_in_flight (ew_admission (bus_world b') a) = ad_in_flight (ew_admission (bus_world b) a)"
    and "\<And>a t. thread_count (ew_admission (bus_world b') a) t =
                thread_count (ew_admission (bus_world b) a) t"
  shows "inv_count b'"
  using assms by (simp add: inv_count_def frames_def frames_on_def)

lemma frame_dom: "job_frame (job_of b j) = Some x \<Longrightarrow> j \<in> dom (job_of b)"
  by (cases "job_of b j") auto

lemma frames_finite:
  assumes "inv_count b"
  shows "finite (frames b a)" and "finite (frames_on b a t)"
proof -
  have f: "finite (dom (job_of b))" using assms by (simp add: inv_count_def)
  have "frames b a \<subseteq> dom (job_of b)" "frames_on b a t \<subseteq> dom (job_of b)"
    unfolding frames_def frames_on_def using frame_dom [of b] by blast+
  with f show "finite (frames b a)" "finite (frames_on b a t)" by (auto intro: finite_subset)
qed

lemma frames_put:
  "frames (put_job j x w b) a =
     (frames b a - {j}) \<union> (if \<exists>t e. job_frame x = Some (t, e) \<and> de_admission e = a then {j} else {})"
  "frames_on (put_job j x w b) a t =
     (frames_on b a t - {j}) \<union> (if \<exists>e. job_frame x = Some (t, e) \<and> de_admission e = a then {j} else {})"
  by (auto simp: frames_def frames_on_def)

section \<open>Every step keeps the invariant\<close>

text \<open>
  Jobs of \<open>b'\<close> against those of \<open>b\<close>: the same frames, and nothing newly pending but live
  entries.
\<close>

definition quiet :: "bus \<Rightarrow> bus \<Rightarrow> bool" where
  "quiet b b' \<longleftrightarrow> (finite (dom (job_of b)) \<longrightarrow> finite (dom (job_of b'))) \<and>
     (\<forall>j. job_frame (job_of b' j) = job_frame (job_of b j)) \<and>
     (\<forall>j. \<forall>e \<in> set (job_rest (job_of b' j)).
        e \<in> set (job_rest (job_of b j)) \<or> live (bus_world b) e)"

lemma live_bound: "inv_bound b \<Longrightarrow> live (bus_world b) e \<Longrightarrow> de_admission e < ew_next (bus_world b)"
  by (auto simp: inv_bound_def live_def)

lemma inv_count_quiet:
  assumes "inv_count b" and "quiet b b'"
    and "\<And>a. ad_in_flight (ew_admission (bus_world b') a) = ad_in_flight (ew_admission (bus_world b) a)"
    and "\<And>a t. thread_count (ew_admission (bus_world b') a) t =
                thread_count (ew_admission (bus_world b) a) t"
  shows "inv_count b'"
proof (rule inv_count_same [OF assms(1) _ _ assms(3,4)])
  show "finite (dom (job_of b'))" using assms(1,2) by (simp add: inv_count_def quiet_def)
  show "job_frame (job_of b' j) = job_frame (job_of b j)" for j using assms(2) by (simp add: quiet_def)
qed

lemma inv_bound_quiet:
  assumes "inv_bound b" and "quiet b b'"
    and "set (registered (bus_world b')) \<subseteq> set (registered (bus_world b))"
    and "ew_next (bus_world b') = ew_next (bus_world b)"
  shows "inv_bound b'"
proof -
  have "\<forall>s \<in> set (registered (bus_world b')). su_admission s < ew_next (bus_world b')"
    using assms(1,3,4) unfolding inv_bound_def by auto
  moreover have "de_admission e < ew_next (bus_world b')"
    if "job_frame (job_of b' j) = Some (t, e)" for j t e
    using assms(1,2,4) that unfolding inv_bound_def quiet_def by simp
  moreover have "de_admission e < ew_next (bus_world b')" if "e \<in> set (job_rest (job_of b' j))" for j e
  proof -
    have "e \<in> set (job_rest (job_of b j)) \<or> live (bus_world b) e"
      using assms(2) that unfolding quiet_def by blast
    then show ?thesis
      using assms(1,4) live_bound [OF assms(1)] unfolding inv_bound_def by auto
  qed
  ultimately show ?thesis unfolding inv_bound_def by blast
qed

text \<open>The retirement of the subscriptions \<open>ss\<close>, whatever selected them.\<close>

definition retires :: "event_world \<Rightarrow> subscription list \<Rightarrow> event_world \<Rightarrow> bool" where
  "retires w ss w' \<longleftrightarrow>
     set (registered w') \<subseteq> set (registered w) \<and>
     set (registered w) \<subseteq> set (registered w') \<union> set ss \<and> ew_next w' = ew_next w \<and>
     (\<forall>a. ew_admission w' a =
        (if a \<in> su_admission ` set ss then admission_close (ew_admission w a)
         else ew_admission w a)) \<and>
     (\<forall>own. retiring_of w' own =
        retiring_of w own @ map su_admission (filter (\<lambda>s. su_owner s = own) ss))"

lemma retires_live:
  assumes "retires w ss w'" and "live w e"
  shows "live w' e \<or> (de_admission e \<in> set (retiring_of w' (de_owner e)) \<and>
    \<not> ad_accepting (ew_admission w' (de_admission e)))"
proof -
  obtain s where s: "s \<in> set (registered w)" "su_owner s = de_owner e" "su_admission s = de_admission e"
    using assms(2) by (auto simp: live_def)
  then have "s \<in> set (registered w') \<or> s \<in> set ss" using assms(1) by (auto simp: retires_def)
  then show ?thesis
  proof
    assume "s \<in> set ss"
    then have "de_admission e \<in> su_admission ` set (filter (\<lambda>s. su_owner s = de_owner e) ss)"
      "de_admission e \<in> su_admission ` set ss" using s by force+
    with assms(1) show ?thesis by (simp add: retires_def)
  qed (use s in \<open>auto simp: live_def\<close>)
qed

lemma pending_quiet:
  assumes "bus_inv b" and "quiet b b'" and "e \<in> set (job_rest (job_of b' j))"
  shows "live (bus_world b) e \<or> \<not> ad_accepting (ew_admission (bus_world b) (de_admission e))"
proof -
  have "e \<in> set (job_rest (job_of b j)) \<or> live (bus_world b) e"
    using assms(2,3) unfolding quiet_def by blast
  then show ?thesis using assms(1) unfolding bus_inv_def inv_pending_def by blast
qed

lemma inv_retires:
  assumes "bus_inv b" and "quiet b b'" and "retires (bus_world b) ss (bus_world b')"
    and "keys_distinct (bus_world b')"
  shows "bus_inv b'"
proof -
  have adm: "ad_in_flight (ew_admission (bus_world b') a) = ad_in_flight (ew_admission (bus_world b) a)"
    "thread_count (ew_admission (bus_world b') a) t = thread_count (ew_admission (bus_world b) a) t"
    "\<not> ad_accepting (ew_admission (bus_world b) a) \<Longrightarrow>
     \<not> ad_accepting (ew_admission (bus_world b') a)" for a t
    using assms(3) by (auto simp: retires_def)
  have ic: "inv_count b" using assms(1) by (simp add: bus_inv_def)
  have "inv_count b'" by (rule inv_count_quiet [OF ic assms(2) adm(1,2)])
  moreover have "inv_bound b'"
    using assms by (intro inv_bound_quiet [of b b']) (simp_all add: bus_inv_def retires_def)
  moreover have "inv_tracked b'"
    unfolding inv_tracked_def
  proof (intro allI impI)
    fix j t e
    assume "job_frame (job_of b' j) = Some (t, e)"
    then have "job_frame (job_of b j) = Some (t, e)" using assms(2) by (simp add: quiet_def)
    then have "live (bus_world b) e \<or> de_admission e \<in> set (retiring_of (bus_world b) (de_owner e))"
      using assms(1) by (auto simp: bus_inv_def inv_tracked_def)
    then show "live (bus_world b') e \<or>
        de_admission e \<in> set (retiring_of (bus_world b') (de_owner e))"
      using retires_live [OF assms(3)] assms(3) by (auto simp: retires_def)
  qed
  moreover have "inv_pending b'"
    unfolding inv_pending_def
  proof (intro allI ballI)
    fix j e
    assume "e \<in> set (job_rest (job_of b' j))"
    then have "live (bus_world b) e \<or> \<not> ad_accepting (ew_admission (bus_world b) (de_admission e))"
      by (rule pending_quiet [OF assms(1,2)])
    then show "live (bus_world b') e \<or>
        \<not> ad_accepting (ew_admission (bus_world b') (de_admission e))"
      using retires_live [OF assms(3)] adm(3) by blast
  qed
  ultimately show ?thesis using assms(4) by (simp add: bus_inv_def inv_keys_def)
qed

text \<open>Forgetting the retired gates of an owner, once all of them have drained.\<close>

lemma drained_no_frame:
  assumes "inv_count b" and "all_drained (bus_world b) own"
    and "de_admission e \<in> set (retiring_of (bus_world b) own)"
  shows "job_frame (job_of b j) \<noteq> Some (t, e)"
proof
  assume "job_frame (job_of b j) = Some (t, e)"
  then have "j \<in> frames b (de_admission e)" by (auto simp: frames_def)
  then have "card (frames b (de_admission e)) \<noteq> 0"
    using frames_finite(1) [OF assms(1)] by (auto simp: card_eq_0_iff)
  moreover have "ad_in_flight (ew_admission (bus_world b) (de_admission e)) = 0"
    using assms(2,3) by (auto simp: all_drained_def)
  ultimately show False using assms(1) unfolding inv_count_def by (metis unsigned_0)
qed

lemma inv_forget:
  assumes "bus_inv b" and "quiet b b'"
    and "bus_world b' = (if all_drained (bus_world b) own then drop_retiring own (bus_world b)
                         else bus_world b)"
  shows "bus_inv b'"
proof -
  have w: "ew_admission (bus_world b') = ew_admission (bus_world b)"
    "registered (bus_world b') = registered (bus_world b)"
    "keys_distinct (bus_world b') = keys_distinct (bus_world b)"
    "ew_next (bus_world b') = ew_next (bus_world b)"
    "live (bus_world b') e = live (bus_world b) e" for e
    using assms(3) by auto
  have ic: "inv_count b" using assms(1) by (simp add: bus_inv_def)
  have "inv_count b'" by (rule inv_count_quiet [OF ic assms(2)]) (simp_all only: w(1))
  moreover have "inv_bound b'"
    using assms(1,2) w by (intro inv_bound_quiet [of b b']) (simp_all add: bus_inv_def)
  moreover have "inv_pending b'"
    using pending_quiet [OF assms(1,2)] w by (simp add: inv_pending_def)
  moreover have "inv_tracked b'"
    unfolding inv_tracked_def
  proof (intro allI impI)
    fix j t e
    assume "job_frame (job_of b' j) = Some (t, e)"
    then have fr: "job_frame (job_of b j) = Some (t, e)" using assms(2) by (simp add: quiet_def)
    then have "live (bus_world b) e \<or> de_admission e \<in> set (retiring_of (bus_world b) (de_owner e))"
      using assms(1) unfolding bus_inv_def inv_tracked_def by blast
    with fr show "live (bus_world b') e \<or>
        de_admission e \<in> set (retiring_of (bus_world b') (de_owner e))"
      using assms(3) drained_no_frame [OF ic] by (auto split: if_splits)
  qed
  ultimately show ?thesis using assms(1) w by (simp add: bus_inv_def inv_keys_def)
qed

lemma inv_same_world: "bus_inv b \<Longrightarrow> quiet b b' \<Longrightarrow> bus_world b' = bus_world b \<Longrightarrow> bus_inv b'"
proof -
  assume a: "bus_inv b" "quiet b b'" "bus_world b' = bus_world b"
  have "retires (bus_world b) [] (bus_world b')" using a(3) by (simp add: retires_def)
  with a show ?thesis by (intro inv_retires [of b b' "[]"]) (auto simp: bus_inv_def inv_keys_def)
qed

lemma retire_matching_retires:
  "keys_distinct w \<Longrightarrow> retire_matching ident P w = (w', batch) \<Longrightarrow>
   retires w (rb_subscriptions batch) w' \<and> keys_distinct w'"
  using retire_matching_effect [of w ident P w' batch] by (auto simp: retires_def)

lemma remove_owner_stage_retires:
  "keys_distinct w \<Longrightarrow> remove_owner_stage own w = (w', batch) \<Longrightarrow>
   retires w (rb_subscriptions batch) w' \<and> keys_distinct w'"
  using remove_owner_stage_effect [of own w w' batch] by (auto simp: retires_def)

end
