(* ===== verification/Event_Guarantees.thy ===== *)
theory Event_Guarantees
  imports Event_Concurrency
begin

text \<open>
  Every reachable state of the interleaved event bus satisfies the invariant of
  Event_Concurrency; the guarantees native code is unloaded on follow from it.
\<close>

section \<open>Preservation, step by step\<close>

lemma quiet_put:
  assumes "job_frame x = job_frame (job_of b j)"
    and "\<forall>e \<in> set (job_rest x). e \<in> set (job_rest (job_of b j)) \<or> live (bus_world b) e"
  shows "quiet b (put_job j x w b)"
  using assms by (auto simp: quiet_def intro: finite_subset [of _ "insert j (dom (job_of b))"])

lemma quiet_world: "quiet b (b\<lparr>bus_world := w\<rparr>)"
  by (simp add: quiet_def)

lemma inv_enter:
  assumes inv: "bus_inv b"
    and job: "job_of b j = Some (Dispatching t (e # es) None os)"
    and ent: "admission_try_enter t (ew_admission (bus_world b) (de_admission e)) = Some a"
  shows "bus_inv (put_job j (Some (Dispatching t es (Some e) os'))
    (set_admission (de_admission e) a (bus_world b)) b)" (is "bus_inv ?b'")
proof -
  note f = try_enter_facts [OF ent]
  have ic: "inv_count b" using inv by (simp add: bus_inv_def)
  have nof: "j \<notin> frames b x" "j \<notin> frames_on b x u" for x u
    using job by (auto simp: frames_def frames_on_def)
  have "inv_count ?b'"
    using ic job nof frames_finite [OF ic] f
    by (auto simp: inv_count_def frames_put)
  moreover have "inv_bound ?b'"
    using inv job unfolding bus_inv_def inv_bound_def
    by (auto split: if_splits) (metis job_rest.simps(1) list.set_intros)+
  moreover have le: "live (bus_world b) e"
    using inv job f unfolding bus_inv_def inv_pending_def
    by (metis job_rest.simps(1) list.set_intros(1))
  then have "inv_tracked ?b'"
    using inv by (auto simp: bus_inv_def inv_tracked_def)
  moreover have "inv_pending ?b'"
    using inv job f unfolding bus_inv_def inv_pending_def
    by (auto split: if_splits) (metis job_rest.simps(1) list.set_intros(2))+
  ultimately show ?thesis using inv by (simp add: bus_inv_def inv_keys_def)
qed

lemma inv_return:
  assumes inv: "bus_inv b"
    and job: "job_of b j = Some (Dispatching t es (Some e) os)"
  shows "bus_inv (put_job j (Some (Dispatching t es None os))
    (set_admission (de_admission e)
      (admission_leave t (ew_admission (bus_world b) (de_admission e))) (bus_world b)) b)"
    (is "bus_inv ?b'")
proof -
  have ic: "inv_count b" using inv by (simp add: bus_inv_def)
  have inf: "j \<in> frames b (de_admission e)" "j \<in> frames_on b (de_admission e) t"
    using job by (auto simp: frames_def frames_on_def)
  have outf: "x \<noteq> de_admission e \<Longrightarrow> j \<notin> frames b x"
    "x \<noteq> de_admission e \<or> u \<noteq> t \<Longrightarrow> j \<notin> frames_on b x u" for x u
    using job by (auto simp: frames_def frames_on_def)
  have "inv_count ?b'"
    using ic inf outf frames_finite [OF ic]
    by (auto simp: inv_count_def frames_put admission_leave_facts card_Diff_singleton)
  moreover have "inv_bound ?b'"
    using inv job unfolding bus_inv_def inv_bound_def
    by (auto split: if_splits) (metis job_rest.simps(1))+
  moreover have "inv_tracked ?b'"
    using inv by (auto simp: bus_inv_def inv_tracked_def split: if_splits)
  moreover have "inv_pending ?b'"
    using inv job unfolding bus_inv_def inv_pending_def
    by (auto simp: admission_leave_facts split: if_splits) (metis job_rest.simps(1))+
  ultimately show ?thesis using inv by (simp add: bus_inv_def inv_keys_def)
qed

lemma subscribe_world:
  assumes "subscription_new own cb h w = (w1, s)"
  shows "let w' = fst (subscribe ident s w1) in
    (w' = w1 \<or> \<not> owner_retired (ew_registry w) own \<and>
       er_subscriptions (ew_registry w') = push_subscription ident s (er_subscriptions (ew_registry w))) \<and>
    er_subscriptions (ew_registry w1) = er_subscriptions (ew_registry w) \<and>
    er_retired (ew_registry w') = er_retired (ew_registry w) \<and>
    er_retiring (ew_registry w') = er_retiring (ew_registry w) \<and>
    ew_admission w' = (ew_admission w)(ew_next w := admission_open) \<and>
    ew_next w' = ew_next w + 1 \<and> su_admission s = ew_next w \<and> su_owner s = own"
  using assms by (auto simp: subscription_new_def subscribe_def Let_def)

lemma subscribe_effect:
  assumes "keys_distinct w" and "subscription_new own cb h w = (w1, s)"
    and "w' = fst (subscribe ident s w1)"
  shows "keys_distinct w'" and "set (registered w) \<subseteq> set (registered w')"
    and "set (registered w') \<subseteq> insert s (set (registered w))"
    and "owner_retired (ew_registry w) own \<Longrightarrow> registered w' = registered w"
    and "retiring_of w' = retiring_of w"
    and "er_retired (ew_registry w') = er_retired (ew_registry w)"
    and "ew_admission w' = (ew_admission w)(ew_next w := admission_open)"
    and "ew_next w' = ew_next w + 1" and "su_admission s = ew_next w" and "su_owner s = own"
proof -
  note f = subscribe_world [OF assms(2), of ident, folded assms(3), unfolded Let_def]
  note p = push_subscription_effect [OF assms(1) [unfolded keys_distinct_def], of ident s]
  have r: "registered w' = registered w \<or> set (registered w') = insert s (set (registered w))"
    using f p unfolding registered_def by (elim conjE disjE) simp_all
  show "keys_distinct w'"
    using f p assms(1) unfolding keys_distinct_def by (elim conjE disjE) simp_all
  show "set (registered w) \<subseteq> set (registered w')"
    "set (registered w') \<subseteq> insert s (set (registered w))" using r by auto
  show "owner_retired (ew_registry w) own \<Longrightarrow> registered w' = registered w"
    using f unfolding registered_def by auto
  show "retiring_of w' = retiring_of w" using f by (simp add: retiring_of_def fun_eq_iff)
  show "er_retired (ew_registry w') = er_retired (ew_registry w)"
    "ew_admission w' = (ew_admission w)(ew_next w := admission_open)"
    "ew_next w' = ew_next w + 1" "su_admission s = ew_next w" "su_owner s = own"
    using f by simp_all
qed

lemma no_fresh_frame: "inv_bound b \<Longrightarrow> frames b (ew_next (bus_world b)) = {}"
  "inv_bound b \<Longrightarrow> frames_on b (ew_next (bus_world b)) t = {}"
  by (fastforce simp: inv_bound_def frames_def frames_on_def)+

lemma admission_open_empty [simp]:
  "ad_in_flight admission_open = 0" "thread_count admission_open t = 0"
  by (simp_all add: admission_open_def thread_count_def)

lemma inv_subscribe:
  assumes inv: "bus_inv b" and new: "subscription_new own cb h (bus_world b) = (w, s)"
  shows "bus_inv (b\<lparr>bus_world := fst (subscribe ident s w)\<rparr>)" (is "bus_inv ?b'")
proof -
  define w' where "w' = fst (subscribe ident s w)"
  have kd: "keys_distinct (bus_world b)" and ic: "inv_count b" and ib: "inv_bound b"
    using inv by (simp_all add: bus_inv_def inv_keys_def)
  note e = subscribe_effect [OF kd new w'_def]
  have live': "live (bus_world b) x \<Longrightarrow> live w' x" for x using e(2) by (auto simp: live_def)
  have fr: "frames ?b' a = frames b a" "frames_on ?b' a t = frames_on b a t" for a t
    by (simp_all add: frames_def frames_on_def)
  have "inv_count ?b'"
    using ic no_fresh_frame [OF ib] e(7) by (simp add: inv_count_def fr w'_def)
  moreover have "inv_bound ?b'"
  proof -
    have "su_admission x < Suc (ew_next (bus_world b))" if "x \<in> set (registered w')" for x
    proof -
      have "x = s \<or> x \<in> set (registered (bus_world b))" using that e(3) by blast
      with e(9) ib show ?thesis unfolding inv_bound_def by (auto intro: less_SucI)
    qed
    then show ?thesis
      using ib e(8) unfolding inv_bound_def by (auto simp flip: w'_def intro: less_SucI)
  qed
  moreover have "inv_tracked ?b'"
    using inv live' e(5) unfolding bus_inv_def inv_tracked_def w'_def by (simp, blast)
  moreover have "inv_pending ?b'"
    unfolding inv_pending_def
  proof (intro allI ballI)
    fix j x
    assume x: "x \<in> set (job_rest (job_of ?b' j))"
    then have "de_admission x \<noteq> ew_next (bus_world b)"
      using ib unfolding inv_bound_def by force
    moreover have "live (bus_world b) x \<or> \<not> ad_accepting (ew_admission (bus_world b) (de_admission x))"
      using inv x unfolding bus_inv_def inv_pending_def by simp
    ultimately show "live (bus_world ?b') x \<or>
        \<not> ad_accepting (ew_admission (bus_world ?b') (de_admission x))"
      using live' e(7) by (auto simp flip: w'_def)
  qed
  ultimately show ?thesis using e(1) by (simp add: bus_inv_def inv_keys_def w'_def)
qed

lemma inv_retire:
  assumes "bus_inv b" and "quiet b (put_job j x w b)"
    and "retire_matching ident P (bus_world b) = (w, batch)"
  shows "bus_inv (put_job j x w b)"
  using inv_retires [OF assms(1,2), of "rb_subscriptions batch"] assms(1)
    retire_matching_retires [OF _ assms(3)]
  by (simp add: bus_inv_def inv_keys_def)

lemma inv_remove_stage:
  assumes "bus_inv b"
  shows "bus_inv (b\<lparr>bus_world := fst (remove_owner_stage own (bus_world b))\<rparr>)"
proof -
  obtain w batch where st: "remove_owner_stage own (bus_world b) = (w, batch)" by fastforce
  show ?thesis
    using inv_retires [OF assms quiet_world [of b w], of "rb_subscriptions batch"] assms
      remove_owner_stage_retires [OF _ st] st
    by (simp add: bus_inv_def inv_keys_def)
qed

lemma inv_reap:
  assumes "bus_inv b" and "quiet b (put_job j x (reap_quiescent own (bus_world b)) b)"
  shows "bus_inv (put_job j x (reap_quiescent own (bus_world b)) b)"
  by (rule inv_forget [OF assms]) (simp add: reap_quiescent_cases)

theorem bus_step_inv: "bus_step b b' \<Longrightarrow> bus_inv b \<Longrightarrow> bus_inv b'"
proof (induction rule: bus_step.induct)
  case (bs_raise b j t ident filt)
  then show ?case
    by (intro inv_same_world [OF bs_raise.prems quiet_put]) (auto dest: snapshot_live)
next
  case (bs_skip b j t e es os)
  then show ?case by (intro inv_same_world [OF bs_skip.prems quiet_put]) auto
next
  case (bs_reap b j t own os)
  then show ?case by (intro inv_reap [OF bs_reap.prems quiet_put]) auto
next
  case (bs_dispatched b j t)
  then show ?case by (intro inv_same_world [OF bs_dispatched.prems quiet_put]) auto
next
  case (bs_retire b j ident P w batch t)
  then show ?case by (intro inv_retire [OF bs_retire.prems quiet_put]) auto
next
  case (bs_wait b j t s ss os)
  then show ?case by (intro inv_same_world [OF bs_wait.prems quiet_put]) auto
next
  case (bs_retire_reap b j t own os)
  then show ?case by (intro inv_reap [OF bs_retire_reap.prems quiet_put]) auto
next
  case (bs_retired b j t)
  then show ?case by (intro inv_same_world [OF bs_retired.prems quiet_put]) auto
next
  case (bs_remove_report b own n)
  then show ?case
    by (intro inv_forget [OF _ quiet_world]) (simp_all add: owner_retirement_report_cases)
qed (auto intro: inv_subscribe inv_enter inv_return inv_remove_stage)

lemma bus_init_inv: "bus_inv bus_init"
  by (simp add: bus_inv_def inv_defs bus_init_def event_bus_new_def keys_distinct_def
      registered_def frames_def frames_on_def)

lemma bus_steps_inv: "bus_step\<^sup>*\<^sup>* b b' \<Longrightarrow> bus_inv b \<Longrightarrow> bus_inv b'"
  by (induction rule: rtranclp_induct) (auto intro: bus_step_inv)

lemma bus_reachable_inv: "bus_step\<^sup>*\<^sup>* bus_init b \<Longrightarrow> bus_inv b"
  using bus_steps_inv bus_init_inv by blast

section \<open>What a retired owner and a closed gate can never do again\<close>

definition gone :: "event_world \<Rightarrow> owner_token \<Rightarrow> bool" where
  "gone w own \<longleftrightarrow> owner_retired (ew_registry w) own \<and> (\<forall>s \<in> set (registered w). su_owner s \<noteq> own)"

definition sealed :: "bus \<Rightarrow> owner_token \<Rightarrow> bool" where
  "sealed b own \<longleftrightarrow> gone (bus_world b) own \<and> \<not> runs_owner b own \<and>
     (\<forall>j. \<forall>e \<in> set (job_rest (job_of b j)).
        de_owner e = own \<longrightarrow> \<not> ad_accepting (ew_admission (bus_world b) (de_admission e)))"

text \<open>How the world moves in a step: registrations, retired generations, open gates.\<close>

definition world_grows :: "event_world \<Rightarrow> event_world \<Rightarrow> bool" where
  "world_grows w w' \<longleftrightarrow>
     (\<forall>own. owner_retired (ew_registry w) own \<longrightarrow> owner_retired (ew_registry w') own) \<and>
     (\<forall>s \<in> set (registered w'). s \<in> set (registered w) \<or> \<not> owner_retired (ew_registry w) (su_owner s)) \<and>
     ew_next w \<le> ew_next w' \<and>
     (\<forall>a < ew_next w. ad_accepting (ew_admission w' a) \<longrightarrow> ad_accepting (ew_admission w a))"

lemma world_grows_refl [simp]: "world_grows w w"
  by (simp add: world_grows_def)

lemma world_grows_gone: "world_grows w w' \<Longrightarrow> gone w own \<Longrightarrow> gone w' own"
  by (auto simp: world_grows_def gone_def)

lemma world_grows_closed:
  "world_grows w w' \<Longrightarrow> a < ew_next w \<Longrightarrow> \<not> ad_accepting (ew_admission w a) \<Longrightarrow>
   a < ew_next w' \<and> \<not> ad_accepting (ew_admission w' a)"
  by (auto simp: world_grows_def)

lemma world_grows_admission:
  "(ad_accepting x \<Longrightarrow> ad_accepting (ew_admission w a)) \<Longrightarrow> world_grows w (set_admission a x w)"
  by (simp add: world_grows_def owner_retired_def)

lemma world_grows_drop [simp]: "world_grows w (drop_retiring own w)"
  by (simp add: world_grows_def owner_retired_def)

lemma world_grows_reap [simp]: "world_grows w (reap_quiescent own w)"
  by (simp add: reap_quiescent_cases)

lemma world_grows_subscribe:
  assumes "keys_distinct w" and "subscription_new own cb h w = (w1, s)"
  shows "world_grows w (fst (subscribe ident s w1))"
proof -
  define w' where "w' = fst (subscribe ident s w1)"
  note e = subscribe_effect [OF assms w'_def]
  have "world_grows w w'"
    using e unfolding world_grows_def
    by (cases "owner_retired (ew_registry w) own") (auto simp: owner_retired_def)
  then show ?thesis by (simp add: w'_def)
qed

lemma world_grows_retire:
  assumes "keys_distinct w" and "retire_matching ident P w = (w', batch)"
  shows "world_grows w w'"
  using retire_matching_effect [OF assms]
  by (auto simp: world_grows_def owner_retired_def)

lemma world_grows_remove:
  assumes "remove_owner_stage own w = (w', batch)"
  shows "world_grows w w'" and "gone w' own"
  using remove_owner_stage_effect [OF assms]
  by (auto simp: world_grows_def gone_def owner_retired_def le_max_iff_disj split: option.splits)

text \<open>One step: the world grows, and a new frame is one the gate admitted.\<close>

definition fresh_frame :: "bus \<Rightarrow> thread_id \<Rightarrow> dispatch_entry \<Rightarrow> bool" where
  "fresh_frame b t e \<longleftrightarrow> ad_accepting (ew_admission (bus_world b) (de_admission e)) \<and>
     (\<exists>j. e \<in> set (job_rest (job_of b j)))"

lemma bus_step_moves:
  assumes "bus_step b b'" and "bus_inv b"
  shows "world_grows (bus_world b) (bus_world b')"
    and "job_frame (job_of b' j) = Some (t, e) \<Longrightarrow>
         job_frame (job_of b j) = Some (t, e) \<or> fresh_frame b t e"
    and "e \<in> set (job_rest (job_of b' j)) \<Longrightarrow>
         e \<in> set (job_rest (job_of b j)) \<or> live (bus_world b) e"
proof -
  have kd: "keys_distinct (bus_world b)" using assms(2) by (simp add: bus_inv_def inv_keys_def)
  show "world_grows (bus_world b) (bus_world b')"
    using assms(1)
  proof cases
    case (bs_enter j t e es os a)
    then show ?thesis using try_enter_facts [of t _ a] by (auto intro: world_grows_admission)
  next
    case (bs_return j t es e os)
    then show ?thesis by (auto intro: world_grows_admission simp: admission_leave_facts)
  next
    case (bs_remove_stage own)
    then show ?thesis
      using world_grows_remove(1) [OF prod.collapse [symmetric]] by simp
  qed (use kd in \<open>auto intro: world_grows_subscribe world_grows_retire
        simp: owner_retirement_report_cases\<close>)
  show "job_frame (job_of b' j) = Some (t, e) \<Longrightarrow>
         job_frame (job_of b j) = Some (t, e) \<or> fresh_frame b t e"
    using assms(1)
  proof cases
    case (bs_enter j' t' e' es os a)
    assume "job_frame (job_of b' j) = Some (t, e)"
    with bs_enter show ?thesis
      using try_enter_facts [OF bs_enter(3)]
      by (auto simp: fresh_frame_def split: if_splits) (metis job_rest.simps(1) list.set_intros(1))
  qed (auto split: if_splits)
  show "e \<in> set (job_rest (job_of b' j)) \<Longrightarrow>
         e \<in> set (job_rest (job_of b j)) \<or> live (bus_world b) e"
    using assms(1) by cases (auto split: if_splits dest: snapshot_live)
qed

lemma sealed_step:
  assumes "bus_step b b'" and "bus_inv b" and "sealed b own"
  shows "sealed b' own"
proof -
  note m = bus_step_moves [OF assms(1,2)]
  have bound: "de_admission e < ew_next (bus_world b)" if "e \<in> set (job_rest (job_of b j))" for j e
    using assms(2) that by (auto simp: bus_inv_def inv_bound_def)
  have dead: "\<not> live (bus_world b) e" if "de_owner e = own" for e
    using assms(3) that by (auto simp: sealed_def gone_def live_def)
  have "gone (bus_world b') own"
    using m(1) assms(3) by (auto simp: sealed_def intro: world_grows_gone)
  moreover have "\<not> runs_owner b' own"
    using m(2) assms(3) unfolding sealed_def runs_owner_def fresh_frame_def by blast
  moreover have "\<not> ad_accepting (ew_admission (bus_world b') (de_admission e))"
    if e: "e \<in> set (job_rest (job_of b' j))" "de_owner e = own" for j e
  proof -
    have old: "e \<in> set (job_rest (job_of b j))" using m(3) [OF e(1)] dead [OF e(2)] by blast
    then have "\<not> ad_accepting (ew_admission (bus_world b) (de_admission e))"
      using assms(3) e(2) by (auto simp: sealed_def)
    then show ?thesis using world_grows_closed [OF m(1) bound [OF old]] by blast
  qed
  ultimately show ?thesis by (auto simp: sealed_def)
qed

lemma sealed_steps:
  "bus_step\<^sup>*\<^sup>* b b' \<Longrightarrow> bus_inv b \<Longrightarrow> sealed b own \<Longrightarrow> sealed b' own"
  by (induction rule: rtranclp_induct) (auto intro: sealed_step bus_steps_inv)

lemma gone_steps:
  "bus_step\<^sup>*\<^sup>* b b' \<Longrightarrow> bus_inv b \<Longrightarrow> gone (bus_world b) own \<Longrightarrow> gone (bus_world b') own"
  by (induction rule: rtranclp_induct)
    (auto intro: world_grows_gone bus_step_moves(1) bus_steps_inv)

text \<open>A quiescent report seals an owner whose registrations are gone.\<close>

lemma report_seals:
  assumes inv: "bus_inv b" and gone: "gone (bus_world b) own"
    and "owner_retirement_report own n (bus_world b) = (w, r)" and "quiescent r"
  shows "bus_inv (b\<lparr>bus_world := w\<rparr>)" and "sealed (b\<lparr>bus_world := w\<rparr>) own"
proof -
  have d: "all_drained (bus_world b) own" and w: "w = drop_retiring own (bus_world b)"
    using assms(3,4) owner_retirement_report_cases [of own n "bus_world b"] by simp_all
  show "bus_inv (b\<lparr>bus_world := w\<rparr>)"
    by (rule inv_forget [OF inv quiet_world, of w own]) (simp add: w d)
  have ic: "inv_count b" and it: "inv_tracked b" and ip: "inv_pending b"
    using inv by (simp_all add: bus_inv_def)
  have dead: "\<not> live (bus_world b) e" if "de_owner e = own" for e
    using gone that by (auto simp: gone_def live_def)
  have "\<not> runs_owner b own"
    using it dead drained_no_frame [OF ic d] unfolding runs_owner_def inv_tracked_def by blast
  moreover have "\<not> ad_accepting (ew_admission (bus_world b) (de_admission e))"
    if "e \<in> set (job_rest (job_of b j))" and "de_owner e = own" for j e
    using that dead ip unfolding inv_pending_def by blast
  ultimately show "sealed (b\<lparr>bus_world := w\<rparr>) own"
    using gone unfolding sealed_def runs_owner_def w gone_def
    by (simp add: owner_retired_def)
qed

section \<open>Guarantees\<close>

text \<open>
  C1. A quiescent retirement is final. However dispatches, subscriptions, unsubscriptions and
  other retirements interleave, before and after: once \<open>remove_owner\<close> has retired an owner
  generation and some later owner report is quiescent (no callback in flight), no callback of
  that generation has a native frame at any later time, so its module can be unmapped.
\<close>
theorem bus_retirement_is_final:
  assumes "bus_step\<^sup>*\<^sup>* bus_init b"
    and "remove_owner_stage own (bus_world b) = (w1, batch)"
    and "bus_step\<^sup>*\<^sup>* (b\<lparr>bus_world := w1\<rparr>) b2"
    and "owner_retirement_report own n (bus_world b2) = (w2, r)" and "quiescent r"
    and "bus_step\<^sup>*\<^sup>* (b2\<lparr>bus_world := w2\<rparr>) b3"
  shows "\<not> runs_owner b3 own"
proof -
  have i1: "bus_inv (b\<lparr>bus_world := w1\<rparr>)"
    using inv_remove_stage [OF bus_reachable_inv [OF assms(1)], of own] assms(2) by simp
  have "gone (bus_world b2) own"
    using gone_steps [OF assms(3) i1] world_grows_remove(2) [OF assms(2)] by simp
  then show ?thesis
    using report_seals [OF bus_steps_inv [OF assms(3) i1] _ assms(4,5)] sealed_steps [OF assms(6)]
    by (auto simp: sealed_def)
qed

text \<open>A run with a callback in flight while its owner is removed.\<close>

definition demo_owner :: owner_token where
  "demo_owner = \<lparr>signature = 7, generation = 2\<rparr>"

definition demo_subscription :: subscription where
  "demo_subscription = \<lparr>su_owner = demo_owner, su_callback = 4096, su_handler = 3,
     su_admission = 0, su_token = 0\<rparr>"

definition demo_subscribed :: bus where
  "demo_subscribed = bus_init\<lparr>bus_world :=
     fst (subscribe ''quit'' demo_subscription
            (fst (subscription_new demo_owner 4096 3 (bus_world bus_init))))\<rparr>"

definition demo_entered :: admission where
  "demo_entered = \<lparr>ad_accepting = True, ad_in_flight = 1, ad_by_thread = Map.empty(4 \<mapsto> 1)\<rparr>"

definition demo_running :: bus where
  "demo_running = put_job 0
     (Some (Dispatching 4 [] (Some (dispatch_entry_of demo_subscription)) [demo_owner]))
     (set_admission 0 demo_entered (bus_world demo_subscribed))
     demo_subscribed"

definition demo_removed :: bus where
  "demo_removed = demo_running\<lparr>bus_world :=
     fst (remove_owner_stage demo_owner (bus_world demo_running))\<rparr>"

definition demo_returned :: bus where
  "demo_returned = put_job 0 (Some (Dispatching 4 [] None [demo_owner]))
     (set_admission 0 (admission_leave 4 (ew_admission (bus_world demo_removed) 0))
       (bus_world demo_removed)) demo_removed"

lemmas demo_eval = demo_entered_def demo_owner_def demo_subscription_def demo_subscribed_def demo_running_def
  demo_removed_def demo_returned_def bus_init_def event_bus_new_def subscription_new_def
  subscribe_def owner_retired_def push_subscription_def set_admission_def dispatch_entry_of_def
  admission_open_def admission_try_enter_def admission_leave_def checked_add_def thread_count_def
  snapshot_def remove_owner_stage_def own_kept_def own_removed_def push_owner_def
  admission_close_def owner_retirement_report_def retiring_of_def drop_retiring_def put_job_def
  saturating_add_def saturating_sub_def quiescent_def

lemma demo_subscribes: "bus_step bus_init demo_subscribed"
  using bs_subscribe [of demo_owner 4096 3 bus_init _ demo_subscription "''quit''"]
  by (simp add: demo_eval)

lemma demo_runs: "bus_step\<^sup>*\<^sup>* bus_init demo_running"
proof -
  let ?e = "dispatch_entry_of demo_subscription"
  define mid where "mid = put_job 0 (Some (Dispatching 4 [?e] None []))
    (bus_world demo_subscribed) demo_subscribed"
  have "bus_step demo_subscribed mid"
    using bs_raise [of demo_subscribed 0 4 "''quit''" "\<lambda>_. True"]
    by (simp add: mid_def demo_eval)
  moreover have "bus_step mid (put_job 0 (Some (Dispatching 4 [] (Some ?e) [demo_owner]))
      (set_admission 0 demo_entered (bus_world mid)) mid)"
  proof -
    have "job_of mid 0 = Some (Dispatching 4 [?e] None [])" by (simp add: mid_def)
    moreover have "admission_try_enter 4 (ew_admission (bus_world mid) (de_admission ?e)) =
        Some demo_entered"
      by (simp add: mid_def demo_eval)
    ultimately have "bus_step mid (put_job 0 (Some (Dispatching 4 [] (Some ?e)
        (push_owner [] (de_owner ?e)))) (set_admission (de_admission ?e) demo_entered (bus_world mid)) mid)"
      by (rule bs_enter)
    then show ?thesis by (simp add: push_owner_def dispatch_entry_of_def demo_subscription_def)
  qed
  then have "bus_step mid demo_running"
    by (simp add: mid_def demo_running_def put_job_def)
  ultimately show ?thesis by (rule three_steps [where r = bus_step, OF demo_subscribes])
qed

lemma demo_returns: "bus_step demo_removed demo_returned"
  using bs_return [of demo_removed 0 4 "[]" "dispatch_entry_of demo_subscription" "[demo_owner]"]
  by (simp add: demo_eval)

theorem bus_retirement_is_final_witness:
  "runs_owner demo_removed demo_owner \<and>
   \<not> quiescent (snd (owner_retirement_report demo_owner 1 (bus_world demo_removed))) \<and>
   \<not> runs_owner (demo_returned\<lparr>bus_world :=
        fst (owner_retirement_report demo_owner 1 (bus_world demo_returned))\<rparr>) demo_owner"
proof (intro conjI)
  show "runs_owner demo_removed demo_owner"
    by (auto simp: runs_owner_def demo_eval intro!: exI [of _ 0])
  show "\<not> quiescent (snd (owner_retirement_report demo_owner 1 (bus_world demo_removed)))"
    by (simp add: demo_eval)
  have "bus_step\<^sup>*\<^sup>* demo_removed demo_returned" using demo_returns by blast
  moreover have "quiescent (snd (owner_retirement_report demo_owner 1 (bus_world demo_returned)))"
    by (simp add: demo_eval)
  ultimately show "\<not> runs_owner (demo_returned\<lparr>bus_world :=
        fst (owner_retirement_report demo_owner 1 (bus_world demo_returned))\<rparr>) demo_owner"
    using bus_retirement_is_final [OF demo_runs prod.collapse [symmetric] _
        prod.collapse [symmetric] _ rtranclp.rtrancl_refl]
    unfolding demo_removed_def by blast
qed

text \<open>A closed gate with no frame on other threads than \<open>t\<close> stays that way.\<close>

definition only_on :: "bus \<Rightarrow> arc \<Rightarrow> thread_id \<Rightarrow> bool" where
  "only_on b a t \<longleftrightarrow>
     (\<forall>j u e. job_frame (job_of b j) = Some (u, e) \<longrightarrow> de_admission e = a \<longrightarrow> u = t)"

definition shut :: "bus \<Rightarrow> arc \<Rightarrow> bool" where
  "shut b a \<longleftrightarrow> a < ew_next (bus_world b) \<and> \<not> ad_accepting (ew_admission (bus_world b) a)"

lemma shut_steps:
  "bus_step\<^sup>*\<^sup>* b b' \<Longrightarrow> bus_inv b \<Longrightarrow> shut b a \<Longrightarrow> shut b' a"
proof (induction rule: rtranclp_induct)
  case (step y z)
  have "bus_inv y" by (rule bus_steps_inv [OF step.hyps(1) step.prems(1)])
  then show ?case
    using step world_grows_closed [OF bus_step_moves(1) [OF step.hyps(2)]] by (auto simp: shut_def)
qed

lemma only_on_steps:
  "bus_step\<^sup>*\<^sup>* b b' \<Longrightarrow> bus_inv b \<Longrightarrow> shut b a \<Longrightarrow> only_on b a t \<Longrightarrow> only_on b' a t"
proof (induction rule: rtranclp_induct)
  case (step y z)
  have iy: "bus_inv y" by (rule bus_steps_inv [OF step.hyps(1) step.prems(1)])
  have sy: "shut y a" by (rule shut_steps [OF step.hyps(1) step.prems(1,2)])
  have oy: "only_on y a t" using step by blast
  show ?case
    unfolding only_on_def
  proof (intro allI impI)
    fix j u e
    assume "job_frame (job_of z j) = Some (u, e)" and a: "de_admission e = a"
    then have "job_frame (job_of y j) = Some (u, e) \<or> fresh_frame y u e"
      using bus_step_moves(2) [OF step.hyps(2) iy] by blast
    then show "u = t" using oy sy a by (auto simp: only_on_def shut_def fresh_frame_def)
  qed
qed

lemma others_left_only_on:
  assumes ic: "inv_count b" and "others_left t (ew_admission (bus_world b) a)"
  shows "only_on b a t"
proof -
  have "card (frames b a) \<le> card (frames_on b a t)"
    using assms unfolding inv_count_def others_left_def word_le_nat_alt by simp
  moreover have "frames_on b a t \<subseteq> frames b a" by (auto simp: frames_def frames_on_def)
  ultimately have "frames_on b a t = frames b a"
    using card_seteq [OF frames_finite(1) [OF ic]] by blast
  then have "j \<in> frames b a \<Longrightarrow> j \<in> frames_on b a t" for j by simp
  then show ?thesis by (fastforce simp: only_on_def frames_def frames_on_def)
qed

lemma retired_gate_shut:
  assumes "bus_inv b" and "retire_matching ident P (bus_world b) = (w, batch)"
    and "s \<in> set (rb_subscriptions batch)"
  shows "shut (put_job j x w b) (su_admission s)"
proof -
  have kd: "keys_distinct (bus_world b)" and ib: "inv_bound b"
    using assms(1) by (simp_all add: bus_inv_def inv_keys_def)
  note f = retire_matching_effect [OF kd assms(2)]
  then have "s \<in> set (registered (bus_world b))" using assms(3) by blast
  then have "su_admission s < ew_next (bus_world b)" using ib by (auto simp: inv_bound_def)
  then show ?thesis using f assms(3) by (auto simp: shut_def)
qed

text \<open>
  C2. \<open>unsubscribe\<close> is a barrier. When an exact retirement has removed a subscription and
  the wait of its thread for that subscription's gate has returned, then at every later time
  the callback runs on no other thread: only frames of the retiring thread itself, the ones
  below its own call, can be left.
\<close>
theorem bus_unsubscribe_waits:
  assumes "bus_step\<^sup>*\<^sup>* bus_init b" and "job_of b j = None"
    and "retire_matching ident P (bus_world b) = (w, batch)"
    and "s \<in> set (rb_subscriptions batch)"
    and "bus_step\<^sup>*\<^sup>*
           (put_job j (Some (Retiring t (rb_subscriptions batch) (rb_owners batch))) w b) b2"
    and "others_left t (ew_admission (bus_world b2) (su_admission s))"
    and "bus_step\<^sup>*\<^sup>* b2 b3"
    and "job_frame (job_of b3 i) = Some (u, e)" and "de_admission e = su_admission s"
  shows "u = t"
proof -
  let ?b1 = "put_job j (Some (Retiring t (rb_subscriptions batch) (rb_owners batch))) w b"
  have ib: "bus_inv b" by (rule bus_reachable_inv [OF assms(1)])
  have i1: "bus_inv ?b1" by (rule bus_step_inv [OF bs_retire [OF assms(2,3)] ib])
  have i2: "bus_inv b2" by (rule bus_steps_inv [OF assms(5) i1])
  have "shut b2 (su_admission s)"
    by (rule shut_steps [OF assms(5) i1 retired_gate_shut [OF ib assms(3,4)]])
  moreover have "only_on b2 (su_admission s) t"
    using others_left_only_on i2 assms(6) by (simp add: bus_inv_def)
  ultimately have "only_on b3 (su_admission s) t" by (rule only_on_steps [OF assms(7) i2])
  with assms(8,9) show ?thesis by (simp add: only_on_def)
qed

text \<open>
  The callback unsubscribes itself: its own frame stays, on its own thread, and does not
  block the wait.
\<close>

lemma demo_self_retired:
  "retire_matching ''quit'' (\<lambda>s. su_token s = 0) (bus_world demo_running) =
     (fst (retire_matching ''quit'' (\<lambda>s. su_token s = 0) (bus_world demo_running)),
      \<lparr>rb_subscriptions = [demo_subscription], rb_owners = [demo_owner]\<rparr>)"
  by (simp add: retire_matching_def demo_eval bt_remove_def set_subscriptions_def)

theorem bus_unsubscribe_waits_witness:
  "let w = fst (retire_matching ''quit'' (\<lambda>s. su_token s = 0) (bus_world demo_running));
       b = put_job 1 (Some (Retiring 4 [demo_subscription] [demo_owner])) w demo_running
   in others_left 4 (ew_admission w 0) \<and> \<not> others_left 9 (ew_admission w 0) \<and>
      job_frame (job_of b 0) = Some (4, dispatch_entry_of demo_subscription) \<and>
      (\<nexists>i u e. u \<noteq> 4 \<and> job_frame (job_of b i) = Some (u, e) \<and> de_admission e = 0)"
proof -
  let ?w = "fst (retire_matching ''quit'' (\<lambda>s. su_token s = 0) (bus_world demo_running))"
  let ?b = "put_job 1 (Some (Retiring 4 [demo_subscription] [demo_owner])) ?w demo_running"
  have o: "others_left 4 (ew_admission ?w 0)" "\<not> others_left 9 (ew_admission ?w 0)"
    by (simp_all add: retire_matching_def demo_eval bt_remove_def set_subscriptions_def
        others_left_def)
  have f: "job_frame (job_of ?b 0) = Some (4, dispatch_entry_of demo_subscription)"
    "job_of demo_running 1 = None" "su_admission demo_subscription = 0"
    by (simp_all add: demo_eval)
  have "u = 4" if "job_frame (job_of ?b i) = Some (u, e)" and "de_admission e = 0" for i u e
    by (rule bus_unsubscribe_waits [OF demo_runs f(2) demo_self_retired, of demo_subscription 4 ?b ?b])
      (use o f that in simp_all)
  with o f show ?thesis unfolding Let_def by blast
qed

text \<open>
  A retired generation cannot come back. After \<open>remove_owner\<close> of a generation, and
  whatever happens next, \<open>subscribe\<close> refuses every subscription of that signature whose
  generation is not newer, and leaves the bus as it was.
\<close>
theorem bus_retired_generation_refused:
  assumes "bus_step\<^sup>*\<^sup>* bus_init b"
    and "bus_step\<^sup>*\<^sup>* (b\<lparr>bus_world := fst (remove_owner_stage own (bus_world b))\<rparr>) b2"
    and "signature (su_owner s) = signature own" and "generation (su_owner s) \<le> generation own"
  shows "subscribe ident s (bus_world b2) = (bus_world b2, Inl OwnerRetired)"
proof -
  obtain w batch where st: "remove_owner_stage own (bus_world b) = (w, batch)" by fastforce
  have "owner_retired (ew_registry w) (su_owner s)"
    using remove_owner_stage_effect [OF st] assms(3,4)
    by (auto simp: owner_retired_def le_max_iff_disj split: option.splits)
  moreover have "bus_inv (b\<lparr>bus_world := w\<rparr>)"
    using inv_remove_stage [OF bus_reachable_inv [OF assms(1)], of own] st by simp
  moreover have "owner_retired (ew_registry (bus_world c')) x"
    if "bus_step\<^sup>*\<^sup>* c c'" and "bus_inv c" and "owner_retired (ew_registry (bus_world c)) x" for c c' x
    using that
  proof (induction rule: rtranclp_induct)
    case (step y z)
    then show ?case
      using bus_step_moves(1) [OF step.hyps(2) bus_steps_inv [OF step.hyps(1)]]
      by (auto simp: world_grows_def)
  qed
  ultimately have "owner_retired (ew_registry (bus_world b2)) (su_owner s)"
    using assms(2) st by (metis (no_types, lifting) bus.select_convs(1) bus.surjective
        bus.update_convs(1) fst_conv)
  then show ?thesis by (simp add: subscribe_def)
qed

theorem bus_retired_generation_refused_witness:
  "subscribe ''load'' demo_subscription (bus_world demo_removed) =
     (bus_world demo_removed, Inl OwnerRetired) \<and>
   snd (subscribe ''load'' (demo_subscription\<lparr>su_owner := demo_owner\<lparr>generation := 3\<rparr>\<rparr>)
          (bus_world demo_removed)) = Inr 0"
proof
  show "subscribe ''load'' demo_subscription (bus_world demo_removed) =
     (bus_world demo_removed, Inl OwnerRetired)"
    by (rule bus_retired_generation_refused [OF demo_runs, of demo_owner])
      (simp_all add: demo_removed_def demo_subscription_def)
  show "snd (subscribe ''load'' (demo_subscription\<lparr>su_owner := demo_owner\<lparr>generation := 3\<rparr>\<rparr>)
          (bus_world demo_removed)) = Inr 0"
    by (simp add: demo_eval)
qed

end
