(* ===== verification/Event_Dispatch.thy ===== *)
theory Event_Dispatch
  imports Event_Guarantees
begin

text \<open>
  What one dispatch and one owner cleanup do to the rest of the bus, as seen by a caller that
  runs them to the end.
\<close>

section \<open>Permits\<close>

definition keeps_counters ::
  "(handler \<Rightarrow> event_world \<Rightarrow> event_world \<times> bool) \<Rightarrow> bool"
where
  "keeps_counters handlers \<longleftrightarrow>
     (\<forall>h w a u. ad_in_flight (ew_admission (fst (handlers h w)) a) = ad_in_flight (ew_admission w a) \<and>
        thread_count (ew_admission (fst (handlers h w)) a) u = thread_count (ew_admission w a) u)"

lemma enter_leave_counters:
  assumes "admission_try_enter t x = Some a"
    and "ad_in_flight y = ad_in_flight a" and "\<And>u. thread_count y u = thread_count a u"
  shows "ad_in_flight (admission_leave t y) = ad_in_flight x"
    and "thread_count (admission_leave t y) u = thread_count x u"
  using try_enter_facts [OF assms(1)] admission_leave_facts [of t y] assms(2,3)
  by (auto simp: word_unat_eq_iff)

definition same_counters :: "event_world \<Rightarrow> event_world \<Rightarrow> bool" where
  "same_counters w w' \<longleftrightarrow>
     (\<forall>a u. ad_in_flight (ew_admission w' a) = ad_in_flight (ew_admission w a) \<and>
        thread_count (ew_admission w' a) u = thread_count (ew_admission w a) u)"

lemma fold_reap_admission [simp]: "ew_admission (fold reap_quiescent os w) = ew_admission w"
  by (induction os arbitrary: w) (simp_all add: reap_quiescent_cases)

lemma call_counters:
  assumes "keeps_counters handlers" and "admission_try_enter t (ew_admission w a) = Some x"
    and "handlers h (set_admission a x w) = (w', panicked)"
  shows "same_counters w (set_admission a (admission_leave t (ew_admission w' a)) w')"
proof -
  have k: "ad_in_flight (ew_admission w' c) = ad_in_flight (ew_admission (set_admission a x w) c)"
    "thread_count (ew_admission w' c) u = thread_count (ew_admission (set_admission a x w) c) u"
    for c u
    using assms(1,3) unfolding keeps_counters_def by (metis fst_conv)+
  show ?thesis
    using k enter_leave_counters [OF assms(2), of "ew_admission w' a"]
    by (simp add: same_counters_def)
qed

lemma dispatch_loop_counters:
  "keeps_counters handlers \<Longrightarrow> dispatch_loop handlers t es os rep w = (w', os', rep') \<Longrightarrow>
   same_counters w w'"
proof (induction handlers t es os rep w rule: dispatch_loop.induct)
  case (1 handlers t os rep w)
  then show ?case by (simp add: same_counters_def)
next
  case (2 handlers t e es os rep w)
  show ?case
  proof (cases "admission_try_enter t (ew_admission w (de_admission e))")
    case None
    with 2 show ?thesis by simp
  next
    case (Some a)
    obtain w1 panicked where c: "handlers (de_handler e) (set_admission (de_admission e) a w) = (w1, panicked)"
      by fastforce
    have "same_counters (set_admission (de_admission e)
        (admission_leave t (ew_admission w1 (de_admission e))) w1) w'"
      using 2(2) [OF Some c [symmetric] refl refl refl 2(3)] 2(4) Some c by (simp add: Let_def)
    then show ?thesis
      using call_counters [OF 2(3) Some c] by (simp add: same_counters_def)
  qed
qed

lemma dispatch_loop_report:
  "dispatch_loop handlers t es os rep w = (w', os', rep') \<Longrightarrow> dr_panicked rep \<le> dr_invoked rep \<Longrightarrow>
   dr_panicked rep' \<le> dr_invoked rep' \<and> unat (dr_invoked rep') \<le> unat (dr_invoked rep) + length es \<and>
   set os' = set os \<union> de_owner ` set es"
proof (induction handlers t es os rep w arbitrary: rep' rule: dispatch_loop.induct)
  case (2 handlers t e es os rep w)
  show ?case
  proof (cases "admission_try_enter t (ew_admission w (de_admission e))")
    case None
    with 2 show ?thesis by (force simp: push_owner_def split: if_splits)
  next
    case (Some a)
    obtain w1 panicked where c: "handlers (de_handler e) (set_admission (de_admission e) a w) = (w1, panicked)"
      by fastforce
    let ?rep = "rep\<lparr>dr_invoked := saturating_add (dr_invoked rep) 1,
      dr_panicked := (if panicked then saturating_add (dr_panicked rep) 1 else dr_panicked rep)\<rparr>"
    have le: "dr_panicked ?rep \<le> dr_invoked ?rep"
      using order_trans [OF 2(4) saturating_add_ge [of _ 1]] 2(4)
      by (cases panicked) (simp_all add: word_le_nat_alt unat_saturating_add)
    have n: "unat (dr_invoked ?rep) \<le> Suc (unat (dr_invoked rep))"
      by (simp add: unat_saturating_add)
    have "dr_panicked rep' \<le> dr_invoked rep' \<and>
        unat (dr_invoked rep') \<le> unat (dr_invoked ?rep) + length es \<and>
        set os' = set (push_owner os (de_owner e)) \<union> de_owner ` set es"
      using 2(2) [OF Some c [symmetric] refl refl refl] 2(3) le Some c by (simp add: Let_def)
    with n show ?thesis by (auto simp: push_owner_def)
  qed
qed simp

text \<open>
  A dispatch gives back every permit it took, on every path: entries the gate refused,
  handlers that returned and handlers that panicked. If the handlers themselves leave the
  counters as they find them (nested dispatches do, by this theorem), so does the whole
  dispatch; and its report never counts more panics than calls, nor more calls than the
  snapshot has entries.
\<close>
theorem dispatch_returns_permits:
  assumes "keeps_counters handlers"
    and "dispatch handlers t ident filt w = (w', rep)"
  shows "ad_in_flight (ew_admission w' a) = ad_in_flight (ew_admission w a) \<and>
    thread_count (ew_admission w' a) u = thread_count (ew_admission w a) u \<and>
    dr_panicked rep \<le> dr_invoked rep \<and> unat (dr_invoked rep) \<le> length (snapshot ident filt w)"
proof -
  let ?z = "\<lparr>dr_invoked = 0, dr_panicked = 0\<rparr>"
  obtain v os where l: "dispatch_loop handlers t (snapshot ident filt w) [] ?z w = (v, os, rep)"
    and w': "w' = fold reap_quiescent os v"
    using assms(2) by (auto simp: dispatch_def split: prod.splits)
  show ?thesis
    using dispatch_loop_counters [OF assms(1) l] dispatch_loop_report [OF l]
    by (simp add: same_counters_def w')
qed

text \<open>The dispatch of \<open>raise\<close> itself keeps the counters, so handlers may raise.\<close>

definition demo_handlers :: "handler \<Rightarrow> event_world \<Rightarrow> event_world \<times> bool" where
  "demo_handlers h w = (w, h = 3)"

theorem dispatch_returns_permits_witness:
  "snd (dispatch demo_handlers 4 ''quit'' (\<lambda>_. True) (bus_world demo_subscribed)) =
     \<lparr>dr_invoked = 1, dr_panicked = 1\<rparr> \<and>
   ad_in_flight (ew_admission
     (fst (dispatch demo_handlers 4 ''quit'' (\<lambda>_. True) (bus_world demo_subscribed))) 0) = 0"
proof -
  have k: "keeps_counters demo_handlers" by (simp add: keeps_counters_def demo_handlers_def)
  have "snd (dispatch demo_handlers 4 ''quit'' (\<lambda>_. True) (bus_world demo_subscribed)) =
     \<lparr>dr_invoked = 1, dr_panicked = 1\<rparr>"
    by (simp add: dispatch_def demo_eval demo_handlers_def)
  moreover have "ad_in_flight (ew_admission (bus_world demo_subscribed) 0) = 0"
    by (simp add: demo_eval)
  ultimately show ?thesis
    using dispatch_returns_permits [OF k prod.collapse [symmetric],
        of 4 "''quit''" "\<lambda>_. True" "bus_world demo_subscribed" 0] by simp
qed

section \<open>Owner cleanup\<close>

definition registered_of :: "event_world \<Rightarrow> owner_token \<Rightarrow> subscription list" where
  "registered_of w own = filter (\<lambda>s. su_owner s = own) (registered w)"

lemma remove_owner_registered:
  "registered (fst (remove_owner own w)) = filter (\<lambda>s. su_owner s \<noteq> own) (registered w)"
proof -
  obtain w' batch where st: "remove_owner_stage own w = (w', batch)" by fastforce
  show ?thesis
    using remove_owner_stage_effect [OF st] st
    by (simp add: remove_owner_def owner_retirement_report_cases)
qed

interpretation ev: owner_cleanup "\<lambda>_. True" "\<lambda>own w. fst (remove_owner own w)" registered_of
proof (unfold_locales, rule TrueI)
  show "registered_of (fst (remove_owner o1 s)) o1 = []" for o1 s
    by (simp add: registered_of_def remove_owner_registered)
  show "registered_of (fst (remove_owner o1 s)) o2 = registered_of s o2" if "o2 \<noteq> o1" for o1 o2 s
    using that by (auto simp: registered_of_def remove_owner_registered intro!: filter_cong)
qed

text \<open>
  Unloading addons is isolated: after removing any owners, in any order, exactly the
  subscriptions of the removed generations are gone, and every other owner keeps all of its
  own, in registration order.
\<close>
theorem bus_cleanup_isolated:
  "registered_of (fold (\<lambda>own w. fst (remove_owner own w)) os w) own =
     (if own \<in> set os then [] else registered_of w own)"
  by (rule ev.cleanup_all [OF TrueI])

end
