(* ===== verification/Render_Observation.thy ===== *)
theory Render_Observation
  imports Nexus_Prelude
begin

text \<open>
  Descriptions of swap chains (src/crates/nexus-render/src/observation.rs): stable
  identities, adapter LUIDs, extents, formats and one observation sample. The identities are
  transparent wrappers of a machine integer in the source and machine integers here.
\<close>

unbundle bit_operations_syntax

type_synonym swap_chain_id = u64
type_synonym hwnd = usize
type_synonym device_id = u64

text \<open>The Windows adapter LUID; the high part is an \<open>i32\<close>, kept as its 32 bits.\<close>

record adapter_luid =
  low_part :: u32
  high_part :: "32 word"

definition luid_from_i64 :: "64 word \<Rightarrow> adapter_luid" where
  "luid_from_i64 v = \<lparr>low_part = ucast v, high_part = ucast (signed_drop_bit 32 v)\<rparr>"

definition luid_as_i64 :: "adapter_luid \<Rightarrow> 64 word" where
  "luid_as_i64 l = push_bit 32 (scast (high_part l)) OR ucast (low_part l)"

record extent2d =
  width :: u32
  height :: u32

definition is_zero_extent :: "extent2d \<Rightarrow> bool" where
  "is_zero_extent e = (width e = 0 \<or> height e = 0)"

definition area :: "extent2d \<Rightarrow> u64" where
  "area e = ucast (width e) * ucast (height e)"

datatype surface_format =
    Rgba8Unorm | Rgba8UnormSrgb | Bgra8Unorm | Bgra8UnormSrgb | Rgb10A2Unorm | Rgba16Float
  | OtherFormat u32

fun is_hdr_capable :: "surface_format \<Rightarrow> bool" where
  "is_hdr_capable Rgb10A2Unorm = True"
| "is_hdr_capable Rgba16Float = True"
| "is_hdr_capable _ = False"

datatype color_space = Srgb | ScRgbLinear | Hdr10Pq | OtherSpace u32

fun is_hdr :: "color_space \<Rightarrow> bool" where
  "is_hdr ScRgbLinear = True"
| "is_hdr Hdr10Pq = True"
| "is_hdr _ = False"

datatype present_method = Present | Present1

record activity =
  present_count :: u64
  last_present_sequence :: u64
  consecutive_present_cycles :: u32
  window_visible :: bool
  foreground :: bool
  occluded :: bool

definition activity_active :: "u64 \<Rightarrow> u64 \<Rightarrow> u32 \<Rightarrow> activity" where
  "activity_active n_present last_sequence cycles =
     \<lparr>present_count = n_present, last_present_sequence = last_sequence, consecutive_present_cycles = cycles,
      window_visible = True, foreground = False, occluded = False\<rparr>"

definition activity_default :: activity where
  "activity_default =
     \<lparr>present_count = 0, last_present_sequence = 0, consecutive_present_cycles = 0,
      window_visible = True, foreground = False, occluded = False\<rparr>"

record swap_chain_observation =
  so_id :: swap_chain_id
  so_hwnd :: "hwnd option"
  so_device :: device_id
  so_adapter_luid :: adapter_luid
  so_format :: surface_format
  so_color_space :: color_space
  so_size :: extent2d
  so_present_method :: present_method
  so_activity :: activity

definition is_hdr_output :: "swap_chain_observation \<Rightarrow> bool" where
  "is_hdr_output o' = (is_hdr_capable (so_format o') \<and> is_hdr (so_color_space o'))"

section \<open>Properties\<close>

lemma area_exact: "unat (area e) = unat (width e) * unat (height e)"
proof -
  have "unat (width e) < 2 ^ 32" "unat (height e) < 2 ^ 32"
    using unsigned_less [of "width e"] unsigned_less [of "height e"] by simp_all
  then have "unat (width e) * unat (height e) < 2 ^ 32 * 2 ^ 32"
    by (intro mult_strict_mono) simp_all
  then show ?thesis by (simp add: area_def unat_word_ariths unat_ucast_widen)
qed

text \<open>
  An extent's area is the exact product of its sides (no 32-bit product wraps), so it is
  zero exactly for the extents the classifier rejects as empty.
\<close>
theorem extent_area_exact:
  "unat (area e) = unat (width e) * unat (height e) \<and> (area e = 0) = is_zero_extent e"
  using area_exact [of e] by (auto simp: is_zero_extent_def word_unat_eq_iff)

text \<open>
  The packed signed form of an adapter LUID loses nothing, in either direction.
\<close>
theorem luid_roundtrip: "luid_from_i64 (luid_as_i64 l) = l \<and> luid_as_i64 (luid_from_i64 v) = v"
proof
  have "ucast (luid_as_i64 l) = low_part l"
    by (rule bit_word_eqI) (simp add: luid_as_i64_def bit_simps)
  moreover have "ucast (signed_drop_bit 32 (luid_as_i64 l)) = high_part l"
  proof (rule bit_word_eqI)
    fix n
    assume "n < LENGTH(32)"
    then show "bit (ucast (signed_drop_bit 32 (luid_as_i64 l)) :: 32 word) n = bit (high_part l) n"
      by (cases "n = 31") (auto simp: luid_as_i64_def bit_simps min_def not_le dest: bit_imp_le_length)
  qed
  ultimately show "luid_from_i64 (luid_as_i64 l) = l" by (simp add: luid_from_i64_def)
  show "luid_as_i64 (luid_from_i64 v) = v"
  proof (rule bit_word_eqI)
    fix n
    assume "n < LENGTH(64)"
    then show "bit (luid_as_i64 (luid_from_i64 v)) n = bit v n"
      by (cases "n = 63") (auto simp: luid_as_i64_def luid_from_i64_def bit_simps min_def not_le)
  qed
qed

end
