(* ===== verification/Render_Safety.thy ===== *)
theory Render_Safety
  imports Nexus_Prelude
begin

text \<open>
  User-controlled render stages and per-stage failure containment
  (src/crates/nexus-render/src/safety.rs). A \<open>NonZeroU32\<close> threshold is a \<open>u32\<close> with the
  hypothesis, where a property needs it, that it is not zero.
\<close>

section \<open>Stages and controls\<close>

datatype safe_mode = Automatic | PerObjectHooks | FactoryHooks | GlobalHookFallback | ObserveOnly | Off

definition permits_hooks :: "safe_mode \<Rightarrow> bool" where
  "permits_hooks m = (m \<noteq> Off)"

datatype render_stage = ProxyOnly | HooksOnly | RenderProbe | CoreUi | Addons

fun stage_number :: "render_stage \<Rightarrow> nat" where
  "stage_number ProxyOnly = 0"
| "stage_number HooksOnly = 1"
| "stage_number RenderProbe = 2"
| "stage_number CoreUi = 3"
| "stage_number Addons = 4"

lemma stage_number_inject [simp]: "stage_number a = stage_number b \<longleftrightarrow> a = b"
  by (cases a; cases b) simp_all

instantiation render_stage :: linorder
begin

definition less_eq_render_stage :: "render_stage \<Rightarrow> render_stage \<Rightarrow> bool" where
  "less_eq_render_stage a b \<longleftrightarrow> stage_number a \<le> stage_number b"

definition less_render_stage :: "render_stage \<Rightarrow> render_stage \<Rightarrow> bool" where
  "less_render_stage a b \<longleftrightarrow> stage_number a < stage_number b"

instance
  by standard (auto simp: less_eq_render_stage_def less_render_stage_def)

end

fun stage_ceiling :: "safe_mode \<Rightarrow> render_stage \<Rightarrow> render_stage" where
  "stage_ceiling ObserveOnly requested = HooksOnly"
| "stage_ceiling Off requested = ProxyOnly"
| "stage_ceiling Automatic requested = requested"
| "stage_ceiling PerObjectHooks requested = requested"
| "stage_ceiling FactoryHooks requested = requested"
| "stage_ceiling GlobalHookFallback requested = requested"

record render_controls =
  controls_safe_mode :: safe_mode
  controls_max_stage :: render_stage

definition set_safe_mode :: "safe_mode \<Rightarrow> render_controls \<Rightarrow> render_controls" where
  "set_safe_mode m c = c\<lparr>controls_safe_mode := m\<rparr>"

definition set_max_stage :: "render_stage \<Rightarrow> render_controls \<Rightarrow> render_controls" where
  "set_max_stage s c = c\<lparr>controls_max_stage := s\<rparr>"

definition effective_stage :: "render_controls \<Rightarrow> render_stage" where
  "effective_stage c = stage_ceiling (controls_safe_mode c) (controls_max_stage c)"

definition permits :: "render_controls \<Rightarrow> render_stage \<Rightarrow> bool" where
  "permits c s = (stage_number s \<le> stage_number (effective_stage c))"

definition render_controls_default :: render_controls where
  "render_controls_default = \<lparr>controls_safe_mode = Automatic, controls_max_stage = Addons\<rparr>"

section \<open>Failure records\<close>

record failure_policy =
  failures_before_cooldown :: u32
  cooldown_sequences :: u64
  cooldowns_before_disable :: u32

definition failure_policy_default :: failure_policy where
  "failure_policy_default =
     \<lparr>failures_before_cooldown = 3, cooldown_sequences = 120, cooldowns_before_disable = 3\<rparr>"

datatype stage_status = Healthy | CoolingDown u64 | Disabled

record stage_record =
  consecutive_failures :: u32
  cooldowns :: u32
  status :: stage_status

definition stage_record_default :: stage_record where
  "stage_record_default = \<lparr>consecutive_failures = 0, cooldowns = 0, status = Healthy\<rparr>"

datatype stage_failure_state =
    StateHealthy (state_failures: u32) (state_cooldowns: u32)
  | StateCoolingDown (state_retry_at: u64) (state_cooldowns: u32)
  | StateDisabled (state_cooldowns: u32)

definition failure_state_of :: "stage_record \<Rightarrow> stage_failure_state" where
  "failure_state_of r =
     (case status r of
        Healthy \<Rightarrow> StateHealthy (consecutive_failures r) (cooldowns r)
      | CoolingDown retry_at \<Rightarrow> StateCoolingDown retry_at (cooldowns r)
      | Disabled \<Rightarrow> StateDisabled (cooldowns r))"

datatype attempt_permission = Attempt | Retry | WaitCooldown u64 | DisabledPermission

datatype failure_action =
    Continue u32
  | CooldownStarted u64 u32
  | DisabledAction u32
  | AlreadySuppressed stage_failure_state

record failure_controller =
  fc_policy :: failure_policy
  fc_records :: "(render_stage, stage_record) btree"

definition failure_controller_new :: "failure_policy \<Rightarrow> failure_controller" where
  "failure_controller_new p = \<lparr>fc_policy = p, fc_records = []\<rparr>"

definition stage_record_of :: "failure_controller \<Rightarrow> render_stage \<Rightarrow> stage_record" where
  "stage_record_of c s =
     (case map_of (fc_records c) s of None \<Rightarrow> stage_record_default | Some r \<Rightarrow> r)"

definition stage_state :: "failure_controller \<Rightarrow> render_stage \<Rightarrow> stage_failure_state" where
  "stage_state c s = failure_state_of (stage_record_of c s)"

section \<open>Operations\<close>

definition permission ::
  "render_stage \<Rightarrow> u64 \<Rightarrow> failure_controller \<Rightarrow> failure_controller \<times> attempt_permission"
where
  "permission s now c =
     (case map_of (fc_records c) s of
        None \<Rightarrow> (c, Attempt)
      | Some r \<Rightarrow>
          (case status r of
             Healthy \<Rightarrow> (c, Attempt)
           | CoolingDown retry_at \<Rightarrow>
               if retry_at \<le> now
               then (c\<lparr>fc_records := bt_update s
                          (\<lambda>r. r\<lparr>status := Healthy, consecutive_failures := 0\<rparr>) (fc_records c)\<rparr>,
                     Retry)
               else (c, WaitCooldown retry_at)
           | Disabled \<Rightarrow> (c, DisabledPermission)))"

text \<open>The record of a stage after a failure, and the action reported for it.\<close>

definition fail_record ::
  "failure_policy \<Rightarrow> u64 \<Rightarrow> stage_record \<Rightarrow> stage_record \<times> failure_action"
where
  "fail_record p now r0 =
     (let count = (\<lambda>r.
        (let r1 = r\<lparr>consecutive_failures := saturating_add (consecutive_failures r) 1\<rparr>
         in if consecutive_failures r1 < failures_before_cooldown p
            then (r1, Continue (failures_before_cooldown p - consecutive_failures r1))
            else
              (let r2 = r1\<lparr>consecutive_failures := 0, cooldowns := saturating_add (cooldowns r1) 1\<rparr>
               in if cooldowns_before_disable p \<le> cooldowns r2
                  then (r2\<lparr>status := Disabled\<rparr>, DisabledAction (cooldowns r2))
                  else
                    (let retry_at = saturating_add now (cooldown_sequences p)
                     in (r2\<lparr>status := CoolingDown retry_at\<rparr>,
                         CooldownStarted retry_at (cooldowns r2))))))
      in case status r0 of
        CoolingDown retry_at \<Rightarrow>
          if now < retry_at then (r0, AlreadySuppressed (failure_state_of r0))
          else count (r0\<lparr>status := Healthy, consecutive_failures := 0\<rparr>)
      | Disabled \<Rightarrow> (r0, AlreadySuppressed (failure_state_of r0))
      | Healthy \<Rightarrow> count r0)"

text \<open>\<open>entry(stage).or_default()\<close> inserts a default record, whatever is done with it next.\<close>

definition record_failure ::
  "render_stage \<Rightarrow> u64 \<Rightarrow> failure_controller \<Rightarrow> failure_controller \<times> failure_action"
where
  "record_failure s now c =
     (let (r, act) = fail_record (fc_policy c) now (stage_record_of c s)
      in (c\<lparr>fc_records := bt_insert s r (fc_records c)\<rparr>, act))"

definition record_success :: "render_stage \<Rightarrow> failure_controller \<Rightarrow> failure_controller \<times> bool" where
  "record_success s c =
     (c\<lparr>fc_records := bt_remove s (fc_records c)\<rparr>, map_of (fc_records c) s \<noteq> None)"

definition reset_stage :: "render_stage \<Rightarrow> failure_controller \<Rightarrow> failure_controller \<times> bool" where
  "reset_stage s c =
     (c\<lparr>fc_records := bt_remove s (fc_records c)\<rparr>, map_of (fc_records c) s \<noteq> None)"

definition reset_all :: "failure_controller \<Rightarrow> failure_controller" where
  "reset_all c = c\<lparr>fc_records := []\<rparr>"

section \<open>Properties\<close>

text \<open>
  The effective stage is the user's maximum, lowered by the safe mode, and a stage runs
  exactly up to it. The one exception is observe-only mode with a maximum of proxy-only: its
  ceiling is a constant, so it raises the user's maximum to hooks.
\<close>
theorem effective_stage_respects_cap:
  "(effective_stage c \<le> controls_max_stage c \<longleftrightarrow>
      (controls_safe_mode c, controls_max_stage c) \<noteq> (ObserveOnly, ProxyOnly)) \<and>
   (permits c s \<longleftrightarrow> s \<le> effective_stage c) \<and>
   (permits \<lparr>controls_safe_mode = Off, controls_max_stage = m\<rparr> s \<longleftrightarrow> s = ProxyOnly)"
proof (intro conjI)
  show "effective_stage c \<le> controls_max_stage c \<longleftrightarrow>
      (controls_safe_mode c, controls_max_stage c) \<noteq> (ObserveOnly, ProxyOnly)"
    by (cases "controls_safe_mode c"; cases "controls_max_stage c")
      (simp_all add: effective_stage_def less_eq_render_stage_def)
  show "permits c s \<longleftrightarrow> s \<le> effective_stage c"
    by (simp add: permits_def less_eq_render_stage_def)
  show "permits \<lparr>controls_safe_mode = Off, controls_max_stage = m\<rparr> s \<longleftrightarrow> s = ProxyOnly"
    by (cases s) (simp_all add: permits_def effective_stage_def)
qed

text \<open>
  A controller's history: polls, failures, successes and resets, of this and of other stages, at
  any sequence. A success, a reset of the stage and a reset of all of them forgive what the stage
  spent; \<open>counted_failures s c n\<close> counts the failures of \<open>s\<close> since the last of those, from
  \<open>n\<close> on when there is none.
\<close>

datatype stage_op =
  Poll render_stage u64
| Fail render_stage u64
| Succeed render_stage
| Reset render_stage
| ResetAll

fun stage_op_apply :: "stage_op \<Rightarrow> failure_controller \<Rightarrow> failure_controller" where
  "stage_op_apply (Poll s now) c = fst (permission s now c)"
| "stage_op_apply (Fail s now) c = fst (record_failure s now c)"
| "stage_op_apply (Succeed s) c = fst (record_success s c)"
| "stage_op_apply (Reset s) c = fst (reset_stage s c)"
| "stage_op_apply ResetAll c = reset_all c"

fun is_suppressed :: "failure_action \<Rightarrow> bool" where
  "is_suppressed (AlreadySuppressed _) = True"
| "is_suppressed _ = False"

fun counts_for :: "render_stage \<Rightarrow> failure_controller \<Rightarrow> stage_op \<Rightarrow> nat" where
  "counts_for s c (Fail s' now) =
     (if s' = s \<and> \<not> is_suppressed (snd (record_failure s now c)) then 1 else 0)"
| "counts_for s c _ = 0"

fun forgives :: "render_stage \<Rightarrow> stage_op \<Rightarrow> bool" where
  "forgives s (Succeed s') \<longleftrightarrow> s' = s"
| "forgives s (Reset s') \<longleftrightarrow> s' = s"
| "forgives s ResetAll \<longleftrightarrow> True"
| "forgives s _ \<longleftrightarrow> False"

fun counted_failures :: "render_stage \<Rightarrow> failure_controller \<Rightarrow> nat \<Rightarrow> stage_op list \<Rightarrow> nat" where
  "counted_failures s c n [] = n"
| "counted_failures s c n (op # ops) =
     counted_failures s (stage_op_apply op c) (if forgives s op then 0 else n + counts_for s c op) ops"

abbreviation stage_run :: "failure_controller \<Rightarrow> stage_op list \<Rightarrow> failure_controller" where
  "stage_run c ops \<equiv> fold stage_op_apply ops c"

definition budget_spent :: "failure_policy \<Rightarrow> stage_record \<Rightarrow> nat" where
  "budget_spent p r =
     unat (cooldowns r) * unat (failures_before_cooldown p) + unat (consecutive_failures r)"

definition record_wf :: "failure_policy \<Rightarrow> stage_record \<Rightarrow> bool" where
  "record_wf p r \<longleftrightarrow> consecutive_failures r < failures_before_cooldown p \<and>
     (if status r = Disabled
      then cooldowns r = cooldowns_before_disable p \<and> consecutive_failures r = 0
      else cooldowns r < cooldowns_before_disable p) \<and>
     (status r \<noteq> Healthy \<longrightarrow> consecutive_failures r = 0) \<and> 0 < cooldowns_before_disable p"

lemma stage_record_insert [simp]:
  "stage_record_of (c\<lparr>fc_records := bt_insert s r (fc_records c)\<rparr>) s' =
     (if s' = s then r else stage_record_of c s')"
  by (simp add: stage_record_of_def)

lemma saturating_inc:
  "(a :: 'a::len word) < b \<Longrightarrow> unat (saturating_add a 1) = Suc (unat a) \<and> saturating_add a 1 \<le> b"
proof -
  assume "a < b"
  then have "unat a < unat b" by (simp add: word_less_nat_alt)
  moreover have "unat b < 2 ^ LENGTH('a)" by (rule unsigned_less)
  ultimately have "Suc (unat a) \<le> unat b" "Suc (unat a) \<le> 2 ^ LENGTH('a) - 1" by linarith+
  then show ?thesis by (simp add: unat_saturating_add word_le_nat_alt min_def)
qed

text \<open>A counted failure spends exactly one unit of the budget.\<close>

definition counts_record :: "u64 \<Rightarrow> stage_record \<Rightarrow> bool" where
  "counts_record now r \<longleftrightarrow>
     (case status r of Healthy \<Rightarrow> True | CoolingDown at \<Rightarrow> at \<le> now | Disabled \<Rightarrow> False)"

lemma fail_record_step:
  assumes wf: "record_wf p r" and "fail_record p now r = (r', act)"
  shows "record_wf p r'" and "is_suppressed act \<longleftrightarrow> \<not> counts_record now r"
    and "budget_spent p r' = budget_spent p r + (if is_suppressed act then 0 else 1)"
proof -
  have f: "consecutive_failures r < failures_before_cooldown p" using wf by (simp add: record_wf_def)
  then have f0: "0 < failures_before_cooldown p" by (auto simp: word_less_nat_alt)
  have sf: "unat (saturating_add (consecutive_failures r) 1) = Suc (unat (consecutive_failures r))"
    "saturating_add (consecutive_failures r) 1 \<le> failures_before_cooldown p"
    using saturating_inc [OF f] by simp_all
  have s0: "saturating_add 0 1 \<le> failures_before_cooldown p"
    "unat (saturating_add (0 :: u32) 1) = 1"
    using f saturating_inc [of 0 "failures_before_cooldown p"]
    by (auto simp: word_less_nat_alt)
  have full: "unat (failures_before_cooldown p) = Suc (unat x)"
    if "\<not> saturating_add x 1 < failures_before_cooldown p"
      and "saturating_add x 1 \<le> failures_before_cooldown p"
      and "unat (saturating_add x 1) = Suc (unat x)" for x
    using that by (metis order_le_less)
  have d: "unat (saturating_add (cooldowns r) 1) = Suc (unat (cooldowns r))"
    "saturating_add (cooldowns r) 1 \<le> cooldowns_before_disable p" if "status r \<noteq> Disabled"
    using that wf saturating_inc [of "cooldowns r" "cooldowns_before_disable p"]
    by (simp_all add: record_wf_def)
  show "record_wf p r'"
    using assms(2) wf d f f0
    by (auto simp: fail_record_def Let_def record_wf_def not_le
        split: stage_status.splits if_splits)
  show "is_suppressed act \<longleftrightarrow> \<not> counts_record now r"
    using assms(2)
    by (auto simp: fail_record_def Let_def counts_record_def split: stage_status.splits if_splits)
  show "budget_spent p r' = budget_spent p r + (if is_suppressed act then 0 else 1)"
    using assms(2) wf d sf s0 full [of 0] full [of "consecutive_failures r"]
    by (auto simp: fail_record_def Let_def budget_spent_def record_wf_def
        split: stage_status.splits if_splits)
qed

lemma permission_record:
  "stage_record_of (fst (permission s now c)) s' =
     (case status (stage_record_of c s) of
        CoolingDown retry_at \<Rightarrow>
          if s' = s \<and> retry_at \<le> now
          then stage_record_of c s\<lparr>status := Healthy, consecutive_failures := 0\<rparr>
          else stage_record_of c s'
      | _ \<Rightarrow> stage_record_of c s')"
  by (auto simp: permission_def stage_record_of_def stage_record_default_def
      split: option.splits stage_status.splits)

lemma permission_policy [simp]: "fc_policy (fst (permission s now c)) = fc_policy c"
  by (simp add: permission_def split: option.splits stage_status.splits)

lemma record_failure_policy [simp]: "fc_policy (fst (record_failure s now c)) = fc_policy c"
  by (simp add: record_failure_def split: prod.splits)

lemma record_failure_record:
  "stage_record_of (fst (record_failure s now c)) s' =
     (if s' = s then fst (fail_record (fc_policy c) now (stage_record_of c s))
      else stage_record_of c s')"
  "snd (record_failure s now c) = snd (fail_record (fc_policy c) now (stage_record_of c s))"
  by (simp_all add: record_failure_def split: prod.splits)

lemma forget_stage:
  "stage_record_of (fst (record_success s c)) s' = (if s' = s then stage_record_default else stage_record_of c s')"
  "stage_record_of (fst (reset_stage s c)) s' = (if s' = s then stage_record_default else stage_record_of c s')"
  "stage_record_of (reset_all c) s' = stage_record_default"
  by (simp_all add: record_success_def reset_stage_def reset_all_def stage_record_of_def)

lemma forget_policy [simp]:
  "fc_policy (fst (record_success s c)) = fc_policy c" "fc_policy (fst (reset_stage s c)) = fc_policy c"
  "fc_policy (reset_all c) = fc_policy c"
  by (simp_all add: record_success_def reset_stage_def reset_all_def)

lemma stage_op_policy [simp]: "fc_policy (stage_op_apply op c) = fc_policy c"
  by (cases op) simp_all

lemma stage_run_policy [simp]: "fc_policy (stage_run c ops) = fc_policy c"
  by (induction ops arbitrary: c) simp_all

lemma record_wf_default: "record_wf p r \<Longrightarrow> record_wf p stage_record_default"
  by (auto simp: record_wf_def stage_record_default_def word_less_nat_alt split: if_splits)

lemma stage_op_budget:
  assumes "record_wf (fc_policy c) (stage_record_of c s)"
  shows "record_wf (fc_policy c) (stage_record_of (stage_op_apply op c) s) \<and>
    budget_spent (fc_policy c) (stage_record_of (stage_op_apply op c) s) =
      (if forgives s op then 0
       else budget_spent (fc_policy c) (stage_record_of c s) + counts_for s c op)"
proof (cases op)
  case (Poll s' now)
  then show ?thesis
    using assms
    by (auto simp: permission_record record_wf_def budget_spent_def split: stage_status.splits)
next
  case (Fail s' now)
  obtain r' act where f: "fail_record (fc_policy c) now (stage_record_of c s) = (r', act)"
    by fastforce
  show ?thesis
    using fail_record_step [OF assms f] assms f Fail by (auto simp: record_failure_record)
qed (use assms record_wf_default [OF assms] in
      \<open>auto simp: forget_stage budget_spent_def stage_record_default_def\<close>)

lemma stage_run_budget:
  assumes "record_wf (fc_policy c) (stage_record_of c s)"
  shows "record_wf (fc_policy c) (stage_record_of (stage_run c ops) s) \<and>
    budget_spent (fc_policy c) (stage_record_of (stage_run c ops) s) =
      counted_failures s c (budget_spent (fc_policy c) (stage_record_of c s)) ops"
  using assms
proof (induction ops arbitrary: c)
  case (Cons op ops)
  have "record_wf (fc_policy (stage_op_apply op c)) (stage_record_of (stage_op_apply op c) s)"
    using stage_op_budget [OF Cons.prems, of op] by simp
  from Cons.IH [OF this] show ?case using stage_op_budget [OF Cons.prems, of op] by simp
qed simp

text \<open>A budget below the limit is one of its mixed-radix digits.\<close>

lemma budget_digits:
  assumes "record_wf p r"
  shows "budget_spent p r \<le> unat (cooldowns_before_disable p) * unat (failures_before_cooldown p) \<and>
    (status r = Disabled \<longleftrightarrow>
       budget_spent p r = unat (cooldowns_before_disable p) * unat (failures_before_cooldown p)) \<and>
    unat (cooldowns r) = budget_spent p r div unat (failures_before_cooldown p)"
proof -
  let ?F = "unat (failures_before_cooldown p)" and ?D = "unat (cooldowns_before_disable p)"
  have f: "unat (consecutive_failures r) < ?F" using assms by (simp add: record_wf_def word_less_nat_alt)
  then have dv: "budget_spent p r div ?F = unat (cooldowns r)" by (simp add: budget_spent_def)
  show ?thesis
  proof (cases "status r = Disabled")
    case True
    then show ?thesis using assms dv by (simp add: record_wf_def budget_spent_def)
  next
    case False
    then have "unat (cooldowns r) < ?D" using assms by (simp add: record_wf_def word_less_nat_alt)
    then have "Suc (unat (cooldowns r)) * ?F \<le> ?D * ?F" by (intro mult_le_mono1) simp
    then have "budget_spent p r < ?D * ?F" using f by (simp add: budget_spent_def)
    then show ?thesis using False dv by simp
  qed
qed


lemmas safety_eval = record_failure_def fail_record_def stage_record_of_def permission_def
  bt_update_def Let_def saturating_add_def failure_controller_new_def stage_record_default_def
  failure_state_of_def less_render_stage_def failure_policy_default_def word_le_nat_alt
  word_less_nat_alt


fun early_enough :: "render_stage \<Rightarrow> u64 \<Rightarrow> stage_op \<Rightarrow> bool" where
  "early_enough s retry_at (Poll s' now) \<longleftrightarrow> s' = s \<longrightarrow> now < retry_at"
| "early_enough s retry_at (Fail s' now) \<longleftrightarrow> s' = s \<longrightarrow> now < retry_at"
| "early_enough s retry_at _ \<longleftrightarrow> True"

text \<open>
  Stages are isolated and suppression holds: while the stage is not reset and every poll and
  failure of it comes before its retry sequence (the other stages are free to fail and recover),
  a stage in cooldown keeps its record and every such poll is answered with the wait; a disabled
  stage that is not reset stays disabled for every sequence.
\<close>
theorem suppression_holds:
  assumes "status (stage_record_of c s) = Disabled \<or>
      status (stage_record_of c s) = CoolingDown retry_at \<and> now < retry_at \<and>
      (\<forall>op \<in> set ops. early_enough s retry_at op)"
    and "\<forall>op \<in> set ops. \<not> forgives s op"
  shows "stage_record_of (stage_run c ops) s = stage_record_of c s \<and>
    snd (permission s now (stage_run c ops)) =
      (if status (stage_record_of c s) = Disabled then DisabledPermission else WaitCooldown retry_at)"
proof -
  have keep: "stage_record_of (stage_run c ops) s = stage_record_of c s"
    using assms
  proof (induction ops arbitrary: c)
    case (Cons op ops)
    have "stage_record_of (stage_op_apply op c) s = stage_record_of c s"
      using Cons.prems
      by (cases op) (auto simp: permission_record record_failure_record fail_record_def Let_def
          forget_stage split: stage_status.splits)
    with Cons.prems show ?case by (auto intro!: Cons.IH [THEN trans])
  qed simp
  have "status (stage_record_of (stage_run c ops) s) \<noteq> Healthy" using keep assms by auto
  then have "map_of (fc_records (stage_run c ops)) s = Some (stage_record_of (stage_run c ops) s)"
    by (auto simp: stage_record_of_def stage_record_default_def split: option.splits)
  then show ?thesis using keep assms by (auto simp: permission_def split: stage_status.splits)
qed

theorem suppression_holds_witness:
  "snd (permission Addons 15 (stage_run (failure_controller_new \<lparr>failures_before_cooldown = 1,
       cooldown_sequences = 5, cooldowns_before_disable = 2\<rparr>)
     [Fail Addons 11, Fail CoreUi 90, Fail Addons 12])) = WaitCooldown 16"
proof -
  let ?c = "stage_run (failure_controller_new \<lparr>failures_before_cooldown = 1,
       cooldown_sequences = 5, cooldowns_before_disable = 2\<rparr>) [Fail Addons 11]"
  have st: "status (stage_record_of ?c Addons) = CoolingDown 16"
    by (simp add: safety_eval)
  show ?thesis
    using suppression_holds [of ?c Addons 16 15 "[Fail CoreUi 90, Fail Addons 12]"] st by simp
qed

text \<open>
  A completed cooldown opens a whole new attempt cycle, not one retry: after a poll
  answered \<open>Retry\<close> the stage is healthy with no failures counted, so with a threshold above
  one its next failure is followed by further attempts.
\<close>
theorem retry_opens_full_cycle:
  assumes "snd (permission s now c) = Retry"
  shows "stage_record_of (fst (permission s now c)) s =
      stage_record_of c s\<lparr>status := Healthy, consecutive_failures := 0\<rparr> \<and>
    (1 < failures_before_cooldown (fc_policy c) \<longrightarrow>
       snd (record_failure s later (fst (permission s now c))) =
         Continue (failures_before_cooldown (fc_policy c) - 1))"
proof -
  obtain retry_at where st: "status (stage_record_of c s) = CoolingDown retry_at" "retry_at \<le> now"
    using assms by (auto simp: permission_def stage_record_of_def split: option.splits
        stage_status.splits if_splits)
  have one: "saturating_add (0 :: u32) 1 = 1" by (simp add: saturating_add_def)
  show ?thesis
    using st by (simp add: permission_record record_failure_record fail_record_def one)
qed

theorem retry_opens_full_cycle_witness:
  "snd (permission Addons 400 (stage_run (failure_controller_new failure_policy_default)
     [Fail Addons 10, Fail Addons 11, Fail Addons 12])) = Retry \<and>
   snd (record_failure Addons 400 (fst (permission Addons 400
     (stage_run (failure_controller_new failure_policy_default)
       [Fail Addons 10, Fail Addons 11, Fail Addons 12])))) = Continue 2"
proof -
  let ?c = "stage_run (failure_controller_new failure_policy_default)
     [Fail Addons 10, Fail Addons 11, Fail Addons 12]"
  have r: "snd (permission Addons 400 ?c) = Retry"
    by (simp add: safety_eval)
  have "1 < failures_before_cooldown (fc_policy ?c)"
    by (simp add: failure_controller_new_def failure_policy_default_def)
  with retry_opens_full_cycle [OF r, of 400] r show ?thesis
    by (simp add: failure_controller_new_def failure_policy_default_def)
qed

end
