(* ===== verification/Render_Session.thy ===== *)
theory Render_Session
  imports Render_Observation Render_Safety
begin

text \<open>
  Per-swap-chain resource generations and lifecycle telemetry
  (src/crates/nexus-render/src/session.rs): the registry of sessions and its reconciliation
  with one complete observation snapshot.
\<close>

section \<open>Data\<close>

type_synonym session_generation = u64

definition generation_first :: session_generation where
  "generation_first = 1"

definition generation_next :: "session_generation \<Rightarrow> session_generation" where
  "generation_next g = saturating_add g 1"

datatype session_lifecycle = Candidate | Primary | Retired

datatype generation_change =
  Reactivated | WindowChange | DeviceChange | AdapterChange | SizeChange | FormatChange
  | ColorSpaceChange

datatype session_event_kind =
  Discovered | GenerationAdvanced "generation_change list" | BecamePrimary | BecameCandidate
  | RetiredEvent

record session_event =
  ev_id :: swap_chain_id
  ev_generation :: session_generation
  ev_kind :: session_event_kind

record session =
  ss_observation :: swap_chain_observation
  ss_generation :: session_generation
  ss_lifecycle :: session_lifecycle
  ss_failures :: failure_controller
  ss_latest :: "(render_stage, u64) btree"

record session_registry =
  rg_sessions :: "(swap_chain_id, session) btree"
  rg_failure_policy :: failure_policy

definition session_registry_new :: "failure_policy \<Rightarrow> session_registry" where
  "session_registry_new p = \<lparr>rg_sessions = [], rg_failure_policy = p\<rparr>"

definition registry_get :: "session_registry \<Rightarrow> swap_chain_id \<Rightarrow> session option" where
  "registry_get r i = map_of (rg_sessions r) i"

section \<open>Outcomes\<close>

definition record_render_outcome ::
  "render_stage \<Rightarrow> u64 \<Rightarrow> bool \<Rightarrow> session \<Rightarrow> session \<times> bool"
where
  "record_render_outcome stage seq succeeded s =
     (if (case map_of (ss_latest s) stage of None \<Rightarrow> False | Some latest \<Rightarrow> seq \<le> latest)
      then (s, False)
      else
        (let s1 = s\<lparr>ss_latest := bt_insert stage seq (ss_latest s)\<rparr>
         in (s1\<lparr>ss_failures :=
               (if succeeded then fst (record_success stage (ss_failures s1))
                else fst (record_failure stage seq (ss_failures s1)))\<rparr>, True)))"

section \<open>Reconciliation\<close>

definition generation_changes ::
  "session \<Rightarrow> swap_chain_observation \<Rightarrow> generation_change list"
where
  "generation_changes s ob =
     (let previous = ss_observation s
      in (if ss_lifecycle s = Retired then [Reactivated] else []) @
         (if so_hwnd previous \<noteq> so_hwnd ob then [WindowChange] else []) @
         (if so_device previous \<noteq> so_device ob then [DeviceChange] else []) @
         (if so_adapter_luid previous \<noteq> so_adapter_luid ob then [AdapterChange] else []) @
         (if so_size previous \<noteq> so_size ob then [SizeChange] else []) @
         (if so_format previous \<noteq> so_format ob then [FormatChange] else []) @
         (if so_color_space previous \<noteq> so_color_space ob then [ColorSpaceChange] else []))"

definition snapshot_of ::
  "swap_chain_observation list \<Rightarrow> (swap_chain_id, swap_chain_observation) btree"
where
  "snapshot_of obs = fold (\<lambda>ob m. bt_insert (so_id ob) ob m) obs []"

definition target_lifecycle :: "swap_chain_id option \<Rightarrow> swap_chain_id \<Rightarrow> session_lifecycle" where
  "target_lifecycle primary i = (if primary = Some i then Primary else Candidate)"

fun lifecycle_event :: "session_lifecycle \<Rightarrow> session_event_kind" where
  "lifecycle_event Primary = BecamePrimary"
| "lifecycle_event Candidate = BecameCandidate"
| "lifecycle_event Retired = RetiredEvent"

text \<open>The two arms of the first loop: a known and a new identity.\<close>

definition session_update ::
  "failure_policy \<Rightarrow> session_lifecycle \<Rightarrow> swap_chain_id \<Rightarrow> swap_chain_observation \<Rightarrow> session \<Rightarrow>
   session \<times> session_event list"
where
  "session_update p target i ob s =
     (let changes = generation_changes s ob;
          (s1, evs) =
            (if changes \<noteq> []
             then (s\<lparr>ss_generation := generation_next (ss_generation s),
                     ss_failures := failure_controller_new p, ss_latest := []\<rparr>,
                   [\<lparr>ev_id = i, ev_generation = generation_next (ss_generation s),
                     ev_kind = GenerationAdvanced changes\<rparr>])
             else (s, []));
          s2 = s1\<lparr>ss_observation := ob\<rparr>
      in if ss_lifecycle s2 \<noteq> target
         then (s2\<lparr>ss_lifecycle := target\<rparr>,
               evs @ [\<lparr>ev_id = i, ev_generation = ss_generation s2,
                       ev_kind = lifecycle_event target\<rparr>])
         else (s2, evs))"

definition session_discover ::
  "failure_policy \<Rightarrow> session_lifecycle \<Rightarrow> swap_chain_id \<Rightarrow> swap_chain_observation \<Rightarrow>
   session \<times> session_event list"
where
  "session_discover p target i ob =
     (\<lparr>ss_observation = ob, ss_generation = generation_first, ss_lifecycle = target,
       ss_failures = failure_controller_new p, ss_latest = []\<rparr>,
      [\<lparr>ev_id = i, ev_generation = generation_first, ev_kind = Discovered\<rparr>] @
      (if target = Primary
       then [\<lparr>ev_id = i, ev_generation = generation_first, ev_kind = BecamePrimary\<rparr>] else []))"

fun observe_loop ::
  "failure_policy \<Rightarrow> swap_chain_id option \<Rightarrow> (swap_chain_id \<times> swap_chain_observation) list \<Rightarrow>
   (swap_chain_id, session) btree \<times> session_event list \<Rightarrow>
   (swap_chain_id, session) btree \<times> session_event list"
where
  "observe_loop p primary [] st = st"
| "observe_loop p primary ((i, ob) # rest) (m, evs) =
     (let target = target_lifecycle primary i;
          (s, new) = (case map_of m i of
             Some s \<Rightarrow> session_update p target i ob s
           | None \<Rightarrow> session_discover p target i ob)
      in observe_loop p primary rest
           (case map_of m i of
              Some _ \<Rightarrow> bt_update i (\<lambda>_. s) m
            | None \<Rightarrow> bt_insert i s m,
            evs @ new))"

text \<open>The second loop: sessions missing from the snapshot.\<close>

fun retire_loop ::
  "(swap_chain_id, swap_chain_observation) btree \<Rightarrow> (swap_chain_id \<times> session) list \<Rightarrow>
   (swap_chain_id \<times> session) list \<times> session_event list"
where
  "retire_loop snap [] = ([], [])"
| "retire_loop snap ((i, s) # rest) =
     (let (rest', evs) = retire_loop snap rest
      in if map_of snap i = None \<and> ss_lifecycle s \<noteq> Retired
         then ((i, s\<lparr>ss_lifecycle := Retired\<rparr>) # rest',
               \<lparr>ev_id = i, ev_generation = ss_generation s, ev_kind = RetiredEvent\<rparr> # evs)
         else ((i, s) # rest', evs))"

definition reconcile ::
  "swap_chain_observation list \<Rightarrow> swap_chain_id option \<Rightarrow> session_registry \<Rightarrow>
   session_registry \<times> session_event list"
where
  "reconcile obs primary r =
     (let snap = snapshot_of obs;
          (m, evs) = observe_loop (rg_failure_policy r) primary snap (rg_sessions r, []);
          (m', evs') = retire_loop snap m
      in (r\<lparr>rg_sessions := m'\<rparr>, evs @ evs'))"

section \<open>The abstract registry\<close>

text \<open>What reconciliation does to one identity, given its last observation in the list.\<close>

definition last_observation ::
  "swap_chain_observation list \<Rightarrow> swap_chain_id \<Rightarrow> swap_chain_observation option"
where
  "last_observation obs i = find (\<lambda>ob. so_id ob = i) (rev obs)"

definition retire_one :: "swap_chain_id \<Rightarrow> session \<Rightarrow> session \<times> session_event list" where
  "retire_one i s =
     (if ss_lifecycle s = Retired then (s, [])
      else (s\<lparr>ss_lifecycle := Retired\<rparr>,
            [\<lparr>ev_id = i, ev_generation = ss_generation s, ev_kind = RetiredEvent\<rparr>]))"

definition reconcile_one ::
  "failure_policy \<Rightarrow> swap_chain_id option \<Rightarrow> swap_chain_id \<Rightarrow> swap_chain_observation option \<Rightarrow>
   session option \<Rightarrow> session option \<times> session_event list"
where
  "reconcile_one p primary i seen s =
     (case (seen, s) of
        (Some ob, Some s) \<Rightarrow> apfst Some (session_update p (target_lifecycle primary i) i ob s)
      | (Some ob, None) \<Rightarrow> apfst Some (session_discover p (target_lifecycle primary i) i ob)
      | (None, Some s) \<Rightarrow> apfst Some (retire_one i s)
      | (None, None) \<Rightarrow> (None, []))"

definition events_of :: "swap_chain_id \<Rightarrow> session_event list \<Rightarrow> session_event list" where
  "events_of i evs = filter (\<lambda>e. ev_id e = i) evs"

lemma events_of_append [simp]: "events_of i (xs @ ys) = events_of i xs @ events_of i ys"
  by (simp add: events_of_def)

lemma events_of_Nil [simp]: "events_of i [] = []"
  by (simp add: events_of_def)

lemma apfst_pair: "apfst f x = (f (fst x), snd x)"
  by (cases x) simp

lemma snapshot_get: "map_of (snapshot_of obs) i = last_observation obs i"
proof -
  have "map_of (fold (\<lambda>ob m. bt_insert (so_id ob) ob m) obs m) i =
      (case find (\<lambda>ob. so_id ob = i) (rev obs) of None \<Rightarrow> map_of m i | Some ob \<Rightarrow> Some ob)" for m
    by (induction obs rule: rev_induct) auto
  from this [of "[]"] show ?thesis
    by (simp add: snapshot_of_def last_observation_def split: option.splits)
qed

lemma snapshot_wf: "bt_wf (snapshot_of obs)"
proof -
  have "bt_wf m \<Longrightarrow> bt_wf (fold (\<lambda>ob m. bt_insert (so_id ob) ob m) obs m)" for m
    by (induction obs arbitrary: m) auto
  then show ?thesis by (simp add: snapshot_of_def)
qed

lemma session_events_own:
  "session_update p t i ob s = (s', evs) \<Longrightarrow> events_of j evs = (if j = i then evs else [])"
  "session_discover p t i ob = (s', evs) \<Longrightarrow> events_of j evs = (if j = i then evs else [])"
  by (auto simp: session_update_def session_discover_def Let_def events_of_def split: if_splits)

lemma observe_loop_spec:
  assumes "observe_loop p primary snap (m, evs) = (m', evs')" and "distinct (map fst snap)"
  shows "map_of m' i = (case map_of snap i of None \<Rightarrow> map_of m i
           | Some ob \<Rightarrow> fst (reconcile_one p primary i (Some ob) (map_of m i))) \<and>
    events_of i evs' = events_of i evs @ (case map_of snap i of None \<Rightarrow> []
           | Some ob \<Rightarrow> snd (reconcile_one p primary i (Some ob) (map_of m i))) \<and>
    (bt_wf m \<longrightarrow> bt_wf m')"
  using assms
proof (induction snap arbitrary: m evs)
  case (Cons kv rest)
  obtain k ob where kv: "kv = (k, ob)" by fastforce
  let ?t = "target_lifecycle primary k"
  define r where "r = (case map_of m k of Some s \<Rightarrow> session_update p ?t k ob s
    | None \<Rightarrow> session_discover p ?t k ob)"
  obtain s new where r': "r = (s, new)" by fastforce
  define m1 where "m1 = (case map_of m k of Some _ \<Rightarrow> bt_update k (\<lambda>_. s) m | None \<Rightarrow> bt_insert k s m)"
  have step: "observe_loop p primary rest (m1, evs @ new) = (m', evs')"
    using Cons.prems(1) r' by (simp add: kv Let_def m1_def flip: r_def)
  have one: "reconcile_one p primary k (Some ob) (map_of m k) = (Some s, new)"
    using r' by (auto simp: r_def reconcile_one_def split: option.splits)
  have own: "events_of j new = (if j = k then new else [])" for j
    using r' by (auto simp: r_def session_events_own split: option.splits)
  have m1: "map_of m1 j = (if j = k then Some s else map_of m j)" for j
    by (auto simp: m1_def split: option.splits)
  have wf: "bt_wf m \<longrightarrow> bt_wf m1" by (auto simp: m1_def split: option.splits)
  have fresh: "map_of rest k = None" and d: "distinct (map fst rest)"
    using Cons.prems(2) by (auto simp: kv map_of_eq_None_iff)
  show ?case
    using Cons.IH [OF step d] one own fresh m1 wf
    by (cases "i = k") (auto simp: kv split: option.splits)
qed simp

lemma retire_loop_spec:
  assumes "retire_loop snap l = (l', evs)" and "distinct (map fst l)"
  shows "map_of l' i = (if map_of snap i = None then map_option (\<lambda>s. fst (retire_one i s)) (map_of l i)
            else map_of l i) \<and>
    events_of i evs = (if map_of snap i = None
       then (case map_of l i of None \<Rightarrow> [] | Some s \<Rightarrow> snd (retire_one i s)) else []) \<and>
    map fst l' = map fst l"
  using assms
proof (induction snap l arbitrary: l' evs rule: retire_loop.induct)
  case (2 snap k s rest)
  obtain rest' evs1 where r: "retire_loop snap rest = (rest', evs1)" by fastforce
  have "map_of rest k = None" "distinct (map fst rest)"
    using 2(3) by (auto simp: map_of_eq_None_iff)
  with 2(1) [OF r this(2)] 2(2) r show ?case
    by (cases "i = k") (auto simp: Let_def retire_one_def events_of_def split: if_splits)
qed simp

definition registry_wf :: "session_registry \<Rightarrow> bool" where
  "registry_wf r \<longleftrightarrow> bt_wf (rg_sessions r)"

lemma reconcile_pointwise:
  assumes "registry_wf r" and "reconcile obs primary r = (r', evs)"
  shows "(registry_get r' i, events_of i evs) =
      reconcile_one (rg_failure_policy r) primary i (last_observation obs i) (registry_get r i)"
    and "registry_wf r'" and "rg_failure_policy r' = rg_failure_policy r"
proof -
  let ?snap = "snapshot_of obs" and ?p = "rg_failure_policy r"
  obtain m evs1 where o: "observe_loop ?p primary ?snap (rg_sessions r, []) = (m, evs1)" by fastforce
  obtain m' evs2 where t: "retire_loop ?snap m = (m', evs2)" by fastforce
  have r': "r' = r\<lparr>rg_sessions := m'\<rparr>" "evs = evs1 @ evs2"
    using assms(2) o t by (auto simp: reconcile_def Let_def)
  note os = observe_loop_spec [OF o bt_wf_distinct [OF snapshot_wf]]
  have wm: "bt_wf m" using os assms(1) by (simp add: registry_wf_def)
  note ts = retire_loop_spec [OF t bt_wf_distinct [OF wm]]
  show "registry_wf r'" using wm ts by (simp add: r' registry_wf_def bt_wf_def)
  show "rg_failure_policy r' = rg_failure_policy r" by (simp add: r')
  have sn: "map_of ?snap i = last_observation obs i" by (rule snapshot_get)
  show "(registry_get r' i, events_of i evs) =
      reconcile_one ?p primary i (last_observation obs i) (registry_get r i)"
  proof (cases "last_observation obs i")
    case None
    then show ?thesis
      using os [of i] ts [of i] sn
      by (auto simp: r' registry_get_def reconcile_one_def apfst_pair split: option.splits)
  next
    case (Some ob)
    then show ?thesis
      using os [of i] ts [of i] sn by (simp add: r' registry_get_def)
  qed
qed

section \<open>Properties\<close>

text \<open>
  C26. Reconciliation refines the per-identity life cycle: for every swap chain, independently
  of all others, the next session and exactly the events reported for it are those of
  \<open>reconcile_one\<close> on its last observation in the snapshot (an update, a discovery, a
  retirement, or nothing); the registry stays ordered and keeps its policy.
\<close>
theorem reconcile_refines:
  assumes "registry_wf r" and "reconcile obs primary r = (r', evs)"
  shows "(registry_get r' i, events_of i evs) =
      reconcile_one (rg_failure_policy r) primary i (last_observation obs i) (registry_get r i) \<and>
    registry_wf r' \<and> rg_failure_policy r' = rg_failure_policy r"
  using reconcile_pointwise [OF assms] by simp

definition demo_sample :: "u64 \<Rightarrow> u32 \<Rightarrow> swap_chain_observation" where
  "demo_sample i w =
     \<lparr>so_id = i, so_hwnd = Some 77, so_device = 1, so_adapter_luid = \<lparr>low_part = 1, high_part = 0\<rparr>,
      so_format = Rgba8Unorm, so_color_space = Srgb, so_size = \<lparr>width = w, height = 600\<rparr>,
      so_present_method = Present, so_activity = activity_default\<rparr>"

lemma session_registry_new_wf [simp]: "registry_wf (session_registry_new p)"
  by (simp add: registry_wf_def session_registry_new_def)

theorem reconcile_refines_witness:
  "map ev_kind (events_of 5 (snd (reconcile [demo_sample 5 800, demo_sample 9 640, demo_sample 5 900]
     (Some 5) (session_registry_new failure_policy_default)))) = [Discovered, BecamePrimary]"
proof -
  let ?r = "session_registry_new failure_policy_default"
  have "reconcile_one (rg_failure_policy ?r) (Some 5) 5
      (last_observation [demo_sample 5 800, demo_sample 9 640, demo_sample 5 900] 5) (registry_get ?r 5) =
      apfst Some (session_discover failure_policy_default Primary 5 (demo_sample 5 900))"
    by (simp add: reconcile_one_def last_observation_def demo_sample_def registry_get_def
        session_registry_new_def target_lifecycle_def)
  then show ?thesis
    using reconcile_refines [OF session_registry_new_wf [of failure_policy_default] prod.collapse [symmetric],
        where i = 5 and primary = "Some 5" and obs = "[demo_sample 5 800, demo_sample 9 640, demo_sample 5 900]"]
    by (simp add: session_discover_def apfst_pair)
qed

text \<open>
  After a reconciliation a session is primary exactly when it is the selected identity
  and was observed; in particular there is at most one primary, and a session that was not
  observed is retired.
\<close>
theorem reconcile_primary_unique:
  assumes "registry_wf r" and "reconcile obs primary r = (r', evs)"
  shows "((\<exists>s. registry_get r' i = Some s \<and> ss_lifecycle s = Primary) \<longleftrightarrow>
      primary = Some i \<and> i \<in> so_id ` set obs) \<and>
    ((\<exists>s. registry_get r' i = Some s \<and> ss_lifecycle s = Candidate) \<longleftrightarrow>
      primary \<noteq> Some i \<and> i \<in> so_id ` set obs)"
proof -
  have seen: "last_observation obs i = None \<longleftrightarrow> i \<notin> so_id ` set obs"
    by (auto simp: last_observation_def find_None_iff)
  have one: "registry_get r' i =
      fst (reconcile_one (rg_failure_policy r) primary i (last_observation obs i) (registry_get r i))"
    using reconcile_pointwise(1) [OF assms, of i] by (metis fst_conv)
  have upd: "ss_lifecycle (fst (session_update p t i ob s)) = t" for p t ob s
    by (auto simp: session_update_def Let_def)
  have dis: "ss_lifecycle (fst (session_discover p t i ob)) = t" for p t ob
    by (simp add: session_discover_def)
  have ret: "ss_lifecycle (fst (retire_one i s)) = Retired" for s by (simp add: retire_one_def)
  show ?thesis
    using seen
    by (cases "last_observation obs i"; cases "registry_get r i")
      (auto simp: one reconcile_one_def apfst_pair upd dis ret target_lifecycle_def)
qed

theorem reconcile_primary_unique_witness:
  "\<exists>s. registry_get (fst (reconcile [demo_sample 5 800, demo_sample 9 640] (Some 9)
      (session_registry_new failure_policy_default))) 9 = Some s \<and> ss_lifecycle s = Primary"
  using reconcile_primary_unique [OF session_registry_new_wf [of failure_policy_default] prod.collapse [symmetric],
      where i = 9 and primary = "Some 9" and obs = "[demo_sample 5 800, demo_sample 9 640]"]
  by (simp add: demo_sample_def)

section \<open>Generations\<close>

text \<open>The properties of a chain its render resources are made for.\<close>

definition surface_of ::
  "swap_chain_observation \<Rightarrow>
   hwnd option \<times> device_id \<times> adapter_luid \<times> extent2d \<times> surface_format \<times> color_space"
where
  "surface_of ob =
     (so_hwnd ob, so_device ob, so_adapter_luid ob, so_size ob, so_format ob, so_color_space ob)"

definition same_or_newer :: "session \<Rightarrow> session \<Rightarrow> bool" where
  "same_or_newer s s' \<longleftrightarrow>
     ss_generation s < ss_generation s' \<or> ss_generation s = - 1 \<and> ss_generation s' = - 1 \<or>
     ss_generation s' = ss_generation s \<and>
     surface_of (ss_observation s') = surface_of (ss_observation s) \<and>
     ss_failures s' = ss_failures s \<and> ss_latest s' = ss_latest s \<and>
     (ss_lifecycle s = Retired \<longrightarrow> ss_lifecycle s' = Retired)"

lemma same_or_newer_trans: "same_or_newer a b \<Longrightarrow> same_or_newer b c \<Longrightarrow> same_or_newer a c"
  unfolding same_or_newer_def
  by (elim disjE conjE) (auto dest: less_trans simp: word_order.not_eq_extremum)

lemma no_changes_same_surface:
  "generation_changes s ob = [] \<Longrightarrow>
   ss_lifecycle s \<noteq> Retired \<and> surface_of ob = surface_of (ss_observation s)"
  by (auto simp: generation_changes_def surface_of_def Let_def split: if_splits)

lemma session_update_newer: "same_or_newer s (fst (session_update p t i ob s))"
proof (cases "generation_changes s ob = []")
  case True
  then show ?thesis
    using no_changes_same_surface [OF True]
    by (simp add: session_update_def Let_def same_or_newer_def)
next
  case False
  then have g: "ss_generation (fst (session_update p t i ob s)) = saturating_add (ss_generation s) 1"
    by (simp add: session_update_def Let_def generation_next_def)
  show ?thesis
  proof (cases "ss_generation s = - 1")
    case True
    then show ?thesis using g by (simp add: same_or_newer_def)
  next
    case ne: False
    then show ?thesis using g saturating_add_strict [OF ne] by (simp add: same_or_newer_def)
  qed
qed

lemma reconcile_newer:
  assumes "registry_wf r" and "registry_get r i = Some s"
  shows "\<exists>s'. registry_get (fst (reconcile obs primary r)) i = Some s' \<and> same_or_newer s s'"
proof -
  have "registry_get (fst (reconcile obs primary r)) i =
      fst (reconcile_one (rg_failure_policy r) primary i (last_observation obs i) (Some s))"
    using reconcile_pointwise(1) [OF assms(1) prod.collapse [symmetric], of obs primary i] assms(2)
    by (metis fst_conv)
  moreover have "same_or_newer s (fst (retire_one i s))"
    by (simp add: retire_one_def same_or_newer_def)
  ultimately show ?thesis
    using session_update_newer
    by (cases "last_observation obs i") (auto simp: reconcile_one_def apfst_pair)
qed

abbreviation reconcile_all ::
  "(swap_chain_observation list \<times> swap_chain_id option) list \<Rightarrow> session_registry \<Rightarrow> session_registry"
where
  "reconcile_all calls r \<equiv> fold (\<lambda>c r. fst (reconcile (fst c) (snd c) r)) calls r"

text \<open>
  C16. A generation identifies a surface. Over any number of reconciliations a known session
  is never forgotten and its generation never decreases; as long as it is the same (below the
  saturated maximum) the window, device, adapter, size, format and color space are the same,
  the failure budgets and outcome history are untouched, and the chain was not away in
  between. Resources created for a pair of identity and generation are therefore valid
  exactly while the pair is current.
\<close>
theorem generation_identifies_surface:
  assumes "registry_wf r" and "registry_get r i = Some s"
  shows "\<exists>s'. registry_get (reconcile_all calls r) i = Some s' \<and>
    ss_generation s \<le> ss_generation s' \<and>
    (ss_generation s' = ss_generation s \<and> ss_generation s \<noteq> - 1 \<longrightarrow>
       surface_of (ss_observation s') = surface_of (ss_observation s) \<and>
       ss_failures s' = ss_failures s \<and> ss_latest s' = ss_latest s \<and>
       (ss_lifecycle s = Retired \<longrightarrow> ss_lifecycle s' = Retired))"
proof -
  have "\<exists>s'. registry_get (reconcile_all calls r) i = Some s' \<and> same_or_newer s s'"
    using assms
  proof (induction calls arbitrary: r s)
    case Nil
    then show ?case by (auto simp: same_or_newer_def)
  next
    case (Cons c calls)
    let ?r1 = "fst (reconcile (fst c) (snd c) r)"
    obtain s1 where s1: "registry_get ?r1 i = Some s1" "same_or_newer s s1"
      using reconcile_newer [OF Cons.prems] by blast
    have "registry_wf ?r1"
      by (rule reconcile_pointwise(2) [OF Cons.prems(1) prod.collapse [symmetric]])
    from Cons.IH [OF this s1(1)] show ?case using s1(2) same_or_newer_trans by auto
  qed
  then show ?thesis by (auto simp: same_or_newer_def)
qed

theorem generation_identifies_surface_witness:
  "\<exists>s'. registry_get (reconcile_all [([demo_sample 9 640], None), ([demo_sample 5 800], Some 5)]
      (fst (reconcile [demo_sample 5 800] (Some 5) (session_registry_new failure_policy_default)))) 5 =
     Some s' \<and> 1 \<le> ss_generation s'"
proof -
  let ?r = "fst (reconcile [demo_sample 5 800] (Some 5) (session_registry_new failure_policy_default))"
  have wf: "registry_wf ?r"
    by (rule reconcile_pointwise(2) [OF session_registry_new_wf prod.collapse [symmetric]])
  have "registry_get ?r 5 = Some (fst (session_discover failure_policy_default Primary 5 (demo_sample 5 800)))"
    by (simp add: reconcile_def Let_def session_registry_new_def snapshot_of_def target_lifecycle_def
        session_discover_def registry_get_def demo_sample_def)
  from generation_identifies_surface [OF wf this, of
      "[([demo_sample 9 640], None), ([demo_sample 5 800], Some 5)]"]
  show ?thesis by (auto simp: session_discover_def generation_first_def)
qed

section \<open>Outcomes\<close>

fun accepted_outcomes ::
  "render_stage \<Rightarrow> session \<Rightarrow> (render_stage \<times> u64 \<times> bool) list \<Rightarrow> u64 list"
where
  "accepted_outcomes stage s [] = []"
| "accepted_outcomes stage s ((st, seq, ok) # rest) =
     (let (s', taken) = record_render_outcome st seq ok s
      in (if st = stage \<and> taken then [seq] else []) @ accepted_outcomes stage s' rest)"

text \<open>
  Stale and duplicate completions are ignored: however outcomes of a generation arrive,
  the sequences applied for a stage are strictly increasing, and an outcome that is not
  newer than the last one applied changes nothing.
\<close>
theorem outcomes_strictly_increase:
  "sorted_wrt (<) (accepted_outcomes stage s outcomes) \<and>
   (snd (record_render_outcome stage seq ok s) \<or> fst (record_render_outcome stage seq ok s) = s) \<and>
   fst (record_render_outcome stage seq ok' (fst (record_render_outcome stage seq ok s))) =
     fst (record_render_outcome stage seq ok s)"
proof (intro conjI)
  have "sorted_wrt (<) (accepted_outcomes stage s outcomes) \<and>
    (\<forall>x \<in> set (accepted_outcomes stage s outcomes). \<forall>l. map_of (ss_latest s) stage = Some l \<longrightarrow> l < x)"
  proof (induction stage s outcomes rule: accepted_outcomes.induct)
    case (2 stage s st seq ok rest)
    obtain s' taken where r: "record_render_outcome st seq ok s = (s', taken)" by fastforce
    show ?case
      using 2 [OF r [symmetric] refl] r
      by (cases "taken \<and> st = stage")
        (auto simp: record_render_outcome_def Let_def split: if_splits option.splits dest: less_trans)
  qed simp
  then show "sorted_wrt (<) (accepted_outcomes stage s outcomes)" by blast
  show "snd (record_render_outcome stage seq ok s) \<or> fst (record_render_outcome stage seq ok s) = s"
    by (auto simp: record_render_outcome_def Let_def)
  show "fst (record_render_outcome stage seq ok' (fst (record_render_outcome stage seq ok s))) =
      fst (record_render_outcome stage seq ok s)"
    by (auto simp: record_render_outcome_def Let_def split: option.splits)
qed

end
