(* ===== verification/Render_Classifier.thy ===== *)
theory Render_Classifier
  imports Render_Observation "HOL-Library.Multiset"
begin

text \<open>
  \<open>PrimarySwapChainClassifier\<close> (src/crates/nexus-render/src/classifier.rs): which of the
  observed swap chains is the game's, and why. The rank of an observation is the source's
  tuple under lexicographic order; the winner is the last element of the stable sort.
\<close>

section \<open>Configuration\<close>

record classifier_config =
  expected_game_window :: "hwnd option"
  require_expected_game_window :: bool
  user_override :: "swap_chain_id option"
  minimum_extent :: extent2d
  stale_after_sequences :: u64

definition classifier_config_new :: "extent2d \<Rightarrow> u64 \<Rightarrow> classifier_config" where
  "classifier_config_new min_extent stale =
     \<lparr>expected_game_window = None, require_expected_game_window = False, user_override = None,
      minimum_extent = min_extent, stale_after_sequences = stale\<rparr>"

definition classifier_config_default :: classifier_config where
  "classifier_config_default = classifier_config_new \<lparr>width = 640, height = 480\<rparr> 8"

definition set_expected_game_window :: "hwnd option \<Rightarrow> classifier_config \<Rightarrow> classifier_config" where
  "set_expected_game_window h c = c\<lparr>expected_game_window := h\<rparr>"

definition set_require_expected_game_window :: "bool \<Rightarrow> classifier_config \<Rightarrow> classifier_config" where
  "set_require_expected_game_window required c = c\<lparr>require_expected_game_window := required\<rparr>"

definition set_user_override :: "swap_chain_id option \<Rightarrow> classifier_config \<Rightarrow> classifier_config" where
  "set_user_override i c = c\<lparr>user_override := i\<rparr>"

definition set_minimum_extent :: "extent2d \<Rightarrow> classifier_config \<Rightarrow> classifier_config" where
  "set_minimum_extent e c = c\<lparr>minimum_extent := e\<rparr>"

definition set_stale_after_sequences :: "u64 \<Rightarrow> classifier_config \<Rightarrow> classifier_config" where
  "set_stale_after_sequences n c = c\<lparr>stale_after_sequences := n\<rparr>"

section \<open>Results\<close>

datatype rejection_reason =
    ZeroSized | MissingWindowHandle | ExpectedWindowNotDiscovered
  | UnexpectedWindow (expected_window: hwnd) (actual_window: hwnd)
  | BelowMinimumExtent extent2d
  | NeverPresented | InvisibleWindow | Occluded
  | Stale (latest_sequence: u64) (candidate_sequence: u64) (allowed_lag: u64)

record candidate_rejection =
  cr_id :: swap_chain_id
  cr_reason :: rejection_reason

datatype override_status =
    NotRequested | Applied swap_chain_id | Unavailable swap_chain_id
  | Ineligible swap_chain_id rejection_reason

datatype selection_reason =
    UserOverride | OnlyEligibleCandidate | ExpectedGameWindow | ForegroundWindow
  | RetainedPrimary | LargestSurface | LongestActiveStreak | MostRecentPresentation
  | HighestPresentationCount | StableIdentityTieBreak

datatype no_selection_reason = NoObservations | NoEligibleCandidates

record classification =
  cl_selected :: "swap_chain_id option"
  cl_selection_reason :: "selection_reason option"
  cl_no_selection_reason :: "no_selection_reason option"
  cl_override_status :: override_status
  cl_rejected :: "candidate_rejection list"

definition classification_selected ::
  "swap_chain_id \<Rightarrow> selection_reason \<Rightarrow> override_status \<Rightarrow> candidate_rejection list \<Rightarrow> classification"
where
  "classification_selected i why status rej =
     \<lparr>cl_selected = Some i, cl_selection_reason = Some why, cl_no_selection_reason = None,
      cl_override_status = status, cl_rejected = rej\<rparr>"

definition classification_none ::
  "no_selection_reason \<Rightarrow> override_status \<Rightarrow> candidate_rejection list \<Rightarrow> classification"
where
  "classification_none why status rej =
     \<lparr>cl_selected = None, cl_selection_reason = None, cl_no_selection_reason = Some why,
      cl_override_status = status, cl_rejected = rej\<rparr>"

section \<open>The classifier\<close>

record classifier =
  cf_config :: classifier_config
  cf_current :: "swap_chain_id option"

definition classifier_new :: "classifier_config \<Rightarrow> classifier" where
  "classifier_new c = \<lparr>cf_config = c, cf_current = None\<rparr>"

definition classifier_set_config :: "classifier_config \<Rightarrow> classifier \<Rightarrow> classifier" where
  "classifier_set_config c k = k\<lparr>cf_config := c\<rparr>"

definition reset_current :: "classifier \<Rightarrow> classifier" where
  "reset_current k = k\<lparr>cf_current := None\<rparr>"

definition try_override :: "classifier \<Rightarrow> swap_chain_observation list \<Rightarrow> override_status" where
  "try_override k obs =
     (case user_override (cf_config k) of
        None \<Rightarrow> NotRequested
      | Some i \<Rightarrow>
          (case find (\<lambda>ob. so_id ob = i) obs of
             None \<Rightarrow> Unavailable i
           | Some ob \<Rightarrow>
               if is_zero_extent (so_size ob) then Ineligible i ZeroSized else Applied i))"

definition rejection_of ::
  "classifier \<Rightarrow> swap_chain_observation \<Rightarrow> u64 \<Rightarrow> rejection_reason option"
where
  "rejection_of k ob latest =
     (let c = cf_config k; act = so_activity ob
      in if is_zero_extent (so_size ob) then Some ZeroSized
         else case so_hwnd ob of
           None \<Rightarrow> Some MissingWindowHandle
         | Some h \<Rightarrow>
             if require_expected_game_window c \<and> expected_game_window c = None
             then Some ExpectedWindowNotDiscovered
             else if \<not> (case expected_game_window c of None \<Rightarrow> True | Some e \<Rightarrow> h = e)
             then Some (UnexpectedWindow (the (expected_game_window c)) h)
             else if width (so_size ob) < width (minimum_extent c)
                   \<or> height (so_size ob) < height (minimum_extent c)
             then Some (BelowMinimumExtent (minimum_extent c))
             else if present_count act = 0 then Some NeverPresented
             else if \<not> window_visible act then Some InvisibleWindow
             else if occluded act then Some Occluded
             else if stale_after_sequences c < saturating_sub latest (last_present_sequence act)
             then Some (Stale latest (last_present_sequence act) (stale_after_sequences c))
             else None)"

definition matches_expected_window :: "classifier \<Rightarrow> swap_chain_observation \<Rightarrow> bool" where
  "matches_expected_window k ob \<longleftrightarrow>
     expected_game_window (cf_config k) \<noteq> None \<and>
     so_hwnd ob = expected_game_window (cf_config k)"

type_synonym rank = "bool \<times> bool \<times> u64 \<times> bool \<times> u32 \<times> u64 \<times> u64 \<times> u64 reverse"

definition rank :: "classifier \<Rightarrow> swap_chain_observation \<Rightarrow> rank" where
  "rank k ob =
     (matches_expected_window k ob,
      foreground (so_activity ob),
      area (so_size ob),
      cf_current k = Some (so_id ob),
      consecutive_present_cycles (so_activity ob),
      last_present_sequence (so_activity ob),
      present_count (so_activity ob),
      Reverse (so_id ob))"

definition selection_reason_for ::
  "classifier \<Rightarrow> swap_chain_observation \<Rightarrow> swap_chain_observation \<Rightarrow> selection_reason"
where
  "selection_reason_for k winner runner_up =
     (if matches_expected_window k winner \<noteq> matches_expected_window k runner_up
      then ExpectedGameWindow
      else if foreground (so_activity winner) \<noteq> foreground (so_activity runner_up)
      then ForegroundWindow
      else if area (so_size winner) \<noteq> area (so_size runner_up) then LargestSurface
      else if (cf_current k = Some (so_id winner)) \<noteq> (cf_current k = Some (so_id runner_up))
      then RetainedPrimary
      else if consecutive_present_cycles (so_activity winner)
              \<noteq> consecutive_present_cycles (so_activity runner_up)
      then LongestActiveStreak
      else if last_present_sequence (so_activity winner)
              \<noteq> last_present_sequence (so_activity runner_up)
      then MostRecentPresentation
      else if present_count (so_activity winner) \<noteq> present_count (so_activity runner_up)
      then HighestPresentationCount
      else StableIdentityTieBreak)"

definition freshness_reference :: "swap_chain_observation list \<Rightarrow> u64 \<Rightarrow> u64" where
  "freshness_reference obs latest =
     max latest (fold max (map (\<lambda>ob. last_present_sequence (so_activity ob)) obs) 0)"

definition classify_with_latest ::
  "classifier \<Rightarrow> swap_chain_observation list \<Rightarrow> u64 \<Rightarrow> classifier \<times> classification"
where
  "classify_with_latest k obs latest =
     (let status = try_override k obs
      in case status of
        Applied i \<Rightarrow>
          (k\<lparr>cf_current := Some i\<rparr>, classification_selected i UserOverride status [])
      | _ \<Rightarrow>
          (let seq = freshness_reference obs latest;
               rej = map (\<lambda>ob. \<lparr>cr_id = so_id ob, cr_reason = the (rejection_of k ob seq)\<rparr>)
                       (filter (\<lambda>ob. rejection_of k ob seq \<noteq> None) obs);
               rejected = sort_key cr_id rej;
               eligible = sort_key (rank k) (filter (\<lambda>ob. rejection_of k ob seq = None) obs)
           in case rev eligible of
             [] \<Rightarrow>
               (k\<lparr>cf_current := None\<rparr>,
                classification_none (if obs = [] then NoObservations else NoEligibleCandidates)
                  status rejected)
           | winner # others \<Rightarrow>
               (k\<lparr>cf_current := Some (so_id winner)\<rparr>,
                classification_selected (so_id winner)
                  (case others of
                     [] \<Rightarrow> if matches_expected_window k winner then ExpectedGameWindow
                           else OnlyEligibleCandidate
                   | runner_up # _ \<Rightarrow> selection_reason_for k winner runner_up)
                  status rejected)))"

definition classify ::
  "classifier \<Rightarrow> swap_chain_observation list \<Rightarrow> classifier \<times> classification"
where
  "classify k obs = classify_with_latest k obs 0"

section \<open>Properties\<close>

definition eligible_of ::
  "classifier \<Rightarrow> swap_chain_observation list \<Rightarrow> u64 \<Rightarrow> swap_chain_observation list"
where
  "eligible_of k obs latest =
     filter (\<lambda>ob. rejection_of k ob (freshness_reference obs latest) = None) obs"

lemma override_not_applied:
  "(\<And>i. s \<noteq> Applied i) \<Longrightarrow> (case s of Applied i \<Rightarrow> f i | _ \<Rightarrow> y) = y"
  by (cases s) auto

lemma classify_automatic:
  assumes "\<And>i. try_override k obs \<noteq> Applied i"
    and "classify_with_latest k obs latest = (k', r)"
  shows "k' = k\<lparr>cf_current := cl_selected r\<rparr>"
    and "rev (sort_key (rank k) (eligible_of k obs latest)) = [] \<Longrightarrow> cl_selected r = None"
    and "rev (sort_key (rank k) (eligible_of k obs latest)) = w # ws \<Longrightarrow>
         cl_selected r = Some (so_id w) \<and>
         (\<forall>u us. ws = u # us \<longrightarrow> cl_selection_reason r = Some (selection_reason_for k w u))"
  using assms(2)
  by (auto simp: classify_with_latest_def Let_def eligible_of_def classification_selected_def
      classification_none_def override_not_applied [OF assms(1)] split: list.splits)

lemma sort_rev_Cons:
  assumes "rev (sort_key f xs) = w # ws"
  shows "w \<in> set xs" and "x \<in> set xs \<Longrightarrow> f x \<le> f w"
proof -
  have s: "sort_key f xs = rev ws @ [w]" using assms by (metis rev.simps(2) rev_rev_ident)
  then show "w \<in> set xs" by (metis in_set_conv_decomp set_sort)
  have "sorted (map f (rev ws @ [w]))" using s sorted_sort_key [of f xs] by simp
  then have "\<forall>y \<in> set (rev ws @ [w]). f y \<le> f w" by (auto simp: sorted_append)
  moreover have "set (rev ws @ [w]) = set xs" using s by (metis set_sort)
  ultimately show "x \<in> set xs \<Longrightarrow> f x \<le> f w" by auto
qed

lemma sort_key_Nil_iff: "sort_key f xs = [] \<longleftrightarrow> xs = []"
  by (metis length_0_conv length_sort)

text \<open>The winner of an automatic pass.\<close>

lemma classify_winner:
  assumes "\<And>i. try_override k obs \<noteq> Applied i"
    and "classify_with_latest k obs latest = (k', r)"
  shows "(cl_selected r = None \<longleftrightarrow> eligible_of k obs latest = [])"
    and "cl_selected r = Some i \<Longrightarrow> \<exists>w \<in> set (eligible_of k obs latest). so_id w = i \<and>
           (\<forall>ob \<in> set (eligible_of k obs latest). rank k ob \<le> rank k w)"
proof -
  let ?l = "rev (sort_key (rank k) (eligible_of k obs latest))"
  note c = classify_automatic [OF assms]
  show "cl_selected r = None \<longleftrightarrow> eligible_of k obs latest = []"
    using c(2,3) by (cases ?l) (auto simp: sort_key_Nil_iff)
  assume sel: "cl_selected r = Some i"
  obtain w ws where l: "?l = w # ws" using c(2) sel by (cases ?l) auto
  from sort_rev_Cons [OF l] c(3) [OF l] sel
  show "\<exists>w \<in> set (eligible_of k obs latest). so_id w = i \<and>
           (\<forall>ob \<in> set (eligible_of k obs latest). rank k ob \<le> rank k w)" by auto
qed

text \<open>
  C27. The automatic selection is the best admissible swap chain: something is selected
  exactly when some observation passes every admission rule, the selection passes them and no
  admissible observation outranks it; and the classifier remembers exactly what it reported.
\<close>
theorem classify_selects_best:
  assumes "\<forall>i. try_override k obs \<noteq> Applied i"
    and "classify_with_latest k obs latest = (k', r)"
  shows "cf_current k' = cl_selected r \<and>
    (case cl_selected r of
       None \<Rightarrow> eligible_of k obs latest = []
     | Some i \<Rightarrow> \<exists>w \<in> set (eligible_of k obs latest). so_id w = i \<and>
         (\<forall>ob \<in> set (eligible_of k obs latest). rank k ob \<le> rank k w))"
proof -
  have na: "\<And>i. try_override k obs \<noteq> Applied i" using assms(1) by blast
  show ?thesis
    using classify_automatic(1) [OF na assms(2)] classify_winner [OF na assms(2)]
    by (auto split: option.splits)
qed

definition demo_chain :: "u64 \<Rightarrow> u32 \<Rightarrow> u32 \<Rightarrow> swap_chain_observation" where
  "demo_chain i w h =
     \<lparr>so_id = i, so_hwnd = Some 77, so_device = 1, so_adapter_luid = \<lparr>low_part = 1, high_part = 0\<rparr>,
      so_format = Rgba8Unorm, so_color_space = Srgb, so_size = \<lparr>width = w, height = h\<rparr>,
      so_present_method = Present, so_activity = activity_active 5 10 2\<rparr>"

lemmas classifier_eval = demo_chain_def classifier_new_def classifier_config_default_def
  classifier_config_new_def try_override_def classify_with_latest_def rejection_of_def
  freshness_reference_def rank_def matches_expected_window_def activity_active_def
  is_zero_extent_def area_def selection_reason_for_def classification_selected_def
  classification_none_def Let_def saturating_sub_def eligible_of_def

theorem classify_selects_best_witness:
  "cl_selected (snd (classify_with_latest (classifier_new classifier_config_default)
     [demo_chain 1 320 200, demo_chain 2 1920 1080, demo_chain 3 800 600] 0)) = Some 2 \<and>
   (\<exists>w \<in> set (eligible_of (classifier_new classifier_config_default)
       [demo_chain 1 320 200, demo_chain 2 1920 1080, demo_chain 3 800 600] 0). so_id w = 2)"
proof -
  let ?k = "classifier_new classifier_config_default"
  let ?obs = "[demo_chain 1 320 200, demo_chain 2 1920 1080, demo_chain 3 800 600]"
  have n: "\<forall>i. try_override ?k ?obs \<noteq> Applied i" by (simp add: classifier_eval)
  have s: "cl_selected (snd (classify_with_latest ?k ?obs 0)) = Some 2"
    by (simp add: classifier_eval)
  show ?thesis
    using classify_selects_best [OF n prod.collapse [symmetric], of 0] s by auto
qed

text \<open>Observations listed in another order.\<close>

lemma fold_max_set: "fold max (xs :: 'a::linorder list) a = Max (insert a (set xs))"
  using Max.set_eq_fold [of a xs] by simp

lemma freshness_reference_perm:
  "mset obs = mset obs' \<Longrightarrow> freshness_reference obs latest = freshness_reference obs' latest"
proof -
  assume "mset obs = mset obs'"
  then have "set obs = set obs'" by (rule mset_eq_setD)
  then show ?thesis by (simp add: freshness_reference_def fold_max_set)
qed

lemma find_unique_perm:
  assumes "distinct (map f xs)" and "mset xs = mset ys"
  shows "find (\<lambda>x. f x = i) xs = find (\<lambda>x. f x = i) ys"
proof -
  have inj: "inj_on f (set xs)" and set: "set xs = set ys"
    using assms by (auto simp: distinct_map dest: mset_eq_setD)
  show ?thesis
  proof (cases "find (\<lambda>x. f x = i) xs")
    case None
    then have "find (\<lambda>x. f x = i) ys = None" using set by (simp add: find_None_iff)
    with None show ?thesis by simp
  next
    case (Some x)
    then have x: "x \<in> set xs" "f x = i" by (auto dest: find_Some_iff_in)
    then have "find (\<lambda>x. f x = i) ys \<noteq> None" using set by (auto simp: find_None_iff)
    then obtain y where y: "find (\<lambda>x. f x = i) ys = Some y" by blast
    then have "y \<in> set xs" "f y = i" using set by (auto dest: find_Some_iff_in)
    with x inj have "x = y" by (auto dest: inj_onD)
    with Some y show ?thesis by simp
  qed
qed

lemma sort_key_filter_perm:
  fixes g :: "'a \<Rightarrow> 'b::linorder"
  assumes "mset xs = mset ys" and "inj_on g (set xs)"
  shows "sort_key g (filter P xs) = sort_key g (filter P ys)"
proof (rule sort_key_inj_key_eq)
  have "mset (filter P xs) = mset (filter P ys)" using assms(1) by (simp add: mset_filter)
  then show "mset (filter P xs) = mset (sort_key g (filter P ys))" by simp
  show "inj_on g (set (filter P xs))" using assms(2) by (auto intro: inj_on_subset)
qed simp

text \<open>
  The decision does not depend on the order in which the platform layer lists the swap
  chains: for observations with distinct identities, any permutation gives the same
  selection, the same reasons, the same rejections in the same order and the same next state.
\<close>
theorem classify_order_independent:
  assumes "mset obs = mset obs'" and "distinct (map so_id obs)"
  shows "classify_with_latest k obs latest = classify_with_latest k obs' latest"
proof -
  let ?seq = "freshness_reference obs latest"
  let ?P = "\<lambda>ob. rejection_of k ob ?seq \<noteq> None"
  let ?g = "\<lambda>ob. \<lparr>cr_id = so_id ob, cr_reason = the (rejection_of k ob ?seq)\<rparr>"
  have seq: "freshness_reference obs' latest = ?seq"
    using freshness_reference_perm [OF assms(1)] by simp
  have ov: "try_override k obs' = try_override k obs"
    unfolding try_override_def by (simp only: find_unique_perm [OF assms(2,1)])
  have inj: "inj_on so_id (set obs)" using assms(2) by (simp add: distinct_map)
  then have ri: "inj_on (rank k) (set obs)" by (auto simp: inj_on_def rank_def)
  have el: "sort_key (rank k) (filter (\<lambda>ob. rejection_of k ob ?seq = None) obs') =
      sort_key (rank k) (filter (\<lambda>ob. rejection_of k ob ?seq = None) obs)"
    by (rule sort_key_filter_perm [symmetric, OF assms(1) ri])
  have "inj_on so_id (set (filter ?P obs))" using inj by (auto intro: inj_on_subset)
  then have "inj_on cr_id (set (map ?g (filter ?P obs)))" by (auto simp: inj_on_def)
  moreover have "mset (map ?g (filter ?P obs)) = mset (map ?g (filter ?P obs'))"
    using assms(1) by (simp add: mset_filter)
  ultimately have rj: "sort_key cr_id (map ?g (filter ?P obs')) = sort_key cr_id (map ?g (filter ?P obs))"
    by (intro sort_key_inj_key_eq [symmetric]) simp_all
  have "obs = [] \<longleftrightarrow> obs' = []" using assms(1) by (metis mset_zero_iff)
  then show ?thesis
    unfolding classify_with_latest_def Let_def seq ov el rj by simp
qed

theorem classify_order_independent_witness:
  "classify_with_latest (classifier_new classifier_config_default)
     [demo_chain 1 800 600, demo_chain 2 800 600] 3 =
   classify_with_latest (classifier_new classifier_config_default)
     [demo_chain 2 800 600, demo_chain 1 800 600] 3"
  by (rule classify_order_independent) (simp_all add: demo_chain_def add_mset_commute)

text \<open>The signals that may move the selection, ahead of the retained identity.\<close>

definition strong_signals :: "classifier \<Rightarrow> swap_chain_observation \<Rightarrow> bool \<times> bool \<times> u64" where
  "strong_signals k ob =
     (matches_expected_window k ob, foreground (so_activity ob), area (so_size ob))"

lemma rank_strong:
  assumes "rank k ob \<le> rank k w"
  shows "strong_signals k ob < strong_signals k w \<or>
     strong_signals k ob = strong_signals k w \<and>
     (cf_current k = Some (so_id ob) \<longrightarrow> cf_current k = Some (so_id w))"
  using assms by (auto simp: rank_def strong_signals_def)

lemma strong_signals_current [simp]: "strong_signals (k\<lparr>cf_current := c\<rparr>) = strong_signals k"
  by (simp add: strong_signals_def matches_expected_window_def fun_eq_iff)

lemma rejection_of_current [simp]: "rejection_of (k\<lparr>cf_current := c\<rparr>) = rejection_of k"
  by (simp add: rejection_of_def fun_eq_iff Let_def)

lemma try_override_current [simp]: "try_override (k\<lparr>cf_current := c\<rparr>) = try_override k"
  by (simp add: try_override_def fun_eq_iff)

lemma eligible_of_current [simp]: "eligible_of (k\<lparr>cf_current := c\<rparr>) = eligible_of k"
  by (simp add: eligible_of_def fun_eq_iff)

text \<open>
  C24. The selection does not flap. While no user override is applied, observing the same swap
  chains again selects the same one; and a current primary that is still admissible is given up only for a chain that beats
  it on the game window, the foreground or the surface area, never for recent activity.
\<close>
theorem classify_is_stable:
  assumes "\<forall>i. try_override k obs \<noteq> Applied i"
    and "classify_with_latest k obs latest = (k1, r1)"
  shows "cl_selected (snd (classify_with_latest k1 obs latest)) = cl_selected r1 \<and>
    (\<forall>ob \<in> set (eligible_of k obs latest). cf_current k = Some (so_id ob) \<longrightarrow>
       cl_selected r1 = Some (so_id ob) \<or>
       (\<exists>w \<in> set (eligible_of k obs latest). cl_selected r1 = Some (so_id w) \<and>
          strong_signals k ob < strong_signals k w))"
proof -
  let ?E = "eligible_of k obs latest"
  have na: "\<And>i. try_override k obs \<noteq> Applied i" using assms(1) by blast
  have k1: "k1 = k\<lparr>cf_current := cl_selected r1\<rparr>" by (rule classify_automatic(1) [OF na assms(2)])
  obtain k2 r2 where c2: "classify_with_latest k1 obs latest = (k2, r2)" by fastforce
  have na1: "\<And>i. try_override k1 obs \<noteq> Applied i" using na k1 by simp
  have e1: "eligible_of k1 obs latest = ?E" using k1 by simp
  note w1 = classify_winner [OF na assms(2)] and w2 = classify_winner [OF na1 c2, unfolded e1]
  have "cl_selected r2 = cl_selected r1"
  proof (cases "cl_selected r1")
    case None
    then show ?thesis using w1(1) w2(1) by simp
  next
    case (Some i)
    then obtain j where j: "cl_selected r2 = Some j" using w1(1) w2(1) by (cases "cl_selected r2") auto
    obtain w where w: "w \<in> set ?E" "so_id w = i" "\<forall>ob \<in> set ?E. rank k ob \<le> rank k w"
      using w1(2) [OF Some] by blast
    obtain v where v: "v \<in> set ?E" "so_id v = j" "\<forall>ob \<in> set ?E. rank k1 ob \<le> rank k1 v"
      using w2(2) [OF j] by blast
    have "rank k v \<le> rank k w" "rank k1 w \<le> rank k1 v" using w v by simp_all
    from rank_strong [OF this(1)] rank_strong [OF this(2)]
    have "cf_current k1 = Some (so_id w) \<longrightarrow> cf_current k1 = Some (so_id v)"
      using k1 by auto
    then show ?thesis using Some j w(2) v(2) k1 by simp
  qed
  moreover have "cl_selected r1 = Some (so_id ob) \<or>
       (\<exists>w \<in> set ?E. cl_selected r1 = Some (so_id w) \<and> strong_signals k ob < strong_signals k w)"
    if ob: "ob \<in> set ?E" "cf_current k = Some (so_id ob)" for ob
  proof -
    obtain i where "cl_selected r1 = Some i" using w1(1) ob(1) by (cases "cl_selected r1") auto
    moreover from w1(2) [OF this] obtain w where w: "w \<in> set ?E" "so_id w = i"
      "rank k ob \<le> rank k w" using ob(1) by blast
    ultimately show ?thesis using rank_strong [OF w(3)] ob(2) by auto
  qed
  ultimately show ?thesis using c2 by simp
qed

theorem classify_is_stable_witness:
  "cl_selected (snd (classify_with_latest
     (fst (classify_with_latest (classifier_new classifier_config_default)
        [demo_chain 5 800 600, demo_chain 2 1024 768] 0))
     [demo_chain 5 800 600, demo_chain 2 1024 768] 0)) = Some 2"
proof -
  let ?k = "classifier_new classifier_config_default"
  let ?obs = "[demo_chain 5 800 600, demo_chain 2 1024 768]"
  have n: "\<forall>i. try_override ?k ?obs \<noteq> Applied i" by (simp add: classifier_eval)
  have s: "cl_selected (snd (classify_with_latest ?k ?obs 0)) = Some 2"
    by (simp add: classifier_eval)
  show ?thesis
    using classify_is_stable [OF n prod.collapse [symmetric], of 0] s by simp
qed

text \<open>The signals in the order of the rank, as numbers.\<close>

definition signals :: "classifier \<Rightarrow> swap_chain_observation \<Rightarrow> nat list" where
  "signals k ob =
     [of_bool (matches_expected_window k ob), of_bool (foreground (so_activity ob)),
      unat (area (so_size ob)), of_bool (cf_current k = Some (so_id ob)),
      unat (consecutive_present_cycles (so_activity ob)),
      unat (last_present_sequence (so_activity ob)), unat (present_count (so_activity ob))]"

fun signal_index :: "selection_reason \<Rightarrow> nat" where
  "signal_index ExpectedGameWindow = 0"
| "signal_index ForegroundWindow = 1"
| "signal_index LargestSurface = 2"
| "signal_index RetainedPrimary = 3"
| "signal_index LongestActiveStreak = 4"
| "signal_index MostRecentPresentation = 5"
| "signal_index HighestPresentationCount = 6"
| "signal_index _ = 7"

lemma signal_index_bound: "signal_index r \<le> 7"
  by (cases r) simp_all

text \<open>
  The reported reason is true: when the winner of an automatic pass has a runner-up, all
  signals before the reported one are equal for the two, and the reported one is strictly
  larger for the winner; if no signal differs the lower identity won.
\<close>
theorem selection_reason_is_true:
  assumes "rank k r \<le> rank k w"
  shows "let n = signal_index (selection_reason_for k w r)
    in take n (signals k w) = take n (signals k r) \<and>
       (if n < 7 then signals k r ! n < signals k w ! n
        else selection_reason_for k w r = StableIdentityTieBreak \<and> so_id w \<le> so_id r)"
proof -
  note le = assms [unfolded rank_def]
  note sr = selection_reason_for_def and sg = signals_def
  consider
      (1) "matches_expected_window k w \<noteq> matches_expected_window k r"
    | (2) "matches_expected_window k w = matches_expected_window k r"
        "foreground (so_activity w) \<noteq> foreground (so_activity r)"
    | (3) "matches_expected_window k w = matches_expected_window k r"
        "foreground (so_activity w) = foreground (so_activity r)"
        "area (so_size w) \<noteq> area (so_size r)"
    | (4) "strong_signals k w = strong_signals k r"
        "(cf_current k = Some (so_id w)) \<noteq> (cf_current k = Some (so_id r))"
    | (5) "strong_signals k w = strong_signals k r"
        "(cf_current k = Some (so_id w)) = (cf_current k = Some (so_id r))"
    by (auto simp: strong_signals_def)
  then show ?thesis
  proof cases
    case 1
    then show ?thesis using le by (auto simp: sr sg)
  next
    case 2
    then show ?thesis using le by (auto simp: sr sg)
  next
    case 3
    then have "area (so_size r) < area (so_size w)" using le by auto
    with 3 show ?thesis by (simp add: sr sg word_less_nat_alt)
  next
    case 4
    then have "selection_reason_for k w r = RetainedPrimary" by (auto simp: sr strong_signals_def)
    with 4 le show ?thesis by (auto simp: sg strong_signals_def)
  next
    case 5
    let ?a = "so_activity w" and ?b = "so_activity r"
    from 5 le have tail:
      "(consecutive_present_cycles ?b, last_present_sequence ?b, present_count ?b, Reverse (so_id r))
       \<le> (consecutive_present_cycles ?a, last_present_sequence ?a, present_count ?a, Reverse (so_id w))"
      by (simp add: strong_signals_def)
    from 5 have sel: "selection_reason_for k w r =
      (if consecutive_present_cycles ?a \<noteq> consecutive_present_cycles ?b then LongestActiveStreak
       else if last_present_sequence ?a \<noteq> last_present_sequence ?b then MostRecentPresentation
       else if present_count ?a \<noteq> present_count ?b then HighestPresentationCount
       else StableIdentityTieBreak)"
      by (simp add: sr strong_signals_def)
    have eq: "take 4 (signals k w) = take 4 (signals k r)"
      using 5 by (simp add: sg strong_signals_def)
    show ?thesis
      unfolding sel using tail eq
      by (cases "consecutive_present_cycles ?a = consecutive_present_cycles ?b";
          cases "last_present_sequence ?a = last_present_sequence ?b";
          cases "present_count ?a = present_count ?b")
        (auto simp: sg order.order_iff_strict simp flip: word_less_nat_alt)
  qed
qed

theorem selection_reason_is_true_witness:
  "let k = classifier_new classifier_config_default; w = demo_chain 4 1024 768; r = demo_chain 2 800 600
   in selection_reason_for k w r = LargestSurface \<and> signals k r ! 2 < signals k w ! 2"
proof -
  let ?k = "classifier_new classifier_config_default"
  let ?w = "demo_chain 4 1024 768" and ?r = "demo_chain 2 800 600"
  have s: "selection_reason_for ?k ?w ?r = LargestSurface" by (simp add: classifier_eval)
  have "rank ?k ?r \<le> rank ?k ?w" by (simp add: classifier_eval)
  from selection_reason_is_true [OF this] s show ?thesis by (simp add: Let_def)
qed

end
