(* ===== verification/Dxgi_Selection.thy ===== *)
theory Dxgi_Selection
  imports Render_Classifier Render_Safety
begin

text \<open>
  Redaction-safe diagnostics of the primary-chain selection
  (src/crates/nexus-dxgi/src/event.rs): what a classification becomes when identities, window
  handles and counters are removed, and the text it is reported as.
\<close>

section \<open>Rejection categories\<close>

datatype render_candidate_rejection =
    RcZeroSized | RcMissingWindowHandle | RcExpectedWindowNotDiscovered | RcUnexpectedWindow
  | RcBelowMinimumExtent | RcNeverPresented | RcInvisibleWindow | RcOccluded | RcStale

text \<open>The derived \<open>Ord\<close> compares by declaration order.\<close>

fun rejection_rank :: "render_candidate_rejection \<Rightarrow> nat" where
  "rejection_rank RcZeroSized = 0"
| "rejection_rank RcMissingWindowHandle = 1"
| "rejection_rank RcExpectedWindowNotDiscovered = 2"
| "rejection_rank RcUnexpectedWindow = 3"
| "rejection_rank RcBelowMinimumExtent = 4"
| "rejection_rank RcNeverPresented = 5"
| "rejection_rank RcInvisibleWindow = 6"
| "rejection_rank RcOccluded = 7"
| "rejection_rank RcStale = 8"

lemma rejection_rank_inject [simp]: "rejection_rank a = rejection_rank b \<longleftrightarrow> a = b"
  by (cases a; cases b) simp_all

instantiation render_candidate_rejection :: linorder
begin

definition less_eq_render_candidate_rejection ::
  "render_candidate_rejection \<Rightarrow> render_candidate_rejection \<Rightarrow> bool"
where
  "less_eq_render_candidate_rejection a b \<longleftrightarrow> rejection_rank a \<le> rejection_rank b"

definition less_render_candidate_rejection ::
  "render_candidate_rejection \<Rightarrow> render_candidate_rejection \<Rightarrow> bool"
where
  "less_render_candidate_rejection a b \<longleftrightarrow> rejection_rank a < rejection_rank b"

instance
  by standard (auto simp: less_eq_render_candidate_rejection_def less_render_candidate_rejection_def)

end

fun rejection_category :: "rejection_reason \<Rightarrow> render_candidate_rejection" where
  "rejection_category ZeroSized = RcZeroSized"
| "rejection_category MissingWindowHandle = RcMissingWindowHandle"
| "rejection_category ExpectedWindowNotDiscovered = RcExpectedWindowNotDiscovered"
| "rejection_category (UnexpectedWindow _ _) = RcUnexpectedWindow"
| "rejection_category (BelowMinimumExtent _) = RcBelowMinimumExtent"
| "rejection_category NeverPresented = RcNeverPresented"
| "rejection_category InvisibleWindow = RcInvisibleWindow"
| "rejection_category Occluded = RcOccluded"
| "rejection_category (Stale _ _ _) = RcStale"

fun rejection_text :: "render_candidate_rejection \<Rightarrow> string" where
  "rejection_text RcZeroSized = ''zero-sized surface''"
| "rejection_text RcMissingWindowHandle = ''missing window handle''"
| "rejection_text RcExpectedWindowNotDiscovered = ''game window not discovered''"
| "rejection_text RcUnexpectedWindow = ''unexpected window''"
| "rejection_text RcBelowMinimumExtent = ''surface below minimum extent''"
| "rejection_text RcNeverPresented = ''candidate never presented''"
| "rejection_text RcInvisibleWindow = ''window not visible''"
| "rejection_text RcOccluded = ''window occluded''"
| "rejection_text RcStale = ''stale presentation activity''"

section \<open>Failures\<close>

datatype render_failure_policy_suppression = SupCoolingDown | SupDisabled | SupCoolingDownAndDisabled

datatype render_override_failure =
    OvUnavailable
  | OvFailurePolicySuppressed render_failure_policy_suppression
  | OvIneligible render_candidate_rejection

datatype render_selection_failure =
    SelNoObservations | SelNoEligibleCandidates
  | SelFailurePolicySuppressed render_failure_policy_suppression

record render_selection_resolved =
  rr_reason :: selection_reason
  rr_override_failure :: "render_override_failure option"

record render_selection_deferred =
  rd_failure :: render_selection_failure
  rd_override_failure :: "render_override_failure option"
  rd_rejections :: "render_candidate_rejection list"

text \<open>The debug assertion of \<open>redacted_override_failure\<close> is not part of a release build.\<close>

definition redacted_override_failure ::
  "override_status \<Rightarrow> render_failure_policy_suppression option \<Rightarrow> render_override_failure option"
where
  "redacted_override_failure st suppression =
     (case suppression of
        Some kept \<Rightarrow> Some (OvFailurePolicySuppressed kept)
      | None \<Rightarrow>
          (case st of
             NotRequested \<Rightarrow> None
           | Applied _ \<Rightarrow> None
           | Unavailable _ \<Rightarrow> Some OvUnavailable
           | Ineligible _ why \<Rightarrow> Some (OvIneligible (rejection_category why))))"

fun failure_policy_suppression :: "bool \<Rightarrow> bool \<Rightarrow> render_failure_policy_suppression option" where
  "failure_policy_suppression True False = Some SupCoolingDown"
| "failure_policy_suppression False True = Some SupDisabled"
| "failure_policy_suppression True True = Some SupCoolingDownAndDisabled"
| "failure_policy_suppression False False = None"

definition resolved_from_classification ::
  "classification \<Rightarrow> render_failure_policy_suppression option \<Rightarrow> render_selection_resolved option"
where
  "resolved_from_classification cl suppression =
     (case cl_selected cl of
        None \<Rightarrow> None
      | Some _ \<Rightarrow>
          (case cl_selection_reason cl of
             None \<Rightarrow> None
           | Some why \<Rightarrow>
               Some \<lparr>rr_reason = why,
                 rr_override_failure =
                   redacted_override_failure (cl_override_status cl) suppression\<rparr>))"

definition deferred_from_override_suppression ::
  "classification \<Rightarrow> render_failure_policy_suppression option \<Rightarrow> render_selection_deferred option"
where
  "deferred_from_override_suppression cl suppression =
     (if cl_selected cl \<noteq> None then None
      else case cl_no_selection_reason cl of
        None \<Rightarrow> None
      | Some why \<Rightarrow>
          (let failure = (case why of NoObservations \<Rightarrow> SelNoObservations
                                    | NoEligibleCandidates \<Rightarrow> SelNoEligibleCandidates)
           in case cl_override_status cl of
             Applied _ \<Rightarrow> None
           | st \<Rightarrow>
               Some \<lparr>rd_failure = failure,
                 rd_override_failure = redacted_override_failure st suppression,
                 rd_rejections =
                   remdups_adj (sort (map (\<lambda>r. rejection_category (cr_reason r)) (cl_rejected cl)))\<rparr>))"

definition deferred_from_classification ::
  "classification \<Rightarrow> bool \<Rightarrow> bool \<Rightarrow> render_failure_policy_suppression option \<Rightarrow>
   render_selection_deferred option"
where
  "deferred_from_classification cl has_cooling_down has_disabled override_suppression =
     (case deferred_from_override_suppression cl override_suppression of
        None \<Rightarrow> None
      | Some d \<Rightarrow>
          (case failure_policy_suppression has_cooling_down has_disabled of
             Some kept \<Rightarrow> Some (d\<lparr>rd_failure := SelFailurePolicySuppressed kept\<rparr>)
           | None \<Rightarrow> Some d))"

definition deferred_from_failure_policy :: "bool \<Rightarrow> bool \<Rightarrow> render_selection_deferred option" where
  "deferred_from_failure_policy has_cooling_down has_disabled =
     map_option (\<lambda>kept. \<lparr>rd_failure = SelFailurePolicySuppressed kept, rd_override_failure = None,
                        rd_rejections = []\<rparr>)
       (failure_policy_suppression has_cooling_down has_disabled)"

section \<open>Text\<close>

fun selection_failure_text :: "render_selection_failure \<Rightarrow> string" where
  "selection_failure_text SelNoObservations = ''no swap-chain observations''"
| "selection_failure_text SelNoEligibleCandidates = ''no eligible swap chains''"
| "selection_failure_text (SelFailurePolicySuppressed SupCoolingDown) =
     ''render candidates cooling down under failure policy''"
| "selection_failure_text (SelFailurePolicySuppressed SupDisabled) =
     ''render candidates disabled by failure policy''"
| "selection_failure_text (SelFailurePolicySuppressed SupCoolingDownAndDisabled) =
     ''render candidates cooling down or disabled by failure policy''"

fun override_failure_text :: "render_override_failure option \<Rightarrow> string" where
  "override_failure_text (Some OvUnavailable) = ''; requested override unavailable''"
| "override_failure_text (Some (OvFailurePolicySuppressed SupCoolingDown)) =
     ''; requested override cooling down under failure policy''"
| "override_failure_text (Some (OvFailurePolicySuppressed SupDisabled)) =
     ''; requested override disabled by failure policy''"
| "override_failure_text (Some (OvFailurePolicySuppressed SupCoolingDownAndDisabled)) =
     ''; requested override cooling down or disabled by failure policy''"
| "override_failure_text (Some (OvIneligible why)) =
     ''; requested override ineligible: '' @ rejection_text why"
| "override_failure_text None = ''''"

fun rejections_text :: "render_candidate_rejection list \<Rightarrow> string" where
  "rejections_text [] = ''''"
| "rejections_text [r] = rejection_text r"
| "rejections_text (r # rs) = rejection_text r @ '', '' @ rejections_text rs"

definition deferred_text :: "render_selection_deferred \<Rightarrow> string" where
  "deferred_text d =
     selection_failure_text (rd_failure d) @ override_failure_text (rd_override_failure d) @
     (if rd_rejections d = [] then ''''
      else ''; rejected: '' @ rejections_text (rd_rejections d))"

section \<open>Properties\<close>

lemma sorted_remdups_adj_strict:
  "sorted xs \<Longrightarrow> sorted_wrt (<) (remdups_adj xs)" for xs :: "'a::linorder list"
proof (induction xs rule: remdups_adj.induct)
  case (3 x y xs)
  have hd: "\<forall>z \<in> set (remdups_adj (y # xs)). y \<le> z" using 3(3) by auto
  show ?case
  proof (cases "x = y")
    case True
    then show ?thesis using 3(1) [OF True] 3(3) by simp
  next
    case False
    then have "x < y" using 3(3) by auto
    then have "\<forall>z \<in> set (remdups_adj (y # xs)). x < z" using hd by fastforce
    then show ?thesis using 3(2) [OF False] 3(3) False by simp
  qed
qed simp_all

definition rejected_categories :: "classification \<Rightarrow> render_candidate_rejection list" where
  "rejected_categories cl =
     remdups_adj (sort (map (\<lambda>r. rejection_category (cr_reason r)) (cl_rejected cl)))"

definition is_applied :: "override_status \<Rightarrow> bool" where
  "is_applied st \<longleftrightarrow> (\<exists>i. st = Applied i)"

lemma deferred_cases:
  "deferred_from_override_suppression cl s =
     (if cl_selected cl \<noteq> None \<or> is_applied (cl_override_status cl) then None
      else map_option (\<lambda>why.
        \<lparr>rd_failure = (case why of NoObservations \<Rightarrow> SelNoObservations
                               | NoEligibleCandidates \<Rightarrow> SelNoEligibleCandidates),
         rd_override_failure = redacted_override_failure (cl_override_status cl) s,
         rd_rejections = rejected_categories cl\<rparr>) (cl_no_selection_reason cl))"
  by (cases "cl_override_status cl"; cases "cl_no_selection_reason cl")
    (auto simp: deferred_from_override_suppression_def is_applied_def rejected_categories_def Let_def)

text \<open>What of a classification a diagnostic may depend on.\<close>

definition redacted_view ::
  "classification \<Rightarrow> render_failure_policy_suppression option \<Rightarrow>
   bool \<times> bool \<times> no_selection_reason option \<times> render_override_failure option \<times>
   render_candidate_rejection set"
where
  "redacted_view cl s =
     (cl_selected cl \<noteq> None, is_applied (cl_override_status cl), cl_no_selection_reason cl,
      redacted_override_failure (cl_override_status cl) s,
      (\<lambda>r. rejection_category (cr_reason r)) ` set (cl_rejected cl))"

text \<open>
  Equivalent deferrals compare equal: two classifications that reject the same kinds of
  candidates, however many there are and whatever their identities, windows and counters,
  give the same diagnostic and the same text; its rejection categories are strictly
  increasing and are exactly those of the rejected candidates.
\<close>
theorem deferred_is_canonical:
  assumes "redacted_view c1 s = redacted_view c2 s"
  shows "deferred_from_classification c1 cooling disabled s =
      deferred_from_classification c2 cooling disabled s \<and>
    (\<forall>d. deferred_from_classification c1 cooling disabled s = Some d \<longrightarrow>
      sorted_wrt (<) (rd_rejections d) \<and>
      set (rd_rejections d) = (\<lambda>r. rejection_category (cr_reason r)) ` set (cl_rejected c1))"
proof -
  have strict: "sorted_wrt (<) (rejected_categories c)" for c
    by (simp add: rejected_categories_def sorted_remdups_adj_strict)
  have elems: "set (rejected_categories c) = (\<lambda>r. rejection_category (cr_reason r)) ` set (cl_rejected c)"
    for c by (simp add: rejected_categories_def)
  have "rejected_categories c1 = rejected_categories c2"
    using strict [of c1] strict [of c2] elems [of c1] elems [of c2] assms
    by (intro strict_sorted_equal) (auto simp: redacted_view_def)
  then have eq: "deferred_from_override_suppression c1 s = deferred_from_override_suppression c2 s"
    using assms by (simp add: deferred_cases redacted_view_def)
  have rej: "rd_rejections d = rejected_categories c1"
    if "deferred_from_classification c1 cooling disabled s = Some d" for d
    using that
    by (auto simp: deferred_from_classification_def deferred_cases split: option.splits if_splits)
  show ?thesis
    using eq rej strict [of c1] elems [of c1] by (simp add: deferred_from_classification_def)
qed

definition demo_deferral :: "u64 \<Rightarrow> u64 \<Rightarrow> classification" where
  "demo_deferral i j = classification_none NoEligibleCandidates (Unavailable i)
     [\<lparr>cr_id = i, cr_reason = Stale 90 j 8\<rparr>, \<lparr>cr_id = j, cr_reason = Occluded\<rparr>,
      \<lparr>cr_id = j + 1, cr_reason = Stale 90 i 8\<rparr>]"

theorem deferred_is_canonical_witness:
  "deferred_from_classification (demo_deferral 4 7) True False None =
     deferred_from_classification (demo_deferral 50 60) True False None \<and>
   map_option deferred_text (deferred_from_classification (demo_deferral 4 7) True False None) =
     Some (''render candidates cooling down under failure policy'' @
           ''; requested override unavailable; rejected: window occluded, stale presentation activity'')"
proof
  show "deferred_from_classification (demo_deferral 4 7) True False None =
     deferred_from_classification (demo_deferral 50 60) True False None"
    using deferred_is_canonical [of "demo_deferral 4 7" None "demo_deferral 50 60" True False]
    by (simp add: redacted_view_def demo_deferral_def classification_none_def is_applied_def
        redacted_override_failure_def insert_commute)
  show "map_option deferred_text (deferred_from_classification (demo_deferral 4 7) True False None) =
     Some (''render candidates cooling down under failure policy'' @
           ''; requested override unavailable; rejected: window occluded, stale presentation activity'')"
    by (simp add: deferred_from_classification_def deferred_cases demo_deferral_def
        classification_none_def is_applied_def redacted_override_failure_def rejected_categories_def
        less_eq_render_candidate_rejection_def deferred_text_def)
qed

end
