(* ===== verification/Dxgi_Policy.thy ===== *)
theory Dxgi_Policy
  imports Render_Session Dxgi_Selection Callback_Gate
begin

text \<open>
  The policy state of the DXGI interception manager and its critical sections
  (src/crates/nexus-dxgi/src/manager.rs). Every hook callback takes the policy mutex for one
  or two short sections; each section is one definition on \<open>manager\<close>, and between any two
  sections any other thread's section may run. What the sections learn from DXGI is an
  argument: the sampled metadata (\<open>sdk::inspect_swap_chain\<close>), the disposition of an
  \<open>HRESULT\<close>, the translated color space.
\<close>

section \<open>Data\<close>

datatype swap_chain_interface = IfaceBase | IfaceV1 | IfaceV2 | IfaceV3 | IfaceV4

datatype hresult_disposition = HrSuccess | HrOccluded | HrDeviceRemoved | HrDeviceReset | HrOther u32

definition unknown_color_space :: color_space where
  "unknown_color_space = OtherSpace (- 1)"

record tracked_chain =
  tk_id :: swap_chain_id
  tk_interface :: swap_chain_interface
  tk_activity :: activity
  tk_observation :: "swap_chain_observation option"
  tk_color_space :: color_space
  tk_color_space_reported :: bool

record renderable_set =
  rs_observations :: "swap_chain_observation list"
  rs_has_cooling_down :: bool
  rs_has_disabled :: bool
  rs_override_suppression :: "render_failure_policy_suppression option"

record selection_transition =
  tr_render :: "(session_generation \<times> render_stage \<times> selection_reason) option"
  tr_resolved :: "render_selection_resolved option"
  tr_deferred :: "render_selection_deferred option"

record policy_state =
  ps_next_swap_chain_id :: u64
  ps_next_device_id :: u64
  ps_sequence :: u64
  ps_selection_sequence :: u64
  ps_tracked :: "(usize, tracked_chain) btree"
  ps_devices :: "(usize, device_id) btree"
  ps_classifier :: classifier
  ps_registry :: session_registry
  ps_render_controls :: render_controls

record render_ticket =
  rt_key :: usize
  rt_id :: swap_chain_id
  rt_method :: present_method
  rt_sequence :: u64
  rt_generation :: session_generation
  rt_stage :: render_stage
  rt_reason :: selection_reason
  rt_transition_sequence :: u64

record swap_chain_retirement =
  sr_id :: swap_chain_id
  sr_generation :: session_generation
  sr_sequence :: u64

record dxgi_config =
  dc_render_controls :: render_controls
  dc_classifier :: classifier_config
  dc_failure_policy :: failure_policy

section \<open>Policy operations\<close>

definition policy_new :: "dxgi_config \<Rightarrow> policy_state" where
  "policy_new c =
     \<lparr>ps_next_swap_chain_id = 1, ps_next_device_id = 1, ps_sequence = 0, ps_selection_sequence = 0,
      ps_tracked = [], ps_devices = [], ps_classifier = classifier_new (dc_classifier c),
      ps_registry = session_registry_new (dc_failure_policy c),
      ps_render_controls = dc_render_controls c\<rparr>"

definition policy_device_id :: "usize \<Rightarrow> policy_state \<Rightarrow> policy_state \<times> device_id" where
  "policy_device_id native p =
     (case map_of (ps_devices p) native of
        Some i \<Rightarrow> (p, i)
      | None \<Rightarrow>
          (let i = ps_next_device_id p
           in (p\<lparr>ps_next_device_id := saturating_add i 1,
                 ps_devices := bt_insert native i (ps_devices p)\<rparr>, i)))"

definition next_present_sequence :: "policy_state \<Rightarrow> (policy_state \<times> u64) option" where
  "next_present_sequence p =
     (case checked_add (ps_sequence p) 1 of
        None \<Rightarrow> None
      | Some n \<Rightarrow> Some (p\<lparr>ps_sequence := n\<rparr>, n))"

definition next_selection_sequence :: "policy_state \<Rightarrow> policy_state \<times> u64" where
  "next_selection_sequence p =
     (let n = saturating_add (ps_selection_sequence p) 1
      in (p\<lparr>ps_selection_sequence := n\<rparr>, n))"

definition is_current_present :: "policy_state \<Rightarrow> usize \<Rightarrow> swap_chain_id \<Rightarrow> u64 \<Rightarrow> bool" where
  "is_current_present p key i seq =
     (case map_of (ps_tracked p) key of
        None \<Rightarrow> False
      | Some t \<Rightarrow> tk_id t = i \<and> last_present_sequence (tk_activity t) = seq)"

definition permits_render_ticket :: "policy_state \<Rightarrow> render_ticket \<Rightarrow> bool" where
  "permits_render_ticket p t \<longleftrightarrow>
     is_current_present p (rt_key t) (rt_id t) (rt_sequence t) \<and>
     cf_current (ps_classifier p) = Some (rt_id t) \<and>
     permits (ps_render_controls p) RenderProbe \<and>
     effective_stage (ps_render_controls p) = rt_stage t \<and>
     (case registry_get (ps_registry p) (rt_id t) of
        None \<Rightarrow> False
      | Some s \<Rightarrow> ss_generation s = rt_generation t \<and> ss_lifecycle s = Primary)"

definition retirement_of :: "policy_state \<Rightarrow> swap_chain_id \<Rightarrow> u64 \<Rightarrow> swap_chain_retirement option" where
  "retirement_of p i seq =
     map_option (\<lambda>s. \<lparr>sr_id = i, sr_generation = ss_generation s, sr_sequence = seq\<rparr>)
       (registry_get (ps_registry p) i)"

definition update_tracked :: "usize \<Rightarrow> (tracked_chain \<Rightarrow> tracked_chain) \<Rightarrow> policy_state \<Rightarrow> policy_state" where
  "update_tracked key f p = p\<lparr>ps_tracked := bt_update key f (ps_tracked p)\<rparr>"

definition invalidate_observation ::
  "usize \<Rightarrow> swap_chain_id \<Rightarrow> u64 \<Rightarrow> policy_state \<Rightarrow> policy_state \<times> bool"
where
  "invalidate_observation key i seq p =
     (case map_of (ps_tracked p) key of
        None \<Rightarrow> (p, False)
      | Some t \<Rightarrow>
          if tk_id t \<noteq> i \<or> last_present_sequence (tk_activity t) \<noteq> seq then (p, False)
          else (update_tracked key (\<lambda>t. t\<lparr>tk_observation := None\<rparr>) p, True))"

definition same_render_generation :: "session \<Rightarrow> swap_chain_observation \<Rightarrow> bool" where
  "same_render_generation s ob \<longleftrightarrow>
     ss_lifecycle s \<noteq> Retired \<and>
     so_hwnd (ss_observation s) = so_hwnd ob \<and>
     so_device (ss_observation s) = so_device ob \<and>
     so_adapter_luid (ss_observation s) = so_adapter_luid ob \<and>
     so_size (ss_observation s) = so_size ob \<and>
     so_format (ss_observation s) = so_format ob \<and>
     so_color_space (ss_observation s) = so_color_space ob"

definition renderable_step ::
  "policy_state \<Rightarrow> render_stage \<Rightarrow> u64 \<Rightarrow> swap_chain_observation \<Rightarrow> renderable_set \<Rightarrow> renderable_set"
where
  "renderable_step p stage seq ob r =
     (let admit = r\<lparr>rs_observations := rs_observations r @ [ob]\<rparr>;
          suppress = (\<lambda>why r. if user_override (cf_config (ps_classifier p)) = Some (so_id ob)
                              then r\<lparr>rs_override_suppression := Some why\<rparr> else r)
      in case registry_get (ps_registry p) (so_id ob) of
        None \<Rightarrow> admit
      | Some s \<Rightarrow>
          if \<not> same_render_generation s ob then admit
          else (case stage_state (ss_failures s) stage of
             StateHealthy _ _ \<Rightarrow> admit
           | StateCoolingDown retry_at _ \<Rightarrow>
               if retry_at \<le> seq then admit
               else suppress SupCoolingDown (r\<lparr>rs_has_cooling_down := True\<rparr>)
           | StateDisabled _ \<Rightarrow> suppress SupDisabled (r\<lparr>rs_has_disabled := True\<rparr>)))"

definition renderable_observations ::
  "policy_state \<Rightarrow> swap_chain_observation list \<Rightarrow> render_stage \<Rightarrow> u64 \<Rightarrow> renderable_set"
where
  "renderable_observations p obs stage seq =
     fold (renderable_step p stage seq) obs
       \<lparr>rs_observations = [], rs_has_cooling_down = False, rs_has_disabled = False,
        rs_override_suppression = None\<rparr>"

definition update_session :: "swap_chain_id \<Rightarrow> (session \<Rightarrow> session) \<Rightarrow> policy_state \<Rightarrow> policy_state" where
  "update_session i f p =
     p\<lparr>ps_registry := (ps_registry p)
         \<lparr>rg_sessions := bt_update i f (rg_sessions (ps_registry p))\<rparr>\<rparr>"

definition permit_render ::
  "swap_chain_id \<Rightarrow> render_stage \<Rightarrow> u64 \<Rightarrow> policy_state \<Rightarrow> policy_state \<times> session_generation option"
where
  "permit_render i stage seq p =
     (case registry_get (ps_registry p) i of
        None \<Rightarrow> (p, None)
      | Some s \<Rightarrow>
          (let (f, perm) = permission stage seq (ss_failures s);
               p' = update_session i (\<lambda>s. s\<lparr>ss_failures := f\<rparr>) p
           in (p', case perm of
                     Attempt \<Rightarrow> Some (ss_generation s)
                   | Retry \<Rightarrow> Some (ss_generation s)
                   | WaitCooldown _ \<Rightarrow> None
                   | DisabledPermission \<Rightarrow> None)))"

definition tracked_observations :: "policy_state \<Rightarrow> swap_chain_observation list" where
  "tracked_observations p = List.map_filter tk_observation (map snd (ps_tracked p))"

definition latest_present :: "policy_state \<Rightarrow> u64 \<Rightarrow> u64" where
  "latest_present p seq =
     max (fold max (map (\<lambda>t. last_present_sequence (tk_activity t)) (map snd (ps_tracked p))) 0) seq"

definition reconcile_render_selection ::
  "swap_chain_id option \<Rightarrow> u64 \<Rightarrow> policy_state \<Rightarrow> policy_state \<times> selection_transition"
where
  "reconcile_render_selection presenting seq p =
     (let obs = tracked_observations p;
          stage = effective_stage (ps_render_controls p);
          rs = renderable_observations p obs stage seq;
          (k, cl) = classify_with_latest (ps_classifier p) (rs_observations rs) (latest_present p seq);
          primary = cl_selected cl;
          resolved = resolved_from_classification cl (rs_override_suppression rs);
          deferred = deferred_from_classification cl (rs_has_cooling_down rs) (rs_has_disabled rs)
                       (rs_override_suppression rs);
          p1 = p\<lparr>ps_classifier := k, ps_registry := fst (reconcile obs primary (ps_registry p))\<rparr>
      in case presenting of
        Some i \<Rightarrow>
          if primary = Some i \<and> permits (ps_render_controls p) RenderProbe
          then (let (p2, permitted) = permit_render i stage seq p1
                in (p2, \<lparr>tr_render =
                          (case (permitted, cl_selection_reason cl) of
                             (Some g, Some why) \<Rightarrow> Some (g, stage, why)
                           | _ \<Rightarrow> None),
                         tr_resolved = resolved, tr_deferred = deferred\<rparr>))
          else (p1, \<lparr>tr_render = None, tr_resolved = resolved, tr_deferred = deferred\<rparr>)
      | None \<Rightarrow> (p1, \<lparr>tr_render = None, tr_resolved = resolved, tr_deferred = deferred\<rparr>))"

definition policy_record_outcome ::
  "swap_chain_id \<Rightarrow> session_generation \<Rightarrow> render_stage \<Rightarrow> u64 \<Rightarrow> bool \<Rightarrow> policy_state \<Rightarrow>
   policy_state \<times> bool"
where
  "policy_record_outcome i g stage seq succeeded p =
     (case registry_get (ps_registry p) i of
        None \<Rightarrow> (p, False)
      | Some s \<Rightarrow>
          if ss_generation s \<noteq> g then (p, False)
          else (let (s', taken) = record_render_outcome stage seq succeeded s
                in (update_session i (\<lambda>_. s') p, taken)))"

end
