(* ===== verification/Dxgi_Manager.thy ===== *)
theory Dxgi_Manager
  imports Dxgi_Policy
begin

text \<open>
  The policy critical sections of \<open>DxgiInterceptionManager\<close>
  (src/crates/nexus-dxgi/src/manager.rs), one definition each, and the machine in which any
  thread may run any of them at any time. The callbacks emitted between sections do not touch
  this state, except the host's own \<open>set_expected_game_window\<close>, which is a section too.
\<close>

section \<open>Critical sections\<close>

record manager =
  mg_policy :: policy_state
  mg_closing :: bool
  mg_gate :: callback_gate

definition manager_new :: "dxgi_config \<Rightarrow> manager" where
  "manager_new c = \<lparr>mg_policy = policy_new c, mg_closing = False, mg_gate = gate_open\<rparr>"

definition on_policy :: "(policy_state \<Rightarrow> policy_state) \<Rightarrow> manager \<Rightarrow> manager" where
  "on_policy f m = m\<lparr>mg_policy := f (mg_policy m)\<rparr>"

definition set_render_controls :: "render_controls \<Rightarrow> policy_state \<Rightarrow> policy_state" where
  "set_render_controls c p = p\<lparr>ps_render_controls := c\<rparr>"

definition manager_set_expected_game_window :: "hwnd option \<Rightarrow> policy_state \<Rightarrow> policy_state" where
  "manager_set_expected_game_window w p =
     (let c = cf_config (ps_classifier p)
      in if expected_game_window c = w then p
         else p\<lparr>ps_classifier :=
                  classifier_set_config (set_expected_game_window w c) (ps_classifier p)\<rparr>)"

definition track_swap_chain ::
  "usize \<Rightarrow> swap_chain_interface \<Rightarrow> policy_state \<Rightarrow> policy_state \<times> swap_chain_id"
where
  "track_swap_chain key iface p =
     (case map_of (ps_tracked p) key of
        Some t \<Rightarrow> (p, tk_id t)
      | None \<Rightarrow>
          (let i = ps_next_swap_chain_id p
           in (p\<lparr>ps_next_swap_chain_id := saturating_add i 1,
                 ps_tracked := bt_insert key
                   \<lparr>tk_id = i, tk_interface = iface, tk_activity = activity_default,
                    tk_observation = None, tk_color_space = unknown_color_space,
                    tk_color_space_reported = False\<rparr> (ps_tracked p)\<rparr>, i)))"

text \<open>
  First section of \<open>before_present\<close>. When the presentation counter is exhausted the manager
  closes for good and every session of the registry is to be retired.
\<close>

datatype present_entry =
    EntryClosing
  | EntryExhausted "swap_chain_retirement list"
  | EntryUntracked
  | EntryTracked swap_chain_id swap_chain_interface u64 bool

definition count_present :: "u64 \<Rightarrow> tracked_chain \<Rightarrow> tracked_chain" where
  "count_present seq t =
     t\<lparr>tk_activity := (tk_activity t)
         \<lparr>present_count := saturating_add (present_count (tk_activity t)) 1,
          last_present_sequence := seq,
          consecutive_present_cycles :=
            saturating_add (consecutive_present_cycles (tk_activity t)) 1\<rparr>,
       tk_color_space_reported :=
         (tk_color_space t = unknown_color_space \<or> tk_color_space_reported t)\<rparr>"

definition before_present_enter :: "usize \<Rightarrow> manager \<Rightarrow> manager \<times> present_entry" where
  "before_present_enter key m =
     (if mg_closing m then (m, EntryClosing)
      else case next_present_sequence (mg_policy m) of
        None \<Rightarrow>
          (m\<lparr>mg_closing := True, mg_gate := fst (gate_close (mg_gate m))\<rparr>,
           EntryExhausted (map (\<lambda>q. \<lparr>sr_id = so_id (ss_observation (snd q)),
               sr_generation = ss_generation (snd q), sr_sequence = ps_sequence (mg_policy m)\<rparr>)
             (rg_sessions (ps_registry (mg_policy m)))))
      | Some (p, seq) \<Rightarrow>
          (case map_of (ps_tracked p) key of
             None \<Rightarrow> (m\<lparr>mg_policy := p\<rparr>, EntryUntracked)
           | Some t \<Rightarrow>
               (m\<lparr>mg_policy := update_tracked key (count_present seq) p\<rparr>,
                EntryTracked (tk_id t) (tk_interface t) seq
                  (tk_color_space t = unknown_color_space \<and> \<not> tk_color_space_reported t))))"

text \<open>The metadata \<open>sdk::inspect_swap_chain\<close> returns.\<close>

record chain_metadata =
  md_device_identity :: usize
  md_window_visible :: bool
  md_foreground :: bool
  md_hwnd :: "usize option"
  md_adapter_luid :: adapter_luid
  md_format :: surface_format
  md_size :: extent2d

text \<open>
  Second section of \<open>before_present\<close>, after a successful inspection: the chain's observation
  is replaced and the selection reconciled. The result is the render ticket, if this
  presentation may render, and otherwise the retirement of its resources.
\<close>

definition sample_tracked ::
  "swap_chain_id \<Rightarrow> device_id \<Rightarrow> present_method \<Rightarrow> chain_metadata \<Rightarrow> tracked_chain \<Rightarrow> tracked_chain"
where
  "sample_tracked i device method md t =
     (let act = (tk_activity t)\<lparr>window_visible := md_window_visible md, foreground := md_foreground md\<rparr>
      in t\<lparr>tk_activity := act,
           tk_observation := Some
             \<lparr>so_id = i, so_hwnd = md_hwnd md, so_device = device,
              so_adapter_luid = md_adapter_luid md, so_format = md_format md,
              so_color_space = tk_color_space t, so_size = md_size md,
              so_present_method = method, so_activity = act\<rparr>\<rparr>)"

definition before_present_sample ::
  "usize \<Rightarrow> swap_chain_id \<Rightarrow> u64 \<Rightarrow> present_method \<Rightarrow> chain_metadata \<Rightarrow> manager \<Rightarrow>
   manager \<times> (selection_transition \<times> render_ticket option \<times> swap_chain_retirement option) option"
where
  "before_present_sample key i seq method md m =
     (let p = mg_policy m
      in if mg_closing m \<or> \<not> is_current_present p key i seq then (m, None)
         else
           (let (p1, device) = policy_device_id (md_device_identity md) p
            in case map_of (ps_tracked p1) key of
              None \<Rightarrow> (m\<lparr>mg_policy := p1\<rparr>, None)
            | Some _ \<Rightarrow>
                (let p2 = update_tracked key (sample_tracked i device method md) p1;
                     (p3, tr) = reconcile_render_selection (Some i) (ps_sequence p2) p2;
                     (p4, tseq) = next_selection_sequence p3
                 in (m\<lparr>mg_policy := p4\<rparr>,
                     Some (tr,
                       map_option (\<lambda>r. \<lparr>rt_key = key, rt_id = i, rt_method = method,
                         rt_sequence = seq, rt_generation = fst r, rt_stage = fst (snd r),
                         rt_reason = snd (snd r), rt_transition_sequence = tseq\<rparr>) (tr_render tr),
                       if tr_render tr = None then retirement_of p4 i seq else None)))))"

definition handle_inspection_failure ::
  "usize \<Rightarrow> swap_chain_id \<Rightarrow> u64 \<Rightarrow> policy_state \<Rightarrow>
   policy_state \<times> (selection_transition \<times> swap_chain_retirement option) option"
where
  "handle_inspection_failure key i seq p =
     (let (p1, invalidated) = invalidate_observation key i seq p
      in if \<not> invalidated then (p1, None)
         else
           (let (p2, tr) = reconcile_render_selection None (ps_sequence p1) p1;
                (p3, tseq) = next_selection_sequence p2
            in (p3, Some (tr, retirement_of p3 i seq))))"

fun is_device_lost :: "hresult_disposition \<Rightarrow> bool" where
  "is_device_lost HrDeviceRemoved = True"
| "is_device_lost HrDeviceReset = True"
| "is_device_lost _ = False"

definition present_returned :: "hresult_disposition \<Rightarrow> tracked_chain \<Rightarrow> tracked_chain" where
  "present_returned disp t =
     (let act = (tk_activity t)\<lparr>occluded := (disp = HrOccluded)\<rparr>
      in t\<lparr>tk_activity := act,
           tk_observation :=
             (if is_device_lost disp then None
              else map_option (\<lambda>ob. ob\<lparr>so_activity := (so_activity ob)\<lparr>occluded := occluded act\<rparr>\<rparr>)
                     (tk_observation t))\<rparr>)"

definition after_present_section ::
  "usize \<Rightarrow> swap_chain_id \<Rightarrow> u64 \<Rightarrow> hresult_disposition \<Rightarrow> policy_state \<Rightarrow>
   policy_state \<times> (selection_transition \<times> swap_chain_retirement option) option"
where
  "after_present_section key i seq disp p =
     (if \<not> is_current_present p key i seq then (p, None)
      else
        (let was = (case map_of (ps_tracked p) key of None \<Rightarrow> None
                      | Some t \<Rightarrow> Some (occluded (tk_activity t), tk_observation t));
             p1 = update_tracked key (present_returned disp) p;
             reconcile_now = (case was of
                 None \<Rightarrow> False
               | Some (was_occluded, ob) \<Rightarrow>
                   if is_device_lost disp then True
                   else if ob \<noteq> None then was_occluded \<noteq> (disp = HrOccluded)
                   else False)
         in if \<not> reconcile_now then (p1, None)
            else
              (let (p2, tr) = reconcile_render_selection None (ps_sequence p1) p1;
                   retirement = (if cf_current (ps_classifier p2) \<noteq> Some i
                                 then retirement_of p2 i seq else None);
                   (p3, tseq) = next_selection_sequence p2
               in (p3, Some (tr, retirement)))))"

definition before_resize_read :: "usize \<Rightarrow> policy_state \<Rightarrow> (swap_chain_id \<times> u64) option" where
  "before_resize_read key p =
     map_option (\<lambda>t. (tk_id t, last_present_sequence (tk_activity t))) (map_of (ps_tracked p) key)"

definition after_resize_section ::
  "usize \<Rightarrow> swap_chain_id \<Rightarrow> u64 \<Rightarrow> policy_state \<Rightarrow>
   policy_state \<times> (selection_transition \<times> swap_chain_retirement option) option"
where
  "after_resize_section key i present_seq p =
     (case map_of (ps_tracked p) key of
        None \<Rightarrow> (p, None)
      | Some t \<Rightarrow>
          if tk_id t = i \<and>
             (case tk_observation t of None \<Rightarrow> True
              | Some ob \<Rightarrow> last_present_sequence (so_activity ob) \<le> present_seq)
          then
            (let p1 = update_tracked key (\<lambda>t. t\<lparr>tk_observation := None,
                        tk_activity := (tk_activity t)\<lparr>consecutive_present_cycles := 0\<rparr>\<rparr>) p;
                 retirement = retirement_of p1 i (max (last_present_sequence (tk_activity t)) present_seq);
                 (p2, tr) = reconcile_render_selection None (ps_sequence p1) p1;
                 (p3, tseq) = next_selection_sequence p2
             in (p3, Some (tr, retirement)))
          else (p, None))"

text \<open>
  The section of \<open>after_set_color_space\<close>; \<open>ok\<close> is the sign test of the \<open>HRESULT\<close>. The
  retirement of the previous primary is computed before the reconciliation and kept only when
  the primary or its generation changed.
\<close>

definition set_tracked_color ::
  "bool \<Rightarrow> color_space \<Rightarrow> tracked_chain \<Rightarrow> tracked_chain"
where
  "set_tracked_color ok requested t =
     (if ok then t\<lparr>tk_color_space := requested, tk_color_space_reported := True,
                   tk_observation := map_option (\<lambda>ob. ob\<lparr>so_color_space := requested\<rparr>)
                     (tk_observation t)\<rparr>
      else t)"

definition after_set_color_space_section ::
  "usize \<Rightarrow> color_space \<Rightarrow> bool \<Rightarrow> policy_state \<Rightarrow>
   policy_state \<times> (selection_transition \<times> swap_chain_retirement option) option"
where
  "after_set_color_space_section key requested ok p =
     (case map_of (ps_tracked p) key of
        None \<Rightarrow> (p, None)
      | Some t \<Rightarrow>
          (let p1 = update_tracked key (set_tracked_color ok requested) p
           in if \<not> (ok \<and> tk_observation t \<noteq> None) then (p1, None)
              else
                (let old = (case cf_current (ps_classifier p1) of
                        None \<Rightarrow> None
                      | Some i \<Rightarrow>
                          (case find (\<lambda>t. tk_id t = i) (map snd (ps_tracked p1)) of
                             None \<Rightarrow> None
                           | Some t' \<Rightarrow> retirement_of p1 i (last_present_sequence (tk_activity t'))));
                     (p2, tr) = reconcile_render_selection None (ps_sequence p1) p1;
                     retirement = (case old of
                        None \<Rightarrow> None
                      | Some r \<Rightarrow>
                          if cf_current (ps_classifier p2) \<noteq> Some (sr_id r) \<or>
                             (case registry_get (ps_registry p2) (sr_id r) of
                                None \<Rightarrow> True | Some s \<Rightarrow> ss_generation s \<noteq> sr_generation r)
                          then Some r else None);
                     (p3, tseq) = next_selection_sequence p2
                 in (p3, Some (tr, retirement)))))"

section \<open>The machine\<close>

datatype manager_op =
    OpControls render_controls
  | OpGameWindow "hwnd option"
  | OpTrack usize swap_chain_interface
  | OpPresentEnter usize
  | OpPresentSample usize swap_chain_id u64 present_method chain_metadata
  | OpInspectionFailed usize swap_chain_id u64
  | OpPresentReturned usize swap_chain_id u64 hresult_disposition
  | OpResized usize swap_chain_id u64
  | OpColorSpace usize color_space bool
  | OpOutcome swap_chain_id session_generation render_stage u64 bool
  | OpClose

fun manager_apply :: "manager_op \<Rightarrow> manager \<Rightarrow> manager" where
  "manager_apply (OpControls c) m = on_policy (set_render_controls c) m"
| "manager_apply (OpGameWindow w) m = on_policy (manager_set_expected_game_window w) m"
| "manager_apply (OpTrack key iface) m = on_policy (\<lambda>p. fst (track_swap_chain key iface p)) m"
| "manager_apply (OpPresentEnter key) m = fst (before_present_enter key m)"
| "manager_apply (OpPresentSample key i seq method md) m =
     fst (before_present_sample key i seq method md m)"
| "manager_apply (OpInspectionFailed key i seq) m =
     on_policy (\<lambda>p. fst (handle_inspection_failure key i seq p)) m"
| "manager_apply (OpPresentReturned key i seq disp) m =
     on_policy (\<lambda>p. fst (after_present_section key i seq disp p)) m"
| "manager_apply (OpResized key i seq) m = on_policy (\<lambda>p. fst (after_resize_section key i seq p)) m"
| "manager_apply (OpColorSpace key c ok) m =
     on_policy (\<lambda>p. fst (after_set_color_space_section key c ok p)) m"
| "manager_apply (OpOutcome i g stage seq ok) m =
     on_policy (\<lambda>p. fst (policy_record_outcome i g stage seq ok p)) m"
| "manager_apply OpClose m = m\<lparr>mg_closing := True, mg_gate := fst (gate_close (mg_gate m))\<rparr>"

abbreviation manager_run :: "manager_op list \<Rightarrow> manager \<Rightarrow> manager" where
  "manager_run ops m \<equiv> fold manager_apply ops m"

end
