(* ===== verification/Dxgi_Tickets.thy ===== *)
theory Dxgi_Tickets
  imports Dxgi_Manager
begin

text \<open>
  What a render ticket is worth: it is valid when it is issued, and whatever runs afterwards,
  as long as it is still permitted the chain has the surface that was sampled for it.
\<close>

section \<open>Sessions under every section\<close>

definition session_newer :: "session \<Rightarrow> session \<Rightarrow> bool" where
  "session_newer s s' \<longleftrightarrow>
     ss_generation s < ss_generation s' \<or> ss_generation s = - 1 \<and> ss_generation s' = - 1 \<or>
     ss_generation s' = ss_generation s \<and>
     surface_of (ss_observation s') = surface_of (ss_observation s)"

lemma session_newer_refl [simp]: "session_newer s s"
  by (simp add: session_newer_def)

lemma session_newer_trans: "session_newer a b \<Longrightarrow> session_newer b c \<Longrightarrow> session_newer a c"
  unfolding session_newer_def
  by (elim disjE conjE) (auto dest: less_trans simp: word_order.not_eq_extremum)

lemma same_or_newer_session: "same_or_newer s s' \<Longrightarrow> session_newer s s'"
  by (auto simp: same_or_newer_def session_newer_def)

definition registry_newer :: "session_registry \<Rightarrow> session_registry \<Rightarrow> bool" where
  "registry_newer r r' \<longleftrightarrow> (registry_wf r \<longrightarrow> registry_wf r' \<and>
     (\<forall>i s. registry_get r i = Some s \<longrightarrow>
        (\<exists>s'. registry_get r' i = Some s' \<and> session_newer s s')))"

lemma registry_newer_refl [simp]: "registry_newer r r"
  by (simp add: registry_newer_def)

lemma registry_newer_trans: "registry_newer a b \<Longrightarrow> registry_newer b c \<Longrightarrow> registry_newer a c"
  unfolding registry_newer_def by (meson session_newer_trans)

lemma registry_newer_reconcile: "registry_newer r (fst (reconcile obs primary r))"
  unfolding registry_newer_def
  using reconcile_newer same_or_newer_session
    reconcile_pointwise(2) [OF _ prod.collapse [symmetric], of r obs primary]
  by blast

lemma update_session_registry [simp]:
  "registry_get (ps_registry (update_session i f p)) j =
     (if j = i then map_option f (registry_get (ps_registry p) i) else registry_get (ps_registry p) j)"
  "registry_wf (ps_registry (update_session i f p)) = registry_wf (ps_registry p)"
  by (simp_all add: update_session_def registry_get_def registry_wf_def)

lemma registry_newer_update:
  assumes "\<And>s. registry_get (ps_registry p) i = Some s \<Longrightarrow> session_newer s (f s)"
  shows "registry_newer (ps_registry p) (ps_registry (update_session i f p))"
  using assms by (simp add: registry_newer_def)

lemma permit_render_effect:
  "ps_tracked (fst (permit_render i stage seq p)) = ps_tracked p \<and>
   ps_classifier (fst (permit_render i stage seq p)) = ps_classifier p \<and>
   ps_render_controls (fst (permit_render i stage seq p)) = ps_render_controls p \<and>
   ps_next_swap_chain_id (fst (permit_render i stage seq p)) = ps_next_swap_chain_id p \<and>
   ps_sequence (fst (permit_render i stage seq p)) = ps_sequence p \<and>
   registry_newer (ps_registry p) (ps_registry (fst (permit_render i stage seq p)))"
  "snd (permit_render i stage seq p) = Some g \<Longrightarrow>
   \<exists>s. registry_get (ps_registry p) i = Some s \<and> ss_generation s = g \<and>
     (\<exists>f. registry_get (ps_registry (fst (permit_render i stage seq p))) i =
        Some (s\<lparr>ss_failures := f\<rparr>))"
proof -
  have n: "session_newer s (s\<lparr>ss_failures := f\<rparr>)" for s f by (simp add: session_newer_def)
  have u: "registry_newer (ps_registry p)
      (ps_registry (update_session i (\<lambda>s. s\<lparr>ss_failures := f\<rparr>) p))" for f
    using n by (rule registry_newer_update)
  show "ps_tracked (fst (permit_render i stage seq p)) = ps_tracked p \<and>
   ps_classifier (fst (permit_render i stage seq p)) = ps_classifier p \<and>
   ps_render_controls (fst (permit_render i stage seq p)) = ps_render_controls p \<and>
   ps_next_swap_chain_id (fst (permit_render i stage seq p)) = ps_next_swap_chain_id p \<and>
   ps_sequence (fst (permit_render i stage seq p)) = ps_sequence p \<and>
   registry_newer (ps_registry p) (ps_registry (fst (permit_render i stage seq p)))"
    using u by (simp add: permit_render_def update_session_def split: option.splits prod.splits)
  show "snd (permit_render i stage seq p) = Some g \<Longrightarrow>
   \<exists>s. registry_get (ps_registry p) i = Some s \<and> ss_generation s = g \<and>
     (\<exists>f. registry_get (ps_registry (fst (permit_render i stage seq p))) i =
        Some (s\<lparr>ss_failures := f\<rparr>))"
    by (auto simp: permit_render_def split: option.splits prod.splits attempt_permission.splits)
qed

text \<open>The classification a reconciliation is based on.\<close>

definition selection_of :: "u64 \<Rightarrow> policy_state \<Rightarrow> classifier \<times> classification" where
  "selection_of seq p =
     classify_with_latest (ps_classifier p)
       (rs_observations (renderable_observations p (tracked_observations p)
          (effective_stage (ps_render_controls p)) seq))
       (latest_present p seq)"

definition reconciled :: "u64 \<Rightarrow> policy_state \<Rightarrow> policy_state" where
  "reconciled seq p =
     p\<lparr>ps_classifier := fst (selection_of seq p),
       ps_registry := fst (reconcile (tracked_observations p) (cl_selected (snd (selection_of seq p)))
         (ps_registry p))\<rparr>"

lemma reconcile_render_selection_state:
  "fst (reconcile_render_selection presenting seq p) =
     (case presenting of
        Some i \<Rightarrow>
          if cl_selected (snd (selection_of seq p)) = Some i \<and>
             permits (ps_render_controls p) RenderProbe
          then fst (permit_render i (effective_stage (ps_render_controls p)) seq (reconciled seq p))
          else reconciled seq p
      | None \<Rightarrow> reconciled seq p)"
  unfolding reconcile_render_selection_def selection_of_def reconciled_def
  by (auto simp: Let_def split: option.splits prod.splits)

lemma reconcile_render_selection_effect:
  "let p' = fst (reconcile_render_selection presenting seq p) in
   ps_tracked p' = ps_tracked p \<and> ps_render_controls p' = ps_render_controls p \<and>
   ps_next_swap_chain_id p' = ps_next_swap_chain_id p \<and> ps_sequence p' = ps_sequence p \<and>
   ps_classifier p' = fst (selection_of seq p) \<and>
   registry_newer (ps_registry p) (ps_registry p')"
proof -
  have r: "registry_newer (ps_registry p) (ps_registry (reconciled seq p))"
    by (simp add: reconciled_def registry_newer_reconcile)
  have q: "ps_tracked (reconciled seq p) = ps_tracked p"
    "ps_render_controls (reconciled seq p) = ps_render_controls p"
    "ps_next_swap_chain_id (reconciled seq p) = ps_next_swap_chain_id p"
    "ps_sequence (reconciled seq p) = ps_sequence p"
    "ps_classifier (reconciled seq p) = fst (selection_of seq p)"
    by (simp_all add: reconciled_def)
  have t: "registry_newer (ps_registry p)
      (ps_registry (fst (permit_render i stage seq (reconciled seq p))))" for i stage
    using permit_render_effect(1) by (blast intro: registry_newer_trans [OF r])
  show ?thesis
    using q r t permit_render_effect(1)
    by (simp add: Let_def reconcile_render_selection_state split: option.split)
qed

lemma reconcile_newer_registry:
  assumes "reconcile_render_selection presenting seq p = (p', tr)"
  shows "registry_newer (ps_registry p) (ps_registry p')"
    and "ps_tracked p' = ps_tracked p" and "ps_next_swap_chain_id p' = ps_next_swap_chain_id p"
    and "ps_render_controls p' = ps_render_controls p"
    and "ps_classifier p' = fst (selection_of seq p)"
  using reconcile_render_selection_effect [of presenting seq p] assms by (simp_all add: Let_def)

section \<open>Identities of the tracked chains\<close>

definition observes_self :: "tracked_chain \<Rightarrow> bool" where
  "observes_self t \<longleftrightarrow> (\<forall>ob. tk_observation t = Some ob \<longrightarrow> so_id ob = tk_id t)"

definition tracked_inv :: "policy_state \<Rightarrow> bool" where
  "tracked_inv p \<longleftrightarrow> bt_wf (ps_tracked p) \<and>
     (\<forall>k t. map_of (ps_tracked p) k = Some t \<longrightarrow>
        observes_self t \<and> tk_id t < ps_next_swap_chain_id p) \<and>
     (\<forall>k k' t t'. map_of (ps_tracked p) k = Some t \<longrightarrow> map_of (ps_tracked p) k' = Some t' \<longrightarrow>
        tk_id t = tk_id t' \<longrightarrow> k = k')"

definition policy_keeps :: "policy_state \<Rightarrow> policy_state \<Rightarrow> bool" where
  "policy_keeps p p' \<longleftrightarrow> registry_newer (ps_registry p) (ps_registry p') \<and>
     (tracked_inv p \<longrightarrow> tracked_inv p') \<and> ps_next_swap_chain_id p' = ps_next_swap_chain_id p"

lemma policy_keeps_refl [simp]: "policy_keeps p p"
  by (simp add: policy_keeps_def)

lemma policy_keeps_trans: "policy_keeps a b \<Longrightarrow> policy_keeps b c \<Longrightarrow> policy_keeps a c"
  unfolding policy_keeps_def by (auto intro: registry_newer_trans)

lemma policy_keeps_same:
  "ps_registry p' = ps_registry p \<Longrightarrow> ps_tracked p' = ps_tracked p \<Longrightarrow>
   ps_next_swap_chain_id p' = ps_next_swap_chain_id p \<Longrightarrow> policy_keeps p p'"
  by (simp add: policy_keeps_def tracked_inv_def)

lemma policy_keeps_tracked:
  assumes "\<And>t. map_of (ps_tracked p) key = Some t \<Longrightarrow>
    tk_id (f t) = tk_id t \<and> (observes_self t \<longrightarrow> observes_self (f t))"
  shows "policy_keeps p (update_tracked key f p)"
proof -
  have m: "map_of (ps_tracked (update_tracked key f p)) k =
      (if k = key then map_option f (map_of (ps_tracked p) key) else map_of (ps_tracked p) k)" for k
    by (simp add: update_tracked_def)
  have old: "\<exists>u. map_of (ps_tracked p) k = Some u \<and> tk_id u = tk_id t \<and>
      (observes_self u \<longrightarrow> observes_self t)"
    if "map_of (ps_tracked (update_tracked key f p)) k = Some t" for k t
    using that assms by (auto simp: m split: if_splits)
  have "tracked_inv p \<Longrightarrow> tracked_inv (update_tracked key f p)"
    unfolding tracked_inv_def
  proof (intro conjI allI impI; elim conjE)
    assume "bt_wf (ps_tracked p)"
    then show "bt_wf (ps_tracked (update_tracked key f p))" by (simp add: update_tracked_def)
  next
    fix k t
    assume a: "\<forall>k t. map_of (ps_tracked p) k = Some t \<longrightarrow>
        observes_self t \<and> tk_id t < ps_next_swap_chain_id p"
      and t: "map_of (ps_tracked (update_tracked key f p)) k = Some t"
    show "observes_self t" using a old [OF t] by auto
    show "tk_id t < ps_next_swap_chain_id (update_tracked key f p)"
      using a old [OF t] by (force simp: update_tracked_def)
  next
    fix k k' t t'
    assume a: "\<forall>k k' t t'. map_of (ps_tracked p) k = Some t \<longrightarrow> map_of (ps_tracked p) k' = Some t' \<longrightarrow>
        tk_id t = tk_id t' \<longrightarrow> k = k'"
      and t: "map_of (ps_tracked (update_tracked key f p)) k = Some t"
        "map_of (ps_tracked (update_tracked key f p)) k' = Some t'" "tk_id t = tk_id t'"
    obtain u u' where "map_of (ps_tracked p) k = Some u" "tk_id u = tk_id t"
      "map_of (ps_tracked p) k' = Some u'" "tk_id u' = tk_id t'"
      using old [OF t(1)] old [OF t(2)] by blast
    with a t(3) show "k = k'" by (metis (no_types, lifting))
  qed
  then show ?thesis by (simp add: policy_keeps_def update_tracked_def)
qed

lemma policy_keeps_reconcile:
  "policy_keeps p (fst (reconcile_render_selection presenting seq p))"
proof -
  obtain p' tr where r: "reconcile_render_selection presenting seq p = (p', tr)" by fastforce
  show ?thesis
    using reconcile_newer_registry [OF r] r by (simp add: policy_keeps_def tracked_inv_def)
qed

lemma policy_keeps_update_session:
  "(\<And>s. registry_get (ps_registry p) i = Some s \<Longrightarrow> session_newer s (f s)) \<Longrightarrow>
   policy_keeps p (update_session i f p)"
  using registry_newer_update [of p i f]
  by (simp add: policy_keeps_def tracked_inv_def) (simp add: update_session_def)

lemma policy_keeps_selection_sequence: "policy_keeps p (fst (next_selection_sequence p))"
  by (intro policy_keeps_same) (simp_all add: next_selection_sequence_def Let_def)

text \<open>Reconciliation followed by the next selection sequence, as every section does it.\<close>

lemma policy_keeps_reconcile_next:
  "policy_keeps q p \<Longrightarrow> reconcile_render_selection presenting seq p = (p', tr) \<Longrightarrow>
   next_selection_sequence p' = (p'', n) \<Longrightarrow> policy_keeps q p''"
  using policy_keeps_reconcile [of p presenting seq] policy_keeps_selection_sequence [of p']
  by (auto intro: policy_keeps_trans)

lemma keeps_device: "policy_device_id native p = (p', d) \<Longrightarrow> policy_keeps p p'"
  by (rule policy_keeps_same) (auto simp: policy_device_id_def Let_def split: option.splits)

lemma keeps_invalidate: "invalidate_observation key i seq p = (p', b) \<Longrightarrow> policy_keeps p p'"
  using policy_keeps_tracked [of p key "\<lambda>t. t\<lparr>tk_observation := None\<rparr>"]
  by (auto simp: invalidate_observation_def observes_self_def split: option.splits if_splits)

lemma keeps_sample:
  assumes "before_present_sample key i seq meth md m = (m', r)"
  shows "policy_keeps (mg_policy m) (mg_policy m')"
proof (cases "mg_closing m \<or> \<not> is_current_present (mg_policy m) key i seq")
  case True
  then show ?thesis using assms by (auto simp: before_present_sample_def Let_def)
next
  case False
  obtain p1 d where d: "policy_device_id (md_device_identity md) (mg_policy m) = (p1, d)" by fastforce
  have t1: "ps_tracked p1 = ps_tracked (mg_policy m)"
    using d by (auto simp: policy_device_id_def Let_def split: option.splits)
  let ?p2 = "update_tracked key (sample_tracked i d meth md) p1"
  have k2: "policy_keeps p1 ?p2"
    using False t1
    by (intro policy_keeps_tracked) (auto simp: sample_tracked_def Let_def observes_self_def
        is_current_present_def)
  obtain p3 tr where r3: "reconcile_render_selection (Some i) (ps_sequence ?p2) ?p2 = (p3, tr)"
    by fastforce
  obtain p4 n where n4: "next_selection_sequence p3 = (p4, n)" by fastforce
  have "policy_keeps (mg_policy m) p4"
    by (rule policy_keeps_reconcile_next [OF policy_keeps_trans [OF keeps_device [OF d] k2] r3 n4])
  then show ?thesis
    using assms False d r3 n4 keeps_device [OF d]
    by (auto simp: before_present_sample_def Let_def split: option.splits)
qed

lemma keeps_inspection: "policy_keeps p (fst (handle_inspection_failure key i seq p))"
proof -
  obtain p1 b where i1: "invalidate_observation key i seq p = (p1, b)" by fastforce
  obtain p2 tr where r2: "reconcile_render_selection None (ps_sequence p1) p1 = (p2, tr)" by fastforce
  obtain p3 n where n3: "next_selection_sequence p2 = (p3, n)" by fastforce
  show ?thesis
    using policy_keeps_reconcile_next [OF keeps_invalidate [OF i1] r2 n3] keeps_invalidate [OF i1]
    by (simp add: handle_inspection_failure_def Let_def i1 r2 n3)
qed

lemma keeps_returned: "policy_keeps p (fst (after_present_section key i seq disp p))"
proof -
  let ?p1 = "update_tracked key (present_returned disp) p"
  have k1: "policy_keeps p ?p1"
    by (intro policy_keeps_tracked) (auto simp: present_returned_def Let_def observes_self_def)
  obtain p2 tr where r2: "reconcile_render_selection None (ps_sequence ?p1) ?p1 = (p2, tr)" by fastforce
  obtain p3 n where n3: "next_selection_sequence p2 = (p3, n)" by fastforce
  show ?thesis
    using policy_keeps_reconcile_next [OF k1 r2 n3] k1
    by (simp add: after_present_section_def Let_def r2 n3)
qed

lemma keeps_resized: "policy_keeps p (fst (after_resize_section key i seq p))"
proof -
  let ?p1 = "update_tracked key (\<lambda>t. t\<lparr>tk_observation := None,
                tk_activity := (tk_activity t)\<lparr>consecutive_present_cycles := 0\<rparr>\<rparr>) p"
  have k1: "policy_keeps p ?p1"
    by (intro policy_keeps_tracked) (auto simp: observes_self_def)
  obtain p2 tr where r2: "reconcile_render_selection None (ps_sequence ?p1) ?p1 = (p2, tr)" by fastforce
  obtain p3 n where n3: "next_selection_sequence p2 = (p3, n)" by fastforce
  show ?thesis
    using policy_keeps_reconcile_next [OF k1 r2 n3]
    by (simp add: after_resize_section_def Let_def r2 n3 split: option.split)
qed

lemma keeps_color: "policy_keeps p (fst (after_set_color_space_section key c ok p))"
proof -
  let ?p1 = "update_tracked key (set_tracked_color ok c) p"
  have k1: "policy_keeps p ?p1"
    by (intro policy_keeps_tracked) (auto simp: set_tracked_color_def observes_self_def)
  obtain p2 tr where r2: "reconcile_render_selection None (ps_sequence ?p1) ?p1 = (p2, tr)" by fastforce
  obtain p3 n where n3: "next_selection_sequence p2 = (p3, n)" by fastforce
  show ?thesis
    using policy_keeps_reconcile_next [OF k1 r2 n3] k1 r2
    by (cases ok) (auto simp: after_set_color_space_section_def Let_def n3 split: option.split)
qed

lemma record_outcome_newer:
  "session_newer s (fst (record_render_outcome stage seq ok s))"
  by (simp add: record_render_outcome_def Let_def session_newer_def)

lemma keeps_outcome: "policy_keeps p (fst (policy_record_outcome i g stage seq ok p))"
proof -
  have "policy_keeps p (update_session i (\<lambda>_. s') p)"
    if "registry_get (ps_registry p) i = Some s" "record_render_outcome stage seq ok s = (s', b)" for s s' b
    using that record_outcome_newer [of s stage seq ok]
    by (intro policy_keeps_update_session) simp
  then show ?thesis by (simp add: policy_record_outcome_def split: option.split prod.split)
qed

lemma keeps_enter: "policy_keeps (mg_policy m) (mg_policy (fst (before_present_enter key m)))"
proof -
  have "policy_keeps (mg_policy m) p \<and> policy_keeps (mg_policy m) (update_tracked key (count_present seq) p)"
    if "next_present_sequence (mg_policy m) = Some (p, seq)" for p seq
  proof -
    have s: "policy_keeps (mg_policy m) p"
      using that by (intro policy_keeps_same) (auto simp: next_present_sequence_def split: option.splits)
    have "policy_keeps p (update_tracked key (count_present seq) p)"
      by (intro policy_keeps_tracked) (auto simp: count_present_def observes_self_def)
    with s show ?thesis by (blast intro: policy_keeps_trans)
  qed
  then show ?thesis
    by (auto simp: before_present_enter_def split: option.splits prod.splits)
qed

section \<open>Runs of the manager\<close>

lemma track_tracked_inv:
  assumes inv: "tracked_inv p" and room: "ps_next_swap_chain_id p \<noteq> - 1"
  shows "tracked_inv (fst (track_swap_chain key iface p))"
proof (cases "map_of (ps_tracked p) key")
  case (Some t)
  then show ?thesis using inv by (simp add: track_swap_chain_def)
next
  case None
  let ?n = "ps_next_swap_chain_id p"
  have lt: "?n < saturating_add ?n 1" by (rule saturating_add_strict [OF room])
  have old: "\<forall>k t. map_of (ps_tracked p) k = Some t \<longrightarrow> tk_id t < ?n"
    using inv by (auto simp: tracked_inv_def)
  then have ne: "\<forall>k t. map_of (ps_tracked p) k = Some t \<longrightarrow> tk_id t \<noteq> ?n"
    by (metis order_less_irrefl)
  with None inv lt old show ?thesis
    by (auto simp: tracked_inv_def track_swap_chain_def Let_def observes_self_def
        intro: less_trans split: if_splits) (metis order_less_irrefl)
qed

definition manager_inv :: "nat \<Rightarrow> manager \<Rightarrow> bool" where
  "manager_inv n m \<longleftrightarrow> registry_wf (ps_registry (mg_policy m)) \<and> tracked_inv (mg_policy m) \<and>
     unat (ps_next_swap_chain_id (mg_policy m)) \<le> n"

lemma manager_apply_registry:
  "registry_newer (ps_registry (mg_policy m)) (ps_registry (mg_policy (manager_apply op m)))"
proof (cases op)
  case (OpTrack key iface)
  then show ?thesis by (simp add: on_policy_def track_swap_chain_def Let_def split: option.split)
next
  case (OpPresentEnter key)
  then show ?thesis using keeps_enter [of m key] by (simp add: policy_keeps_def)
next
  case (OpPresentSample key i seq meth md)
  obtain m' r where "before_present_sample key i seq meth md m = (m', r)" by fastforce
  from keeps_sample [OF this] this OpPresentSample show ?thesis by (simp add: policy_keeps_def)
next
  case (OpInspectionFailed key i seq)
  then show ?thesis using keeps_inspection by (simp add: policy_keeps_def on_policy_def)
next
  case (OpPresentReturned key i seq disp)
  then show ?thesis using keeps_returned by (simp add: policy_keeps_def on_policy_def)
next
  case (OpResized key i seq)
  then show ?thesis using keeps_resized by (simp add: policy_keeps_def on_policy_def)
next
  case (OpColorSpace key c ok)
  then show ?thesis using keeps_color by (simp add: policy_keeps_def on_policy_def)
next
  case (OpOutcome i g stage seq ok)
  then show ?thesis using keeps_outcome by (simp add: policy_keeps_def on_policy_def)
qed (simp_all add: on_policy_def set_render_controls_def manager_set_expected_game_window_def Let_def)

lemma manager_apply_tracked:
  assumes "tracked_inv (mg_policy m)" and "ps_next_swap_chain_id (mg_policy m) \<noteq> - 1"
  shows "tracked_inv (mg_policy (manager_apply op m)) \<and>
    unat (ps_next_swap_chain_id (mg_policy (manager_apply op m))) \<le>
      Suc (unat (ps_next_swap_chain_id (mg_policy m)))"
proof (cases op)
  case (OpTrack key iface)
  then show ?thesis
    using track_tracked_inv [OF assms, of key iface]
    by (auto simp: on_policy_def track_swap_chain_def Let_def unat_saturating_add split: option.splits)
next
  case (OpPresentEnter key)
  then show ?thesis using keeps_enter [of m key] assms(1) by (simp add: policy_keeps_def)
next
  case (OpPresentSample key i seq meth md)
  obtain m' r where "before_present_sample key i seq meth md m = (m', r)" by fastforce
  from keeps_sample [OF this] this OpPresentSample assms(1) show ?thesis
    by (simp add: policy_keeps_def)
next
  case (OpInspectionFailed key i seq)
  then show ?thesis
    using keeps_inspection [of "mg_policy m"] assms(1) by (simp add: policy_keeps_def on_policy_def)
next
  case (OpPresentReturned key i seq disp)
  then show ?thesis
    using keeps_returned [of "mg_policy m"] assms(1) by (simp add: policy_keeps_def on_policy_def)
next
  case (OpResized key i seq)
  then show ?thesis
    using keeps_resized [of "mg_policy m"] assms(1) by (simp add: policy_keeps_def on_policy_def)
next
  case (OpColorSpace key c ok)
  then show ?thesis
    using keeps_color [of "mg_policy m"] assms(1) by (simp add: policy_keeps_def on_policy_def)
next
  case (OpOutcome i g stage seq ok)
  then show ?thesis
    using keeps_outcome [of "mg_policy m"] assms(1) by (simp add: policy_keeps_def on_policy_def)
qed (use assms in \<open>simp_all add: on_policy_def set_render_controls_def tracked_inv_def
      manager_set_expected_game_window_def Let_def\<close>)

lemma manager_run_registry:
  "registry_newer (ps_registry (mg_policy m)) (ps_registry (mg_policy (manager_run ops m)))"
  by (induction ops arbitrary: m) (auto intro: registry_newer_trans manager_apply_registry)

lemma manager_run_inv:
  "manager_inv n m \<Longrightarrow> n + length ops < 2 ^ 64 - 1 \<Longrightarrow>
   manager_inv (n + length ops) (manager_run ops m)"
proof (induction ops arbitrary: m n)
  case (Cons op ops)
  have b: "unat (ps_next_swap_chain_id (mg_policy m)) \<le> n" "tracked_inv (mg_policy m)"
    using Cons.prems(1) by (simp_all add: manager_inv_def)
  then have "unat (ps_next_swap_chain_id (mg_policy m)) < 2 ^ 64 - 1" using Cons.prems(2) by linarith
  then have "ps_next_swap_chain_id (mg_policy m) \<noteq> - 1" by (auto simp: unat_max_word)
  from manager_apply_tracked [OF b(2) this, of op]
  have "manager_inv (Suc n) (manager_apply op m)"
    using Cons.prems(1) manager_apply_registry [of m op] b(1)
    by (auto simp: manager_inv_def registry_newer_def)
  from Cons.IH [OF this] Cons.prems(2) show ?case by simp
qed (simp add: manager_inv_def)

lemma manager_new_inv: "manager_inv 1 (manager_new c)"
  by (simp add: manager_inv_def manager_new_def policy_new_def tracked_inv_def)

lemma manager_reach_inv:
  "length ops < 2 ^ 64 - 2 \<Longrightarrow>
   tracked_inv (mg_policy (manager_run ops (manager_new c))) \<and>
   registry_wf (ps_registry (mg_policy (manager_run ops (manager_new c))))"
  using manager_run_inv [OF manager_new_inv, of ops c] by (simp add: manager_inv_def)

section \<open>The selected chain\<close>

lemma set_map_filter: "x \<in> set (List.map_filter f xs) \<longleftrightarrow> (\<exists>y \<in> set xs. f y = Some x)"
  by (induction xs) (auto simp: List.map_filter_simps split: option.splits)

lemma tracked_observations_mem:
  "x \<in> set (tracked_observations p) \<longleftrightarrow>
     (\<exists>u \<in> set (map snd (ps_tracked p)). tk_observation u = Some x)"
  unfolding tracked_observations_def by (rule set_map_filter)

text \<open>Distinct tracked identities: an observation is found by its identity.\<close>

lemma observed_unique:
  assumes inv: "tracked_inv p" and t: "map_of (ps_tracked p) key = Some t" "tk_observation t = Some ob"
    and x: "x \<in> set (tracked_observations p)" "so_id x = tk_id t"
  shows "x = ob"
proof -
  obtain u where u: "u \<in> set (map snd (ps_tracked p))" "tk_observation u = Some x"
    using x(1) unfolding tracked_observations_mem by blast
  then obtain k where k: "map_of (ps_tracked p) k = Some u"
    using bt_values_get [of "ps_tracked p" u] inv by (auto simp: tracked_inv_def)
  have "so_id x = tk_id u" using inv k u(2) by (auto simp: tracked_inv_def observes_self_def)
  with x(2) have "k = key" using inv k t(1) by (auto simp: tracked_inv_def)
  with k t u(2) show ?thesis by simp
qed

lemma tracked_observation_last:
  assumes inv: "tracked_inv p" and t: "map_of (ps_tracked p) key = Some t" "tk_observation t = Some ob"
  shows "last_observation (tracked_observations p) (tk_id t) = Some ob"
proof -
  have only: "x = ob" if "x \<in> set (tracked_observations p)" "so_id x = tk_id t" for x
    by (rule observed_unique [OF inv t that])
  have "t \<in> set (map snd (ps_tracked p))"
    using t(1) bt_values_get [of "ps_tracked p" t] inv by (auto simp: tracked_inv_def)
  then have mem: "ob \<in> set (tracked_observations p)"
    using t(2) unfolding tracked_observations_mem by blast
  have "so_id ob = tk_id t" using inv t by (auto simp: tracked_inv_def observes_self_def)
  then obtain x where "find (\<lambda>ob. so_id ob = tk_id t) (rev (tracked_observations p)) = Some x"
    using mem by (cases "find (\<lambda>ob. so_id ob = tk_id t) (rev (tracked_observations p))")
      (auto simp: find_None_iff)
  then show ?thesis using only by (auto simp: last_observation_def dest: find_Some_iff_in)
qed

lemma reconciled_session:
  assumes "registry_wf (ps_registry p)"
    and "last_observation (tracked_observations p) i = Some ob"
  shows "\<exists>s. registry_get (ps_registry (reconciled seq p)) i = Some s \<and> ss_observation s = ob \<and>
    ss_lifecycle s = target_lifecycle (cl_selected (snd (selection_of seq p))) i"
proof -
  have "registry_get (ps_registry (reconciled seq p)) i =
      fst (reconcile_one (rg_failure_policy (ps_registry p)) (cl_selected (snd (selection_of seq p))) i
        (Some ob) (registry_get (ps_registry p) i))"
    using reconcile_pointwise(1) [OF assms(1) prod.collapse [symmetric], of "tracked_observations p"
        "cl_selected (snd (selection_of seq p))" i] assms(2)
    by (auto simp: reconciled_def) (metis fst_conv)
  then show ?thesis
    by (cases "registry_get (ps_registry p) i")
      (auto simp: reconcile_one_def apfst_pair session_update_def session_discover_def Let_def)
qed

lemma render_granted:
  assumes "reconcile_render_selection presenting seq p = (p', tr)"
    and "tr_render tr = Some (g, stage, why)"
  shows "\<exists>i. presenting = Some i \<and> cl_selected (snd (selection_of seq p)) = Some i \<and>
    permits (ps_render_controls p) RenderProbe \<and> stage = effective_stage (ps_render_controls p) \<and>
    p' = fst (permit_render i stage seq (reconciled seq p)) \<and>
    snd (permit_render i stage seq (reconciled seq p)) = Some g"
  using assms
  unfolding reconcile_render_selection_def selection_of_def reconciled_def
  by (auto simp: Let_def split: option.splits prod.splits if_splits)

lemma classify_current: "cf_current (fst (classify_with_latest k obs latest)) =
    cl_selected (snd (classify_with_latest k obs latest))"
  by (auto simp: classify_with_latest_def Let_def classification_selected_def classification_none_def
      split: override_status.splits list.splits)

text \<open>A granted ticket and the session it is for.\<close>

lemma granted_session:
  assumes wf: "registry_wf (ps_registry p)"
    and last: "last_observation (tracked_observations p) i = Some ob"
    and r: "reconcile_render_selection (Some i) seq p = (p', tr)"
    and tr: "tr_render tr = Some (g, stage, why)"
  shows "\<exists>s. registry_get (ps_registry p') i = Some s \<and> ss_observation s = ob \<and>
    ss_generation s = g \<and> ss_lifecycle s = Primary"
    and "cf_current (ps_classifier p') = Some i"
    and "permits (ps_render_controls p') RenderProbe"
    and "effective_stage (ps_render_controls p') = stage"
    and "ps_tracked p' = ps_tracked p"
proof -
  from render_granted [OF r tr] have g: "cl_selected (snd (selection_of seq p)) = Some i"
    "permits (ps_render_controls p) RenderProbe" "stage = effective_stage (ps_render_controls p)"
    "p' = fst (permit_render i stage seq (reconciled seq p))"
    "snd (permit_render i stage seq (reconciled seq p)) = Some g" by auto
  obtain s where s: "registry_get (ps_registry (reconciled seq p)) i = Some s" "ss_observation s = ob"
    "ss_lifecycle s = Primary"
    using reconciled_session [OF wf last, of seq] g(1) by (auto simp: target_lifecycle_def)
  from permit_render_effect(2) [OF g(5)] s(1) obtain f where
    "ss_generation s = g" "registry_get (ps_registry p') i = Some (s\<lparr>ss_failures := f\<rparr>)"
    using g(4) by auto
  with s show "\<exists>s. registry_get (ps_registry p') i = Some s \<and> ss_observation s = ob \<and>
    ss_generation s = g \<and> ss_lifecycle s = Primary" by auto
  note e = reconcile_newer_registry [OF r]
  show "cf_current (ps_classifier p') = Some i"
    using e(5) g(1) by (simp add: selection_of_def classify_current)
  show "permits (ps_render_controls p') RenderProbe"
    "effective_stage (ps_render_controls p') = stage" "ps_tracked p' = ps_tracked p"
    using e g by simp_all
qed

section \<open>Properties\<close>

text \<open>The second section of \<open>before_present\<close>, taken apart.\<close>

lemma sample_ticket:
  assumes inv: "tracked_inv (mg_policy m)" "registry_wf (ps_registry (mg_policy m))"
    and r: "before_present_sample key i seq meth md m = (m1, Some (tr, Some t, ret))"
  shows "rt_key t = key \<and> rt_id t = i \<and> rt_sequence t = seq"
    and "\<exists>s. registry_get (ps_registry (mg_policy m1)) i = Some s \<and> ss_lifecycle s = Primary \<and>
      ss_generation s = rt_generation t \<and> so_hwnd (ss_observation s) = md_hwnd md \<and>
      so_adapter_luid (ss_observation s) = md_adapter_luid md \<and>
      so_format (ss_observation s) = md_format md \<and> so_size (ss_observation s) = md_size md"
    and "permits_render_ticket (mg_policy m1) t"
proof -
  let ?p = "mg_policy m"
  have cur: "\<not> mg_closing m" "is_current_present ?p key i seq"
    using r by (auto simp: before_present_sample_def Let_def split: if_splits)
  obtain p1 d where d: "policy_device_id (md_device_identity md) ?p = (p1, d)" by fastforce
  have t1: "ps_tracked p1 = ps_tracked ?p"
    using d by (auto simp: policy_device_id_def Let_def split: option.splits)
  obtain u where u: "map_of (ps_tracked p1) key = Some u" "tk_id u = i"
    "last_present_sequence (tk_activity u) = seq"
    using cur(2) t1 by (auto simp: is_current_present_def split: option.splits)
  define p2 where "p2 = update_tracked key (sample_tracked i d meth md) p1"
  have k2: "policy_keeps ?p p2"
    using u policy_keeps_trans [OF keeps_device [OF d]
        policy_keeps_tracked [of p1 key "sample_tracked i d meth md"]]
    by (auto simp: p2_def sample_tracked_def Let_def observes_self_def)
  obtain p3 tr3 where r3: "reconcile_render_selection (Some i) (ps_sequence p2) p2 = (p3, tr3)"
    by fastforce
  obtain p4 n where n4: "next_selection_sequence p3 = (p4, n)" by fastforce
  have p4: "ps_registry p4 = ps_registry p3" "ps_classifier p4 = ps_classifier p3"
    "ps_tracked p4 = ps_tracked p3" "ps_render_controls p4 = ps_render_controls p3"
    using n4 by (auto simp: next_selection_sequence_def Let_def)
  have m1: "mg_policy m1 = p4" "tr = tr3"
    and t: "Some t = map_option (\<lambda>r. \<lparr>rt_key = key, rt_id = i, rt_method = meth,
         rt_sequence = seq, rt_generation = fst r, rt_stage = fst (snd r),
         rt_reason = snd (snd r), rt_transition_sequence = n\<rparr>) (tr_render tr3)"
    using r cur d u(1) r3 n4 by (auto simp: before_present_sample_def Let_def p2_def)
  then obtain g stage why where g: "tr_render tr3 = Some (g, stage, why)" "rt_generation t = g"
    "rt_stage t = stage" "rt_key t = key" "rt_id t = i" "rt_sequence t = seq"
    by (cases "tr_render tr3") auto
  then show "rt_key t = key \<and> rt_id t = i \<and> rt_sequence t = seq" by simp
  have u2: "map_of (ps_tracked p2) key = Some (sample_tracked i d meth md u)"
    using u(1) by (simp add: p2_def update_tracked_def)
  have tr2: "tracked_inv p2" and wf2: "registry_wf (ps_registry p2)"
    using k2 inv by (auto simp: policy_keeps_def registry_newer_def)
  let ?ob = "the (tk_observation (sample_tracked i d meth md u))"
  have ob: "tk_observation (sample_tracked i d meth md u) = Some ?ob"
    "tk_id (sample_tracked i d meth md u) = i"
    "so_hwnd ?ob = md_hwnd md" "so_adapter_luid ?ob = md_adapter_luid md"
    "so_format ?ob = md_format md" "so_size ?ob = md_size md"
    "last_present_sequence (tk_activity (sample_tracked i d meth md u)) = seq"
    using u by (simp_all add: sample_tracked_def Let_def)
  have last: "last_observation (tracked_observations p2) i = Some ?ob"
    using tracked_observation_last [OF tr2 u2 ob(1)] ob(2) by simp
  note gs = granted_session [OF wf2 last r3 g(1)]
  show "\<exists>s. registry_get (ps_registry (mg_policy m1)) i = Some s \<and> ss_lifecycle s = Primary \<and>
      ss_generation s = rt_generation t \<and> so_hwnd (ss_observation s) = md_hwnd md \<and>
      so_adapter_luid (ss_observation s) = md_adapter_luid md \<and>
      so_format (ss_observation s) = md_format md \<and> so_size (ss_observation s) = md_size md"
    using gs(1) ob(3-6) g m1 p4 by auto
  have "is_current_present p4 key i seq"
    using gs(5) p4 u2 ob(2,7) by (simp add: is_current_present_def)
  then show "permits_render_ticket (mg_policy m1) t"
    using gs g m1 p4 by (auto simp: permits_render_ticket_def)
qed

text \<open>
  C4. A render ticket is valid when it is issued, and a ticket that is still permitted is for
  the surface it was sampled for. Whatever any thread does in between (presentations,
  resizes, color space and device changes, retirements, new chains, outcomes, new controls),
  if the ticket passes the check again then its chain is the current primary at the ticket's
  stage and presentation, and its window, adapter, format and size are those sampled when the
  ticket was issued.
\<close>
theorem ticket_is_for_its_surface:
  assumes "length ops1 < 2 ^ 64 - 2"
    and "before_present_sample key i seq meth md (manager_run ops1 (manager_new c)) =
      (m1, Some (tr, Some t, ret))"
    and "permits_render_ticket (mg_policy (manager_run ops2 m1)) t" and "rt_generation t \<noteq> - 1"
  shows "permits_render_ticket (mg_policy m1) t \<and>
    (\<exists>s. registry_get (ps_registry (mg_policy (manager_run ops2 m1))) i = Some s \<and>
      ss_lifecycle s = Primary \<and> cf_current (ps_classifier (mg_policy (manager_run ops2 m1))) = Some i \<and>
      is_current_present (mg_policy (manager_run ops2 m1)) key i seq \<and>
      so_hwnd (ss_observation s) = md_hwnd md \<and> so_adapter_luid (ss_observation s) = md_adapter_luid md \<and>
      so_format (ss_observation s) = md_format md \<and> so_size (ss_observation s) = md_size md)"
proof -
  let ?m = "manager_run ops1 (manager_new c)" and ?r2 = "ps_registry (mg_policy (manager_run ops2 m1))"
  have inv: "tracked_inv (mg_policy ?m)" "registry_wf (ps_registry (mg_policy ?m))"
    using manager_reach_inv [OF assms(1)] by simp_all
  note s = sample_ticket [OF inv assms(2)]
  obtain s1 where s1: "registry_get (ps_registry (mg_policy m1)) i = Some s1"
    "ss_generation s1 = rt_generation t" "so_hwnd (ss_observation s1) = md_hwnd md"
    "so_adapter_luid (ss_observation s1) = md_adapter_luid md"
    "so_format (ss_observation s1) = md_format md" "so_size (ss_observation s1) = md_size md"
    using s(2) by auto
  have wf1: "registry_wf (ps_registry (mg_policy m1))"
    using keeps_sample [OF assms(2)] inv by (auto simp: policy_keeps_def registry_newer_def)
  obtain s2 where s2: "registry_get ?r2 i = Some s2" "session_newer s1 s2"
    using manager_run_registry [of m1 ops2] wf1 s1(1) by (auto simp: registry_newer_def)
  from assms(3) s(1) s2(1) have p: "ss_generation s2 = rt_generation t" "ss_lifecycle s2 = Primary"
    "cf_current (ps_classifier (mg_policy (manager_run ops2 m1))) = Some i"
    "is_current_present (mg_policy (manager_run ops2 m1)) key i seq"
    by (auto simp: permits_render_ticket_def split: option.splits)
  have "surface_of (ss_observation s2) = surface_of (ss_observation s1)"
    using s2(2) p(1) s1(2) assms(4) by (auto simp: session_newer_def)
  then show ?thesis using s(3) s1 s2(1) p by (auto simp: surface_of_def)
qed

definition demo_config :: dxgi_config where
  "demo_config = \<lparr>dc_render_controls = render_controls_default,
     dc_classifier = classifier_config_default, dc_failure_policy = failure_policy_default\<rparr>"

definition demo_metadata :: chain_metadata where
  "demo_metadata = \<lparr>md_device_identity = 500, md_window_visible = True, md_foreground = True,
     md_hwnd = Some 77, md_adapter_luid = \<lparr>low_part = 1, high_part = 0\<rparr>,
     md_format = Rgba8Unorm, md_size = \<lparr>width = 800, height = 600\<rparr>\<rparr>"

definition demo_manager :: manager where
  "demo_manager = manager_run [OpTrack 9 IfaceV4, OpPresentEnter 9] (manager_new demo_config)"

lemmas policy_eval = demo_config_def render_controls_default_def manager_new_def policy_new_def
  session_registry_new_def on_policy_def track_swap_chain_def Let_def before_present_enter_def
  next_present_sequence_def checked_add_def count_present_def update_tracked_def bt_update_def
  saturating_add_def saturating_sub_def activity_default_def unknown_color_space_def
  is_current_present_def policy_device_id_def sample_tracked_def demo_metadata_def
  reconcile_render_selection_def tracked_observations_def List.map_filter_simps
  renderable_observations_def renderable_step_def registry_get_def effective_stage_def
  classifier_new_def classifier_config_default_def classifier_config_new_def
  classify_with_latest_def try_override_def freshness_reference_def latest_present_def
  rejection_of_def is_zero_extent_def matches_expected_window_def classification_selected_def
  classification_none_def resolved_from_classification_def deferred_from_classification_def
  deferred_from_override_suppression_def reconcile_def snapshot_of_def target_lifecycle_def
  session_discover_def permits_def permit_render_def permission_def failure_controller_new_def
  update_session_def next_selection_sequence_def gate_open_def generation_first_def

lemma demo_manager_eval:
  "demo_manager = \<lparr>mg_policy = \<lparr>ps_next_swap_chain_id = 2, ps_next_device_id = 1, ps_sequence = 1,
      ps_selection_sequence = 0,
      ps_tracked = [(9, \<lparr>tk_id = 1, tk_interface = IfaceV4,
         tk_activity = \<lparr>present_count = 1, last_present_sequence = 1, consecutive_present_cycles = 1,
           window_visible = True, foreground = False, occluded = False\<rparr>,
         tk_observation = None, tk_color_space = OtherSpace (- 1), tk_color_space_reported = True\<rparr>)],
      ps_devices = [], ps_classifier = classifier_new classifier_config_default,
      ps_registry = session_registry_new failure_policy_default,
      ps_render_controls = render_controls_default\<rparr>, mg_closing = False, mg_gate = gate_open\<rparr>"
  by (simp add: demo_manager_def demo_config_def manager_new_def policy_new_def on_policy_def
      track_swap_chain_def Let_def before_present_enter_def next_present_sequence_def
      checked_add_def count_present_def update_tracked_def bt_update_def saturating_add_def
      activity_default_def unknown_color_space_def)

text \<open>The ticket of the first presentation, and another chain attached meanwhile.\<close>

definition demo_sampled ::
  "manager \<times> (selection_transition \<times> render_ticket option \<times> swap_chain_retirement option) option"
where
  "demo_sampled = before_present_sample 9 1 1 Present demo_metadata demo_manager"

definition demo_ticket :: render_ticket where
  "demo_ticket = \<lparr>rt_key = 9, rt_id = 1, rt_method = Present, rt_sequence = 1, rt_generation = 1,
     rt_stage = Addons, rt_reason = OnlyEligibleCandidate, rt_transition_sequence = 1\<rparr>"

lemma demo_sampled_ticket:
  "\<exists>m1 tr. demo_sampled = (m1, Some (tr, Some demo_ticket, None)) \<and>
     permits_render_ticket (mg_policy (manager_run [OpTrack 12 IfaceV1] m1)) demo_ticket"
  unfolding demo_sampled_def demo_manager_eval before_present_sample_def
  by (simp add: policy_eval demo_ticket_def permits_render_ticket_def)

theorem ticket_is_for_its_surface_witness:
  "permits_render_ticket (mg_policy (fst demo_sampled)) demo_ticket \<and>
   (\<exists>s. registry_get (ps_registry (mg_policy
        (manager_run [OpTrack 12 IfaceV1] (fst demo_sampled)))) 1 = Some s \<and>
      so_size (ss_observation s) = \<lparr>width = 800, height = 600\<rparr>)"
proof -
  obtain m1 tr where d: "demo_sampled = (m1, Some (tr, Some demo_ticket, None))"
    "permits_render_ticket (mg_policy (manager_run [OpTrack 12 IfaceV1] m1)) demo_ticket"
    using demo_sampled_ticket by blast
  have "before_present_sample 9 1 1 Present demo_metadata
      (manager_run [OpTrack 9 IfaceV4, OpPresentEnter 9] (manager_new demo_config)) =
      (m1, Some (tr, Some demo_ticket, None))"
    using d(1) by (simp add: demo_sampled_def demo_manager_def)
  from ticket_is_for_its_surface [OF _ this d(2)]
  have "permits_render_ticket (mg_policy m1) demo_ticket \<and>
    (\<exists>s. registry_get (ps_registry (mg_policy (manager_run [OpTrack 12 IfaceV1] m1))) 1 = Some s \<and>
      so_size (ss_observation s) = md_size demo_metadata)"
    by (auto simp: demo_ticket_def)
  moreover have "fst demo_sampled = m1" using arg_cong [OF d(1), of fst] unfolding fst_conv .
  ultimately show ?thesis by (simp only: demo_metadata_def chain_metadata.simps)
qed

end
