(* ===== verification/Dxgi_Reports.thy ===== *)
theory Dxgi_Reports
  imports Dxgi_Tickets
begin

text \<open>
  What a reconciliation of the DXGI policy reports, and which chains it may select.
\<close>

lemma classify_reports:
  "(cl_selected (snd (classify_with_latest k obs latest)) \<noteq> None \<longleftrightarrow>
      cl_selection_reason (snd (classify_with_latest k obs latest)) \<noteq> None) \<and>
   (cl_selected (snd (classify_with_latest k obs latest)) = None \<longleftrightarrow>
      cl_no_selection_reason (snd (classify_with_latest k obs latest)) \<noteq> None) \<and>
   (cl_selected (snd (classify_with_latest k obs latest)) = None \<longrightarrow>
      \<not> is_applied (cl_override_status (snd (classify_with_latest k obs latest))))"
  by (auto simp: classify_with_latest_def Let_def classification_selected_def is_applied_def
      classification_none_def split: override_status.splits list.splits)

lemma transition_fields:
  assumes "reconcile_render_selection presenting seq p = (p', tr)"
  shows "let rs = renderable_observations p (tracked_observations p)
        (effective_stage (ps_render_controls p)) seq
    in tr_resolved tr =
         resolved_from_classification (snd (selection_of seq p)) (rs_override_suppression rs) \<and>
       tr_deferred tr = deferred_from_classification (snd (selection_of seq p))
         (rs_has_cooling_down rs) (rs_has_disabled rs) (rs_override_suppression rs)"
  using assms unfolding reconcile_render_selection_def selection_of_def
  by (auto simp: Let_def split: option.splits prod.splits if_splits)

text \<open>
  Every reconciliation reports exactly one of a resolved and a deferred selection, and a
  resolved one exactly when a primary was selected; the classifier and the registry then
  agree on the primary.
\<close>
theorem selection_reports_once:
  assumes "reconcile_render_selection presenting seq p = (p', tr)"
  shows "(tr_resolved tr \<noteq> None \<longleftrightarrow> cf_current (ps_classifier p') \<noteq> None) \<and>
    (tr_deferred tr \<noteq> None \<longleftrightarrow> cf_current (ps_classifier p') = None)"
proof -
  obtain s c d where tr: "tr_resolved tr = resolved_from_classification (snd (selection_of seq p)) s"
    "tr_deferred tr = deferred_from_classification (snd (selection_of seq p)) c d s"
    using transition_fields [OF assms] by (auto simp: Let_def)
  have cur: "cf_current (ps_classifier p') = cl_selected (snd (selection_of seq p))"
    using reconcile_newer_registry(5) [OF assms] by (simp add: selection_of_def classify_current)
  show ?thesis
    unfolding tr cur
    using classify_reports [of "ps_classifier p"
        "rs_observations (renderable_observations p (tracked_observations p)
          (effective_stage (ps_render_controls p)) seq)" "latest_present p seq", folded selection_of_def]
    by (auto simp: resolved_from_classification_def deferred_from_classification_def deferred_cases
        split: option.splits)
qed

theorem selection_reports_once_witness:
  "\<exists>d. tr_deferred (snd (reconcile_render_selection None 0 (policy_new demo_config))) = Some d"
proof -
  have "cf_current (ps_classifier (fst (reconcile_render_selection None 0 (policy_new demo_config)))) = None"
    by (simp add: policy_eval)
  then show ?thesis
    using selection_reports_once [OF prod.collapse [symmetric], of None 0 "policy_new demo_config"]
    by auto
qed

definition stage_suppressed :: "stage_failure_state \<Rightarrow> u64 \<Rightarrow> bool" where
  "stage_suppressed st seq =
     (case st of StateHealthy _ _ \<Rightarrow> False | StateCoolingDown at _ \<Rightarrow> seq < at | StateDisabled _ \<Rightarrow> True)"

definition withheld :: "policy_state \<Rightarrow> render_stage \<Rightarrow> u64 \<Rightarrow> swap_chain_observation \<Rightarrow> bool" where
  "withheld p stage seq ob =
     (case registry_get (ps_registry p) (so_id ob) of
        None \<Rightarrow> False
      | Some s \<Rightarrow> same_render_generation s ob \<and> stage_suppressed (stage_state (ss_failures s) stage) seq)"

lemma renderable_filter:
  "rs_observations (renderable_observations p obs stage seq) = filter (\<lambda>ob. \<not> withheld p stage seq ob) obs"
proof -
  have step: "rs_observations (renderable_step p stage seq ob r) =
      rs_observations r @ (if withheld p stage seq ob then [] else [ob])" for ob r
    by (auto simp: renderable_step_def withheld_def stage_suppressed_def Let_def
        split: option.splits stage_failure_state.splits)
  have "rs_observations (fold (renderable_step p stage seq) obs r) =
      rs_observations r @ filter (\<lambda>ob. \<not> withheld p stage seq ob) obs" for r
    by (induction obs arbitrary: r) (auto simp: step)
  then show ?thesis by (simp add: renderable_observations_def)
qed

lemma classify_selects_observed:
  "cl_selected (snd (classify_with_latest k obs latest)) = Some i \<Longrightarrow> \<exists>ob \<in> set obs. so_id ob = i"
proof -
  assume sel: "cl_selected (snd (classify_with_latest k obs latest)) = Some i"
  show ?thesis
  proof (cases "\<exists>j. try_override k obs = Applied j")
    case True
    then obtain j where j: "try_override k obs = Applied j" by blast
    with sel have "j = i"
      by (simp add: classify_with_latest_def Let_def classification_selected_def)
    with j show ?thesis
      by (auto simp: try_override_def split: option.splits if_splits dest: find_Some_iff_in)
  next
    case False
    then have na: "\<And>j. try_override k obs \<noteq> Applied j" by blast
    from classify_winner(2) [OF na prod.collapse [symmetric] sel] show ?thesis
      by (auto simp: eligible_of_def)
  qed
qed

text \<open>
  C25. The failure policy decides before the classifier does: a chain whose session is of the
  sampled surface and whose stage is disabled, or still cooling down, is neither selected nor
  given a ticket, whatever its window, size or activity and whatever the user override.
\<close>
theorem suppressed_chain_not_selected:
  assumes "tracked_inv p" and "map_of (ps_tracked p) key = Some t" and "tk_observation t = Some ob"
    and "registry_get (ps_registry p) (so_id ob) = Some s" and "same_render_generation s ob"
    and "stage_suppressed (stage_state (ss_failures s) (effective_stage (ps_render_controls p))) seq"
    and "reconcile_render_selection presenting seq p = (p', tr)"
  shows "cf_current (ps_classifier p') \<noteq> Some (so_id ob) \<and>
    (presenting = Some (so_id ob) \<longrightarrow> tr_render tr = None)"
proof -
  let ?obs = "filter (\<lambda>ob. \<not> withheld p (effective_stage (ps_render_controls p)) seq ob)
    (tracked_observations p)"
  have sel: "selection_of seq p = classify_with_latest (ps_classifier p) ?obs (latest_present p seq)"
    by (simp add: selection_of_def renderable_filter)
  have wh: "withheld p (effective_stage (ps_render_controls p)) seq ob"
    using assms(4-6) by (simp add: withheld_def)
  have idt: "tk_id t = so_id ob" using assms(1-3) by (auto simp: tracked_inv_def observes_self_def)
  have only: "x = ob" if "x \<in> set (tracked_observations p)" "so_id x = so_id ob" for x
    by (rule observed_unique [OF assms(1-3) that(1)]) (use that(2) idt in simp)
  have ne: "cl_selected (snd (selection_of seq p)) \<noteq> Some (so_id ob)"
  proof
    assume "cl_selected (snd (selection_of seq p)) = Some (so_id ob)"
    then obtain x where "x \<in> set ?obs" "so_id x = so_id ob"
      unfolding sel using classify_selects_observed by blast
    with only wh show False by auto
  qed
  then have "cf_current (ps_classifier p') \<noteq> Some (so_id ob)"
    using reconcile_newer_registry(5) [OF assms(7)] by (simp add: selection_of_def classify_current)
  moreover have "tr_render tr = None" if "presenting = Some (so_id ob)"
  proof (rule ccontr)
    assume "tr_render tr \<noteq> None"
    then obtain g stage why where "tr_render tr = Some (g, stage, why)" by (cases "tr_render tr") auto
    from render_granted [OF assms(7) this] that ne show False by simp
  qed
  ultimately show ?thesis by blast
qed

definition demo_suppressed_chain :: tracked_chain where
  "demo_suppressed_chain = \<lparr>tk_id = 1, tk_interface = IfaceV4, tk_activity = activity_active 5 10 2,
     tk_observation = Some (demo_chain 1 800 600), tk_color_space = Srgb, tk_color_space_reported = True\<rparr>"

definition demo_suppressed_session :: session where
  "demo_suppressed_session = \<lparr>ss_observation = demo_chain 1 800 600, ss_generation = 1,
     ss_lifecycle = Primary,
     ss_failures = \<lparr>fc_policy = failure_policy_default,
       fc_records = [(Addons, \<lparr>consecutive_failures = 0, cooldowns = 3, status = Disabled\<rparr>)]\<rparr>,
     ss_latest = []\<rparr>"

definition demo_suppressed :: policy_state where
  "demo_suppressed = (policy_new demo_config)
     \<lparr>ps_next_swap_chain_id := 2, ps_tracked := [(9, demo_suppressed_chain)],
      ps_classifier := (classifier_new (set_user_override (Some 1) classifier_config_default)),
      ps_registry := \<lparr>rg_sessions = [(1, demo_suppressed_session)],
        rg_failure_policy = failure_policy_default\<rparr>\<rparr>"

theorem suppressed_chain_not_selected_witness:
  "tr_render (snd (reconcile_render_selection (Some 1) 11 demo_suppressed)) = None"
proof -
  have "tracked_inv demo_suppressed"
    by (simp add: tracked_inv_def demo_suppressed_def demo_suppressed_chain_def demo_chain_def
        observes_self_def bt_wf_def)
  moreover have "map_of (ps_tracked demo_suppressed) 9 = Some demo_suppressed_chain"
    "tk_observation demo_suppressed_chain = Some (demo_chain 1 800 600)"
    "registry_get (ps_registry demo_suppressed) (so_id (demo_chain 1 800 600)) =
       Some demo_suppressed_session"
    "same_render_generation demo_suppressed_session (demo_chain 1 800 600)"
    "so_id (demo_chain 1 800 600) = 1"
    by (simp_all add: demo_suppressed_def demo_suppressed_chain_def demo_chain_def registry_get_def
        demo_suppressed_session_def same_render_generation_def)
  moreover have "stage_suppressed (stage_state (ss_failures demo_suppressed_session)
      (effective_stage (ps_render_controls demo_suppressed))) 11"
    by (simp add: demo_suppressed_session_def demo_suppressed_def policy_new_def demo_config_def
        render_controls_default_def effective_stage_def stage_state_def stage_record_of_def
        failure_state_of_def stage_suppressed_def)
  ultimately show ?thesis
    using suppressed_chain_not_selected [OF _ _ _ _ _ _ prod.collapse [symmetric],
        where p = demo_suppressed and key = 9 and presenting = "Some 1" and seq = 11] by auto
qed

end
