(* ===== verification/Dxgi_Retirement.thy ===== *)
theory Dxgi_Retirement
  imports Dxgi_Policy
begin

text \<open>
  Deferred retirements and the render lane (src/crates/nexus-dxgi/src/manager.rs:
  \<open>RenderLane\<close>, \<open>retire_or_defer\<close>, \<open>drain_deferred_retirements_in_lane\<close>,
  \<open>drain_deferred_retirements_if_available\<close>, \<open>finish_render_lane\<close>). The renderer is called
  only by the thread that owns the lane; a thread that does not own it queues the retirement.
  Threads are cut at every atomic access of the lane flag and at every section of the queue's
  mutex, and interleave freely.
\<close>

section \<open>The queue\<close>

type_synonym chain_generation = "swap_chain_id \<times> session_generation"
type_synonym retirement_queue = "(chain_generation, u64) btree"

text \<open>\<open>entry(..).and_modify(max).or_insert(..)\<close>: the newest cutoff of a generation wins.\<close>

definition enqueue_retirement :: "swap_chain_retirement \<Rightarrow> retirement_queue \<Rightarrow> retirement_queue" where
  "enqueue_retirement r q =
     (let k = (sr_id r, sr_generation r)
      in case map_of q k of
        None \<Rightarrow> bt_insert k (sr_sequence r) q
      | Some old \<Rightarrow> bt_update k (\<lambda>s. max s (sr_sequence r)) q)"

definition queued_retirements :: "retirement_queue \<Rightarrow> swap_chain_retirement list" where
  "queued_retirements q =
     map (\<lambda>p. \<lparr>sr_id = fst (fst p), sr_generation = snd (fst p), sr_sequence = snd p\<rparr>) q"

text \<open>\<open>retirement_covers d r\<close>: delivering \<open>d\<close> retires at least what \<open>r\<close> asked for.\<close>

definition retirement_covers :: "swap_chain_retirement \<Rightarrow> swap_chain_retirement \<Rightarrow> bool" where
  "retirement_covers d r \<longleftrightarrow>
     sr_id d = sr_id r \<and> sr_generation d = sr_generation r \<and> sr_sequence r \<le> sr_sequence d"

lemma enqueue_covers:
  "\<exists>d \<in> set (queued_retirements (enqueue_retirement r q)). retirement_covers d r"
proof -
  let ?k = "(sr_id r, sr_generation r)"
  obtain s where "map_of (enqueue_retirement r q) ?k = Some s" "sr_sequence r \<le> s"
    by (cases "map_of q ?k") (auto simp: enqueue_retirement_def)
  then show ?thesis
    by (force simp: queued_retirements_def retirement_covers_def dest: map_of_SomeD)
qed

lemma enqueue_keeps:
  assumes "bt_wf q" and "d \<in> set (queued_retirements q)"
  shows "\<exists>d' \<in> set (queued_retirements (enqueue_retirement r q)). retirement_covers d' d"
proof -
  obtain k s where d: "(k, s) \<in> set q" "sr_id d = fst k" "sr_generation d = snd k" "sr_sequence d = s"
    using assms(2) by (auto simp: queued_retirements_def)
  then have "map_of q k = Some s" using assms(1) bt_wf_distinct by fastforce
  then obtain s' where "map_of (enqueue_retirement r q) k = Some s'" "s \<le> s'"
    by (cases "map_of q (sr_id r, sr_generation r)";
        cases "k = (sr_id r, sr_generation r)") (auto simp: enqueue_retirement_def)
  then show ?thesis
    using d by (force simp: queued_retirements_def retirement_covers_def dest: map_of_SomeD)
qed

lemma enqueue_wf: "bt_wf q \<Longrightarrow> bt_wf (enqueue_retirement r q)"
  by (simp add: enqueue_retirement_def Let_def split: option.split)

section \<open>Threads\<close>

text \<open>
  \<open>Working\<close>: owns the lane inside a hook callback (it will call \<open>finish_render_lane\<close>);
  \<open>FinishDrain\<close>, \<open>FinishDrop\<close>: in its drain and about to drop the lease; \<open>TryLane\<close>: at the
  top of the loop of \<open>drain_deferred_retirements_if_available\<close>; \<open>LoopDrain\<close>, \<open>LoopDrop\<close>: that
  loop's drain and drop; \<open>LoopCheck\<close>: after the drop, about to look at the queue.
\<close>

datatype lane_pc = Idle | Working | FinishDrain | FinishDrop | TryLane | LoopDrain | LoopDrop | LoopCheck

record lane_world =
  lw_occupied :: bool
  lw_queue :: retirement_queue
  lw_pc :: "nat \<Rightarrow> lane_pc"
  lw_delivered :: "swap_chain_retirement list"

definition lane_init :: lane_world where
  "lane_init = \<lparr>lw_occupied = False, lw_queue = [], lw_pc = (\<lambda>_. Idle), lw_delivered = []\<rparr>"

definition goto :: "nat \<Rightarrow> lane_pc \<Rightarrow> lane_world \<Rightarrow> lane_world" where
  "goto i pc w = w\<lparr>lw_pc := (lw_pc w)(i := pc)\<rparr>"

text \<open>One round of the drain loop: take the whole queue and deliver it, or stop when empty.\<close>

definition drain_round_of :: "nat \<Rightarrow> lane_pc \<Rightarrow> lane_world \<Rightarrow> lane_world" where
  "drain_round_of i finished w =
     (if lw_queue w = [] then goto i finished w
      else w\<lparr>lw_queue := [], lw_delivered := lw_delivered w @ queued_retirements (lw_queue w)\<rparr>)"

inductive lane_step :: "nat \<Rightarrow> lane_world \<Rightarrow> lane_world \<Rightarrow> bool" for n where
  ls_enter: "i < n \<Longrightarrow> lw_pc w i = Idle \<Longrightarrow> \<not> lw_occupied w \<Longrightarrow>
     lane_step n w ((goto i Working w)\<lparr>lw_occupied := True\<rparr>)"
| ls_work_drain: "i < n \<Longrightarrow> lw_pc w i = Working \<Longrightarrow> lane_step n w (drain_round_of i Working w)"
| ls_work_deliver: "i < n \<Longrightarrow> lw_pc w i = Working \<Longrightarrow>
     lane_step n w (w\<lparr>lw_delivered := lw_delivered w @ [r]\<rparr>)"
| ls_finish: "i < n \<Longrightarrow> lw_pc w i = Working \<Longrightarrow> lane_step n w (goto i FinishDrain w)"
| ls_finish_drain: "i < n \<Longrightarrow> lw_pc w i = FinishDrain \<Longrightarrow>
     lane_step n w (drain_round_of i FinishDrop w)"
| ls_finish_drop: "i < n \<Longrightarrow> lw_pc w i = FinishDrop \<Longrightarrow>
     lane_step n w ((goto i TryLane w)\<lparr>lw_occupied := False\<rparr>)"
| ls_defer: "i < n \<Longrightarrow> lw_pc w i = Idle \<Longrightarrow>
     lane_step n w ((goto i TryLane w)\<lparr>lw_queue := enqueue_retirement r (lw_queue w)\<rparr>)"
| ls_try_busy: "i < n \<Longrightarrow> lw_pc w i = TryLane \<Longrightarrow> lw_occupied w \<Longrightarrow> lane_step n w (goto i Idle w)"
| ls_try_free: "i < n \<Longrightarrow> lw_pc w i = TryLane \<Longrightarrow> \<not> lw_occupied w \<Longrightarrow>
     lane_step n w ((goto i LoopDrain w)\<lparr>lw_occupied := True\<rparr>)"
| ls_loop_drain: "i < n \<Longrightarrow> lw_pc w i = LoopDrain \<Longrightarrow> lane_step n w (drain_round_of i LoopDrop w)"
| ls_loop_drop: "i < n \<Longrightarrow> lw_pc w i = LoopDrop \<Longrightarrow>
     lane_step n w ((goto i LoopCheck w)\<lparr>lw_occupied := False\<rparr>)"
| ls_loop_check: "i < n \<Longrightarrow> lw_pc w i = LoopCheck \<Longrightarrow>
     lane_step n w (goto i (if lw_queue w = [] then Idle else TryLane) w)"

section \<open>The invariant\<close>

definition holds_lane :: "lane_pc \<Rightarrow> bool" where
  "holds_lane pc \<longleftrightarrow> pc \<in> {Working, FinishDrain, FinishDrop, LoopDrain, LoopDrop}"

definition lane_inv :: "nat \<Rightarrow> lane_world \<Rightarrow> bool" where
  "lane_inv n w \<longleftrightarrow> bt_wf (lw_queue w) \<and> (\<forall>i \<ge> n. lw_pc w i = Idle) \<and>
     (\<forall>i j. holds_lane (lw_pc w i) \<longrightarrow> holds_lane (lw_pc w j) \<longrightarrow> i = j) \<and>
     (lw_occupied w \<longleftrightarrow> (\<exists>i. holds_lane (lw_pc w i))) \<and>
     (lw_queue w \<noteq> [] \<longrightarrow> (\<exists>i. lw_pc w i \<noteq> Idle))"

lemma goto_simps [simp]:
  "lw_pc (goto i pc w) = (lw_pc w)(i := pc)"
  "lw_occupied (goto i pc w) = lw_occupied w"
  "lw_queue (goto i pc w) = lw_queue w"
  "lw_delivered (goto i pc w) = lw_delivered w"
  by (simp_all add: goto_def)

lemma holds_lane_simps [simp]:
  "\<not> holds_lane Idle" "\<not> holds_lane TryLane" "\<not> holds_lane LoopCheck" "holds_lane Working"
  "holds_lane FinishDrain" "holds_lane FinishDrop" "holds_lane LoopDrain" "holds_lane LoopDrop"
  by (simp_all add: holds_lane_def)

text \<open>A thread moves between two places that agree on who owns the lane, takes it, drops it.\<close>

lemma lane_inv_move:
  assumes "lane_inv n w" and "i < n" and "lw_pc w' = (lw_pc w)(i := pc)"
    and "holds_lane pc \<longleftrightarrow> holds_lane (lw_pc w i)" and "lw_occupied w' = lw_occupied w"
    and "bt_wf (lw_queue w')"
    and "lw_queue w' \<noteq> [] \<Longrightarrow> \<exists>j. ((lw_pc w)(i := pc)) j \<noteq> Idle"
  shows "lane_inv n w'"
proof -
  have h: "holds_lane (((lw_pc w)(i := pc)) j) \<longleftrightarrow> holds_lane (lw_pc w j)" for j
    using assms(4) by simp
  have "\<forall>j \<ge> n. ((lw_pc w)(i := pc)) j = Idle" using assms(1,2) by (auto simp: lane_inv_def)
  then show ?thesis using assms(1,5,6,7) unfolding lane_inv_def assms(3) h by blast
qed

lemma lane_inv_take:
  assumes "lane_inv n w" and "i < n" and "lw_pc w' = (lw_pc w)(i := pc)" and "holds_lane pc"
    and "\<not> lw_occupied w" and "lw_occupied w'" and "lw_queue w' = lw_queue w"
  shows "lane_inv n w'"
proof -
  have none: "\<not> holds_lane (lw_pc w j)" for j using assms(1,5) by (auto simp: lane_inv_def)
  have "pc \<noteq> Idle" using assms(4) by auto
  with none show ?thesis
    using assms(1,2,4,6) unfolding lane_inv_def assms(3,7) by (auto split: if_splits)
qed

lemma lane_inv_drop:
  assumes "lane_inv n w" and "i < n" and "lw_pc w' = (lw_pc w)(i := pc)" and "\<not> holds_lane pc"
    and "pc \<noteq> Idle" and "holds_lane (lw_pc w i)" and "\<not> lw_occupied w'" and "lw_queue w' = lw_queue w"
  shows "lane_inv n w'"
proof -
  have "\<not> holds_lane (((lw_pc w)(i := pc)) j)" for j
    using assms(1,4,6) by (auto simp: lane_inv_def)
  with assms(1,2,5,7) show ?thesis unfolding lane_inv_def assms(3,8) by (auto split: if_splits)
qed

lemma lane_inv_drain:
  assumes "lane_inv n w" and "i < n" and "holds_lane pc" and "holds_lane (lw_pc w i)"
  shows "lane_inv n (drain_round_of i pc w)"
proof (cases "lw_queue w = []")
  case True
  then have eq: "drain_round_of i pc w = goto i pc w" by (simp add: drain_round_of_def)
  show ?thesis
    unfolding eq
    by (rule lane_inv_move [OF assms(1,2), of _ pc]) (use assms True in simp_all)
next
  case False
  then have eq: "drain_round_of i pc w = w\<lparr>lw_queue := [],
      lw_delivered := lw_delivered w @ queued_retirements (lw_queue w)\<rparr>"
    by (simp add: drain_round_of_def)
  show ?thesis
    unfolding eq
    by (rule lane_inv_move [OF assms(1,2), of _ "lw_pc w i"]) (use assms False in simp_all)
qed

lemma lane_step_inv: "lane_step n w w' \<Longrightarrow> lane_inv n w \<Longrightarrow> lane_inv n w'"
proof (induction rule: lane_step.induct)
  case (ls_enter i w)
  show ?case by (rule lane_inv_take [of n w i _ Working]) (use ls_enter in simp_all)
next
  case (ls_work_drain i w)
  show ?case by (rule lane_inv_drain) (use ls_work_drain in simp_all)
next
  case (ls_work_deliver i w r)
  show ?case
    by (rule lane_inv_move [of n w i _ Working])
      (use ls_work_deliver in \<open>auto simp: lane_inv_def fun_upd_idem\<close>)
next
  case (ls_finish i w)
  show ?case
    by (rule lane_inv_move [of n w i _ FinishDrain])
      (use ls_finish in \<open>auto simp: lane_inv_def\<close>)
next
  case (ls_finish_drain i w)
  show ?case by (rule lane_inv_drain) (use ls_finish_drain in simp_all)
next
  case (ls_finish_drop i w)
  show ?case by (rule lane_inv_drop [of n w i _ TryLane]) (use ls_finish_drop in simp_all)
next
  case (ls_defer i w r)
  show ?case
    by (rule lane_inv_move [of n w i _ TryLane])
      (use ls_defer in \<open>auto simp: lane_inv_def enqueue_wf\<close>)
next
  case (ls_try_busy i w)
  then obtain j where "holds_lane (lw_pc w j)" by (auto simp: lane_inv_def)
  with ls_try_busy have "j \<noteq> i" "lw_pc w j \<noteq> Idle" by auto
  show ?case
    by (rule lane_inv_move [of n w i _ Idle])
      (use ls_try_busy \<open>j \<noteq> i\<close> \<open>lw_pc w j \<noteq> Idle\<close> in \<open>auto simp: lane_inv_def\<close>)
next
  case (ls_try_free i w)
  show ?case by (rule lane_inv_take [of n w i _ LoopDrain]) (use ls_try_free in simp_all)
next
  case (ls_loop_drain i w)
  show ?case by (rule lane_inv_drain) (use ls_loop_drain in simp_all)
next
  case (ls_loop_drop i w)
  show ?case by (rule lane_inv_drop [of n w i _ LoopCheck]) (use ls_loop_drop in simp_all)
next
  case (ls_loop_check i w)
  show ?case
    by (rule lane_inv_move [of n w i _ "if lw_queue w = [] then Idle else TryLane"])
      (use ls_loop_check in \<open>auto simp: lane_inv_def\<close>)
qed

lemma lane_init_inv: "lane_inv n lane_init"
  by (simp add: lane_inv_def lane_init_def)

lemma lane_steps_inv: "(lane_step n)\<^sup>*\<^sup>* w w' \<Longrightarrow> lane_inv n w \<Longrightarrow> lane_inv n w'"
  by (induction rule: rtranclp_induct) (auto intro: lane_step_inv)

section \<open>Nothing is lost\<close>

definition accounted :: "lane_world \<Rightarrow> swap_chain_retirement \<Rightarrow> bool" where
  "accounted w r \<longleftrightarrow>
     (\<exists>d \<in> set (lw_delivered w) \<union> set (queued_retirements (lw_queue w)). retirement_covers d r)"

lemma retirement_covers_trans:
  "retirement_covers a b \<Longrightarrow> retirement_covers b c \<Longrightarrow> retirement_covers a c"
  by (auto simp: retirement_covers_def)

lemma accounted_drain: "accounted w r \<Longrightarrow> accounted (drain_round_of i pc w) r"
  by (auto simp: accounted_def drain_round_of_def)

lemma accounted_step: "lane_step n w w' \<Longrightarrow> bt_wf (lw_queue w) \<Longrightarrow> accounted w r \<Longrightarrow> accounted w' r"
proof (induction rule: lane_step.induct)
  case (ls_defer i w r')
  then show ?case
    using enqueue_keeps [of "lw_queue w" _ r'] retirement_covers_trans
    unfolding accounted_def by (simp, blast)
qed (auto simp: accounted_drain, auto simp: accounted_def)

lemma accounted_steps:
  "(lane_step n)\<^sup>*\<^sup>* w w' \<Longrightarrow> lane_inv n w \<Longrightarrow> accounted w r \<Longrightarrow> accounted w' r"
proof (induction rule: rtranclp_induct)
  case (step y z)
  have "lane_inv n y" by (rule lane_steps_inv [OF step.hyps(1) step.prems(1)])
  then have "bt_wf (lw_queue y)" by (simp add: lane_inv_def)
  with step accounted_step show ?case by blast
qed

text \<open>
  C13. A deferred retirement is never lost and never waits for a later frame. Whatever the
  threads do and however they interleave, the renderer is in one thread at a time, and once
  every thread has returned the queue is empty: each retirement that was ever deferred has
  been delivered, for its identity and generation, with at least its cutoff.
\<close>
theorem deferred_retirements_delivered:
  assumes "(lane_step n)\<^sup>*\<^sup>* lane_init w" and "i < n" and "lw_pc w i = Idle"
    and "(lane_step n)\<^sup>*\<^sup>*
      ((goto i TryLane w)\<lparr>lw_queue := enqueue_retirement r (lw_queue w)\<rparr>) w'"
  shows "(\<forall>j k. holds_lane (lw_pc w' j) \<longrightarrow> holds_lane (lw_pc w' k) \<longrightarrow> j = k) \<and>
    ((\<forall>j. lw_pc w' j = Idle) \<longrightarrow> lw_queue w' = [] \<and> \<not> lw_occupied w' \<and>
      (\<exists>d \<in> set (lw_delivered w'). retirement_covers d r))"
proof -
  let ?w1 = "(goto i TryLane w)\<lparr>lw_queue := enqueue_retirement r (lw_queue w)\<rparr>"
  have iw: "lane_inv n w" by (rule lane_steps_inv [OF assms(1) lane_init_inv])
  have i1: "lane_inv n ?w1" by (rule lane_step_inv [OF ls_defer [OF assms(2,3)] iw])
  have "accounted ?w1 r" using enqueue_covers [of r "lw_queue w"] by (auto simp: accounted_def)
  then have acc: "accounted w' r" by (rule accounted_steps [OF assms(4) i1])
  have i2: "lane_inv n w'" by (rule lane_steps_inv [OF assms(4) i1])
  have "lw_queue w' = [] \<and> \<not> lw_occupied w'" if "\<forall>j. lw_pc w' j = Idle"
    using i2 that by (auto simp: lane_inv_def)
  then show ?thesis using acc i2 by (auto simp: accounted_def lane_inv_def queued_retirements_def)
qed

text \<open>Thread 1 defers while thread 0 is between its last look at the queue and its release.\<close>

definition demo_race :: lane_world where
  "demo_race = \<lparr>lw_occupied = True, lw_queue = [], lw_pc = (\<lambda>_. Idle)(0 := FinishDrop),
     lw_delivered = []\<rparr>"

lemma demo_race_reached: "(lane_step 2)\<^sup>*\<^sup>* lane_init demo_race"
proof -
  let ?w1 = "(goto 0 Working lane_init)\<lparr>lw_occupied := True\<rparr>"
  have "lane_step 2 lane_init ?w1" by (rule ls_enter) (simp_all add: lane_init_def)
  moreover have "lane_step 2 ?w1 (goto 0 FinishDrain ?w1)" by (rule ls_finish) simp_all
  moreover have "lane_step 2 (goto 0 FinishDrain ?w1) demo_race"
  proof -
    have "demo_race = drain_round_of 0 FinishDrop (goto 0 FinishDrain ?w1)"
      by (simp add: demo_race_def drain_round_of_def goto_def lane_init_def)
    then show ?thesis using ls_finish_drain [of 0 2 "goto 0 FinishDrain ?w1"] by simp
  qed
  ultimately show ?thesis by (rule three_steps [where r = "lane_step 2"])
qed

theorem deferred_retirements_delivered_witness:
  "let r = \<lparr>sr_id = 4, sr_generation = 2, sr_sequence = 30\<rparr>;
       w1 = (goto 1 TryLane demo_race)\<lparr>lw_queue := enqueue_retirement r (lw_queue demo_race)\<rparr>;
       w2 = goto 1 Idle w1
   in lane_step 2 w1 w2 \<and> lw_queue w2 \<noteq> [] \<and>
      (\<nexists>j k. j \<noteq> k \<and> holds_lane (lw_pc w2 j) \<and> holds_lane (lw_pc w2 k))"
proof -
  let ?r = "\<lparr>sr_id = 4, sr_generation = 2, sr_sequence = 30\<rparr>"
  let ?w1 = "(goto 1 TryLane demo_race)\<lparr>lw_queue := enqueue_retirement ?r (lw_queue demo_race)\<rparr>"
  have st: "lane_step 2 ?w1 (goto 1 Idle ?w1)"
    by (rule ls_try_busy) (simp_all add: demo_race_def)
  have lt: "(1 :: nat) < 2" by simp
  have pc: "lw_pc demo_race 1 = Idle" by (simp add: demo_race_def)
  have q: "lw_queue (goto 1 Idle ?w1) \<noteq> []"
    by (simp add: demo_race_def enqueue_retirement_def)
  show ?thesis
    using deferred_retirements_delivered [OF demo_race_reached lt pc r_into_rtranclp [where r = "lane_step 2", OF st]] st q
    unfolding Let_def by blast
qed

end
