(* ===== verification/Text_Prelude.thy ===== *)
theory Text_Prelude
  imports Nexus_Prelude
begin

text \<open>
  The operations of Rust's \<open>str\<close> the parsers and formatters of the program use, on ASCII text
  (a \<open>string\<close> is a list of one-byte characters, so \<open>len\<close> is \<open>length\<close>), with the laws that
  relate joining to splitting and printing a number to reading it.
\<close>

named_theorems text_laws \<open>splitting, trimming and casing of ASCII text\<close>

section \<open>Characters\<close>

abbreviation code_of :: "char \<Rightarrow> nat" where
  "code_of c \<equiv> of_char c"

definition is_whitespace :: "char \<Rightarrow> bool" where
  "is_whitespace c \<longleftrightarrow> code_of c = 32 \<or> 9 \<le> code_of c \<and> code_of c \<le> 13"

definition ascii_upper_char :: "char \<Rightarrow> char" where
  "ascii_upper_char c =
     (if 97 \<le> code_of c \<and> code_of c \<le> 122 then char_of (code_of c - 32) else c)"

definition to_ascii_uppercase :: "string \<Rightarrow> string" where
  "to_ascii_uppercase s = map ascii_upper_char s"

definition eq_ignore_ascii_case :: "string \<Rightarrow> string \<Rightarrow> bool" where
  "eq_ignore_ascii_case s t \<longleftrightarrow> to_ascii_uppercase s = to_ascii_uppercase t"

lemma ascii_upper_idem [simp]: "ascii_upper_char (ascii_upper_char c) = ascii_upper_char c"
proof (cases "97 \<le> code_of c \<and> code_of c \<le> 122")
  case True
  then have "code_of c - 32 < (256 :: nat)" by linarith
  with True have "code_of (ascii_upper_char c) = code_of c - 32"
    by (simp add: ascii_upper_char_def)
  moreover have "\<not> 97 \<le> code_of c - 32" using True by linarith
  ultimately show ?thesis by (simp add: ascii_upper_char_def)
next
  case False
  then have "ascii_upper_char c = c" unfolding ascii_upper_char_def by (rule if_not_P)
  then show ?thesis by simp
qed

lemma uppercase_idem [text_laws, simp]:
  "to_ascii_uppercase (to_ascii_uppercase s) = to_ascii_uppercase s"
  by (simp add: to_ascii_uppercase_def)

lemma length_uppercase [simp]: "length (to_ascii_uppercase s) = length s"
  by (simp add: to_ascii_uppercase_def)

lemma uppercase_Nil_iff [simp]: "to_ascii_uppercase s = [] \<longleftrightarrow> s = []"
  by (simp add: to_ascii_uppercase_def)

section \<open>Trimming\<close>

definition trim_start :: "string \<Rightarrow> string" where
  "trim_start s = dropWhile is_whitespace s"

definition trim :: "string \<Rightarrow> string" where
  "trim s = rev (trim_start (rev (trim_start s)))"

text \<open>A text trimming leaves alone: empty, or without white space at either end.\<close>

definition tidy :: "string \<Rightarrow> bool" where
  "tidy s \<longleftrightarrow> s = [] \<or> \<not> is_whitespace (hd s) \<and> \<not> is_whitespace (last s)"

lemma trim_start_spaces: "\<forall>c \<in> set ws. is_whitespace c \<Longrightarrow> trim_start (ws @ s) = trim_start s"
  by (simp add: trim_start_def dropWhile_append2)

lemma trim_start_tidy: "tidy s \<Longrightarrow> trim_start s = s"
  by (cases s) (auto simp: tidy_def trim_start_def)

lemma trim_spaces:
  assumes "tidy s" and "s \<noteq> []" and "\<forall>c \<in> set pre. is_whitespace c"
    and "\<forall>c \<in> set post. is_whitespace c"
  shows "trim (pre @ s @ post) = s"
proof -
  from assms(1,2) obtain c s' where s: "s = c # s'" "\<not> is_whitespace c"
    by (cases s) (auto simp: tidy_def)
  have "trim_start (pre @ s @ post) = s @ post"
    using assms(3) s by (simp add: trim_start_spaces) (simp add: trim_start_def)
  moreover have "trim_start (rev post @ rev s) = rev s"
  proof -
    have "tidy (rev s)" using assms(1,2) by (auto simp: tidy_def hd_rev last_rev)
    then show ?thesis using assms(4) by (simp add: trim_start_spaces trim_start_tidy)
  qed
  ultimately show ?thesis by (simp add: trim_def)
qed

lemma trim_tidy [text_laws]: "tidy s \<Longrightarrow> trim s = s"
  using trim_spaces [of s "[]" "[]"] by (cases "s = []") (auto simp: trim_def trim_start_def)

section \<open>Splitting and joining\<close>

fun split_on :: "char \<Rightarrow> string \<Rightarrow> string list" where
  "split_on d [] = [[]]"
| "split_on d (c # s) =
     (if c = d then [] # split_on d s
      else (case split_on d s of p # ps \<Rightarrow> (c # p) # ps | [] \<Rightarrow> [[c]]))"

fun join_with :: "string \<Rightarrow> string list \<Rightarrow> string" where
  "join_with sep [] = []"
| "join_with sep [p] = p"
| "join_with sep (p # q # ps) = p @ sep @ join_with sep (q # ps)"

lemma split_on_not_Nil [simp]: "split_on d s \<noteq> []"
  by (cases s) (auto split: list.splits)

lemma split_on_append:
  "d \<notin> set p \<Longrightarrow> split_on d (p @ s) = (p @ hd (split_on d s)) # tl (split_on d s)"
  by (induction p) (auto split: list.splits simp: neq_Nil_conv)

lemma split_on_one [text_laws]: "d \<notin> set p \<Longrightarrow> split_on d p = [p]"
  using split_on_append [of d p "[]"] by simp

lemma split_on_delimited:
  "d \<notin> set p \<Longrightarrow> split_on d (p @ d # s) = p # split_on d s"
  by (simp add: split_on_append)

text \<open>
  Joining with a separator that is the delimiter between blanks, then splitting at the
  delimiter and trimming, gives the parts back.
\<close>

lemma split_trim_join:
  assumes "ps \<noteq> []" and "\<forall>p \<in> set ps. tidy p \<and> p \<noteq> [] \<and> d \<notin> set p"
    and "\<forall>c \<in> set pre. is_whitespace c \<and> c \<noteq> d" and "\<forall>c \<in> set post. is_whitespace c \<and> c \<noteq> d"
  shows "map trim (split_on d (join_with (pre @ d # post) ps)) = ps"
proof -
  have "\<forall>q. (\<forall>c \<in> set q. is_whitespace c \<and> c \<noteq> d) \<longrightarrow>
      map trim (split_on d (q @ join_with (pre @ d # post) ps)) = ps"
    using assms(1,2)
  proof (induction ps rule: induct_list012)
    case (2 p)
    show ?case
    proof (intro allI impI)
      fix q assume q: "\<forall>c \<in> set q. is_whitespace c \<and> c \<noteq> d"
      with 2 have "d \<notin> set (q @ p)" by auto
      then show "map trim (split_on d (q @ join_with (pre @ d # post) [p])) = [p]"
        using 2 q trim_spaces [of p q "[]"] by (simp add: split_on_one)
    qed
  next
    case (3 p q' ps)
    show ?case
    proof (intro allI impI)
      fix q assume q: "\<forall>c \<in> set q. is_whitespace c \<and> c \<noteq> d"
      let ?rest = "post @ join_with (pre @ d # post) (q' # ps)"
      have "d \<notin> set (q @ p @ pre)" using 3 q assms(3) by auto
      then have "split_on d ((q @ p @ pre) @ d # ?rest) = (q @ p @ pre) # split_on d ?rest"
        by (rule split_on_delimited)
      moreover have "trim (q @ p @ pre) = p"
        using 3 q assms(3) by (intro trim_spaces) auto
      moreover have "map trim (split_on d ?rest) = q' # ps"
        using 3 assms(4) by auto
      ultimately show "map trim (split_on d (q @ join_with (pre @ d # post) (p # q' # ps))) =
          p # q' # ps"
        by simp
    qed
  qed simp
  from this [rule_format, of "[]"] show ?thesis by simp
qed

lemma length_join_with:
  "length (join_with sep ps) \<le> sum_list (map length ps) + length sep * length ps"
  by (induction sep ps rule: join_with.induct) auto

definition strip_prefix :: "string \<Rightarrow> string \<Rightarrow> string option" where
  "strip_prefix pre s = (if take (length pre) s = pre then Some (drop (length pre) s) else None)"

lemma strip_prefix_append [simp]: "strip_prefix pre (pre @ s) = Some s"
  by (simp add: strip_prefix_def)

section \<open>Searching\<close>

definition ascii_lower_char :: "char \<Rightarrow> char" where
  "ascii_lower_char c =
     (if 65 \<le> code_of c \<and> code_of c \<le> 90 then char_of (code_of c + 32) else c)"

definition to_ascii_lowercase :: "string \<Rightarrow> string" where
  "to_ascii_lowercase s = map ascii_lower_char s"

definition is_control :: "char \<Rightarrow> bool" where
  "is_control c \<longleftrightarrow> code_of c < 32 \<or> code_of c = 127"

definition starts_with :: "string \<Rightarrow> string \<Rightarrow> bool" where
  "starts_with pre s \<longleftrightarrow> take (length pre) s = pre"

definition ends_with :: "string \<Rightarrow> string \<Rightarrow> bool" where
  "ends_with post s \<longleftrightarrow> starts_with (rev post) (rev s)"

text \<open>\<open>str::split_once(pat)\<close>: what is before and after the first occurrence of the pattern.\<close>

fun split_once :: "string \<Rightarrow> string \<Rightarrow> (string \<times> string) option" where
  "split_once pat [] = (if pat = [] then Some ([], []) else None)"
| "split_once pat (c # s) =
     (if starts_with pat (c # s) then Some ([], drop (length pat) (c # s))
      else map_option (\<lambda>(a, b). (c # a, b)) (split_once pat s))"

definition contains_text :: "string \<Rightarrow> string \<Rightarrow> bool" where
  "contains_text pat s \<longleftrightarrow> split_once pat s \<noteq> None"

lemma starts_with_append [simp]: "starts_with pre (pre @ s)"
  by (simp add: starts_with_def)

lemma starts_with_iff: "starts_with pre s \<longleftrightarrow> (\<exists>r. s = pre @ r)"
  by (auto simp: starts_with_def) (metis append_take_drop_id)

lemma ascii_lower_idem [simp]: "ascii_lower_char (ascii_lower_char c) = ascii_lower_char c"
proof (cases "65 \<le> code_of c \<and> code_of c \<le> 90")
  case True
  then have "code_of c + 32 < (256 :: nat)" by linarith
  with True have "code_of (ascii_lower_char c) = code_of c + 32"
    by (simp add: ascii_lower_char_def)
  moreover have "\<not> code_of c + 32 \<le> (90 :: nat)" using True by linarith
  ultimately show ?thesis by (simp add: ascii_lower_char_def)
next
  case False
  then have "ascii_lower_char c = c" unfolding ascii_lower_char_def by (rule if_not_P)
  then show ?thesis by simp
qed

lemma lowercase_idem [text_laws, simp]:
  "to_ascii_lowercase (to_ascii_lowercase s) = to_ascii_lowercase s"
  by (simp add: to_ascii_lowercase_def)

lemma split_once_Some: "split_once pat s = Some (a, b) \<Longrightarrow> s = a @ pat @ b"
proof (induction pat s arbitrary: a b rule: split_once.induct)
  case (1 pat)
  then show ?case by (simp split: if_splits)
next
  case (2 pat c s)
  show ?case
  proof (cases "starts_with pat (c # s)")
    case True
    with 2(2) have "a = []" "b = drop (length pat) (c # s)" by auto
    moreover have "pat = take (length pat) (c # s)" using True by (simp add: starts_with_def)
    ultimately show ?thesis using append_take_drop_id [of "length pat" "c # s"] by auto
  next
    case False
    with 2 show ?thesis by auto
  qed
qed

lemma contains_text_append: "contains_text pat s \<Longrightarrow> contains_text pat (s @ t)"
proof (induction pat s rule: split_once.induct)
  case (1 pat)
  then have "pat = []" by (simp add: contains_text_def split: if_splits)
  then show ?case by (cases t) (simp_all add: contains_text_def starts_with_def)
next
  case (2 pat c s)
  show ?case
  proof (cases "starts_with pat (c # s)")
    case True
    then obtain r where "c # s = pat @ r" by (auto simp: starts_with_iff)
    then have "(c # s) @ t = pat @ (r @ t)" by simp
    then have "starts_with pat ((c # s) @ t)" unfolding starts_with_iff by blast
    then show ?thesis by (simp add: contains_text_def)
  next
    case False
    with 2 show ?thesis by (auto simp: contains_text_def)
  qed
qed

text \<open>\<open>trim_matches(c)\<close> for one character.\<close>

definition trim_char :: "char \<Rightarrow> string \<Rightarrow> string" where
  "trim_char c s = rev (dropWhile ((=) c) (rev (dropWhile ((=) c) s)))"

section \<open>Well-formed UTF-8\<close>

definition utf8_cont :: "u8 \<Rightarrow> bool" where
  "utf8_cont b \<longleftrightarrow> 0x80 \<le> b \<and> b \<le> 0xBF"

text \<open>\<open>str::from_utf8\<close>: the byte sequences of table 3-7 of the Unicode standard.\<close>

definition utf8_second :: "u8 \<Rightarrow> u8 \<Rightarrow> bool" where
  "utf8_second b c \<longleftrightarrow>
     (if b = 0xE0 then 0xA0 \<le> c \<and> c \<le> 0xBF
      else if b = 0xED then 0x80 \<le> c \<and> c \<le> 0x9F
      else if b = 0xF0 then 0x90 \<le> c \<and> c \<le> 0xBF
      else if b = 0xF4 then 0x80 \<le> c \<and> c \<le> 0x8F
      else utf8_cont c)"

fun utf8_valid :: "u8 list \<Rightarrow> bool" where
  "utf8_valid [] = True"
| "utf8_valid (b # bs) =
     (if b < 0x80 then utf8_valid bs
      else if 0xC2 \<le> b \<and> b \<le> 0xDF then
        (case bs of c # r \<Rightarrow> utf8_cont c \<and> utf8_valid r | _ \<Rightarrow> False)
      else if 0xE0 \<le> b \<and> b \<le> 0xEF then
        (case bs of c # d # r \<Rightarrow> utf8_second b c \<and> utf8_cont d \<and> utf8_valid r | _ \<Rightarrow> False)
      else if 0xF0 \<le> b \<and> b \<le> 0xF4 then
        (case bs of c # d # e # r \<Rightarrow>
           utf8_second b c \<and> utf8_cont d \<and> utf8_cont e \<and> utf8_valid r | _ \<Rightarrow> False)
      else False)"

section \<open>Hexadecimal numbers\<close>

text \<open>\<open>char::to_digit(16)\<close> and the digits of \<open>{:X}\<close>.\<close>

definition hex_value :: "char \<Rightarrow> nat option" where
  "hex_value c =
     (let n = code_of c
      in if 48 \<le> n \<and> n \<le> 57 then Some (n - 48)
         else if 65 \<le> n \<and> n \<le> 70 then Some (n - 55)
         else if 97 \<le> n \<and> n \<le> 102 then Some (n - 87)
         else None)"

definition hex_digit :: "nat \<Rightarrow> char" where
  "hex_digit n = char_of (if n < 10 then n + 48 else n + 55)"

fun hex_number :: "nat \<Rightarrow> string \<Rightarrow> nat option" where
  "hex_number acc [] = Some acc"
| "hex_number acc (c # s) =
     (case hex_value c of None \<Rightarrow> None | Some v \<Rightarrow> hex_number (16 * acc + v) s)"

text \<open>
  \<open>u16::from_str_radix(s, 16)\<close>: an optional plus sign, then at least one digit, and the value
  must fit. (The library tests for overflow at each digit; a value that overflows on the way
  does not fit at the end, and both give an error.)
\<close>

definition from_str_radix_16 :: "string \<Rightarrow> u16 option" where
  "from_str_radix_16 s =
     (let digits = (case s of [] \<Rightarrow> [] | c # r \<Rightarrow> if c = CHR ''+'' then r else s)
      in if digits = [] then None
         else case hex_number 0 digits of
           None \<Rightarrow> None
         | Some n \<Rightarrow> if n < 2 ^ 16 then Some (of_nat n) else None)"

text \<open>\<open>{:04X}\<close> of a \<open>u16\<close>.\<close>

definition format_04X :: "u16 \<Rightarrow> string" where
  "format_04X w =
     (let n = unat w
      in map hex_digit [n div 4096, n div 256 mod 16, n div 16 mod 16, n mod 16])"

lemma hex_digit_code: "n < 16 \<Longrightarrow> code_of (hex_digit n) = (if n < 10 then n + 48 else n + 55)"
  by (simp add: hex_digit_def)

lemma hex_value_digit [simp]: "n < 16 \<Longrightarrow> hex_value (hex_digit n) = Some n"
  by (simp add: hex_value_def hex_digit_code)

lemma hex_digit_upper [simp]: "n < 16 \<Longrightarrow> ascii_upper_char (hex_digit n) = hex_digit n"
  by (simp add: ascii_upper_char_def hex_digit_code)

lemma hex_digit_plain: "n < 16 \<Longrightarrow> \<not> is_whitespace (hex_digit n) \<and> hex_digit n \<noteq> CHR ''+''"
proof -
  assume n: "n < 16"
  then have "48 \<le> code_of (hex_digit n)" by (simp add: hex_digit_code)
  moreover have "code_of (CHR ''+'') = (43 :: nat)" by simp
  ultimately show ?thesis by (auto simp: is_whitespace_def)
qed

lemma format_04X_digits:
  "\<exists>a b c d. format_04X w = map hex_digit [a, b, c, d] \<and> a < 16 \<and> b < 16 \<and> c < 16 \<and> d < 16 \<and>
     unat w = 4096 * a + 256 * b + 16 * c + d"
proof -
  have lt: "unat w < 65536" using unsigned_less [of w] by simp
  let ?n = "unat w"
  have "?n div 4096 < 16" using lt by (simp add: less_mult_imp_div_less)
  moreover have "?n = 4096 * (?n div 4096) + 256 * (?n div 256 mod 16) + 16 * (?n div 16 mod 16) + ?n mod 16"
  proof -
    have e: "?n div 256 = ?n div 16 div 16" "?n div 4096 = ?n div 16 div 16 div 16"
      by (simp_all flip: div_mult2_eq)
    have "?n = 16 * (?n div 16) + ?n mod 16"
      and "?n div 16 = 16 * (?n div 16 div 16) + ?n div 16 mod 16"
      and "?n div 16 div 16 = 16 * (?n div 16 div 16 div 16) + ?n div 16 div 16 mod 16"
      by simp_all
    then show ?thesis unfolding e by linarith
  qed
  ultimately show ?thesis
    unfolding format_04X_def Let_def
    by (intro exI conjI) (rule refl, simp_all)
qed

lemma hex_roundtrip [text_laws]: "from_str_radix_16 (format_04X w) = Some w"
proof -
  obtain a b c d where f: "format_04X w = map hex_digit [a, b, c, d]"
    and l: "a < 16" "b < 16" "c < 16" "d < 16" and n: "unat w = 4096 * a + 256 * b + 16 * c + d"
    using format_04X_digits [of w] by auto
  have "unat w < 65536" using unsigned_less [of w] by simp
  then have "4096 * a + 256 * b + 16 * c + d < 65536" using n by simp
  moreover have "16 * (16 * (16 * a + b) + c) + d = unat w" using n by simp
  moreover have "(of_nat (unat w) :: u16) = w" by simp
  ultimately show ?thesis
    using f l hex_digit_plain [OF l(1)] by (auto simp: from_str_radix_16_def Let_def)
qed

section \<open>Decimal numbers\<close>

definition digit_value :: "char \<Rightarrow> nat option" where
  "digit_value c =
     (let n = code_of c in if 48 \<le> n \<and> n \<le> 57 then Some (n - 48) else None)"

definition digit_char :: "nat \<Rightarrow> char" where
  "digit_char n = char_of (n + 48)"

fun decimal_number :: "nat \<Rightarrow> string \<Rightarrow> nat option" where
  "decimal_number acc [] = Some acc"
| "decimal_number acc (c # s) =
     (case digit_value c of None \<Rightarrow> None | Some v \<Rightarrow> decimal_number (10 * acc + v) s)"

text \<open>
  \<open>str::parse\<close> for an unsigned type of \<open>bits\<close> bits: an optional plus sign, at least one digit,
  and the value fits.
\<close>

definition parse_unsigned :: "nat \<Rightarrow> string \<Rightarrow> nat option" where
  "parse_unsigned bits s =
     (let digits = (case s of [] \<Rightarrow> [] | c # r \<Rightarrow> if c = CHR ''+'' then r else s)
      in if digits = [] then None
         else case decimal_number 0 digits of
           None \<Rightarrow> None
         | Some n \<Rightarrow> if n < 2 ^ bits then Some n else None)"

text \<open>\<open>to_string\<close> of an unsigned number.\<close>

fun decimal_digits :: "nat \<Rightarrow> string" where
  "decimal_digits n =
     (if n < 10 then [digit_char n] else decimal_digits (n div 10) @ [digit_char (n mod 10)])"

declare decimal_digits.simps [simp del]

lemma digit_code: "n < 10 \<Longrightarrow> code_of (digit_char n) = n + 48"
  by (simp add: digit_char_def)

lemma digit_value_char [simp]: "n < 10 \<Longrightarrow> digit_value (digit_char n) = Some n"
  by (simp add: digit_value_def digit_code)

lemma digit_not_plus: "n < 10 \<Longrightarrow> digit_char n \<noteq> CHR ''+''"
proof
  assume "n < 10" and "digit_char n = CHR ''+''"
  then have "code_of (digit_char n) = (43 :: nat)" by simp
  with \<open>n < 10\<close> show False by (simp add: digit_code)
qed

lemma decimal_number_append:
  "decimal_number acc (s @ t) = Option.bind (decimal_number acc s) (\<lambda>a. decimal_number a t)"
  by (induction s arbitrary: acc) (auto split: option.splits)

lemma decimal_digits_number: "decimal_number 0 (decimal_digits n) = Some n"
proof (induction n rule: decimal_digits.induct)
  case (1 n)
  then show ?case
    by (cases "n < 10") (simp_all add: decimal_digits.simps [of n] decimal_number_append)
qed

lemma decimal_digits_head: "\<exists>d r. decimal_digits n = digit_char d # r \<and> d < 10"
proof (induction n rule: decimal_digits.induct)
  case (1 n)
  then show ?case
    by (cases "n < 10") (auto simp: decimal_digits.simps [of n])
qed

lemma decimal_roundtrip [text_laws]: "n < 2 ^ bits \<Longrightarrow> parse_unsigned bits (decimal_digits n) = Some n"
  using decimal_digits_head [of n] decimal_digits_number [of n] digit_not_plus
  by (auto simp: parse_unsigned_def Let_def)

end
