(* ===== verification/Input_Bind.thy ===== *)
theory Input_Bind
  imports Text_Prelude
begin

text \<open>
  Key bindings and their textual syntax (src/crates/nexus-input/src/bind.rs): the binding
  record, the parser of \<open>ALT+CTRL+SHIFT+KEY\<close>, the formatter, and the portable key names. The
  trait \<open>KeyNameResolver\<close> is the locale \<open>key_names\<close>: what a resolver has to promise for
  formatted bindings to be read back; \<open>UsKeyNames\<close> is its instance.
\<close>

section \<open>Devices, buttons and modifiers\<close>

text \<open>\<open>InputDevice\<close> is an open number with three known values.\<close>

type_synonym input_device = u32

definition device_none :: input_device where "device_none = 0"
definition device_keyboard :: input_device where "device_keyboard = 1"
definition device_mouse :: input_device where "device_mouse = 2"

lemmas device_defs = device_none_def device_keyboard_def device_mouse_def

datatype mouse_button = NoButton | LeftButton | RightButton | MiddleButton | X1Button | X2Button

fun mouse_code :: "mouse_button \<Rightarrow> u16" where
  "mouse_code NoButton = 0"
| "mouse_code LeftButton = 1"
| "mouse_code RightButton = 2"
| "mouse_code MiddleButton = 3"
| "mouse_code X1Button = 4"
| "mouse_code X2Button = 5"

definition mouse_from_code :: "u16 \<Rightarrow> mouse_button option" where
  "mouse_from_code c =
     (if c = 0 then Some NoButton
      else if c = 1 then Some LeftButton
      else if c = 2 then Some RightButton
      else if c = 3 then Some MiddleButton
      else if c = 4 then Some X1Button
      else if c = 5 then Some X2Button
      else None)"

lemma mouse_from_code_iff: "mouse_from_code c = Some b \<longleftrightarrow> c = mouse_code b"
  by (cases b) (auto simp: mouse_from_code_def)

lemma mouse_from_code_code [simp]: "mouse_from_code (mouse_code b) = Some b"
  by (simp add: mouse_from_code_iff)

datatype modifier = Alt | Control | Shift

record modifier_state =
  m_alt :: bool
  m_control :: bool
  m_shift :: bool

definition modifier_state_default :: modifier_state where
  "modifier_state_default = \<lparr>m_alt = False, m_control = False, m_shift = False\<rparr>"

fun modifier_get :: "modifier \<Rightarrow> modifier_state \<Rightarrow> bool" where
  "modifier_get Alt s = m_alt s"
| "modifier_get Control s = m_control s"
| "modifier_get Shift s = m_shift s"

fun modifier_set :: "modifier \<Rightarrow> bool \<Rightarrow> modifier_state \<Rightarrow> modifier_state" where
  "modifier_set Alt v s = s\<lparr>m_alt := v\<rparr>"
| "modifier_set Control v s = s\<lparr>m_control := v\<rparr>"
| "modifier_set Shift v s = s\<lparr>m_shift := v\<rparr>"

lemma modifier_get_set [simp]:
  "modifier_get m (modifier_set m' v s) = (if m = m' then v else modifier_get m s)"
  by (cases m; cases m') simp_all

lemma modifier_state_eqI: "(\<And>m. modifier_get m s = modifier_get m t) \<Longrightarrow> s = t"
  for s t :: modifier_state
  by (metis modifier_get.simps modifier_state.equality old.unit.exhaust)

section \<open>Bindings\<close>

record input_bind =
  ib_alt :: bool
  ib_control :: bool
  ib_shift :: bool
  ib_device :: input_device
  ib_code :: u16

definition input_bind_default :: input_bind where
  "input_bind_default =
     \<lparr>ib_alt = False, ib_control = False, ib_shift = False, ib_device = device_none, ib_code = 0\<rparr>"

definition is_bound :: "input_bind \<Rightarrow> bool" where
  "is_bound b \<longleftrightarrow> ib_device b \<noteq> device_none \<and> ib_code b \<noteq> 0"

definition bind_modifiers :: "input_bind \<Rightarrow> modifier_state" where
  "bind_modifiers b = \<lparr>m_alt = ib_alt b, m_control = ib_control b, m_shift = ib_shift b\<rparr>"

definition normalized :: "input_bind \<Rightarrow> input_bind" where
  "normalized b = (if ib_code b = 0 then input_bind_default else b)"

fun bind_requires :: "input_bind \<Rightarrow> modifier \<Rightarrow> bool" where
  "bind_requires b Alt = ib_alt b"
| "bind_requires b Control = ib_control b"
| "bind_requires b Shift = ib_shift b"

record legacy_input_bind =
  li_key :: u16
  li_alt :: bool
  li_control :: bool
  li_shift :: bool

definition bind_from_legacy :: "legacy_input_bind \<Rightarrow> input_bind" where
  "bind_from_legacy l =
     \<lparr>ib_alt = li_alt l, ib_control = li_control l, ib_shift = li_shift l,
      ib_device = device_keyboard, ib_code = li_key l\<rparr>"

section \<open>Parsing\<close>

text \<open>The two methods of \<open>KeyNameResolver\<close>.\<close>

record key_name_resolver =
  scan_code :: "string \<Rightarrow> u16 option"
  key_name :: "u16 \<Rightarrow> string option"

datatype bind_parse_error = TooLong | UnknownKey | InvalidSyntax

definition parse_scan_code_literal :: "string \<Rightarrow> u16 option" where
  "parse_scan_code_literal v =
     (case strip_prefix ''SC:'' v of
        None \<Rightarrow> None
      | Some digits \<Rightarrow>
          (case from_str_radix_16 digits of
             None \<Rightarrow> None
           | Some c \<Rightarrow> if c \<noteq> 0 then Some c else None))"

text \<open>The loop over the parts between the plus signs: modifiers, and last the key.\<close>

fun parse_parts ::
  "string list \<Rightarrow> modifier_state \<Rightarrow> string option \<Rightarrow>
   bind_parse_error + modifier_state \<times> string option"
where
  "parse_parts [] ms key = Inr (ms, key)"
| "parse_parts (part # parts) ms key =
     (let upper = to_ascii_uppercase part; is_last = (parts = [])
      in if upper = ''ALT'' \<and> \<not> is_last then parse_parts parts (ms\<lparr>m_alt := True\<rparr>) key
         else if (upper = ''CTRL'' \<or> upper = ''CONTROL'') \<and> \<not> is_last
           then parse_parts parts (ms\<lparr>m_control := True\<rparr>) key
         else if upper = ''SHIFT'' \<and> \<not> is_last then parse_parts parts (ms\<lparr>m_shift := True\<rparr>) key
         else if is_last \<and> upper \<noteq> [] then parse_parts parts ms (Some upper)
         else Inl InvalidSyntax)"

definition key_of :: "key_name_resolver \<Rightarrow> string \<Rightarrow> bind_parse_error + input_device \<times> u16" where
  "key_of r key =
     (if key = ''LMB'' then Inr (device_mouse, mouse_code LeftButton)
      else if key = ''RMB'' then Inr (device_mouse, mouse_code RightButton)
      else if key = ''MMB'' then Inr (device_mouse, mouse_code MiddleButton)
      else if key = ''M4'' then Inr (device_mouse, mouse_code X1Button)
      else if key = ''M5'' then Inr (device_mouse, mouse_code X2Button)
      else case (case scan_code r key of
                   Some c \<Rightarrow> Some c
                 | None \<Rightarrow> parse_scan_code_literal key) of
        None \<Rightarrow> Inl UnknownKey
      | Some c \<Rightarrow> Inr (device_keyboard, c))"

definition parse_bind :: "string \<Rightarrow> key_name_resolver \<Rightarrow> bind_parse_error + input_bind" where
  "parse_bind input r =
     (if 256 < length input then Inl TooLong
      else if eq_ignore_ascii_case input ''(null)'' then Inr input_bind_default
      else case parse_parts (map trim (split_on (CHR ''+'') input)) modifier_state_default None of
        Inl e \<Rightarrow> Inl e
      | Inr (ms, None) \<Rightarrow> Inl UnknownKey
      | Inr (ms, Some key) \<Rightarrow>
          (case key_of r key of
             Inl e \<Rightarrow> Inl e
           | Inr (device, code) \<Rightarrow>
               Inr \<lparr>ib_alt = m_alt ms, ib_control = m_control ms, ib_shift = m_shift ms,
                    ib_device = device, ib_code = code\<rparr>))"

definition parse_bind_lossy :: "string \<Rightarrow> key_name_resolver \<Rightarrow> input_bind" where
  "parse_bind_lossy input r =
     (case parse_bind input r of Inl e \<Rightarrow> input_bind_default | Inr b \<Rightarrow> b)"

section \<open>Formatting\<close>

definition format_key :: "input_bind \<Rightarrow> key_name_resolver \<Rightarrow> string option" where
  "format_key b r =
     (if ib_device b = device_mouse then
        (case mouse_from_code (ib_code b) of
           Some LeftButton \<Rightarrow> Some ''LMB''
         | Some RightButton \<Rightarrow> Some ''RMB''
         | Some MiddleButton \<Rightarrow> Some ''MMB''
         | Some X1Button \<Rightarrow> Some ''M4''
         | Some X2Button \<Rightarrow> Some ''M5''
         | _ \<Rightarrow> None)
      else if ib_device b = device_keyboard then
        (case key_name r (ib_code b) of
           None \<Rightarrow> Some (''SC:'' @ format_04X (ib_code b))
         | Some n \<Rightarrow> Some n)
      else None)"

definition modifier_parts :: "input_bind \<Rightarrow> string list" where
  "modifier_parts b =
     (if ib_alt b then [''ALT''] else []) @ (if ib_control b then [''CTRL''] else []) @
     (if ib_shift b then [''SHIFT''] else [])"

definition format_bind :: "input_bind \<Rightarrow> key_name_resolver \<Rightarrow> bool \<Rightarrow> string" where
  "format_bind b r padded =
     (if \<not> is_bound b then ''(null)''
      else case format_key b r of
        None \<Rightarrow> ''(null)''
      | Some key \<Rightarrow>
          join_with (if padded then '' + '' else ''+'')
            (modifier_parts b @ [to_ascii_uppercase key]))"

section \<open>The portable key names\<close>

text \<open>\<open>portable_scan_code\<close> and \<open>portable_key_name\<close>: the arms of the two matches, in order.\<close>

definition portable_scan_codes :: "(string \<times> u16) list" where
  "portable_scan_codes =
     [(''ESC'', 0x01), (''ESCAPE'', 0x01), (''1'', 0x02), (''2'', 0x03), (''3'', 0x04),
      (''4'', 0x05), (''5'', 0x06), (''6'', 0x07), (''7'', 0x08), (''8'', 0x09), (''9'', 0x0A),
      (''0'', 0x0B), (''-'', 0x0C), (''MINUS'', 0x0C), (''='', 0x0D), (''EQUALS'', 0x0D),
      (''BACKSPACE'', 0x0E), (''TAB'', 0x0F), (''Q'', 0x10), (''W'', 0x11), (''E'', 0x12),
      (''R'', 0x13), (''T'', 0x14), (''Y'', 0x15), (''U'', 0x16), (''I'', 0x17), (''O'', 0x18),
      (''P'', 0x19), (''ENTER'', 0x1C), (''RETURN'', 0x1C), (''A'', 0x1E), (''S'', 0x1F),
      (''D'', 0x20), (''F'', 0x21), (''G'', 0x22), (''H'', 0x23), (''J'', 0x24), (''K'', 0x25),
      (''L'', 0x26), (''Z'', 0x2C), (''X'', 0x2D), (''C'', 0x2E), (''V'', 0x2F), (''B'', 0x30),
      (''N'', 0x31), (''M'', 0x32), (''SPACE'', 0x39), (''F1'', 0x3B), (''F2'', 0x3C),
      (''F3'', 0x3D), (''F4'', 0x3E), (''F5'', 0x3F), (''F6'', 0x40), (''F7'', 0x41),
      (''F8'', 0x42), (''F9'', 0x43), (''F10'', 0x44), (''F11'', 0x57), (''F12'', 0x58),
      (''HOME'', 0xE047), (''UP'', 0xE048), (''ARROW UP'', 0xE048), (''PAGE UP'', 0xE049),
      (''LEFT'', 0xE04B), (''ARROW LEFT'', 0xE04B), (''RIGHT'', 0xE04D),
      (''ARROW RIGHT'', 0xE04D), (''END'', 0xE04F), (''DOWN'', 0xE050), (''ARROW DOWN'', 0xE050),
      (''PAGE DOWN'', 0xE051), (''INSERT'', 0xE052), (''DELETE'', 0xE053)]"

definition portable_key_names :: "(u16 \<times> string) list" where
  "portable_key_names =
     [(0x01, ''ESCAPE''), (0x02, ''1''), (0x03, ''2''), (0x04, ''3''), (0x05, ''4''),
      (0x06, ''5''), (0x07, ''6''), (0x08, ''7''), (0x09, ''8''), (0x0A, ''9''), (0x0B, ''0''),
      (0x0C, ''MINUS''), (0x0D, ''EQUALS''), (0x0E, ''BACKSPACE''), (0x0F, ''TAB''),
      (0x10, ''Q''), (0x11, ''W''), (0x12, ''E''), (0x13, ''R''), (0x14, ''T''), (0x15, ''Y''),
      (0x16, ''U''), (0x17, ''I''), (0x18, ''O''), (0x19, ''P''), (0x1C, ''ENTER''),
      (0x1E, ''A''), (0x1F, ''S''), (0x20, ''D''), (0x21, ''F''), (0x22, ''G''), (0x23, ''H''),
      (0x24, ''J''), (0x25, ''K''), (0x26, ''L''), (0x2C, ''Z''), (0x2D, ''X''), (0x2E, ''C''),
      (0x2F, ''V''), (0x30, ''B''), (0x31, ''N''), (0x32, ''M''), (0x39, ''SPACE''),
      (0x3B, ''F1''), (0x3C, ''F2''), (0x3D, ''F3''), (0x3E, ''F4''), (0x3F, ''F5''),
      (0x40, ''F6''), (0x41, ''F7''), (0x42, ''F8''), (0x43, ''F9''), (0x44, ''F10''),
      (0x57, ''F11''), (0x58, ''F12''), (0xE047, ''HOME''), (0xE048, ''UP''),
      (0xE049, ''PAGE UP''), (0xE04B, ''LEFT''), (0xE04D, ''RIGHT''), (0xE04F, ''END''),
      (0xE050, ''DOWN''), (0xE051, ''PAGE DOWN''), (0xE052, ''INSERT''), (0xE053, ''DELETE'')]"

definition portable_scan_code :: "string \<Rightarrow> u16 option" where
  "portable_scan_code name = map_of portable_scan_codes name"

definition portable_key_name :: "u16 \<Rightarrow> string option" where
  "portable_key_name code = map_of portable_key_names code"

definition us_key_names :: key_name_resolver where
  "us_key_names = \<lparr>scan_code = portable_scan_code, key_name = portable_key_name\<rparr>"

section \<open>The grammar\<close>

text \<open>
  What the parser accepts, without the loop: every part but the last is a modifier name, the
  last is a key. Modifiers may come in any order and repeatedly.
\<close>

definition bind_grammar :: "string \<Rightarrow> key_name_resolver \<Rightarrow> bind_parse_error + input_bind" where
  "bind_grammar input r =
     (let parts = map (to_ascii_uppercase \<circ> trim) (split_on (CHR ''+'') input);
          names = set (butlast parts)
      in if 256 < length input then Inl TooLong
         else if to_ascii_uppercase input = ''(NULL)'' then Inr input_bind_default
         else if names \<subseteq> {''ALT'', ''CTRL'', ''CONTROL'', ''SHIFT''} \<and> last parts \<noteq> []
         then map_sum id
           (\<lambda>(device, code). \<lparr>ib_alt = ''ALT'' \<in> names,
              ib_control = ''CTRL'' \<in> names \<or> ''CONTROL'' \<in> names, ib_shift = ''SHIFT'' \<in> names,
              ib_device = device, ib_code = code\<rparr>)
           (key_of r (last parts))
         else Inl InvalidSyntax)"

definition with_modifiers :: "string set \<Rightarrow> modifier_state \<Rightarrow> modifier_state" where
  "with_modifiers names ms =
     \<lparr>m_alt = m_alt ms \<or> ''ALT'' \<in> names,
      m_control = m_control ms \<or> ''CTRL'' \<in> names \<or> ''CONTROL'' \<in> names,
      m_shift = m_shift ms \<or> ''SHIFT'' \<in> names\<rparr>"

lemma parse_parts_grammar:
  assumes "parts \<noteq> []"
  defines "names \<equiv> set (butlast (map to_ascii_uppercase parts))"
  shows "parse_parts parts ms None =
     (if names \<subseteq> {''ALT'', ''CTRL'', ''CONTROL'', ''SHIFT''} \<and> to_ascii_uppercase (last parts) \<noteq> []
      then Inr (with_modifiers names ms, Some (to_ascii_uppercase (last parts)))
      else Inl InvalidSyntax)"
  using assms(1) unfolding names_def
proof (induction parts arbitrary: ms)
  case (Cons p parts)
  show ?case
  proof (cases parts)
    case Nil
    then show ?thesis by (auto simp: with_modifiers_def Let_def)
  next
    case (Cons q rest)
    then have ne: "parts \<noteq> []" "map to_ascii_uppercase parts \<noteq> []" by simp_all
    show ?thesis
      using Cons.IH [OF ne(1)] ne by (simp add: Let_def with_modifiers_def)
  qed
qed simp

lemma parse_bind_is_grammar: "parse_bind input r = bind_grammar input r"
proof -
  let ?parts = "map trim (split_on (CHR ''+'') input)"
  have n: "to_ascii_uppercase ''(null)'' = ''(NULL)''"
    by code_simp
  have m: "map (to_ascii_uppercase \<circ> trim) (split_on (CHR ''+'') input) = map to_ascii_uppercase ?parts"
    by simp
  have l: "last (map to_ascii_uppercase ?parts) = to_ascii_uppercase (last ?parts)"
    by (rule last_map) simp
  have ne: "?parts \<noteq> []" by simp
  show ?thesis
    unfolding parse_bind_def bind_grammar_def eq_ignore_ascii_case_def n m l Let_def
    unfolding parse_parts_grammar [OF ne]
    by (auto simp: modifier_state_default_def with_modifiers_def split: sum.splits)
qed

section \<open>Reading back what was formatted\<close>

text \<open>
  The names the formatter prints in front of or instead of a key, and the names of the mouse
  buttons; a key must not be called like one of these.
\<close>

definition reserved_names :: "string set" where
  "reserved_names = {''LMB'', ''RMB'', ''MMB'', ''M4'', ''M5'', ''(NULL)''}"

text \<open>The five names that stand for a mouse button.\<close>

fun mouse_name :: "mouse_button \<Rightarrow> string" where
  "mouse_name LeftButton = ''LMB''"
| "mouse_name RightButton = ''RMB''"
| "mouse_name MiddleButton = ''MMB''"
| "mouse_name X1Button = ''M4''"
| "mouse_name X2Button = ''M5''"
| "mouse_name NoButton = []"

lemma upper_literals:
  "to_ascii_uppercase ''LMB'' = ''LMB''" "to_ascii_uppercase ''RMB'' = ''RMB''"
  "to_ascii_uppercase ''MMB'' = ''MMB''" "to_ascii_uppercase ''M4'' = ''M4''"
  "to_ascii_uppercase ''M5'' = ''M5''" "to_ascii_uppercase [] = []"
  "to_ascii_uppercase ''ALT'' = ''ALT''" "to_ascii_uppercase ''CTRL'' = ''CTRL''"
  "to_ascii_uppercase ''SHIFT'' = ''SHIFT''" "to_ascii_uppercase ''SC:'' = ''SC:''"
  by code_simp+

lemma mouse_name_plain:
  assumes "m \<noteq> NoButton"
  shows "key_of r (to_ascii_uppercase (mouse_name m)) = Inr (device_mouse, mouse_code m) \<and>
     tidy (to_ascii_uppercase (mouse_name m)) \<and> mouse_name m \<noteq> [] \<and>
     CHR ''+'' \<notin> set (to_ascii_uppercase (mouse_name m)) \<and> length (mouse_name m) \<le> 200 \<and>
     to_ascii_uppercase (mouse_name m) \<noteq> ''(NULL)''"
proof -
  have up: "to_ascii_uppercase (mouse_name m) = mouse_name m"
    by (cases m) (simp_all only: mouse_name.simps upper_literals)
  show ?thesis
    unfolding up using assms
    by (cases m) (simp_all add: key_of_def tidy_def is_whitespace_def)
qed

locale key_names =
  fixes r :: key_name_resolver
  assumes name_plain: "key_name r c = Some n \<Longrightarrow>
      tidy (to_ascii_uppercase n) \<and> n \<noteq> [] \<and> CHR ''+'' \<notin> set (to_ascii_uppercase n) \<and>
      length n \<le> 200 \<and> to_ascii_uppercase n \<notin> reserved_names"
    and name_scan: "key_name r c = Some n \<Longrightarrow> scan_code r (to_ascii_uppercase n) = Some c"
    and literal_free: "scan_code r (''SC:'' @ s) = None"
    and scan_nonzero: "scan_code r n \<noteq> Some 0"
begin

lemma literal_key:
  assumes "c \<noteq> 0"
  shows "to_ascii_uppercase (''SC:'' @ format_04X c) = ''SC:'' @ format_04X c"
    and "key_of r (''SC:'' @ format_04X c) = Inr (device_keyboard, c)"
    and "tidy (''SC:'' @ format_04X c)" and "CHR ''+'' \<notin> set (''SC:'' @ format_04X c)"
    and "length (''SC:'' @ format_04X c) = 7"
proof -
  obtain x y z w where f: "format_04X c = map hex_digit [x, y, z, w]"
    and l: "x < 16" "y < 16" "z < 16" "w < 16"
    using format_04X_digits [of c] by auto
  have up: "to_ascii_uppercase ''SC:'' = ''SC:''" by code_simp
  show "to_ascii_uppercase (''SC:'' @ format_04X c) = ''SC:'' @ format_04X c"
    using up l by (simp add: to_ascii_uppercase_def f)
  have "parse_scan_code_literal (''SC:'' @ format_04X c) = Some c"
    unfolding parse_scan_code_literal_def strip_prefix_append option.case hex_roundtrip
    using assms by simp
  then show "key_of r (''SC:'' @ format_04X c) = Inr (device_keyboard, c)"
    by (simp only: key_of_def literal_free) simp
  show "tidy (''SC:'' @ format_04X c)" "CHR ''+'' \<notin> set (''SC:'' @ format_04X c)"
    "length (''SC:'' @ format_04X c) = 7"
    using l hex_digit_plain [OF l(1)] hex_digit_plain [OF l(2)] hex_digit_plain [OF l(3)]
      hex_digit_plain [OF l(4)]
    by (auto simp: f tidy_def is_whitespace_def)
qed

text \<open>A key the formatter prints is read as the same device and code.\<close>

lemma formatted_key:
  assumes "is_bound b" and "format_key b r = Some key"
  shows "key_of r (to_ascii_uppercase key) = Inr (ib_device b, ib_code b) \<and>
     tidy (to_ascii_uppercase key) \<and> key \<noteq> [] \<and> CHR ''+'' \<notin> set (to_ascii_uppercase key) \<and>
     length key \<le> 200 \<and> to_ascii_uppercase key \<noteq> ''(NULL)''"
proof (cases "ib_device b = device_mouse")
  case True
  then obtain m where "mouse_from_code (ib_code b) = Some m" and "m \<noteq> NoButton"
    using assms(2) by (auto simp: format_key_def split: option.splits mouse_button.splits)
  then have m: "ib_code b = mouse_code m" "m \<noteq> NoButton" by (simp_all add: mouse_from_code_iff)
  then have "key = mouse_name m"
    using True assms(2) by (cases m) (simp_all add: format_key_def mouse_from_code_def)
  then show ?thesis using mouse_name_plain [OF m(2)] m(1) True by simp
next
  case False
  then have kb: "ib_device b = device_keyboard" and c: "ib_code b \<noteq> 0"
    using assms by (auto simp: format_key_def is_bound_def split: if_splits)
  show ?thesis
  proof (cases "key_name r (ib_code b)")
    case None
    then have "key = ''SC:'' @ format_04X (ib_code b)"
      using assms(2) False kb by (simp add: format_key_def)
    then show ?thesis using literal_key [OF c] kb by auto
  next
    case (Some n)
    then have "key = n" using assms(2) False kb by (simp add: format_key_def)
    then show ?thesis
      using name_plain [OF Some] name_scan [OF Some] kb
      by (auto simp: key_of_def reserved_names_def)
  qed
qed

lemma modifier_part_plain:
  "p \<in> set (modifier_parts b) \<Longrightarrow> p \<in> {''ALT'', ''CTRL'', ''SHIFT''}"
  by (auto simp: modifier_parts_def split: if_splits)

lemma modifier_part_iff:
  "''ALT'' \<in> set (modifier_parts b) \<longleftrightarrow> ib_alt b"
  "''CTRL'' \<in> set (modifier_parts b) \<longleftrightarrow> ib_control b"
  "''SHIFT'' \<in> set (modifier_parts b) \<longleftrightarrow> ib_shift b"
  "''CONTROL'' \<notin> set (modifier_parts b)"
  by (auto simp: modifier_parts_def)

lemma upper_modifiers: "map to_ascii_uppercase (modifier_parts b) = modifier_parts b"
  by (simp add: modifier_parts_def upper_literals)

text \<open>
  The round trip: every binding that names a key or a mouse button is read back as it was,
  with or without blanks around the plus signs; anything else is printed as unbound.
\<close>

lemma format_parse:
  assumes "is_bound b" and "format_key b r = Some key"
  shows "parse_bind (format_bind b r padded) r = Inr b"
proof -
  let ?key = "to_ascii_uppercase key" and ?ms = "modifier_parts b"
  let ?pre = "if padded then '' '' else []" and ?text = "format_bind b r padded"
  note k = formatted_key [OF assms]
  have ms: "\<forall>p \<in> set ?ms. tidy p \<and> p \<noteq> [] \<and> CHR ''+'' \<notin> set p"
    using modifier_part_plain [of _ b] by (fastforce simp: tidy_def is_whitespace_def)
  have sep: "(if padded then '' + '' else ''+'') = ?pre @ CHR ''+'' # ?pre" by simp
  have whole: "?text = join_with (?pre @ CHR ''+'' # ?pre) (?ms @ [?key])"
    using assms by (simp add: format_bind_def)
  have parts: "map trim (split_on (CHR ''+'') ?text) = ?ms @ [?key]"
    unfolding whole using ms k by (intro split_trim_join) (auto simp: is_whitespace_def)
  have len: "length ?text \<le> 256"
  proof -
    have "length ?text \<le> sum_list (map length (?ms @ [?key])) + 3 * length (?ms @ [?key])"
      using length_join_with [of "?pre @ CHR ''+'' # ?pre" "?ms @ [?key]"] unfolding whole
      by (auto split: if_splits)
    also have "\<dots> \<le> 12 + 200 + 3 * 4"
      using k by (auto simp: modifier_parts_def)
    finally show ?thesis by simp
  qed
  have "to_ascii_uppercase ?text \<noteq> ''(NULL)''"
  proof (cases "?ms = []")
    case True
    then have "?text = ?key" using whole by simp
    with k show ?thesis by simp
  next
    case False
    then have "CHR ''+'' \<in> set ?text" unfolding whole by (cases ?ms; cases "tl ?ms") auto
    then have "ascii_upper_char (CHR ''+'') \<in> set (to_ascii_uppercase ?text)"
      by (simp add: to_ascii_uppercase_def)
    then show ?thesis by (auto simp: ascii_upper_char_def)
  qed
  moreover have "map (to_ascii_uppercase \<circ> trim) (split_on (CHR ''+'') ?text) = ?ms @ [?key]"
    using arg_cong [OF parts, of "map to_ascii_uppercase"] by (simp add: upper_modifiers)
  ultimately show ?thesis
    using k len modifier_part_plain [of _ b] modifier_part_iff [of b]
    by (auto simp: parse_bind_is_grammar bind_grammar_def Let_def)
qed

lemma format_parse_total:
  "parse_bind (format_bind b r padded) r =
     Inr (if is_bound b \<and> format_key b r \<noteq> None then b else input_bind_default)"
proof (cases "is_bound b \<and> format_key b r \<noteq> None")
  case True
  then show ?thesis using format_parse by auto
next
  case False
  then have "format_bind b r padded = ''(null)''" by (auto simp: format_bind_def)
  then show ?thesis using False by (auto simp: parse_bind_def eq_ignore_ascii_case_def)
qed

text \<open>What the parser accepts survives being printed and read again.\<close>

lemma parsed_key: "key_of r key = Inr (d, c) \<Longrightarrow> d \<in> {device_keyboard, device_mouse} \<and> c \<noteq> 0 \<and>
    (d = device_mouse \<longrightarrow> (\<exists>m. m \<noteq> NoButton \<and> c = mouse_code m))"
  using scan_nonzero [of key]
  by (fastforce simp: key_of_def parse_scan_code_literal_def device_defs split: if_splits option.splits
      intro: exI [of _ LeftButton] exI [of _ RightButton] exI [of _ MiddleButton] exI [of _ X1Button]
        exI [of _ X2Button])

lemma parse_format_parse:
  assumes "parse_bind s r = Inr b"
  shows "parse_bind (format_bind b r padded) r = Inr b"
proof (cases "b = input_bind_default")
  case True
  then show ?thesis by (simp add: format_parse_total input_bind_default_def is_bound_def)
next
  case False
  with assms obtain key where "key_of r key = Inr (ib_device b, ib_code b)"
    by (auto simp: parse_bind_def split: if_splits sum.splits option.splits)
  from parsed_key [OF this] have "is_bound b \<and> format_key b r \<noteq> None"
    by (auto simp: is_bound_def format_key_def device_defs mouse_from_code_iff split: option.splits mouse_button.splits)
  then show ?thesis by (simp add: format_parse_total)
qed

end

section \<open>The portable names keep the contract\<close>

text \<open>The tables are checked entry by entry.\<close>

lemma portable_names_checked:
  "list_all (\<lambda>(c, n). tidy (to_ascii_uppercase n) \<and> n \<noteq> [] \<and>
      list_all (\<lambda>x. x \<noteq> CHR ''+'') (to_ascii_uppercase n) \<and> length n \<le> 200 \<and>
      \<not> List.member [''LMB'', ''RMB'', ''MMB'', ''M4'', ''M5'', ''(NULL)''] (to_ascii_uppercase n) \<and>
      map_of portable_scan_codes (to_ascii_uppercase n) = Some c) portable_key_names"
  by code_simp

lemma portable_codes_checked:
  "list_all (\<lambda>(n, c). take 3 n \<noteq> ''SC:'' \<and> c \<noteq> 0) portable_scan_codes"
  by code_simp

interpretation us: key_names us_key_names
proof
  fix c n assume "key_name us_key_names c = Some n"
  then have "(c, n) \<in> set portable_key_names"
    by (simp add: us_key_names_def portable_key_name_def map_of_SomeD)
  with portable_names_checked
  have e: "tidy (to_ascii_uppercase n) \<and> n \<noteq> [] \<and>
      list_all (\<lambda>x. x \<noteq> CHR ''+'') (to_ascii_uppercase n) \<and> length n \<le> 200 \<and>
      \<not> List.member [''LMB'', ''RMB'', ''MMB'', ''M4'', ''M5'', ''(NULL)''] (to_ascii_uppercase n) \<and>
      map_of portable_scan_codes (to_ascii_uppercase n) = Some c"
    by (fastforce simp: list_all_iff)
  then show "tidy (to_ascii_uppercase n) \<and> n \<noteq> [] \<and> CHR ''+'' \<notin> set (to_ascii_uppercase n) \<and>
      length n \<le> 200 \<and> to_ascii_uppercase n \<notin> reserved_names"
    by (auto simp: reserved_names_def list_all_iff)
  from e show "scan_code us_key_names (to_ascii_uppercase n) = Some c"
    by (simp add: us_key_names_def portable_scan_code_def)
next
  fix s
  show "scan_code us_key_names (''SC:'' @ s) = None"
    using portable_codes_checked
    by (fastforce simp: us_key_names_def portable_scan_code_def map_of_eq_None_iff list_all_iff)
next
  fix n show "scan_code us_key_names n \<noteq> Some 0"
    using portable_codes_checked
    by (fastforce simp: us_key_names_def portable_scan_code_def list_all_iff dest: map_of_SomeD)
qed

section \<open>Properties\<close>

text \<open>
  C21. Bindings survive persistence: whatever binding is formatted, with or without padding, the
  parser reads it back exactly when it is bound to a keyboard code (any of the 65535, named or
  not) or to one of the five mouse buttons, and reads the unbound default otherwise.
\<close>
theorem bind_format_roundtrip:
  "parse_bind (format_bind b us_key_names padded) us_key_names =
     Inr (if ib_code b \<noteq> 0 \<and>
             (ib_device b = device_keyboard \<or> ib_device b = device_mouse \<and> ib_code b \<le> 5)
          then b else input_bind_default)"
proof -
  have "mouse_from_code c \<notin> {None, Some NoButton} \<longleftrightarrow> c \<noteq> 0 \<and> c \<le> 5" for c
  proof -
    have small: "(of_nat n :: u16) \<in> {0, 1, 2, 3, 4, 5}" if "n \<le> 5" for n
    proof -
      have "n = 0 \<or> n = 1 \<or> n = 2 \<or> n = 3 \<or> n = 4 \<or> n = 5" using that by linarith
      then show ?thesis by (elim disjE) simp_all
    qed
    have "c \<in> {0, 1, 2, 3, 4, 5}" if "c \<le> 5"
      using small [of "unat c"] that by (simp add: word_le_nat_alt)
    then have "c \<le> 5 \<longleftrightarrow> c \<in> {0, 1, 2, 3, 4, 5}" by (auto simp: word_le_nat_alt)
    then show ?thesis by (auto simp: mouse_from_code_def)
  qed
  moreover have "format_key b us_key_names \<noteq> None \<longleftrightarrow>
      mouse_from_code (ib_code b) \<notin> {None, Some NoButton}" if "ib_device b = device_mouse"
    using that by (simp add: format_key_def split: option.splits mouse_button.splits)
  moreover have "format_key b us_key_names \<noteq> None \<longleftrightarrow> ib_device b = device_keyboard"
    if "ib_device b \<noteq> device_mouse"
    using that by (simp add: format_key_def split: option.splits)
  moreover have "device_keyboard \<noteq> device_none" "device_mouse \<noteq> device_none"
    "device_keyboard \<noteq> device_mouse"
    by (simp_all add: device_defs)
  ultimately have "is_bound b \<and> format_key b us_key_names \<noteq> None \<longleftrightarrow>
      ib_code b \<noteq> 0 \<and> (ib_device b = device_keyboard \<or> ib_device b = device_mouse \<and> ib_code b \<le> 5)"
    unfolding is_bound_def by metis
  then show ?thesis by (simp add: us.format_parse_total)
qed

text \<open>
  C22. The parser is its grammar, for every resolver and every input: the loop with its early
  returns accepts exactly the texts whose parts before the last are modifier names and whose
  last part is a key, and the error of every other text is the one the grammar gives.
\<close>
theorem bind_parse_grammar: "parse_bind input r = bind_grammar input r"
  by (rule parse_bind_is_grammar)

end
