(* ===== verification/Input_Capture.thy ===== *)
theory Input_Capture
  imports Input_Bind
begin

text \<open>
  Binding capture (src/crates/nexus-input/src/capture.rs): the state machine that turns the
  stream of key and button messages into the combination a press stands for, and swallows
  presses while the user records a new binding.
\<close>

datatype input_message =
    ActivateApp
  | KeyDown "modifier option" u16 bool
  | KeyUp "modifier option" u16
  | MouseDown mouse_button
  | MouseUp mouse_button

record capture_outcome =
  co_binding :: input_bind
  co_consumed :: bool
  co_press_candidate :: bool

record input_capture =
  ic_capturing :: bool
  ic_binding :: input_bind
  ic_modifiers :: modifier_state

definition input_capture_default :: input_capture where
  "input_capture_default =
     \<lparr>ic_capturing = False, ic_binding = input_bind_default, ic_modifiers = modifier_state_default\<rparr>"

definition capture_start :: "input_capture \<Rightarrow> input_capture" where
  "capture_start c =
     (if \<not> ic_capturing c then c\<lparr>ic_binding := input_bind_default, ic_capturing := True\<rparr> else c)"

definition capture_stop :: "input_capture \<Rightarrow> input_capture" where
  "capture_stop c = c\<lparr>ic_capturing := False\<rparr>"

definition capture_outcome_of :: "input_capture \<Rightarrow> bool \<Rightarrow> bool \<Rightarrow> capture_outcome" where
  "capture_outcome_of c consumed candidate =
     \<lparr>co_binding = ic_binding c, co_consumed = consumed, co_press_candidate = candidate\<rparr>"

text \<open>\<open>InputBind::new\<close> with the modifiers given as a \<open>ModifierState\<close>.\<close>

definition bind_with :: "modifier_state \<Rightarrow> input_device \<Rightarrow> u16 \<Rightarrow> input_bind" where
  "bind_with ms d c =
     \<lparr>ib_alt = m_alt ms, ib_control = m_control ms, ib_shift = m_shift ms,
      ib_device = d, ib_code = c\<rparr>"

fun capture_process :: "input_message \<Rightarrow> input_capture \<Rightarrow> input_capture \<times> capture_outcome" where
  "capture_process ActivateApp c =
     (let c' = c\<lparr>ic_modifiers := modifier_state_default,
                 ic_binding := (ic_binding c)\<lparr>ib_alt := False, ib_control := False, ib_shift := False\<rparr>\<rparr>
      in (c', capture_outcome_of c' False False))"
| "capture_process (KeyDown m code rep) c =
     (let c1 = (case m of
                  Some md \<Rightarrow> if \<not> rep then c\<lparr>ic_modifiers := modifier_set md True (ic_modifiers c)\<rparr> else c
                | None \<Rightarrow> c)
      in if rep then (c1, capture_outcome_of c1 False False)
         else
           (let required = (if m \<noteq> None then modifier_state_default else ic_modifiers c1);
                c2 = c1\<lparr>ic_binding := bind_with required device_keyboard code\<rparr>
            in (c2, capture_outcome_of c2 (ic_capturing c2) True)))"
| "capture_process (KeyUp m code) c =
     (let c1 = (case m of
                  Some md \<Rightarrow> c\<lparr>ic_modifiers := modifier_set md False (ic_modifiers c)\<rparr>
                | None \<Rightarrow> c)
      in (c1, capture_outcome_of c1 False False))"
| "capture_process (MouseDown b) c =
     (if b = MiddleButton \<or> b = X1Button \<or> b = X2Button then
        (let c2 = c\<lparr>ic_binding := bind_with (ic_modifiers c) device_mouse (mouse_code b)\<rparr>
         in (c2, capture_outcome_of c2 (ic_capturing c2) True))
      else (c, capture_outcome_of c False False))"
| "capture_process (MouseUp b) c = (c, capture_outcome_of c False False)"

text \<open>A stream of messages, with what each gave.\<close>

fun capture_run :: "input_message list \<Rightarrow> input_capture \<Rightarrow> input_capture \<times> capture_outcome list" where
  "capture_run [] c = (c, [])"
| "capture_run (m # ms) c =
     (let (c1, o1) = capture_process m c; (c2, os) = capture_run ms c1 in (c2, o1 # os))"

section \<open>The modifiers of a history\<close>

text \<open>
  What the tracked modifiers mean: a modifier is held when its last key message was a press
  that was not an autorepeat, and the application was not activated since.
\<close>

fun held_after :: "modifier \<Rightarrow> input_message list \<Rightarrow> bool" where
  "held_after m [] = False"
| "held_after m (x # history) =
     (case x of
        ActivateApp \<Rightarrow> False
      | KeyDown (Some m') code False \<Rightarrow> m' = m \<or> held_after m history
      | KeyUp (Some m') code \<Rightarrow> m' \<noteq> m \<and> held_after m history
      | _ \<Rightarrow> held_after m history)"

lemma modifier_get_default [simp]: "\<not> modifier_get m modifier_state_default"
  by (cases m) (simp_all add: modifier_state_default_def)

lemma capture_process_modifiers:
  "modifier_get m (ic_modifiers (fst (capture_process x c))) =
     (case x of
        ActivateApp \<Rightarrow> False
      | KeyDown (Some m') code False \<Rightarrow> m' = m \<or> modifier_get m (ic_modifiers c)
      | KeyUp (Some m') code \<Rightarrow> m' \<noteq> m \<and> modifier_get m (ic_modifiers c)
      | _ \<Rightarrow> modifier_get m (ic_modifiers c))"
  by (cases x) (auto simp: Let_def split: option.splits bool.splits)

lemma capture_run_append:
  "capture_run (xs @ ys) c =
     (let (c1, o1) = capture_run xs c; (c2, o2) = capture_run ys c1 in (c2, o1 @ o2))"
  by (induction xs arbitrary: c) (auto simp: Let_def split: prod.splits)

lemma capture_run_modifiers:
  "modifier_get m (ic_modifiers (fst (capture_run (rev history) input_capture_default))) =
     held_after m history"
proof (induction history)
  case Nil
  then show ?case by (simp add: input_capture_default_def)
next
  case (Cons x history)
  then show ?case
    by (simp add: capture_run_append Let_def case_prod_unfold capture_process_modifiers
        split: input_message.splits option.splits bool.splits)
qed

lemma capture_run_capturing:
  "ic_capturing (fst (capture_run ms c)) = ic_capturing c"
proof (induction ms arbitrary: c)
  case (Cons m ms)
  have "ic_capturing (fst (capture_process m c)) = ic_capturing c"
    by (cases m) (auto simp: Let_def split: option.splits)
  with Cons show ?case by (simp add: Let_def case_prod_unfold)
qed simp

lemma modifiers_of_history:
  "ic_modifiers (fst (capture_run (rev history) input_capture_default)) =
     \<lparr>m_alt = held_after Alt history, m_control = held_after Control history,
      m_shift = held_after Shift history\<rparr>"
  using capture_run_modifiers [of Alt history] capture_run_modifiers [of Control history]
    capture_run_modifiers [of Shift history]
  by (simp add: modifier_state.equality)

section \<open>Properties\<close>

text \<open>
  The captured combination is the physical one: after any history of messages, pressing an
  ordinary key (no modifier, no autorepeat) gives the binding of that key with exactly the
  modifiers that are down at that moment, and consumes the message exactly while capturing;
  pressing a modifier alone gives the bare key.
\<close>
theorem capture_is_physical_state:
  "capture_process (KeyDown md code False)
     ((fst (capture_run (rev history) input_capture_default))\<lparr>ic_capturing := on\<rparr>) =
   (let ms = (if md = None
              then \<lparr>m_alt = held_after Alt history, m_control = held_after Control history,
                    m_shift = held_after Shift history\<rparr>
              else modifier_state_default);
        b = bind_with ms device_keyboard code
    in (\<lparr>ic_capturing = on, ic_binding = b,
         ic_modifiers = (case md of None \<Rightarrow> ms | Some m \<Rightarrow> modifier_set m True
           \<lparr>m_alt = held_after Alt history, m_control = held_after Control history,
            m_shift = held_after Shift history\<rparr>)\<rparr>,
        \<lparr>co_binding = b, co_consumed = on, co_press_candidate = True\<rparr>))"
  by (cases md) (simp_all add: Let_def capture_outcome_of_def modifiers_of_history)

end
