(* ===== verification/Panic_Gate.thy ===== *)
theory Panic_Gate
  imports Owner_Token
begin

text \<open>
  The panic budget of a callback registration (\<open>PanicGate\<close> in
  src/crates/nexus-input/src/managed.rs, the same fields and code in \<open>Entry\<close> of
  src/crates/nexus-input/src/raw.rs) and the owner identity of the input registries.
\<close>

record owner_generation =
  og_owner :: u64
  og_generation :: u64

definition owner_generation_from :: "owner_token \<Rightarrow> owner_generation" where
  "owner_generation_from t = \<lparr>og_owner = ucast (signature t), og_generation = generation t\<rparr>"

text \<open>Distinct owner tokens stay distinct.\<close>

lemma owner_generation_from_inj: "owner_generation_from s = owner_generation_from t \<longleftrightarrow> s = t"
proof
  assume "owner_generation_from s = owner_generation_from t"
  then have "(ucast (signature s) :: u64) = ucast (signature t)" and g: "generation s = generation t"
    by (simp_all add: owner_generation_from_def)
  then have "unat (ucast (signature s) :: u64) = unat (ucast (signature t) :: u64)" by simp
  then have "unat (signature s) = unat (signature t)" by (simp add: unat_ucast_widen)
  then have "signature s = signature t" by (simp add: word_unat_eq_iff)
  with g show "s = t" by simp
qed simp

record panic_gate =
  pg_count :: u32
  pg_disabled :: bool
  pg_maximum :: u32

definition panic_gate_new :: "u32 \<Rightarrow> panic_gate" where
  "panic_gate_new m = \<lparr>pg_count = 0, pg_disabled = False, pg_maximum = max m 1\<rparr>"

definition panic_record :: "panic_gate \<Rightarrow> panic_gate" where
  "panic_record g =
     (let next_count = saturating_add (pg_count g) 1
      in g\<lparr>pg_count := next_count, pg_disabled := (pg_disabled g \<or> pg_maximum g \<le> next_count)\<rparr>)"

text \<open>The budget: disabled exactly from the panic on that reaches the maximum.\<close>

definition panic_gate_wf :: "panic_gate \<Rightarrow> bool" where
  "panic_gate_wf g \<longleftrightarrow> 0 < pg_maximum g \<and> (pg_disabled g \<longleftrightarrow> pg_maximum g \<le> pg_count g)"

lemma panic_gate_new_wf [simp]: "panic_gate_wf (panic_gate_new m)"
  by (auto simp: panic_gate_wf_def panic_gate_new_def max_def word_less_nat_alt word_le_nat_alt
      split: if_splits)

lemma panic_record_wf [simp]: "panic_gate_wf g \<Longrightarrow> panic_gate_wf (panic_record g)"
  by (auto simp: panic_gate_wf_def panic_record_def Let_def intro: order_trans)

lemma unat_panic_record:
  "unat (pg_count (panic_record g)) = min (Suc (unat (pg_count g))) (2 ^ 32 - 1)"
  by (simp add: panic_record_def Let_def unat_saturating_add)

lemma panic_record_maximum [simp]: "pg_maximum (panic_record g) = pg_maximum g"
  by (simp add: panic_record_def Let_def)

lemma panic_budget:
  "pg_disabled ((panic_record ^^ n) (panic_gate_new m)) \<longleftrightarrow> max (unat m) 1 \<le> n"
proof -
  let ?g = "(panic_record ^^ n) (panic_gate_new m)"
  have c: "unat (pg_count ?g) = min n (2 ^ 32 - 1)"
    by (induction n) (auto simp: unat_panic_record, simp add: panic_gate_new_def)
  have "panic_gate_wf ?g" by (induction n) simp_all
  then have "pg_disabled ?g \<longleftrightarrow> unat (pg_maximum ?g) \<le> min n (2 ^ 32 - 1)"
    by (simp add: panic_gate_wf_def word_le_nat_alt c)
  moreover have "pg_maximum ?g = max m 1"
    by (induction n) (simp_all, simp add: panic_gate_new_def)
  moreover have "unat (max m 1) = max (unat m) 1" by (simp add: max_def word_le_nat_alt)
  moreover have "unat m < 2 ^ 32" using unsigned_less [of m] by simp
  ultimately show ?thesis by auto
qed

end
