(* ===== verification/Input_Managed.thy ===== *)
theory Input_Managed
  imports Input_Capture Panic_Gate "HOL-Library.Char_ord" "HOL-Library.List_Lexorder"
begin

text \<open>
  The managed input bindings (src/crates/nexus-input/src/managed.rs): identifiers with a
  binding and a callback of an addon, the set of bindings currently held, and the routing of
  input messages to callbacks. Every use of the registry's mutex is one definition here;
  callbacks run outside it, so between two of these sections any other section may run.
  Callbacks and the executor are foreign code: functions on the whole state.
\<close>

section \<open>State\<close>

datatype callback_kind = NoCallback | DownOnlyAsync | DownReleaseAsync | DownRelease

datatype register_outcome = BoundDefault | PreservedExisting | ConflictCleared

datatype set_bind_error = InvalidIdentifier | Conflict string | ForeignHandler

datatype managed_callback = OnlyAsync nat | ReleaseAsync nat | Release nat

fun managed_kind :: "managed_callback \<Rightarrow> callback_kind" where
  "managed_kind (OnlyAsync f) = DownOnlyAsync"
| "managed_kind (ReleaseAsync f) = DownReleaseAsync"
| "managed_kind (Release f) = DownRelease"

text \<open>
  The gate and the marker of a registration are allocated with it and shared by reference;
  one number stands for both.
\<close>

record registered_callback =
  rc_owner :: owner_generation
  rc_callback :: managed_callback
  rc_marker :: nat

record mapping_entry =
  mp_binding :: input_bind
  mp_passthrough :: bool
  mp_callback :: "registered_callback option"

definition mapping_default :: mapping_entry where
  "mapping_default = \<lparr>mp_binding = input_bind_default, mp_passthrough = False, mp_callback = None\<rparr>"

record managed =
  mg_registry :: "(string, mapping_entry) btree"
  mg_held :: "(string, input_bind) btree"
  mg_capture :: input_capture
  mg_gates :: "nat \<Rightarrow> panic_gate"
  mg_next_marker :: nat
  mg_max_panics :: u32

definition managed_new :: "u32 \<Rightarrow> managed" where
  "managed_new m =
     \<lparr>mg_registry = [], mg_held = [], mg_capture = input_capture_default,
      mg_gates = (\<lambda>_. panic_gate_new m), mg_next_marker = 0, mg_max_panics = m\<rparr>"

section \<open>Registration\<close>

definition max_identifier_bytes :: nat where
  "max_identifier_bytes = 1024"

definition validate_identifier :: "string \<Rightarrow> bool" where
  "validate_identifier i \<longleftrightarrow>
     \<not> (i = [] \<or> max_identifier_bytes < length i \<or> CHR 0x00 \<in> set i)"

definition find_conflict :: "(string, mapping_entry) btree \<Rightarrow> string \<Rightarrow> input_bind \<Rightarrow> string option" where
  "find_conflict reg i b =
     (if \<not> is_bound b then None
      else map_option fst (find (\<lambda>(c, m). c \<noteq> i \<and> mp_binding m = b) reg))"

text \<open>The binding a new identifier gets.\<close>

definition default_for :: "(string, mapping_entry) btree \<Rightarrow> string \<Rightarrow> input_bind \<Rightarrow> input_bind \<times> register_outcome" where
  "default_for reg i b =
     (if find_conflict reg i b \<noteq> None then (input_bind_default, ConflictCleared)
      else (normalized b, BoundDefault))"

definition register_default ::
  "string \<Rightarrow> input_bind \<Rightarrow> managed \<Rightarrow> managed \<times> (set_bind_error + register_outcome)"
where
  "register_default i b w =
     (if \<not> validate_identifier i then (w, Inl InvalidIdentifier)
      else if map_of (mg_registry w) i \<noteq> None then (w, Inr PreservedExisting)
      else
        (let (b', out) = default_for (mg_registry w) i b
         in (w\<lparr>mg_registry := bt_insert i (mapping_default\<lparr>mp_binding := b'\<rparr>) (mg_registry w)\<rparr>, Inr out)))"

definition managed_register ::
  "string \<Rightarrow> owner_generation \<Rightarrow> managed_callback \<Rightarrow> input_bind \<Rightarrow> managed \<Rightarrow>
   managed \<times> (set_bind_error + register_outcome \<times> nat)"
where
  "managed_register i own cb b w =
     (if \<not> validate_identifier i then (w, Inl InvalidIdentifier)
      else
        (let marker = mg_next_marker w;
             rc = \<lparr>rc_owner = own, rc_callback = cb, rc_marker = marker\<rparr>;
             w1 = w\<lparr>mg_next_marker := Suc marker,
                    mg_gates := (mg_gates w)(marker := panic_gate_new (mg_max_panics w))\<rparr>
         in case map_of (mg_registry w) i of
              Some m \<Rightarrow>
                (if \<exists>r \<in> set_option (mp_callback m). rc_owner r \<noteq> own
                 then (w1, Inl ForeignHandler)
                 else (w1\<lparr>mg_registry := bt_update i (\<lambda>m. m\<lparr>mp_callback := Some rc\<rparr>) (mg_registry w)\<rparr>,
                       Inr (PreservedExisting, marker)))
            | None \<Rightarrow>
                (let (b', out) = default_for (mg_registry w) i b
                 in (w1\<lparr>mg_registry := bt_insert i
                          \<lparr>mp_binding = b', mp_passthrough = False, mp_callback = Some rc\<rparr> (mg_registry w)\<rparr>,
                     Inr (out, marker)))))"

text \<open>The textual and legacy entry points.\<close>

definition register_v1_string ::
  "string \<Rightarrow> owner_generation \<Rightarrow> nat \<Rightarrow> string \<Rightarrow> key_name_resolver \<Rightarrow> managed \<Rightarrow>
   managed \<times> (set_bind_error + register_outcome \<times> nat)"
where
  "register_v1_string i own f text r w = managed_register i own (OnlyAsync f) (parse_bind_lossy text r) w"

definition register_v1 ::
  "string \<Rightarrow> owner_generation \<Rightarrow> nat \<Rightarrow> legacy_input_bind \<Rightarrow> managed \<Rightarrow>
   managed \<times> (set_bind_error + register_outcome \<times> nat)"
where
  "register_v1 i own f l w = managed_register i own (OnlyAsync f) (bind_from_legacy l) w"

definition register_v2_async ::
  "string \<Rightarrow> owner_generation \<Rightarrow> nat \<Rightarrow> input_bind \<Rightarrow> managed \<Rightarrow>
   managed \<times> (set_bind_error + register_outcome \<times> nat)"
where
  "register_v2_async i own f b w = managed_register i own (ReleaseAsync f) b w"

definition register_v2 ::
  "string \<Rightarrow> owner_generation \<Rightarrow> nat \<Rightarrow> input_bind \<Rightarrow> managed \<Rightarrow>
   managed \<times> (set_bind_error + register_outcome \<times> nat)"
where
  "register_v2 i own f b w = managed_register i own (Release f) b w"

section \<open>Removal and change\<close>

text \<open>Every removal drops the identifier from the held bindings and takes its callback.\<close>

definition take_callback :: "string \<Rightarrow> managed \<Rightarrow> managed" where
  "take_callback i w =
     w\<lparr>mg_held := bt_remove i (mg_held w),
       mg_registry := bt_update i (\<lambda>m. m\<lparr>mp_callback := None\<rparr>) (mg_registry w)\<rparr>"

definition callback_of :: "managed \<Rightarrow> string \<Rightarrow> registered_callback option" where
  "callback_of w i = Option.bind (map_of (mg_registry w) i) mp_callback"

definition managed_deregister :: "string \<Rightarrow> managed \<Rightarrow> managed \<times> bool" where
  "managed_deregister i w = (take_callback i w, callback_of w i \<noteq> None)"

definition deregister_for_owner :: "string \<Rightarrow> owner_generation \<Rightarrow> managed \<Rightarrow> managed \<times> bool" where
  "deregister_for_owner i own w =
     (if \<exists>r \<in> set_option (callback_of w i). rc_owner r = own
      then (take_callback i w, True) else (w, False))"

definition remove_registration :: "string \<Rightarrow> nat \<Rightarrow> managed \<Rightarrow> managed \<times> bool" where
  "remove_registration i token w =
     (if \<exists>r \<in> set_option (callback_of w i). rc_marker r = token
      then (take_callback i w, True) else (w, False))"

definition owned_identifiers :: "owner_generation \<Rightarrow> managed \<Rightarrow> string list" where
  "owned_identifiers own w =
     map fst (filter (\<lambda>(i, m). \<exists>r \<in> set_option (mp_callback m). rc_owner r = own) (mg_registry w))"

definition managed_cleanup_owner :: "owner_generation \<Rightarrow> managed \<Rightarrow> managed \<times> nat" where
  "managed_cleanup_owner own w =
     (let is = owned_identifiers own w in (fold take_callback is w, length is))"

definition managed_is_in_use :: "input_bind \<Rightarrow> managed \<Rightarrow> string option" where
  "managed_is_in_use b w = (if \<not> is_bound b then None else find_conflict (mg_registry w) [] b)"

definition managed_has_handler :: "string \<Rightarrow> managed \<Rightarrow> bool" where
  "managed_has_handler i w \<longleftrightarrow>
     (\<exists>r \<in> set_option (callback_of w i). \<not> pg_disabled (mg_gates w (rc_marker r)))"

definition managed_get :: "string \<Rightarrow> managed \<Rightarrow> input_bind option" where
  "managed_get i w = map_option mp_binding (map_of (mg_registry w) i)"

definition managed_set :: "string \<Rightarrow> input_bind \<Rightarrow> managed \<Rightarrow> managed \<times> (set_bind_error + unit)" where
  "managed_set i b w =
     (if \<not> validate_identifier i then (w, Inl InvalidIdentifier)
      else case find_conflict (mg_registry w) i b of
        Some c \<Rightarrow> (w, Inl (Conflict c))
      | None \<Rightarrow>
          (let m = (case map_of (mg_registry w) i of None \<Rightarrow> mapping_default | Some m \<Rightarrow> m)
           in (w\<lparr>mg_registry := bt_insert i (m\<lparr>mp_binding := normalized b\<rparr>) (mg_registry w)\<rparr>, Inr ())))"

definition managed_set_passthrough :: "string \<Rightarrow> bool \<Rightarrow> managed \<Rightarrow> managed \<times> bool" where
  "managed_set_passthrough i p w =
     (w\<lparr>mg_registry := bt_update i (\<lambda>m. m\<lparr>mp_passthrough := p\<rparr>) (mg_registry w)\<rparr>,
      map_of (mg_registry w) i \<noteq> None)"

definition managed_delete :: "string \<Rightarrow> managed \<Rightarrow> managed \<times> bool" where
  "managed_delete i w =
     (w\<lparr>mg_held := bt_remove i (mg_held w), mg_registry := bt_remove i (mg_registry w)\<rparr>,
      map_of (mg_registry w) i \<noteq> None)"

text \<open>
  The section of \<open>load_json\<close>: the entries the document named, with their bindings, in its order.
  It checks nothing against the registry. (The remaining members of an entry and the order of the
  document, which only \<open>save_json\<close> reads, are not kept here.)
\<close>

definition load_entry :: "string \<times> input_bind \<times> bool \<Rightarrow> managed \<Rightarrow> managed" where
  "load_entry e w =
     (case e of (i, b, p) \<Rightarrow>
        (let m = (case map_of (mg_registry w) i of None \<Rightarrow> mapping_default | Some m \<Rightarrow> m)
         in w\<lparr>mg_registry := bt_insert i (m\<lparr>mp_binding := b, mp_passthrough := p\<rparr>) (mg_registry w)\<rparr>))"

definition managed_load :: "(string \<times> input_bind \<times> bool) list \<Rightarrow> managed \<Rightarrow> managed" where
  "managed_load es w = fold load_entry es w"

definition managed_start_capture :: "managed \<Rightarrow> managed" where
  "managed_start_capture w = w\<lparr>mg_capture := capture_start (mg_capture w)\<rparr>"

definition managed_stop_capture :: "managed \<Rightarrow> managed" where
  "managed_stop_capture w = w\<lparr>mg_capture := capture_stop (mg_capture w)\<rparr>"

section \<open>The sections of a route\<close>

definition capture_section :: "input_message \<Rightarrow> managed \<Rightarrow> managed \<times> capture_outcome" where
  "capture_section msg w =
     (let (c, out) = capture_process msg (mg_capture w) in (w\<lparr>mg_capture := c\<rparr>, out))"

type_synonym selected_press = "string \<times> bool \<times> registered_callback option"

definition press_section :: "input_bind \<Rightarrow> managed \<Rightarrow> managed \<times> selected_press option" where
  "press_section b w =
     (case find (\<lambda>(i, m). mp_binding m = b) (mg_registry w) of
        None \<Rightarrow> (w, None)
      | Some (i, m) \<Rightarrow>
          (if map_of (mg_held w) i \<noteq> None then (w, None)
           else (w\<lparr>mg_held := bt_insert i b (mg_held w)\<rparr>,
                 Some (i, mp_passthrough m, callback_of w i))))"

type_synonym released = "(string \<times> registered_callback option) list"

definition release_matching_section :: "(input_bind \<Rightarrow> bool) \<Rightarrow> managed \<Rightarrow> managed \<times> released" where
  "release_matching_section p w =
     (let is = map fst (filter (\<lambda>(i, b). p b) (mg_held w))
      in (w\<lparr>mg_held := fold bt_remove is (mg_held w)\<rparr>, map (\<lambda>i. (i, callback_of w i)) is))"

definition release_all_section :: "managed \<Rightarrow> managed \<times> released" where
  "release_all_section w =
     (w\<lparr>mg_held := []\<rparr>, map (\<lambda>i. (i, callback_of w i)) (map fst (mg_held w)))"

section \<open>Callbacks and routing\<close>

datatype callback_result = CbReturned bool | CbPanicked

text \<open>
  Foreign code: what a callback does with an identifier and a release flag, and what the
  executor does with a job (the flag says whether \<open>execute\<close> itself panicked).
\<close>

record managed_env =
  me_callback :: "nat \<Rightarrow> string \<Rightarrow> bool \<Rightarrow> managed \<Rightarrow> managed \<times> callback_result"
  me_execute :: "(managed \<Rightarrow> managed) \<Rightarrow> managed \<Rightarrow> managed \<times> bool"

text \<open>\<open>InlineExecutor\<close> runs the job at once.\<close>

definition inline_execute :: "(managed \<Rightarrow> managed) \<Rightarrow> managed \<Rightarrow> managed \<times> bool" where
  "inline_execute job w = (job w, False)"

record invoke_outcome =
  io_dispatched :: bool
  io_consumed :: bool
  io_panicked :: bool
  io_disabled :: bool

definition invoke_default :: invoke_outcome where
  "invoke_default =
     \<lparr>io_dispatched = False, io_consumed = False, io_panicked = False, io_disabled = False\<rparr>"

record route_outcome =
  ro_consumed :: bool
  ro_dispatched :: nat
  ro_callback_panics :: nat

definition route_default :: route_outcome where
  "route_default = \<lparr>ro_consumed = False, ro_dispatched = 0, ro_callback_panics = 0\<rparr>"

definition record_gate :: "nat \<Rightarrow> managed \<Rightarrow> managed" where
  "record_gate k w = w\<lparr>mg_gates := (mg_gates w)(k := panic_record (mg_gates w k))\<rparr>"

definition gate_outcome :: "nat \<Rightarrow> panic_gate \<Rightarrow> bool \<Rightarrow> bool \<Rightarrow> managed \<Rightarrow> invoke_outcome" where
  "gate_outcome k before dispatched consumed w =
     \<lparr>io_dispatched = dispatched, io_consumed = consumed,
      io_panicked = (pg_count before < pg_count (mg_gates w k)),
      io_disabled = pg_disabled (mg_gates w k)\<rparr>"

definition dispatch_async ::
  "managed_env \<Rightarrow> nat \<Rightarrow> (managed \<Rightarrow> managed \<times> callback_result) \<Rightarrow> managed \<Rightarrow> managed \<times> invoke_outcome"
where
  "dispatch_async env k call w =
     (let before = mg_gates w k;
          job = (\<lambda>v. case call v of (v', CbReturned _) \<Rightarrow> v' | (v', CbPanicked) \<Rightarrow> record_gate k v');
          (w1, panicked) = me_execute env job w;
          w2 = (if panicked then record_gate k w1 else w1)
      in (w2, gate_outcome k before (\<not> panicked) (\<not> panicked) w2))"

definition invoke_callback ::
  "managed_env \<Rightarrow> string \<Rightarrow> bool \<Rightarrow> registered_callback \<Rightarrow> managed \<Rightarrow> managed \<times> invoke_outcome"
where
  "invoke_callback env i release rc w =
     (let k = rc_marker rc
      in if pg_disabled (mg_gates w k) then (w, invoke_default\<lparr>io_disabled := True\<rparr>)
         else case rc_callback rc of
           OnlyAsync f \<Rightarrow>
             (if release then (w, invoke_default)
              else dispatch_async env k (me_callback env f i False) w)
         | ReleaseAsync f \<Rightarrow> dispatch_async env k (me_callback env f i release) w
         | Release f \<Rightarrow>
             (case me_callback env f i release w of
                (w1, CbReturned consumed) \<Rightarrow> (w1, gate_outcome k (mg_gates w k) True consumed w1)
              | (w1, CbPanicked) \<Rightarrow>
                  (let w2 = record_gate k w1
                   in (w2, gate_outcome k (mg_gates w k) False False w2))))"

definition managed_invoke :: "managed_env \<Rightarrow> string \<Rightarrow> bool \<Rightarrow> managed \<Rightarrow> managed \<times> invoke_outcome" where
  "managed_invoke env i release w =
     (case callback_of w i of None \<Rightarrow> (w, invoke_default) | Some rc \<Rightarrow> invoke_callback env i release rc w)"

definition merge_invoke :: "invoke_outcome \<Rightarrow> route_outcome \<Rightarrow> route_outcome" where
  "merge_invoke out r =
     r\<lparr>ro_dispatched := ro_dispatched r + of_bool (io_dispatched out),
       ro_callback_panics := ro_callback_panics r + of_bool (io_panicked out)\<rparr>"

fun invoke_releases :: "managed_env \<Rightarrow> released \<Rightarrow> route_outcome \<Rightarrow> managed \<Rightarrow> managed \<times> route_outcome" where
  "invoke_releases env [] r w = (w, r)"
| "invoke_releases env ((i, None) # l) r w = invoke_releases env l r w"
| "invoke_releases env ((i, Some rc) # l) r w =
     (let (w1, out) = invoke_callback env i True rc w
      in invoke_releases env l (merge_invoke out r) w1)"

definition managed_press :: "managed_env \<Rightarrow> input_bind \<Rightarrow> managed \<Rightarrow> managed \<times> route_outcome" where
  "managed_press env b w =
     (case press_section b w of
        (w1, None) \<Rightarrow> (w1, route_default)
      | (w1, Some (i, passthrough, cb)) \<Rightarrow>
          (let (w2, out) = (case cb of None \<Rightarrow> (w1, invoke_default)
                            | Some rc \<Rightarrow> invoke_callback env i False rc w1)
           in (w2, \<lparr>ro_consumed = io_consumed out \<and> \<not> passthrough,
                    ro_dispatched = of_bool (io_dispatched out),
                    ro_callback_panics = of_bool (io_panicked out)\<rparr>)))"

definition release_matching ::
  "managed_env \<Rightarrow> (input_bind \<Rightarrow> bool) \<Rightarrow> managed \<Rightarrow> managed \<times> route_outcome"
where
  "release_matching env p w =
     (let (w1, l) = release_matching_section p w in invoke_releases env l route_default w1)"

definition managed_release_all :: "managed_env \<Rightarrow> managed \<Rightarrow> managed \<times> route_outcome" where
  "managed_release_all env w =
     (let (w1, l) = release_all_section w in invoke_releases env l route_default w1)"

definition merge_route :: "route_outcome \<Rightarrow> route_outcome \<Rightarrow> route_outcome" where
  "merge_route t s =
     \<lparr>ro_consumed = ro_consumed t \<or> ro_consumed s, ro_dispatched = ro_dispatched t + ro_dispatched s,
      ro_callback_panics = ro_callback_panics t + ro_callback_panics s\<rparr>"

definition managed_route :: "managed_env \<Rightarrow> input_message \<Rightarrow> managed \<Rightarrow> managed \<times> route_outcome" where
  "managed_route env msg w =
     (let (w1, capture) = capture_section msg w
      in if co_consumed capture then (w1, route_default\<lparr>ro_consumed := True\<rparr>)
         else
           (let pressed = (if co_press_candidate capture \<and> is_bound (co_binding capture)
                           then managed_press env (co_binding capture) w1 else (w1, route_default))
            in case msg of
                 ActivateApp \<Rightarrow> managed_release_all env w1
               | KeyDown m code rep \<Rightarrow> pressed
               | MouseDown button \<Rightarrow> pressed
               | KeyUp m code \<Rightarrow>
                   (let (w2, out) = (case m of None \<Rightarrow> (w1, route_default)
                          | Some md \<Rightarrow> release_matching env (\<lambda>b. bind_requires b md) w1);
                        (w3, by_key) = release_matching env
                          (\<lambda>b. ib_device b = device_keyboard \<and> ib_code b = code) w2
                    in (w3, merge_route out by_key))
               | MouseUp button \<Rightarrow>
                   release_matching env (\<lambda>b. ib_device b = device_mouse \<and> ib_code b = mouse_code button) w1))"

section \<open>Histories of sections\<close>

text \<open>
  Any program of any number of threads is a sequence of these sections, whatever its callbacks
  do. The trace records what happened to held bindings: a press was selected for dispatch, a
  release was, or the identifier was dropped because its registration was removed.
\<close>

datatype managed_section =
    SecRegisterDefault string input_bind
  | SecRegister string owner_generation managed_callback input_bind
  | SecDeregister string
  | SecDeregisterOwner string owner_generation
  | SecRemoveRegistration string nat
  | SecCleanupOwner owner_generation
  | SecSet string input_bind
  | SecPassthrough string bool
  | SecDelete string
  | SecLoad "(string \<times> input_bind \<times> bool) list"
  | SecStartCapture
  | SecStopCapture
  | SecCapture input_message
  | SecPress input_bind
  | SecRelease "input_bind \<Rightarrow> bool"
  | SecReleaseAll
  | SecPanic nat

datatype held_event = Press string | Freed string | Dropped string

definition dropped :: "managed \<Rightarrow> managed \<Rightarrow> held_event list" where
  "dropped w w' = map Dropped (filter (\<lambda>i. map_of (mg_held w') i = None) (map fst (mg_held w)))"

fun section_apply :: "managed_section \<Rightarrow> managed \<Rightarrow> managed \<times> held_event list" where
  "section_apply (SecRegisterDefault i b) w = (fst (register_default i b w), [])"
| "section_apply (SecRegister i own cb b) w = (fst (managed_register i own cb b w), [])"
| "section_apply (SecDeregister i) w =
     (let w' = fst (managed_deregister i w) in (w', dropped w w'))"
| "section_apply (SecDeregisterOwner i own) w =
     (let w' = fst (deregister_for_owner i own w) in (w', dropped w w'))"
| "section_apply (SecRemoveRegistration i t) w =
     (let w' = fst (remove_registration i t w) in (w', dropped w w'))"
| "section_apply (SecCleanupOwner own) w =
     (let w' = fst (managed_cleanup_owner own w) in (w', dropped w w'))"
| "section_apply (SecSet i b) w = (fst (managed_set i b w), [])"
| "section_apply (SecPassthrough i p) w = (fst (managed_set_passthrough i p w), [])"
| "section_apply (SecDelete i) w =
     (let w' = fst (managed_delete i w) in (w', dropped w w'))"
| "section_apply (SecLoad es) w = (managed_load es w, [])"
| "section_apply SecStartCapture w = (managed_start_capture w, [])"
| "section_apply SecStopCapture w = (managed_stop_capture w, [])"
| "section_apply (SecCapture msg) w = (fst (capture_section msg w), [])"
| "section_apply (SecPress b) w =
     (case press_section b w of
        (w', None) \<Rightarrow> (w', []) | (w', Some (i, _, _)) \<Rightarrow> (w', [Press i]))"
| "section_apply (SecRelease p) w =
     (let (w', l) = release_matching_section p w in (w', map (Freed \<circ> fst) l))"
| "section_apply SecReleaseAll w =
     (let (w', l) = release_all_section w in (w', map (Freed \<circ> fst) l))"
| "section_apply (SecPanic k) w = (record_gate k w, [])"

fun section_run :: "managed_section list \<Rightarrow> managed \<Rightarrow> managed \<times> held_event list" where
  "section_run [] w = (w, [])"
| "section_run (s # ss) w =
     (let (w1, e1) = section_apply s w; (w2, e2) = section_run ss w1 in (w2, e1 @ e2))"

text \<open>
  The life of one identifier: a press is only selected when it is not held, a release or a drop
  only when it is. \<open>None\<close>: the trace breaks the rule.
\<close>

fun held_trace :: "string \<Rightarrow> held_event list \<Rightarrow> bool \<Rightarrow> bool option" where
  "held_trace i [] h = Some h"
| "held_trace i (Press j # es) h =
     (if j \<noteq> i then held_trace i es h else if h then None else held_trace i es True)"
| "held_trace i (Freed j # es) h =
     (if j \<noteq> i then held_trace i es h else if h then held_trace i es False else None)"
| "held_trace i (Dropped j # es) h =
     (if j \<noteq> i then held_trace i es h else if h then held_trace i es False else None)"

section \<open>The invariant\<close>

text \<open>
  No two identifiers share a bound combination. The invariant comes with it (\<open>u\<close>) or without: a
  loaded document may break it, and nothing else does.
\<close>

definition bindings_unique :: "managed \<Rightarrow> bool" where
  "bindings_unique w \<longleftrightarrow>
     distinct (filter is_bound (map (mp_binding \<circ> snd) (mg_registry w)))"

definition managed_wf :: "bool \<Rightarrow> managed \<Rightarrow> bool" where
  "managed_wf u w \<longleftrightarrow> bt_wf (mg_registry w) \<and> bt_wf (mg_held w) \<and>
     (u \<longrightarrow> (\<forall>i j b. managed_get i w = Some b \<longrightarrow> managed_get j w = Some b \<longrightarrow> is_bound b \<longrightarrow> i = j))"

lemma bindings_unique_iff:
  assumes "managed_wf False w"
  shows "bindings_unique w \<longleftrightarrow> managed_wf True w"
proof
  have d: "distinct (map fst (mg_registry w))" using assms by (simp add: managed_wf_def bt_wf_distinct)
  have m: "map_of (mg_registry w) i = Some m \<longleftrightarrow> (i, m) \<in> set (mg_registry w)" for i m
    using d by simp
  have dl: "distinct (mg_registry w)" using d by (simp add: distinct_map)
  {
    assume u: "bindings_unique w"
    have "i = j" if "managed_get i w = Some b" "managed_get j w = Some b" "is_bound b" for i j b
    proof -
      from that(1,2) obtain x y where x: "(i, x) \<in> set (mg_registry w)" "mp_binding x = b"
        and y: "(j, y) \<in> set (mg_registry w)" "mp_binding y = b"
        by (auto simp: managed_get_def m)
      have "inj_on (mp_binding \<circ> snd) (set (filter (is_bound \<circ> (mp_binding \<circ> snd)) (mg_registry w)))"
        using u by (simp add: bindings_unique_def filter_map distinct_map)
      from inj_onD [OF this, of "(i, x)" "(j, y)"] x y that(3) show ?thesis by simp
    qed
    then show "managed_wf True w" using assms by (auto simp: managed_wf_def)
  }
  assume wf: "managed_wf True w"
  have "x = y" if "x \<in> set (mg_registry w)" "y \<in> set (mg_registry w)"
    "mp_binding (snd x) = mp_binding (snd y)" "is_bound (mp_binding (snd y))" for x y
  proof -
    have g: "managed_get (fst x) w = Some (mp_binding (snd y))"
      "managed_get (fst y) w = Some (mp_binding (snd y))"
      using that m [of "fst x" "snd x"] m [of "fst y" "snd y"] by (simp_all add: managed_get_def)
    then have "fst x = fst y" using wf that(4) unfolding managed_wf_def by blast
    then show ?thesis using that(1,2) d by (metis eq_key_imp_eq_value prod.collapse)
  qed
  then show "bindings_unique w"
    using dl by (auto simp: bindings_unique_def filter_map distinct_map inj_on_def comp_def)
qed

lemma managed_wf_weaken: "managed_wf u w \<Longrightarrow> managed_wf False w"
  by (simp add: managed_wf_def)

lemma managed_new_wf [simp]: "managed_wf u (managed_new m)"
  by (simp add: managed_wf_def managed_new_def managed_get_def)

text \<open>Changes that keep the bindings keep the invariant.\<close>

lemma managed_wf_update:
  assumes "managed_wf u w" and "\<And>m. mp_binding (f m) = mp_binding m"
    and "mg_registry w' = bt_update i f (mg_registry w)" and "bt_wf (mg_held w')"
  shows "managed_wf u w'"
proof -
  have "managed_get j w' = managed_get j w" for j
    using assms(2,3) by (simp add: managed_get_def option.map_comp comp_def)
  then show ?thesis using assms(1,3,4) by (simp add: managed_wf_def)
qed

lemma managed_wf_same:
  "managed_wf u w \<Longrightarrow> mg_registry w' = mg_registry w \<Longrightarrow> bt_wf (mg_held w') \<Longrightarrow> managed_wf u w'"
  by (simp add: managed_wf_def managed_get_def)

lemma managed_load_wf:
  assumes "managed_wf u w"
  shows "managed_wf False (managed_load es w)" and "mg_held (managed_load es w) = mg_held w"
proof -
  have "bt_wf (mg_registry w) \<Longrightarrow> bt_wf (mg_registry (managed_load es w)) \<and>
      mg_held (managed_load es w) = mg_held w" for w
    unfolding managed_load_def
    by (induction es arbitrary: w) (auto simp: load_entry_def Let_def)
  then show "managed_wf False (managed_load es w)" and "mg_held (managed_load es w) = mg_held w"
    using assms by (simp_all add: managed_wf_def)
qed

text \<open>A load that leaves no shared combination; every other section counts as such.\<close>

fun clean_section :: "managed_section \<Rightarrow> managed \<Rightarrow> bool" where
  "clean_section (SecLoad es) w \<longleftrightarrow> bindings_unique (managed_load es w)"
| "clean_section _ w \<longleftrightarrow> True"

fun clean_loads :: "managed_section list \<Rightarrow> managed \<Rightarrow> bool" where
  "clean_loads [] w \<longleftrightarrow> True"
| "clean_loads (s # ss) w \<longleftrightarrow> clean_section s w \<and> clean_loads ss (fst (section_apply s w))"

lemma find_conflict_None:
  assumes "find_conflict (mg_registry w) i b = None" and "is_bound b"
    and "managed_get j w = Some b"
  shows "j = i"
proof -
  obtain m where "map_of (mg_registry w) j = Some m" and b: "mp_binding m = b"
    using assms(3) by (auto simp: managed_get_def)
  then have "(j, m) \<in> set (mg_registry w)" by (auto dest: map_of_SomeD)
  with assms(1,2) b show ?thesis by (auto simp: find_conflict_def find_None_iff split: if_splits)
qed

lemma is_bound_normalized [simp]: "is_bound (normalized b) = is_bound b"
  by (simp add: normalized_def is_bound_def input_bind_default_def)

lemma normalized_bound: "is_bound b \<Longrightarrow> normalized b = b"
  by (simp add: normalized_def is_bound_def)

lemma default_unbound [simp]: "\<not> is_bound input_bind_default"
  by (simp add: is_bound_def input_bind_default_def)

text \<open>An entry whose binding was checked for conflicts keeps it, inserted or replaced.\<close>

lemma managed_wf_insert:
  assumes "managed_wf u w" and "find_conflict (mg_registry w) i b = None \<or> c = input_bind_default"
    and "c = normalized b \<or> c = input_bind_default"
    and "mg_registry w' = bt_insert i m (mg_registry w)" and "mp_binding m = c"
    and "mg_held w' = mg_held w"
  shows "managed_wf u w'"
proof -
  have clash: "j = i" if "managed_get j w = Some c" "is_bound c" for j
  proof -
    have "c = b" "is_bound b" "find_conflict (mg_registry w) i b = None"
      using that(2) assms(2,3) normalized_bound by auto
    then show ?thesis using find_conflict_None that(1) by blast
  qed
  have get: "managed_get x w' = (if x = i then Some c else managed_get x w)" for x
    using assms(4,5) by (simp add: managed_get_def)
  have wf: "bt_wf (mg_registry w')" "bt_wf (mg_held w')"
    using assms(1,4,6) by (simp_all add: managed_wf_def)
  show ?thesis
    unfolding managed_wf_def get
    using wf clash assms(1) by (auto simp: managed_wf_def)
qed

lemma take_callback_wf: "managed_wf u w \<Longrightarrow> managed_wf u (take_callback i w)"
  by (rule managed_wf_update [where f = "\<lambda>m. m\<lparr>mp_callback := None\<rparr>" and i = i])
    (simp_all add: take_callback_def managed_wf_def)

lemma fold_take_callback_wf: "managed_wf u w \<Longrightarrow> managed_wf u (fold take_callback is w)"
  by (induction "is" arbitrary: w) (simp_all add: take_callback_wf)

lemma bt_wf_fold_remove: "bt_wf m \<Longrightarrow> bt_wf (fold bt_remove ks m)"
  by (induction ks arbitrary: m) simp_all

lemma fold_remove_get: "map_of (fold bt_remove ks m) k = (if k \<in> set ks then None else map_of m k)"
  by (induction ks arbitrary: m) auto

lemma fold_take_callback_held:
  "mg_held (fold take_callback is w) = fold bt_remove is (mg_held w)"
  by (induction "is" arbitrary: w) (simp_all add: take_callback_def)

lemma managed_register_cases:
  assumes "managed_register i own cb b w = (w', r)"
  shows "mg_held w' = mg_held w"
    and "managed_wf u w \<Longrightarrow> managed_wf u w'"
proof -
  show held: "mg_held w' = mg_held w"
    using assms by (auto simp: managed_register_def Let_def split: option.splits if_splits prod.splits)
  assume wf: "managed_wf u w"
  obtain c out where d: "default_for (mg_registry w) i b = (c, out)" by fastforce
  consider "mg_registry w' = mg_registry w"
    | rc where "mg_registry w' = bt_update i (\<lambda>m. m\<lparr>mp_callback := Some rc\<rparr>) (mg_registry w)"
    | rc where "mg_registry w' = bt_insert i
        \<lparr>mp_binding = c, mp_passthrough = False, mp_callback = Some rc\<rparr> (mg_registry w)"
    using assms d
    by (auto simp: managed_register_def Let_def split: option.splits if_splits prod.splits)
  then show "managed_wf u w'"
  proof cases
    case 1
    then show ?thesis using wf held by (simp add: managed_wf_def managed_get_def)
  next
    case 2
    then show ?thesis
      using wf held by (intro managed_wf_update [OF wf _ 2]) (simp_all add: managed_wf_def)
  next
    case 3
    show ?thesis
      by (rule managed_wf_insert [OF wf _ _ 3 _ held, of b c])
        (use d in \<open>auto simp: default_for_def split: if_splits\<close>)
  qed
qed

section \<open>Traces\<close>

definition is_held :: "managed \<Rightarrow> string \<Rightarrow> bool" where
  "is_held w i \<longleftrightarrow> map_of (mg_held w) i \<noteq> None"

lemma held_trace_append:
  "held_trace i (xs @ ys) h = Option.bind (held_trace i xs h) (held_trace i ys)"
  by (induction i xs h rule: held_trace.induct) auto

lemma held_trace_ends:
  assumes "distinct is" and "c = Freed \<or> c = Dropped"
  shows "held_trace i (map c is) h =
     (if i \<in> set is then (if h then Some False else None) else Some h)"
  using assms by (induction "is" arbitrary: h) auto

lemma held_keys: "is_held w i \<longleftrightarrow> i \<in> fst ` set (mg_held w)"
  by (simp add: is_held_def map_of_eq_None_iff)

lemma dropped_trace:
  assumes "bt_wf (mg_held w)" and "\<And>i. is_held w' i \<Longrightarrow> is_held w i"
  shows "held_trace i (dropped w w') (is_held w i) = Some (is_held w' i)"
proof -
  have d: "distinct (map fst (mg_held w))" using assms(1) by (rule bt_wf_distinct)
  have "i \<in> set (filter (\<lambda>i. map_of (mg_held w') i = None) (map fst (mg_held w))) \<longleftrightarrow>
      is_held w i \<and> \<not> is_held w' i"
    by (auto simp: held_keys [of w] is_held_def [of w'])
  with d assms(2) [of i] show ?thesis
    by (auto simp: dropped_def held_trace_ends)
qed

text \<open>One section: the invariant is kept, and its events are the change of the held set.\<close>

definition section_ok :: "bool \<Rightarrow> managed \<Rightarrow> managed \<Rightarrow> held_event list \<Rightarrow> bool" where
  "section_ok u w w' es \<longleftrightarrow> managed_wf u w' \<and>
     (\<forall>i. held_trace i es (is_held w i) = Some (is_held w' i))"

lemma section_quiet: "managed_wf u w' \<Longrightarrow> mg_held w' = mg_held w \<Longrightarrow> section_ok u w w' []"
  by (simp add: section_ok_def is_held_def)

lemma section_drops:
  assumes "managed_wf u w" and "managed_wf u w'" and "\<And>i. is_held w' i \<Longrightarrow> is_held w i"
  shows "section_ok u w w' (dropped w w')"
  using dropped_trace [of w w'] assms by (simp add: section_ok_def managed_wf_def)

lemma take_callback_held: "is_held (take_callback i w) j \<Longrightarrow> is_held w j"
  by (simp add: is_held_def take_callback_def split: if_splits)

lemma press_section_ok:
  assumes "managed_wf u w" and "press_section b w = (w', sel)"
  shows "section_ok u w w' (case sel of None \<Rightarrow> [] | Some (i, _, _) \<Rightarrow> [Press i])"
proof (cases sel)
  case None
  then have "w' = w" using assms(2) by (auto simp: press_section_def split: option.splits if_splits prod.splits)
  with None assms(1) show ?thesis by (simp add: section_quiet)
next
  case (Some x)
  then obtain i p cb where x: "sel = Some (i, p, cb)" by (cases x) auto
  then have w': "w' = w\<lparr>mg_held := bt_insert i b (mg_held w)\<rparr>" and h: "\<not> is_held w i"
    using assms(2) by (auto simp: press_section_def is_held_def split: option.splits if_splits)
  have "managed_wf u w'"
    using assms(1) w' by (intro managed_wf_same [OF assms(1)]) (simp_all add: managed_wf_def)
  moreover have "is_held w' j \<longleftrightarrow> j = i \<or> is_held w j" for j
    by (simp add: w' is_held_def)
  ultimately show ?thesis using h x by (auto simp: section_ok_def)
qed

lemma release_section_ok:
  assumes "managed_wf u w" and "release_matching_section p w = (w', l)"
  shows "section_ok u w w' (map (Freed \<circ> fst) l)"
proof -
  define ids where "ids = map fst (filter (\<lambda>(i, b). p b) (mg_held w))"
  have w': "w' = w\<lparr>mg_held := fold bt_remove ids (mg_held w)\<rparr>" and l: "map (Freed \<circ> fst) l = map Freed ids"
    using assms(2) by (auto simp: release_matching_section_def Let_def comp_def ids_def)
  have d: "distinct ids"
    using assms(1) unfolding ids_def
    by (intro distinct_map_filter) (simp add: managed_wf_def bt_wf_distinct)
  have "managed_wf u w'"
    using assms(1) w' by (intro managed_wf_same [OF assms(1)]) (simp_all add: managed_wf_def bt_wf_fold_remove)
  moreover have "is_held w' i \<longleftrightarrow> is_held w i \<and> i \<notin> set ids" for i
    by (simp add: w' is_held_def fold_remove_get)
  moreover have "i \<in> set ids \<Longrightarrow> is_held w i" for i by (auto simp: held_keys ids_def)
  ultimately show ?thesis
    unfolding l section_ok_def using d by (auto simp: held_trace_ends)
qed

lemma release_all_section_ok:
  assumes "managed_wf u w" and "release_all_section w = (w', l)"
  shows "section_ok u w w' (map (Freed \<circ> fst) l)"
proof -
  define ids where "ids = map fst (mg_held w)"
  have w': "w' = w\<lparr>mg_held := []\<rparr>" and l: "map (Freed \<circ> fst) l = map Freed ids"
    using assms(2) by (auto simp: release_all_section_def comp_def ids_def)
  have "managed_wf u w'" by (rule managed_wf_same [OF assms(1)]) (simp_all add: w')
  moreover have "distinct ids" using assms(1) by (simp add: managed_wf_def bt_wf_distinct ids_def)
  moreover have "\<not> is_held w' i" "is_held w i \<longleftrightarrow> i \<in> set ids" for i
    by (simp add: w' is_held_def) (simp add: held_keys ids_def)
  ultimately show ?thesis
    unfolding l section_ok_def by (auto simp: held_trace_ends)
qed

lemma section_apply_ok:
  assumes "managed_wf u w" and "section_apply s w = (w', es)" and "u \<Longrightarrow> clean_section s w"
  shows "section_ok u w w' es"
proof (cases s)
  case (SecRegisterDefault i b)
  have "managed_wf u (fst (register_default i b w)) \<and> mg_held (fst (register_default i b w)) = mg_held w"
  proof (cases "validate_identifier i \<and> map_of (mg_registry w) i = None")
    case True
    obtain c out where d: "default_for (mg_registry w) i b = (c, out)" by fastforce
    have "managed_wf u (fst (register_default i b w))"
      by (rule managed_wf_insert [OF assms(1), of i b c _ "mapping_default\<lparr>mp_binding := c\<rparr>"])
        (use d True in \<open>auto simp: register_default_def default_for_def split: if_splits\<close>)
    then show ?thesis using True d by (simp add: register_default_def)
  next
    case False
    then show ?thesis using assms(1) by (auto simp: register_default_def)
  qed
  then show ?thesis using assms(2) SecRegisterDefault by (auto intro: section_quiet)
next
  case (SecRegister i own cb b)
  then show ?thesis
    using managed_register_cases [of i own cb b w] assms
    by (cases "managed_register i own cb b w") (auto intro: section_quiet)
next
  case (SecSet i b)
  have "managed_wf u (fst (managed_set i b w)) \<and> mg_held (fst (managed_set i b w)) = mg_held w"
  proof (cases "validate_identifier i \<and> find_conflict (mg_registry w) i b = None")
    case True
    have "managed_wf u (fst (managed_set i b w))"
      by (rule managed_wf_insert [OF assms(1), of i b "normalized b" _
            "(case map_of (mg_registry w) i of None \<Rightarrow> mapping_default | Some m \<Rightarrow> m)\<lparr>mp_binding := normalized b\<rparr>"])
        (use True in \<open>auto simp: managed_set_def Let_def\<close>)
    then show ?thesis using True by (simp add: managed_set_def Let_def)
  next
    case False
    then show ?thesis using assms(1) by (auto simp: managed_set_def split: option.splits)
  qed
  then show ?thesis using assms(2) SecSet by (auto intro: section_quiet)
next
  case (SecPassthrough i p)
  have "managed_wf u (fst (managed_set_passthrough i p w))"
    by (rule managed_wf_update [OF assms(1), of "\<lambda>m. m\<lparr>mp_passthrough := p\<rparr>" _ i])
      (use assms(1) in \<open>simp_all add: managed_set_passthrough_def managed_wf_def\<close>)
  then show ?thesis
    using assms(2) SecPassthrough by (auto simp: managed_set_passthrough_def intro: section_quiet)
next
  case (SecDelete i)
  have "managed_wf u (fst (managed_delete i w))"
    using assms(1) by (auto simp: managed_wf_def managed_delete_def managed_get_def)
  moreover have "is_held (fst (managed_delete i w)) j \<Longrightarrow> is_held w j" for j
    by (simp add: is_held_def managed_delete_def split: if_splits)
  ultimately show ?thesis
    using assms SecDelete by (auto simp: Let_def intro: section_drops)
next
  case (SecLoad es')
  have "managed_wf u (managed_load es' w)"
    using managed_load_wf(1) [OF assms(1), of es'] assms(3) bindings_unique_iff SecLoad
    by (cases u) auto
  then show ?thesis
    using assms(2) SecLoad managed_load_wf(2) [OF assms(1)] by (auto intro: section_quiet)
next
  case (SecPress b)
  then show ?thesis
    using assms press_section_ok [OF assms(1), of b]
    by (cases "press_section b w") (auto split: option.splits prod.splits)
next
  case (SecRelease p)
  then show ?thesis
    using assms release_section_ok [OF assms(1), of p] by (cases "release_matching_section p w") auto
next
  case SecReleaseAll
  then show ?thesis
    using assms release_all_section_ok [OF assms(1)] by (cases "release_all_section w") auto
next
  case (SecDeregister i)
  then show ?thesis
    using assms by (auto simp: managed_deregister_def Let_def
        intro!: section_drops take_callback_wf dest: take_callback_held)
next
  case (SecDeregisterOwner i own)
  then show ?thesis
    using assms by (auto simp: deregister_for_owner_def Let_def
        intro!: section_drops take_callback_wf dest: take_callback_held split: if_splits)
next
  case (SecRemoveRegistration i t)
  then show ?thesis
    using assms by (auto simp: remove_registration_def Let_def
        intro!: section_drops take_callback_wf dest: take_callback_held split: if_splits)
next
  case (SecCleanupOwner own)
  then show ?thesis
    using assms by (auto simp: managed_cleanup_owner_def Let_def is_held_def fold_take_callback_held
        fold_remove_get intro!: section_drops fold_take_callback_wf split: if_splits)
qed (use assms in \<open>auto simp: managed_start_capture_def managed_stop_capture_def capture_section_def
    record_gate_def managed_wf_def managed_get_def split: prod.splits intro!: section_quiet\<close>)

lemma section_run_ok:
  assumes "managed_wf u w" and "section_run ss w = (w', es)" and "u \<Longrightarrow> clean_loads ss w"
  shows "section_ok u w w' es"
  using assms
proof (induction ss arbitrary: w es)
  case Nil
  then show ?case by (simp add: section_quiet)
next
  case (Cons s ss)
  obtain w1 e1 w2 e2 where r: "section_apply s w = (w1, e1)" "section_run ss w1 = (w2, e2)" by fastforce
  have a: "section_ok u w w1 e1"
    by (rule section_apply_ok [OF Cons.prems(1) r(1)]) (use Cons.prems(3) in simp)
  moreover have "w' = w2" "es = e1 @ e2" using Cons.prems(2) r by simp_all
  moreover have "section_ok u w1 w' e2"
    by (rule Cons.IH) (use a r \<open>w' = w2\<close> Cons.prems(3) in \<open>simp_all add: section_ok_def\<close>)
  ultimately show ?case by (simp add: section_ok_def held_trace_append)
qed

section \<open>Cleanup\<close>

text \<open>The identifiers an owner generation has callbacks under, as its cleanup sees them.\<close>

lemma fold_take_callback_registry:
  "mg_registry (fold take_callback is w) =
     map (\<lambda>(i, m). (i, if i \<in> set is then m\<lparr>mp_callback := None\<rparr> else m)) (mg_registry w)"
proof (induction "is" arbitrary: w)
  case (Cons i "is")
  show ?case
    unfolding fold.simps comp_def Cons.IH
    by (auto simp: take_callback_def bt_update_def)
qed (simp add: case_prod_unfold)

interpretation managed: owner_cleanup "managed_wf u" "\<lambda>own w. fst (managed_cleanup_owner own w)"
  "\<lambda>w own. owned_identifiers own w"
proof
  fix o1 o2 s assume wf: "managed_wf u s"
  have d: "distinct (map fst (mg_registry s))" using wf by (simp add: managed_wf_def bt_wf_distinct)
  show "managed_wf u (fst (managed_cleanup_owner o1 s))"
    using wf by (simp add: managed_cleanup_owner_def Let_def fold_take_callback_wf)
  have own: "i \<in> set (owned_identifiers o1 s) \<longleftrightarrow> (\<exists>r \<in> set_option (mp_callback m). rc_owner r = o1)"
    if "(i, m) \<in> set (mg_registry s)" for i m
    using that d by (force simp: owned_identifiers_def dest: eq_key_imp_eq_value)
  have reg: "mg_registry (fst (managed_cleanup_owner o1 s)) =
      map (\<lambda>(i, m). (i, if \<exists>r \<in> set_option (mp_callback m). rc_owner r = o1
        then m\<lparr>mp_callback := None\<rparr> else m)) (mg_registry s)"
    unfolding managed_cleanup_owner_def Let_def fst_conv fold_take_callback_registry
    using own by (intro map_cong) auto
  show "owned_identifiers o1 (fst (managed_cleanup_owner o1 s)) = []"
    by (auto simp: owned_identifiers_def reg filter_empty_conv split: if_splits)
  show "owned_identifiers o2 (fst (managed_cleanup_owner o1 s)) = owned_identifiers o2 s" if "o2 \<noteq> o1"
    unfolding owned_identifiers_def reg filter_map map_map
    using that by (intro map_cong filter_cong) (auto split: if_splits)
qed

section \<open>Properties\<close>


text \<open>
  C20. A combination means one action, up to loaded documents: whatever was registered, rebound,
  loaded, deregistered and deleted, in any order, no two identifiers have the same bound
  combination, so a press is never ambiguous, provided that each load of a document left it so.
  Loading is the only section that does not check; \<open>load_admits_conflict\<close> is a document that
  breaks the rule.
\<close>
theorem managed_bindings_unique:
  assumes "clean_loads ss (managed_new m)"
  shows "distinct (filter is_bound (map (mp_binding \<circ> snd) (mg_registry (fst (section_run ss (managed_new m))))))"
proof -
  let ?w = "fst (section_run ss (managed_new m))"
  have "managed_wf True ?w"
    using section_run_ok [OF managed_new_wf prod.collapse [symmetric]] assms
    by (simp add: section_ok_def)
  then have "bindings_unique ?w" using bindings_unique_iff managed_wf_weaken by blast
  then show ?thesis by (simp add: bindings_unique_def)
qed

definition demo_bind :: "u16 \<Rightarrow> input_bind" where
  "demo_bind code =
     \<lparr>ib_alt = False, ib_control = True, ib_shift = False, ib_device = device_keyboard, ib_code = code\<rparr>"

theorem managed_bindings_unique_witness:
  "distinct (filter is_bound (map (mp_binding \<circ> snd)
     (mg_registry (fst (section_run
        [SecLoad [(''a'', demo_bind 30, False), (''b'', demo_bind 31, True)], SecSet ''c'' (demo_bind 30),
         SecSet ''b'' (demo_bind 32)] (managed_new 3))))))"
proof -
  have "clean_loads [SecLoad [(''a'', demo_bind 30, False), (''b'', demo_bind 31, True)],
      SecSet ''c'' (demo_bind 30), SecSet ''b'' (demo_bind 32)] (managed_new 3)"
    by (simp add: managed_load_def load_entry_def managed_new_def bindings_unique_def demo_bind_def
        mapping_default_def is_bound_def device_defs)
  then show ?thesis by (rule managed_bindings_unique)
qed

text \<open>
  A document may give two identifiers one combination: both keep it, and a press of it only ever
  reaches the first of them. The same assignment through \<open>set\<close> is refused.
\<close>

theorem load_admits_conflict:
  "let w = managed_load [(''a'', demo_bind 30, False), (''b'', demo_bind 30, False)] (managed_new 3)
   in managed_get ''a'' w = Some (demo_bind 30) \<and> managed_get ''b'' w = Some (demo_bind 30) \<and>
      map_option fst (snd (press_section (demo_bind 30) w)) = Some ''a'' \<and>
      snd (managed_set ''b'' (demo_bind 30) w) = Inl (Conflict ''a'')"
  by (simp add: managed_load_def load_entry_def managed_new_def demo_bind_def mapping_default_def
      managed_get_def press_section_def managed_set_def find_conflict_def validate_identifier_def
      max_identifier_bytes_def is_bound_def device_defs) blast

end
