(* ===== verification/Raw_WndProc.thy ===== *)
theory Raw_WndProc
  imports Panic_Gate
begin

text \<open>
  The raw window-procedure callbacks (src/crates/nexus-input/src/raw.rs). Entries are shared
  between the registry and the snapshots of running routes, so the atomics of an entry (its
  panic gate) are in a store indexed by the token, which is never reused; the callbacks are
  foreign code and may call the registry themselves, so they are functions on it.
\<close>

type_synonym raw_token = "128 word"

record raw_message =
  rm_window :: usize
  rm_message :: u32
  rm_wparam :: usize
  rm_lparam :: "64 word"

datatype raw_route = RouteContinue | RouteConsume

record raw_route_report =
  rp_route :: raw_route
  rp_invoked :: usize
  rp_panics :: u32
  rp_disabled :: usize

type_synonym raw_callback = nat

record raw_entry =
  re_owner :: owner_generation
  re_callback_id :: "callback_id option"
  re_callback :: raw_callback

record raw_registry =
  rr_next_token :: raw_token
  rr_entries :: "(raw_token, raw_entry) btree"
  rr_gates :: "raw_token \<Rightarrow> panic_gate"
  rr_max_panics :: u32

definition raw_registry_new :: "u32 \<Rightarrow> raw_registry" where
  "raw_registry_new m =
     \<lparr>rr_next_token = 0, rr_entries = [], rr_gates = (\<lambda>_. panic_gate_new m), rr_max_panics = m\<rparr>"

text \<open>\<open>register_inner\<close>; \<open>None\<close> is the panic of \<open>expect\<close> when the tokens are exhausted.\<close>

definition raw_register ::
  "owner_generation \<Rightarrow> callback_id option \<Rightarrow> raw_callback \<Rightarrow> raw_registry \<Rightarrow>
   (raw_registry \<times> raw_token) option"
where
  "raw_register own cid cb r =
     (case checked_add (rr_next_token r) 1 of
        None \<Rightarrow> None
      | Some t \<Rightarrow>
          Some (r\<lparr>rr_next_token := t,
                  rr_entries := bt_insert t \<lparr>re_owner = own, re_callback_id = cid, re_callback = cb\<rparr>
                    (rr_entries r),
                  rr_gates := (rr_gates r)(t := panic_gate_new (rr_max_panics r))\<rparr>, t))"

definition raw_deregister :: "raw_token \<Rightarrow> raw_registry \<Rightarrow> raw_registry \<times> bool" where
  "raw_deregister t r =
     (r\<lparr>rr_entries := bt_remove t (rr_entries r)\<rparr>, map_of (rr_entries r) t \<noteq> None)"

text \<open>
  The two removals by predicate: the tokens of the matching entries are collected and removed
  one after the other.
\<close>

definition raw_remove_all ::
  "(raw_entry \<Rightarrow> bool) \<Rightarrow> raw_registry \<Rightarrow> raw_registry \<times> nat"
where
  "raw_remove_all p r =
     (let tokens = map fst (filter (\<lambda>(t, e). p e) (rr_entries r))
      in (r\<lparr>rr_entries := fold bt_remove tokens (rr_entries r)\<rparr>, length tokens))"

definition raw_deregister_callback ::
  "owner_generation \<Rightarrow> callback_id \<Rightarrow> raw_registry \<Rightarrow> raw_registry \<times> nat"
where
  "raw_deregister_callback own cid =
     raw_remove_all (\<lambda>e. re_owner e = own \<and> re_callback_id e = Some cid)"

definition raw_cleanup_owner_generation ::
  "owner_generation \<Rightarrow> raw_registry \<Rightarrow> raw_registry \<times> nat"
where
  "raw_cleanup_owner_generation own = raw_remove_all (\<lambda>e. re_owner e = own)"

section \<open>Routing\<close>

datatype raw_result = RawReturned raw_route | RawPanicked

type_synonym raw_handlers =
  "raw_callback \<Rightarrow> raw_message \<Rightarrow> raw_registry \<Rightarrow> raw_registry \<times> raw_result"

fun route_loop ::
  "raw_handlers \<Rightarrow> raw_message \<Rightarrow> (raw_token \<times> raw_entry) list \<Rightarrow> raw_route_report \<Rightarrow>
   raw_registry \<Rightarrow> raw_registry \<times> raw_route_report"
where
  "route_loop handlers msg [] rep r = (r, rep)"
| "route_loop handlers msg ((t, e) # es) rep r =
     (if pg_disabled (rr_gates r t)
      then route_loop handlers msg es (rep\<lparr>rp_disabled := rp_disabled rep + 1\<rparr>) r
      else
        (let rep1 = rep\<lparr>rp_invoked := rp_invoked rep + 1\<rparr>;
             (r1, result) = handlers (re_callback e) msg r
         in case result of
              RawReturned RouteContinue \<Rightarrow> route_loop handlers msg es rep1 r1
            | RawReturned RouteConsume \<Rightarrow> (r1, rep1\<lparr>rp_route := RouteConsume\<rparr>)
            | RawPanicked \<Rightarrow>
                route_loop handlers msg es (rep1\<lparr>rp_panics := rp_panics rep1 + 1\<rparr>)
                  (r1\<lparr>rr_gates := (rr_gates r1)(t := panic_record (rr_gates r1 t))\<rparr>)))"

definition raw_route :: "raw_handlers \<Rightarrow> raw_message \<Rightarrow> raw_registry \<Rightarrow> raw_registry \<times> raw_route_report" where
  "raw_route handlers msg r =
     route_loop handlers msg (rr_entries r)
       \<lparr>rp_route = RouteContinue, rp_invoked = 0, rp_panics = 0, rp_disabled = 0\<rparr> r"

section \<open>Removals\<close>

lemma bt_remove_filter: "bt_remove k m = filter (\<lambda>p. fst p \<noteq> k) m"
  by (simp add: bt_remove_def)

lemma fold_bt_remove: "fold bt_remove ks m = filter (\<lambda>p. fst p \<notin> set ks) m"
  by (induction ks arbitrary: m) (auto simp: bt_remove_filter conj_commute)

lemma raw_remove_all_entries:
  assumes "distinct (map fst (rr_entries r))"
  shows "rr_entries (fst (raw_remove_all p r)) = filter (\<lambda>x. \<not> p (snd x)) (rr_entries r)"
proof -
  have "fst x \<in> fst ` {y \<in> set (rr_entries r). p (snd y)} \<longleftrightarrow> p (snd x)" if "x \<in> set (rr_entries r)" for x
    using assms that by (auto simp: distinct_map inj_on_def)
  then show ?thesis
    unfolding raw_remove_all_def Let_def fold_bt_remove
    by (auto simp: case_prod_unfold intro!: filter_cong)
qed

definition raw_wf :: "raw_registry \<Rightarrow> bool" where
  "raw_wf r \<longleftrightarrow> bt_wf (rr_entries r) \<and> (\<forall>t \<in> fst ` set (rr_entries r). t \<le> rr_next_token r)"

lemma raw_registry_new_wf [simp]: "raw_wf (raw_registry_new m)"
  by (simp add: raw_wf_def raw_registry_new_def)

lemma bt_insert_last: "\<forall>k' \<in> fst ` set m. k' < k \<Longrightarrow> bt_insert k v m = m @ [(k, v)]"
  by (induction m) auto

lemma raw_register_effect:
  assumes "raw_wf r" and "raw_register own cid cb r = Some (r', t)"
  shows "rr_entries r' =
       rr_entries r @ [(t, \<lparr>re_owner = own, re_callback_id = cid, re_callback = cb\<rparr>)]"
    and "t = rr_next_token r + 1" and "rr_next_token r < t" and "raw_wf r'"
proof -
  from assms(2) have t: "checked_add (rr_next_token r) 1 = Some t"
    and r': "rr_entries r' = bt_insert t \<lparr>re_owner = own, re_callback_id = cid, re_callback = cb\<rparr>
       (rr_entries r)" "rr_next_token r' = t"
    by (auto simp: raw_register_def split: option.splits)
  from t show lt: "rr_next_token r < t" by (simp add: checked_add_Some_iff word_less_nat_alt)
  from t show "t = rr_next_token r + 1" by (auto simp: checked_add_def split: if_splits)
  have "\<forall>k' \<in> fst ` set (rr_entries r). k' < t"
    using assms(1) lt by (auto simp: raw_wf_def intro: le_less_trans)
  then show "rr_entries r' =
      rr_entries r @ [(t, \<lparr>re_owner = own, re_callback_id = cid, re_callback = cb\<rparr>)]"
    using r' by (simp add: bt_insert_last)
  show "raw_wf r'"
    using assms(1) r' lt by (auto simp: raw_wf_def intro: less_imp_le le_less_trans)
qed

lemma raw_remove_all_wf: "raw_wf r \<Longrightarrow> raw_wf (fst (raw_remove_all p r))"
  by (auto simp: raw_wf_def bt_wf_def sorted_wrt_map raw_remove_all_def Let_def fold_bt_remove
      intro: sorted_wrt_filter)

lemma raw_wf_distinct: "raw_wf r \<Longrightarrow> distinct (map fst (rr_entries r))"
  by (simp add: raw_wf_def bt_wf_distinct)

text \<open>The registrations of one owner generation, oldest first.\<close>

definition raw_owned :: "raw_registry \<Rightarrow> owner_generation \<Rightarrow> (raw_token \<times> raw_entry) list" where
  "raw_owned r own = filter (\<lambda>x. re_owner (snd x) = own) (rr_entries r)"

interpretation raw: owner_cleanup raw_wf "\<lambda>own r. fst (raw_cleanup_owner_generation own r)" raw_owned
proof
  fix o1 o2 s assume wf: "raw_wf s"
  note e = raw_remove_all_entries [OF raw_wf_distinct [OF wf]]
  show "raw_wf (fst (raw_cleanup_owner_generation o1 s))"
    using wf by (simp add: raw_cleanup_owner_generation_def raw_remove_all_wf)
  show "raw_owned (fst (raw_cleanup_owner_generation o1 s)) o1 = []"
    by (simp add: raw_owned_def raw_cleanup_owner_generation_def e)
  show "raw_owned (fst (raw_cleanup_owner_generation o1 s)) o2 = raw_owned s o2" if "o2 \<noteq> o1"
    using that by (auto simp: raw_owned_def raw_cleanup_owner_generation_def e intro!: filter_cong)
qed

section \<open>The panic budget of a route\<close>

text \<open>Handlers that leave the registry alone: \<open>outcome\<close> says what each callback does.\<close>

definition hands_off :: "(raw_callback \<Rightarrow> raw_result) \<Rightarrow> raw_handlers" where
  "hands_off outcome cb msg r = (r, outcome cb)"

lemma route_loop_entries:
  "rr_entries (fst (route_loop (hands_off outcome) msg es rep r)) = rr_entries r"
proof (induction es arbitrary: rep r)
  case (Cons x es)
  then show ?case
    by (cases x) (auto simp: Let_def hands_off_def split: raw_result.splits raw_route.splits)
qed simp

lemma route_loop_gates:
  assumes "distinct (map fst es)"
    and "\<forall>(t, e) \<in> set es. outcome (re_callback e) \<noteq> RawReturned RouteConsume"
  shows "rr_gates (fst (route_loop (hands_off outcome) msg es rep r)) t =
       (if \<exists>e. (t, e) \<in> set es \<and> outcome (re_callback e) = RawPanicked \<and> \<not> pg_disabled (rr_gates r t)
        then panic_record (rr_gates r t) else rr_gates r t)"
  using assms
proof (induction es arbitrary: rep r)
  case (Cons x es)
  obtain u e where x: "x = (u, e)" by fastforce
  have u: "(u, e') \<notin> set es" for e' using Cons.prems(1) x by force
  show ?case
    using Cons u x
    by (auto simp: Let_def hands_off_def split: raw_result.splits raw_route.splits)
qed simp

definition raw_route_times :: "nat \<Rightarrow> raw_handlers \<Rightarrow> raw_message \<Rightarrow> raw_registry \<Rightarrow> raw_registry" where
  "raw_route_times n handlers msg r = ((\<lambda>r. fst (raw_route handlers msg r)) ^^ n) r"

lemma raw_route_times_gates:
  assumes "raw_wf r" and "\<forall>(t, e) \<in> set (rr_entries r). outcome (re_callback e) \<noteq> RawReturned RouteConsume"
    and "(t, e) \<in> set (rr_entries r)" and "rr_gates r t = panic_gate_new m"
  shows "rr_gates (raw_route_times n (hands_off outcome) msg r) t =
      (if outcome (re_callback e) = RawPanicked
       then (panic_record ^^ min n (max (unat m) 1)) (panic_gate_new m) else panic_gate_new m) \<and>
    rr_entries (raw_route_times n (hands_off outcome) msg r) = rr_entries r"
proof (induction n)
  case 0
  then show ?case using assms(4) by (simp add: raw_route_times_def)
next
  case (Suc n)
  let ?r = "raw_route_times n (hands_off outcome) msg r"
  have next_r: "raw_route_times (Suc n) (hands_off outcome) msg r = fst (raw_route (hands_off outcome) msg ?r)"
    by (simp add: raw_route_times_def)
  have one: "(\<exists>e'. (t, e') \<in> set (rr_entries r) \<and> P e') \<longleftrightarrow> P e" for P
    using raw_wf_distinct [OF assms(1)] assms(3) by (auto dest: eq_key_imp_eq_value)
  have "rr_gates (fst (raw_route (hands_off outcome) msg ?r)) t =
      (if outcome (re_callback e) = RawPanicked \<and> \<not> pg_disabled (rr_gates ?r t)
       then panic_record (rr_gates ?r t) else rr_gates ?r t)"
    using Suc assms(2) raw_wf_distinct [OF assms(1)]
    by (simp add: raw_route_def route_loop_gates one)
  moreover have "rr_entries (fst (raw_route (hands_off outcome) msg ?r)) = rr_entries r"
    using Suc by (simp add: raw_route_def route_loop_entries)
  moreover have "min (Suc n) k = (if k \<le> n then k else Suc (min n k))" for k :: nat by simp
  ultimately show ?case
    using Suc next_r panic_budget [of "min n (max (unat m) 1)" m] by auto
qed

section \<open>Properties\<close>

text \<open>
  A panicking window-procedure callback is contained and isolated: over any number of
  messages that no callback consumes, a registered callback is disabled exactly when it panics
  and has been called as often as its budget (at least once) allows, and no callback is ever
  dropped from the registry by it.
\<close>
theorem raw_panic_isolation:
  assumes "raw_wf r" and "\<forall>(t, e) \<in> set (rr_entries r). outcome (re_callback e) \<noteq> RawReturned RouteConsume"
    and "(t, e) \<in> set (rr_entries r)" and "rr_gates r t = panic_gate_new m"
  shows "(pg_disabled (rr_gates (raw_route_times n (hands_off outcome) msg r) t) \<longleftrightarrow>
      outcome (re_callback e) = RawPanicked \<and> max (unat m) 1 \<le> n) \<and>
    rr_entries (raw_route_times n (hands_off outcome) msg r) = rr_entries r"
  using raw_route_times_gates [OF assms, of n msg]
  by (auto simp: panic_budget) (simp add: panic_gate_new_def)

definition demo_raw :: raw_registry where
  "demo_raw =
     fst (the (raw_register \<lparr>og_owner = 2, og_generation = 1\<rparr> None 8
       (fst (the (raw_register \<lparr>og_owner = 1, og_generation = 1\<rparr> None 7 (raw_registry_new 2))))))"

lemma demo_raw_eval:
  "rr_entries demo_raw =
     [(1, \<lparr>re_owner = \<lparr>og_owner = 1, og_generation = 1\<rparr>, re_callback_id = None, re_callback = 7\<rparr>),
      (2, \<lparr>re_owner = \<lparr>og_owner = 2, og_generation = 1\<rparr>, re_callback_id = None, re_callback = 8\<rparr>)]"
  "rr_gates demo_raw 1 = panic_gate_new 2" "rr_gates demo_raw 2 = panic_gate_new 2" "raw_wf demo_raw"
  by (simp_all add: demo_raw_def raw_register_def checked_add_def raw_registry_new_def raw_wf_def bt_wf_def)

definition demo_outcome :: "raw_callback \<Rightarrow> raw_result" where
  "demo_outcome cb = (if cb = 7 then RawPanicked else RawReturned RouteContinue)"

definition demo_message :: raw_message where
  "demo_message = \<lparr>rm_window = 0, rm_message = 256, rm_wparam = 65, rm_lparam = 0\<rparr>"

theorem raw_panic_isolation_witness:
  "pg_disabled (rr_gates (raw_route_times 2 (hands_off demo_outcome) demo_message demo_raw) 1) \<and>
   \<not> pg_disabled (rr_gates (raw_route_times 1 (hands_off demo_outcome) demo_message demo_raw) 1) \<and>
   \<not> pg_disabled (rr_gates (raw_route_times 2 (hands_off demo_outcome) demo_message demo_raw) 2)"
proof -
  have all: "\<forall>(t, e) \<in> set (rr_entries demo_raw).
      demo_outcome (re_callback e) \<noteq> RawReturned RouteConsume"
    by (simp add: demo_raw_eval demo_outcome_def)
  have 1: "pg_disabled (rr_gates (raw_route_times n (hands_off demo_outcome) demo_message demo_raw) 1) \<longleftrightarrow>
      2 \<le> n" for n
    using raw_panic_isolation [of demo_raw demo_outcome 1
        "\<lparr>re_owner = \<lparr>og_owner = 1, og_generation = 1\<rparr>, re_callback_id = None, re_callback = 7\<rparr>" 2 n demo_message]
      all by (simp add: demo_raw_eval demo_outcome_def) (simp add: numeral_2_eq_2)
  have 2: "\<not> pg_disabled (rr_gates (raw_route_times n (hands_off demo_outcome) demo_message demo_raw) 2)" for n
    using raw_panic_isolation [of demo_raw demo_outcome 2
        "\<lparr>re_owner = \<lparr>og_owner = 2, og_generation = 1\<rparr>, re_callback_id = None, re_callback = 8\<rparr>" 2 n demo_message]
      all by (simp add: demo_raw_eval demo_outcome_def)
  show ?thesis by (simp add: 1 2)
qed

end
