(* ===== verification/Game_Input.thy ===== *)
theory Game_Input
  imports Input_Bind
begin

text \<open>
  Game bindings and the press/release state machine that plays them
  (src/crates/nexus-input/src/game.rs and game_ids.rs). The sink that delivers messages to the
  game window and the poll of the physical modifiers are platform code: each call consumes one
  entry of a script (\<open>platform\<close>), and the game is what has received the messages delivered so
  far, so that properties can speak about the keys the game believes to be down.
\<close>

section \<open>Actions and bindings\<close>

type_synonym game_bind_id = u32

definition move_jump_swim_up_fly_up :: game_bind_id where "move_jump_swim_up_fly_up = 9"
definition legacy_move_swim_up :: game_bind_id where "legacy_move_swim_up = 10"

definition canonical :: "game_bind_id \<Rightarrow> game_bind_id" where
  "canonical a = (if a = legacy_move_swim_up then move_jump_swim_up_fly_up else a)"

lemma canonical_idem [simp]: "canonical (canonical a) = canonical a"
  by (simp add: canonical_def move_jump_swim_up_fly_up_def legacy_move_swim_up_def)

datatype game_slot = PrimarySlot | SecondarySlot

record multi_input_bind =
  mb_primary :: input_bind
  mb_secondary :: input_bind

definition multi_default :: multi_input_bind where
  "multi_default = \<lparr>mb_primary = input_bind_default, mb_secondary = input_bind_default\<rparr>"

definition multi_selected :: "multi_input_bind \<Rightarrow> input_bind option" where
  "multi_selected m =
     (if is_bound (mb_primary m) then Some (mb_primary m)
      else if is_bound (mb_secondary m) then Some (mb_secondary m)
      else None)"

type_synonym game_bindings = "(game_bind_id, multi_input_bind) btree"

definition bindings_get :: "game_bindings \<Rightarrow> game_bind_id \<Rightarrow> multi_input_bind option" where
  "bindings_get m a = map_of m (canonical a)"

definition bindings_is_bound :: "game_bindings \<Rightarrow> game_bind_id \<Rightarrow> bool" where
  "bindings_is_bound m a \<longleftrightarrow> Option.bind (bindings_get m a) multi_selected \<noteq> None"

definition bindings_is_bound_exact :: "game_bindings \<Rightarrow> game_bind_id \<Rightarrow> bool" where
  "bindings_is_bound_exact m a \<longleftrightarrow> Option.bind (map_of m a) multi_selected \<noteq> None"

definition bindings_set ::
  "game_bind_id \<Rightarrow> game_slot \<Rightarrow> input_bind \<Rightarrow> game_bindings \<Rightarrow> game_bindings \<times> bool"
where
  "bindings_set a slot b m =
     (if a = legacy_move_swim_up then (m, False)
      else
        (let entry = (case map_of m a of None \<Rightarrow> multi_default | Some e \<Rightarrow> e)
         in (bt_insert a
               (case slot of
                  PrimarySlot \<Rightarrow> entry\<lparr>mb_primary := normalized b\<rparr>
                | SecondarySlot \<Rightarrow> entry\<lparr>mb_secondary := normalized b\<rparr>) m, True)))"

section \<open>Messages\<close>

datatype game_message =
    ModifierMessage modifier bool bool
  | KeyboardMessage u16 bool bool
  | MouseMessage mouse_button bool modifier_state

datatype game_input_error = Unbound | AlreadyPressed | SinkFailed | SinkPanicked

definition modifier_message :: "modifier \<Rightarrow> bool \<Rightarrow> game_message" where
  "modifier_message m pressed = ModifierMessage m pressed (m = Alt)"

definition main_message :: "input_bind \<Rightarrow> bool \<Rightarrow> game_input_error + game_message" where
  "main_message b pressed =
     (if ib_device b = device_keyboard then Inr (KeyboardMessage (ib_code b) pressed (ib_alt b))
      else if ib_device b = device_mouse then
        (case mouse_from_code (ib_code b) of
           None \<Rightarrow> Inl Unbound
         | Some button \<Rightarrow>
             if button = NoButton then Inl Unbound
             else Inr (MouseMessage button pressed (bind_modifiers b)))
      else Inl Unbound)"

definition all_modifiers :: "modifier list" where
  "all_modifiers = [Alt, Control, Shift]"

definition press_messages ::
  "input_bind \<Rightarrow> modifier_state \<Rightarrow> game_input_error + game_message list"
where
  "press_messages b physical =
     (let desired = bind_modifiers b;
          modifiers = concat (map (\<lambda>m.
            if modifier_get m desired then [modifier_message m True]
            else if modifier_get m physical then [modifier_message m False]
            else []) all_modifiers)
      in case main_message b True of
           Inl e \<Rightarrow> Inl e
         | Inr msg \<Rightarrow> Inr (modifiers @ [msg]))"

definition release_messages ::
  "input_bind \<Rightarrow> modifier_state \<Rightarrow> game_input_error + game_message list"
where
  "release_messages b physical =
     (case main_message b False of
        Inl e \<Rightarrow> Inl e
      | Inr msg \<Rightarrow>
          Inr (msg # map (\<lambda>m. modifier_message m (modifier_get m physical)) all_modifiers))"

text \<open>The release of several bindings, in the order given; the first error wins.\<close>

fun release_all_messages ::
  "input_bind list \<Rightarrow> modifier_state \<Rightarrow> game_input_error + game_message list"
where
  "release_all_messages [] physical = Inr []"
| "release_all_messages (b # bs) physical =
     (case release_messages b physical of
        Inl e \<Rightarrow> Inl e
      | Inr ms \<Rightarrow>
          (case release_all_messages bs physical of Inl e \<Rightarrow> Inl e | Inr ms' \<Rightarrow> Inr (ms @ ms')))"

section \<open>The game\<close>

text \<open>
  What the game believes: which modifiers and which main keys and buttons are down. A key is
  a device and a code.
\<close>

record game_view =
  gv_modifiers :: modifier_state
  gv_down :: "(input_device \<times> u16) set"

definition set_key :: "input_device \<times> u16 \<Rightarrow> bool \<Rightarrow> (input_device \<times> u16) set \<Rightarrow> (input_device \<times> u16) set" where
  "set_key k pressed s = (if pressed then insert k s else s - {k})"

fun game_receive :: "game_message \<Rightarrow> game_view \<Rightarrow> game_view" where
  "game_receive (ModifierMessage m pressed sys) g =
     g\<lparr>gv_modifiers := modifier_set m pressed (gv_modifiers g)\<rparr>"
| "game_receive (KeyboardMessage code pressed sys) g =
     g\<lparr>gv_down := set_key (device_keyboard, code) pressed (gv_down g)\<rparr>"
| "game_receive (MouseMessage button pressed ms) g =
     g\<lparr>gv_down := set_key (device_mouse, mouse_code button) pressed (gv_down g)\<rparr>"

text \<open>
  One call of \<open>send_batch\<close>: it delivers the batch, or fails or panics with the last \<open>n\<close> messages
  of the batch not delivered. The trait does not say that \<open>n\<close> is positive, that is, that a batch
  that was delivered whole is not reported as failed; the sink of \<open>nexus-input-win32\<close>, which
  returns at the first message it cannot post, behaves so. What needs it has the hypothesis
  \<open>reports_undelivered\<close>.
\<close>

datatype send_verdict = Delivered | SendFails nat | SendPanics nat

record platform =
  pf_polls :: "nat \<Rightarrow> modifier_state option"
  pf_sends :: "nat \<Rightarrow> send_verdict"

definition batch_delivered :: "send_verdict \<Rightarrow> game_message list \<Rightarrow> game_message list" where
  "batch_delivered v ms =
     (case v of
        Delivered \<Rightarrow> ms
      | SendFails n \<Rightarrow> take (length ms - n) ms
      | SendPanics n \<Rightarrow> take (length ms - n) ms)"

definition reports_undelivered :: "platform \<Rightarrow> bool" where
  "reports_undelivered pf \<longleftrightarrow> (\<forall>k. pf_sends pf k \<notin> {SendFails 0, SendPanics 0})"

definition verdict_error :: "send_verdict \<Rightarrow> game_input_error option" where
  "verdict_error v =
     (case v of Delivered \<Rightarrow> None | SendFails n \<Rightarrow> Some SinkFailed | SendPanics n \<Rightarrow> Some SinkPanicked)"

section \<open>The invoker\<close>

datatype invoke_state = Pressed | Released | Scheduled

record game_dispatch =
  gd_action :: game_bind_id
  gd_state :: invoke_state
  gd_message_count :: nat
  gd_release_due :: "u64 option"

record active_press =
  ap_bindings :: "input_bind list"
  ap_release_due :: "u64 option"
  ap_marker :: nat

text \<open>\<open>iv_clock\<close> counts the calls of the platform made so far; markers are allocations.\<close>

record game_invoker =
  iv_registry :: game_bindings
  iv_active :: "(game_bind_id, active_press) btree"
  iv_clock :: nat
  iv_marker :: nat
  iv_game :: game_view

definition poll_modifiers ::
  "platform \<Rightarrow> game_invoker \<Rightarrow> game_invoker \<times> (game_input_error + modifier_state)"
where
  "poll_modifiers pf g =
     (g\<lparr>iv_clock := Suc (iv_clock g)\<rparr>,
      case pf_polls pf (iv_clock g) of None \<Rightarrow> Inl SinkPanicked | Some ms \<Rightarrow> Inr ms)"

definition send_messages ::
  "platform \<Rightarrow> game_message list \<Rightarrow> game_invoker \<Rightarrow> game_invoker \<times> game_input_error option"
where
  "send_messages pf ms g =
     (let v = pf_sends pf (iv_clock g)
      in (g\<lparr>iv_clock := Suc (iv_clock g),
            iv_game := fold game_receive (batch_delivered v ms) (iv_game g)\<rparr>,
          verdict_error v))"

definition selected_binding :: "game_invoker \<Rightarrow> game_bind_id \<Rightarrow> input_bind option" where
  "selected_binding g a = Option.bind (bindings_get (iv_registry g) a) multi_selected"

text \<open>
  The sequence both presses share: poll, build the messages, send them; \<open>after\<close> is what the
  caller does to its state when everything succeeded.
\<close>

definition press_with ::
  "platform \<Rightarrow> game_bind_id \<Rightarrow> (input_bind \<Rightarrow> game_invoker \<Rightarrow> game_invoker \<times> nat) \<Rightarrow> game_invoker \<Rightarrow>
   game_invoker \<times> (game_input_error + game_dispatch \<times> nat)"
where
  "press_with pf a after g =
     (case selected_binding g a of
        None \<Rightarrow> (g, Inl Unbound)
      | Some b \<Rightarrow>
          (case poll_modifiers pf g of
             (g1, Inl e) \<Rightarrow> (g1, Inl e)
           | (g1, Inr physical) \<Rightarrow>
               (case press_messages b physical of
                  Inl e \<Rightarrow> (g1, Inl e)
                | Inr ms \<Rightarrow>
                    (case send_messages pf ms g1 of
                       (g2, Some e) \<Rightarrow> (g2, Inl e)
                     | (g2, None) \<Rightarrow>
                         (let (g3, marker) = after b g2
                          in (g3, Inr (\<lparr>gd_action = a, gd_state = Pressed,
                                gd_message_count = length ms, gd_release_due = None\<rparr>, marker)))))))"

definition press_new_tracked ::
  "platform \<Rightarrow> game_bind_id \<Rightarrow> game_invoker \<Rightarrow> game_invoker \<times> (game_input_error + game_dispatch \<times> nat)"
where
  "press_new_tracked pf action g =
     (let a = canonical action
      in if map_of (iv_active g) a \<noteq> None then (g, Inl AlreadyPressed)
         else press_with pf a (\<lambda>b g2.
           (g2\<lparr>iv_active := bt_insert a \<lparr>ap_bindings = [b], ap_release_due = None,
                  ap_marker = iv_marker g2\<rparr> (iv_active g2),
               iv_marker := Suc (iv_marker g2)\<rparr>, iv_marker g2)) g)"

definition game_press ::
  "platform \<Rightarrow> game_bind_id \<Rightarrow> game_invoker \<Rightarrow> game_invoker \<times> (game_input_error + game_dispatch)"
where
  "game_press pf action g = apsnd (map_sum id fst) (press_new_tracked pf action g)"

definition press_repeated ::
  "platform \<Rightarrow> game_bind_id \<Rightarrow> game_invoker \<Rightarrow> game_invoker \<times> (game_input_error + game_dispatch \<times> nat)"
where
  "press_repeated pf action g =
     (let a = canonical action
      in case map_of (iv_active g) a of
           None \<Rightarrow> press_new_tracked pf a g
         | Some active \<Rightarrow>
             press_with pf a (\<lambda>b g2.
               (g2\<lparr>iv_active := bt_update a (\<lambda>ap.
                     if b \<in> set (ap_bindings ap) then ap
                     else ap\<lparr>ap_bindings := ap_bindings ap @ [b]\<rparr>) (iv_active g2)\<rparr>,
                ap_marker active)) g)"

definition game_release ::
  "platform \<Rightarrow> game_bind_id \<Rightarrow> game_invoker \<Rightarrow> game_invoker \<times> (game_input_error + game_dispatch)"
where
  "game_release pf action g =
     (let a = canonical action
      in case (case map_of (iv_active g) a of
                 Some active \<Rightarrow> Some (ap_bindings active)
               | None \<Rightarrow> map_option (\<lambda>b. [b]) (selected_binding g a)) of
           None \<Rightarrow> (g, Inl Unbound)
         | Some bs \<Rightarrow>
             (case poll_modifiers pf g of
                (g1, Inl e) \<Rightarrow> (g1, Inl e)
              | (g1, Inr physical) \<Rightarrow>
                  (case release_all_messages (rev bs) physical of
                     Inl e \<Rightarrow> (g1, Inl e)
                   | Inr ms \<Rightarrow>
                       (case send_messages pf ms g1 of
                          (g2, Some e) \<Rightarrow> (g2, Inl e)
                        | (g2, None) \<Rightarrow>
                            (g2\<lparr>iv_active := bt_remove a (iv_active g2)\<rparr>,
                             Inr \<lparr>gd_action = a, gd_state = Released,
                                  gd_message_count = length ms, gd_release_due = None\<rparr>)))))"

definition release_tracked ::
  "platform \<Rightarrow> game_bind_id \<Rightarrow> nat \<Rightarrow> game_invoker \<Rightarrow>
   game_invoker \<times> (game_input_error + game_dispatch option)"
where
  "release_tracked pf action token g =
     (let a = canonical action
      in if \<exists>ap \<in> set_option (map_of (iv_active g) a). ap_marker ap = token
         then apsnd (map_sum id Some) (game_release pf a g)
         else (g, Inr None))"

definition game_invoke ::
  "platform \<Rightarrow> game_bind_id \<Rightarrow> u64 \<Rightarrow> u64 \<Rightarrow> game_invoker \<Rightarrow>
   game_invoker \<times> (game_input_error + game_dispatch)"
where
  "game_invoke pf action duration now g =
     (case game_press pf action g of
        (g1, Inl e) \<Rightarrow> (g1, Inl e)
      | (g1, Inr pressed) \<Rightarrow>
          (if duration = 0 then
             (case game_release pf (gd_action pressed) g1 of
                (g2, Inl e) \<Rightarrow> (g2, Inl e)
              | (g2, Inr released) \<Rightarrow>
                  (g2, Inr \<lparr>gd_action = gd_action pressed, gd_state = Released,
                      gd_message_count = gd_message_count pressed + gd_message_count released,
                      gd_release_due = None\<rparr>))
           else
             (let due = saturating_add now duration
              in (g1\<lparr>iv_active := bt_update (gd_action pressed)
                       (\<lambda>ap. ap\<lparr>ap_release_due := Some due\<rparr>) (iv_active g1)\<rparr>,
                  Inr \<lparr>gd_action = gd_action pressed, gd_state = Scheduled,
                       gd_message_count = gd_message_count pressed,
                       gd_release_due = Some due\<rparr>))))"

text \<open>\<open>advance\<close>: collecting into a \<open>Result\<close> stops at the first error.\<close>

fun release_until_error ::
  "platform \<Rightarrow> game_bind_id list \<Rightarrow> game_invoker \<Rightarrow>
   game_invoker \<times> (game_input_error + game_dispatch list)"
where
  "release_until_error pf [] g = (g, Inr [])"
| "release_until_error pf (a # as) g =
     (case game_release pf a g of
        (g1, Inl e) \<Rightarrow> (g1, Inl e)
      | (g1, Inr d) \<Rightarrow> apsnd (map_sum id ((#) d)) (release_until_error pf as g1))"

definition due_actions :: "u64 \<Rightarrow> game_invoker \<Rightarrow> game_bind_id list" where
  "due_actions now g =
     map fst (filter (\<lambda>(a, ap). case ap_release_due ap of None \<Rightarrow> False | Some d \<Rightarrow> d \<le> now)
       (iv_active g))"

definition game_advance ::
  "platform \<Rightarrow> u64 \<Rightarrow> game_invoker \<Rightarrow> game_invoker \<times> (game_input_error + game_dispatch list)"
where
  "game_advance pf now g = release_until_error pf (due_actions now g) g"

text \<open>\<open>release_all\<close> attempts every action and reports the first error.\<close>

fun release_each ::
  "platform \<Rightarrow> game_bind_id list \<Rightarrow> game_invoker \<Rightarrow>
   game_invoker \<times> game_dispatch list \<times> game_input_error option"
where
  "release_each pf [] g = (g, [], None)"
| "release_each pf (a # as) g =
     (case game_release pf a g of
        (g1, r) \<Rightarrow>
          (let (g2, ds, err) = release_each pf as g1
           in case r of
                Inr d \<Rightarrow> (g2, d # ds, err)
              | Inl e \<Rightarrow> (g2, ds, Some e)))"

definition game_release_all ::
  "platform \<Rightarrow> game_invoker \<Rightarrow> game_invoker \<times> (game_input_error + game_dispatch list)"
where
  "game_release_all pf g =
     (let (g', ds, err) = release_each pf (map fst (iv_active g)) g
      in (g', case err of Some e \<Rightarrow> Inl e | None \<Rightarrow> Inr ds))"

definition game_is_pressed :: "game_invoker \<Rightarrow> game_bind_id \<Rightarrow> bool" where
  "game_is_pressed g a \<longleftrightarrow> map_of (iv_active g) (canonical a) \<noteq> None"

section \<open>What batches do to the game\<close>

definition bind_key :: "input_bind \<Rightarrow> input_device \<times> u16" where
  "bind_key b = (ib_device b, ib_code b)"

definition playable :: "input_bind \<Rightarrow> bool" where
  "playable b \<longleftrightarrow> (\<forall>p. \<exists>m. main_message b p = Inr m)"

lemma main_message_received:
  assumes "main_message b p = Inr m"
  shows "game_receive m g = g\<lparr>gv_down := set_key (bind_key b) p (gv_down g)\<rparr>"
  using assms
  by (auto simp: main_message_def bind_key_def mouse_from_code_iff split: if_splits option.splits)

lemma main_message_playable: "main_message b p = Inr m \<Longrightarrow> playable b"
  by (auto simp: main_message_def playable_def split: if_splits option.splits)

text \<open>Modifier messages leave the main keys alone.\<close>

definition is_modifier_message :: "game_message \<Rightarrow> bool" where
  "is_modifier_message msg \<longleftrightarrow> (\<exists>m p sys. msg = ModifierMessage m p sys)"

lemma modifier_messages_down:
  "\<forall>msg \<in> set ms. is_modifier_message msg \<Longrightarrow> gv_down (fold game_receive ms g) = gv_down g"
proof (induction ms arbitrary: g)
  case (Cons msg ms)
  then obtain m p sys where "msg = ModifierMessage m p sys" by (auto simp: is_modifier_message_def)
  with Cons show ?case by simp
qed simp

lemma press_messages_shape:
  assumes "press_messages b physical = Inr ms"
  shows "\<exists>mods msg. ms = mods @ [msg] \<and> (\<forall>x \<in> set mods. is_modifier_message x) \<and>
     main_message b True = Inr msg"
proof -
  obtain msg where msg: "main_message b True = Inr msg"
    using assms by (auto simp: press_messages_def Let_def split: sum.splits)
  let ?mods = "concat (map (\<lambda>m. if modifier_get m (bind_modifiers b) then [modifier_message m True]
       else if modifier_get m physical then [modifier_message m False] else []) all_modifiers)"
  have "\<forall>x \<in> set ?mods. is_modifier_message x"
    by (auto simp: is_modifier_message_def modifier_message_def split: if_splits)
  moreover have "ms = ?mods @ [msg]" using assms msg by (simp add: press_messages_def Let_def)
  ultimately show ?thesis using msg by blast
qed

lemma press_delivered:
  assumes "press_messages b physical = Inr ms" and "v \<notin> {SendFails 0, SendPanics 0}"
  shows "gv_down (fold game_receive (batch_delivered v ms) g) =
     (if v = Delivered then insert (bind_key b) (gv_down g) else gv_down g)"
proof -
  from press_messages_shape [OF assms(1)] obtain mods msg
    where ms: "ms = mods @ [msg]" "\<forall>x \<in> set mods. is_modifier_message x"
      and msg: "main_message b True = Inr msg" by blast
  have part: "gv_down (fold game_receive (take (length ms - n) ms) g) = gv_down g" if "n \<noteq> 0" for n
  proof -
    have "set (take (length ms - n) ms) \<subseteq> set mods"
      using ms(1) that by (cases n) (auto dest: in_set_takeD)
    then show ?thesis using ms(2) by (intro modifier_messages_down) auto
  qed
  show ?thesis
    using assms(2) ms main_message_received [OF msg] modifier_messages_down [OF ms(2), of g] part
    by (cases v) (simp_all add: batch_delivered_def set_key_def)
qed

lemma release_messages_shape:
  assumes "release_messages b physical = Inr ms"
  shows "\<exists>mods msg. ms = msg # mods \<and> (\<forall>x \<in> set mods. is_modifier_message x) \<and>
     main_message b False = Inr msg"
  using assms
  by (auto simp: release_messages_def modifier_message_def is_modifier_message_def
      all_modifiers_def split: sum.splits)

lemma release_prefix_down:
  assumes "release_all_messages bs physical = Inr ms"
  shows "gv_down (fold game_receive (take n ms) g) \<subseteq> gv_down g"
    and "gv_down (fold game_receive ms g) = gv_down g - bind_key ` set bs"
proof -
  have "gv_down (fold game_receive (take n ms) g) \<subseteq> gv_down g \<and>
      gv_down (fold game_receive ms g) = gv_down g - bind_key ` set bs"
    using assms
  proof (induction bs arbitrary: ms n g)
    case (Cons b bs)
    then obtain ms1 ms2 where m: "release_messages b physical = Inr ms1"
      "release_all_messages bs physical = Inr ms2" "ms = ms1 @ ms2"
      by (auto split: sum.splits)
    from release_messages_shape [OF m(1)] obtain mods msg
      where ms1: "ms1 = msg # mods" "\<forall>x \<in> set mods. is_modifier_message x"
        and msg: "main_message b False = Inr msg" by blast
    have pre: "gv_down (fold game_receive (take k ms1) h) \<subseteq> gv_down h" for k h
    proof (cases k)
      case (Suc k')
      have "\<forall>x \<in> set (take k' mods). is_modifier_message x" using ms1(2) by (auto dest: in_set_takeD)
      then show ?thesis
        using ms1 Suc main_message_received [OF msg] by (auto simp: modifier_messages_down set_key_def)
    qed simp
    have full: "gv_down (fold game_receive ms1 h) = gv_down h - {bind_key b}" for h
      using ms1 main_message_received [OF msg] by (simp add: modifier_messages_down set_key_def)
    let ?g1 = "fold game_receive ms1 g"
    have "gv_down (fold game_receive (take n ms) g) \<subseteq> gv_down g"
    proof (cases "n \<le> length ms1")
      case True
      then show ?thesis using pre m(3) by simp
    next
      case False
      then have "fold game_receive (take n ms) g = fold game_receive (take (n - length ms1) ms2) ?g1"
        using m(3) by simp
      then show ?thesis using Cons.IH [OF m(2), of "n - length ms1" ?g1] full by auto
    qed
    moreover have "gv_down (fold game_receive ms g) = gv_down g - bind_key ` set (b # bs)"
      using Cons.IH [OF m(2), of 0 ?g1] full m(3) by auto
    ultimately show ?case by simp
  qed simp
  then show "gv_down (fold game_receive (take n ms) g) \<subseteq> gv_down g"
    and "gv_down (fold game_receive ms g) = gv_down g - bind_key ` set bs" by simp_all
qed

lemma release_delivered:
  assumes "release_all_messages bs physical = Inr ms"
  shows "gv_down (fold game_receive (batch_delivered v ms) g) \<subseteq> gv_down g"
    and "gv_down (fold game_receive (batch_delivered Delivered ms) g) = gv_down g - bind_key ` set bs"
  using release_prefix_down(1) [OF assms] release_prefix_down(2) [OF assms]
  by (cases v; auto simp: batch_delivered_def)+

section \<open>The invariant\<close>

text \<open>
  The keys the invoker still has to release. The invariant: whatever key the game believes to
  be down is one of them, and every tracked binding can be released.
\<close>

definition tracked_keys :: "game_invoker \<Rightarrow> (input_device \<times> u16) set" where
  "tracked_keys g =
     {bind_key b | a ap b. map_of (iv_active g) a = Some ap \<and> b \<in> set (ap_bindings ap)}"

definition active_ok :: "game_invoker \<Rightarrow> bool" where
  "active_ok g \<longleftrightarrow> bt_wf (iv_active g) \<and>
     (\<forall>a ap. map_of (iv_active g) a = Some ap \<longrightarrow>
        canonical a = a \<and> ap_bindings ap \<noteq> [] \<and> (\<forall>b \<in> set (ap_bindings ap). playable b))"

definition invoker_inv :: "game_invoker \<Rightarrow> bool" where
  "invoker_inv g \<longleftrightarrow> active_ok g \<and> gv_down (iv_game g) \<subseteq> tracked_keys g"

lemma tracked_keysI:
  "map_of (iv_active g) a = Some ap \<Longrightarrow> b \<in> set (ap_bindings ap) \<Longrightarrow> bind_key b \<in> tracked_keys g"
  by (auto simp: tracked_keys_def)

lemma tracked_update:
  assumes "map_of (iv_active h) a = Some ap0" and "b \<in> set (ap_bindings (f ap0))"
    and "\<And>ap. set (ap_bindings ap) \<subseteq> set (ap_bindings (f ap))"
    and "iv_active h' = bt_update a f (iv_active h)"
  shows "insert (bind_key b) (tracked_keys h) \<subseteq> tracked_keys h'"
proof
  fix k assume "k \<in> insert (bind_key b) (tracked_keys h)"
  then consider "k = bind_key b"
    | c x ap where "k = bind_key c" "map_of (iv_active h) x = Some ap" "c \<in> set (ap_bindings ap)"
    by (auto simp: tracked_keys_def)
  then show "k \<in> tracked_keys h'"
  proof cases
    case 1
    then show ?thesis using tracked_keysI [of h' a "f ap0" b] assms by simp
  next
    case (2 c x ap)
    then have "map_of (iv_active h') x = Some (if x = a then f ap else ap)"
      using assms(4) by auto
    moreover have "c \<in> set (ap_bindings (if x = a then f ap else ap))"
      using 2(3) assms(3) by auto
    ultimately show ?thesis using tracked_keysI 2(1) by metis
  qed
qed

lemma tracked_keys_cong: "iv_active h = iv_active g \<Longrightarrow> tracked_keys h = tracked_keys g"
  by (simp add: tracked_keys_def)

lemma active_ok_cong: "iv_active h = iv_active g \<Longrightarrow> active_ok h = active_ok g"
  by (simp add: active_ok_def)

lemma poll_modifiers_effect:
  "poll_modifiers pf g = (g1, r) \<Longrightarrow> g1 = g\<lparr>iv_clock := Suc (iv_clock g)\<rparr>"
  by (simp add: poll_modifiers_def)

lemma send_messages_effect:
  assumes "send_messages pf ms g = (g1, r)"
  shows "iv_active g1 = iv_active g" and "iv_registry g1 = iv_registry g"
    and "iv_game g1 = fold game_receive (batch_delivered (pf_sends pf (iv_clock g)) ms) (iv_game g)"
    and "r = None \<longleftrightarrow> pf_sends pf (iv_clock g) = Delivered"
  using assms by (auto simp: send_messages_def Let_def verdict_error_def split: send_verdict.splits)

text \<open>What a caller of \<open>press_with\<close> has to do when the press succeeded: track the binding.\<close>

definition tracks :: "(input_bind \<Rightarrow> game_invoker \<Rightarrow> game_invoker \<times> nat) \<Rightarrow> game_invoker \<Rightarrow> bool" where
  "tracks after g \<longleftrightarrow>
     (\<forall>b h. playable b \<longrightarrow> iv_active h = iv_active g \<longrightarrow> active_ok h \<longrightarrow>
        active_ok (fst (after b h)) \<and> iv_game (fst (after b h)) = iv_game h \<and>
        insert (bind_key b) (tracked_keys h) \<subseteq> tracked_keys (fst (after b h)))"

lemma press_with_inv:
  assumes "invoker_inv g" and "press_with pf a after g = (g', r)" and "tracks after g"
    and "reports_undelivered pf"
  shows "invoker_inv g'"
proof (cases "selected_binding g a")
  case None
  with assms show ?thesis by (simp add: press_with_def)
next
  case (Some b)
  obtain g1 pr where p: "poll_modifiers pf g = (g1, pr)" by fastforce
  have g1: "g1 = g\<lparr>iv_clock := Suc (iv_clock g)\<rparr>" by (rule poll_modifiers_effect [OF p])
  have i1: "invoker_inv g1"
    using assms(1) by (simp add: g1 invoker_inv_def active_ok_def tracked_keys_def)
  show ?thesis
  proof (cases "\<exists>physical ms. pr = Inr physical \<and> press_messages b physical = Inr ms")
    case False
    then have "g' = g1"
      using assms(2) Some p by (auto simp: press_with_def split: sum.splits)
    with i1 show ?thesis by simp
  next
    case True
    then obtain physical ms where ms: "pr = Inr physical" "press_messages b physical = Inr ms" by auto
    obtain g2 er where sd: "send_messages pf ms g1 = (g2, er)" by fastforce
    note e = send_messages_effect [OF sd]
    have pl: "playable b"
      using press_messages_shape [OF ms(2)] main_message_playable by blast
    have a2: "iv_active g2 = iv_active g" using e(1) by (simp add: g1)
    have ok2: "active_ok g2"
      using assms(1) active_ok_cong [OF a2] by (simp add: invoker_inv_def)
    have down: "gv_down (iv_game g2) = (if er = None then insert (bind_key b) (gv_down (iv_game g))
        else gv_down (iv_game g))"
      using press_delivered [OF ms(2)] e(3,4) assms(4)
      by (auto simp: g1 reports_undelivered_def)
    show ?thesis
    proof (cases er)
      case None
      then have "g' = fst (after b g2)"
        using assms(2) Some p ms sd by (auto simp: press_with_def Let_def case_prod_unfold)
      moreover have "gv_down (iv_game g2) \<subseteq> insert (bind_key b) (tracked_keys g2)"
        using down None assms(1) tracked_keys_cong [OF a2] by (auto simp: invoker_inv_def)
      ultimately show ?thesis
        using assms(3) pl a2 ok2 by (force simp: tracks_def invoker_inv_def)
    next
      case (Some err)
      then have "g' = g2"
        using assms(2) \<open>selected_binding g a = Some b\<close> p ms sd by (simp add: press_with_def)
      then show ?thesis
        using ok2 down Some assms(1) tracked_keys_cong [OF a2] by (simp add: invoker_inv_def)
    qed
  qed
qed

lemma game_press_inv:
  assumes "invoker_inv g" and "press_new_tracked pf action g = (g', r)"
    and "reports_undelivered pf"
  shows "invoker_inv g'"
proof (cases "map_of (iv_active g) (canonical action) = None")
  case True
  let ?a = "canonical action"
  let ?after = "\<lambda>b g2. (g2\<lparr>iv_active := bt_insert ?a \<lparr>ap_bindings = [b], ap_release_due = None,
      ap_marker = iv_marker g2\<rparr> (iv_active g2), iv_marker := Suc (iv_marker g2)\<rparr>, iv_marker g2)"
  have "tracks ?after g"
    using True
    by (auto simp: tracks_def active_ok_def tracked_keys_def split: if_splits) (metis option.distinct(1))+
  with assms True show ?thesis
    by (simp add: press_new_tracked_def Let_def press_with_inv)
next
  case False
  with assms show ?thesis by (simp add: press_new_tracked_def Let_def)
qed

lemma press_repeated_inv:
  assumes "invoker_inv g" and "press_repeated pf action g = (g', r)"
    and "reports_undelivered pf"
  shows "invoker_inv g'"
proof (cases "map_of (iv_active g) (canonical action)")
  case None
  with assms show ?thesis by (simp add: press_repeated_def Let_def game_press_inv)
next
  case (Some active)
  let ?a = "canonical action"
  let ?after = "\<lambda>b g2. (g2\<lparr>iv_active := bt_update ?a (\<lambda>ap. if b \<in> set (ap_bindings ap) then ap
      else ap\<lparr>ap_bindings := ap_bindings ap @ [b]\<rparr>) (iv_active g2)\<rparr>, ap_marker active)"
  have "tracks ?after g"
    unfolding tracks_def
  proof (intro allI impI conjI)
    fix b h assume pl: "playable b" and eq: "iv_active h = iv_active g" and ok: "active_ok h"
    let ?f = "\<lambda>ap. if b \<in> set (ap_bindings ap) then ap else ap\<lparr>ap_bindings := ap_bindings ap @ [b]\<rparr>"
    let ?h = "fst (?after b h)"
    have m: "map_of (iv_active ?h) x = (if x = ?a then Some (?f active) else map_of (iv_active h) x)" for x
      using Some eq by simp
    show "active_ok ?h" using ok pl Some eq by (auto simp: active_ok_def split: if_splits)
    show "iv_game ?h = iv_game h" by simp
    show "insert (bind_key b) (tracked_keys h) \<subseteq> tracked_keys ?h"
      by (rule tracked_update [where f = ?f and a = ?a]) (use Some eq in auto)
  qed
  with assms Some show ?thesis
    by (simp add: press_repeated_def Let_def press_with_inv)
qed

text \<open>The bindings a release of an action is about.\<close>

definition release_bindings :: "game_invoker \<Rightarrow> game_bind_id \<Rightarrow> input_bind list option" where
  "release_bindings g a =
     (case map_of (iv_active g) (canonical a) of
        Some active \<Rightarrow> Some (ap_bindings active)
      | None \<Rightarrow> map_option (\<lambda>b. [b]) (selected_binding g (canonical a)))"

lemma game_release_effect:
  assumes "game_release pf action g = (g', r)"
  shows "case r of
      Inl e \<Rightarrow> iv_active g' = iv_active g \<and> gv_down (iv_game g') \<subseteq> gv_down (iv_game g)
    | Inr d \<Rightarrow> iv_active g' = bt_remove (canonical action) (iv_active g) \<and>
        gd_action d = canonical action \<and>
        (\<exists>bs. release_bindings g action = Some bs \<and>
           gv_down (iv_game g') = gv_down (iv_game g) - bind_key ` set bs)"
proof (cases "release_bindings g action")
  case None
  with assms show ?thesis by (auto simp: game_release_def release_bindings_def Let_def split: option.splits)
next
  case (Some bs)
  obtain g1 pr where p: "poll_modifiers pf g = (g1, pr)" by fastforce
  have g1: "g1 = g\<lparr>iv_clock := Suc (iv_clock g)\<rparr>" by (rule poll_modifiers_effect [OF p])
  have unfold: "game_release pf action g =
      (case pr of Inl e \<Rightarrow> (g1, Inl e)
       | Inr physical \<Rightarrow>
           (case release_all_messages (rev bs) physical of Inl e \<Rightarrow> (g1, Inl e)
            | Inr ms \<Rightarrow>
                (case send_messages pf ms g1 of
                   (g2, Some e) \<Rightarrow> (g2, Inl e)
                 | (g2, None) \<Rightarrow>
                     (g2\<lparr>iv_active := bt_remove (canonical action) (iv_active g2)\<rparr>,
                      Inr \<lparr>gd_action = canonical action, gd_state = Released,
                           gd_message_count = length ms, gd_release_due = None\<rparr>))))"
    using Some p by (simp add: game_release_def release_bindings_def Let_def)
  show ?thesis
  proof (cases "\<exists>physical ms. pr = Inr physical \<and> release_all_messages (rev bs) physical = Inr ms")
    case False
    then show ?thesis using assms unfold g1 by (auto split: sum.splits)
  next
    case True
    then obtain physical ms where ms: "pr = Inr physical" "release_all_messages (rev bs) physical = Inr ms"
      by auto
    obtain g2 er where sd: "send_messages pf ms g1 = (g2, er)" by fastforce
    note e = send_messages_effect [OF sd]
    show ?thesis
    proof (cases er)
      case None
      then show ?thesis
        using assms unfold ms sd e g1 Some release_delivered(2) [OF ms(2), of "iv_game g"] by auto
    next
      case (Some err)
      then show ?thesis
        using assms unfold ms sd e g1 release_delivered(1) [OF ms(2)] by auto
    qed
  qed
qed

lemma bind_key_tracked_cases:
  assumes "k \<in> tracked_keys g" and "iv_active g' = bt_remove a (iv_active g)"
  shows "k \<in> tracked_keys g' \<or> (\<exists>ap. map_of (iv_active g) a = Some ap \<and> k \<in> bind_key ` set (ap_bindings ap))"
proof -
  obtain x ap b where k: "k = bind_key b" "map_of (iv_active g) x = Some ap" "b \<in> set (ap_bindings ap)"
    using assms(1) by (auto simp: tracked_keys_def)
  show ?thesis
  proof (cases "x = a")
    case False
    then have "map_of (iv_active g') x = Some ap" using k(2) assms(2) by simp
    then show ?thesis using tracked_keysI k by metis
  qed (use k in auto)
qed

lemma game_release_inv:
  assumes "invoker_inv g" and "game_release pf action g = (g', r)"
  shows "invoker_inv g'"
proof (cases r)
  case (Inl e)
  then show ?thesis
    using game_release_effect [OF assms(2)] assms(1) tracked_keys_cong [of g' g] active_ok_cong [of g' g]
    by (auto simp: invoker_inv_def)
next
  case (Inr d)
  with game_release_effect [OF assms(2)] obtain bs
    where a: "iv_active g' = bt_remove (canonical action) (iv_active g)"
      and bs: "release_bindings g action = Some bs"
      and down: "gv_down (iv_game g') = gv_down (iv_game g) - bind_key ` set bs" by auto
  have "active_ok g'" using assms(1) a by (auto simp: invoker_inv_def active_ok_def split: if_splits)
  moreover have "k \<in> tracked_keys g'" if "k \<in> gv_down (iv_game g')" for k
  proof -
    have k: "k \<in> tracked_keys g" "k \<notin> bind_key ` set bs"
      using that down assms(1) by (auto simp: invoker_inv_def)
    with bs show ?thesis
      using bind_key_tracked_cases [OF k(1) a] by (fastforce simp: release_bindings_def)
  qed
  ultimately show ?thesis by (auto simp: invoker_inv_def)
qed

section \<open>Histories\<close>

text \<open>
  Everything a holder of the invoker can do; \<open>OpBindings\<close> is any change made through
  \<open>registry_mut\<close>.
\<close>

datatype game_op =
    OpPress game_bind_id
  | OpPressRepeated game_bind_id
  | OpRelease game_bind_id
  | OpReleaseTracked game_bind_id nat
  | OpInvoke game_bind_id u64 u64
  | OpAdvance u64
  | OpReleaseAll
  | OpBindings game_bindings

fun game_apply :: "platform \<Rightarrow> game_op \<Rightarrow> game_invoker \<Rightarrow> game_invoker" where
  "game_apply pf (OpPress a) g = fst (game_press pf a g)"
| "game_apply pf (OpPressRepeated a) g = fst (press_repeated pf a g)"
| "game_apply pf (OpRelease a) g = fst (game_release pf a g)"
| "game_apply pf (OpReleaseTracked a t) g = fst (release_tracked pf a t g)"
| "game_apply pf (OpInvoke a d now) g = fst (game_invoke pf a d now g)"
| "game_apply pf (OpAdvance now) g = fst (game_advance pf now g)"
| "game_apply pf OpReleaseAll g = fst (game_release_all pf g)"
| "game_apply pf (OpBindings m) g = g\<lparr>iv_registry := m\<rparr>"

definition game_invoker_new :: "game_bindings \<Rightarrow> modifier_state \<Rightarrow> game_invoker" where
  "game_invoker_new reg ms =
     \<lparr>iv_registry = reg, iv_active = [], iv_clock = 0, iv_marker = 0,
      iv_game = \<lparr>gv_modifiers = ms, gv_down = {}\<rparr>\<rparr>"

lemma game_invoker_new_inv [simp]: "invoker_inv (game_invoker_new reg ms)"
  by (simp add: invoker_inv_def active_ok_def game_invoker_new_def)

lemma release_until_error_inv:
  "invoker_inv g \<Longrightarrow> invoker_inv (fst (release_until_error pf as g))"
proof (induction as arbitrary: g)
  case (Cons a as)
  obtain g1 r where r: "game_release pf a g = (g1, r)" by fastforce
  have "invoker_inv g1" by (rule game_release_inv [OF Cons.prems r])
  then show ?case using r Cons.IH [of g1] by (simp split: sum.splits)
qed simp

lemma release_each_inv:
  "invoker_inv g \<Longrightarrow> invoker_inv (fst (release_each pf as g))"
proof (induction as arbitrary: g)
  case (Cons a as)
  obtain g1 r where r: "game_release pf a g = (g1, r)" by fastforce
  have "invoker_inv g1" by (rule game_release_inv [OF Cons.prems r])
  then show ?case using r Cons.IH [of g1] by (simp add: Let_def case_prod_unfold split: sum.splits)
qed simp

lemma game_press_inv':
  "invoker_inv g \<Longrightarrow> game_press pf a g = (g', r) \<Longrightarrow> reports_undelivered pf \<Longrightarrow> invoker_inv g'"
  using game_press_inv [of g pf a] by (cases "press_new_tracked pf a g") (auto simp: game_press_def)

lemma update_active_inv:
  assumes "invoker_inv g" and "\<And>ap. ap_bindings (f ap) = ap_bindings ap"
  shows "invoker_inv (g\<lparr>iv_active := bt_update a f (iv_active g)\<rparr>)"
proof -
  have "tracked_keys g \<subseteq> tracked_keys (g\<lparr>iv_active := bt_update a f (iv_active g)\<rparr>)"
  proof
    fix k assume "k \<in> tracked_keys g"
    then obtain c x ap where k: "k = bind_key c" "map_of (iv_active g) x = Some ap" "c \<in> set (ap_bindings ap)"
      by (auto simp: tracked_keys_def)
    then show "k \<in> tracked_keys (g\<lparr>iv_active := bt_update a f (iv_active g)\<rparr>)"
      using tracked_keysI [of "g\<lparr>iv_active := bt_update a f (iv_active g)\<rparr>" x "if x = a then f ap else ap" c]
        assms(2) by (cases "x = a") auto
  qed
  then show ?thesis
    using assms by (auto simp: invoker_inv_def active_ok_def split: if_splits)
qed

lemma game_invoke_inv:
  assumes "invoker_inv g" and "reports_undelivered pf"
  shows "invoker_inv (fst (game_invoke pf a d now g))"
proof -
  obtain g1 r where p: "game_press pf a g = (g1, r)" by fastforce
  have i1: "invoker_inv g1" by (rule game_press_inv' [OF assms(1) p assms(2)])
  obtain g2 r2 where q: "game_release pf (gd_action (projr r)) g1 = (g2, r2)" by fastforce
  have i2: "invoker_inv g2" by (rule game_release_inv [OF i1 q])
  have "invoker_inv (g1\<lparr>iv_active := bt_update x (\<lambda>ap. ap\<lparr>ap_release_due := Some t\<rparr>) (iv_active g1)\<rparr>)" for x t
    by (rule update_active_inv [OF i1]) simp
  then show ?thesis
    using i1 i2 p q by (auto simp: game_invoke_def Let_def split: sum.splits)
qed

lemma game_apply_inv:
  assumes "reports_undelivered pf" and "invoker_inv g"
  shows "invoker_inv (game_apply pf op g)"
proof (cases op)
  case (OpPressRepeated a)
  then show ?thesis
    using press_repeated_inv [of g pf a] assms by (cases "press_repeated pf a g") auto
next
  case (OpReleaseTracked a t)
  then show ?thesis
    using game_release_inv [of g pf "canonical a"] assms(2)
    by (cases "game_release pf (canonical a) g") (auto simp: release_tracked_def Let_def)
next
  case (OpBindings m)
  then show ?thesis
    using assms(2) by (simp add: invoker_inv_def active_ok_def tracked_keys_def)
qed (use assms in \<open>auto simp: game_invoke_inv game_advance_def release_until_error_inv
    game_release_all_def Let_def case_prod_unfold release_each_inv
    intro: game_press_inv' [OF _ prod.collapse [symmetric]] game_release_inv [OF _ prod.collapse [symmetric]]\<close>)

lemma game_run_inv:
  "reports_undelivered pf \<Longrightarrow> invoker_inv g \<Longrightarrow> invoker_inv (fold (game_apply pf) ops g)"
  by (induction ops arbitrary: g) (simp_all add: game_apply_inv)

section \<open>Releasing everything\<close>

lemma release_messages_modifiers:
  assumes "release_messages b physical = Inr ms"
  shows "gv_modifiers (fold game_receive ms g) = physical"
proof -
  obtain msg where ms: "ms = msg # map (\<lambda>m. modifier_message m (modifier_get m physical)) all_modifiers"
    and msg: "main_message b False = Inr msg"
    using assms by (auto simp: release_messages_def split: sum.splits)
  show ?thesis
    unfolding ms
    by (rule modifier_state_eqI, rename_tac m, case_tac m)
      (simp_all add: main_message_received [OF msg] all_modifiers_def modifier_message_def)
qed

lemma release_all_messages_ok:
  assumes "bs \<noteq> []" and "\<forall>b \<in> set bs. playable b"
  shows "\<exists>ms. release_all_messages bs physical = Inr ms \<and>
     gv_modifiers (fold game_receive ms g) = physical"
  using assms
proof (induction bs arbitrary: g rule: induct_list012)
  case (2 b)
  then obtain msg where "main_message b False = Inr msg" by (auto simp: playable_def)
  then obtain ms where ms: "release_messages b physical = Inr ms" by (simp add: release_messages_def)
  then show ?case using release_messages_modifiers by simp
next
  case (3 b c bs)
  from 3(4) have "playable b" by simp
  then obtain msg where "main_message b False = Inr msg" unfolding playable_def by blast
  then obtain ms where ms: "release_messages b physical = Inr ms" by (simp add: release_messages_def)
  then show ?case using 3(2) [of "fold game_receive ms g"] 3(4) by fastforce
qed simp

definition platform_works :: "platform \<Rightarrow> bool" where
  "platform_works pf \<longleftrightarrow> (\<forall>n. pf_polls pf n \<noteq> None \<and> pf_sends pf n = Delivered)"

lemma game_release_works:
  assumes "platform_works pf" and "active_ok g" and "map_of (iv_active g) a = Some ap"
  shows "\<exists>d. game_release pf a g = (fst (game_release pf a g), Inr d) \<and> gd_action d = a \<and>
     iv_active (fst (game_release pf a g)) = bt_remove a (iv_active g) \<and>
     gv_modifiers (iv_game (fst (game_release pf a g))) = the (pf_polls pf (iv_clock g)) \<and>
     iv_clock (fst (game_release pf a g)) = iv_clock g + 2"
proof -
  have a: "canonical a = a" and bs: "rev (ap_bindings ap) \<noteq> []" "\<forall>b \<in> set (rev (ap_bindings ap)). playable b"
    using assms(2,3) by (auto simp: active_ok_def)
  obtain physical where ph: "pf_polls pf (iv_clock g) = Some physical"
    using assms(1) by (auto simp: platform_works_def)
  obtain ms where ms: "release_all_messages (rev (ap_bindings ap)) physical = Inr ms"
    and md: "gv_modifiers (fold game_receive ms (iv_game g)) = physical"
    using release_all_messages_ok [OF bs, of physical "iv_game g"] by auto
  have "pf_sends pf (Suc (iv_clock g)) = Delivered" using assms(1) by (simp add: platform_works_def)
  then show ?thesis
    using assms(3) a ms md ph
    by (simp add: game_release_def poll_modifiers_def send_messages_def Let_def verdict_error_def
        batch_delivered_def)
qed

lemma release_each_works:
  assumes "platform_works pf" and "active_ok g" and "as = map fst (iv_active g)"
  shows "\<exists>g' ds. release_each pf as g = (g', ds, None) \<and> map gd_action ds = as \<and>
     iv_active g' = [] \<and> iv_clock g' = iv_clock g + 2 * length as \<and>
     gv_modifiers (iv_game g') =
       (if as = [] then gv_modifiers (iv_game g) else the (pf_polls pf (iv_clock g' - 2)))"
  using assms(2,3)
proof (induction as arbitrary: g)
  case (Cons a as)
  then obtain ap rest where act: "iv_active g = (a, ap) # rest" and as: "as = map fst rest"
    by (cases "iv_active g") auto
  from game_release_works [OF assms(1) Cons.prems(1), of a ap] act obtain d where d:
    "game_release pf a g = (fst (game_release pf a g), Inr d)" "gd_action d = a"
    "iv_active (fst (game_release pf a g)) = bt_remove a (iv_active g)"
    "gv_modifiers (iv_game (fst (game_release pf a g))) = the (pf_polls pf (iv_clock g))"
    "iv_clock (fst (game_release pf a g)) = iv_clock g + 2" by auto
  let ?g1 = "fst (game_release pf a g)"
  have "a \<notin> fst ` set rest"
    using Cons.prems(1) act bt_wf_distinct [of "iv_active g"] by (simp add: active_ok_def)
  then have act1: "iv_active ?g1 = rest"
    using d(3) act by (auto simp: bt_remove_def filter_id_conv image_iff)
  have "active_ok ?g1"
    using Cons.prems(1) d(3) by (auto simp: active_ok_def split: if_splits)
  from Cons.IH [OF this] act1 as obtain g' ds where r: "release_each pf as ?g1 = (g', ds, None)"
    "map gd_action ds = as" "iv_active g' = []" "iv_clock g' = iv_clock ?g1 + 2 * length as"
    "gv_modifiers (iv_game g') =
       (if as = [] then gv_modifiers (iv_game ?g1) else the (pf_polls pf (iv_clock g' - 2)))"
    by auto
  have "release_each pf (a # as) g = (g', d # ds, None)"
    using d(1) r(1) by (metis (no_types, lifting) case_prod_conv release_each.simps(2) sum.case(2))
  then show ?case using r d(2,4,5) by auto
qed simp

lemma release_until_error_split:
  assumes "active_ok g" and "set as \<subseteq> fst ` set (iv_active g)" and "distinct as"
    and "release_until_error pf as g = (g', r)"
  shows "\<exists>released kept. as = released @ kept \<and>
     (\<forall>a. map_of (iv_active g') a = (if a \<in> set released then None else map_of (iv_active g) a)) \<and>
     (case r of Inr ds \<Rightarrow> kept = [] \<and> map gd_action ds = as | Inl e \<Rightarrow> kept \<noteq> [])"
  using assms
proof (induction as arbitrary: g r)
  case Nil
  then show ?case by auto
next
  case (Cons a as)
  have a: "canonical a = a"
    using Cons.prems(1,2) map_of_eq_None_iff [of "iv_active g" a] by (auto simp: active_ok_def)
  obtain g1 q where q: "game_release pf a g = (g1, q)" by fastforce
  show ?case
  proof (cases q)
    case (Inl e)
    then have "g' = g1" "r = Inl e" using Cons.prems(4) q by auto
    moreover have "iv_active g1 = iv_active g" using game_release_effect [OF q] Inl by simp
    ultimately show ?thesis by (intro exI [of _ "[]"] exI [of _ "a # as"]) simp
  next
    case (Inr d)
    then obtain r1 where r1: "release_until_error pf as g1 = (g', r1)" "r = map_sum id ((#) d) r1"
      using Cons.prems(4) q by (cases "release_until_error pf as g1") auto
    have d: "gd_action d = a" and act: "iv_active g1 = bt_remove a (iv_active g)"
      using game_release_effect [OF q] Inr a by auto
    have "active_ok g1" using Cons.prems(1) act by (auto simp: active_ok_def split: if_splits)
    moreover have "set as \<subseteq> fst ` set (iv_active g1)"
      using Cons.prems(2,3) act by (fastforce simp: bt_remove_def)
    moreover have "distinct as" using Cons.prems(3) by simp
    ultimately obtain released kept where rk: "as = released @ kept"
      "\<forall>x. map_of (iv_active g') x = (if x \<in> set released then None else map_of (iv_active g1) x)"
      "case r1 of Inr ds \<Rightarrow> kept = [] \<and> map gd_action ds = as | Inl e \<Rightarrow> kept \<noteq> []"
      using Cons.IH [OF _ _ _ r1(1)] by blast
    then show ?thesis
      using r1(2) d act
      by (intro exI [of _ "a # released"] exI [of _ kept]) (auto split: sum.splits)
  qed
qed

section \<open>Properties\<close>

text \<open>
  C17. No main key is stuck. Whatever is pressed, repeated, scheduled, released and rebound, and
  whichever deliveries to the game fail or panic half-way, every main key or mouse button that
  the game believes to be down is that of a binding the invoker still tracks as active, and so
  will be released; the sink does not report a batch as failed that it delivered whole. Modifiers
  are not covered: \<open>failed_press_leaves_modifier\<close> shows that one can be left down.
\<close>
theorem game_no_stuck_keys:
  assumes "reports_undelivered pf"
  shows "let g = fold (game_apply pf) ops (game_invoker_new reg ms) in
     gv_down (iv_game g) \<subseteq>
       {(ib_device b, ib_code b) | a ap b.
          map_of (iv_active g) a = Some ap \<and> b \<in> set (ap_bindings ap)}"
  using game_run_inv [OF assms game_invoker_new_inv, of ops reg ms]
  by (simp add: Let_def invoker_inv_def tracked_keys_def bind_key_def)

text \<open>
  C18. Focus loss leaves no action active. After any history, on a platform that may have failed
  until then (without reporting a batch as failed that it delivered whole), \<open>release_all\<close> on a
  working platform reports every active action as released, in order; afterwards no action is
  active, no main key is down in the game, and the game's modifiers are those polled for the last
  release, or unchanged when no action was active.
\<close>
theorem game_release_all_returns:
  assumes "platform_works pf" and "g = fold (game_apply pf0) ops (game_invoker_new reg ms)"
    and "reports_undelivered pf0"
  shows "\<exists>g' ds. game_release_all pf g = (g', Inr ds) \<and> map gd_action ds = map fst (iv_active g) \<and>
     iv_active g' = [] \<and> gv_down (iv_game g') = {} \<and>
     gv_modifiers (iv_game g') =
       (if iv_active g = [] then gv_modifiers (iv_game g) else the (pf_polls pf (iv_clock g' - 2)))"
proof -
  have i: "invoker_inv g" unfolding assms(2) by (rule game_run_inv [OF assms(3)]) simp
  from release_each_works [OF assms(1) _ refl, of g] i obtain g' ds where
    r: "release_each pf (map fst (iv_active g)) g = (g', ds, None)"
    "map gd_action ds = map fst (iv_active g)" "iv_active g' = []"
    "gv_modifiers (iv_game g') =
       (if map fst (iv_active g) = [] then gv_modifiers (iv_game g) else the (pf_polls pf (iv_clock g' - 2)))"
    by (auto simp: invoker_inv_def)
  moreover have "invoker_inv g'" using release_each_inv [OF i, of pf] r(1) by (metis fst_conv)
  then have "gv_down (iv_game g') = {}" using r(3) by (simp add: invoker_inv_def tracked_keys_def)
  ultimately show ?thesis by (simp add: game_release_all_def)
qed

definition bind_with_key :: "bool \<Rightarrow> u16 \<Rightarrow> input_bind" where
  "bind_with_key control code =
     \<lparr>ib_alt = False, ib_control = control, ib_shift = False, ib_device = device_keyboard, ib_code = code\<rparr>"

definition demo_keys :: game_bindings where
  "demo_keys =
     [(3, \<lparr>mb_primary = bind_with_key True 16, mb_secondary = input_bind_default\<rparr>),
      (4, \<lparr>mb_primary = bind_with_key False 17, mb_secondary = input_bind_default\<rparr>)]"

definition demo_platform :: "(nat \<Rightarrow> send_verdict) \<Rightarrow> platform" where
  "demo_platform sends = \<lparr>pf_polls = (\<lambda>_. Some \<lparr>m_alt = False, m_control = True, m_shift = False\<rparr>), pf_sends = sends\<rparr>"

text \<open>Both actions were pressed for 50 ms at time 100.\<close>

definition demo_invoker :: game_invoker where
  "demo_invoker =
     fold (game_apply (demo_platform (\<lambda>_. Delivered))) [OpInvoke 3 50 100, OpInvoke 4 50 100]
       (game_invoker_new demo_keys modifier_state_default)"

lemmas demo_game_eval = demo_keys_def demo_platform_def bind_with_key_def game_invoke_def
  game_press_def press_new_tracked_def press_with_def selected_binding_def bindings_get_def
  multi_selected_def is_bound_def device_defs canonical_def legacy_move_swim_up_def
  move_jump_swim_up_fly_up_def poll_modifiers_def send_messages_def press_messages_def
  main_message_def bind_modifiers_def all_modifiers_def modifier_message_def verdict_error_def
  batch_delivered_def set_key_def game_invoker_new_def modifier_state_default_def
  bt_update_def saturating_add_def

lemma demo_invoker_eval:
  "iv_active demo_invoker =
     [(3, \<lparr>ap_bindings = [bind_with_key True 16], ap_release_due = Some 150, ap_marker = 0\<rparr>),
      (4, \<lparr>ap_bindings = [bind_with_key False 17], ap_release_due = Some 150, ap_marker = 1\<rparr>)]"
  "gv_down (iv_game demo_invoker) = {(device_keyboard, 16), (device_keyboard, 17)}"
  "iv_clock demo_invoker = 4"
  by (auto simp: demo_invoker_def demo_game_eval)

lemma demo_platform_reports: "reports_undelivered (demo_platform (\<lambda>_. Delivered))"
  by (simp add: reports_undelivered_def demo_platform_def)

text \<open>The second press fails after its Control message; the first stays tracked.\<close>

definition demo_failing :: platform where
  "demo_failing = demo_platform (\<lambda>n. if n = 3 then SendFails 1 else Delivered)"

theorem game_no_stuck_keys_witness:
  "let g = fold (game_apply demo_failing) [OpPress 4, OpPress 3]
       (game_invoker_new demo_keys modifier_state_default) in
     gv_down (iv_game g) \<subseteq>
       {(ib_device b, ib_code b) | a ap b.
          map_of (iv_active g) a = Some ap \<and> b \<in> set (ap_bindings ap)} \<and>
     map fst (iv_active g) = [4] \<and> gv_down (iv_game g) = {(device_keyboard, 17)}"
proof -
  have "reports_undelivered demo_failing"
    by (simp add: reports_undelivered_def demo_failing_def demo_platform_def)
  from game_no_stuck_keys [OF this, of "[OpPress 4, OpPress 3]" demo_keys modifier_state_default]
  show ?thesis
    by (simp add: Let_def demo_failing_def demo_game_eval)
qed

text \<open>
  A modifier can be left down. Action 3 is Control and a key. When the delivery of its press fails
  after the Control message, no press is tracked, and nothing that the invoker does on its own
  accord releases Control: \<open>release_all\<close>, which runs at focus loss and at shutdown, has nothing to
  release and succeeds without sending a message, although no modifier is physically held.
\<close>

theorem failed_press_leaves_modifier:
  fixes pf0 pf :: platform
  defines "pf0 \<equiv> \<lparr>pf_polls = \<lambda>_. Some modifier_state_default, pf_sends = \<lambda>_. SendFails 1\<rparr>"
    and "g \<equiv> game_apply pf0 (OpPress 3) (game_invoker_new demo_keys modifier_state_default)"
  shows "m_control (gv_modifiers (iv_game g)) \<and> iv_active g = [] \<and> game_release_all pf g = (g, Inr [])"
  by (simp add: pf0_def g_def demo_game_eval game_release_all_def)

theorem game_release_all_returns_witness:
  "\<exists>g' ds. game_release_all (demo_platform (\<lambda>_. Delivered)) demo_invoker = (g', Inr ds) \<and>
     map gd_action ds = [3, 4] \<and> gv_down (iv_game g') = {} \<and>
     m_control (gv_modifiers (iv_game g'))"
proof -
  have w: "platform_works (demo_platform (\<lambda>_. Delivered))"
    by (simp add: platform_works_def demo_platform_def)
  show ?thesis
    using game_release_all_returns [OF w demo_invoker_def demo_platform_reports]
    by (auto simp: demo_invoker_eval demo_platform_def)
qed

text \<open>
  \<open>advance\<close> releases the due actions in order up to the first that fails: those before it
  are released, it and every later due action stay active, and the error hides the releases
  that were made. It succeeds exactly when all due actions were released.
\<close>
theorem game_advance_stops_at_error:
  assumes "invoker_inv g" and "game_advance pf now g = (g', r)"
  shows "\<exists>released kept. due_actions now g = released @ kept \<and>
     (\<forall>a. map_of (iv_active g') a = (if a \<in> set released then None else map_of (iv_active g) a)) \<and>
     (case r of Inr ds \<Rightarrow> kept = [] \<and> map gd_action ds = due_actions now g | Inl e \<Rightarrow> kept \<noteq> [])"
proof (rule release_until_error_split)
  show "active_ok g" using assms(1) by (simp add: invoker_inv_def)
  then have "distinct (map fst (iv_active g))" by (simp add: active_ok_def bt_wf_distinct)
  then show "distinct (due_actions now g)"
    unfolding due_actions_def by (rule distinct_map_filter)
  show "set (due_actions now g) \<subseteq> fst ` set (iv_active g)" by (auto simp: due_actions_def)
  show "release_until_error pf (due_actions now g) g = (g', r)"
    using assms(2) by (simp add: game_advance_def)
qed

theorem game_advance_stops_at_error_witness:
  "\<exists>e g'. game_advance (demo_platform (\<lambda>n. if n = 5 then SendFails 9 else Delivered)) 200 demo_invoker =
     (g', Inl e) \<and> map_of (iv_active g') 3 \<noteq> None \<and> map_of (iv_active g') 4 \<noteq> None"
proof -
  let ?pf = "demo_platform (\<lambda>n. if n = 5 then SendFails 9 else Delivered)"
  obtain g' r where adv: "game_advance ?pf 200 demo_invoker = (g', r)" by fastforce
  have due: "due_actions 200 demo_invoker = [3, 4]" by (simp add: due_actions_def demo_invoker_eval)
  have i: "invoker_inv demo_invoker" unfolding demo_invoker_def
    by (rule game_run_inv [OF demo_platform_reports]) simp
  have f: "\<exists>h. game_release ?pf 3 demo_invoker = (h, Inl SinkFailed)"
    by (simp add: game_release_def demo_invoker_eval demo_game_eval release_messages_def)
  then have r: "r = Inl SinkFailed"
    using adv by (auto simp: game_advance_def due)
  then obtain released kept where k: "[3, 4] = released @ kept" "kept \<noteq> []"
    "\<forall>a. map_of (iv_active g') a = (if a \<in> set released then None else map_of (iv_active demo_invoker) a)"
    using game_advance_stops_at_error [OF i adv] due by auto
  have "set kept \<noteq> {}" and "distinct (released @ kept)" using k(1,2) by (simp_all flip: k(1))
  moreover have "last kept = 4" using k(1,2) by (metis last_appendR last.simps list.distinct(1))
  ultimately have "4 \<notin> set released" using k(2) last_in_set by fastforce
  then have four: "map_of (iv_active g') 4 \<noteq> None" using k(3) by (simp add: demo_invoker_eval)
  have "iv_active g' = iv_active demo_invoker"
    using f adv game_release_effect by (fastforce simp: game_advance_def due)
  then have "map_of (iv_active g') 3 \<noteq> None" by (simp add: demo_invoker_eval)
  then show ?thesis using adv r four by auto
qed

end
