(* ===== verification/Game_Persist.thy ===== *)
theory Game_Persist
  imports Game_Input "HOL-Library.Char_ord" "HOL-Library.List_Lexorder"
begin

text \<open>
  Persistence of game bindings (src/crates/nexus-input/src/game.rs, the XML half, and the table
  of src/crates/nexus-input/src/game_ids.rs): how a binding becomes the attributes of an
  \<open>action\<close> element and how such attributes are applied to a registry. The XML reader and writer
  are a library; they carry the attributes of an element, in order, from one side to the other.
\<close>

unbundle bit_operations_syntax

section \<open>Tables\<close>

text \<open>\<open>GAME_SCAN_CODES\<close>: the codes of the game's file against Windows scan codes.\<close>

definition game_scan_codes :: "(u16 \<times> u16) list" where
  "game_scan_codes =
     [(0, 0x38), (1, 0x1D), (2, 0x2A), (3, 0x28), (4, 0x2B), (5, 0x3A), (6, 0x33), (7, 0x0C),
      (8, 0x0D), (9, 0x01), (10, 0x1A), (11, 0xE045), (12, 0x34), (13, 0x1B), (14, 0x27),
      (15, 0x35), (16, 0xE037), (17, 0x29), (18, 0x0E), (19, 0xE053), (20, 0x1C), (21, 0x39),
      (22, 0x0F), (23, 0xE04F), (24, 0xE047), (25, 0xE052), (26, 0xE051), (27, 0xE049),
      (28, 0xE050), (29, 0xE04B), (30, 0xE04D), (31, 0xE048), (32, 0x3B), (33, 0x3C), (34, 0x3D),
      (35, 0x3E), (36, 0x3F), (37, 0x40), (38, 0x41), (39, 0x42), (40, 0x43), (41, 0x44),
      (42, 0x57), (43, 0x58), (48, 0x0B), (49, 0x02), (50, 0x03), (51, 0x04), (52, 0x05),
      (53, 0x06), (54, 0x07), (55, 0x08), (56, 0x09), (57, 0x0A), (65, 0x1E), (66, 0x30),
      (67, 0x2E), (68, 0x20), (69, 0x12), (70, 0x21), (71, 0x22), (72, 0x23), (73, 0x17),
      (74, 0x24), (75, 0x25), (76, 0x26), (77, 0x32), (78, 0x31), (79, 0x18), (80, 0x19),
      (81, 0x10), (82, 0x13), (83, 0x1F), (84, 0x14), (85, 0x16), (86, 0x2F), (87, 0x11),
      (88, 0x2D), (89, 0x15), (90, 0x2C), (91, 0x4E), (92, 0x53), (93, 0xE035), (94, 0x37),
      (95, 0x52), (96, 0x4F), (97, 0x50), (98, 0x51), (99, 0x4B), (100, 0x4C), (101, 0x4D),
      (102, 0x47), (103, 0x48), (104, 0x49), (105, 0xE01C), (106, 0x4A), (109, 0xE038),
      (110, 0xE01D), (111, 0x56), (135, 0x36)]"

text \<open>\<open>KNOWN\<close>: the actions and their descriptive names.\<close>

definition known_game_binds :: "(game_bind_id \<times> string) list" where
  "known_game_binds =
     [(0, ''((MoveForward))''), (1, ''((MoveBackward))''), (2, ''((MoveLeft))''),
      (3, ''((MoveRight))''), (4, ''((MoveTurnLeft))''), (5, ''((MoveTurnRight))''),
      (6, ''((MoveDodge))''), (7, ''((MoveAutoRun))''), (8, ''((MoveWalk))''),
      (9, ''((MoveJump))''), (10, ''((MoveSwimUp))''), (11, ''((MoveSwimDown))''),
      (12, ''((MoveAboutFace))''), (17, ''((SkillWeaponSwap))''), (18, ''((SkillWeapon1))''),
      (19, ''((SkillWeapon2))''), (20, ''((SkillWeapon3))''), (21, ''((SkillWeapon4))''),
      (22, ''((SkillWeapon5))''), (23, ''((SkillHeal))''), (24, ''((SkillUtility1))''),
      (25, ''((SkillUtility2))''), (26, ''((SkillUtility3))''), (27, ''((SkillElite))''),
      (28, ''((SkillProfession1))''), (29, ''((SkillProfession2))''),
      (30, ''((SkillProfession3))''), (31, ''((SkillProfession4))''),
      (79, ''((SkillProfession5))''), (201, ''((SkillProfession6))''),
      (202, ''((SkillProfession7))''), (82, ''((SkillSpecialAction))''),
      (131, ''((TargetAlert))''), (32, ''((TargetCall))''), (33, ''((TargetTake))''),
      (199, ''((TargetCallLocal))''), (200, ''((TargetTakeLocal))''),
      (34, ''((TargetEnemyNearest))''), (35, ''((TargetEnemyNext))''),
      (36, ''((TargetEnemyPrev))''), (37, ''((TargetAllyNearest))''),
      (38, ''((TargetAllyNext))''), (39, ''((TargetAllyPrev))''), (40, ''((TargetLock))''),
      (80, ''((TargetSnapGroundTarget))''), (115, ''((TargetSnapGroundTargetToggle))''),
      (116, ''((TargetAutoTargetingDisable))''), (117, ''((TargetAutoTargetingToggle))''),
      (197, ''((TargetAllyTargetingMode))''), (198, ''((TargetAllyTargetingModeToggle))''),
      (41, ''((UiCommerce))''), (42, ''((UiContacts))''), (43, ''((UiGuild))''),
      (44, ''((UiHero))''), (45, ''((UiInventory))''), (46, ''((UiKennel))''),
      (47, ''((UiLogout))''), (71, ''((UiMail))''), (48, ''((UiOptions))''),
      (49, ''((UiParty))''), (73, ''((UiPvp))''), (75, ''((UiPvpBuild))''),
      (50, ''((UiScoreboard))''), (209, ''((UiSeasonalObjectivesShop))''),
      (51, ''((UiInformation))''), (70, ''((UiChatToggle))''), (52, ''((UiChatCommand))''),
      (53, ''((UiChatFocus))''), (54, ''((UiChatReply))''), (55, ''((UiToggle))''),
      (85, ''((UiSquadBroadcastChatToggle))''), (83, ''((UiSquadBroadcastChatCommand))''),
      (84, ''((UiSquadBroadcastChatFocus))''), (13, ''((CameraFree))''),
      (14, ''((CameraZoomIn))''), (15, ''((CameraZoomOut))''), (16, ''((CameraReverse))''),
      (78, ''((CameraActionMode))''), (114, ''((CameraActionModeDisable))''),
      (56, ''((ScreenshotNormal))''), (57, ''((ScreenshotStereoscopic))''),
      (59, ''((MapToggle))''), (60, ''((MapFocusPlayer))''), (61, ''((MapFloorDown))''),
      (62, ''((MapFloorUp))''), (63, ''((MapZoomIn))''), (64, ''((MapZoomOut))''),
      (152, ''((SpumoniToggle))''), (130, ''((SpumoniMovement))''),
      (153, ''((SpumoniSecondaryMovement))''), (155, ''((SpumoniMAM01))''),
      (156, ''((SpumoniMAM02))''), (157, ''((SpumoniMAM03))''), (158, ''((SpumoniMAM04))''),
      (159, ''((SpumoniMAM05))''), (161, ''((SpumoniMAM06))''), (169, ''((SpumoniMAM07))''),
      (170, ''((SpumoniMAM08))''), (203, ''((SpumoniMAM09))''),
      (102, ''((SpectatorNearestFixed))''), (103, ''((SpectatorNearestPlayer))''),
      (104, ''((SpectatorPlayerRed1))''), (105, ''((SpectatorPlayerRed2))''),
      (106, ''((SpectatorPlayerRed3))''), (107, ''((SpectatorPlayerRed4))''),
      (108, ''((SpectatorPlayerRed5))''), (109, ''((SpectatorPlayerBlue1))''),
      (110, ''((SpectatorPlayerBlue2))''), (111, ''((SpectatorPlayerBlue3))''),
      (112, ''((SpectatorPlayerBlue4))''), (113, ''((SpectatorPlayerBlue5))''),
      (120, ''((SpectatorFreeCamera))''), (127, ''((SpectatorFreeCameraMode))''),
      (121, ''((SpectatorFreeMoveForward))''), (122, ''((SpectatorFreeMoveBackward))''),
      (123, ''((SpectatorFreeMoveLeft))''), (124, ''((SpectatorFreeMoveRight))''),
      (125, ''((SpectatorFreeMoveUp))''), (126, ''((SpectatorFreeMoveDown))''),
      (86, ''((SquadMarkerPlaceWorld1))''), (87, ''((SquadMarkerPlaceWorld2))''),
      (88, ''((SquadMarkerPlaceWorld3))''), (89, ''((SquadMarkerPlaceWorld4))''),
      (90, ''((SquadMarkerPlaceWorld5))''), (91, ''((SquadMarkerPlaceWorld6))''),
      (92, ''((SquadMarkerPlaceWorld7))''), (93, ''((SquadMarkerPlaceWorld8))''),
      (119, ''((SquadMarkerClearAllWorld))''), (94, ''((SquadMarkerSetAgent1))''),
      (95, ''((SquadMarkerSetAgent2))''), (96, ''((SquadMarkerSetAgent3))''),
      (97, ''((SquadMarkerSetAgent4))''), (98, ''((SquadMarkerSetAgent5))''),
      (99, ''((SquadMarkerSetAgent6))''), (100, ''((SquadMarkerSetAgent7))''),
      (101, ''((SquadMarkerSetAgent8))''), (118, ''((SquadMarkerClearAllAgent))''),
      (196, ''((MasteryAccess))''), (204, ''((MasteryAccess01))''),
      (205, ''((MasteryAccess02))''), (206, ''((MasteryAccess03))''),
      (207, ''((MasteryAccess04))''), (208, ''((MasteryAccess05))''),
      (211, ''((MasteryAccess06))''), (74, ''((MiscAoELoot))''), (65, ''((MiscInteract))''),
      (66, ''((MiscShowEnemies))''), (67, ''((MiscShowAllies))''),
      (68, ''((MiscCombatStance))''), (69, ''((MiscToggleLanguage))''),
      (76, ''((MiscTogglePetCombat))''), (160, ''((MiscToggleFullScreen))''),
      (210, ''((MiscToggleDecorationMode))''), (162, ''((ToyUseDefault))''),
      (163, ''((ToyUseSlot1))''), (164, ''((ToyUseSlot2))''), (165, ''((ToyUseSlot3))''),
      (166, ''((ToyUseSlot4))''), (167, ''((ToyUseSlot5))''), (171, ''((Loadout1))''),
      (172, ''((Loadout2))''), (173, ''((Loadout3))''), (174, ''((Loadout4))''),
      (175, ''((Loadout5))''), (176, ''((Loadout6))''), (177, ''((Loadout7))''),
      (178, ''((Loadout8))''), (179, ''((Loadout9))''), (182, ''((GearLoadout1))''),
      (183, ''((GearLoadout2))''), (184, ''((GearLoadout3))''), (185, ''((GearLoadout4))''),
      (186, ''((GearLoadout5))''), (187, ''((GearLoadout6))''), (188, ''((GearLoadout7))''),
      (189, ''((GearLoadout8))''), (190, ''((GearLoadout9))'')]"

definition game_bind_name :: "game_bind_id \<Rightarrow> string option" where
  "game_bind_name i = map_of known_game_binds i"

definition game_scan_code_to_scan_code :: "u16 \<Rightarrow> u16" where
  "game_scan_code_to_scan_code g =
     (case find (\<lambda>e. fst e = g) game_scan_codes of None \<Rightarrow> 0 | Some e \<Rightarrow> snd e)"

definition scan_code_to_game_scan_code :: "u16 \<Rightarrow> u16" where
  "scan_code_to_game_scan_code s =
     (case find (\<lambda>e. snd e = s) game_scan_codes of None \<Rightarrow> 0 | Some e \<Rightarrow> fst e)"

definition mouse_button_to_game :: "u16 \<Rightarrow> string option" where
  "mouse_button_to_game code =
     (case mouse_from_code code of
        Some LeftButton \<Rightarrow> Some ''0''
      | Some RightButton \<Rightarrow> Some ''2''
      | Some MiddleButton \<Rightarrow> Some ''1''
      | Some X1Button \<Rightarrow> Some ''3''
      | Some X2Button \<Rightarrow> Some ''4''
      | _ \<Rightarrow> None)"

section \<open>Writing\<close>

type_synonym attributes = "(string, string) btree"

text \<open>The value of the modifier attribute.\<close>

definition modifier_bits :: "input_bind \<Rightarrow> u8" where
  "modifier_bits b =
     of_bool (ib_shift b) + push_bit 1 (of_bool (ib_control b)) + push_bit 2 (of_bool (ib_alt b))"

text \<open>\<open>append_xml_slot\<close>; the three suffixes are the same in both calls of the program.\<close>

definition append_xml_slot ::
  "input_bind \<Rightarrow> string \<Rightarrow> string \<Rightarrow> string \<Rightarrow> (string \<times> string) list \<Rightarrow> (string \<times> string) list"
where
  "append_xml_slot b ds bs ms attrs =
     attrs @
     (if ib_device b = device_keyboard \<and> ib_code b \<noteq> 0 then
        [(''device'' @ ds, ''Keyboard''),
         (''button'' @ bs, decimal_digits (unat (scan_code_to_game_scan_code (ib_code b))))]
      else if ib_device b = device_mouse \<and> ib_code b \<noteq> 0 then
        (''device'' @ ds, ''Mouse'') #
        (case mouse_button_to_game (ib_code b) of
           None \<Rightarrow> [] | Some button \<Rightarrow> [(''button'' @ bs, button)])
      else [(''device'' @ ds, ''None'')]) @
     (if modifier_bits b \<noteq> 0 then [(''mod'' @ ms, decimal_digits (unat (modifier_bits b)))] else [])"

section \<open>Reading\<close>

definition parse_xml_slot :: "attributes \<Rightarrow> string \<Rightarrow> string \<Rightarrow> string \<Rightarrow> input_bind option" where
  "parse_xml_slot attrs ds bs ms =
     (case map_of attrs (''device'' @ ds) of
        None \<Rightarrow> None
      | Some device \<Rightarrow>
          (let bits = (case Option.bind (map_of attrs (''mod'' @ ms)) (parse_unsigned 8) of
                         None \<Rightarrow> (0 :: u8) | Some n \<Rightarrow> of_nat n);
               found = (\<lambda>d c. Some (normalized
                 \<lparr>ib_alt = (bits AND 4 \<noteq> 0), ib_control = (bits AND 2 \<noteq> 0),
                  ib_shift = (bits AND 1 \<noteq> 0), ib_device = d, ib_code = c\<rparr>))
           in if device = ''Keyboard'' then
                (case Option.bind (map_of attrs (''button'' @ bs)) (parse_unsigned 16) of
                   None \<Rightarrow> None
                 | Some n \<Rightarrow> found device_keyboard (game_scan_code_to_scan_code (of_nat n)))
              else if device = ''Mouse'' then
                (case map_of attrs (''button'' @ bs) of
                   None \<Rightarrow> None
                 | Some button \<Rightarrow>
                     if button = ''0'' then found device_mouse (mouse_code LeftButton)
                     else if button = ''2'' then found device_mouse (mouse_code RightButton)
                     else if button = ''1'' then found device_mouse (mouse_code MiddleButton)
                     else if button = ''3'' then found device_mouse (mouse_code X1Button)
                     else if button = ''4'' then found device_mouse (mouse_code X2Button)
                     else Some input_bind_default)
              else Some input_bind_default))"

section \<open>Actions\<close>

record game_registry =
  gr_bindings :: game_bindings
  gr_root_extra :: attributes
  gr_action_extra :: "(game_bind_id, attributes) btree"
  gr_loaded_names :: "(game_bind_id, string) btree"

definition slot_keys :: "string list" where
  "slot_keys = [''id'', ''device'', ''button'', ''mod'', ''device2'', ''button2'', ''mod2'']"

definition apply_xml_action :: "attributes \<Rightarrow> game_registry \<Rightarrow> game_registry \<times> bool" where
  "apply_xml_action attrs r =
     (case Option.bind (map_of attrs ''id'') (parse_unsigned 32) of
        None \<Rightarrow> (r, False)
      | Some n \<Rightarrow>
          (let i = (of_nat n :: game_bind_id)
           in if i = legacy_move_swim_up then (r, False)
              else
                (let old = (case map_of (gr_bindings r) i of None \<Rightarrow> multi_default | Some m \<Rightarrow> m);
                     m1 = (case parse_xml_slot attrs [] [] [] of
                             None \<Rightarrow> old | Some b \<Rightarrow> old\<lparr>mb_primary := b\<rparr>);
                     m2 = (case parse_xml_slot attrs ''2'' ''2'' ''2'' of
                             None \<Rightarrow> m1 | Some b \<Rightarrow> m1\<lparr>mb_secondary := b\<rparr>);
                     r1 = r\<lparr>gr_bindings := bt_insert i m2 (gr_bindings r)\<rparr>;
                     r2 = (case map_of attrs ''name'' of
                             None \<Rightarrow> r1
                           | Some n \<Rightarrow> r1\<lparr>gr_loaded_names := bt_insert i n (gr_loaded_names r1)\<rparr>);
                     rest = fold bt_remove (''name'' # slot_keys) attrs
                 in (if rest = [] then r2
                     else r2\<lparr>gr_action_extra := bt_insert i rest (gr_action_extra r2)\<rparr>, True))))"

definition xml_action_attributes ::
  "game_registry \<Rightarrow> game_bind_id \<Rightarrow> multi_input_bind \<Rightarrow> (string \<times> string) list"
where
  "xml_action_attributes r i m =
     (let name = (case game_bind_name i of
                    Some n \<Rightarrow> n
                  | None \<Rightarrow> (case map_of (gr_loaded_names r) i of Some n \<Rightarrow> n | None \<Rightarrow> []));
          attrs = append_xml_slot (mb_secondary m) ''2'' ''2'' ''2''
            (append_xml_slot (mb_primary m) [] [] []
              [(''name'', name), (''id'', decimal_digits (unat i))])
      in attrs @
         (case map_of (gr_action_extra r) i of
            None \<Rightarrow> []
          | Some extra \<Rightarrow> filter (\<lambda>e. fst e \<notin> fst ` set attrs) extra))"

text \<open>What the reader makes of an element: its attributes in a map (\<open>parse_attributes\<close>).\<close>

definition collect_attributes :: "(string \<times> string) list \<Rightarrow> attributes" where
  "collect_attributes l = fold (\<lambda>(k, v). bt_insert k v) l []"

section \<open>The tables\<close>

lemma game_scan_codes_checked:
  "distinct (map fst game_scan_codes)" "distinct (map snd game_scan_codes)"
  "list_all (\<lambda>e. snd e \<noteq> 0) game_scan_codes" "game_scan_code_to_scan_code 0 = 56"
  by code_simp+

lemma find_unique:
  assumes "distinct (map f xs)" and "x \<in> set xs"
  shows "find (\<lambda>y. f y = f x) xs = Some x"
  using assms by (induction xs) (auto simp: image_iff)

lemma scan_code_stored:
  "game_scan_code_to_scan_code (scan_code_to_game_scan_code c) =
     (if c \<in> snd ` set game_scan_codes then c else 56)"
proof (cases "find (\<lambda>e. snd e = c) game_scan_codes")
  case None
  then have "c \<notin> snd ` set game_scan_codes" by (auto simp: find_None_iff)
  then show ?thesis using None game_scan_codes_checked(4) by (simp add: scan_code_to_game_scan_code_def)
next
  case (Some e)
  then have e: "e \<in> set game_scan_codes" "snd e = c" by (auto dest: find_Some_iff_in)
  show ?thesis
    using Some e find_unique [OF game_scan_codes_checked(1) e(1)]
    by (auto simp: scan_code_to_game_scan_code_def game_scan_code_to_scan_code_def)
qed

section \<open>Slots\<close>

text \<open>
  What is left of a slot after it was written and read: \<open>None\<close> means the reader leaves the
  slot as it was.
\<close>

definition stored_slot :: "input_bind \<Rightarrow> input_bind option" where
  "stored_slot b =
     (if ib_device b = device_keyboard \<and> ib_code b \<noteq> 0 then
        Some (b\<lparr>ib_code := (if ib_code b \<in> snd ` set game_scan_codes then ib_code b else 56)\<rparr>)
      else if ib_device b = device_mouse \<and> ib_code b \<noteq> 0 then
        (if mouse_from_code (ib_code b) = None then None else Some b)
      else Some input_bind_default)"

lemma modifier_bits_read:
  "(modifier_bits b AND 4 \<noteq> 0) = ib_alt b" "(modifier_bits b AND 2 \<noteq> 0) = ib_control b"
  "(modifier_bits b AND 1 \<noteq> 0) = ib_shift b"
  by (cases "ib_alt b"; cases "ib_control b"; cases "ib_shift b"; simp add: modifier_bits_def)+

lemma parse_unsigned_word [simp]:
  "parse_unsigned (LENGTH('a)) (decimal_digits (unat w)) = Some (unat w)" for w :: "'a::len word"
  by (rule decimal_roundtrip) (rule unsigned_less)

lemma slot_roundtrip:
  assumes "\<And>k. k \<in> {''device'' @ ds, ''button'' @ bs, ''mod'' @ ms} \<Longrightarrow>
      map_of attrs k = map_of (append_xml_slot b ds bs ms []) k"
  shows "parse_xml_slot attrs ds bs ms = stored_slot b"
proof -
  let ?l = "append_xml_slot b ds bs ms []"
  have bits: "(case Option.bind (map_of attrs (''mod'' @ ms)) (parse_unsigned 8) of
      None \<Rightarrow> (0 :: u8) | Some n \<Rightarrow> of_nat n) = modifier_bits b"
  proof -
    have "map_of ?l (''mod'' @ ms) =
        (if modifier_bits b \<noteq> 0 then Some (decimal_digits (unat (modifier_bits b))) else None)"
      by (auto simp: append_xml_slot_def split: option.splits)
    moreover have "parse_unsigned 8 (decimal_digits (unat (modifier_bits b))) = Some (unat (modifier_bits b))"
      using parse_unsigned_word [of "modifier_bits b"] by simp
    ultimately show ?thesis using assms [of "''mod'' @ ms"] by simp
  qed
  have same: "\<lparr>ib_alt = (modifier_bits b AND 4 \<noteq> 0), ib_control = (modifier_bits b AND 2 \<noteq> 0),
      ib_shift = (modifier_bits b AND 1 \<noteq> 0), ib_device = d, ib_code = c\<rparr> =
      b\<lparr>ib_device := d, ib_code := c\<rparr>" for d c
    by (simp add: modifier_bits_read)
  have device: "map_of attrs (''device'' @ ds) = map_of ?l (''device'' @ ds)"
    and button: "map_of attrs (''button'' @ bs) = map_of ?l (''button'' @ bs)"
    using assms by auto
  consider (key) "ib_device b = device_keyboard" "ib_code b \<noteq> 0"
    | (mouse) "ib_device b = device_mouse" "ib_code b \<noteq> 0"
    | (none) "\<not> (ib_device b = device_keyboard \<and> ib_code b \<noteq> 0)"
        "\<not> (ib_device b = device_mouse \<and> ib_code b \<noteq> 0)"
    by blast
  then show ?thesis
  proof cases
    case key
    let ?w = "scan_code_to_game_scan_code (ib_code b)"
    have "map_of attrs (''device'' @ ds) = Some ''Keyboard''"
      using device key by (simp add: append_xml_slot_def)
    moreover have "Option.bind (map_of attrs (''button'' @ bs)) (parse_unsigned 16) = Some (unat ?w)"
      using button key parse_unsigned_word [of ?w] by (simp add: append_xml_slot_def)
    moreover have "game_scan_code_to_scan_code ?w \<noteq> 0"
      using game_scan_codes_checked(3) by (auto simp: scan_code_stored list_all_iff)
    ultimately have "parse_xml_slot attrs ds bs ms =
        Some (b\<lparr>ib_device := device_keyboard, ib_code := game_scan_code_to_scan_code ?w\<rparr>)"
      unfolding parse_xml_slot_def bits Let_def same by (simp add: normalized_def)
    then show ?thesis using key by (simp add: stored_slot_def scan_code_stored)
  next
    case mouse
    then have nk: "ib_device b \<noteq> device_keyboard" by (simp add: device_defs)
    have dv: "map_of attrs (''device'' @ ds) = Some ''Mouse''"
      using device mouse nk by (simp add: append_xml_slot_def)
    have bt: "map_of attrs (''button'' @ bs) = mouse_button_to_game (ib_code b)"
      using button mouse nk by (simp add: append_xml_slot_def split: option.splits)
    show ?thesis
    proof (cases "mouse_from_code (ib_code b)")
      case None
      then show ?thesis
        using dv bt mouse nk by (simp add: parse_xml_slot_def mouse_button_to_game_def stored_slot_def)
    next
      case (Some m)
      then have c: "ib_code b = mouse_code m" by (simp add: mouse_from_code_iff)
      with mouse have "m \<noteq> NoButton" by auto
      moreover from this have "mouse_code m \<noteq> 0" using c mouse by simp
      ultimately show ?thesis
        using dv bt mouse nk c Some
        unfolding parse_xml_slot_def bits Let_def same
        by (cases m) (simp_all add: normalized_def mouse_button_to_game_def stored_slot_def)
    qed
  next
    case none
    then have "map_of attrs (''device'' @ ds) = Some ''None''"
      using device by (simp add: append_xml_slot_def)
    then show ?thesis using none by (auto simp: parse_xml_slot_def stored_slot_def)
  qed
qed

section \<open>Actions\<close>

lemma collect_attributes_get: "map_of (collect_attributes l) k = map_of (rev l) k"
proof -
  have "map_of (fold (\<lambda>(k, v). bt_insert k v) l m) k = (map_of m ++ map_of (rev l)) k" for m :: attributes
    by (induction l arbitrary: m) (auto simp: map_add_def split: option.splits)
  then show ?thesis by (simp add: collect_attributes_def map_add_def split: option.splits)
qed

text \<open>The keys the program itself writes.\<close>

definition own_keys :: "string set" where
  "own_keys = insert ''name'' (set slot_keys)"

text \<open>The attributes of an action before the preserved ones.\<close>

definition core_attributes :: "string \<Rightarrow> game_bind_id \<Rightarrow> multi_input_bind \<Rightarrow> (string \<times> string) list" where
  "core_attributes name i m =
     append_xml_slot (mb_secondary m) ''2'' ''2'' ''2''
       (append_xml_slot (mb_primary m) [] [] [] [(''name'', name), (''id'', decimal_digits (unat i))])"

lemma slot_keys_of:
  "fst ` set (append_xml_slot b ds bs ms []) \<subseteq> {''device'' @ ds, ''button'' @ bs, ''mod'' @ ms}"
  by (auto simp: append_xml_slot_def split: option.splits if_splits)

lemma slot_distinct: "distinct (map fst (append_xml_slot b ds bs ms []))"
  by (auto simp: append_xml_slot_def split: option.splits)

lemma append_xml_slot_append: "append_xml_slot b ds bs ms l = l @ append_xml_slot b ds bs ms []"
  by (simp add: append_xml_slot_def)

lemma core_split:
  "core_attributes name i m = [(''name'', name), (''id'', decimal_digits (unat i))] @
     append_xml_slot (mb_primary m) [] [] [] [] @ append_xml_slot (mb_secondary m) ''2'' ''2'' ''2'' []"
proof -
  let ?l = "[(''name'', name), (''id'', decimal_digits (unat i))]"
  have "append_xml_slot (mb_primary m) [] [] [] ?l = ?l @ append_xml_slot (mb_primary m) [] [] [] []"
    by (rule append_xml_slot_append)
  moreover have "core_attributes name i m =
      append_xml_slot (mb_primary m) [] [] [] ?l @ append_xml_slot (mb_secondary m) ''2'' ''2'' ''2'' []"
    unfolding core_attributes_def by (rule append_xml_slot_append)
  ultimately show ?thesis by simp
qed

lemma core_distinct: "distinct (map fst (core_attributes name i m))"
proof -
  let ?A = "fst ` set (append_xml_slot (mb_primary m) [] [] [] [])"
  let ?B = "fst ` set (append_xml_slot (mb_secondary m) ''2'' ''2'' ''2'' [])"
  have a: "?A \<subseteq> {''device'', ''button'', ''mod''}" and b: "?B \<subseteq> {''device2'', ''button2'', ''mod2''}"
    using slot_keys_of [of "mb_primary m" "[]" "[]" "[]"]
      slot_keys_of [of "mb_secondary m" "''2''" "''2''" "''2''"] by simp_all
  have d: "{''device'', ''button'', ''mod''} \<inter> {''device2'', ''button2'', ''mod2''} = {}" by simp
  have "?A \<inter> ?B = {}" using a b d by blast
  moreover have "''name'' \<notin> ?A \<union> ?B" "''id'' \<notin> ?A \<union> ?B" using a b by auto
  ultimately show ?thesis unfolding core_split by (simp add: slot_distinct image_Un)
qed

lemma core_own: "fst ` set (core_attributes name i m) \<subseteq> own_keys"
  using slot_keys_of [of "mb_primary m" "[]" "[]" "[]"] slot_keys_of [of "mb_secondary m" "''2''" "''2''" "''2''"]
  unfolding core_split by (auto simp: own_keys_def slot_keys_def)

lemma map_of_rev: "distinct (map fst l) \<Longrightarrow> map_of (rev l) = map_of l"
  by (subst map_of_inject_set) (auto simp: rev_map [symmetric])

lemma core_get:
  "k \<in> {''device'', ''button'', ''mod''} \<Longrightarrow>
     map_of (core_attributes name i m) k = map_of (append_xml_slot (mb_primary m) [] [] [] []) k"
  "k \<in> {''device2'', ''button2'', ''mod2''} \<Longrightarrow>
     map_of (core_attributes name i m) k = map_of (append_xml_slot (mb_secondary m) ''2'' ''2'' ''2'' []) k"
  "map_of (core_attributes name i m) ''id'' = Some (decimal_digits (unat i))"
  "map_of (core_attributes name i m) ''name'' = Some name"
proof -
  have no: "map_of (append_xml_slot b ds bs ms []) k = None"
    if "k \<notin> {''device'' @ ds, ''button'' @ bs, ''mod'' @ ms}" for k b ds bs ms
    using that slot_keys_of unfolding map_of_eq_None_iff by blast
  show "map_of (core_attributes name i m) k = map_of (append_xml_slot (mb_primary m) [] [] [] []) k"
    if "k \<in> {''device'', ''button'', ''mod''}"
  proof -
    have "map_of (append_xml_slot (mb_secondary m) ''2'' ''2'' ''2'' []) k = None"
      by (rule no) (use that in auto)
    moreover have "k \<noteq> ''name''" "k \<noteq> ''id''" using that by auto
    ultimately show ?thesis by (simp add: core_split map_add_def split: option.splits)
  qed
  show "map_of (core_attributes name i m) k = map_of (append_xml_slot (mb_secondary m) ''2'' ''2'' ''2'' []) k"
    if "k \<in> {''device2'', ''button2'', ''mod2''}"
  proof -
    have "map_of (append_xml_slot (mb_primary m) [] [] [] []) k = None"
      by (rule no) (use that in auto)
    moreover have "k \<noteq> ''name''" "k \<noteq> ''id''" using that by auto
    ultimately show ?thesis by (simp add: core_split map_add_def split: option.splits)
  qed
qed (simp_all add: core_split)

text \<open>What was preserved of an action's attributes.\<close>

definition extra_of :: "game_registry \<Rightarrow> game_bind_id \<Rightarrow> attributes" where
  "extra_of r i = (case map_of (gr_action_extra r) i of None \<Rightarrow> [] | Some e \<Rightarrow> e)"

definition extra_clean :: "attributes \<Rightarrow> bool" where
  "extra_clean e \<longleftrightarrow> bt_wf e \<and> fst ` set e \<inter> own_keys = {}"

text \<open>The name an action is written under: that of the table, or the one it was loaded with.\<close>

definition written_name :: "game_registry \<Rightarrow> game_bind_id \<Rightarrow> string" where
  "written_name r i =
     (case game_bind_name i of
        Some n \<Rightarrow> n
      | None \<Rightarrow> (case map_of (gr_loaded_names r) i of Some n \<Rightarrow> n | None \<Rightarrow> []))"

lemma action_attributes_split:
  assumes "extra_clean (extra_of r i)"
  shows "xml_action_attributes r i m = core_attributes (written_name r i) i m @ extra_of r i"
proof -
  have "filter (\<lambda>e. fst e \<notin> fst ` set (core_attributes (written_name r i) i m)) (extra_of r i) = extra_of r i"
    using assms core_own [of "written_name r i" i m] by (auto simp: filter_id_conv extra_clean_def)
  then show ?thesis
    by (auto simp: xml_action_attributes_def Let_def extra_of_def core_attributes_def written_name_def
        split: option.splits)
qed

lemma action_attributes_get:
  assumes "extra_clean (extra_of r i)"
  shows "map_of (collect_attributes (xml_action_attributes r i m)) k =
     (if k \<in> own_keys then map_of (core_attributes (written_name r i) i m) k else map_of (extra_of r i) k)"
proof -
  note l = action_attributes_split [OF assms]
  have e: "map_of (rev (extra_of r i)) = map_of (extra_of r i)"
    using assms by (simp add: extra_clean_def map_of_rev bt_wf_distinct)
  show ?thesis
  proof (cases "k \<in> own_keys")
    case True
    then have "map_of (extra_of r i) k = None"
      using assms by (auto simp: extra_clean_def map_of_eq_None_iff)
    with True show ?thesis
      by (simp add: collect_attributes_get l map_of_rev [OF core_distinct] e map_add_def)
  next
    case False
    then have "map_of (core_attributes (written_name r i) i m) k = None"
      using core_own by (fastforce simp: map_of_eq_None_iff)
    with False show ?thesis
      by (simp add: collect_attributes_get l map_of_rev [OF core_distinct] e map_add_def split: option.splits)
  qed
qed

lemma fold_bt_remove_get:
  "map_of (fold bt_remove ks m) k = (if k \<in> set ks then None else map_of m k)"
  by (induction ks arbitrary: m) auto

section \<open>Properties\<close>


text \<open>The left Windows key as primary binding, a mouse button as secondary.\<close>

definition demo_slots :: multi_input_bind where
  "demo_slots =
     \<lparr>mb_primary = bind_with_key True 0xE05B,
      mb_secondary = \<lparr>ib_alt = True, ib_control = False, ib_shift = True, ib_device = device_mouse, ib_code = 4\<rparr>\<rparr>"

definition demo_game_registry :: game_registry where
  "demo_game_registry =
     \<lparr>gr_bindings = [], gr_root_extra = [], gr_action_extra = [(900, [(''note'', ''x'')])],
      gr_loaded_names = [(900, ''Dance'')]\<rparr>"


end
