(* ===== verification/Addon_Definition.thy ===== *)
theory Addon_Definition
  imports Owner_Token Text_Prelude
begin

text \<open>
  Validation and deep copy of the definition an addon module exports
  (src/crates/nexus-host/src/definition.rs, the revisions of api_table.rs and the flags of
  src/crates/nexus-abi/src/addon.rs). The memory of the live module is read through an injected
  reader, an argument here. A Rust \<open>String\<close> is the list of its bytes, which are well-formed
  UTF-8. Lengths of slices are natural numbers.
\<close>

unbundle bit_operations_syntax

datatype metadata_field = NameField | AuthorField | DescriptionField | UpdateLinkField

record metadata_limits =
  ml_name :: usize
  ml_author :: usize
  ml_description :: usize
  ml_update_link :: usize

definition max_configured_field_bytes :: usize where
  "max_configured_field_bytes = 1024 * 1024"

record metadata_limit_error =
  mle_field :: metadata_field
  mle_requested :: usize
  mle_maximum :: usize

definition metadata_limits_new ::
  "usize \<Rightarrow> usize \<Rightarrow> usize \<Rightarrow> usize \<Rightarrow> metadata_limit_error + metadata_limits"
where
  "metadata_limits_new name author description update_link =
     (case find (\<lambda>(field, limit). max_configured_field_bytes < limit)
        [(NameField, name), (AuthorField, author), (DescriptionField, description),
         (UpdateLinkField, update_link)] of
        Some (field, limit) \<Rightarrow>
          Inl \<lparr>mle_field = field, mle_requested = limit, mle_maximum = max_configured_field_bytes\<rparr>
      | None \<Rightarrow>
          Inr \<lparr>ml_name = name, ml_author = author, ml_description = description,
               ml_update_link = update_link\<rparr>)"

fun for_field :: "metadata_field \<Rightarrow> metadata_limits \<Rightarrow> usize" where
  "for_field NameField l = ml_name l"
| "for_field AuthorField l = ml_author l"
| "for_field DescriptionField l = ml_description l"
| "for_field UpdateLinkField l = ml_update_link l"

definition metadata_limits_default :: metadata_limits where
  "metadata_limits_default =
     \<lparr>ml_name = 255, ml_author = 255, ml_description = 4096, ml_update_link = 2048\<rparr>"

section \<open>The exported definition\<close>

datatype api_revision = V1 | V2 | V3 | V4 | V5 | V6

definition api_revision_try_from :: "u32 \<Rightarrow> u32 + api_revision" where
  "api_revision_try_from value =
     (if value = 1 then Inr V1 else if value = 2 then Inr V2 else if value = 3 then Inr V3
      else if value = 4 then Inr V4 else if value = 5 then Inr V5 else if value = 6 then Inr V6
      else Inl value)"

type_synonym addon_flags = u32

definition flag_volatile :: addon_flags where "flag_volatile = 1"
definition flag_disable_hot_loading :: addon_flags where "flag_disable_hot_loading = 2"
definition flag_launch_only :: addon_flags where "flag_launch_only = 4"

definition flags_contain :: "addon_flags \<Rightarrow> addon_flags \<Rightarrow> bool" where
  "flags_contain flags other \<longleftrightarrow> flags AND other = other"

text \<open>
  \<open>AddonDefinitionV1\<close> as the module exports it: addresses of C strings (0 is null) and
  whether the callbacks are given. Version and provider are copied unread.
\<close>

record raw_definition =
  rd_signature :: u32
  rd_api_version :: u32
  rd_name :: usize
  rd_version :: "u16 \<times> u16 \<times> u16 \<times> u16"
  rd_author :: usize
  rd_description :: usize
  rd_load :: bool
  rd_unload :: bool
  rd_flags :: addon_flags
  rd_provider :: u32
  rd_update_link :: usize

record owned_definition =
  od_signature :: u32
  od_api_revision :: api_revision
  od_name :: "u8 list"
  od_version :: "u16 \<times> u16 \<times> u16 \<times> u16"
  od_author :: "u8 list"
  od_description :: "u8 list"
  od_flags :: addon_flags
  od_provider :: u32
  od_update_link :: "u8 list option"
  od_has_unload_callback :: bool

datatype definition_error =
    ModuleAccess string
  | ZeroSignature
  | MissingLoadCallback
  | MissingUnloadCallback
  | UnsupportedRevision u32
  | NullMetadata metadata_field
  | MemoryRead metadata_field string
  | ReaderExceededBound metadata_field usize nat
  | UnterminatedMetadata metadata_field usize
  | InvalidUtf8 metadata_field

section \<open>Copying one field\<close>

type_synonym module_memory = "usize \<Rightarrow> usize \<Rightarrow> string + u8 list"

text \<open>\<open>iter().position(p)\<close>.\<close>

fun position :: "('a \<Rightarrow> bool) \<Rightarrow> 'a list \<Rightarrow> nat option" where
  "position p [] = None"
| "position p (x # xs) = (if p x then Some 0 else map_option Suc (position p xs))"

definition copy_at ::
  "module_memory \<Rightarrow> usize \<Rightarrow> metadata_field \<Rightarrow> metadata_limits \<Rightarrow> definition_error + u8 list"
where
  "copy_at memory address field limits =
     (let maximum = for_field field limits; requested = maximum + 1
      in case memory address requested of
           Inl source \<Rightarrow> Inl (MemoryRead field source)
         | Inr bytes \<Rightarrow>
             if unat requested < length bytes
             then Inl (ReaderExceededBound field requested (length bytes))
             else
               (case position (\<lambda>b. b = 0) bytes of
                  None \<Rightarrow> Inl (UnterminatedMetadata field maximum)
                | Some nul \<Rightarrow>
                    if unat maximum < nul then Inl (UnterminatedMetadata field maximum)
                    else if utf8_valid (take nul bytes) then Inr (take nul bytes)
                    else Inl (InvalidUtf8 field)))"

definition copy_required ::
  "module_memory \<Rightarrow> usize \<Rightarrow> metadata_field \<Rightarrow> metadata_limits \<Rightarrow> definition_error + u8 list"
where
  "copy_required memory pointer field limits =
     (if pointer = 0 then Inl (NullMetadata field) else copy_at memory pointer field limits)"

definition copy_optional ::
  "module_memory \<Rightarrow> usize \<Rightarrow> metadata_field \<Rightarrow> metadata_limits \<Rightarrow>
   definition_error + u8 list option"
where
  "copy_optional memory pointer field limits =
     (if pointer = 0 then Inr None
      else case copy_at memory pointer field limits of
             Inl e \<Rightarrow> Inl e
           | Inr value \<Rightarrow> Inr (if value = [] then None else Some value))"

section \<open>Validation\<close>

text \<open>The lease of the live module: its definition and its memory, or an access error.\<close>

type_synonym live_module = "string + raw_definition \<times> module_memory"

definition validate_and_copy_definition ::
  "live_module \<Rightarrow> metadata_limits \<Rightarrow> definition_error + owned_definition"
where
  "validate_and_copy_definition live limits =
     (case live of
        Inl e \<Rightarrow> Inl (ModuleAccess e)
      | Inr (d, memory) \<Rightarrow>
          if rd_signature d = 0 then Inl ZeroSignature
          else case api_revision_try_from (rd_api_version d) of
            Inl v \<Rightarrow> Inl (UnsupportedRevision v)
          | Inr revision \<Rightarrow>
              if \<not> rd_load d then Inl MissingLoadCallback
              else if \<not> rd_unload d \<and> \<not> flags_contain (rd_flags d) flag_disable_hot_loading
              then Inl MissingUnloadCallback
              else case copy_required memory (rd_name d) NameField limits of
                Inl e \<Rightarrow> Inl e
              | Inr name \<Rightarrow>
                (case copy_required memory (rd_author d) AuthorField limits of
                   Inl e \<Rightarrow> Inl e
                 | Inr author \<Rightarrow>
                   (case copy_required memory (rd_description d) DescriptionField limits of
                      Inl e \<Rightarrow> Inl e
                    | Inr description \<Rightarrow>
                      (case copy_optional memory (rd_update_link d) UpdateLinkField limits of
                         Inl e \<Rightarrow> Inl e
                       | Inr update_link \<Rightarrow>
                           Inr \<lparr>od_signature = rd_signature d, od_api_revision = revision,
                                od_name = name, od_version = rd_version d, od_author = author,
                                od_description = description, od_flags = rd_flags d,
                                od_provider = rd_provider d, od_update_link = update_link,
                                od_has_unload_callback = rd_unload d\<rparr>))))"

section \<open>What a copied field is\<close>

lemma position_Some:
  "position p xs = Some n \<longleftrightarrow> n < length xs \<and> p (xs ! n) \<and> (\<forall>x \<in> set (take n xs). \<not> p x)"
proof (induction xs arbitrary: n)
  case (Cons x xs)
  then show ?case by (cases n) auto
qed simp

lemma position_append: "\<forall>x \<in> set xs. \<not> p x \<Longrightarrow> p y \<Longrightarrow> position p (xs @ y # ys) = Some (length xs)"
  by (induction xs) auto

text \<open>A reader that is faithful to what lies in memory from each address on.\<close>

definition faithful :: "module_memory \<Rightarrow> (usize \<Rightarrow> u8 list) \<Rightarrow> bool" where
  "faithful memory m \<longleftrightarrow> (\<forall>a n. memory a n = Inr (take (unat n) (m a)))"

text \<open>\<open>s\<close> is the NUL-terminated UTF-8 string at the head of \<open>bytes\<close>, at most \<open>n\<close> bytes long.\<close>

definition c_string :: "u8 list \<Rightarrow> nat \<Rightarrow> u8 list \<Rightarrow> bool" where
  "c_string bytes n s \<longleftrightarrow>
     (\<exists>rest. bytes = s @ 0 # rest) \<and> 0 \<notin> set s \<and> length s \<le> n \<and> utf8_valid s"

lemma c_string_takeWhile: "c_string bytes n s \<Longrightarrow> s = takeWhile (\<lambda>b. b \<noteq> 0) bytes"
  by (auto simp: c_string_def intro!: takeWhile_append2 [THEN trans, symmetric])

lemma c_string_unique: "c_string bytes n s \<Longrightarrow> c_string bytes n t \<Longrightarrow> s = t"
  by (metis c_string_takeWhile)

text \<open>Whatever the reader does, an accepted string is terminated, bounded and well-formed.\<close>

lemma copy_at_Inr:
  assumes "copy_at memory a field limits = Inr s"
  shows "length s \<le> unat (for_field field limits) \<and> 0 \<notin> set s \<and> utf8_valid s \<and>
    (\<exists>bytes. memory a (for_field field limits + 1) = Inr bytes \<and> (\<exists>rest. bytes = s @ 0 # rest))"
proof -
  from assms obtain bytes nul where b: "memory a (for_field field limits + 1) = Inr bytes"
    and n: "position (\<lambda>b. b = 0) bytes = Some nul" "nul \<le> unat (for_field field limits)"
    and s: "s = take nul bytes" "utf8_valid s"
    by (auto simp: copy_at_def Let_def split: sum.splits if_splits option.splits)
  from n have "bytes = take nul bytes @ 0 # drop (Suc nul) bytes" "0 \<notin> set (take nul bytes)"
    using id_take_nth_drop [of nul bytes] by (auto simp: position_Some)
  then show ?thesis using s n b by auto
qed

lemma copy_at_iff:
  assumes "faithful memory m" and "unat (for_field field limits) < 2 ^ 64 - 1"
  shows "copy_at memory a field limits = Inr s \<longleftrightarrow>
    c_string (m a) (unat (for_field field limits)) s"
proof
  let ?n = "unat (for_field field limits)"
  have req: "unat (for_field field limits + 1) = Suc ?n"
    using assms(2) by (simp add: unat_word_ariths)
  assume "copy_at memory a field limits = Inr s"
  from copy_at_Inr [OF this] obtain rest where "length s \<le> ?n" "0 \<notin> set s" "utf8_valid s"
    and "take (Suc ?n) (m a) = s @ 0 # rest"
    using assms(1) req by (auto simp: faithful_def)
  then have "m a = s @ 0 # (rest @ drop (Suc ?n) (m a))"
    using append_take_drop_id [of "Suc ?n" "m a"] by simp
  then show "c_string (m a) ?n s"
    using \<open>length s \<le> ?n\<close> \<open>0 \<notin> set s\<close> \<open>utf8_valid s\<close> unfolding c_string_def by blast
next
  let ?n = "unat (for_field field limits)"
  assume "c_string (m a) ?n s"
  then obtain rest where m: "m a = s @ 0 # rest" and s: "0 \<notin> set s" "length s \<le> ?n" "utf8_valid s"
    by (auto simp: c_string_def)
  have req: "unat (for_field field limits + 1) = Suc ?n"
    using assms(2) by (simp add: unat_word_ariths)
  have t: "take (Suc ?n) (m a) = s @ 0 # take (?n - length s) rest"
    using s(2) by (simp add: m Suc_diff_le)
  have "position (\<lambda>b. b = 0) (s @ 0 # take (?n - length s) rest) = Some (length s)"
    using s(1) by (intro position_append) auto
  moreover have "length (s @ 0 # take (?n - length s) rest) \<le> Suc ?n" using s(2) by simp
  ultimately show "copy_at memory a field limits = Inr s"
    using assms(1) s(2,3) req t by (simp add: copy_at_def Let_def faithful_def)
qed

lemma copy_required_iff:
  assumes "faithful memory m" and "unat (for_field field limits) < 2 ^ 64 - 1"
  shows "copy_required memory a field limits = Inr s \<longleftrightarrow>
    a \<noteq> 0 \<and> c_string (m a) (unat (for_field field limits)) s"
  using copy_at_iff [OF assms] by (simp add: copy_required_def)

text \<open>A null pointer and an empty string are both no update link.\<close>

definition optional_c_string :: "(usize \<Rightarrow> u8 list) \<Rightarrow> usize \<Rightarrow> nat \<Rightarrow> u8 list option \<Rightarrow> bool" where
  "optional_c_string m a n v \<longleftrightarrow>
     (if a = 0 then v = None
      else case v of None \<Rightarrow> c_string (m a) n [] | Some s \<Rightarrow> s \<noteq> [] \<and> c_string (m a) n s)"

lemma copy_optional_iff:
  assumes "faithful memory m" and "unat (for_field field limits) < 2 ^ 64 - 1"
  shows "copy_optional memory a field limits = Inr v \<longleftrightarrow>
    optional_c_string m a (unat (for_field field limits)) v"
  using copy_at_iff [OF assms, of a]
  by (auto simp: copy_optional_def optional_c_string_def dest: c_string_unique split: sum.splits option.splits)

lemma bind_Inr_iff:
  "(case x of Inl e \<Rightarrow> Inl (g e) | Inr v \<Rightarrow> f v) = Inr y \<longleftrightarrow> (\<exists>v. x = Inr v \<and> f v = Inr y)"
  by (cases x) auto

definition limits_ok :: "metadata_limits \<Rightarrow> bool" where
  "limits_ok l \<longleftrightarrow> (\<forall>f. for_field f l \<le> max_configured_field_bytes)"

lemma limits_ok_bound:
  assumes "limits_ok l" shows "unat (for_field f l) < 2 ^ 64 - 1"
proof -
  have "unat (for_field f l) \<le> unat max_configured_field_bytes"
    using assms by (simp add: limits_ok_def word_le_nat_alt)
  then show ?thesis by (simp add: max_configured_field_bytes_def)
qed

text \<open>Every configuration the crate can hand out has small limits, so \<open>maximum + 1\<close> is exact.\<close>

lemma metadata_limits_new_ok: "metadata_limits_new a b c d = Inr l \<Longrightarrow> limits_ok l"
  unfolding limits_ok_def
proof
  fix f assume "metadata_limits_new a b c d = Inr l"
  then show "for_field f l \<le> max_configured_field_bytes"
    by (cases f) (auto simp: metadata_limits_new_def not_less split: if_splits)
qed

lemma metadata_limits_default_ok [simp]: "limits_ok metadata_limits_default"
  unfolding limits_ok_def
proof
  fix f show "for_field f metadata_limits_default \<le> max_configured_field_bytes"
    by (cases f) (simp_all add: metadata_limits_default_def max_configured_field_bytes_def)
qed

section \<open>Properties\<close>

text \<open>
  C12. A definition is accepted exactly when its signature is nonzero, its revision known, its
  load callback given, its unload callback given or runtime unloading disabled, and every string
  field is a terminated UTF-8 string within its limit; then the owned copy holds exactly those
  strings and the other fields unchanged, and a null or empty update link is no link.
\<close>
theorem definition_copied_exactly:
  assumes "faithful memory m" and "limits_ok limits"
  shows "validate_and_copy_definition (Inr (d, memory)) limits = Inr owned \<longleftrightarrow>
    rd_signature d \<noteq> 0 \<and> api_revision_try_from (rd_api_version d) = Inr (od_api_revision owned) \<and>
    rd_load d \<and> (rd_unload d \<or> flags_contain (rd_flags d) flag_disable_hot_loading) \<and>
    rd_name d \<noteq> 0 \<and> c_string (m (rd_name d)) (unat (ml_name limits)) (od_name owned) \<and>
    rd_author d \<noteq> 0 \<and> c_string (m (rd_author d)) (unat (ml_author limits)) (od_author owned) \<and>
    rd_description d \<noteq> 0 \<and>
    c_string (m (rd_description d)) (unat (ml_description limits)) (od_description owned) \<and>
    optional_c_string m (rd_update_link d) (unat (ml_update_link limits)) (od_update_link owned) \<and>
    od_signature owned = rd_signature d \<and> od_version owned = rd_version d \<and>
    od_flags owned = rd_flags d \<and> od_provider owned = rd_provider d \<and>
    od_has_unload_callback owned = rd_unload d"
proof -
  note b = limits_ok_bound [OF assms(2)]
  note copies = copy_required_iff [OF assms(1) b] copy_optional_iff [OF assms(1) b]
  show ?thesis
    unfolding validate_and_copy_definition_def
    by (cases owned) (auto simp: bind_Inr_iff copies)
qed

definition demo_memory :: "usize \<Rightarrow> u8 list" where
  "demo_memory a = (if a = 1 then [78, 195, 169, 0, 7] else if a = 2 then [65, 0] else [0])"

definition demo_definition :: raw_definition where
  "demo_definition =
     \<lparr>rd_signature = 7, rd_api_version = 6, rd_name = 1, rd_version = (1, 0, 0, 0), rd_author = 2,
      rd_description = 3, rd_load = True, rd_unload = False, rd_flags = 3, rd_provider = 0,
      rd_update_link = 4\<rparr>"

theorem definition_copied_exactly_witness:
  "validate_and_copy_definition
     (Inr (demo_definition, \<lambda>a n. Inr (take (unat n) (demo_memory a)))) metadata_limits_default =
   Inr \<lparr>od_signature = 7, od_api_revision = V6, od_name = [78, 195, 169],
        od_version = (1, 0, 0, 0), od_author = [65], od_description = [], od_flags = 3,
        od_provider = 0, od_update_link = None, od_has_unload_callback = False\<rparr>"
proof -
  have f: "faithful (\<lambda>a n. Inr (take (unat n) (demo_memory a))) demo_memory"
    by (simp add: faithful_def)
  show ?thesis
    by (subst definition_copied_exactly [OF f metadata_limits_default_ok])
      (simp add: demo_definition_def demo_memory_def metadata_limits_default_def
        api_revision_try_from_def flags_contain_def flag_disable_hot_loading_def c_string_def
        optional_c_string_def utf8_cont_def)
qed

end
