(* ===== verification/Addon_Cleanup.thy ===== *)
theory Addon_Cleanup
  imports Owner_Token Text_Prelude
begin

text \<open>
  The composite registration cleaner (src/crates/nexus-addon-cleanup/src/cleaner.rs with
  domain.rs, adapter.rs and report.rs) and the cleanup phases of
  src/crates/nexus-host/src/host.rs it serves. An adapter is foreign code in front of one
  service, so the services behind the adapters are a state of unknown type that the adapters
  change: calling an adapter is an argument of the operations. A \<open>HashMap\<close> is a partial
  function.
\<close>

section \<open>Phases and services\<close>

datatype cleanup_phase = HookRegistrations | CallbackRegistrations | OwnedResources

definition cleanup_order :: "cleanup_phase list" where
  "cleanup_order = [HookRegistrations, CallbackRegistrations, OwnedResources]"

definition pre_drain_count :: nat where "pre_drain_count = 2"

fun phase_index :: "cleanup_phase \<Rightarrow> nat" where
  "phase_index HookRegistrations = 0"
| "phase_index CallbackRegistrations = 1"
| "phase_index OwnedResources = 2"

definition phase_from_index :: "nat \<Rightarrow> cleanup_phase" where
  "phase_from_index i =
     (if i = 0 then HookRegistrations else if i = 1 then CallbackRegistrations else OwnedResources)"

datatype cleanup_service =
    InlineHooks
  | UiHostCallbacks
  | RawWndProcCallbacks
  | ManagedInputCallbacks
  | EventCallbacks
  | TextureCallbacks
  | FontCallbacks
  | FontResources
  | LocalizationOverrides

definition service_order :: "cleanup_service list" where
  "service_order =
     [InlineHooks, UiHostCallbacks, RawWndProcCallbacks, ManagedInputCallbacks, EventCallbacks,
      TextureCallbacks, FontCallbacks, FontResources, LocalizationOverrides]"

fun service_phase :: "cleanup_service \<Rightarrow> cleanup_phase" where
  "service_phase InlineHooks = HookRegistrations"
| "service_phase FontResources = OwnedResources"
| "service_phase LocalizationOverrides = OwnedResources"
| "service_phase _ = CallbackRegistrations"

fun service_label :: "cleanup_service \<Rightarrow> string" where
  "service_label InlineHooks = ''inline-hooks''"
| "service_label UiHostCallbacks = ''ui-host-callbacks''"
| "service_label RawWndProcCallbacks = ''raw-wndproc-callbacks''"
| "service_label ManagedInputCallbacks = ''managed-input-callbacks''"
| "service_label EventCallbacks = ''event-callbacks''"
| "service_label TextureCallbacks = ''texture-callbacks''"
| "service_label FontCallbacks = ''font-callbacks''"
| "service_label FontResources = ''font-resources''"
| "service_label LocalizationOverrides = ''localization-overrides''"

section \<open>Adapters\<close>

datatype adapter_failure_kind = Busy | Rejected | CompletionUnverified | Unavailable

record adapter_error =
  ae_kind :: adapter_failure_kind
  ae_removed :: usize
  ae_remaining :: "usize option"

definition adapter_error_new :: "adapter_failure_kind \<Rightarrow> adapter_error" where
  "adapter_error_new k = \<lparr>ae_kind = k, ae_removed = 0, ae_remaining = None\<rparr>"

definition with_removed :: "usize \<Rightarrow> adapter_error \<Rightarrow> adapter_error" where
  "with_removed n e = e\<lparr>ae_removed := n\<rparr>"

definition with_remaining :: "usize \<Rightarrow> adapter_error \<Rightarrow> adapter_error" where
  "with_remaining n e = e\<lparr>ae_remaining := Some n\<rparr>"

text \<open>\<open>AdapterResult\<close>: the removals of a complete cleanup, or the failure.\<close>

type_synonym adapter_result = "adapter_error + usize"

datatype gap_reason =
    NotConfigured
  | ConcreteServiceUnavailable
  | ThreadAffinityBridgeUnavailable
  | CompletionAcknowledgementUnavailable
  | UpstreamApiMissing
  | UpstreamLockSafetyUnproven

text \<open>\<open>ErasedAdapter\<close>: a closure, by number, or an explicit gap.\<close>

datatype erased_adapter = AdapterCallback nat | AdapterGap gap_reason

definition adapter_gap :: "erased_adapter \<Rightarrow> gap_reason option" where
  "adapter_gap a = (case a of AdapterCallback _ \<Rightarrow> None | AdapterGap reason \<Rightarrow> Some reason)"

datatype adapter_outcome = AdapterReturns adapter_result | AdapterPanics

text \<open>
  What running the closure installed for a service on the services behind the adapters does.
\<close>

type_synonym 'w adapters =
  "cleanup_service \<Rightarrow> nat \<Rightarrow> owner_token \<Rightarrow> 'w \<Rightarrow> 'w \<times> adapter_outcome"

text \<open>\<open>ErasedAdapter::invoke\<close> under \<open>catch_unwind\<close>; \<open>None\<close> is the \<open>Ok(None)\<close> of a gap.\<close>

definition adapter_invoke ::
  "'w adapters \<Rightarrow> cleanup_service \<Rightarrow> erased_adapter \<Rightarrow> owner_token \<Rightarrow> 'w \<Rightarrow>
   'w \<times> adapter_outcome option"
where
  "adapter_invoke run svc a owner w =
     (case a of
        AdapterCallback cb \<Rightarrow> (let (w', r) = run svc cb owner w in (w', Some r))
      | AdapterGap _ \<Rightarrow> (w, None))"

section \<open>Progress and reports\<close>

datatype step_failure = AdapterFailure adapter_failure_kind | AdapterPanicked

datatype progress_state =
    Pending
  | Complete usize u32
  | FailedStep step_failure usize "usize option" u32

fun is_complete :: "progress_state \<Rightarrow> bool" where
  "is_complete (Complete _ _) = True"
| "is_complete _ = False"

fun progress_counters :: "progress_state \<Rightarrow> usize \<times> u32" where
  "progress_counters Pending = (0, 0)"
| "progress_counters (Complete removed attempts) = (removed, attempts)"
| "progress_counters (FailedStep _ removed _ attempts) = (removed, attempts)"

datatype step_status =
    StepPending
  | StepComplete usize u32
  | StepFailed step_failure usize "usize option" u32
  | StepGap gap_reason

fun progress_report :: "progress_state \<Rightarrow> step_status" where
  "progress_report Pending = StepPending"
| "progress_report (Complete removed attempts) = StepComplete removed attempts"
| "progress_report (FailedStep f removed remaining attempts) = StepFailed f removed remaining attempts"

record owner_progress =
  op_slots :: "progress_state list"
  op_completed_phases :: "bool list"

definition owner_progress_new :: "nat \<Rightarrow> owner_progress" where
  "owner_progress_new n =
     \<lparr>op_slots = replicate n Pending, op_completed_phases = [False, False, False]\<rparr>"

datatype phase_status = PhaseComplete | PhaseIncomplete | PhaseBlocked cleanup_phase

record step_report =
  sp_service :: cleanup_service
  sp_status :: step_status

record cleanup_report =
  cr_owner :: owner_token
  cr_phase :: cleanup_phase
  cr_status :: phase_status
  cr_steps :: "step_report list"

record slot =
  sl_service :: cleanup_service
  sl_adapter :: erased_adapter

record registration_cleaner =
  rc_slots :: "slot list"
  rc_progress :: "owner_token \<Rightarrow> owner_progress option"
  rc_last_report :: "cleanup_report option"

text \<open>
  \<open>RegistrationCleanerBuilder\<close>: one adapter per service, a gap until it is set, and the slots
  in the fixed order.
\<close>

type_synonym cleaner_builder = "cleanup_service \<Rightarrow> erased_adapter"

definition builder_default :: cleaner_builder where
  "builder_default = (\<lambda>_. AdapterGap NotConfigured)"

definition builder_set :: "cleanup_service \<Rightarrow> erased_adapter \<Rightarrow> cleaner_builder \<Rightarrow> cleaner_builder" where
  "builder_set svc a b = b(svc := a)"

definition builder_build :: "cleaner_builder \<Rightarrow> registration_cleaner" where
  "builder_build b =
     \<lparr>rc_slots = map (\<lambda>svc. \<lparr>sl_service = svc, sl_adapter = b svc\<rparr>) service_order,
      rc_progress = (\<lambda>_. None), rc_last_report = None\<rparr>"

section \<open>Operations\<close>

definition phase_completed :: "owner_token \<Rightarrow> cleanup_phase \<Rightarrow> registration_cleaner \<Rightarrow> bool" where
  "phase_completed owner phase c =
     (case rc_progress c owner of
        None \<Rightarrow> False
      | Some p \<Rightarrow> op_completed_phases p ! phase_index phase)"

definition first_incomplete_prior_phase ::
  "owner_token \<Rightarrow> cleanup_phase \<Rightarrow> registration_cleaner \<Rightarrow> cleanup_phase option"
where
  "first_incomplete_prior_phase owner phase c =
     map_option phase_from_index
       (find (\<lambda>i. case rc_progress c owner of
                    None \<Rightarrow> True
                  | Some p \<Rightarrow> \<not> op_completed_phases p ! i)
         [0..<phase_index phase])"

definition step_status_of :: "progress_state option \<Rightarrow> slot \<Rightarrow> step_status" where
  "step_status_of p sl =
     (case map_option progress_report p of
        Some (StepComplete removed attempts) \<Rightarrow> StepComplete removed attempts
      | progress_status \<Rightarrow>
          (case adapter_gap (sl_adapter sl) of
             Some reason \<Rightarrow> StepGap reason
           | None \<Rightarrow> (case progress_status of None \<Rightarrow> StepPending | Some s \<Rightarrow> s)))"

definition build_report ::
  "owner_token \<Rightarrow> cleanup_phase \<Rightarrow> phase_status \<Rightarrow> registration_cleaner \<Rightarrow> cleanup_report"
where
  "build_report owner phase status c =
     \<lparr>cr_owner = owner, cr_phase = phase, cr_status = status,
      cr_steps =
        map (\<lambda>(i, sl). \<lparr>sp_service = sl_service sl,
               sp_status = step_status_of (map_option (\<lambda>p. op_slots p ! i) (rc_progress c owner)) sl\<rparr>)
          (filter (\<lambda>(i, sl). service_phase (sl_service sl) = phase) (enumerate 0 (rc_slots c)))\<rparr>"

text \<open>One iteration of \<open>run_pending_slots\<close> on the progress of one owner.\<close>

definition next_progress :: "progress_state \<Rightarrow> adapter_outcome option \<Rightarrow> progress_state" where
  "next_progress p outcome =
     (let (previously_removed, attempts) = progress_counters p;
          attempts = saturating_add attempts 1
      in case outcome of
           Some (AdapterReturns (Inr removed)) \<Rightarrow>
             Complete (saturating_add previously_removed removed) attempts
         | Some (AdapterReturns (Inl e)) \<Rightarrow>
             FailedStep (AdapterFailure (ae_kind e)) (saturating_add previously_removed (ae_removed e))
               (ae_remaining e) attempts
         | None \<Rightarrow> Pending
         | Some AdapterPanics \<Rightarrow> FailedStep AdapterPanicked previously_removed None attempts)"

fun run_slots ::
  "'w adapters \<Rightarrow> owner_token \<Rightarrow> cleanup_phase \<Rightarrow> (nat \<times> slot) list \<Rightarrow> progress_state list \<Rightarrow> 'w \<Rightarrow>
   progress_state list \<times> 'w"
where
  "run_slots run owner phase [] ps w = (ps, w)"
| "run_slots run owner phase ((i, sl) # rest) ps w =
     (if service_phase (sl_service sl) \<noteq> phase \<or> is_complete (ps ! i)
      then run_slots run owner phase rest ps w
      else if adapter_gap (sl_adapter sl) \<noteq> None
      then run_slots run owner phase rest ps w
      else
        (let (w', outcome) = adapter_invoke run (sl_service sl) (sl_adapter sl) owner w
         in run_slots run owner phase rest (ps[i := next_progress (ps ! i) outcome]) w'))"

definition run_pending_slots ::
  "'w adapters \<Rightarrow> owner_token \<Rightarrow> cleanup_phase \<Rightarrow> registration_cleaner \<Rightarrow> 'w \<Rightarrow>
   registration_cleaner \<times> 'w"
where
  "run_pending_slots run owner phase c w =
     (case rc_progress c owner of
        None \<Rightarrow> (c, w)
      | Some p \<Rightarrow>
          (let (ps, w') = run_slots run owner phase (enumerate 0 (rc_slots c)) (op_slots p) w
           in (c\<lparr>rc_progress := (rc_progress c)(owner := Some (p\<lparr>op_slots := ps\<rparr>))\<rparr>, w')))"

definition mark_phase_if_complete ::
  "owner_token \<Rightarrow> cleanup_phase \<Rightarrow> registration_cleaner \<Rightarrow> registration_cleaner \<times> bool"
where
  "mark_phase_if_complete owner phase c =
     (case rc_progress c owner of
        None \<Rightarrow> (c, False)
      | Some p \<Rightarrow>
          (let complete = list_all (\<lambda>(i, sl). service_phase (sl_service sl) \<noteq> phase \<or>
                 is_complete (op_slots p ! i)) (enumerate 0 (rc_slots c))
           in (c\<lparr>rc_progress := (rc_progress c)(owner :=
                 Some (p\<lparr>op_completed_phases :=
                   (op_completed_phases p)[phase_index phase := complete]\<rparr>))\<rparr>, complete)))"

text \<open>The failure is the report; both outcomes leave it as the last report.\<close>

definition cleanup_phase_op ::
  "'w adapters \<Rightarrow> owner_token \<Rightarrow> cleanup_phase \<Rightarrow> registration_cleaner \<times> 'w \<Rightarrow>
   (registration_cleaner \<times> 'w) \<times> (cleanup_report + cleanup_report)"
where
  "cleanup_phase_op run owner phase cw =
     (let (c0, w) = cw;
          c = (case rc_progress c0 owner of
                 Some _ \<Rightarrow> c0
               | None \<Rightarrow> c0\<lparr>rc_progress := (rc_progress c0)(owner :=
                   Some (owner_progress_new (length (rc_slots c0))))\<rparr>)
      in case first_incomplete_prior_phase owner phase c of
           Some required \<Rightarrow>
             (let report = build_report owner phase (PhaseBlocked required) c
              in ((c\<lparr>rc_last_report := Some report\<rparr>, w), Inl report))
         | None \<Rightarrow>
             if phase_completed owner phase c
             then (let report = build_report owner phase PhaseComplete c
                   in ((c\<lparr>rc_last_report := Some report\<rparr>, w), Inr report))
             else
               (let (c1, w1) = run_pending_slots run owner phase c w;
                    (c2, complete) = mark_phase_if_complete owner phase c1;
                    report = build_report owner phase
                      (if complete then PhaseComplete else PhaseIncomplete) c2
                in ((c2\<lparr>rc_last_report := Some report\<rparr>, w1),
                    if complete then Inr report else Inl report)))"

definition cleaner_report :: "owner_token \<Rightarrow> cleanup_phase \<Rightarrow> registration_cleaner \<Rightarrow> cleanup_report" where
  "cleaner_report owner phase c =
     (if phase_completed owner phase c then build_report owner phase PhaseComplete c
      else case first_incomplete_prior_phase owner phase c of
             Some required \<Rightarrow> build_report owner phase (PhaseBlocked required) c
           | None \<Rightarrow> build_report owner phase PhaseIncomplete c)"

definition coverage :: "registration_cleaner \<Rightarrow> (cleanup_service \<times> gap_reason option) list" where
  "coverage c = map (\<lambda>sl. (sl_service sl, adapter_gap (sl_adapter sl))) (rc_slots c)"

definition coverage_is_complete :: "registration_cleaner \<Rightarrow> bool" where
  "coverage_is_complete c = list_all (\<lambda>(svc, gap). gap = None) (coverage c)"

definition cleaner_install ::
  "cleanup_service \<Rightarrow> erased_adapter \<Rightarrow> registration_cleaner \<Rightarrow> registration_cleaner"
where
  "cleaner_install svc a c =
     c\<lparr>rc_slots := update_first (\<lambda>sl. sl_service sl = svc) (\<lambda>sl. sl\<lparr>sl_adapter := a\<rparr>) (rc_slots c)\<rparr>"

definition forget_owner :: "owner_token \<Rightarrow> registration_cleaner \<Rightarrow> registration_cleaner \<times> bool" where
  "forget_owner owner c =
     (c\<lparr>rc_progress := (rc_progress c)(owner := None)\<rparr>, rc_progress c owner \<noteq> None)"

text \<open>\<open>RegistrationCleaner::cleanup\<close> of the host's trait: the error is the failure's text.\<close>

fun phase_name :: "cleanup_phase \<Rightarrow> string" where
  "phase_name HookRegistrations = ''HookRegistrations''"
| "phase_name CallbackRegistrations = ''CallbackRegistrations''"
| "phase_name OwnedResources = ''OwnedResources''"

definition failure_counts :: "cleanup_report \<Rightarrow> nat \<times> nat" where
  "failure_counts r =
     (length (filter (\<lambda>s. case sp_status s of StepFailed _ _ _ _ \<Rightarrow> True | _ \<Rightarrow> False) (cr_steps r)),
      length (filter (\<lambda>s. case sp_status s of StepGap _ \<Rightarrow> True | _ \<Rightarrow> False) (cr_steps r)))"

text \<open>\<open>CleanupFailure\<close>'s \<open>Display\<close>, which becomes the host's \<open>CleanupError\<close>.\<close>

definition failure_text :: "cleanup_report \<Rightarrow> string" where
  "failure_text r =
     (let (failed, gaps) = failure_counts r
      in ''addon registration cleanup incomplete: phase='' @ phase_name (cr_phase r) @
         '', failed='' @ decimal_digits failed @ '', gaps='' @ decimal_digits gaps)"

type_synonym cleanup_error = string

definition trait_cleanup ::
  "'w adapters \<Rightarrow> owner_token \<Rightarrow> cleanup_phase \<Rightarrow> registration_cleaner \<times> 'w \<Rightarrow>
   (registration_cleaner \<times> 'w) \<times> (cleanup_error + unit)"
where
  "trait_cleanup run owner phase cw =
     (let (cw', result) = cleanup_phase_op run owner phase cw
      in (cw', case result of
                 Inr _ \<Rightarrow> Inr ()
               | Inl report \<Rightarrow> Inl (failure_text report)))"

section \<open>The invariant of the bookkeeping\<close>

lemma service_order_facts [simp]:
  "distinct service_order" "length service_order = 9" "set service_order = UNIV"
proof -
  show "distinct service_order" "length service_order = 9" by (simp_all add: service_order_def)
  have "svc \<in> set service_order" for svc by (cases svc) (simp_all add: service_order_def)
  then show "set service_order = UNIV" by blast
qed

lemma phase_index_less [simp]: "phase_index p < 3"
  by (cases p) simp_all

lemma phase_index_inj [simp]: "phase_index p = phase_index q \<longleftrightarrow> p = q"
  by (cases p; cases q) simp_all

lemma phase_from_index [simp]: "phase_from_index (phase_index p) = p"
  by (cases p) (simp_all add: phase_from_index_def)

lemma less_phase_index: "i < phase_index p \<Longrightarrow> \<exists>q. i = phase_index q"
  by (cases p) (auto simp: less_Suc_eq numeral_2_eq_2
      intro: exI [of _ HookRegistrations] exI [of _ CallbackRegistrations])

definition progress_ok :: "owner_progress \<Rightarrow> bool" where
  "progress_ok p \<longleftrightarrow>
     length (op_slots p) = 9 \<and> length (op_completed_phases p) = 3 \<and>
     (\<forall>ph. op_completed_phases p ! phase_index ph \<longrightarrow>
        (\<forall>i < 9. service_phase (service_order ! i) = ph \<longrightarrow> is_complete (op_slots p ! i)) \<and>
        (\<forall>q. phase_index q < phase_index ph \<longrightarrow> op_completed_phases p ! phase_index q))"

definition cleaner_inv :: "registration_cleaner \<Rightarrow> bool" where
  "cleaner_inv c \<longleftrightarrow>
     map sl_service (rc_slots c) = service_order \<and>
     (\<forall>o1 p. rc_progress c o1 = Some p \<longrightarrow> progress_ok p)"

lemma builder_build_inv [simp]: "cleaner_inv (builder_build b)"
  by (simp add: cleaner_inv_def builder_build_def comp_def)

lemma progress_new_ok [simp]: "progress_ok (owner_progress_new 9)"
proof -
  have "\<not> [False, False, False] ! phase_index ph" for ph by (cases ph) simp_all
  then show ?thesis by (simp add: progress_ok_def owner_progress_new_def)
qed

lemma cleaner_install_inv: "cleaner_inv c \<Longrightarrow> cleaner_inv (cleaner_install svc a c)"
  by (simp add: cleaner_inv_def cleaner_install_def map_update_first)

lemma forget_owner_inv: "cleaner_inv c \<Longrightarrow> cleaner_inv (fst (forget_owner o1 c))"
  by (simp add: cleaner_inv_def forget_owner_def)

text \<open>A loop over the slots leaves every complete slot alone.\<close>

lemma run_slots_keeps:
  "run_slots run o1 ph xs ps w = (ps', w') \<Longrightarrow>
   length ps' = length ps \<and> (\<forall>i. is_complete (ps ! i) \<longrightarrow> ps' ! i = ps ! i)"
proof (induction run o1 ph xs ps w rule: run_slots.induct)
  case (2 run o1 ph i sl rest ps w)
  show ?case
  proof (cases "service_phase (sl_service sl) \<noteq> ph \<or> is_complete (ps ! i) \<or>
      adapter_gap (sl_adapter sl) \<noteq> None")
    case True
    then show ?thesis using 2 by (auto split: if_splits)
  next
    case False
    obtain w1 r where inv: "adapter_invoke run (sl_service sl) (sl_adapter sl) o1 w = (w1, r)" by fastforce
    have "run_slots run o1 ph rest (ps[i := next_progress (ps ! i) r]) w1 = (ps', w')"
      using 2(4) False inv by simp
    from "2.IH"(3) [OF _ _ inv [symmetric] refl this] False
    have "length ps' = length ps"
      "is_complete (ps[i := next_progress (ps ! i) r] ! j) \<Longrightarrow>
       ps' ! j = ps[i := next_progress (ps ! i) r] ! j" for j
      by auto
    then show ?thesis using False by (metis nth_list_update_neq)
  qed
qed simp

text \<open>What one request does, for the progress the owner has or starts with.\<close>

definition progress_of :: "registration_cleaner \<Rightarrow> owner_token \<Rightarrow> owner_progress" where
  "progress_of c o1 = (case rc_progress c o1 of Some p \<Rightarrow> p | None \<Rightarrow> owner_progress_new 9)"

definition marked :: "owner_progress \<Rightarrow> cleanup_phase \<Rightarrow> bool" where
  "marked p ph \<longleftrightarrow> op_completed_phases p ! phase_index ph"

definition slots_done :: "progress_state list \<Rightarrow> cleanup_phase \<Rightarrow> bool" where
  "slots_done ps ph \<longleftrightarrow> (\<forall>i < 9. service_phase (service_order ! i) = ph \<longrightarrow> is_complete (ps ! i))"

lemma progress_of_ok: "cleaner_inv c \<Longrightarrow> progress_ok (progress_of c o1)"
  by (auto simp: progress_of_def cleaner_inv_def split: option.splits)

lemma phase_completed_Some: "rc_progress c o1 = Some p \<Longrightarrow> phase_completed o1 ph c \<longleftrightarrow> marked p ph"
  by (simp add: phase_completed_def marked_def)

lemma progress_new_unmarked: "\<not> marked (owner_progress_new n) ph"
  by (cases ph) (simp_all add: marked_def owner_progress_new_def)

lemma phase_completed_marked: "phase_completed o1 ph c \<longleftrightarrow> marked (progress_of c o1) ph"
  by (simp add: phase_completed_def marked_def [symmetric] progress_of_def progress_new_unmarked
      split: option.splits)

lemma first_incomplete_Some:
  assumes "rc_progress c o1 = Some p"
  shows "first_incomplete_prior_phase o1 ph c = None \<longleftrightarrow>
    (\<forall>q. phase_index q < phase_index ph \<longrightarrow> marked p q)"
proof -
  have "first_incomplete_prior_phase o1 ph c = None \<longleftrightarrow>
      (\<forall>i < phase_index ph. op_completed_phases p ! i)"
    by (auto simp: first_incomplete_prior_phase_def assms find_None_iff)
  also have "\<dots> \<longleftrightarrow> (\<forall>q. phase_index q < phase_index ph \<longrightarrow> marked p q)"
    using less_phase_index [of _ ph] by (auto simp: marked_def)
  finally show ?thesis .
qed

lemma slots_done_enumerate:
  assumes "map sl_service sls = service_order"
  shows "list_all (\<lambda>(i, sl). service_phase (sl_service sl) = ph \<longrightarrow> is_complete (ps ! i)) (enumerate 0 sls)
    \<longleftrightarrow> slots_done ps ph"
proof -
  have len: "length sls = 9" using assms by (metis length_map service_order_facts(2))
  have "sl_service (sls ! i) = service_order ! i" if "i < 9" for i
    using that len by (simp add: assms [symmetric])
  then show ?thesis
    unfolding list_all_length slots_done_def length_enumerate len
    by (auto simp: nth_enumerate_eq len)
qed

lemma cleanup_cases:
  assumes inv: "cleaner_inv c" and op: "cleanup_phase_op run o1 ph (c, w) = ((c', w'), res)"
  defines "p \<equiv> progress_of c o1"
  shows "rc_slots c' = rc_slots c \<and> (\<forall>o2. o2 \<noteq> o1 \<longrightarrow> rc_progress c' o2 = rc_progress c o2) \<and>
    ((\<exists>report. \<not> (\<forall>q. phase_index q < phase_index ph \<longrightarrow> marked p q) \<and>
        w' = w \<and> rc_progress c' o1 = Some p \<and> res = Inl report) \<or>
     (\<exists>report. (\<forall>q. phase_index q < phase_index ph \<longrightarrow> marked p q) \<and> marked p ph \<and>
        w' = w \<and> rc_progress c' o1 = Some p \<and> res = Inr report) \<or>
     (\<exists>ps report. (\<forall>q. phase_index q < phase_index ph \<longrightarrow> marked p q) \<and> \<not> marked p ph \<and>
        run_slots run o1 ph (enumerate 0 (rc_slots c)) (op_slots p) w = (ps, w') \<and>
        rc_progress c' o1 = Some (p\<lparr>op_slots := ps, op_completed_phases :=
          (op_completed_phases p)[phase_index ph := slots_done ps ph]\<rparr>) \<and>
        res = (if slots_done ps ph then Inr report else Inl report)))"
proof -
  define c0 where "c0 = (case rc_progress c o1 of Some _ \<Rightarrow> c
    | None \<Rightarrow> c\<lparr>rc_progress := (rc_progress c)(o1 := Some (owner_progress_new (length (rc_slots c))))\<rparr>)"
  have order: "map sl_service (rc_slots c) = service_order" using inv by (simp add: cleaner_inv_def)
  then have "length (rc_slots c) = 9" by (metis length_map service_order_facts(2))
  then have c0: "rc_slots c0 = rc_slots c" "rc_progress c0 o1 = Some p"
    "o2 \<noteq> o1 \<Longrightarrow> rc_progress c0 o2 = rc_progress c o2" for o2
    by (auto simp: c0_def p_def progress_of_def split: option.splits)
  have op0: "cleanup_phase_op run o1 ph (c, w) =
     (case first_incomplete_prior_phase o1 ph c0 of
           Some required \<Rightarrow>
             (let report = build_report o1 ph (PhaseBlocked required) c0
              in ((c0\<lparr>rc_last_report := Some report\<rparr>, w), Inl report))
         | None \<Rightarrow>
             if phase_completed o1 ph c0
             then (let report = build_report o1 ph PhaseComplete c0
                   in ((c0\<lparr>rc_last_report := Some report\<rparr>, w), Inr report))
             else
               (let (c1, w1) = run_pending_slots run o1 ph c0 w;
                    (c2, complete) = mark_phase_if_complete o1 ph c1;
                    report = build_report o1 ph
                      (if complete then PhaseComplete else PhaseIncomplete) c2
                in ((c2\<lparr>rc_last_report := Some report\<rparr>, w1),
                    if complete then Inr report else Inl report)))"
    unfolding cleanup_phase_op_def Let_def prod.case c0_def ..
  note first = first_incomplete_Some [OF c0(2), of ph] and pc = phase_completed_Some [OF c0(2)]
  show ?thesis
  proof (cases "first_incomplete_prior_phase o1 ph c0")
    case (Some required)
    then show ?thesis using op first c0 by (auto simp: op0 Let_def)
  next
    case None
    show ?thesis
    proof (cases "marked p ph")
      case True
      then show ?thesis using op first c0 None pc by (auto simp: op0 Let_def)
    next
      case False
      obtain ps w1 where r: "run_slots run o1 ph (enumerate 0 (rc_slots c)) (op_slots p) w = (ps, w1)"
        by fastforce
      note m = slots_done_enumerate [OF order, of ph ps]
      show ?thesis
        using op first c0 None pc False
        by (auto simp: op0 Let_def run_pending_slots_def mark_phase_if_complete_def r m
            split: if_splits)
    qed
  qed
qed

lemma marked_update:
  "length (op_completed_phases p) = 3 \<Longrightarrow>
   marked (p\<lparr>op_slots := ps, op_completed_phases := (op_completed_phases p)[phase_index ph := b]\<rparr>) q \<longleftrightarrow>
   (if q = ph then b else marked p q)"
  by (simp add: marked_def nth_list_update)

lemma progress_ok_iff:
  "progress_ok p \<longleftrightarrow> length (op_slots p) = 9 \<and> length (op_completed_phases p) = 3 \<and>
     (\<forall>ph. marked p ph \<longrightarrow> slots_done (op_slots p) ph \<and>
        (\<forall>q. phase_index q < phase_index ph \<longrightarrow> marked p q))"
  by (simp add: progress_ok_def marked_def slots_done_def)

lemma progress_ok_run:
  assumes "progress_ok p" and "run_slots run o1 ph xs (op_slots p) w = (ps, w')"
    and "\<forall>q. phase_index q < phase_index ph \<longrightarrow> marked p q" and "\<not> marked p ph"
  shows "progress_ok (p\<lparr>op_slots := ps,
    op_completed_phases := (op_completed_phases p)[phase_index ph := slots_done ps ph]\<rparr>)"
proof -
  from run_slots_keeps [OF assms(2)] have len: "length ps = length (op_slots p)"
    and keep: "is_complete (op_slots p ! i) \<Longrightarrow> is_complete (ps ! i)" for i
    by auto
  from keep have "slots_done (op_slots p) q \<Longrightarrow> slots_done ps q" for q by (auto simp: slots_done_def)
  moreover have "\<not> marked p q" if "phase_index ph < phase_index q" for q
    using that assms(1,4) by (auto simp: progress_ok_iff)
  ultimately show ?thesis
    using assms(1,3) len
    by (auto simp: progress_ok_iff marked_update)
qed

lemma cleanup_phase_inv:
  assumes "cleaner_inv c" and "cleanup_phase_op run o1 ph (c, w) = ((c', w'), res)"
  shows "cleaner_inv c'"
proof -
  note cs = cleanup_cases [OF assms] and ok = progress_of_ok [OF assms(1), of o1]
  have "\<exists>p'. rc_progress c' o1 = Some p' \<and> progress_ok p'"
    using cs ok by (elim conjE disjE exE) (simp_all add: progress_ok_run)
  then obtain p' where p': "rc_progress c' o1 = Some p'" and "progress_ok p'" by (elim exE conjE)
  have "progress_ok q" if "rc_progress c' o2 = Some q" for o2 q
  proof (cases "o2 = o1")
    case True
    then show ?thesis using p' that \<open>progress_ok p'\<close> by simp
  next
    case False
    then have "rc_progress c o2 = Some q" using conjunct1 [OF conjunct2 [OF cs]] that by auto
    then show ?thesis using assms(1) by (simp add: cleaner_inv_def)
  qed
  then show ?thesis using assms(1) cs by (simp add: cleaner_inv_def)
qed

lemma cleanup_phase_marks:
  assumes "cleaner_inv c" and "cleanup_phase_op run o1 ph (c, w) = ((c', w'), res)"
  shows "marked (progress_of c o2) q \<Longrightarrow> marked (progress_of c' o2) q"
    and "res = Inr report \<Longrightarrow> phase_index q \<le> phase_index ph \<Longrightarrow> marked (progress_of c' o1) q"
    and "marked (progress_of c o1) ph \<Longrightarrow> w' = w \<and> (\<exists>report. res = Inr report)"
proof -
  note cs = cleanup_cases [OF assms] and ok = progress_of_ok [OF assms(1), of o1]
  from ok have len: "length (op_completed_phases (progress_of c o1)) = 3" by (simp add: progress_ok_iff)
  have same: "rc_progress c' o1 = Some p \<Longrightarrow> progress_of c' o1 = p" for p by (simp add: progress_of_def)
  have other: "o2 \<noteq> o1 \<Longrightarrow> progress_of c' o2 = progress_of c o2" using cs by (simp add: progress_of_def)
  show "marked (progress_of c o2) q \<Longrightarrow> marked (progress_of c' o2) q"
    using cs other by (cases "o2 = o1") (auto dest!: same simp: marked_update len)
  show "res = Inr report \<Longrightarrow> phase_index q \<le> phase_index ph \<Longrightarrow> marked (progress_of c' o1) q"
    using cs by (auto dest!: same simp: marked_update len le_less split: if_splits)
  show "marked (progress_of c o1) ph \<Longrightarrow> w' = w \<and> (\<exists>report. res = Inr report)"
    using cs ok by (auto simp: progress_ok_iff)
qed

section \<open>The contract with the host\<close>

text \<open>
  The host's \<open>RegistrationCleaner\<close> trait: what a successful phase means, that it stays so, that
  phases succeed only in their order, and that repeating a finished phase is a no-op success.
  \<open>finished\<close> is what the cleaner records.
\<close>

locale phase_cleaner =
  fixes clean :: "owner_token \<Rightarrow> cleanup_phase \<Rightarrow> 'c \<Rightarrow> 'c \<times> (cleanup_error + unit)"
    and inv :: "'c \<Rightarrow> bool"
    and finished :: "'c \<Rightarrow> owner_token \<Rightarrow> cleanup_phase \<Rightarrow> bool"
  assumes clean_inv: "inv c \<Longrightarrow> inv (fst (clean o1 ph c))"
    and clean_stays: "inv c \<Longrightarrow> finished c o2 q \<Longrightarrow> finished (fst (clean o1 ph c)) o2 q"
    and clean_finishes: "inv c \<Longrightarrow> snd (clean o1 ph c) = Inr () \<Longrightarrow>
      phase_index q \<le> phase_index ph \<Longrightarrow> finished (fst (clean o1 ph c)) o1 q"
    and clean_again: "inv c \<Longrightarrow> finished c o1 ph \<Longrightarrow> snd (clean o1 ph c) = Inr ()"

text \<open>
  A cleaner whose services can be watched: \<open>called\<close> says which phases have called a service for
  an owner. A request calls services for its own owner and phase only.
\<close>

locale watched_cleaner = phase_cleaner clean inv finished
  for clean :: "owner_token \<Rightarrow> cleanup_phase \<Rightarrow> 'c \<Rightarrow> 'c \<times> (cleanup_error + unit)"
    and inv and finished +
  fixes called :: "'c \<Rightarrow> owner_token \<Rightarrow> cleanup_phase \<Rightarrow> bool"
  assumes called_clean: "inv c \<Longrightarrow> called (fst (clean o1 ph c)) o2 q \<Longrightarrow>
      called c o2 q \<or> o2 = o1 \<and> q = ph"

definition cleaner_finished :: "registration_cleaner \<times> 'w \<Rightarrow> owner_token \<Rightarrow> cleanup_phase \<Rightarrow> bool" where
  "cleaner_finished cw o1 ph = phase_completed o1 ph (fst cw)"

lemma trait_cleanup_unfold:
  assumes "cleanup_phase_op run o1 ph cw = (cw', res)"
  shows "fst (trait_cleanup run o1 ph cw) = cw'"
    and "snd (trait_cleanup run o1 ph cw) = Inr () \<longleftrightarrow> (\<exists>report. res = Inr report)"
  by (auto simp: trait_cleanup_def assms split: sum.splits)

interpretation cleaner: phase_cleaner "trait_cleanup run" "\<lambda>cw. cleaner_inv (fst cw)" cleaner_finished
  for run :: "'w adapters"
proof
  fix cw :: "registration_cleaner \<times> 'w" and o1 o2 ph q
  assume inv: "cleaner_inv (fst cw)"
  obtain c w where cw: "cw = (c, w)" by fastforce
  obtain c' w' res where op: "cleanup_phase_op run o1 ph (c, w) = ((c', w'), res)"
    by (metis prod.collapse)
  note inv' = inv [unfolded cw fst_conv]
  note t = trait_cleanup_unfold [OF op] and m = cleanup_phase_marks [OF inv' op]
  show "cleaner_inv (fst (fst (trait_cleanup run o1 ph cw)))"
    using cleanup_phase_inv [OF inv' op] by (simp add: cw t)
  show "cleaner_finished cw o2 q \<Longrightarrow> cleaner_finished (fst (trait_cleanup run o1 ph cw)) o2 q"
    using m(1) by (simp add: cw t cleaner_finished_def phase_completed_marked)
  show "snd (trait_cleanup run o1 ph cw) = Inr () \<Longrightarrow> phase_index q \<le> phase_index ph \<Longrightarrow>
      cleaner_finished (fst (trait_cleanup run o1 ph cw)) o1 q"
    using m(2) by (auto simp: cw t cleaner_finished_def phase_completed_marked)
  show "cleaner_finished cw o1 ph \<Longrightarrow> snd (trait_cleanup run o1 ph cw) = Inr ()"
    using m(3) by (simp add: cw t cleaner_finished_def phase_completed_marked)
qed

text \<open>The \<open>()\<close> cleaner of a host without registration services finishes everything at once.\<close>

definition unit_cleanup :: "owner_token \<Rightarrow> cleanup_phase \<Rightarrow> unit \<Rightarrow> unit \<times> (cleanup_error + unit)" where
  "unit_cleanup o1 ph u = ((), Inr ())"

interpretation no_cleaner: phase_cleaner unit_cleanup "\<lambda>_. True" "\<lambda>_ _ _. True"
  by unfold_locales (simp_all add: unit_cleanup_def)

end
