(* ===== verification/Addon_Host.thy ===== *)
theory Addon_Host
  imports Addon_Definition Addon_Cleanup Callback_Gate
begin

text \<open>
  The native addon lifecycle (src/crates/nexus-host/src/host.rs): discovery, load and unload
  acknowledgements, and the drain that runs the cleaner's phases around the callback gate. The
  cleaner is an argument of the operations that use it (the code is generic in it). A gate is
  shared through an \<open>Arc\<close> with the callback wrappers, so the gates are in a store by owner;
  owners are never reused, so an entry is one gate.
\<close>

section \<open>State\<close>

datatype lifecycle_state = Discovered | Loaded | UnloadRequested | Draining | Unloaded | LoadFailed

datatype load_mode = InitialLoad | HotReload

datatype unload_reason = RuntimeUnload | ShutdownUnload

record addon_record =
  ar_owner :: owner_token
  ar_definition :: owned_definition
  ar_load_mode :: load_mode
  ar_state :: lifecycle_state
  ar_cleanup_cursor :: nat

record 'c addon_host =
  ah_cleaner :: 'c
  ah_records :: "owner_token \<Rightarrow> addon_record option"
  ah_active :: "u32 \<Rightarrow> owner_token option"
  ah_last_generation :: "u32 \<Rightarrow> u64 option"
  ah_gates :: "owner_token \<Rightarrow> callback_gate"

datatype host_error =
    DefinitionFailed definition_error
  | DuplicateSignature u32 owner_token
  | GenerationExhausted u32
  | UnknownOwner owner_token
  | InvalidTransition owner_token string lifecycle_state
  | HotReloadForbidden u32
  | RuntimeUnloadForbidden owner_token
  | DrainTimedOut owner_token
  | CleanupFailed owner_token cleanup_phase cleanup_error
  | DrainIncomplete owner_token

definition host_with :: "'c \<Rightarrow> 'c addon_host" where
  "host_with c =
     \<lparr>ah_cleaner = c, ah_records = (\<lambda>_. None), ah_active = (\<lambda>_. None),
      ah_last_generation = (\<lambda>_. None), ah_gates = (\<lambda>_. gate_open)\<rparr>"

section \<open>Discovery and acknowledgements\<close>

definition hot_reload_forbidden :: "load_mode \<Rightarrow> owned_definition \<Rightarrow> bool" where
  "hot_reload_forbidden mode d \<longleftrightarrow>
     mode = HotReload \<and>
     (flags_contain (od_flags d) flag_disable_hot_loading \<or>
      flags_contain (od_flags d) flag_launch_only)"

definition discover ::
  "live_module \<Rightarrow> load_mode \<Rightarrow> metadata_limits \<Rightarrow> 'c addon_host \<Rightarrow>
   'c addon_host \<times> (host_error + owner_token)"
where
  "discover live mode limits h =
     (case validate_and_copy_definition live limits of
        Inl e \<Rightarrow> (h, Inl (DefinitionFailed e))
      | Inr d \<Rightarrow>
          (let sig = od_signature d
           in case ah_active h sig of
                Some existing \<Rightarrow> (h, Inl (DuplicateSignature sig existing))
              | None \<Rightarrow>
                  if hot_reload_forbidden mode d then (h, Inl (HotReloadForbidden sig))
                  else
                    (case checked_add (case ah_last_generation h sig of None \<Rightarrow> 0 | Some g \<Rightarrow> g) 1 of
                       None \<Rightarrow> (h, Inl (GenerationExhausted sig))
                     | Some gen \<Rightarrow>
                         (let owner = \<lparr>signature = sig, generation = gen\<rparr>
                          in (h\<lparr>ah_last_generation := (ah_last_generation h)(sig \<mapsto> gen),
                                ah_active := (ah_active h)(sig \<mapsto> owner),
                                ah_records := (ah_records h)(owner \<mapsto>
                                  \<lparr>ar_owner = owner, ar_definition = d, ar_load_mode = mode,
                                   ar_state = Discovered, ar_cleanup_cursor = 0\<rparr>),
                                ah_gates := (ah_gates h)(owner := gate_open)\<rparr>,
                              Inr owner)))))"

text \<open>\<open>record_mut\<close> followed by \<open>ensure_state\<close>.\<close>

definition record_in ::
  "owner_token \<Rightarrow> lifecycle_state list \<Rightarrow> string \<Rightarrow> 'c addon_host \<Rightarrow> host_error + addon_record"
where
  "record_in owner expected label h =
     (case ah_records h owner of
        None \<Rightarrow> Inl (UnknownOwner owner)
      | Some r \<Rightarrow>
          if ar_state r \<in> set expected then Inr r
          else Inl (InvalidTransition (ar_owner r) label (ar_state r)))"

definition put_record :: "owner_token \<Rightarrow> addon_record \<Rightarrow> 'c addon_host \<Rightarrow> 'c addon_host" where
  "put_record owner r h = h\<lparr>ah_records := (ah_records h)(owner \<mapsto> r)\<rparr>"

definition close_gate :: "owner_token \<Rightarrow> 'c addon_host \<Rightarrow> 'c addon_host" where
  "close_gate owner h =
     h\<lparr>ah_gates := (ah_gates h)(owner := fst (gate_close (ah_gates h owner)))\<rparr>"

definition release_active :: "owner_token \<Rightarrow> 'c addon_host \<Rightarrow> 'c addon_host" where
  "release_active owner h =
     (if ah_active h (signature owner) = Some owner
      then h\<lparr>ah_active := (ah_active h)(signature owner := None)\<rparr> else h)"

definition acknowledge_loaded ::
  "owner_token \<Rightarrow> 'c addon_host \<Rightarrow> 'c addon_host \<times> (host_error + unit)"
where
  "acknowledge_loaded owner h =
     (case record_in owner [Discovered] ''Discovered'' h of
        Inl e \<Rightarrow> (h, Inl e)
      | Inr r \<Rightarrow> (put_record owner (r\<lparr>ar_state := Loaded\<rparr>) h, Inr ()))"

definition request_unload ::
  "owner_token \<Rightarrow> unload_reason \<Rightarrow> 'c addon_host \<Rightarrow> 'c addon_host \<times> (host_error + unit)"
where
  "request_unload owner reason h =
     (case record_in owner [Loaded] ''Loaded'' h of
        Inl e \<Rightarrow> (h, Inl e)
      | Inr r \<Rightarrow>
          if reason = RuntimeUnload \<and>
            flags_contain (od_flags (ar_definition r)) flag_disable_hot_loading
          then (h, Inl (RuntimeUnloadForbidden owner))
          else (put_record owner (r\<lparr>ar_state := UnloadRequested\<rparr>) (close_gate owner h), Inr ()))"

definition acknowledge_activation_failed ::
  "owner_token \<Rightarrow> 'c addon_host \<Rightarrow> 'c addon_host \<times> (host_error + unit)"
where
  "acknowledge_activation_failed owner h =
     (case record_in owner [Discovered] ''Discovered'' h of
        Inl e \<Rightarrow> (h, Inl e)
      | Inr r \<Rightarrow>
          (release_active owner
             (put_record owner (r\<lparr>ar_state := LoadFailed\<rparr>) (close_gate owner h)), Inr ()))"

definition cancel_discovery ::
  "owner_token \<Rightarrow> 'c addon_host \<Rightarrow> 'c addon_host \<times> (host_error + unit)"
where
  "cancel_discovery owner h =
     (case record_in owner [Discovered] ''Discovered'' h of
        Inl e \<Rightarrow> (h, Inl e)
      | Inr r \<Rightarrow>
          (let h1 = release_active owner (close_gate owner h)
           in (h1\<lparr>ah_records := (ah_records h1)(owner := None)\<rparr>, Inr ())))"

definition acknowledge_module_released ::
  "owner_token \<Rightarrow> 'c addon_host \<Rightarrow> 'c addon_host \<times> (host_error + unit)"
where
  "acknowledge_module_released owner h =
     (case record_in owner [Draining] ''Draining'' h of
        Inl e \<Rightarrow> (h, Inl e)
      | Inr r \<Rightarrow>
          if ar_cleanup_cursor r \<noteq> length cleanup_order \<or> in_flight (ah_gates h owner) \<noteq> 0
          then (h, Inl (DrainIncomplete owner))
          else (release_active owner (put_record owner (r\<lparr>ar_state := Unloaded\<rparr>) h), Inr ()))"

definition active_owner :: "u32 \<Rightarrow> 'c addon_host \<Rightarrow> owner_token option" where
  "active_owner sig h = ah_active h sig"

definition host_api_table :: "owner_token \<Rightarrow> 'c addon_host \<Rightarrow> host_error + api_revision" where
  "host_api_table owner h =
     (case ah_records h owner of
        None \<Rightarrow> Inl (UnknownOwner owner)
      | Some r \<Rightarrow> Inr (od_api_revision (ar_definition r)))"

definition host_callback_gate :: "owner_token \<Rightarrow> 'c addon_host \<Rightarrow> host_error + owner_token" where
  "host_callback_gate owner h =
     (case ah_records h owner of None \<Rightarrow> Inl (UnknownOwner owner) | Some _ \<Rightarrow> Inr owner)"

section \<open>Drain\<close>

text \<open>
  \<open>wait_for_drain\<close> with its surroundings: in each round some of the running callbacks leave
  before the counter is read, and some before it is read again after a timeout. The counter is
  that of the gate itself.
\<close>

record wait_round =
  wr_leaves :: nat
  wr_elapsed :: nat
  wr_timed_out :: bool
  wr_leaves_after :: nat

definition leave_many :: "nat \<Rightarrow> callback_gate \<Rightarrow> callback_gate" where
  "leave_many n g = ((\<lambda>g. fst (gate_leave g)) ^^ min n (unat (in_flight g))) g"

fun gate_wait_loop :: "nat \<Rightarrow> wait_round list \<Rightarrow> callback_gate \<Rightarrow> callback_gate \<times> bool option" where
  "gate_wait_loop timeout [] g = (g, None)"
| "gate_wait_loop timeout (s # ss) g =
     (let g1 = leave_many (wr_leaves s) g
      in if in_flight g1 = 0 then (g1, Some True)
         else if timeout < wr_elapsed s then (g1, Some False)
         else if timeout - wr_elapsed s = 0 then (g1, Some False)
         else
           (let g2 = leave_many (wr_leaves_after s) g1
            in if wr_timed_out s then (g2, Some (in_flight g2 = 0))
               else gate_wait_loop timeout ss g2))"

definition gate_wait :: "nat \<Rightarrow> wait_round list \<Rightarrow> callback_gate \<Rightarrow> callback_gate \<times> bool option" where
  "gate_wait timeout script g =
     (if in_flight g = 0 then (g, Some True) else gate_wait_loop timeout script g)"

type_synonym 'c clean = "owner_token \<Rightarrow> cleanup_phase \<Rightarrow> 'c \<Rightarrow> 'c \<times> (cleanup_error + unit)"

definition cleanup_next_phase ::
  "'c clean \<Rightarrow> addon_record \<Rightarrow> 'c \<Rightarrow> 'c \<times> addon_record \<times> (host_error + unit)"
where
  "cleanup_next_phase clean r c =
     (let owner = ar_owner r;
          phase = cleanup_order ! ar_cleanup_cursor r;
          (c', result) = clean owner phase c
      in case result of
           Inl source \<Rightarrow> (c', r, Inl (CleanupFailed owner phase source))
         | Inr _ \<Rightarrow> (c', r\<lparr>ar_cleanup_cursor := ar_cleanup_cursor r + 1\<rparr>, Inr ()))"

text \<open>The loop \<open>while record.cleanup_cursor < bound\<close>.\<close>

function cleanup_until ::
  "'c clean \<Rightarrow> nat \<Rightarrow> addon_record \<Rightarrow> 'c \<Rightarrow> 'c \<times> addon_record \<times> (host_error + unit)"
where
  "cleanup_until clean bound r c =
     (if ar_cleanup_cursor r < bound
      then (case cleanup_next_phase clean r c of
              (c', r', Inl e) \<Rightarrow> (c', r', Inl e)
            | (c', r', Inr _) \<Rightarrow> cleanup_until clean bound r' c')
      else (c, r, Inr ()))"
  by pat_completeness auto

termination
  by (relation "measure (\<lambda>(clean, bound, r, c). bound - ar_cleanup_cursor r)")
    (auto simp: cleanup_next_phase_def Let_def split: prod.splits sum.splits)

declare cleanup_until.simps [simp del]

text \<open>\<open>None\<close> is a drain that still waits after the given rounds.\<close>

definition drain_registrations ::
  "'c clean \<Rightarrow> owner_token \<Rightarrow> nat \<Rightarrow> wait_round list \<Rightarrow> 'c addon_host \<Rightarrow>
   ('c addon_host \<times> (host_error + unit)) option"
where
  "drain_registrations clean owner timeout script h =
     (case record_in owner [UnloadRequested, Draining] ''UnloadRequested or Draining'' h of
        Inl e \<Rightarrow> Some (h, Inl e)
      | Inr r \<Rightarrow>
          (let (c1, r1, result1) =
                 cleanup_until clean pre_drain_count (r\<lparr>ar_state := Draining\<rparr>) (ah_cleaner h);
               h1 = put_record owner r1 (h\<lparr>ah_cleaner := c1\<rparr>)
           in case result1 of
                Inl e \<Rightarrow> Some (h1, Inl e)
              | Inr _ \<Rightarrow>
                  (let (g, drained) = gate_wait timeout script (ah_gates h1 owner);
                       h2 = h1\<lparr>ah_gates := (ah_gates h1)(owner := g)\<rparr>
                   in case drained of
                        None \<Rightarrow> None
                      | Some False \<Rightarrow> Some (h2, Inl (DrainTimedOut owner))
                      | Some True \<Rightarrow>
                          (let (c2, r2, result2) = cleanup_until clean (length cleanup_order) r1 c1
                           in Some (put_record owner r2 (h2\<lparr>ah_cleaner := c2\<rparr>), result2)))))"

section \<open>Histories\<close>

text \<open>
  What can happen to a host and its gates: the host's own operations, and native callbacks
  entering and leaving through the gate of an owner (a callback can only leave after it entered).
  The second result is the owner a discovery issued.
\<close>

datatype host_op =
    Discover live_module load_mode metadata_limits
  | AckLoaded owner_token
  | RequestUnload owner_token unload_reason
  | Drain owner_token nat "wait_round list"
  | AckReleased owner_token
  | AckFailed owner_token
  | CancelDiscovery owner_token
  | CallbackEnters owner_token
  | CallbackLeaves owner_token

fun host_apply :: "'c clean \<Rightarrow> host_op \<Rightarrow> 'c addon_host \<Rightarrow> 'c addon_host \<times> owner_token list" where
  "host_apply clean (Discover live mode limits) h =
     (case discover live mode limits h of
        (h', Inr owner) \<Rightarrow> (h', [owner])
      | (h', Inl _) \<Rightarrow> (h', []))"
| "host_apply clean (AckLoaded owner) h = (fst (acknowledge_loaded owner h), [])"
| "host_apply clean (RequestUnload owner reason) h = (fst (request_unload owner reason h), [])"
| "host_apply clean (Drain owner timeout script) h =
     (case drain_registrations clean owner timeout script h of
        None \<Rightarrow> (h, [])
      | Some (h', _) \<Rightarrow> (h', []))"
| "host_apply clean (AckReleased owner) h = (fst (acknowledge_module_released owner h), [])"
| "host_apply clean (AckFailed owner) h = (fst (acknowledge_activation_failed owner h), [])"
| "host_apply clean (CancelDiscovery owner) h = (fst (cancel_discovery owner h), [])"
| "host_apply clean (CallbackEnters owner) h =
     (h\<lparr>ah_gates := (ah_gates h)(owner := fst (gate_try_enter (ah_gates h owner)))\<rparr>, [])"
| "host_apply clean (CallbackLeaves owner) h =
     (if in_flight (ah_gates h owner) = 0 then h
      else h\<lparr>ah_gates := (ah_gates h)(owner := fst (gate_leave (ah_gates h owner)))\<rparr>, [])"

fun host_run ::
  "'c clean \<Rightarrow> host_op list \<Rightarrow> 'c addon_host \<Rightarrow> 'c addon_host \<times> owner_token list"
where
  "host_run clean [] h = (h, [])"
| "host_run clean (op # ops) h =
     (let (h1, new) = host_apply clean op h; (h2, rest) = host_run clean ops h1 in (h2, new @ rest))"

end
