(* ===== verification/Cleanup_Order.thy ===== *)
theory Cleanup_Order
  imports Addon_Cleanup
begin

text \<open>
  What the services behind the cleaner's adapters see: every adapter call is logged, and the
  log is related to the bookkeeping of src/crates/nexus-addon-cleanup/src/cleaner.rs over any
  history of phase requests, adapter installations and forgotten owners.
\<close>

type_synonym adapter_log = "(cleanup_service \<times> owner_token \<times> adapter_outcome) list"

definition logged :: "'w adapters \<Rightarrow> (adapter_log \<times> 'w) adapters" where
  "logged run svc cb o1 lw =
     (let (w', r) = run svc cb o1 (snd lw) in ((fst lw @ [(svc, o1, r)], w'), r))"

lemma logged_invoke:
  "run svc cb o1 w = (w', r) \<Longrightarrow>
   adapter_invoke (logged run) svc (AdapterCallback cb) o1 (log, w) = ((log @ [(svc, o1, r)], w'), Some r)"
  by (simp add: adapter_invoke_def logged_def)

datatype cleaner_op =
    CleanPhase owner_token cleanup_phase
  | InstallAdapter cleanup_service erased_adapter
  | ForgetOwner owner_token

fun cleaner_apply ::
  "'w adapters \<Rightarrow> cleaner_op \<Rightarrow> registration_cleaner \<times> (adapter_log \<times> 'w) \<Rightarrow>
   registration_cleaner \<times> (adapter_log \<times> 'w)"
where
  "cleaner_apply run (CleanPhase o1 ph) (c, lw) = fst (trait_cleanup (logged run) o1 ph (c, lw))"
| "cleaner_apply run (InstallAdapter svc a) (c, lw) = (cleaner_install svc a c, lw)"
| "cleaner_apply run (ForgetOwner o1) (c, lw) = (fst (forget_owner o1 c), lw)"

definition succeeded :: "owner_token \<Rightarrow> cleanup_service \<Rightarrow> adapter_log \<Rightarrow> bool" where
  "succeeded o1 svc log \<longleftrightarrow> (\<exists>n. (svc, o1, AdapterReturns (Inr n)) \<in> set log)"

definition earlier_done :: "owner_token \<Rightarrow> cleanup_phase \<Rightarrow> adapter_log \<Rightarrow> bool" where
  "earlier_done o1 ph log \<longleftrightarrow>
     (\<forall>s. phase_index (service_phase s) < phase_index ph \<longrightarrow> succeeded o1 s log)"

text \<open>
  No call after a success of the same service, no call before every service of every earlier
  phase succeeded.
\<close>

definition log_ok :: "owner_token \<Rightarrow> adapter_log \<Rightarrow> bool" where
  "log_ok o1 log \<longleftrightarrow>
     (\<forall>pre svc r post. log = pre @ (svc, o1, r) # post \<longrightarrow>
        \<not> succeeded o1 svc pre \<and> earlier_done o1 (service_phase svc) pre)"

lemma log_ok_Nil [simp]: "log_ok o1 []"
  by (simp add: log_ok_def)

lemma log_ok_snoc:
  "log_ok o1 (log @ [(svc, o2, r)]) \<longleftrightarrow>
   log_ok o1 log \<and>
   (o2 = o1 \<longrightarrow> \<not> succeeded o1 svc log \<and> earlier_done o1 (service_phase svc) log)"
proof -
  have split: "log @ [x] = pre @ y # post \<longleftrightarrow>
      (post = [] \<and> pre = log \<and> x = y) \<or> (\<exists>post'. post = post' @ [x] \<and> log = pre @ y # post')"
    for x y :: "cleanup_service \<times> owner_token \<times> adapter_outcome" and pre post
    by (cases post rule: rev_cases) auto
  show ?thesis unfolding log_ok_def split by blast
qed

lemma succeeded_snoc [simp]:
  "succeeded o1 s (log @ [(svc, o2, r)]) \<longleftrightarrow>
   succeeded o1 s log \<or> (s = svc \<and> o2 = o1 \<and> (\<exists>n. r = AdapterReturns (Inr n)))"
  by (auto simp: succeeded_def)

lemma earlier_done_snoc: "earlier_done o1 ph log \<Longrightarrow> earlier_done o1 ph (log @ [x])"
  by (auto simp: earlier_done_def succeeded_def)

text \<open>The bookkeeping of an owner agrees with the log.\<close>

definition agrees :: "owner_token \<Rightarrow> progress_state list \<Rightarrow> adapter_log \<Rightarrow> bool" where
  "agrees o1 ps log \<longleftrightarrow>
     (\<forall>i < 9. is_complete (ps ! i) \<longleftrightarrow> succeeded o1 (service_order ! i) log)"

lemma is_complete_next:
  "is_complete (next_progress p (Some r)) \<longleftrightarrow> (\<exists>n. r = AdapterReturns (Inr n))"
  by (auto simp: next_progress_def Let_def split: adapter_outcome.splits sum.splits prod.splits)

definition real_slots :: "(nat \<times> slot) list \<Rightarrow> bool" where
  "real_slots xs \<longleftrightarrow> (\<forall>(i, sl) \<in> set xs. i < 9 \<and> sl_service sl = service_order ! i)"

lemma run_slots_log:
  assumes "run_slots (logged run) o1 ph xs ps (log, w) = (ps', (log', w'))" and "real_slots xs"
    and "length ps = 9" and "agrees o1 ps log" and "log_ok o1 log" and "earlier_done o1 ph log"
  shows "agrees o1 ps' log' \<and> log_ok o1 log'"
  using assms
proof (induction xs arbitrary: ps log w)
  case (Cons x xs)
  obtain i sl where x: "x = (i, sl)" by fastforce
  from Cons.prems(2) have i: "i < 9" "sl_service sl = service_order ! i" and xs: "real_slots xs"
    by (auto simp: x real_slots_def)
  show ?case
  proof (cases "service_phase (sl_service sl) \<noteq> ph \<or> is_complete (ps ! i)")
    case True
    then show ?thesis using Cons xs by (simp add: x)
  next
    case False
    note todo = this
    show ?thesis
    proof (cases "sl_adapter sl")
      case (AdapterGap g)
      then show ?thesis using Cons xs todo by (simp add: x adapter_gap_def)
    next
      case (AdapterCallback cb)
      obtain w1 r where r: "run (sl_service sl) cb o1 w = (w1, r)" by fastforce
      let ?ps = "ps[i := next_progress (ps ! i) (Some r)]"
      let ?log = "log @ [(sl_service sl, o1, r)]"
      have step: "run_slots (logged run) o1 ph xs ?ps (?log, w1) = (ps', (log', w'))"
        using Cons.prems(1) todo AdapterCallback logged_invoke [of run, OF r]
        by (simp add: x adapter_gap_def)
      have "service_order ! j = service_order ! i \<longleftrightarrow> j = i" if "j < 9" for j
        using nth_eq_iff_index_eq [OF service_order_facts(1)] that i(1) by simp
      then have "agrees o1 ?ps ?log"
        using Cons.prems(3,4) i todo by (auto simp: agrees_def nth_list_update is_complete_next)
      moreover have "log_ok o1 ?log"
        using Cons.prems(4-6) i todo by (auto simp: log_ok_snoc agrees_def)
      ultimately show ?thesis
        using Cons.IH [OF step xs] Cons.prems(3,6) by (simp add: earlier_done_snoc)
    qed
  qed
qed simp

lemma run_slots_other:
  assumes "run_slots (logged run) o1 ph xs ps (log, w) = (ps', (log', w'))" and "o2 \<noteq> o1"
  shows "(log_ok o2 log' \<longleftrightarrow> log_ok o2 log) \<and> (succeeded o2 s log' \<longleftrightarrow> succeeded o2 s log)"
  using assms
proof (induction xs arbitrary: ps log w)
  case (Cons x xs)
  obtain i sl where x: "x = (i, sl)" by fastforce
  show ?case
  proof (cases "service_phase (sl_service sl) \<noteq> ph \<or> is_complete (ps ! i)")
    case True
    then show ?thesis using Cons by (simp add: x)
  next
    case False
    note todo = this
    show ?thesis
    proof (cases "sl_adapter sl")
      case (AdapterGap g)
      then show ?thesis using Cons todo by (simp add: x adapter_gap_def)
    next
      case (AdapterCallback cb)
      obtain w1 r where r: "run (sl_service sl) cb o1 w = (w1, r)" by fastforce
      have "run_slots (logged run) o1 ph xs (ps[i := next_progress (ps ! i) (Some r)])
          (log @ [(sl_service sl, o1, r)], w1) = (ps', (log', w'))"
        using Cons.prems(1) todo AdapterCallback logged_invoke [of run, OF r]
        by (simp add: x adapter_gap_def)
      from Cons.IH [OF this Cons.prems(2)] Cons.prems(2) show ?thesis by (simp add: log_ok_snoc)
    qed
  qed
qed simp

section \<open>The log of any history\<close>

definition order_inv :: "owner_token \<Rightarrow> registration_cleaner \<Rightarrow> adapter_log \<Rightarrow> bool" where
  "order_inv o1 c log \<longleftrightarrow>
     cleaner_inv c \<and> agrees o1 (op_slots (progress_of c o1)) log \<and> log_ok o1 log"

lemma service_index: "\<exists>i < 9. s = service_order ! i"
  using service_order_facts(2,3) by (metis UNIV_I in_set_conv_nth)

lemma marked_succeeded:
  assumes "order_inv o1 c log" and "marked (progress_of c o1) ph"
    and "phase_index (service_phase s) \<le> phase_index ph"
  shows "succeeded o1 s log"
proof -
  have ok: "progress_ok (progress_of c o1)" using assms(1) by (simp add: order_inv_def progress_of_ok)
  then have "marked (progress_of c o1) (service_phase s)"
    using assms(2,3) by (cases "service_phase s = ph") (auto simp: progress_ok_iff le_less)
  with ok have "slots_done (op_slots (progress_of c o1)) (service_phase s)"
    by (simp add: progress_ok_iff)
  moreover obtain i where "i < 9" "s = service_order ! i" using service_index by blast
  ultimately show ?thesis using assms(1) by (auto simp: order_inv_def agrees_def slots_done_def)
qed

lemma real_slots_enumerate: "cleaner_inv c \<Longrightarrow> real_slots (enumerate 0 (rc_slots c))"
proof -
  assume "cleaner_inv c"
  then have m: "map sl_service (rc_slots c) = service_order" by (simp add: cleaner_inv_def)
  then have "length (rc_slots c) = 9" by (metis length_map service_order_facts(2))
  then show ?thesis by (auto simp: real_slots_def in_set_enumerate_eq m [symmetric])
qed

lemma order_inv_clean:
  assumes "order_inv o2 c log" and "cleanup_phase_op (logged run) o1 ph (c, (log, w)) = ((c', (log', w')), res)"
  shows "order_inv o2 c' log'"
proof -
  from assms(1) have inv: "cleaner_inv c" by (simp add: order_inv_def)
  note cs = cleanup_cases [OF inv assms(2)]
  have same: "rc_progress c' o1 = Some p \<Longrightarrow> progress_of c' o1 = p" for p by (simp add: progress_of_def)
  have inv': "cleaner_inv c'" by (rule cleanup_phase_inv [OF inv assms(2)])
  consider (quiet) "log' = log" "progress_of c' o1 = progress_of c o1"
    | (ran) ps where "\<forall>q. phase_index q < phase_index ph \<longrightarrow> marked (progress_of c o1) q"
      "run_slots (logged run) o1 ph (enumerate 0 (rc_slots c)) (op_slots (progress_of c o1)) (log, w) =
        (ps, (log', w'))" "op_slots (progress_of c' o1) = ps"
    using cs same by (elim conjE disjE exE) auto
  then show ?thesis
  proof cases
    case quiet
    moreover have "progress_of c' o2 = progress_of c o2"
      using cs quiet(2) by (cases "o2 = o1") (simp_all add: progress_of_def)
    ultimately show ?thesis using assms(1) inv' by (simp add: order_inv_def)
  next
    case ran
    show ?thesis
    proof (cases "o2 = o1")
      case True
      have "earlier_done o1 ph log"
        using ran(1) marked_succeeded [of o1 c log] assms(1) True by (auto simp: earlier_done_def)
      moreover have "length (op_slots (progress_of c o1)) = 9"
        using progress_of_ok [OF inv] by (simp add: progress_ok_iff)
      ultimately show ?thesis
        using run_slots_log [OF ran(2) real_slots_enumerate [OF inv]] assms(1) inv' ran(3) True
        by (simp add: order_inv_def)
    next
      case False
      have "progress_of c' o2 = progress_of c o2" using cs False by (simp add: progress_of_def)
      then show ?thesis
        using run_slots_other [OF ran(2) False] assms(1) inv' by (simp add: order_inv_def agrees_def)
    qed
  qed
qed

lemma order_inv_apply:
  assumes "order_inv o1 c log" and "op \<noteq> ForgetOwner o1"
    and "cleaner_apply run op (c, (log, w)) = (c', (log', w'))"
  shows "order_inv o1 c' log'"
proof (cases op)
  case (CleanPhase o2 ph)
  obtain cw res where op': "cleanup_phase_op (logged run) o2 ph (c, (log, w)) = (cw, res)" by fastforce
  have "cw = (c', (log', w'))" using assms(3) trait_cleanup_unfold(1) [OF op'] by (simp add: CleanPhase)
  with op' have "cleanup_phase_op (logged run) o2 ph (c, (log, w)) = ((c', (log', w')), res)" by simp
  then show ?thesis by (rule order_inv_clean [OF assms(1)])
next
  case (InstallAdapter svc a)
  then show ?thesis
    using assms(1,3)
    by (auto simp: order_inv_def cleaner_install_inv) (simp add: progress_of_def cleaner_install_def)
next
  case (ForgetOwner o2)
  then show ?thesis
    using assms by (auto simp: order_inv_def forget_owner_inv)
      (simp add: progress_of_def forget_owner_def)
qed

lemma order_inv_run:
  assumes "order_inv o1 c log" and "ForgetOwner o1 \<notin> set ops"
    and "fold (cleaner_apply run) ops (c, (log, w)) = (c', (log', w'))"
  shows "order_inv o1 c' log'"
  using assms
proof (induction ops arbitrary: c log w)
  case (Cons op ops)
  obtain c1 log1 w1 where s: "cleaner_apply run op (c, (log, w)) = (c1, (log1, w1))"
    by (metis prod.collapse)
  have "order_inv o1 c1 log1" using order_inv_apply [OF Cons.prems(1) _ s] Cons.prems(2) by auto
  then show ?case using Cons s by auto
qed simp

lemma order_inv_build [simp]: "order_inv o1 (builder_build b) []"
proof -
  have "\<not> is_complete (replicate 9 Pending ! i)" if "i < 9" for i using that by simp
  then show ?thesis
    by (simp add: order_inv_def agrees_def progress_of_def builder_build_def owner_progress_new_def
        succeeded_def) (metis builder_build_inv builder_build_def)
qed

section \<open>Properties\<close>

text \<open>
  C8. Cleanup order: over any history of phase requests (failed, panicking and repeated ones
  included) and adapter replacements, as long as the owner is not forgotten, an adapter is called
  for it only after every service of every earlier phase was cleaned up successfully, and never
  again after its own success; and a phase recorded as complete means that all services of it and
  of the earlier phases succeeded.
\<close>
theorem cleanup_order:
  assumes "ForgetOwner o1 \<notin> set ops"
    and "fold (cleaner_apply run) ops (builder_build b, ([], w)) = (c, (log, w'))"
  shows "(log = pre @ (svc, o1, r) # post \<longrightarrow>
      \<not> succeeded o1 svc pre \<and>
      (\<forall>s. phase_index (service_phase s) < phase_index (service_phase svc) \<longrightarrow> succeeded o1 s pre)) \<and>
    (phase_completed o1 ph c \<longrightarrow>
      (\<forall>s. phase_index (service_phase s) \<le> phase_index ph \<longrightarrow> succeeded o1 s log))"
proof -
  have inv: "order_inv o1 c log" by (rule order_inv_run [OF order_inv_build assms])
  have "log_ok o1 log" using inv by (simp add: order_inv_def)
  moreover have "phase_completed o1 ph c \<longrightarrow>
      (\<forall>s. phase_index (service_phase s) \<le> phase_index ph \<longrightarrow> succeeded o1 s log)"
    using marked_succeeded [OF inv] by (simp add: phase_completed_marked)
  ultimately show ?thesis unfolding log_ok_def earlier_done_def by blast
qed

text \<open>Adapters that succeed, except that the event adapter is busy on its first call.\<close>

abbreviation demo_owner :: owner_token where
  "demo_owner \<equiv> \<lparr>signature = 7, generation = 1\<rparr>"

definition demo_adapters :: "nat adapters" where
  "demo_adapters svc cb o1 w =
     (w + 1, AdapterReturns (if svc = EventCallbacks \<and> w = 4 then Inl (adapter_error_new Busy) else Inr 1))"

definition demo_cleaner ::
  "progress_state list \<Rightarrow> bool list \<Rightarrow> cleanup_report option \<Rightarrow> registration_cleaner"
where
  "demo_cleaner ps phases report =
     \<lparr>rc_slots = map (\<lambda>svc. \<lparr>sl_service = svc, sl_adapter = AdapterCallback 0\<rparr>) service_order,
      rc_progress = [demo_owner \<mapsto> \<lparr>op_slots = ps, op_completed_phases = phases\<rparr>],
      rc_last_report = report\<rparr>"

definition demo_log :: adapter_log where
  "demo_log =
     map (\<lambda>(svc, r). (svc, demo_owner, AdapterReturns r))
       [(InlineHooks, Inr 1), (UiHostCallbacks, Inr 1), (RawWndProcCallbacks, Inr 1),
        (ManagedInputCallbacks, Inr 1), (EventCallbacks, Inl (adapter_error_new Busy)),
        (TextureCallbacks, Inr 1), (FontCallbacks, Inr 1), (EventCallbacks, Inr 1)]"

abbreviation slots_1 :: "progress_state list" where
  "slots_1 \<equiv> [Complete 1 1, Pending, Pending, Pending, Pending, Pending, Pending, Pending, Pending]"

abbreviation slots_2 :: "progress_state list" where
  "slots_2 \<equiv>
     [Complete 1 1, Complete 1 1, Complete 1 1, Complete 1 1,
      FailedStep (AdapterFailure Busy) 0 None 1, Complete 1 1, Complete 1 1, Pending, Pending]"

abbreviation slots_3 :: "progress_state list" where
  "slots_3 \<equiv>
     [Complete 1 1, Complete 1 1, Complete 1 1, Complete 1 1, Complete 1 2, Complete 1 1,
      Complete 1 1, Pending, Pending]"

lemma demo_nine: "replicate 9 x = [x, x, x, x, x, x, x, x, x]"
  by (simp add: numeral_eq_Suc)

lemma demo_numbers:
  "saturating_add 0 (0 :: usize) = 0" "saturating_add 0 (1 :: usize) = 1"
  "saturating_add 0 (1 :: u32) = 1" "saturating_add 1 (1 :: u32) = 2"
  by (simp_all add: saturating_add_def)

lemmas demo_eval = demo_cleaner_def builder_build_def service_order_def trait_cleanup_def
  cleanup_phase_op_def first_incomplete_prior_phase_def owner_progress_new_def Let_def
  phase_completed_def run_pending_slots_def mark_phase_if_complete_def adapter_gap_def
  adapter_invoke_def logged_def demo_adapters_def next_progress_def demo_numbers demo_nine
  adapter_error_new_def demo_log_def

lemma demo_step_1:
  "\<exists>report. cleaner_apply demo_adapters (CleanPhase demo_owner HookRegistrations)
     (builder_build (\<lambda>_. AdapterCallback 0), ([], 0)) =
   (demo_cleaner slots_1 [True, False, False] report, (take 1 demo_log, 1))"
  by (simp add: demo_eval)

lemma demo_step_2:
  "\<exists>report'. cleaner_apply demo_adapters (CleanPhase demo_owner CallbackRegistrations)
     (demo_cleaner slots_1 [True, False, False] report, (take 1 demo_log, 1)) =
   (demo_cleaner slots_2 [True, False, False] report', (take 7 demo_log, 7))"
  by (simp add: demo_eval)

lemma demo_step_3:
  "\<exists>report'. cleaner_apply demo_adapters (CleanPhase demo_owner CallbackRegistrations)
     (demo_cleaner slots_2 [True, False, False] report, (take 7 demo_log, 7)) =
   (demo_cleaner slots_3 [True, True, False] report', (demo_log, 8))"
  by (simp add: demo_eval)

lemma demo_run:
  "\<exists>c. fold (cleaner_apply demo_adapters)
     (map (CleanPhase demo_owner) [HookRegistrations, CallbackRegistrations, CallbackRegistrations])
     (builder_build (\<lambda>_. AdapterCallback 0), ([], 0)) = (c, (demo_log, 8)) \<and>
     phase_completed demo_owner CallbackRegistrations c"
proof -
  let ?hooks = "cleaner_apply demo_adapters (CleanPhase demo_owner HookRegistrations)"
  let ?callbacks = "cleaner_apply demo_adapters (CleanPhase demo_owner CallbackRegistrations)"
  obtain r1 where s1: "?hooks (builder_build (\<lambda>_. AdapterCallback 0), ([], 0)) =
      (demo_cleaner slots_1 [True, False, False] r1, (take 1 demo_log, 1))"
    using demo_step_1 by blast
  obtain r2 where s2: "?callbacks (demo_cleaner slots_1 [True, False, False] r1, (take 1 demo_log, 1)) =
      (demo_cleaner slots_2 [True, False, False] r2, (take 7 demo_log, 7))"
    using demo_step_2 [of r1] by blast
  obtain r3 where s3: "?callbacks (demo_cleaner slots_2 [True, False, False] r2, (take 7 demo_log, 7)) =
      (demo_cleaner slots_3 [True, True, False] r3, (demo_log, 8))"
    using demo_step_3 [of r2] by blast
  show ?thesis
    by (simp only: list.map fold.simps o_apply id_apply s1 s2 s3) (simp add: demo_cleaner_def phase_completed_def)
qed

theorem cleanup_order_witness:
  "\<not> succeeded demo_owner EventCallbacks (take 7 demo_log) \<and>
   succeeded demo_owner InlineHooks (take 7 demo_log) \<and>
   succeeded demo_owner FontCallbacks demo_log"
proof -
  let ?ops = "map (CleanPhase demo_owner) [HookRegistrations, CallbackRegistrations, CallbackRegistrations]"
  obtain c where run: "fold (cleaner_apply demo_adapters) ?ops (builder_build (\<lambda>_. AdapterCallback 0), ([], 0)) =
      (c, (demo_log, 8))" and complete: "phase_completed demo_owner CallbackRegistrations c"
    using demo_run by blast
  have no_forget: "ForgetOwner demo_owner \<notin> set ?ops" by simp
  have log: "demo_log = take 7 demo_log @ (EventCallbacks, demo_owner, AdapterReturns (Inr 1)) # []"
    by (simp add: demo_log_def)
  note facts = cleanup_order [OF no_forget run, of "take 7 demo_log" EventCallbacks
      "AdapterReturns (Inr 1)" "[]" CallbackRegistrations]
  note before = conjunct1 [OF facts, THEN mp, OF log]
    and after = conjunct2 [OF facts, THEN mp, OF complete]
  show ?thesis
    using conjunct1 [OF before] conjunct2 [OF before, rule_format, of InlineHooks]
      after [rule_format, of FontCallbacks] by simp
qed

end
