(* ===== verification/Addon_Lifecycle.thy ===== *)
theory Addon_Lifecycle
  imports Addon_Host Cleanup_Order
begin

text \<open>
  The invariants of the addon lifecycle of src/crates/nexus-host/src/host.rs over any history of
  its operations and of its gates, for every cleaner that keeps the contract of the
  \<open>RegistrationCleaner\<close> trait, and what they give for the composite cleaner of
  src/crates/nexus-addon-cleanup.
\<close>

section \<open>Gates while waiting\<close>

lemma leave_many_accepting [simp]: "accepting (leave_many n g) = accepting g"
proof -
  have "accepting (((\<lambda>g. fst (gate_leave g)) ^^ k) g) = accepting g" for k
    by (induction k) (simp_all add: gate_leave_def Let_def)
  then show ?thesis by (simp add: leave_many_def)
qed

lemma gate_wait_loop_accepting: "accepting (fst (gate_wait_loop timeout ss g)) = accepting g"
  by (induction timeout ss g rule: gate_wait_loop.induct) (simp_all add: Let_def)

lemma gate_wait_loop_True:
  "gate_wait_loop timeout ss g = (g', Some True) \<Longrightarrow> in_flight g' = 0"
  by (induction timeout ss g rule: gate_wait_loop.induct) (auto simp: Let_def split: if_splits)

lemma gate_wait_accepting: "gate_wait timeout ss g = (g', r) \<Longrightarrow> accepting g' = accepting g"
  using gate_wait_loop_accepting [of timeout ss g] by (auto simp: gate_wait_def split: if_splits)

lemma gate_wait_True: "gate_wait timeout ss g = (g', Some True) \<Longrightarrow> in_flight g' = 0"
  using gate_wait_loop_True by (auto simp: gate_wait_def split: if_splits)

lemma gate_wait_drained: "in_flight g = 0 \<Longrightarrow> gate_wait timeout ss g = (g, Some True)"
  by (simp add: gate_wait_def)

text \<open>The rounds are those of \<open>wait_for_drain\<close> with the counter of the gate read in each.\<close>

fun observed_rounds :: "wait_round list \<Rightarrow> callback_gate \<Rightarrow> drain_round list" where
  "observed_rounds [] g = []"
| "observed_rounds (s # ss) g =
     (let g1 = leave_many (wr_leaves s) g; g2 = leave_many (wr_leaves_after s) g1
      in \<lparr>dr_count = in_flight g1, dr_elapsed = wr_elapsed s, dr_timed_out = wr_timed_out s,
          dr_count_after = in_flight g2\<rparr> # observed_rounds ss g2)"

lemma gate_wait_is_wait_for_drain:
  "snd (gate_wait timeout ss g) = wait_for_drain timeout (in_flight g) (observed_rounds ss g)"
proof -
  have "snd (gate_wait_loop timeout ss g) = drain_loop timeout (observed_rounds ss g)"
    by (induction timeout ss g rule: gate_wait_loop.induct) (simp_all add: Let_def)
  then show ?thesis by (simp add: gate_wait_def wait_for_drain_def)
qed

section \<open>The invariant\<close>

definition issued :: "'c addon_host \<Rightarrow> owner_token \<Rightarrow> bool" where
  "issued h o1 \<longleftrightarrow>
     (\<exists>g. ah_last_generation h (signature o1) = Some g \<and> generation o1 \<le> g)"

definition is_live :: "lifecycle_state \<Rightarrow> bool" where
  "is_live s \<longleftrightarrow> s \<in> {Discovered, Loaded, UnloadRequested, Draining}"

definition record_ok ::
  "(cleanup_phase \<Rightarrow> bool) \<Rightarrow> callback_gate \<Rightarrow> owner_token \<Rightarrow> addon_record \<Rightarrow> bool"
where
  "record_ok done g o1 r \<longleftrightarrow>
     ar_owner r = o1 \<and>
     (accepting g \<longleftrightarrow> ar_state r \<in> {Discovered, Loaded}) \<and>
     ar_cleanup_cursor r \<le> 3 \<and>
     (ar_cleanup_cursor r \<noteq> 0 \<longrightarrow> ar_state r \<in> {Draining, Unloaded}) \<and>
     (ar_state r = Unloaded \<longrightarrow> ar_cleanup_cursor r = 3) \<and>
     (ar_cleanup_cursor r = 3 \<longrightarrow> in_flight g = 0) \<and>
     (\<forall>q. phase_index q < ar_cleanup_cursor r \<longrightarrow> done q)"

definition records_ok :: "('c \<Rightarrow> owner_token \<Rightarrow> cleanup_phase \<Rightarrow> bool) \<Rightarrow> 'c addon_host \<Rightarrow> bool" where
  "records_ok finished h \<longleftrightarrow>
     (\<forall>o1 r. ah_records h o1 = Some r \<longrightarrow>
        record_ok (finished (ah_cleaner h) o1) (ah_gates h o1) o1 r \<and> issued h o1)"

definition actives_ok :: "'c addon_host \<Rightarrow> bool" where
  "actives_ok h \<longleftrightarrow>
     (\<forall>o1 r. ah_records h o1 = Some r \<longrightarrow> is_live (ar_state r) \<longrightarrow>
        ah_active h (signature o1) = Some o1) \<and>
     (\<forall>s o1. ah_active h s = Some o1 \<longrightarrow>
        signature o1 = s \<and> (\<exists>r. ah_records h o1 = Some r \<and> is_live (ar_state r)))"

text \<open>A phase calls services only behind a closed gate, the last one only behind a drained one.\<close>

definition calls_ok :: "('c \<Rightarrow> owner_token \<Rightarrow> cleanup_phase \<Rightarrow> bool) \<Rightarrow> 'c addon_host \<Rightarrow> bool" where
  "calls_ok called h \<longleftrightarrow>
     (\<forall>o1 q. called (ah_cleaner h) o1 q \<longrightarrow>
        issued h o1 \<and> \<not> accepting (ah_gates h o1) \<and>
        (q = OwnedResources \<longrightarrow> in_flight (ah_gates h o1) = 0))"

text \<open>Projections of the small state changes.\<close>

lemma put_record_simps [simp]:
  "ah_records (put_record o1 r h) = (ah_records h)(o1 \<mapsto> r)"
  "ah_cleaner (put_record o1 r h) = ah_cleaner h" "ah_active (put_record o1 r h) = ah_active h"
  "ah_last_generation (put_record o1 r h) = ah_last_generation h"
  "ah_gates (put_record o1 r h) = ah_gates h"
  by (simp_all add: put_record_def)

lemma close_gate_simps [simp]:
  "ah_records (close_gate o1 h) = ah_records h"
  "ah_cleaner (close_gate o1 h) = ah_cleaner h" "ah_active (close_gate o1 h) = ah_active h"
  "ah_last_generation (close_gate o1 h) = ah_last_generation h"
  "ah_gates (close_gate o1 h) = (ah_gates h)(o1 := (ah_gates h o1)\<lparr>accepting := False\<rparr>)"
  by (simp_all add: close_gate_def gate_close_def)

lemma release_active_simps [simp]:
  "ah_records (release_active o1 h) = ah_records h"
  "ah_cleaner (release_active o1 h) = ah_cleaner h"
  "ah_last_generation (release_active o1 h) = ah_last_generation h"
  "ah_gates (release_active o1 h) = ah_gates h"
  "ah_active (release_active o1 h) =
     (if ah_active h (signature o1) = Some o1 then (ah_active h)(signature o1 := None) else ah_active h)"
  by (simp_all add: release_active_def)

lemma issued_cong: "ah_last_generation h' = ah_last_generation h \<Longrightarrow> issued h' = issued h"
  by (simp add: issued_def fun_eq_iff)

lemma record_in_Inr:
  "record_in o1 ss l h = Inr r \<longleftrightarrow> ah_records h o1 = Some r \<and> ar_state r \<in> set ss"
  by (auto simp: record_in_def split: option.splits)

section \<open>Operations that leave the cleaner alone\<close>

text \<open>
  One owner's record and gate change. A closed gate stays closed, a drained one drained; an owner
  whose record is no longer live gives up its claim on the signature.
\<close>

lemma records_ok_update:
  assumes "records_ok finished h" and "ah_cleaner h' = ah_cleaner h"
    and "ah_last_generation h' = ah_last_generation h"
    and "ah_records h' = (ah_records h)(o1 := v)" and "ah_gates h' = (ah_gates h)(o1 := g)"
    and "\<And>r. v = Some r \<Longrightarrow> record_ok (finished (ah_cleaner h) o1) g o1 r \<and> issued h o1"
  shows "records_ok finished h'"
  using assms(1,2,4-6) issued_cong [OF assms(3)] unfolding records_ok_def by auto

lemma calls_ok_update:
  assumes "calls_ok called h" and "ah_cleaner h' = ah_cleaner h"
    and "ah_last_generation h' = ah_last_generation h" and "ah_gates h' = (ah_gates h)(o1 := g)"
    and "\<not> accepting (ah_gates h o1) \<Longrightarrow> \<not> accepting g"
    and "\<not> accepting (ah_gates h o1) \<Longrightarrow> in_flight (ah_gates h o1) = 0 \<Longrightarrow> in_flight g = 0"
  shows "calls_ok called h'"
  using assms(1,2,4-6) issued_cong [OF assms(3)] unfolding calls_ok_def by auto

lemma actives_ok_update:
  assumes "actives_ok h" and "ah_records h' = (ah_records h)(o1 := v)"
    and "ah_records h o1 = Some r" and "is_live (ar_state r)"
    and "case v of Some r' \<Rightarrow> is_live (ar_state r') | None \<Rightarrow> False"
    and "ah_active h' = ah_active h"
  shows "actives_ok h'"
  using assms by (auto simp: actives_ok_def split: option.splits)

lemma actives_ok_release:
  assumes "actives_ok h" and "ah_records h' = (ah_records h)(o1 := v)"
    and "ah_records h o1 = Some r" and "is_live (ar_state r)"
    and "case v of Some r' \<Rightarrow> \<not> is_live (ar_state r') | None \<Rightarrow> True"
    and "ah_active h' = (ah_active h)(signature o1 := None)"
  shows "actives_ok h'"
proof -
  note act = assms(1) [unfolded actives_ok_def]
  have mine: "ah_active h (signature o1) = Some o1" by (rule conjunct1 [OF act, rule_format, OF assms(3,4)])
  have other: "signature o2 \<noteq> signature o1"
    if "ah_records h o2 = Some r2" "is_live (ar_state r2)" "o2 \<noteq> o1" for o2 r2
    using conjunct1 [OF act, rule_format, OF that(1,2)] that(3) mine by auto
  show ?thesis unfolding actives_ok_def
  proof (intro conjI allI impI)
    fix o2 r2 assume r2: "ah_records h' o2 = Some r2" and l: "is_live (ar_state r2)"
    then have "o2 \<noteq> o1" using assms(2,5) by (auto split: option.splits)
    then have "ah_records h o2 = Some r2" using r2 assms(2) by simp
    then show "ah_active h' (signature o2) = Some o2"
      using other [OF _ l \<open>o2 \<noteq> o1\<close>] conjunct1 [OF act, rule_format, OF _ l] assms(6) by simp
  next
    fix s o2 assume "ah_active h' s = Some o2"
    then have "ah_active h s = Some o2" "s \<noteq> signature o1" using assms(6) by (auto split: if_splits)
    then have "signature o2 = s" "\<exists>r. ah_records h o2 = Some r \<and> is_live (ar_state r)" "o2 \<noteq> o1"
      using conjunct2 [OF act, rule_format, of s o2] by auto
    then show "signature o2 = s" "\<exists>r. ah_records h' o2 = Some r \<and> is_live (ar_state r)"
      using assms(2) by auto
  qed
qed

lemma record_ok_state:
  assumes "record_ok fin g o1 r" and "ar_state r \<in> {Discovered, Loaded}"
  shows "ar_cleanup_cursor r = 0"
  using assms by (auto simp: record_ok_def)

definition host_ok ::
  "('c \<Rightarrow> owner_token \<Rightarrow> cleanup_phase \<Rightarrow> bool) \<Rightarrow> ('c \<Rightarrow> owner_token \<Rightarrow> cleanup_phase \<Rightarrow> bool) \<Rightarrow>
   'c addon_host \<Rightarrow> bool"
where
  "host_ok finished called h \<longleftrightarrow> records_ok finished h \<and> actives_ok h \<and> calls_ok called h"

lemma host_okD:
  assumes "host_ok finished called h" and "ah_records h o1 = Some r"
  shows "record_ok (finished (ah_cleaner h) o1) (ah_gates h o1) o1 r" and "issued h o1"
    and "is_live (ar_state r) \<Longrightarrow> ah_active h (signature o1) = Some o1"
  using assms by (auto simp: host_ok_def records_ok_def actives_ok_def)

lemma acknowledge_loaded_ok:
  assumes "host_ok finished called h"
  shows "host_ok finished called (fst (acknowledge_loaded o1 h))"
proof (cases "record_in o1 [Discovered] ''Discovered'' h")
  case (Inr r)
  then have r: "ah_records h o1 = Some r" "ar_state r = Discovered" by (simp_all add: record_in_Inr)
  let ?h = "put_record o1 (r\<lparr>ar_state := Loaded\<rparr>) h"
  note ok = host_okD [OF assms r(1)]
  have "records_ok finished ?h"
    by (rule records_ok_update [of _ h _ o1 "Some (r\<lparr>ar_state := Loaded\<rparr>)" "ah_gates h o1"])
      (use assms ok r in \<open>auto simp: host_ok_def record_ok_def\<close>)
  moreover have "actives_ok ?h"
    by (rule actives_ok_update [of h _ o1 "Some (r\<lparr>ar_state := Loaded\<rparr>)" r])
      (use assms r in \<open>auto simp: host_ok_def is_live_def\<close>)
  moreover have "calls_ok called ?h"
    by (rule calls_ok_update [of _ h _ o1 "ah_gates h o1"]) (use assms in \<open>auto simp: host_ok_def\<close>)
  ultimately show ?thesis by (simp add: host_ok_def acknowledge_loaded_def Inr)
qed (use assms in \<open>simp add: acknowledge_loaded_def\<close>)

lemma request_unload_ok:
  assumes "host_ok finished called h"
  shows "host_ok finished called (fst (request_unload o1 reason h))"
proof (cases "record_in o1 [Loaded] ''Loaded'' h")
  case (Inr r)
  then have r: "ah_records h o1 = Some r" "ar_state r = Loaded" by (simp_all add: record_in_Inr)
  let ?r = "r\<lparr>ar_state := UnloadRequested\<rparr>"
  let ?h = "put_record o1 ?r (close_gate o1 h)"
  note ok = host_okD [OF assms r(1)]
  have "records_ok finished ?h"
    by (rule records_ok_update [of _ h _ o1 "Some ?r" "(ah_gates h o1)\<lparr>accepting := False\<rparr>"])
      (use assms ok r in \<open>auto simp: host_ok_def record_ok_def\<close>)
  moreover have "actives_ok ?h"
    by (rule actives_ok_update [of h _ o1 "Some ?r" r])
      (use assms r in \<open>auto simp: host_ok_def is_live_def\<close>)
  moreover have "calls_ok called ?h"
    by (rule calls_ok_update [of _ h _ o1 "(ah_gates h o1)\<lparr>accepting := False\<rparr>"])
      (use assms in \<open>auto simp: host_ok_def\<close>)
  ultimately show ?thesis using assms by (simp add: host_ok_def request_unload_def Inr)
qed (use assms in \<open>simp add: request_unload_def\<close>)

lemma acknowledge_activation_failed_ok:
  assumes "host_ok finished called h"
  shows "host_ok finished called (fst (acknowledge_activation_failed o1 h))"
proof (cases "record_in o1 [Discovered] ''Discovered'' h")
  case (Inr r)
  then have r: "ah_records h o1 = Some r" "ar_state r = Discovered" by (simp_all add: record_in_Inr)
  let ?r = "r\<lparr>ar_state := LoadFailed\<rparr>"
  let ?h = "release_active o1 (put_record o1 ?r (close_gate o1 h))"
  note ok = host_okD [OF assms r(1)]
  have act: "ah_active h (signature o1) = Some o1" using ok(3) r(2) by (simp add: is_live_def)
  have "records_ok finished ?h"
    by (rule records_ok_update [of _ h _ o1 "Some ?r" "(ah_gates h o1)\<lparr>accepting := False\<rparr>"])
      (use assms ok r in \<open>auto simp: host_ok_def record_ok_def\<close>)
  moreover have "actives_ok ?h"
    by (rule actives_ok_release [of h _ o1 "Some ?r" r])
      (use assms r act in \<open>auto simp: host_ok_def is_live_def\<close>)
  moreover have "calls_ok called ?h"
    by (rule calls_ok_update [of _ h _ o1 "(ah_gates h o1)\<lparr>accepting := False\<rparr>"])
      (use assms in \<open>auto simp: host_ok_def\<close>)
  ultimately show ?thesis by (simp add: host_ok_def acknowledge_activation_failed_def Inr)
qed (use assms in \<open>simp add: acknowledge_activation_failed_def\<close>)

lemma cancel_discovery_ok:
  assumes "host_ok finished called h"
  shows "host_ok finished called (fst (cancel_discovery o1 h))"
proof (cases "record_in o1 [Discovered] ''Discovered'' h")
  case (Inr r)
  then have r: "ah_records h o1 = Some r" "ar_state r = Discovered" by (simp_all add: record_in_Inr)
  let ?h1 = "release_active o1 (close_gate o1 h)"
  let ?h = "?h1\<lparr>ah_records := (ah_records ?h1)(o1 := None)\<rparr>"
  note ok = host_okD [OF assms r(1)]
  have act: "ah_active h (signature o1) = Some o1" using ok(3) r(2) by (simp add: is_live_def)
  have "records_ok finished ?h"
    by (rule records_ok_update [of _ h _ o1 None "(ah_gates h o1)\<lparr>accepting := False\<rparr>"])
      (use assms in \<open>auto simp: host_ok_def\<close>)
  moreover have "actives_ok ?h"
    by (rule actives_ok_release [of h _ o1 None r])
      (use assms r act in \<open>auto simp: host_ok_def is_live_def\<close>)
  moreover have "calls_ok called ?h"
    by (rule calls_ok_update [of _ h _ o1 "(ah_gates h o1)\<lparr>accepting := False\<rparr>"])
      (use assms in \<open>auto simp: host_ok_def\<close>)
  ultimately show ?thesis by (simp add: host_ok_def cancel_discovery_def Inr Let_def)
qed (use assms in \<open>simp add: cancel_discovery_def\<close>)

lemma acknowledge_module_released_ok:
  assumes "host_ok finished called h"
  shows "host_ok finished called (fst (acknowledge_module_released o1 h))"
proof (cases "record_in o1 [Draining] ''Draining'' h")
  case (Inr r)
  then have r: "ah_records h o1 = Some r" "ar_state r = Draining" by (simp_all add: record_in_Inr)
  let ?r = "r\<lparr>ar_state := Unloaded\<rparr>"
  let ?h = "release_active o1 (put_record o1 ?r h)"
  note ok = host_okD [OF assms r(1)]
  have act: "ah_active h (signature o1) = Some o1" using ok(3) r(2) by (simp add: is_live_def)
  show ?thesis
  proof (cases "ar_cleanup_cursor r \<noteq> length cleanup_order \<or> in_flight (ah_gates h o1) \<noteq> 0")
    case True
    then show ?thesis using assms by (simp add: acknowledge_module_released_def Inr)
  next
    case False
    then have c: "ar_cleanup_cursor r = 3" by (simp add: cleanup_order_def)
    have "records_ok finished ?h"
      by (rule records_ok_update [of _ h _ o1 "Some ?r" "ah_gates h o1"])
        (use assms ok r c in \<open>auto simp: host_ok_def record_ok_def\<close>)
    moreover have "actives_ok ?h"
      by (rule actives_ok_release [of h _ o1 "Some ?r" r])
        (use assms r act in \<open>auto simp: host_ok_def is_live_def\<close>)
    moreover have "calls_ok called ?h"
      by (rule calls_ok_update [of _ h _ o1 "ah_gates h o1"]) (use assms in \<open>auto simp: host_ok_def\<close>)
    ultimately show ?thesis using False by (simp add: host_ok_def acknowledge_module_released_def Inr)
  qed
qed (use assms in \<open>simp add: acknowledge_module_released_def\<close>)

text \<open>Callbacks entering and leaving cannot reopen or refill a closed gate.\<close>

lemma record_ok_gate:
  assumes "record_ok fin g0 o1 r" and "accepting g = accepting g0"
    and "\<not> accepting g \<Longrightarrow> in_flight g0 = 0 \<Longrightarrow> in_flight g = 0"
  shows "record_ok fin g o1 r"
proof -
  have "\<not> accepting g" if "ar_cleanup_cursor r = 3" using assms(1,2) that by (auto simp: record_ok_def)
  then show ?thesis using assms by (auto simp: record_ok_def)
qed

lemma gate_change_ok:
  assumes "host_ok finished called h" and "accepting g = accepting (ah_gates h o1)"
    and "\<not> accepting g \<Longrightarrow> in_flight (ah_gates h o1) = 0 \<Longrightarrow> in_flight g = 0"
  shows "host_ok finished called (h\<lparr>ah_gates := (ah_gates h)(o1 := g)\<rparr>)"
proof -
  let ?h = "h\<lparr>ah_gates := (ah_gates h)(o1 := g)\<rparr>"
  have "records_ok finished ?h"
    by (rule records_ok_update [of _ h _ o1 "ah_records h o1" g])
      (use assms in \<open>auto simp: host_ok_def records_ok_def intro: record_ok_gate\<close>)
  moreover have "actives_ok ?h" using assms(1) by (simp add: host_ok_def actives_ok_def)
  moreover have "calls_ok called ?h"
    by (rule calls_ok_update [of _ h _ o1 g]) (use assms in \<open>auto simp: host_ok_def\<close>)
  ultimately show ?thesis by (simp add: host_ok_def)
qed

lemma callback_enters_ok:
  "host_ok finished called h \<Longrightarrow>
   host_ok finished called (h\<lparr>ah_gates := (ah_gates h)(o1 := fst (gate_try_enter (ah_gates h o1)))\<rparr>)"
  by (rule gate_change_ok) (auto simp: gate_try_enter_def gate_leave_def Let_def)

lemma callback_leaves_ok:
  "host_ok finished called h \<Longrightarrow> in_flight (ah_gates h o1) \<noteq> 0 \<Longrightarrow>
   host_ok finished called (h\<lparr>ah_gates := (ah_gates h)(o1 := fst (gate_leave (ah_gates h o1)))\<rparr>)"
  by (rule gate_change_ok) (auto simp: gate_leave_def Let_def)

section \<open>Discovery\<close>

lemma discover_Inr:
  assumes "discover live mode limits h = (h', Inr o1)"
  obtains d where "validate_and_copy_definition live limits = Inr d"
    and "ah_active h (signature o1) = None" and "od_signature d = signature o1"
    and "\<not> hot_reload_forbidden mode d"
    and "unat (generation o1) =
      Suc (case ah_last_generation h (signature o1) of None \<Rightarrow> 0 | Some g \<Rightarrow> unat g)"
    and "ah_cleaner h' = ah_cleaner h"
    and "ah_last_generation h' = (ah_last_generation h)(signature o1 \<mapsto> generation o1)"
    and "ah_active h' = (ah_active h)(signature o1 \<mapsto> o1)"
    and "ah_records h' = (ah_records h)(o1 \<mapsto>
      \<lparr>ar_owner = o1, ar_definition = d, ar_load_mode = mode, ar_state = Discovered,
       ar_cleanup_cursor = 0\<rparr>)"
    and "ah_gates h' = (ah_gates h)(o1 := gate_open)"
  using assms
  by (auto simp: discover_def Let_def checked_add_Some_iff split: sum.splits option.splits if_splits)

lemma discover_fresh:
  assumes "discover live mode limits h = (h', Inr o1)"
  shows "issued h o2 \<Longrightarrow> signature o2 = signature o1 \<Longrightarrow> generation o2 < generation o1"
    and "issued h' o1" and "issued h o2 \<Longrightarrow> issued h' o2" and "\<not> issued h o1"
proof -
  obtain d where g: "unat (generation o1) =
      Suc (case ah_last_generation h (signature o1) of None \<Rightarrow> 0 | Some g \<Rightarrow> unat g)"
    and l: "ah_last_generation h' = (ah_last_generation h)(signature o1 \<mapsto> generation o1)"
    by (rule discover_Inr [OF assms])
  show fresh: "issued h o2 \<Longrightarrow> signature o2 = signature o1 \<Longrightarrow> generation o2 < generation o1" for o2
    using g by (auto simp: issued_def word_less_nat_alt word_le_nat_alt)
  show "issued h' o1" using l by (simp add: issued_def)
  show "issued h o2 \<Longrightarrow> issued h' o2"
    using l fresh [of o2] by (auto simp: issued_def intro: less_imp_le)
  show "\<not> issued h o1" using fresh [of o1] by auto
qed

lemma discover_ok:
  assumes "host_ok finished called h" and "discover live mode limits h = (h', Inr o1)"
  shows "host_ok finished called h'"
proof -
  note fresh = discover_fresh [OF assms(2)]
  obtain d where none: "ah_active h (signature o1) = None"
    and c: "ah_cleaner h' = ah_cleaner h"
    and a: "ah_active h' = (ah_active h)(signature o1 \<mapsto> o1)"
    and r: "ah_records h' = (ah_records h)(o1 \<mapsto>
      \<lparr>ar_owner = o1, ar_definition = d, ar_load_mode = mode, ar_state = Discovered,
       ar_cleanup_cursor = 0\<rparr>)"
    and g: "ah_gates h' = (ah_gates h)(o1 := gate_open)"
    by (rule discover_Inr [OF assms(2)])
  have "records_ok finished h'"
    using assms(1) fresh(2,3) c r g
    by (auto simp: host_ok_def records_ok_def record_ok_def gate_open_def)
  moreover have "calls_ok called h'"
    using assms(1) fresh(3,4) c g by (auto simp: host_ok_def calls_ok_def)
  moreover have "actives_ok h'"
  proof -
    have "signature o2 \<noteq> signature o1" if "ah_records h o2 = Some r2" "is_live (ar_state r2)" for o2 r2
      using host_okD(3) [OF assms(1) that] none by auto
    then show ?thesis
      using assms(1) a r unfolding host_ok_def actives_ok_def
      by (auto simp: is_live_def split: if_splits)
  qed
  ultimately show ?thesis by (simp add: host_ok_def)
qed

lemma discover_Inl: "discover live mode limits h = (h', Inl e) \<Longrightarrow> h' = h"
  by (auto simp: discover_def Let_def split: sum.splits option.splits if_splits)

section \<open>Draining, for any cleaner that keeps the contract\<close>

lemma cleanup_order_index: "i < 3 \<Longrightarrow> phase_index (cleanup_order ! i) = i"
  by (auto simp: cleanup_order_def less_Suc_eq numeral_eq_Suc)

context watched_cleaner
begin

text \<open>What a run of phases from the record's cursor up to a bound does.\<close>

lemma cleanup_until_effect:
  assumes "inv c" and "bound \<le> 3" and "cleanup_until clean bound r c = (c', r', result)"
    and "\<forall>q. phase_index q < ar_cleanup_cursor r \<longrightarrow> finished c (ar_owner r) q"
  shows "inv c'" and "\<And>o2 q. finished c o2 q \<Longrightarrow> finished c' o2 q"
    and "r' = r\<lparr>ar_cleanup_cursor := ar_cleanup_cursor r'\<rparr>"
    and "ar_cleanup_cursor r \<le> ar_cleanup_cursor r'"
    and "ar_cleanup_cursor r' \<le> max (ar_cleanup_cursor r) bound"
    and "result = Inr () \<Longrightarrow> bound \<le> ar_cleanup_cursor r'"
    and "\<forall>q. phase_index q < ar_cleanup_cursor r' \<longrightarrow> finished c' (ar_owner r) q"
    and "\<And>o2 q. called c' o2 q \<Longrightarrow> called c o2 q \<or>
      o2 = ar_owner r \<and> ar_cleanup_cursor r \<le> phase_index q \<and> phase_index q < bound"
proof -
  have "inv c' \<and> (\<forall>o2 q. finished c o2 q \<longrightarrow> finished c' o2 q) \<and>
    r' = r\<lparr>ar_cleanup_cursor := ar_cleanup_cursor r'\<rparr> \<and> ar_cleanup_cursor r \<le> ar_cleanup_cursor r' \<and>
    ar_cleanup_cursor r' \<le> max (ar_cleanup_cursor r) bound \<and>
    (result = Inr () \<longrightarrow> bound \<le> ar_cleanup_cursor r') \<and>
    (\<forall>q. phase_index q < ar_cleanup_cursor r' \<longrightarrow> finished c' (ar_owner r) q) \<and>
    (\<forall>o2 q. called c' o2 q \<longrightarrow> called c o2 q \<or>
      o2 = ar_owner r \<and> ar_cleanup_cursor r \<le> phase_index q \<and> phase_index q < bound)"
    using assms
  proof (induction "bound - ar_cleanup_cursor r" arbitrary: r c rule: less_induct)
    case less
    let ?i = "ar_cleanup_cursor r"
    let ?o = "ar_owner r"
    show ?case
    proof (cases "?i < bound")
      case False
      then show ?thesis using less.prems by (simp add: cleanup_until.simps [of _ bound r])
    next
      case True
      define ph where "ph = cleanup_order ! ?i"
      have ph: "phase_index ph = ?i" using True less.prems(2) by (simp add: ph_def cleanup_order_index)
      obtain c1 res1 where cl: "clean ?o ph c = (c1, res1)" by fastforce
      note one = clean_inv [OF less.prems(1), of ?o ph] clean_stays [OF less.prems(1), of _ _ ?o ph]
        clean_finishes [OF less.prems(1), of ?o ph] called_clean [OF less.prems(1), of ?o ph]
      note one = one [unfolded cl fst_conv snd_conv]
      have calls: "called c1 o2 q \<Longrightarrow> called c o2 q \<or>
          o2 = ?o \<and> ?i \<le> phase_index q \<and> phase_index q < bound" for o2 q
        using one(4) [of o2 q] ph True by auto
      show ?thesis
      proof (cases res1)
        case (Inl e)
        then have end_eq: "c' = c1" "r' = r" "result = Inl (CleanupFailed ?o ph e)"
          using less.prems(3) True cl
          by (auto simp: cleanup_until.simps [of _ bound r] cleanup_next_phase_def Let_def
              ph_def [symmetric])
        show ?thesis
          unfolding end_eq using less.prems(4) one(1,2) calls by simp
      next
        case (Inr u)
        define r1 where "r1 = r\<lparr>ar_cleanup_cursor := ?i + 1\<rparr>"
        have step: "cleanup_until clean bound r1 c1 = (c', r', result)"
          using less.prems(3) True cl Inr
          by (simp add: cleanup_until.simps [of _ bound r] cleanup_next_phase_def Let_def
              ph_def [symmetric] r1_def)
        have fin: "\<forall>q. phase_index q < ar_cleanup_cursor r1 \<longrightarrow> finished c1 (ar_owner r1) q"
          using one(3) Inr ph by (auto simp: r1_def)
        have "bound - ar_cleanup_cursor r1 < bound - ?i" using True by (simp add: r1_def)
        from less.hyps [OF this one(1) less.prems(2) step fin]
        have IH: "inv c'" "\<forall>o2 q. finished c1 o2 q \<longrightarrow> finished c' o2 q"
          "r' = r1\<lparr>ar_cleanup_cursor := ar_cleanup_cursor r'\<rparr>" "?i + 1 \<le> ar_cleanup_cursor r'"
          "ar_cleanup_cursor r' \<le> max (?i + 1) bound" "result = Inr () \<longrightarrow> bound \<le> ar_cleanup_cursor r'"
          "\<forall>q. phase_index q < ar_cleanup_cursor r' \<longrightarrow> finished c' ?o q"
          "\<forall>o2 q. called c' o2 q \<longrightarrow> called c1 o2 q \<or>
             o2 = ?o \<and> ?i + 1 \<le> phase_index q \<and> phase_index q < bound"
          by (simp_all add: r1_def)
        have "r' = r\<lparr>ar_cleanup_cursor := ar_cleanup_cursor r'\<rparr>" using IH(3) by (simp add: r1_def)
        moreover have "called c o2 q \<or> o2 = ?o \<and> ?i \<le> phase_index q \<and> phase_index q < bound"
          if "called c' o2 q" for o2 q
          using IH(8) [rule_format, OF that] calls by auto
        moreover have "ar_cleanup_cursor r' \<le> max ?i bound" using IH(5) True by simp
        ultimately show ?thesis using IH one(2) by simp
      qed
    qed
  qed
  then show "inv c'" and "\<And>o2 q. finished c o2 q \<Longrightarrow> finished c' o2 q"
    and "r' = r\<lparr>ar_cleanup_cursor := ar_cleanup_cursor r'\<rparr>"
    and "ar_cleanup_cursor r \<le> ar_cleanup_cursor r'"
    and "ar_cleanup_cursor r' \<le> max (ar_cleanup_cursor r) bound"
    and "result = Inr () \<Longrightarrow> bound \<le> ar_cleanup_cursor r'"
    and "\<forall>q. phase_index q < ar_cleanup_cursor r' \<longrightarrow> finished c' (ar_owner r) q"
    and "\<And>o2 q. called c' o2 q \<Longrightarrow> called c o2 q \<or>
      o2 = ar_owner r \<and> ar_cleanup_cursor r \<le> phase_index q \<and> phase_index q < bound"
    by blast+
qed

text \<open>Draining keeps the invariant, on every branch.\<close>

lemma host_ok_drain_state:
  assumes ok: "host_ok finished called h" and inv: "inv (ah_cleaner h)"
    and r: "ah_records h o1 = Some r" "ar_state r \<in> {UnloadRequested, Draining}"
    and c': "\<And>o2 q. finished (ah_cleaner h) o2 q \<Longrightarrow> finished c' o2 q"
    and calls: "\<And>o2 q. called c' o2 q \<Longrightarrow> called (ah_cleaner h) o2 q \<or>
      o2 = o1 \<and> (q = OwnedResources \<longrightarrow> in_flight g = 0)"
    and g: "\<not> accepting g" "in_flight (ah_gates h o1) = 0 \<Longrightarrow> in_flight g = 0"
    and r': "r' = r\<lparr>ar_state := Draining, ar_cleanup_cursor := n\<rparr>" "n \<le> 3"
    and n: "n = 3 \<Longrightarrow> in_flight g = 0" "\<forall>q. phase_index q < n \<longrightarrow> finished c' o1 q"
    and h': "h' = put_record o1 r' (h\<lparr>ah_cleaner := c', ah_gates := (ah_gates h)(o1 := g)\<rparr>)"
  shows "host_ok finished called h'"
proof -
  note o1 = host_okD [OF ok r(1)]
  have proj: "ah_cleaner h' = c'" "ah_records h' = (ah_records h)(o1 \<mapsto> r')"
    "ah_gates h' = (ah_gates h)(o1 := g)" "ah_active h' = ah_active h" "issued h' = issued h"
    by (simp_all add: h' put_record_def issued_def fun_eq_iff)
  have mono: "record_ok (finished (ah_cleaner h) o2) g2 o2 r2 \<Longrightarrow> record_ok (finished c' o2) g2 o2 r2"
    for o2 g2 r2 using c' by (auto simp: record_ok_def)
  have mine: "record_ok (finished c' o1) g o1 r'"
    using o1(1) r' n g(1) by (auto simp: record_ok_def)
  have "records_ok finished h'"
    unfolding records_ok_def proj
  proof (intro allI impI)
    fix o2 r2 assume r2: "((ah_records h)(o1 \<mapsto> r')) o2 = Some r2"
    show "record_ok (finished c' o2) (((ah_gates h)(o1 := g)) o2) o2 r2 \<and> issued h o2"
    proof (cases "o2 = o1")
      case True
      then show ?thesis using r2 mine o1(2) by simp
    next
      case False
      then have "ah_records h o2 = Some r2" using r2 by simp
      from host_okD [OF ok this] mono False show ?thesis by simp
    qed
  qed
  moreover have "actives_ok h'"
    by (rule actives_ok_update [of h _ o1 "Some r'" r])
      (use ok r r' proj in \<open>auto simp: host_ok_def is_live_def\<close>)
  moreover have "calls_ok called h'"
    unfolding calls_ok_def proj
  proof (intro allI impI)
    fix o2 q assume "called c' o2 q"
    from calls [OF this] show "issued h o2 \<and> \<not> accepting (((ah_gates h)(o1 := g)) o2) \<and>
        (q = OwnedResources \<longrightarrow> in_flight (((ah_gates h)(o1 := g)) o2) = 0)"
      using ok g o1(2) by (auto simp: host_ok_def calls_ok_def)
  qed
  ultimately show ?thesis by (simp add: host_ok_def)
qed

lemma drain_ok:
  assumes ok: "host_ok finished called h" and inv: "inv (ah_cleaner h)"
    and drain: "drain_registrations clean o1 timeout script h = Some (h', result)"
  shows "host_ok finished called h' \<and> inv (ah_cleaner h')"
proof (cases "record_in o1 [UnloadRequested, Draining] ''UnloadRequested or Draining'' h")
  case (Inl e)
  then show ?thesis using assms by (simp add: drain_registrations_def)
next
  case (Inr r)
  then have r: "ah_records h o1 = Some r" "ar_state r \<in> {UnloadRequested, Draining}"
    by (simp_all add: record_in_Inr)
  note rec = host_okD(1) [OF ok r(1)]
  let ?g = "ah_gates h o1"
  let ?r = "r\<lparr>ar_state := Draining\<rparr>"
  from rec r(2) have own: "ar_owner r = o1" and closed: "\<not> accepting ?g"
    and cur: "ar_cleanup_cursor r \<le> 3" "ar_cleanup_cursor r = 3 \<Longrightarrow> in_flight ?g = 0"
    and fin: "\<forall>q. phase_index q < ar_cleanup_cursor r \<longrightarrow> finished (ah_cleaner h) o1 q"
    by (auto simp: record_ok_def)
  obtain c1 r1 res1 where u1: "cleanup_until clean pre_drain_count ?r (ah_cleaner h) = (c1, r1, res1)"
    by (metis prod_cases3)
  have two: "pre_drain_count \<le> 3" "pre_drain_count = 2" by (simp_all add: pre_drain_count_def)
  have fin': "\<forall>q. phase_index q < ar_cleanup_cursor ?r \<longrightarrow> finished (ah_cleaner h) (ar_owner ?r) q"
    using fin own by simp
  note e1 = cleanup_until_effect [OF inv two(1) u1 fin']
  have r1: "r1 = r\<lparr>ar_state := Draining, ar_cleanup_cursor := ar_cleanup_cursor r1\<rparr>"
    using e1(3) by simp
  have pre: "q \<noteq> OwnedResources" if "phase_index q < pre_drain_count" for q
    using that by (cases q) (simp_all add: two)
  have cur1: "ar_cleanup_cursor r1 \<le> 3" "ar_cleanup_cursor r1 = 3 \<Longrightarrow> ar_cleanup_cursor r = 3"
    using e1(4,5) cur(1) two by (auto simp: max_def split: if_splits)
  have first: "host_ok finished called
      (put_record o1 r1 (h\<lparr>ah_cleaner := c1, ah_gates := (ah_gates h)(o1 := g)\<rparr>))"
    if g: "\<not> accepting g" "in_flight ?g = 0 \<Longrightarrow> in_flight g = 0" for g
    by (rule host_ok_drain_state [OF ok inv r e1(2) _ g r1 cur1(1) _ _ refl])
      (use e1(7,8) own pre cur1(2) cur(2) g(2) in \<open>auto simp: pre_drain_count_def\<close>)
  let ?h1 = "put_record o1 r1 (h\<lparr>ah_cleaner := c1\<rparr>)"
  have put: "put_record o1 rr (h\<lparr>ah_cleaner := c, ah_gates := (ah_gates h)(o1 := ?g)\<rparr>) =
      put_record o1 rr (h\<lparr>ah_cleaner := c\<rparr>)" for rr c
    by (simp add: put_record_def)
  show ?thesis
  proof (cases res1)
    case (Inl e)
    then show ?thesis
      using drain Inr u1 first [OF closed] e1(1) put by (auto simp: drain_registrations_def Let_def)
  next
    case Inr1: (Inr u)
    obtain g drained where w: "gate_wait timeout script ?g = (g, drained)" by fastforce
    have g: "\<not> accepting g" "in_flight ?g = 0 \<Longrightarrow> in_flight g = 0"
      using gate_wait_accepting [OF w] closed gate_wait_drained [of ?g timeout script] w by auto
    show ?thesis
    proof (cases "drained = Some True")
      case False
      then have "h' = put_record o1 r1 (h\<lparr>ah_cleaner := c1, ah_gates := (ah_gates h)(o1 := g)\<rparr>)"
        using drain Inr u1 Inr1 w
        by (auto simp: drain_registrations_def Let_def put_record_def split: option.splits bool.splits)
      then show ?thesis using first [OF g] e1(1) by simp
    next
      case True
      with w have zero: "in_flight g = 0" using gate_wait_True by simp
      obtain c2 r2 res2 where u2: "cleanup_until clean (length cleanup_order) r1 c1 = (c2, r2, res2)"
        by (metis prod_cases3)
      have three: "length cleanup_order \<le> 3" by (simp add: cleanup_order_def)
      have own1: "ar_owner r1 = o1" using r1 own by (metis addon_record.select_convs(1)
            addon_record.surjective addon_record.update_convs(4,5))
      have fin1: "\<forall>q. phase_index q < ar_cleanup_cursor r1 \<longrightarrow> finished c1 (ar_owner r1) q"
        using e1(7) own own1 by simp
      note e2 = cleanup_until_effect [OF e1(1) three u2 fin1]
      have r2: "r2 = r\<lparr>ar_state := Draining, ar_cleanup_cursor := ar_cleanup_cursor r2\<rparr>"
        using e2(3) r1 by (metis addon_record.surjective addon_record.update_convs(5))
      have h': "h' = put_record o1 r2 (h\<lparr>ah_cleaner := c2, ah_gates := (ah_gates h)(o1 := g)\<rparr>)"
        using drain Inr u1 Inr1 w True u2
        by (auto simp: drain_registrations_def Let_def put_record_def)
      have fin2: "finished c2 o2 q" if "finished (ah_cleaner h) o2 q" for o2 q
        using e1(2) e2(2) that by blast
      have calls2: "called (ah_cleaner h) o2 q \<or> o2 = o1 \<and> (q = OwnedResources \<longrightarrow> in_flight g = 0)"
        if "called c2 o2 q" for o2 q
        using e1(8) [of o2 q] e2(8) [OF that] own own1 zero by auto
      have "host_ok finished called h'"
        by (rule host_ok_drain_state [OF ok inv r fin2 calls2 g r2 _ _ _ h'])
          (use e2(5,7) own1 cur1(1) three zero in \<open>auto simp: max_def split: if_splits\<close>)
      then show ?thesis using e2(1) h' by simp
    qed
  qed
qed

lemma host_apply_ok:
  assumes "host_ok finished called h" and "inv (ah_cleaner h)" and "host_apply clean op h = (h', new)"
  shows "host_ok finished called h' \<and> inv (ah_cleaner h')"
proof (cases op)
  case (Discover live mode limits)
  obtain h1 res where d: "discover live mode limits h = (h1, res)" by fastforce
  show ?thesis
  proof (cases res)
    case (Inl e)
    then have "h1 = h" using d discover_Inl by simp
    then show ?thesis using assms d Inl by (simp add: Discover)
  next
    case (Inr o1)
    then have "h' = h1" using assms(3) d by (simp add: Discover)
    moreover have "ah_cleaner h1 = ah_cleaner h" using discover_Inr d Inr by metis
    ultimately show ?thesis using discover_ok [OF assms(1)] d Inr assms(2) by auto
  qed
next
  case (Drain o1 timeout script)
  then show ?thesis
    using assms drain_ok [OF assms(1,2)] by (auto split: option.splits)
next
  case (AckLoaded o1)
  then show ?thesis
    using assms acknowledge_loaded_ok [OF assms(1), of o1]
    by (auto simp: acknowledge_loaded_def split: sum.splits)
next
  case (RequestUnload o1 reason)
  then show ?thesis
    using assms request_unload_ok [OF assms(1), of o1 reason]
    by (auto simp: request_unload_def split: sum.splits if_splits)
next
  case (AckReleased o1)
  then show ?thesis
    using assms acknowledge_module_released_ok [OF assms(1), of o1]
    by (auto simp: acknowledge_module_released_def split: sum.splits if_splits)
next
  case (AckFailed o1)
  then show ?thesis
    using assms acknowledge_activation_failed_ok [OF assms(1), of o1]
    by (auto simp: acknowledge_activation_failed_def split: sum.splits)
next
  case (CancelDiscovery o1)
  then show ?thesis
    using assms cancel_discovery_ok [OF assms(1), of o1]
    by (auto simp: cancel_discovery_def Let_def split: sum.splits)
next
  case (CallbackEnters o1)
  then show ?thesis using assms callback_enters_ok [OF assms(1), of o1] by auto
next
  case (CallbackLeaves o1)
  then show ?thesis
    using assms callback_leaves_ok [OF assms(1), of o1] by (auto split: if_splits)
qed

lemma host_run_ok:
  assumes "host_ok finished called h" and "inv (ah_cleaner h)" and "host_run clean ops h = (h', new)"
  shows "host_ok finished called h' \<and> inv (ah_cleaner h')"
  using assms
proof (induction ops arbitrary: h new)
  case (Cons op ops)
  obtain h1 n1 where s: "host_apply clean op h = (h1, n1)" by fastforce
  from host_apply_ok [OF Cons.prems(1,2) s] Cons.IH [of h1] Cons.prems(3) s show ?case
    by (auto split: prod.splits)
qed simp

end

lemma host_with_ok: "(\<And>o1 q. \<not> called c o1 q) \<Longrightarrow> host_ok finished called (host_with c)"
  by (simp add: host_ok_def records_ok_def actives_ok_def calls_ok_def host_with_def)

section \<open>The composite cleaner under the host\<close>

definition phase_called ::
  "registration_cleaner \<times> (adapter_log \<times> 'w) \<Rightarrow> owner_token \<Rightarrow> cleanup_phase \<Rightarrow> bool"
where
  "phase_called cw o1 q \<longleftrightarrow> (\<exists>svc r. (svc, o1, r) \<in> set (fst (snd cw)) \<and> service_phase svc = q)"

definition log_inv :: "slot list \<Rightarrow> registration_cleaner \<times> (adapter_log \<times> 'w) \<Rightarrow> bool" where
  "log_inv slots cw \<longleftrightarrow>
     rc_slots (fst cw) = slots \<and> (\<forall>o1. order_inv o1 (fst cw) (fst (snd cw)))"

lemma run_slots_calls:
  assumes "run_slots (logged run) o1 ph xs ps (log, w) = (ps', (log', w'))"
    and "(svc, o2, r) \<in> set log'"
  shows "(svc, o2, r) \<in> set log \<or> o2 = o1 \<and> service_phase svc = ph"
  using assms
proof (induction xs arbitrary: ps log w)
  case (Cons x xs)
  obtain i sl where x: "x = (i, sl)" by fastforce
  show ?case
  proof (cases "service_phase (sl_service sl) \<noteq> ph \<or> is_complete (ps ! i)")
    case True
    then show ?thesis using Cons by (simp add: x)
  next
    case False
    note todo = this
    show ?thesis
    proof (cases "sl_adapter sl")
      case (AdapterGap g)
      then show ?thesis using Cons todo by (simp add: x adapter_gap_def)
    next
      case (AdapterCallback cb)
      obtain w1 r1 where r1: "run (sl_service sl) cb o1 w = (w1, r1)" by fastforce
      have "run_slots (logged run) o1 ph xs (ps[i := next_progress (ps ! i) (Some r1)])
          (log @ [(sl_service sl, o1, r1)], w1) = (ps', (log', w'))"
        using Cons.prems(1) todo AdapterCallback logged_invoke [of run, OF r1]
        by (simp add: x adapter_gap_def)
      from Cons.IH [OF this Cons.prems(2)] todo show ?thesis by auto
    qed
  qed
qed simp

lemma cleanup_phase_calls:
  assumes "cleaner_inv c"
    and "cleanup_phase_op (logged run) o1 ph (c, (log, w)) = ((c', (log', w')), res)"
    and "(svc, o2, r) \<in> set log'"
  shows "(svc, o2, r) \<in> set log \<or> o2 = o1 \<and> service_phase svc = ph"
  using cleanup_cases [OF assms(1,2)] assms(3) run_slots_calls [of run o1 ph _ _ log w _ log' w' svc o2 r]
  by (elim conjE disjE exE) auto

interpretation logged_cleaner: watched_cleaner
  "trait_cleanup (logged run)" "log_inv slots" cleaner_finished phase_called
  for run :: "'w adapters" and slots
proof
  fix cw :: "registration_cleaner \<times> (adapter_log \<times> 'w)" and o1 o2 ph q
  assume inv: "log_inv slots cw"
  obtain c log w where cw: "cw = (c, (log, w))" by (metis prod.collapse)
  obtain c' log' w' res
    where op: "cleanup_phase_op (logged run) o1 ph (c, (log, w)) = ((c', (log', w')), res)"
    by (metis prod.collapse)
  have c: "cleaner_inv c" using inv by (simp add: log_inv_def order_inv_def cw)
  note t = trait_cleanup_unfold(1) [OF op]
  show "log_inv slots (fst (trait_cleanup (logged run) o1 ph cw))"
    using inv order_inv_clean [OF _ op] conjunct1 [OF cleanup_cases [OF c op]]
    by (simp add: log_inv_def cw t)
  show "cleaner_finished cw o2 q \<Longrightarrow> cleaner_finished (fst (trait_cleanup (logged run) o1 ph cw)) o2 q"
    using cleaner.clean_stays [of cw o2 q "logged run" o1 ph] c by (simp add: cw)
  show "snd (trait_cleanup (logged run) o1 ph cw) = Inr () \<Longrightarrow> phase_index q \<le> phase_index ph \<Longrightarrow>
      cleaner_finished (fst (trait_cleanup (logged run) o1 ph cw)) o1 q"
    using cleaner.clean_finishes [of cw "logged run" o1 ph q] c by (simp add: cw)
  show "cleaner_finished cw o1 ph \<Longrightarrow> snd (trait_cleanup (logged run) o1 ph cw) = Inr ()"
    using cleaner.clean_again [of cw o1 ph "logged run"] c by (simp add: cw)
  show "phase_called (fst (trait_cleanup (logged run) o1 ph cw)) o2 q \<Longrightarrow>
      phase_called cw o2 q \<or> o2 = o1 \<and> q = ph"
    using cleanup_phase_calls [OF c op] by (fastforce simp: phase_called_def cw t)
qed

end
