(* ===== verification/Addon_Unload.thy ===== *)
theory Addon_Unload
  imports Addon_Lifecycle
begin

text \<open>
  What unloading an addon guarantees, for the host of src/crates/nexus-host/src/host.rs with the
  composite cleaner of src/crates/nexus-addon-cleanup behind its trait, over any history of host
  operations, callbacks and adapter outcomes.
\<close>

abbreviation fresh_host ::
  "cleaner_builder \<Rightarrow> 'w \<Rightarrow> (registration_cleaner \<times> (adapter_log \<times> 'w)) addon_host"
where
  "fresh_host b w \<equiv> host_with (builder_build b, ([], w))"

abbreviation host_log :: "(registration_cleaner \<times> (adapter_log \<times> 'w)) addon_host \<Rightarrow> adapter_log" where
  "host_log h \<equiv> fst (snd (ah_cleaner h))"

lemma fresh_host_ok:
  "host_ok cleaner_finished phase_called (fresh_host b w)"
  "log_inv (rc_slots (builder_build b)) (ah_cleaner (fresh_host b w))"
  by (simp_all add: host_with_ok phase_called_def log_inv_def) (simp add: host_with_def)

lemma reachable_ok:
  assumes "host_run (trait_cleanup (logged run)) ops (fresh_host b w) = (h, new)"
  shows "host_ok cleaner_finished phase_called h"
    and "log_inv (rc_slots (builder_build b)) (ah_cleaner h)"
  using logged_cleaner.host_run_ok [OF fresh_host_ok assms] by blast+

lemma finished_succeeded:
  assumes "log_inv slots cw" and "cleaner_finished cw o1 ph"
    and "phase_index (service_phase svc) \<le> phase_index ph"
  shows "succeeded o1 svc (fst (snd cw))"
  using assms marked_succeeded [of o1 "fst cw" "fst (snd cw)" ph svc]
  by (simp add: log_inv_def cleaner_finished_def phase_completed_marked)

lemma host_ok_active:
  assumes "host_ok finished called h" and "ah_active h s = Some o1" and "ah_records h o1 = Some r"
  shows "is_live (ar_state r)"
proof -
  have "actives_ok h" using assms(1) by (simp add: host_ok_def)
  then have "\<exists>r. ah_records h o1 = Some r \<and> is_live (ar_state r)"
    using assms(2) by (simp add: actives_ok_def)
  then show ?thesis using assms(3) by auto
qed

section \<open>Generations\<close>

definition issued_in_order :: "owner_token \<Rightarrow> owner_token \<Rightarrow> bool" where
  "issued_in_order a b \<longleftrightarrow> (signature a = signature b \<longrightarrow> generation a < generation b)"

lemma last_generation_kept:
  "ah_last_generation (fst (acknowledge_loaded o1 h)) = ah_last_generation h"
  "ah_last_generation (fst (request_unload o1 reason h)) = ah_last_generation h"
  "ah_last_generation (fst (acknowledge_activation_failed o1 h)) = ah_last_generation h"
  "ah_last_generation (fst (cancel_discovery o1 h)) = ah_last_generation h"
  "ah_last_generation (fst (acknowledge_module_released o1 h)) = ah_last_generation h"
  by (simp_all add: acknowledge_loaded_def request_unload_def acknowledge_activation_failed_def
      cancel_discovery_def acknowledge_module_released_def Let_def split: sum.splits)

lemma drain_last_generation:
  "drain_registrations clean o1 timeout script h = Some (h', res) \<Longrightarrow>
   ah_last_generation h' = ah_last_generation h"
  by (auto simp: drain_registrations_def Let_def put_record_def
      split: sum.splits prod.splits option.splits bool.splits)

lemma host_apply_issued:
  assumes "host_apply clean op h = (h', new)"
  shows "issued h o1 \<Longrightarrow> issued h' o1" and "\<forall>o2 \<in> set new. issued h' o2"
    and "issued h o1 \<Longrightarrow> \<forall>o2 \<in> set new. issued_in_order o1 o2" and "length new \<le> 1"
proof -
  have "(issued h o1 \<longrightarrow> issued h' o1) \<and> (\<forall>o2 \<in> set new. issued h' o2) \<and>
      (issued h o1 \<longrightarrow> (\<forall>o2 \<in> set new. issued_in_order o1 o2)) \<and> length new \<le> 1"
  proof (cases op)
    case (Discover live mode limits)
    obtain h1 res where d: "discover live mode limits h = (h1, res)" by fastforce
    then show ?thesis
      using assms discover_fresh discover_Inl
      by (cases res) (fastforce simp: Discover issued_in_order_def)+
  qed (use assms in \<open>auto simp: issued_def last_generation_kept drain_last_generation
      split: option.splits if_splits\<close>)
  then show "issued h o1 \<Longrightarrow> issued h' o1" and "\<forall>o2 \<in> set new. issued h' o2"
    and "issued h o1 \<Longrightarrow> \<forall>o2 \<in> set new. issued_in_order o1 o2" and "length new \<le> 1"
    by blast+
qed

lemma host_run_issued:
  assumes "host_run clean ops h = (h', new)"
  shows "(\<forall>o1. issued h o1 \<longrightarrow> (\<forall>o2 \<in> set new. issued_in_order o1 o2)) \<and>
    sorted_wrt issued_in_order new"
  using assms
proof (induction ops arbitrary: h new)
  case (Cons op ops)
  obtain h1 n1 where s: "host_apply clean op h = (h1, n1)" by fastforce
  obtain n2 where r: "host_run clean ops h1 = (h', n2)" and new: "new = n1 @ n2"
    using Cons.prems s by (auto split: prod.splits)
  note one = host_apply_issued [OF s] and IH = Cons.IH [OF r]
  have "sorted_wrt issued_in_order n1" using one(4) by (cases n1) auto
  then show ?case using one(1-3) IH by (auto simp: new sorted_wrt_append)
qed simp

section \<open>An unload that goes through\<close>

context watched_cleaner
begin

text \<open>If every phase whose predecessors are finished succeeds, the loops reach their bound.\<close>

lemma cleanup_until_succeeds:
  assumes "inv c" and "good c" and "bound \<le> 3"
    and good: "\<And>c q. inv c \<Longrightarrow> good c \<Longrightarrow> \<forall>p. phase_index p < phase_index q \<longrightarrow> finished c (ar_owner r) p \<Longrightarrow>
      snd (clean (ar_owner r) q c) = Inr () \<and> good (fst (clean (ar_owner r) q c))"
    and "\<forall>q. phase_index q < ar_cleanup_cursor r \<longrightarrow> finished c (ar_owner r) q"
  obtains c' r' where "cleanup_until clean bound r c = (c', r', Inr ())" and "good c'"
proof -
  have "\<exists>c' r'. cleanup_until clean bound r c = (c', r', Inr ()) \<and> good c'"
    using assms
  proof (induction "bound - ar_cleanup_cursor r" arbitrary: r c rule: less_induct)
    case less
    let ?i = "ar_cleanup_cursor r"
    let ?o = "ar_owner r"
    show ?case
    proof (cases "?i < bound")
      case False
      then show ?thesis using less.prems(2) by (simp add: cleanup_until.simps [of _ bound r])
    next
      case True
      define ph where "ph = cleanup_order ! ?i"
      have ph: "phase_index ph = ?i" using True less.prems(3) by (simp add: ph_def cleanup_order_index)
      have one: "snd (clean ?o ph c) = Inr ()" "good (fst (clean ?o ph c))"
        using less.prems(4) [OF less.prems(1,2), of ph] less.prems(5) ph by simp_all
      obtain c1 where cl: "clean ?o ph c = (c1, Inr ())" using one(1) by (metis prod.collapse)
      define r1 where "r1 = r\<lparr>ar_cleanup_cursor := ?i + 1\<rparr>"
      have own: "ar_owner r1 = ?o" by (simp add: r1_def)
      have fin: "\<forall>q. phase_index q < ar_cleanup_cursor r1 \<longrightarrow> finished c1 (ar_owner r1) q"
        using clean_finishes [OF less.prems(1) one(1)] ph by (auto simp: r1_def cl)
      have inv1: "inv c1" using clean_inv [OF less.prems(1), of ?o ph] cl by simp
      have "bound - ar_cleanup_cursor r1 < bound - ?i" using True by (simp add: r1_def)
      from less.hyps [OF this inv1 _ less.prems(3) _ fin] less.prems(4) one(2) cl
      obtain c' r' where "cleanup_until clean bound r1 c1 = (c', r', Inr ())" "good c'"
        by (auto simp: own)
      moreover have "cleanup_until clean bound r c = cleanup_until clean bound r1 c1"
        using True cl by (simp add: cleanup_until.simps [of _ bound r] cleanup_next_phase_def Let_def
            ph_def [symmetric] r1_def)
      ultimately show ?thesis by metis
    qed
  qed
  then show ?thesis using that by blast
qed

end

text \<open>A cleaner without gaps whose adapters succeed for an owner.\<close>

definition adapters_succeed :: "'w adapters \<Rightarrow> owner_token \<Rightarrow> bool" where
  "adapters_succeed run o1 \<longleftrightarrow> (\<forall>svc cb w. \<exists>n. snd (run svc cb o1 w) = AdapterReturns (Inr n))"

definition no_gaps :: "registration_cleaner \<Rightarrow> bool" where
  "no_gaps c \<longleftrightarrow> (\<forall>sl \<in> set (rc_slots c). adapter_gap (sl_adapter sl) = None)"

lemma run_slots_succeed:
  assumes "adapters_succeed run o1" and "\<forall>(i, sl) \<in> set xs. adapter_gap (sl_adapter sl) = None \<and> i < length ps"
    and "run_slots run o1 ph xs ps w = (ps', w')" and "(i, sl) \<in> set xs" and "service_phase (sl_service sl) = ph"
  shows "is_complete (ps' ! i)"
  using assms
proof (induction xs arbitrary: ps w)
  case (Cons x xs)
  obtain j sj where x: "x = (j, sj)" by fastforce
  show ?case
  proof (cases "service_phase (sl_service sj) \<noteq> ph \<or> is_complete (ps ! j)")
    case True
    then have step: "run_slots run o1 ph xs ps w = (ps', w')" using Cons.prems(3) by (simp add: x)
    show ?thesis
    proof (cases "(i, sl) \<in> set xs")
      case True
      then show ?thesis
        using Cons.IH [OF Cons.prems(1) _ step _ Cons.prems(5)] Cons.prems(2) by (simp add: x)
    next
      case False
      then have "i = j" "sl = sj" using Cons.prems(4) x by auto
      then have "is_complete (ps ! i)" using True Cons.prems(5) by simp
      then show ?thesis using run_slots_keeps [OF step] by simp
    qed
  next
    case False
    obtain cb where cb: "sl_adapter sj = AdapterCallback cb"
      using Cons.prems(2) by (cases "sl_adapter sj") (auto simp: x adapter_gap_def)
    obtain w1 n where r: "run (sl_service sj) cb o1 w = (w1, AdapterReturns (Inr n))"
      using Cons.prems(1) by (metis adapters_succeed_def prod.collapse)
    let ?ps = "ps[j := next_progress (ps ! j) (Some (AdapterReturns (Inr n)))]"
    have step: "run_slots run o1 ph xs ?ps w1 = (ps', w')"
      using Cons.prems(3) False by (simp add: x adapter_gap_def cb adapter_invoke_def r)
    have "is_complete (?ps ! j)" using Cons.prems(2) by (simp add: x is_complete_next)
    then have "is_complete (ps' ! j)" using run_slots_keeps [OF step] by simp
    moreover have "is_complete (ps' ! i)" if "(i, sl) \<in> set xs"
      using Cons.IH [OF Cons.prems(1) _ step that Cons.prems(5)] Cons.prems(2) by (simp add: x)
    ultimately show ?thesis using Cons.prems(4) x by auto
  qed
qed simp

lemma trait_cleanup_succeeds:
  assumes "cleaner_inv (fst cw)" and "no_gaps (fst cw)" and "adapters_succeed run o1"
    and "\<forall>q. phase_index q < phase_index ph \<longrightarrow> cleaner_finished cw o1 q"
  shows "snd (trait_cleanup run o1 ph cw) = Inr () \<and> no_gaps (fst (fst (trait_cleanup run o1 ph cw)))"
proof -
  obtain c w where cw: "cw = (c, w)" by fastforce
  obtain c' w' res where op: "cleanup_phase_op run o1 ph (c, w) = ((c', w'), res)"
    by (metis prod.collapse)
  have inv: "cleaner_inv c" using assms(1) cw by simp
  let ?p = "progress_of c o1"
  have prior: "\<forall>q. phase_index q < phase_index ph \<longrightarrow> marked ?p q"
    using assms(4) by (simp add: cw cleaner_finished_def phase_completed_marked)
  have done_slots: "slots_done ps ph"
    if "run_slots run o1 ph (enumerate 0 (rc_slots c)) (op_slots ?p) w = (ps, w')" for ps
  proof -
    have len: "length (rc_slots c) = 9" "length (op_slots ?p) = 9"
      using inv progress_of_ok [OF inv, of o1]
      by (auto simp: cleaner_inv_def progress_ok_iff dest: arg_cong [of _ _ length])
    have svc: "sl_service (rc_slots c ! i) = service_order ! i" if "i < 9" for i
      using inv that len(1) by (metis cleaner_inv_def nth_map)
    have "\<forall>(i, sl) \<in> set (enumerate 0 (rc_slots c)). adapter_gap (sl_adapter sl) = None \<and> i < length (op_slots ?p)"
      using assms(2) len by (auto simp: cw no_gaps_def in_set_enumerate_eq)
    from run_slots_succeed [OF assms(3) this that] show ?thesis
      unfolding slots_done_def using svc len(1)
      by (metis (no_types, lifting) add.right_neutral diff_zero fst_conv in_set_enumerate_eq le0 snd_conv)
  qed
  have "\<exists>report. res = Inr report" "rc_slots c' = rc_slots c"
    using cleanup_cases [OF inv op] prior done_slots by (elim conjE disjE exE; simp)+
  then show ?thesis
    using trait_cleanup_unfold [OF op] assms(2) by (simp add: cw no_gaps_def)
qed

context watched_cleaner
begin

lemma drain_completes:
  assumes inv: "inv (ah_cleaner h)" and good: "good (ah_cleaner h)"
    and step: "\<And>c q. inv c \<Longrightarrow> good c \<Longrightarrow> \<forall>p. phase_index p < phase_index q \<longrightarrow> finished c o1 p \<Longrightarrow>
      snd (clean o1 q c) = Inr () \<and> good (fst (clean o1 q c))"
    and r: "ah_records h o1 = Some r" "ar_state r = UnloadRequested" "ar_owner r = o1"
      "ar_cleanup_cursor r = 0"
    and wait: "snd (gate_wait timeout script (ah_gates h o1)) = Some True"
  obtains h' r' where "drain_registrations clean o1 timeout script h = Some (h', Inr ())"
    and "ah_records h' o1 = Some r'" and "ar_state r' = Draining" and "ar_cleanup_cursor r' = 3"
    and "in_flight (ah_gates h' o1) = 0" and "ah_active h' = ah_active h"
proof -
  let ?r = "r\<lparr>ar_state := Draining\<rparr>"
  have two: "pre_drain_count \<le> 3" and three: "length cleanup_order \<le> 3" "length cleanup_order = 3"
    by (simp_all add: pre_drain_count_def cleanup_order_def)
  have own: "ar_owner ?r = o1" and zero: "\<forall>q. phase_index q < ar_cleanup_cursor ?r \<longrightarrow> finished c (ar_owner ?r) q" for c
    using r by simp_all
  obtain c1 r1 where u1: "cleanup_until clean pre_drain_count ?r (ah_cleaner h) = (c1, r1, Inr ())"
    and g1: "good c1"
    by (rule cleanup_until_succeeds [of "ah_cleaner h" good pre_drain_count ?r])
      (use inv good two step own zero in auto)
  note e1 = cleanup_until_effect [OF inv two u1 zero]
  have own1: "ar_owner r1 = o1" and st1: "ar_state r1 = Draining"
    using arg_cong [OF e1(3), of ar_owner] arg_cong [OF e1(3), of ar_state] r(3) by simp_all
  have fin1: "\<forall>q. phase_index q < ar_cleanup_cursor r1 \<longrightarrow> finished c1 (ar_owner r1) q"
    using e1(7) r(3) own1 by simp
  obtain c2 r2 where u2: "cleanup_until clean (length cleanup_order) r1 c1 = (c2, r2, Inr ())"
    and g2: "good c2"
    by (rule cleanup_until_succeeds [of c1 good "length cleanup_order" r1])
      (use e1(1) g1 three(1) step own1 fin1 in auto)
  note e2 = cleanup_until_effect [OF e1(1) three(1) u2 fin1]
  obtain g where w: "gate_wait timeout script (ah_gates h o1) = (g, Some True)"
    using wait by (metis prod.collapse)
  have "ar_cleanup_cursor r1 \<le> 3" using e1(5) r(4) two by simp
  then have c3: "ar_cleanup_cursor r2 = 3" using e2(5,6) three(2) by simp
  have st2: "ar_state r2 = Draining" using arg_cong [OF e2(3), of ar_state] st1 by simp
  have rec: "record_in o1 [UnloadRequested, Draining] ''UnloadRequested or Draining'' h = Inr r"
    using r(1,2) by (simp add: record_in_Inr)
  show ?thesis
  proof (rule that)
    show "drain_registrations clean o1 timeout script h =
        Some (put_record o1 r2 (put_record o1 r1 (h\<lparr>ah_cleaner := c1\<rparr>)
          \<lparr>ah_gates := (ah_gates h)(o1 := g), ah_cleaner := c2\<rparr>), Inr ())"
      by (simp add: drain_registrations_def rec u1 w u2)
  qed (use c3 st2 gate_wait_True [OF w] in \<open>simp_all add: put_record_def\<close>)
qed

lemma unload_goes_through:
  assumes ok: "host_ok finished called h" and inv: "inv (ah_cleaner h)" and good: "good (ah_cleaner h)"
    and step: "\<And>c q. inv c \<Longrightarrow> good c \<Longrightarrow> \<forall>p. phase_index p < phase_index q \<longrightarrow> finished c o1 p \<Longrightarrow>
      snd (clean o1 q c) = Inr () \<and> good (fst (clean o1 q c))"
    and r: "ah_records h o1 = Some r" "ar_state r = Loaded"
    and wait: "snd (gate_wait timeout script ((ah_gates h o1)\<lparr>accepting := False\<rparr>)) = Some True"
    and run: "host_run clean [RequestUnload o1 ShutdownUnload, Drain o1 timeout script, AckReleased o1] h =
      (h', new)"
  shows "(\<exists>r'. ah_records h' o1 = Some r' \<and> ar_state r' = Unloaded) \<and>
    ah_active h' (signature o1) = None"
proof -
  note rec = host_okD [OF ok r(1)]
  have own: "ar_owner r = o1" and cur: "ar_cleanup_cursor r = 0"
    using rec(1) r(2) by (auto simp: record_ok_def)
  have act: "ah_active h (signature o1) = Some o1" using rec(3) r(2) by (simp add: is_live_def)
  let ?r1 = "r\<lparr>ar_state := UnloadRequested\<rparr>"
  let ?h1 = "put_record o1 ?r1 (close_gate o1 h)"
  have in1: "record_in o1 [Loaded] ''Loaded'' h = Inr r" using r by (simp add: record_in_Inr)
  have s1: "request_unload o1 ShutdownUnload h = (?h1, Inr ())" by (simp add: request_unload_def in1)
  obtain h2 r2 where s2: "drain_registrations clean o1 timeout script ?h1 = Some (h2, Inr ())"
    and r2: "ah_records h2 o1 = Some r2" "ar_state r2 = Draining" "ar_cleanup_cursor r2 = 3"
      "in_flight (ah_gates h2 o1) = 0" and a2: "ah_active h2 = ah_active ?h1"
    by (rule drain_completes [of ?h1 good o1 ?r1 timeout script])
      (use inv good step own cur wait in auto)
  have in2: "record_in o1 [Draining] ''Draining'' h2 = Inr r2" using r2 by (simp add: record_in_Inr)
  have s3: "acknowledge_module_released o1 h2 =
      (release_active o1 (put_record o1 (r2\<lparr>ar_state := Unloaded\<rparr>) h2), Inr ())"
    using r2 by (simp add: acknowledge_module_released_def in2 cleanup_order_def)
  have "h' = release_active o1 (put_record o1 (r2\<lparr>ar_state := Unloaded\<rparr>) h2)"
    using run by (simp add: s1 s2 s3)
  then show ?thesis using a2 act by simp
qed

end

section \<open>Properties\<close>

text \<open>
  C5. An unloaded addon is quiet: in every reachable state of the host, an owner generation that
  is recorded as unloaded has a closed callback gate with no callback inside, every one of the
  nine services was cleaned up for exactly that generation with success, and it no longer
  claims its signature.
\<close>
theorem unloaded_is_quiet:
  assumes "host_run (trait_cleanup (logged run)) ops (fresh_host b w) = (h, new)"
    and "ah_records h o1 = Some r" and "ar_state r = Unloaded"
  shows "\<not> accepting (ah_gates h o1) \<and> in_flight (ah_gates h o1) = 0 \<and>
    (\<forall>svc. succeeded o1 svc (host_log h)) \<and> ah_active h (signature o1) \<noteq> Some o1"
proof -
  note ok = reachable_ok [OF assms(1)]
  have rec: "record_ok (cleaner_finished (ah_cleaner h) o1) (ah_gates h o1) o1 r"
    by (rule host_okD [OF ok(1) assms(2)])
  then have "cleaner_finished (ah_cleaner h) o1 OwnedResources"
    using assms(3) by (simp add: record_ok_def)
  then have "succeeded o1 svc (host_log h)" for svc
    using finished_succeeded [OF ok(2), of o1 OwnedResources svc] by (cases svc) simp_all
  moreover have "ah_active h (signature o1) \<noteq> Some o1"
    using host_ok_active [OF ok(1) _ assms(2)] assms(3) by (auto simp: is_live_def)
  ultimately show ?thesis using rec assms(3) by (simp add: record_ok_def)
qed

text \<open>
  C6. Cleanup happens behind the gate: whenever a cleanup adapter has been called for an owner
  generation, its callback gate is closed for good, and once a resource of the last phase has
  been released, no callback of that generation is running.
\<close>
theorem cleanup_behind_gate:
  assumes "host_run (trait_cleanup (logged run)) ops (fresh_host b w) = (h, new)"
    and "(svc, o1, outcome) \<in> set (host_log h)"
  shows "\<not> accepting (ah_gates h o1) \<and>
    (service_phase svc = OwnedResources \<longrightarrow> in_flight (ah_gates h o1) = 0)"
proof -
  have "phase_called (ah_cleaner h) o1 (service_phase svc)"
    using assms(2) by (auto simp: phase_called_def)
  then show ?thesis using reachable_ok(1) [OF assms(1)] by (simp add: host_ok_def calls_ok_def)
qed

text \<open>
  C7. Generations are never reused and never overlap: over any history the owners issued for one
  signature have strictly increasing generations, also across cancelled and failed loads, and at
  most one generation of a signature is discovered, loaded or draining.
\<close>
theorem generations_never_overlap:
  assumes "host_run (trait_cleanup (logged run)) ops (fresh_host b w) = (h, new)"
    and "ah_records h o1 = Some r1" and "is_live (ar_state r1)"
    and "ah_records h o2 = Some r2" and "is_live (ar_state r2)"
    and "signature o1 = signature o2"
  shows "sorted_wrt issued_in_order new \<and> o1 = o2"
proof -
  note ok = reachable_ok(1) [OF assms(1)]
  have "ah_active h (signature o1) = Some o1" by (rule host_okD(3) [OF ok assms(2,3)])
  then have "ah_active h (signature o2) = Some o1" unfolding assms(6) .
  then have "Some o1 = Some o2" using host_okD(3) [OF ok assms(4,5)] by (metis (no_types))
  then have "o1 = o2" by (rule option.inject [THEN iffD1])
  moreover have "sorted_wrt issued_in_order new" using host_run_issued [OF assms(1)] by (rule conjunct2)
  ultimately show ?thesis by (intro conjI)
qed

text \<open>
  An unload goes through: when every service has an adapter, the adapters succeed for the
  owner and its last callback leaves within the timeout, then requesting the unload, draining and
  acknowledging the release ends in the unloaded state with the signature free for a new
  generation.
\<close>
theorem unload_completes:
  assumes "host_run (trait_cleanup (logged run)) ops (fresh_host b w) = (h, new)"
    and "\<nexists>svc reason. b svc = AdapterGap reason" and "adapters_succeed run o1"
    and "ah_records h o1 = Some r" and "ar_state r = Loaded"
    and "snd (gate_wait timeout script ((ah_gates h o1)\<lparr>accepting := False\<rparr>)) = Some True"
    and "host_run (trait_cleanup (logged run))
      [RequestUnload o1 ShutdownUnload, Drain o1 timeout script, AckReleased o1] h = (h', new')"
  shows "(\<exists>r'. ah_records h' o1 = Some r' \<and> ar_state r' = Unloaded) \<and>
    ah_active h' (signature o1) = None"
proof -
  note ok = reachable_ok [OF assms(1)]
  have slots: "no_gaps (fst (ah_cleaner h))"
    using ok(2) assms(2)
    by (auto simp: log_inv_def no_gaps_def builder_build_def adapter_gap_def split: erased_adapter.splits)
  have succeed: "adapters_succeed (logged run) o1"
    using assms(3) by (auto simp: adapters_succeed_def logged_def split: prod.splits) (metis snd_conv)
  show ?thesis
    by (rule logged_cleaner.unload_goes_through
        [where good = "\<lambda>cw. no_gaps (fst cw)", OF ok slots _ assms(4-7)])
      (use trait_cleanup_succeeds [OF _ _ succeed] in \<open>auto simp: log_inv_def order_inv_def\<close>)
qed

section \<open>A concrete unload\<close>

definition demo_live :: live_module where
  "demo_live = Inr (demo_definition, \<lambda>a n. Inr (take (unat n) (demo_memory a)))"

definition demo_owned :: owned_definition where
  "demo_owned =
     \<lparr>od_signature = 7, od_api_revision = V6, od_name = [78, 195, 169], od_version = (1, 0, 0, 0),
      od_author = [65], od_description = [], od_flags = 3, od_provider = 0, od_update_link = None,
      od_has_unload_callback = False\<rparr>"

lemma demo_validated: "validate_and_copy_definition demo_live metadata_limits_default = Inr demo_owned"
  by (simp add: validate_and_copy_definition_def demo_live_def demo_owned_def demo_definition_def
      demo_memory_def metadata_limits_default_def api_revision_try_from_def flags_contain_def
      flag_disable_hot_loading_def copy_required_def copy_optional_def copy_at_def utf8_cont_def Let_def)

abbreviation demo_discover :: host_op where
  "demo_discover \<equiv> Discover demo_live InitialLoad metadata_limits_default"

abbreviation all_callbacks :: cleaner_builder where
  "all_callbacks \<equiv> \<lambda>_. AdapterCallback 0"

definition quick_adapters :: "nat adapters" where
  "quick_adapters svc cb o1 w = (w + 1, AdapterReturns (Inr 1))"

text \<open>One callback is inside when the unload is requested and leaves before the first reading.\<close>

definition demo_loaded :: "(registration_cleaner \<times> (adapter_log \<times> nat)) addon_host" where
  "demo_loaded =
     fst (host_run (trait_cleanup (logged quick_adapters))
       [demo_discover, AckLoaded demo_owner, CallbackEnters demo_owner] (fresh_host all_callbacks 0))"

definition demo_script :: "wait_round list" where
  "demo_script = [\<lparr>wr_leaves = 1, wr_elapsed = 0, wr_timed_out = False, wr_leaves_after = 0\<rparr>]"

abbreviation demo_unload :: "host_op list" where
  "demo_unload \<equiv>
     [RequestUnload demo_owner ShutdownUnload, Drain demo_owner 5 demo_script, AckReleased demo_owner]"

lemma demo_loaded_eval:
  "host_run (trait_cleanup (logged quick_adapters))
     [demo_discover, AckLoaded demo_owner, CallbackEnters demo_owner] (fresh_host all_callbacks 0) =
   (demo_loaded, [demo_owner])"
  "ah_records demo_loaded demo_owner =
     Some \<lparr>ar_owner = demo_owner, ar_definition = demo_owned, ar_load_mode = InitialLoad,
       ar_state = Loaded, ar_cleanup_cursor = 0\<rparr>"
  "ah_gates demo_loaded demo_owner = \<lparr>accepting = True, in_flight = 1\<rparr>"
  "ah_cleaner demo_loaded = (builder_build all_callbacks, ([], 0))"
proof -
  have sig: "od_signature demo_owned = 7" "hot_reload_forbidden InitialLoad demo_owned = False"
    by (simp_all add: demo_owned_def hot_reload_forbidden_def)
  have one: "checked_add 0 (1 :: u64) = Some 1" by (simp add: checked_add_def)
  note ev = demo_loaded_def discover_def demo_validated sig one Let_def host_with_def
    acknowledge_loaded_def record_in_def put_record_def gate_try_enter_def gate_open_def
  show "host_run (trait_cleanup (logged quick_adapters))
     [demo_discover, AckLoaded demo_owner, CallbackEnters demo_owner] (fresh_host all_callbacks 0) =
   (demo_loaded, [demo_owner])" by (simp add: ev)
  show "ah_records demo_loaded demo_owner =
     Some \<lparr>ar_owner = demo_owner, ar_definition = demo_owned, ar_load_mode = InitialLoad,
       ar_state = Loaded, ar_cleanup_cursor = 0\<rparr>"
    "ah_gates demo_loaded demo_owner = \<lparr>accepting = True, in_flight = 1\<rparr>"
    "ah_cleaner demo_loaded = (builder_build all_callbacks, ([], 0))"
    by (simp_all add: ev)
qed

lemma quick_adapters_succeed: "adapters_succeed quick_adapters o1"
  by (simp add: adapters_succeed_def quick_adapters_def)

lemma demo_wait:
  "snd (gate_wait 5 demo_script ((ah_gates demo_loaded demo_owner)\<lparr>accepting := False\<rparr>)) = Some True"
  by (simp add: demo_loaded_eval(3) demo_script_def gate_wait_def leave_many_def gate_leave_def Let_def)

theorem unload_completes_witness:
  "\<exists>r'. ah_records (fst (host_run (trait_cleanup (logged quick_adapters)) demo_unload demo_loaded)) demo_owner =
     Some r' \<and> ar_state r' = Unloaded"
proof -
  have gaps: "\<nexists>svc reason. all_callbacks svc = AdapterGap reason" by simp
  show ?thesis
    using unload_completes [OF demo_loaded_eval(1) gaps quick_adapters_succeed demo_loaded_eval(2) _
        demo_wait prod.collapse [symmetric]] by simp
qed

lemma host_run_append:
  "host_run clean (ops1 @ ops2) h =
   (let (h1, n1) = host_run clean ops1 h; (h2, n2) = host_run clean ops2 h1 in (h2, n1 @ n2))"
  by (induction ops1 arbitrary: h) (auto simp: Let_def split: prod.splits)

abbreviation demo_history :: "host_op list" where
  "demo_history \<equiv> [demo_discover, AckLoaded demo_owner, CallbackEnters demo_owner] @ demo_unload"

lemma demo_unloaded:
  obtains h r where "host_run (trait_cleanup (logged quick_adapters)) demo_history (fresh_host all_callbacks 0) =
      (h, [demo_owner])" and "ah_records h demo_owner = Some r" and "ar_state r = Unloaded"
proof -
  obtain h new where run: "host_run (trait_cleanup (logged quick_adapters)) demo_unload demo_loaded = (h, new)"
    by fastforce
  have new: "new = []" using run by (auto split: prod.splits option.splits)
  note ok = reachable_ok [OF demo_loaded_eval(1)]
  have succeed: "adapters_succeed (logged quick_adapters) demo_owner"
    by (simp add: adapters_succeed_def logged_def quick_adapters_def)
  have gaps: "no_gaps (fst (ah_cleaner demo_loaded))"
    by (simp add: demo_loaded_eval(4) no_gaps_def builder_build_def adapter_gap_def)
  have "\<exists>r. ah_records h demo_owner = Some r \<and> ar_state r = Unloaded"
    using logged_cleaner.unload_goes_through [where good = "\<lambda>cw. no_gaps (fst cw)", OF ok gaps _
        demo_loaded_eval(2) _ demo_wait run] trait_cleanup_succeeds [OF _ _ succeed]
    by (simp add: log_inv_def order_inv_def)
  moreover have "host_run (trait_cleanup (logged quick_adapters)) demo_history (fresh_host all_callbacks 0) =
      (h, [demo_owner])"
    unfolding host_run_append demo_loaded_eval(1) Let_def prod.case run new by simp
  ultimately show ?thesis using that by blast
qed

theorem unloaded_is_quiet_witness:
  "\<exists>h. fst (host_run (trait_cleanup (logged quick_adapters)) demo_history (fresh_host all_callbacks 0)) = h \<and>
     in_flight (ah_gates h demo_owner) = 0 \<and> succeeded demo_owner LocalizationOverrides (host_log h)"
proof -
  obtain h r where run: "host_run (trait_cleanup (logged quick_adapters)) demo_history
      (fresh_host all_callbacks 0) = (h, [demo_owner])"
    and r: "ah_records h demo_owner = Some r" "ar_state r = Unloaded" by (rule demo_unloaded)
  from unloaded_is_quiet [OF run r] run show ?thesis by simp
qed

theorem cleanup_behind_gate_witness:
  "\<exists>h n. fst (host_run (trait_cleanup (logged quick_adapters)) demo_history (fresh_host all_callbacks 0)) = h \<and>
     (FontResources, demo_owner, AdapterReturns (Inr n)) \<in> set (host_log h) \<and>
     in_flight (ah_gates h demo_owner) = 0"
proof -
  obtain h r where run: "host_run (trait_cleanup (logged quick_adapters)) demo_history
      (fresh_host all_callbacks 0) = (h, [demo_owner])"
    and r: "ah_records h demo_owner = Some r" "ar_state r = Unloaded" by (rule demo_unloaded)
  note ok = reachable_ok [OF run]
  have "cleaner_finished (ah_cleaner h) demo_owner OwnedResources"
    using host_okD(1) [OF ok(1) r(1)] r(2) by (simp add: record_ok_def)
  from finished_succeeded [OF ok(2) this, of FontResources]
  obtain n where n: "(FontResources, demo_owner, AdapterReturns (Inr n)) \<in> set (host_log h)"
    by (auto simp: succeeded_def)
  from cleanup_behind_gate [OF run n] n run show ?thesis by auto
qed

text \<open>A cancelled discovery followed by a second one.\<close>

abbreviation second_owner :: owner_token where
  "second_owner \<equiv> \<lparr>signature = 7, generation = 2\<rparr>"

abbreviation demo_reload :: "host_op list" where
  "demo_reload \<equiv> [demo_discover, CancelDiscovery demo_owner, demo_discover]"

lemma demo_reload_eval:
  "\<exists>h r. host_run (trait_cleanup (logged quick_adapters)) demo_reload (fresh_host all_callbacks 0) =
     (h, [demo_owner, second_owner]) \<and> ah_records h second_owner = Some r \<and> ar_state r = Discovered"
proof -
  have sig: "od_signature demo_owned = 7" "hot_reload_forbidden InitialLoad demo_owned = False"
    by (simp_all add: demo_owned_def hot_reload_forbidden_def)
  have one: "checked_add 0 (1 :: u64) = Some 1" "checked_add 1 (1 :: u64) = Some 2"
    by (simp_all add: checked_add_def)
  show ?thesis
    by (simp add: discover_def demo_validated sig one Let_def host_with_def cancel_discovery_def
        record_in_def close_gate_def release_active_def gate_close_def)
qed

theorem generations_never_overlap_witness:
  "\<exists>h. host_run (trait_cleanup (logged quick_adapters)) demo_reload (fresh_host all_callbacks 0) =
     (h, [demo_owner, second_owner]) \<and> issued_in_order demo_owner second_owner"
proof -
  obtain h r where run: "host_run (trait_cleanup (logged quick_adapters)) demo_reload
      (fresh_host all_callbacks 0) = (h, [demo_owner, second_owner])"
    and r: "ah_records h second_owner = Some r" "ar_state r = Discovered"
    using demo_reload_eval by blast
  have live: "is_live (ar_state r)" by (simp add: r(2) is_live_def)
  from generations_never_overlap [OF run r(1) live r(1) live refl] run show ?thesis by auto
qed

end
