(* ===== verification/Network_Files.thy ===== *)
theory Network_Files
  imports Text_Prelude
begin

text \<open>
  \<open>nexus-network/src/filesystem.rs\<close>: the file operations caches and updates are built on, and
  their production implementation \<open>StdFileSystem\<close> over the calls of \<open>std::fs\<close>.

  A path is the list of its components below the working directory, so \<open>Path::parent\<close> drops the
  last one and the working directory itself is the empty list. A disk maps paths to files and
  directories. Every call of the operating system may fail for a reason other than the presence
  or absence of a name: \<open>faults\<close> is the schedule of such failures, read one entry per call (an
  exhausted schedule means no more failures). A failure also says how many bytes a failing write left behind and which entries a failing removal of a
  tree had already deleted. Files are shorter than \<open>2 ^ 64\<close> bytes, so lengths are numbers.

  The locale \<open>file_store\<close> is the contract of the trait \<open>FileSystem\<close> an update transaction relies
  on.
\<close>

type_synonym path = "string list"
type_synonym bytes = "u8 list"

named_theorems os_calls \<open>the calls of the operating system, unfolded\<close>

section \<open>The disk and the calls of the operating system\<close>

datatype io_error_kind =
  IoNotFound | IoAlreadyExists | IoPermissionDenied | IoStorageFull | IoFileTooLarge | IoOther

datatype node = RegularFile bytes | Directory

datatype failure = FailDenied | FailStorageFull | FailTooLarge | FailOther

record os_fault =
  failure :: failure
  torn_bytes :: nat
  removed_first :: "path list"

record disk =
  nodes :: "path \<Rightarrow> node option"
  temp_file_sequence :: u64
  faults :: "os_fault option list"

definition fault_kind :: "os_fault \<Rightarrow> io_error_kind" where
  "fault_kind f =
     (case failure f of
        FailDenied \<Rightarrow> IoPermissionDenied
      | FailStorageFull \<Rightarrow> IoStorageFull
      | FailTooLarge \<Rightarrow> IoFileTooLarge
      | FailOther \<Rightarrow> IoOther)"

lemma fault_kind_other [simp]: "fault_kind f \<noteq> IoNotFound" "fault_kind f \<noteq> IoAlreadyExists"
  by (simp_all add: fault_kind_def split: failure.splits)

definition next_fault :: "disk \<Rightarrow> disk \<times> os_fault option" where
  "next_fault d = (case faults d of [] \<Rightarrow> (d, None) | f # fs \<Rightarrow> (d\<lparr>faults := fs\<rparr>, f))"

definition put_node :: "path \<Rightarrow> node option \<Rightarrow> disk \<Rightarrow> disk" where
  "put_node p n d = d\<lparr>nodes := (nodes d)(p := n)\<rparr>"

definition os_hard_link :: "path \<Rightarrow> path \<Rightarrow> disk \<Rightarrow> disk \<times> (io_error_kind + unit)" where
  "os_hard_link original link d =
     (case next_fault d of
        (d, Some f) \<Rightarrow> (d, Inl (fault_kind f))
      | (d, None) \<Rightarrow>
          (case nodes d original of
             None \<Rightarrow> (d, Inl IoNotFound)
           | Some Directory \<Rightarrow> (d, Inl IoPermissionDenied)
           | Some (RegularFile b) \<Rightarrow>
               if nodes d link \<noteq> None then (d, Inl IoAlreadyExists)
               else (put_node link (Some (RegularFile b)) d, Inr ())))"

definition os_remove_file :: "path \<Rightarrow> disk \<Rightarrow> disk \<times> (io_error_kind + unit)" where
  "os_remove_file p d =
     (case next_fault d of
        (d, Some f) \<Rightarrow> (d, Inl (fault_kind f))
      | (d, None) \<Rightarrow>
          (case nodes d p of
             None \<Rightarrow> (d, Inl IoNotFound)
           | Some Directory \<Rightarrow> (d, Inl IoPermissionDenied)
           | Some (RegularFile b) \<Rightarrow> (put_node p None d, Inr ())))"

text \<open>Renaming is used on files only; renaming a directory is left out.\<close>

definition os_rename :: "path \<Rightarrow> path \<Rightarrow> disk \<Rightarrow> disk \<times> (io_error_kind + unit)" where
  "os_rename from to d =
     (case next_fault d of
        (d, Some f) \<Rightarrow> (d, Inl (fault_kind f))
      | (d, None) \<Rightarrow>
          (case nodes d from of
             None \<Rightarrow> (d, Inl IoNotFound)
           | Some Directory \<Rightarrow> (d, Inl IoOther)
           | Some (RegularFile b) \<Rightarrow>
               if nodes d to = Some Directory then (d, Inl IoPermissionDenied)
               else (put_node to (Some (RegularFile b)) (put_node from None d), Inr ())))"

definition os_create_new :: "path \<Rightarrow> disk \<Rightarrow> disk \<times> (io_error_kind + unit)" where
  "os_create_new p d =
     (case next_fault d of
        (d, Some f) \<Rightarrow> (d, Inl (fault_kind f))
      | (d, None) \<Rightarrow>
          if nodes d p \<noteq> None then (d, Inl IoAlreadyExists)
          else (put_node p (Some (RegularFile [])) d, Inr ()))"

definition os_write_all :: "path \<Rightarrow> bytes \<Rightarrow> disk \<Rightarrow> disk \<times> (io_error_kind + unit)" where
  "os_write_all p b d =
     (case next_fault d of
        (d, Some f) \<Rightarrow> (put_node p (Some (RegularFile (take (torn_bytes f) b))) d, Inl (fault_kind f))
      | (d, None) \<Rightarrow> (put_node p (Some (RegularFile b)) d, Inr ()))"

definition os_sync_all :: "disk \<Rightarrow> disk \<times> (io_error_kind + unit)" where
  "os_sync_all d =
     (case next_fault d of (d, Some f) \<Rightarrow> (d, Inl (fault_kind f)) | (d, None) \<Rightarrow> (d, Inr ()))"

text \<open>Opening a file yields what its handle reads.\<close>

definition os_open :: "path \<Rightarrow> disk \<Rightarrow> disk \<times> (io_error_kind + bytes)" where
  "os_open p d =
     (case next_fault d of
        (d, Some f) \<Rightarrow> (d, Inl (fault_kind f))
      | (d, None) \<Rightarrow>
          (case nodes d p of
             None \<Rightarrow> (d, Inl IoNotFound)
           | Some Directory \<Rightarrow> (d, Inl IoPermissionDenied)
           | Some (RegularFile b) \<Rightarrow> (d, Inr b)))"

definition os_handle_length :: "bytes \<Rightarrow> disk \<Rightarrow> disk \<times> (io_error_kind + nat)" where
  "os_handle_length b d =
     (case next_fault d of
        (d, Some f) \<Rightarrow> (d, Inl (fault_kind f)) | (d, None) \<Rightarrow> (d, Inr (length b)))"

definition os_read_take :: "bytes \<Rightarrow> nat \<Rightarrow> disk \<Rightarrow> disk \<times> (io_error_kind + bytes)" where
  "os_read_take b n d =
     (case next_fault d of
        (d, Some f) \<Rightarrow> (d, Inl (fault_kind f)) | (d, None) \<Rightarrow> (d, Inr (take n b)))"

text \<open>\<open>fs::metadata\<close>: the length of a file, \<open>None\<close> for a directory.\<close>

definition os_metadata :: "path \<Rightarrow> disk \<Rightarrow> disk \<times> (io_error_kind + nat option)" where
  "os_metadata p d =
     (case next_fault d of
        (d, Some f) \<Rightarrow> (d, Inl (fault_kind f))
      | (d, None) \<Rightarrow>
          (case nodes d p of
             None \<Rightarrow> (d, Inl IoNotFound)
           | Some Directory \<Rightarrow> (d, Inr None)
           | Some (RegularFile b) \<Rightarrow> (d, Inr (Some (length b)))))"

definition is_ancestor :: "path \<Rightarrow> path \<Rightarrow> bool" where
  "is_ancestor q p \<longleftrightarrow> q \<noteq> [] \<and> take (length q) p = q"

definition os_create_dir_all :: "path \<Rightarrow> disk \<Rightarrow> disk \<times> (io_error_kind + unit)" where
  "os_create_dir_all p d =
     (case next_fault d of
        (d, Some f) \<Rightarrow> (d, Inl (fault_kind f))
      | (d, None) \<Rightarrow>
          if list_ex (\<lambda>n. nodes d (take n p) \<notin> {None, Some Directory}) [1 ..< Suc (length p)]
          then (d, Inl IoAlreadyExists)
          else (d\<lparr>nodes := \<lambda>q. if is_ancestor q p then Some Directory else nodes d q\<rparr>, Inr ()))"

definition os_remove_dir_all :: "path \<Rightarrow> disk \<Rightarrow> disk \<times> (io_error_kind + unit)" where
  "os_remove_dir_all p d =
     (case next_fault d of
        (d, Some f) \<Rightarrow>
          (d\<lparr>nodes := \<lambda>q. if take (length p) q = p \<and> q \<in> set (removed_first f) then None
                         else nodes d q\<rparr>, Inl (fault_kind f))
      | (d, None) \<Rightarrow>
          (case nodes d p of
             None \<Rightarrow> (d, Inl IoNotFound)
           | Some (RegularFile b) \<Rightarrow> (d, Inl IoOther)
           | Some Directory \<Rightarrow>
               (d\<lparr>nodes := \<lambda>q. if take (length p) q = p then None else nodes d q\<rparr>, Inr ())))"

lemmas os_call_defs =
  os_hard_link_def os_remove_file_def os_rename_def os_create_new_def os_write_all_def
  os_sync_all_def os_open_def os_handle_length_def os_read_take_def os_metadata_def

section \<open>Errors\<close>

datatype file_system_error =
  FsNotFound | FsAlreadyExists | FsPermissionDenied | FsCapacityExhausted | FsLimitExceeded
  | FsOperationFailed

definition map_io_error :: "io_error_kind \<Rightarrow> file_system_error" where
  "map_io_error k =
     (case k of
        IoNotFound \<Rightarrow> FsNotFound
      | IoAlreadyExists \<Rightarrow> FsAlreadyExists
      | IoPermissionDenied \<Rightarrow> FsPermissionDenied
      | IoStorageFull \<Rightarrow> FsCapacityExhausted
      | IoFileTooLarge \<Rightarrow> FsCapacityExhausted
      | IoOther \<Rightarrow> FsOperationFailed)"

definition map_io_result :: "disk \<times> (io_error_kind + 'a) \<Rightarrow> disk \<times> (file_system_error + 'a)" where
  "map_io_result dr =
     (case dr of (d, Inl k) \<Rightarrow> (d, Inl (map_io_error k)) | (d, Inr x) \<Rightarrow> (d, Inr x))"

section \<open>Temporary files\<close>

definition path_parent :: "path \<Rightarrow> path" where
  "path_parent p = (if p = [] then [] else butlast p)"

definition path_stem :: "path \<Rightarrow> string" where
  "path_stem p = (if p = [] then ''entry'' else last p)"

definition lower_hex_digit :: "nat \<Rightarrow> char" where
  "lower_hex_digit n = char_of (if n < 10 then n + 48 else n + 87)"

text \<open>\<open>{:016x}\<close> of a \<open>u64\<close>.\<close>

definition format_016x :: "u64 \<Rightarrow> string" where
  "format_016x w = map (\<lambda>i. lower_hex_digit (unat w div 16 ^ i mod 16)) (rev [0 ..< 16])"

definition temporary_path :: "path \<Rightarrow> u64 \<Rightarrow> path" where
  "temporary_path target sequence =
     path_parent target @ [path_stem target @ ''.nexus-'' @ format_016x sequence @ ''.tmp'']"

fun create_temporary_file :: "nat \<Rightarrow> path \<Rightarrow> disk \<Rightarrow> disk \<times> (file_system_error + path)" where
  "create_temporary_file 0 target d = (d, Inl FsAlreadyExists)"
| "create_temporary_file (Suc attempts) target d =
     (let sequence = temp_file_sequence d;
          p = temporary_path target sequence
      in case os_create_new p (d\<lparr>temp_file_sequence := sequence + 1\<rparr>) of
           (d, Inr _) \<Rightarrow> (d, Inr p)
         | (d, Inl k) \<Rightarrow>
             if k = IoAlreadyExists then create_temporary_file attempts target d
             else (d, Inl (map_io_error k)))"

section \<open>\<open>StdFileSystem\<close>\<close>

definition std_read_bounded ::
  "path \<Rightarrow> usize \<Rightarrow> disk \<Rightarrow> disk \<times> (file_system_error + bytes option)" where
  "std_read_bounded p limit d =
     (case os_open p d of
        (d, Inl k) \<Rightarrow> (d, if k = IoNotFound then Inr None else Inl (map_io_error k))
      | (d, Inr handle) \<Rightarrow>
          (case os_handle_length handle d of (d, metadata) \<Rightarrow>
             if (case metadata of Inr len \<Rightarrow> unat limit < len | Inl _ \<Rightarrow> False)
             then (d, Inl FsLimitExceeded)
             else case os_read_take handle (unat (saturating_add limit 1)) d of
                 (d, Inl k) \<Rightarrow> (d, Inl (map_io_error k))
               | (d, Inr b) \<Rightarrow>
                   if unat limit < length b then (d, Inl FsLimitExceeded) else (d, Inr (Some b))))"

definition std_file_len :: "path \<Rightarrow> disk \<Rightarrow> disk \<times> (file_system_error + nat option)" where
  "std_file_len p d =
     (case os_metadata p d of
        (d, Inr (Some len)) \<Rightarrow> (d, Inr (Some len))
      | (d, Inr None) \<Rightarrow> (d, Inl FsOperationFailed)
      | (d, Inl k) \<Rightarrow> (d, if k = IoNotFound then Inr None else Inl (map_io_error k)))"

text \<open>The closure of \<open>write_atomic\<close>: write, flush and put the temporary file in place.\<close>

definition fill_and_replace ::
  "path \<Rightarrow> path \<Rightarrow> bytes \<Rightarrow> disk \<Rightarrow> disk \<times> (file_system_error + unit)" where
  "fill_and_replace temporary p contents d =
     (case os_write_all temporary contents d of
        (d, Inl k) \<Rightarrow> (d, Inl (map_io_error k))
      | (d, Inr _) \<Rightarrow>
          (case os_sync_all d of
             (d, Inl k) \<Rightarrow> (d, Inl (map_io_error k))
           | (d, Inr _) \<Rightarrow> map_io_result (os_rename temporary p d)))"

definition std_write_atomic :: "path \<Rightarrow> bytes \<Rightarrow> disk \<Rightarrow> disk \<times> (file_system_error + unit)" where
  "std_write_atomic p contents d =
     (case os_create_dir_all (path_parent p) d of
        (d, Inl k) \<Rightarrow> (d, Inl (map_io_error k))
      | (d, Inr _) \<Rightarrow>
          (case create_temporary_file 128 p d of
             (d, Inl e) \<Rightarrow> (d, Inl e)
           | (d, Inr temporary) \<Rightarrow>
               (case fill_and_replace temporary p contents d of
                  (d, Inl e) \<Rightarrow> (fst (os_remove_file temporary d), Inl e)
                | (d, Inr _) \<Rightarrow> (d, Inr ()))))"

definition std_move_noreplace :: "path \<Rightarrow> path \<Rightarrow> disk \<Rightarrow> disk \<times> (file_system_error + unit)" where
  "std_move_noreplace from to d =
     (case os_hard_link from to d of
        (d, Inl k) \<Rightarrow> (d, Inl (map_io_error k))
      | (d, Inr _) \<Rightarrow>
          (case os_remove_file from d of
             (d, Inl k) \<Rightarrow> (fst (os_remove_file to d), Inl (map_io_error k))
           | (d, Inr _) \<Rightarrow> (d, Inr ())))"

definition std_remove_file :: "path \<Rightarrow> disk \<Rightarrow> disk \<times> (file_system_error + unit)" where
  "std_remove_file p d =
     (case os_remove_file p d of
        (d, Inr _) \<Rightarrow> (d, Inr ())
      | (d, Inl k) \<Rightarrow> (d, if k = IoNotFound then Inr () else Inl (map_io_error k)))"

definition std_create_dir_all :: "path \<Rightarrow> disk \<Rightarrow> disk \<times> (file_system_error + unit)" where
  "std_create_dir_all p d = map_io_result (os_create_dir_all p d)"

definition std_remove_dir_all :: "path \<Rightarrow> disk \<Rightarrow> disk \<times> (file_system_error + unit)" where
  "std_remove_dir_all p d =
     (case os_remove_dir_all p d of
        (d, Inr _) \<Rightarrow> (d, Inr ())
      | (d, Inl k) \<Rightarrow> (d, if k = IoNotFound then Inr () else Inl (map_io_error k)))"

section \<open>What the operations do\<close>

definition contents :: "disk \<Rightarrow> path \<Rightarrow> bytes option" where
  "contents d p = (case nodes d p of Some (RegularFile b) \<Rightarrow> Some b | _ \<Rightarrow> None)"

lemma next_fault_nodes [simp]: "next_fault d = (d', r) \<Longrightarrow> nodes d' = nodes d"
  by (auto simp: next_fault_def split: list.splits)

lemma put_node_simps [simp]:
  "nodes (put_node p n d) = (nodes d)(p := n)"
  by (simp_all add: put_node_def)

text \<open>A call either leaves every node alone or has its one effect.\<close>

lemma hard_link_cases:
  assumes "os_hard_link a b d = (d', r)"
  obtains k where "r = Inl k" "nodes d' = nodes d"
    | x where "r = Inr ()" "nodes d a = Some (RegularFile x)" "nodes d b = None"
        "nodes d' = (nodes d)(b \<mapsto> RegularFile x)"
  using assms
  by (auto simp: os_hard_link_def split: prod.splits option.splits node.splits if_splits)

lemma remove_file_cases:
  assumes "os_remove_file a d = (d', r)"
  obtains k where "r = Inl k" "nodes d' = nodes d"
    | x where "r = Inr ()" "nodes d a = Some (RegularFile x)" "nodes d' = (nodes d)(a := None)"
  using assms
  by (auto simp: os_remove_file_def split: prod.splits option.splits node.splits if_splits)

lemma rename_cases:
  assumes "os_rename a b d = (d', r)"
  obtains k where "r = Inl k" "nodes d' = nodes d"
    | x where "r = Inr ()" "nodes d a = Some (RegularFile x)"
        "nodes d' = (nodes d)(a := None, b \<mapsto> RegularFile x)"
  using assms
  by (auto simp: os_rename_def split: prod.splits option.splits node.splits if_splits)

lemma create_new_cases:
  assumes "os_create_new a d = (d', r)"
  obtains k where "r = Inl k" "nodes d' = nodes d"
    | "r = Inr ()" "nodes d a = None" "nodes d' = (nodes d)(a \<mapsto> RegularFile [])"
  using assms by (auto simp: os_create_new_def split: prod.splits option.splits if_splits)

lemma write_all_cases:
  assumes "os_write_all a x d = (d', r)"
  obtains k n where "r = Inl k" "nodes d' = (nodes d)(a \<mapsto> RegularFile (take n x))"
    | "r = Inr ()" "nodes d' = (nodes d)(a \<mapsto> RegularFile x)"
  using assms by (auto simp: os_write_all_def split: prod.splits option.splits)

lemma sync_all_nodes: "os_sync_all d = (d', r) \<Longrightarrow> nodes d' = nodes d"
  by (auto simp: os_sync_all_def split: prod.splits option.splits)

lemma create_dir_all_cases:
  assumes "os_create_dir_all p d = (d', r)"
  obtains k where "r = Inl k" "nodes d' = nodes d"
    | "r = Inr ()" "nodes d' = (\<lambda>q. if is_ancestor q p then Some Directory else nodes d q)"
        "\<And>q. is_ancestor q p \<Longrightarrow> nodes d q \<in> {None, Some Directory}"
proof -
  obtain d1 f where n: "next_fault d = (d1, f)" by (cases "next_fault d")
  then have same: "nodes d1 = nodes d" by simp
  show thesis
  proof (cases f)
    case (Some g)
    with n assms have "r = Inl (fault_kind g)" "d' = d1" by (simp_all add: os_create_dir_all_def)
    with that(1) same show thesis by simp
  next
    case None
    show thesis
    proof (cases "list_ex (\<lambda>n. nodes d1 (take n p) \<notin> {None, Some Directory}) [1 ..< Suc (length p)]")
      case True
      with None n assms have "r = Inl IoAlreadyExists" "d' = d1"
        by (simp_all add: os_create_dir_all_def)
      with that(1) same show thesis by simp
    next
      case False
      have "nodes d q \<in> {None, Some Directory}" if "is_ancestor q p" for q
      proof -
        have "take (length q) p = q" "q \<noteq> []" using that by (simp_all add: is_ancestor_def)
        moreover from this have "length q \<in> set [1 ..< Suc (length p)]"
          by (cases q) (auto dest: arg_cong [where f = length])
        ultimately show ?thesis using False same unfolding list_ex_iff by metis
      qed
      moreover from False None n assms have "r = Inr ()"
        "nodes d' = (\<lambda>q. if is_ancestor q p then Some Directory else nodes d q)"
        using same by (auto simp: os_create_dir_all_def)
      ultimately show thesis by (rule that(2) [rotated 2])
    qed
  qed
qed

lemma temporary_path_fresh: "temporary_path p n \<noteq> p"
proof
  assume eq: "temporary_path p n = p"
  then have "p \<noteq> []" by (auto simp: temporary_path_def)
  from eq have "last (temporary_path p n) = last p" by simp
  with \<open>p \<noteq> []\<close> have "length (last p @ ''.nexus-'') \<le> length (last p)"
    by (simp add: temporary_path_def path_stem_def)
  then show False by simp
qed

lemma create_temporary_file_cases:
  assumes "create_temporary_file n p d = (d', r)"
  obtains e where "r = Inl e" "nodes d' = nodes d"
    | t where "r = Inr t" "t \<noteq> p" "t \<noteq> []" "ends_with ''.tmp'' (last t)" "nodes d t = None"
        "nodes d' = (nodes d)(t \<mapsto> RegularFile [])"
  using assms
proof (induction n arbitrary: d thesis)
  case 0
  then have "r = Inl FsAlreadyExists" "d' = d" by simp_all
  then show ?case by (intro 0(1)) simp_all
next
  case (Suc n)
  let ?t = "temporary_path p (temp_file_sequence d)"
  obtain d1 c where c: "os_create_new ?t (d\<lparr>temp_file_sequence := temp_file_sequence d + 1\<rparr>) = (d1, c)"
    by (cases "os_create_new ?t (d\<lparr>temp_file_sequence := temp_file_sequence d + 1\<rparr>)")
  from c show ?case
  proof (cases rule: create_new_cases)
    case (1 k)
    show ?thesis
    proof (cases "k = IoAlreadyExists")
      case True
      with 1 c Suc.prems(3) have "create_temporary_file n p d1 = (d', r)" by (simp add: Let_def)
      then show ?thesis using Suc.IH [of d1] Suc.prems(1,2) 1 by auto
    next
      case False
      with 1 c Suc.prems(3) have "r = Inl (map_io_error k)" "d' = d1" by (simp_all add: Let_def)
      with 1 show ?thesis by (intro Suc.prems(1)) simp_all
    qed
  next
    case 2
    with c Suc.prems(3) have "r = Inr ?t" "d' = d1" by (simp_all add: Let_def)
    moreover have "?t \<noteq> []" "ends_with ''.tmp'' (last ?t)"
      by (simp_all add: temporary_path_def ends_with_def starts_with_def)
    ultimately show ?thesis using 2 Suc.prems(2) temporary_path_fresh by simp
  qed
qed

lemma fill_and_replace_cases:
  assumes "fill_and_replace t p x d = (d', r)" and "t \<noteq> p"
  obtains e b where "r = Inl e" "nodes d' = (nodes d)(t \<mapsto> RegularFile b)"
    | "r = Inr ()" "nodes d' = (nodes d)(t := None, p \<mapsto> RegularFile x)"
proof -
  obtain d1 w where w: "os_write_all t x d = (d1, w)" by (cases "os_write_all t x d")
  obtain d2 y where y: "os_sync_all d1 = (d2, y)" by (cases "os_sync_all d1")
  obtain d3 z where z: "os_rename t p d2 = (d3, z)" by (cases "os_rename t p d2")
  have n2: "nodes d2 = nodes d1" using y by (rule sync_all_nodes)
  from w show thesis
  proof (cases rule: write_all_cases)
    case (1 k n)
    with w assms(1) have "r = Inl (map_io_error k)" "d' = d1" by (simp_all add: fill_and_replace_def)
    with 1 show thesis by (intro that(1)) simp_all
  next
    case 2
    show thesis
    proof (cases y)
      case (Inl k)
      with 2 w y assms(1) have "r = Inl (map_io_error k)" "d' = d2"
        by (simp_all add: fill_and_replace_def)
      with 2 n2 show thesis by (intro that(1)) simp_all
    next
      case (Inr u)
      with w y z 2 assms(1) have r: "(d', r) = map_io_result (d3, z)" by (simp add: fill_and_replace_def)
      from z show thesis
      proof (cases rule: rename_cases)
        case (1 k)
        with r 2 n2 that(1) show thesis by (simp add: map_io_result_def)
      next
        case (2 b)
        with r n2 \<open>nodes d1 = _\<close> assms(2) that(2) show thesis by (simp add: map_io_result_def)
      qed
    qed
  qed
qed

section \<open>Atomic writes\<close>

text \<open>
  Whatever fails, \<open>write_atomic\<close> leaves every entry that existed alone, the target apart, and
  the target is either untouched (an error) or holds exactly the new contents (success). Only
  success creates the target, and success leaves no temporary file behind.
\<close>

lemma write_atomic_cases:
  assumes "std_write_atomic p x d = (d', r)"
  shows "case r of
           Inl e \<Rightarrow> nodes d' p = nodes d p \<and>
                   (\<forall>q n. nodes d q = Some n \<longrightarrow> nodes d' q = Some n) \<and>
                   (\<forall>q. contents d' q \<noteq> contents d q \<longrightarrow> q \<noteq> [] \<and> ends_with ''.tmp'' (last q))
         | Inr _ \<Rightarrow> nodes d' = (\<lambda>q. if q = p then Some (RegularFile x)
                                    else if is_ancestor q (path_parent p) then Some Directory
                                    else nodes d q) \<and>
                   (\<forall>q n. q \<noteq> p \<longrightarrow> nodes d q = Some n \<longrightarrow> nodes d' q = Some n)"
proof -
  let ?dirs = "\<lambda>q. if is_ancestor q (path_parent p) then Some Directory else nodes d q"
  have not_parent: "\<not> is_ancestor p (path_parent p)"
    by (cases p rule: rev_cases) (auto simp: is_ancestor_def path_parent_def dest: arg_cong [where f = length])
  obtain d1 c where c: "os_create_dir_all (path_parent p) d = (d1, c)"
    by (cases "os_create_dir_all (path_parent p) d")
  from c show ?thesis
  proof (cases rule: create_dir_all_cases)
    case (1 k)
    with c assms have "r = Inl (map_io_error k)" "d' = d1" by (simp_all add: std_write_atomic_def)
    with 1 show ?thesis by (simp add: contents_def)
  next
    case dirs: 2
    have keep: "?dirs q = Some n" if "nodes d q = Some n" for q n
      using that dirs(3) [of q] by auto
    obtain d2 t where t: "create_temporary_file 128 p d1 = (d2, t)"
      by (cases "create_temporary_file 128 p d1")
    from t show ?thesis
    proof (cases rule: create_temporary_file_cases)
      case (1 e)
      with c dirs(1) t assms have "r = Inl e" "d' = d2" by (simp_all add: std_write_atomic_def)
      moreover have "contents d2 q = contents d q" for q
        using 1(2) dirs(2) dirs(3) [of q] by (auto simp: contents_def)
      ultimately show ?thesis using 1 dirs(2) not_parent keep by simp
    next
      case (2 tmp)
      have fresh: "?dirs tmp = None" using 2(5) dirs(2) by simp
      obtain d3 w where w: "fill_and_replace tmp p x d2 = (d3, w)"
        by (cases "fill_and_replace tmp p x d2")
      from w 2(2) show ?thesis
      proof (cases rule: fill_and_replace_cases)
        case (1 e b)
        have r: "r = Inl e" and d': "d' = fst (os_remove_file tmp d3)"
          using c dirs(1) t 2(1) w 1(1) assms by (simp_all add: std_write_atomic_def)
        have "nodes d' q = ?dirs q" if "q \<noteq> tmp" for q
        proof -
          have "nodes d3 q = ?dirs q" using that 1(2) 2(6) dirs(2) by simp
          moreover have "nodes d' q = nodes d3 q"
            using d' that by (cases "os_remove_file tmp d3")
              (auto elim!: remove_file_cases [of tmp d3])
          ultimately show ?thesis by simp
        qed
        note rest = this
        have "nodes d' p = nodes d p" using rest [of p] 2(2) not_parent by simp
        moreover have "nodes d' q = Some n" if "nodes d q = Some n" for q n
          using rest [of q] keep [OF that] fresh by (cases "q = tmp") auto
        moreover have "q \<noteq> [] \<and> ends_with ''.tmp'' (last q)" if "contents d' q \<noteq> contents d q" for q
        proof (cases "q = tmp")
          case False
          then have "contents d' q = contents d q"
            using rest [of q] dirs(3) [of q] by (auto simp: contents_def)
          with that show ?thesis by simp
        qed (use 2 in simp)
        ultimately show ?thesis using r by simp
      next
        case put: 2
        have r: "r = Inr ()" and d': "d' = d3"
          using c dirs(1) t 2(1) w put(1) assms by (simp_all add: std_write_atomic_def)
        have "nodes d3 = (?dirs)(tmp := None, p \<mapsto> RegularFile x)"
          using put(2) 2(6) dirs(2) by simp
        also have "(?dirs)(tmp := None) = ?dirs" by (rule fun_upd_idem) (fact fresh)
        finally have eq: "nodes d3 = ?dirs(p \<mapsto> RegularFile x)" .
        have "nodes d3 = (\<lambda>q. if q = p then Some (RegularFile x) else ?dirs q)"
          unfolding eq by auto
        moreover have "nodes d3 q = Some n" if "q \<noteq> p" "nodes d q = Some n" for q n
          unfolding eq using that keep by simp
        ultimately show ?thesis using r d' by simp
      qed
    qed
  qed
qed

text \<open>
  C30. \<open>StdFileSystem::write_atomic\<close> is all or nothing under every schedule of failures of the
  operating system: an error leaves the target exactly as it was, success gives it exactly the
  new contents, and no entry other than the target changes or disappears.
\<close>
theorem write_all_or_nothing:
  assumes "std_write_atomic p x d = (d', r)"
  shows "contents d' p = (if r = Inr () then Some x else contents d p) \<and>
    (\<forall>q. q \<noteq> p \<and> nodes d q \<noteq> None \<longrightarrow> nodes d' q = nodes d q) \<and>
    (r = Inr () \<longrightarrow> (\<forall>q. contents d' q \<noteq> None \<longrightarrow> q = p \<or> contents d' q = contents d q))"
proof (cases r)
  case (Inl e)
  then show ?thesis using write_atomic_cases [OF assms] by (auto simp: contents_def)
next
  case (Inr u)
  then have eq: "nodes d' = (\<lambda>q. if q = p then Some (RegularFile x)
        else if is_ancestor q (path_parent p) then Some Directory else nodes d q)"
    and keep: "\<And>q n. q \<noteq> p \<Longrightarrow> nodes d q = Some n \<Longrightarrow> nodes d' q = Some n"
    using write_atomic_cases [OF assms] unfolding Inr sum.case by blast+
  have "contents d' q = contents d q" if "contents d' q \<noteq> None" "q \<noteq> p" for q
    using that by (auto simp: contents_def eq split: if_splits)
  moreover have "contents d' p = Some x" by (simp add: contents_def eq)
  ultimately show ?thesis using Inr keep by auto
qed

section \<open>The contract of an update transaction\<close>

text \<open>
  What a transaction relies on: inspecting a file changes nothing and reports its length; a
  successful move takes the whole file to a free name; a failing one changes nothing, or leaves
  the file under both names. No move overwrites a file.
\<close>

locale file_store =
  fixes file_len :: "path \<Rightarrow> 's \<Rightarrow> 's \<times> (file_system_error + nat option)"
    and move_noreplace :: "path \<Rightarrow> path \<Rightarrow> 's \<Rightarrow> 's \<times> (file_system_error + unit)"
    and view :: "'s \<Rightarrow> path \<Rightarrow> bytes option"
  assumes file_len_view: "file_len p s = (s', r) \<Longrightarrow> view s' = view s"
    and file_len_exact: "file_len p s = (s', Inr n) \<Longrightarrow> n = map_option length (view s p)"
    and move_ok: "move_noreplace a b s = (s', Inr u) \<Longrightarrow>
      a \<noteq> b \<and> view s a \<noteq> None \<and> view s b = None \<and> view s' = (view s)(a := None, b := view s a)"
    and move_err: "move_noreplace a b s = (s', Inl e) \<Longrightarrow>
      view s' = view s \<or>
      a \<noteq> b \<and> view s a \<noteq> None \<and> view s b = None \<and> view s' = (view s)(b := view s a)"

lemma contents_nodes: "nodes d' = nodes d \<Longrightarrow> contents d' = contents d"
  by (simp add: contents_def fun_eq_iff)

lemma move_noreplace_cases:
  assumes "std_move_noreplace a b d = (d', r)"
  obtains e where "r = Inl e" "contents d' = contents d"
    | e x where "r = Inl e" "a \<noteq> b" "contents d a = Some x" "contents d b = None"
        "contents d' = (contents d)(b \<mapsto> x)"
    | x where "r = Inr ()" "a \<noteq> b" "contents d a = Some x" "contents d b = None"
        "contents d' = (contents d)(a := None, b \<mapsto> x)"
proof -
  obtain d1 l where l: "os_hard_link a b d = (d1, l)" by (cases "os_hard_link a b d")
  obtain d2 m where m: "os_remove_file a d1 = (d2, m)" by (cases "os_remove_file a d1")
  obtain d3 n where n: "os_remove_file b d2 = (d3, n)" by (cases "os_remove_file b d2")
  from l show thesis
  proof (cases rule: hard_link_cases)
    case (1 k)
    with l assms have "r = Inl (map_io_error k)" "d' = d1" by (simp_all add: std_move_noreplace_def)
    moreover from this 1 have "contents d' = contents d" by (intro contents_nodes) simp
    ultimately show thesis by (intro that(1))
  next
    case link: (2 x)
    have ab: "a \<noteq> b" and a: "contents d a = Some x" and b: "contents d b = None"
      using link by (auto simp: contents_def)
    have d1: "contents d1 = (contents d)(b \<mapsto> x)" using link(4) by (auto simp: contents_def)
    from m show thesis
    proof (cases rule: remove_file_cases)
      case (1 k)
      have r: "r = Inl (map_io_error k)" "d' = d3"
        using l m n link 1 assms by (simp_all add: std_move_noreplace_def)
      from n show thesis
      proof (cases rule: remove_file_cases)
        case (1 k)
        with \<open>nodes d2 = nodes d1\<close> have "contents d3 = contents d1" by (intro contents_nodes) simp
        with r d1 ab a b show thesis by (intro that(2)) simp_all
      next
        case (2 y)
        have "nodes d3 = nodes d" using 2(3) \<open>nodes d2 = nodes d1\<close> link(3,4) by auto
        then have "contents d3 = contents d" by (rule contents_nodes)
        with r show thesis by (intro that(1)) simp_all
      qed
    next
      case (2 y)
      have r: "r = Inr ()" "d' = d2" using l m link 2(1) assms by (simp_all add: std_move_noreplace_def)
      have "contents d2 = (contents d1)(a := None)" using 2(3) by (auto simp: contents_def)
      with d1 ab have "contents d2 = (contents d)(a := None, b \<mapsto> x)" by (simp add: fun_upd_twist)
      with r ab a b show thesis by (intro that(3)) simp_all
    qed
  qed
qed

lemma std_file_len_cases:
  assumes "std_file_len p d = (d', r)"
  shows "contents d' = contents d" and "r = Inr n \<Longrightarrow> n = map_option length (contents d p)"
proof -
  obtain d1 m where m: "os_metadata p d = (d1, m)" by (cases "os_metadata p d")
  have nodes: "nodes d1 = nodes d"
    using m by (auto simp: os_metadata_def split: prod.splits option.splits node.splits)
  have exact: "m = Inr (Some len) \<Longrightarrow> map_option length (contents d p) = Some len" for len
    using m by (auto simp: os_metadata_def contents_def
        split: prod.splits option.splits node.splits)
  have absent: "m = Inl IoNotFound \<Longrightarrow> contents d p = None"
    using m by (auto simp: os_metadata_def contents_def
        split: prod.splits option.splits node.splits)
  have d': "d' = d1" using assms m by (auto simp: std_file_len_def split: sum.splits option.splits)
  show "contents d' = contents d" unfolding d' using nodes by (rule contents_nodes)
  show "n = map_option length (contents d p)" if r: "r = Inr n"
  proof (cases m)
    case (Inl k)
    with assms m r have "k = IoNotFound" "n = None"
      by (auto simp: std_file_len_def split: if_splits)
    with Inl absent show ?thesis by simp
  next
    case (Inr l)
    with assms m r obtain len where "l = Some len" "n = Some len"
      by (auto simp: std_file_len_def split: option.splits)
    with Inr exact [of len] show ?thesis by auto
  qed
qed

text \<open>
  A bounded read is exact, and never returns more than the bound. (The largest bound is left out:
  the code reads one byte more than the bound to notice a longer file.)
\<close>

lemma read_take_whole:
  assumes "os_read_take x (unat (saturating_add limit 1)) d = (d', Inr z)"
    and "length z \<le> unat limit" and "limit \<noteq> - 1"
  shows "z = x"
proof -
  have "z = take (unat (saturating_add limit 1)) x"
    using assms(1) by (auto simp: os_read_take_def split: prod.splits option.splits)
  moreover have "unat limit < unat (saturating_add limit 1)"
    using saturating_add_strict [OF assms(3)] by (simp add: word_less_nat_alt)
  ultimately show ?thesis using assms(2) by auto
qed

lemma std_read_bounded_cases:
  assumes "std_read_bounded p limit d = (d', r)" and "limit \<noteq> - 1"
  shows "nodes d' = nodes d \<and>
    (\<forall>b. r = Inr b \<longrightarrow> b = contents d p \<and> (\<forall>x. b = Some x \<longrightarrow> length x \<le> unat limit))"
proof -
  obtain d1 h where h: "os_open p d = (d1, h)" by (cases "os_open p d")
  have n1: "nodes d1 = nodes d"
    using h by (auto simp: os_open_def split: prod.splits option.splits node.splits)
  have absent: "h = Inl IoNotFound \<Longrightarrow> contents d p = None"
    and present: "h = Inr x \<Longrightarrow> contents d p = Some x" for x
    using h by (auto simp: os_open_def contents_def split: prod.splits option.splits node.splits)
  show ?thesis
  proof (cases h)
    case (Inl k)
    with assms h n1 absent show ?thesis by (auto simp: std_read_bounded_def split: if_splits)
  next
    case (Inr x)
    obtain d2 m where m: "os_handle_length x d1 = (d2, m)" by (cases "os_handle_length x d1")
    obtain d3 y where y: "os_read_take x (unat (saturating_add limit 1)) d2 = (d3, y)"
      by (cases "os_read_take x (unat (saturating_add limit 1)) d2")
    have n3: "nodes d2 = nodes d" "nodes d3 = nodes d"
      using n1 m y by (auto simp: os_handle_length_def os_read_take_def split: prod.splits option.splits)
    have whole: "y = Inr z \<Longrightarrow> length z \<le> unat limit \<Longrightarrow> contents d p = Some z" for z
      using read_take_whole [of x limit d2 d3 z] y assms(2) present [OF Inr] by simp
    show ?thesis
    proof (cases "case m of Inr len \<Rightarrow> unat limit < len | Inl _ \<Rightarrow> False")
      case True
      then have "d' = d2 \<and> r = Inl FsLimitExceeded"
        using assms(1) h Inr m by (simp add: std_read_bounded_def)
      with n3 show ?thesis by simp
    next
      case False
      then have "(d', r) = (case y of Inl k \<Rightarrow> (d3, Inl (map_io_error k))
          | Inr b \<Rightarrow> if unat limit < length b then (d3, Inl FsLimitExceeded) else (d3, Inr (Some b)))"
        using assms(1) h Inr m y by (simp add: std_read_bounded_def)
      then show ?thesis using n3 whole by (auto split: sum.splits if_splits)
    qed
  qed
qed

interpretation std: file_store std_file_len std_move_noreplace contents
proof
  show "\<And>p s s' r. std_file_len p s = (s', r) \<Longrightarrow> contents s' = contents s"
    by (rule std_file_len_cases(1))
  show "\<And>p s s' n. std_file_len p s = (s', Inr n) \<Longrightarrow> n = map_option length (contents s p)"
    by (rule std_file_len_cases(2)) auto
  show "\<And>a b s s' u. std_move_noreplace a b s = (s', Inr u) \<Longrightarrow>
      a \<noteq> b \<and> contents s a \<noteq> None \<and> contents s b = None \<and>
      contents s' = (contents s)(a := None, b := contents s a)"
    by (erule move_noreplace_cases) simp_all
  show "\<And>a b s s' e. std_move_noreplace a b s = (s', Inl e) \<Longrightarrow>
      contents s' = contents s \<or>
      a \<noteq> b \<and> contents s a \<noteq> None \<and> contents s b = None \<and>
      contents s' = (contents s)(b := contents s a)"
    by (erule move_noreplace_cases) simp_all
qed

section \<open>Examples\<close>

definition demo_disk :: "os_fault option list \<Rightarrow> disk" where
  "demo_disk fs =
     \<lparr>nodes = [[''a''] \<mapsto> Directory, [''a'', ''b''] \<mapsto> RegularFile [1, 2], [''c''] \<mapsto> RegularFile [9]],
      temp_file_sequence = 7, faults = fs\<rparr>"

definition denied :: "os_fault option" where
  "denied = Some \<lparr>failure = FailDenied, torn_bytes = 0, removed_first = []\<rparr>"

lemma demo_write:
  "snd (std_write_atomic [''a'', ''b''] [3] (demo_disk [None, None, None, None, denied])) =
     Inl FsPermissionDenied"
  by (simp add: std_write_atomic_def fill_and_replace_def os_call_defs os_create_dir_all_def
      path_parent_def is_ancestor_def next_fault_def demo_disk_def denied_def fault_kind_def
      put_node_def map_io_result_def map_io_error_def eval_nat_numeral Let_def temporary_path_def)

lemma write_all_or_nothing_witness:
  "contents (fst (std_write_atomic [''a'', ''b''] [3] (demo_disk [None, None, None, None, denied])))
     [''a'', ''b''] = Some [1, 2]"
proof -
  let ?d = "demo_disk [None, None, None, None, denied]"
  have "std_write_atomic [''a'', ''b''] [3] ?d =
      (fst (std_write_atomic [''a'', ''b''] [3] ?d), Inl FsPermissionDenied)"
    by (simp add: prod_eq_iff demo_write)
  from conjunct1 [OF write_all_or_nothing [OF this]] show ?thesis
    by (simp add: contents_def [of ?d]) (simp add: demo_disk_def)
qed

end
