(* ===== verification/Network_Url.thy ===== *)
theory Network_Url
  imports Network_Files
begin

text \<open>
  The request half of \<open>nexus-network/src/http.rs\<close>: origins and targets, the validation every
  request goes through, the responses of the transport and of the client. Text is ASCII.
\<close>

datatype request_error = InvalidBaseUrl | InvalidEndpoint | InvalidParameters

datatype base_url = BaseUrl (base_as_str: string)

section \<open>Origins\<close>

definition authority_end :: "char \<Rightarrow> bool" where
  "authority_end c \<longleftrightarrow> c \<in> {CHR ''/'', CHR ''?'', CHR ''#''}"

definition bad_authority :: "string \<Rightarrow> bool" where
  "bad_authority a \<longleftrightarrow>
     a = [] \<or> CHR ''@'' \<in> set a \<or> list_ex is_whitespace a \<or> list_ex is_control a"

definition base_url_parse :: "string \<Rightarrow> request_error + base_url" where
  "base_url_parse v =
     (case split_once ''://'' v of
        None \<Rightarrow> Inl InvalidBaseUrl
      | Some (scheme, remainder) \<Rightarrow>
          let scheme = to_ascii_lowercase scheme
          in if scheme \<noteq> ''http'' \<and> scheme \<noteq> ''https'' then Inl InvalidBaseUrl
             else let authority = takeWhile (\<lambda>c. \<not> authority_end c) remainder
                  in if bad_authority authority then Inl InvalidBaseUrl
                     else Inr (BaseUrl (scheme @ ''://'' @ authority)))"

section \<open>Targets\<close>

definition line_break :: "char \<Rightarrow> bool" where
  "line_break c \<longleftrightarrow> c \<in> {CHR 0x0D, CHR 0x0A}"

definition validate_target :: "string \<Rightarrow> request_error + unit" where
  "validate_target target =
     (if \<not> starts_with ''/'' target \<or> contains_text ''://'' target \<or> CHR ''#'' \<in> set target \<or>
         list_ex line_break target
      then Inl InvalidEndpoint else Inr ())"

definition split_absolute :: "string \<Rightarrow> request_error + base_url \<times> string" where
  "split_absolute v =
     (if CHR ''#'' \<in> set v \<or> list_ex line_break v then Inl InvalidEndpoint
      else case base_url_parse v of
        Inl e \<Rightarrow> Inl e
      | Inr base \<Rightarrow>
          let remainder = drop (length (base_as_str base)) v;
              target = (if remainder = [] then ''/''
                        else if starts_with ''?'' remainder then CHR ''/'' # remainder
                        else remainder)
          in case validate_target target of Inl e \<Rightarrow> Inl e | Inr _ \<Rightarrow> Inr (base, target))"

definition build_target :: "string \<Rightarrow> string \<Rightarrow> request_error + string" where
  "build_target endpoint parameters =
     (case validate_target endpoint of
        Inl e \<Rightarrow> Inl e
      | Inr _ \<Rightarrow>
          if list_ex (\<lambda>c. line_break c \<or> c = CHR ''#'') parameters then Inl InvalidParameters
          else if parameters = [] then Inr endpoint
          else Inr (endpoint @ (if CHR ''?'' \<in> set endpoint then ''&'' else ''?'') @ parameters))"

record http_request =
  request_base_url :: base_url
  request_target :: string
  request_absolute_url :: string

definition http_request_new :: "base_url \<Rightarrow> string \<Rightarrow> request_error + http_request" where
  "http_request_new base target =
     (case validate_target target of
        Inl e \<Rightarrow> Inl e
      | Inr _ \<Rightarrow> Inr \<lparr>request_base_url = base, request_target = target,
                      request_absolute_url = base_as_str base @ target\<rparr>)"

section \<open>Responses\<close>

record transport_response =
  raw_status_code :: u16
  raw_content_length :: "u64 option"
  raw_body :: bytes

datatype transport_error = RequestFailed | TransportBodyTooLarge | InvalidResponse

datatype client_error =
  ClientInvalidRequest | ClientTransport | ClientBodyTooLarge | ClientContentLengthMismatch
  | ClientInvalidStatus

text \<open>An \<open>i64\<close> time stamp is an integer.\<close>

record http_response =
  resp_time :: int
  resp_status_code :: u16
  resp_body :: bytes
  resp_from_cache :: bool

definition is_success :: "http_response \<Rightarrow> bool" where
  "is_success r \<longleftrightarrow> resp_status_code r < 400"

text \<open>\<open>usize_to_u64\<close> of a body's length, which is below \<open>2 ^ 64\<close>.\<close>

definition body_length :: "bytes \<Rightarrow> u64" where
  "body_length b = of_nat (length b)"

definition validate_response :: "transport_response \<Rightarrow> usize \<Rightarrow> client_error + unit" where
  "validate_response raw max_bytes =
     (if \<not> (100 \<le> raw_status_code raw \<and> raw_status_code raw \<le> 599) then Inl ClientInvalidStatus
      else if unat max_bytes < length (raw_body raw) then Inl ClientBodyTooLarge
      else case raw_content_length raw of
        Some declared \<Rightarrow>
          if declared \<noteq> body_length (raw_body raw) then Inl ClientContentLengthMismatch else Inr ()
      | None \<Rightarrow> Inr ())"

definition map_transport_error :: "transport_error \<Rightarrow> client_error" where
  "map_transport_error e =
     (case e of
        TransportBodyTooLarge \<Rightarrow> ClientBodyTooLarge
      | RequestFailed \<Rightarrow> ClientTransport
      | InvalidResponse \<Rightarrow> ClientTransport)"

section \<open>Laws\<close>

lemma drop_length_append: "drop (length xs) (xs @ ys) = ys"
  by simp

lemma base_url_parse_shape:
  assumes "base_url_parse v = Inr b"
  obtains raw scheme auth tail where "v = raw @ ''://'' @ auth @ tail"
    "to_ascii_lowercase raw = scheme" "scheme = ''http'' \<or> scheme = ''https''"
    "b = BaseUrl (scheme @ ''://'' @ auth)" "\<not> bad_authority auth"
    "\<forall>c \<in> set auth. \<not> authority_end c" "tail = [] \<or> authority_end (hd tail)"
proof -
  from assms obtain raw rest where s: "split_once ''://'' v = Some (raw, rest)"
    by (auto simp: base_url_parse_def split: option.splits)
  let ?auth = "takeWhile (\<lambda>c. \<not> authority_end c) rest"
  let ?tail = "dropWhile (\<lambda>c. \<not> authority_end c) rest"
  have "v = raw @ ''://'' @ ?auth @ ?tail" using split_once_Some [OF s] by simp
  moreover have "\<forall>c \<in> set ?auth. \<not> authority_end c" by (auto dest: set_takeWhileD)
  moreover have "?tail = [] \<or> authority_end (hd ?tail)"
    using hd_dropWhile [of "\<lambda>c. \<not> authority_end c" rest] by blast
  ultimately show thesis
    using assms s that [of raw ?auth ?tail "to_ascii_lowercase raw"]
    by (auto simp: base_url_parse_def Let_def split: if_splits)
qed

lemma validate_target_iff:
  "validate_target t = Inr () \<longleftrightarrow>
     starts_with ''/'' t \<and> \<not> contains_text ''://'' t \<and> CHR ''#'' \<notin> set t \<and> \<not> list_ex line_break t"
  by (simp add: validate_target_def)

lemma split_scheme:
  assumes "scheme = ''http'' \<or> scheme = ''https''"
  shows "split_once ''://'' (scheme @ ''://'' @ s) = Some (scheme, s)"
    and "to_ascii_lowercase scheme = scheme" and "CHR ''#'' \<notin> set scheme"
    and "\<not> list_ex line_break scheme"
  using assms
  by (auto simp: starts_with_def line_break_def)
    (auto simp: to_ascii_lowercase_def ascii_lower_char_def)

lemma base_url_parse_normal:
  assumes "scheme = ''http'' \<or> scheme = ''https''" and "\<not> bad_authority auth"
    and "\<forall>c \<in> set auth. \<not> authority_end c" and "starts_with ''/'' target"
  shows "base_url_parse (scheme @ ''://'' @ auth @ target) = Inr (BaseUrl (scheme @ ''://'' @ auth))"
proof -
  obtain rest where t: "target = CHR ''/'' # rest" using assms(4) by (auto simp: starts_with_iff)
  have "takeWhile (\<lambda>c. \<not> authority_end c) (auth @ target) = auth"
    using assms(3) t by (simp add: takeWhile_append2 authority_end_def)
  with assms(1,2) split_scheme [OF assms(1)] show ?thesis
    by (auto simp: base_url_parse_def Let_def)
qed

text \<open>
  Splitting an absolute URL normalises it: an accepted URL names an \<open>http\<close> or \<open>https\<close> origin
  without credentials, the target is relative to that origin and cannot name another one, and
  the rebuilt URL splits into the same origin and target again.
\<close>
theorem url_normalisation:
  assumes "split_absolute v = Inr (base, target)"
  shows "split_absolute (base_as_str base @ target) = Inr (base, target) \<and>
    validate_target target = Inr () \<and>
    (\<exists>scheme auth. base_as_str base = scheme @ ''://'' @ auth \<and>
       scheme \<in> {''http'', ''https''} \<and> auth \<noteq> [] \<and>
       set auth \<inter> {CHR ''@'', CHR ''/'', CHR ''?'', CHR ''#'', CHR '' ''} = {})"
proof -
  from assms have v: "CHR ''#'' \<notin> set v" "\<not> list_ex line_break v" and b: "base_url_parse v = Inr base"
    by (auto simp: split_absolute_def Let_def split: if_splits sum.splits)
  from assms have t: "validate_target target = Inr ()"
    by (auto simp: split_absolute_def Let_def split: if_splits sum.splits)
  from b obtain raw scheme auth tail where shape: "v = raw @ ''://'' @ auth @ tail"
    "to_ascii_lowercase raw = scheme" "scheme = ''http'' \<or> scheme = ''https''"
    "base = BaseUrl (scheme @ ''://'' @ auth)" "\<not> bad_authority auth"
    "\<forall>c \<in> set auth. \<not> authority_end c" "tail = [] \<or> authority_end (hd tail)"
    by (rule base_url_parse_shape)
  let ?u = "scheme @ ''://'' @ auth @ target"
  from t have target: "starts_with ''/'' target" "CHR ''#'' \<notin> set target" "\<not> list_ex line_break target"
    by (simp_all add: validate_target_iff)
  have "CHR ''#'' \<notin> set ?u" "\<not> list_ex line_break ?u"
    using v target split_scheme(3,4) [OF shape(3)] shape(1)
    by (auto simp: line_break_def)
  moreover have "base_url_parse ?u = Inr base"
    using base_url_parse_normal [OF shape(3,5,6) target(1)] shape(4) by simp
  moreover have "drop (length (base_as_str base)) ?u = target"
    using drop_length_append [of "scheme @ ''://'' @ auth" target] shape(4)
    by (simp only: base_url.sel append_assoc)
  moreover have "target \<noteq> []" "\<not> starts_with ''?'' target"
    using target(1) by (auto simp: starts_with_iff)
  ultimately have "split_absolute ?u = Inr (base, target)"
    using t by (simp add: split_absolute_def)
  moreover have "auth \<noteq> [] \<and> set auth \<inter> {CHR ''@'', CHR ''/'', CHR ''?'', CHR ''#'', CHR '' ''} = {}"
  proof -
    have "authority_end CHR ''/''" "authority_end CHR ''?''" "authority_end CHR ''#''"
      by (simp_all add: authority_end_def)
    moreover have "is_whitespace CHR '' ''" by (simp add: is_whitespace_def)
    moreover have "auth \<noteq> []" "CHR ''@'' \<notin> set auth" "\<forall>c \<in> set auth. \<not> is_whitespace c"
      using shape(5) unfolding bad_authority_def list_ex_iff by blast+
    ultimately show ?thesis using shape(6) by blast
  qed
  ultimately show ?thesis using shape(3,4) t by auto
qed

lemma demo_split:
  "split_absolute ''HTTPS://h.test?x=1'' = Inr (BaseUrl ''https://h.test'', ''/?x=1'')"
  by code_simp

lemma url_normalisation_witness:
  "split_absolute ''https://h.test/?x=1'' = Inr (BaseUrl ''https://h.test'', ''/?x=1'')"
  using url_normalisation [OF demo_split] by simp

end
