(* ===== verification/Network_Cache.thy ===== *)
theory Network_Cache
  imports Network_Url
begin

text \<open>
  \<open>nexus-network/src/cache.rs\<close>: the HTTP response cache with memory-first lookup and persistent
  backing. A store is the record of the four operations of the trait \<open>CacheStore\<close>, each on the
  store's state; the in-memory and the directory store are instances. SHA-256 and the JSON
  encoding of a record are libraries of others, so they are arguments (\<open>http_libraries\<close>). The
  text of a record is the list of its bytes, a time an integer in the range of \<open>i64\<close>.

  The locale \<open>cache_backing\<close> says what the cache needs of a store; both stores satisfy it.
\<close>

unbundle bit_operations_syntax

section \<open>Stores\<close>

datatype cache_store_error = EntryTooLarge | StoreOperationFailed

definition store_error_from :: "file_system_error \<Rightarrow> cache_store_error" where
  "store_error_from e = (if e = FsLimitExceeded then EntryTooLarge else StoreOperationFailed)"

definition map_store_result :: "'s \<times> (file_system_error + 'a) \<Rightarrow> 's \<times> (cache_store_error + 'a)" where
  "map_store_result sr =
     (case sr of (s, Inl e) \<Rightarrow> (s, Inl (store_error_from e)) | (s, Inr x) \<Rightarrow> (s, Inr x))"

record 's cache_store =
  store_load :: "string \<Rightarrow> usize \<Rightarrow> 's \<Rightarrow> 's \<times> (cache_store_error + bytes option)"
  store_put :: "string \<Rightarrow> bytes \<Rightarrow> 's \<Rightarrow> 's \<times> (cache_store_error + unit)"
  store_remove :: "string \<Rightarrow> 's \<Rightarrow> 's \<times> (cache_store_error + unit)"
  store_clear :: "'s \<Rightarrow> 's \<times> (cache_store_error + unit)"

definition null_store :: "unit cache_store" where
  "null_store =
     \<lparr>store_load = \<lambda>key limit s. (s, Inr None), store_put = \<lambda>key value s. (s, Inr ()),
      store_remove = \<lambda>key s. (s, Inr ()), store_clear = \<lambda>s. (s, Inr ())\<rparr>"

type_synonym memory_entries = "string \<Rightarrow> bytes option"

definition memory_load ::
  "string \<Rightarrow> usize \<Rightarrow> memory_entries \<Rightarrow> memory_entries \<times> (cache_store_error + bytes option)" where
  "memory_load key limit m =
     (case m key of
        None \<Rightarrow> (m, Inr None)
      | Some value \<Rightarrow>
          if unat limit < length value then (m, Inl EntryTooLarge) else (m, Inr (Some value)))"

definition memory_store :: "memory_entries cache_store" where
  "memory_store =
     \<lparr>store_load = memory_load, store_put = \<lambda>key value m. (m(key \<mapsto> value), Inr ()),
      store_remove = \<lambda>key m. (m(key := None), Inr ()), store_clear = \<lambda>m. (\<lambda>_. None, Inr ())\<rparr>"

definition entry_path :: "path \<Rightarrow> string \<Rightarrow> path" where
  "entry_path directory key = directory @ [key]"

definition directory_clear :: "path \<Rightarrow> disk \<Rightarrow> disk \<times> (cache_store_error + unit)" where
  "directory_clear directory d =
     (case map_store_result (std_remove_dir_all directory d) of
        (d, Inl e) \<Rightarrow> (d, Inl e)
      | (d, Inr _) \<Rightarrow> map_store_result (std_create_dir_all directory d))"

definition directory_store :: "path \<Rightarrow> disk cache_store" where
  "directory_store directory =
     \<lparr>store_load = \<lambda>key limit d. map_store_result (std_read_bounded (entry_path directory key) limit d),
      store_put = \<lambda>key value d. map_store_result (std_write_atomic (entry_path directory key) value d),
      store_remove = \<lambda>key d. map_store_result (std_remove_file (entry_path directory key) d),
      store_clear = directory_clear directory\<rparr>"

section \<open>Records\<close>

record duration =
  dur_secs :: u64
  dur_nanos :: u32

definition duration_is_zero :: "duration \<Rightarrow> bool" where
  "duration_is_zero t \<longleftrightarrow> dur_secs t = 0 \<and> dur_nanos t = 0"

datatype cache_policy = DefaultPolicy | MaxAge duration

datatype cache_error = CacheStorage | CacheNonUtf8Body | CacheEncoding

record cache_record =
  rec_time :: int
  rec_status_code :: u16
  rec_error :: bytes
  rec_content :: bytes

definition i64_saturating_sub :: "int \<Rightarrow> int \<Rightarrow> int" where
  "i64_saturating_sub a b = max (- (2 ^ 63)) (min (2 ^ 63 - 1) (a - b))"

definition is_fresh :: "cache_record \<Rightarrow> int \<Rightarrow> duration \<Rightarrow> bool" where
  "is_fresh r now max_age \<longleftrightarrow>
     (if rec_error r \<noteq> [] \<or> 400 \<le> rec_status_code r \<or> now < rec_time r then False
      else let age = i64_saturating_sub now (rec_time r)
           in 0 \<le> age \<and> nat age < unat (dur_secs max_age))"

definition into_response :: "cache_record \<Rightarrow> bool \<Rightarrow> http_response" where
  "into_response r from_cache =
     \<lparr>resp_time = rec_time r, resp_status_code = rec_status_code r, resp_body = rec_content r,
      resp_from_cache = from_cache\<rparr>"

section \<open>The cache\<close>

record http_libraries =
  sha256 :: "string \<Rightarrow> bytes"
  encode_record :: "cache_record \<Rightarrow> bytes option"
  decode_record :: "bytes \<Rightarrow> cache_record option"

definition hex_pair :: "u8 \<Rightarrow> string" where
  "hex_pair b = [lower_hex_digit (unat (drop_bit 4 b)), lower_hex_digit (unat (b AND 0x0F))]"

definition cache_key_for_query :: "http_libraries \<Rightarrow> string \<Rightarrow> string" where
  "cache_key_for_query lib query = concat (map hex_pair (sha256 lib query)) @ ''.json''"

record 's http_cache =
  cache_entries :: "string \<Rightarrow> cache_record option"
  cache_store_state :: 's
  default_max_age :: duration
  max_record_bytes :: usize

definition DEFAULT_MAX_RECORD_BYTES :: usize where
  "DEFAULT_MAX_RECORD_BYTES = 8 * 1024 * 1024"

definition http_cache_new :: "'s \<Rightarrow> duration \<Rightarrow> 's http_cache" where
  "http_cache_new s max_age =
     \<lparr>cache_entries = \<lambda>_. None, cache_store_state = s, default_max_age = max_age,
      max_record_bytes = DEFAULT_MAX_RECORD_BYTES\<rparr>"

definition with_max_record_bytes :: "'s http_cache \<Rightarrow> usize \<Rightarrow> 's http_cache" where
  "with_max_record_bytes c n = c\<lparr>max_record_bytes := max n 1\<rparr>"

definition forget_entry :: "string \<Rightarrow> 's http_cache \<Rightarrow> 's http_cache" where
  "forget_entry query c = c\<lparr>cache_entries := (cache_entries c)(query := None)\<rparr>"

text \<open>\<open>self.store.remove(&key).map_err(..)?; return Ok(None)\<close>.\<close>

definition drop_stored ::
  "'s cache_store \<Rightarrow> string \<Rightarrow> 's http_cache \<Rightarrow> 's http_cache \<times> (cache_error + http_response option)" where
  "drop_stored ops key c =
     (case store_remove ops key (cache_store_state c) of
        (s, Inl _) \<Rightarrow> (c\<lparr>cache_store_state := s\<rparr>, Inl CacheStorage)
      | (s, Inr _) \<Rightarrow> (c\<lparr>cache_store_state := s\<rparr>, Inr None))"

definition policy_max_age :: "'s http_cache \<Rightarrow> cache_policy \<Rightarrow> duration" where
  "policy_max_age c policy = (case policy of DefaultPolicy \<Rightarrow> default_max_age c | MaxAge t \<Rightarrow> t)"

text \<open>The second half of \<open>lookup\<close>: nothing in memory, ask the store.\<close>

definition lookup_stored ::
  "'s cache_store \<Rightarrow> http_libraries \<Rightarrow> string \<Rightarrow> int \<Rightarrow> duration \<Rightarrow> 's http_cache \<Rightarrow>
     's http_cache \<times> (cache_error + http_response option)" where
  "lookup_stored ops lib query now max_age c =
     (let key = cache_key_for_query lib query
      in case store_load ops key (max_record_bytes c) (cache_store_state c) of
           (s, Inl _) \<Rightarrow> (c\<lparr>cache_store_state := s\<rparr>, Inl CacheStorage)
         | (s, Inr None) \<Rightarrow> (c\<lparr>cache_store_state := s\<rparr>, Inr None)
         | (s, Inr (Some encoded)) \<Rightarrow>
             let c = c\<lparr>cache_store_state := s\<rparr>
             in case decode_record lib encoded of
                  None \<Rightarrow> drop_stored ops key c
                | Some r \<Rightarrow>
                    if \<not> is_fresh r now max_age then drop_stored ops key c
                    else (c\<lparr>cache_entries := (cache_entries c)(query \<mapsto> r)\<rparr>,
                          Inr (Some (into_response r True))))"

definition cache_lookup ::
  "'s cache_store \<Rightarrow> http_libraries \<Rightarrow> string \<Rightarrow> int \<Rightarrow> cache_policy \<Rightarrow> 's http_cache \<Rightarrow>
     's http_cache \<times> (cache_error + http_response option)" where
  "cache_lookup ops lib query now policy c =
     (let max_age = policy_max_age c policy;
          key = cache_key_for_query lib query
      in if duration_is_zero max_age then drop_stored ops key (forget_entry query c)
         else case cache_entries c query of
           Some r \<Rightarrow>
             if is_fresh r now max_age then (c, Inr (Some (into_response r True)))
             else drop_stored ops key (forget_entry query c)
         | None \<Rightarrow> lookup_stored ops lib query now max_age c)"

definition cache_store_response ::
  "'s cache_store \<Rightarrow> http_libraries \<Rightarrow> string \<Rightarrow> http_response \<Rightarrow> 's http_cache \<Rightarrow>
     's http_cache \<times> (cache_error + unit)" where
  "cache_store_response ops lib query response c =
     (if \<not> is_success response then (c, Inr ())
      else if \<not> utf8_valid (resp_body response) then (c, Inl CacheNonUtf8Body)
      else
        let r = \<lparr>rec_time = resp_time response, rec_status_code = resp_status_code response,
                 rec_error = [], rec_content = resp_body response\<rparr>
        in case encode_record lib r of
             None \<Rightarrow> (c, Inl CacheEncoding)
           | Some encoded \<Rightarrow>
               if unat (max_record_bytes c) < length encoded then (c, Inl CacheEncoding)
               else case store_put ops (cache_key_for_query lib query) encoded (cache_store_state c) of
                 (s, Inl _) \<Rightarrow> (c\<lparr>cache_store_state := s\<rparr>, Inl CacheStorage)
               | (s, Inr _) \<Rightarrow>
                   (c\<lparr>cache_store_state := s, cache_entries := (cache_entries c)(query \<mapsto> r)\<rparr>, Inr ()))"

definition cache_flush ::
  "'s cache_store \<Rightarrow> bool \<Rightarrow> 's http_cache \<Rightarrow> 's http_cache \<times> (cache_error + unit)" where
  "cache_flush ops clear_persistent c =
     (let c = c\<lparr>cache_entries := \<lambda>_. None\<rparr>
      in if clear_persistent then
           case store_clear ops (cache_store_state c) of
             (s, Inl _) \<Rightarrow> (c\<lparr>cache_store_state := s\<rparr>, Inl CacheStorage)
           | (s, Inr _) \<Rightarrow> (c\<lparr>cache_store_state := s\<rparr>, Inr ())
         else (c, Inr ()))"

section \<open>Legacy file names\<close>

definition replace_char :: "char \<Rightarrow> string \<Rightarrow> string \<Rightarrow> string" where
  "replace_char c t s = concat (map (\<lambda>x. if x = c then t else [x]) s)"

definition legacy_normalize_query :: "string \<Rightarrow> string" where
  "legacy_normalize_query query =
     (let query = (case strip_prefix ''/'' query of Some q \<Rightarrow> q | None \<Rightarrow> query)
      in replace_char CHR ''/'' [CHR 0x5C]
        (replace_char CHR ''|'' ''{pipe}''
        (replace_char CHR ''>'' ''{gt}''
        (replace_char CHR ''<'' ''{lt}''
        (replace_char CHR 0x22 ''{quot}''
        (replace_char CHR ''?'' ''{qst}''
        (replace_char CHR ''*'' ''{ast}''
        (replace_char CHR '':'' ''{col}'' query))))))))"

section \<open>Keys identify digests\<close>

lemma lower_hex_digit_code:
  "n < 16 \<Longrightarrow> code_of (lower_hex_digit n) = (if n < 10 then n + 48 else n + 87)"
  by (simp add: lower_hex_digit_def)

lemma lower_hex_digit_inject:
  assumes "lower_hex_digit m = lower_hex_digit n" and "m < 16" and "n < 16"
  shows "m = n"
proof -
  have "code_of (lower_hex_digit m) = (code_of (lower_hex_digit n) :: nat)" using assms(1) by simp
  then show ?thesis using assms(2,3) by (simp add: lower_hex_digit_code split: if_splits)
qed

lemma hex_pair_digits:
  "unat (drop_bit 4 b) = unat b div 16" "unat (b AND 0x0F) = unat b mod 16" for b :: u8
proof -
  show "unat (drop_bit 4 b) = unat b div 16" by (subst unat_drop_bit_eq) (simp add: drop_bit_eq_div)
  have "unat (b AND 0x0F) = unat b AND unat (0x0F :: u8)" by (rule unsigned_and_eq)
  also have "unat (0x0F :: u8) = mask 4" by (simp add: mask_eq_exp_minus_1)
  also have "unat b AND mask 4 = unat b mod 16" by (simp flip: take_bit_eq_mask add: take_bit_eq_mod)
  finally show "unat (b AND 0x0F) = unat b mod 16" .
qed

lemma hex_pair_inject: "hex_pair a = hex_pair b \<Longrightarrow> a = b"
proof -
  assume eq: "hex_pair a = hex_pair b"
  have lt: "unat x div 16 < 16" "unat x mod 16 < 16" for x :: u8
  proof -
    have "unat x < 2 ^ LENGTH(8)" by (rule unsigned_less)
    then show "unat x div 16 < 16" "unat x mod 16 < 16" by (simp_all add: less_mult_imp_div_less)
  qed
  from eq have "unat a div 16 = unat b div 16" "unat a mod 16 = unat b mod 16"
    using lower_hex_digit_inject lt by (auto simp: hex_pair_def hex_pair_digits)
  then have "unat a = unat b" by (metis div_mult_mod_eq)
  then show "a = b" by (rule unsigned_word_eqI)
qed

lemma length_hex_pair [simp]: "length (hex_pair b) = 2"
  by (simp add: hex_pair_def)

lemma hex_pairs_inject: "concat (map hex_pair xs) = concat (map hex_pair ys) \<Longrightarrow> xs = ys"
proof (induction xs arbitrary: ys)
  case Nil
  then show ?case by (cases ys) (simp_all add: hex_pair_def)
next
  case (Cons x xs)
  then obtain y ys' where ys: "ys = y # ys'" by (cases ys) (simp_all add: hex_pair_def)
  with Cons.prems have "hex_pair x = hex_pair y \<and> concat (map hex_pair xs) = concat (map hex_pair ys')"
    by simp
  with Cons.IH hex_pair_inject ys show ?case by blast
qed

lemma cache_key_inject:
  "cache_key_for_query lib q = cache_key_for_query lib q' \<Longrightarrow> sha256 lib q = sha256 lib q'"
  using hex_pairs_inject by (simp add: cache_key_for_query_def)

definition record_file :: "string \<Rightarrow> bool" where
  "record_file k \<longleftrightarrow> ends_with ''.json'' k"

lemma cache_key_record_file [simp]: "record_file (cache_key_for_query lib q)"
  by (simp add: record_file_def cache_key_for_query_def ends_with_def starts_with_def)

section \<open>The contract of a store\<close>

text \<open>
  On the names the cache uses, a store never invents contents: what it holds for a key is what
  was put there, or nothing; a removal that reports success did remove. (The largest bound is
  left out, see \<open>read_take_whole\<close>.)
\<close>

locale cache_backing =
  fixes ops :: "'s cache_store" and backing :: "'s \<Rightarrow> string \<Rightarrow> bytes option"
  assumes load_keeps: "store_load ops k limit s = (s', r) \<Longrightarrow> limit \<noteq> - 1 \<Longrightarrow> backing s' = backing s"
    and load_exact: "store_load ops k limit s = (s', Inr (Some v)) \<Longrightarrow> limit \<noteq> - 1 \<Longrightarrow>
      backing s k = Some v"
    and put_effect: "store_put ops k v s = (s', done) \<Longrightarrow> record_file k' \<Longrightarrow>
      backing s' k' = Some w \<Longrightarrow> backing s k' = Some w \<or> k' = k \<and> w = v"
    and remove_effect: "store_remove ops k s = (s', done) \<Longrightarrow> record_file k' \<Longrightarrow>
      backing s' k' = Some w \<Longrightarrow> backing s k' = Some w"
    and remove_ok: "store_remove ops k s = (s', Inr u) \<Longrightarrow> backing s' k = None"
    and clear_effect: "store_clear ops s = (s', done) \<Longrightarrow> record_file k' \<Longrightarrow>
      backing s' k' = Some w \<Longrightarrow> backing s k' = Some w"

text \<open>What a sequence of calls does to the cache, whatever they return.\<close>

datatype cache_op =
  CacheLookup string int cache_policy | CacheStoreResponse string http_response | CacheFlush bool

fun cache_apply :: "'s cache_store \<Rightarrow> http_libraries \<Rightarrow> cache_op \<Rightarrow> 's http_cache \<Rightarrow> 's http_cache" where
  "cache_apply ops lib (CacheLookup q now policy) c = fst (cache_lookup ops lib q now policy c)"
| "cache_apply ops lib (CacheStoreResponse q r) c = fst (cache_store_response ops lib q r c)"
| "cache_apply ops lib (CacheFlush clear_persistent) c = fst (cache_flush ops clear_persistent c)"

definition cache_run ::
  "'s cache_store \<Rightarrow> http_libraries \<Rightarrow> cache_op list \<Rightarrow> 's http_cache \<Rightarrow> 's http_cache" where
  "cache_run ops lib os c = fold (cache_apply ops lib) os c"

fun op_query :: "cache_op \<Rightarrow> string option" where
  "op_query (CacheLookup q _ _) = Some q"
| "op_query (CacheStoreResponse q _) = Some q"
| "op_query (CacheFlush _) = None"

text \<open>The record a response becomes, and the records a history of calls offered the cache.\<close>

definition record_of :: "http_response \<Rightarrow> cache_record" where
  "record_of r =
     \<lparr>rec_time = resp_time r, rec_status_code = resp_status_code r, rec_error = [],
      rec_content = resp_body r\<rparr>"

definition offered :: "cache_op list \<Rightarrow> (string \<times> cache_record) set" where
  "offered os = {(q, record_of r) | q r. CacheStoreResponse q r \<in> set os \<and> is_success r}"

definition codec_ok :: "http_libraries \<Rightarrow> bool" where
  "codec_ok lib \<longleftrightarrow> (\<forall>r v. encode_record lib r = Some v \<longrightarrow> decode_record lib v = Some r)"

context cache_backing
begin

definition authentic :: "http_libraries \<Rightarrow> (string \<times> cache_record) set \<Rightarrow> 's http_cache \<Rightarrow> bool" where
  "authentic lib H c \<longleftrightarrow>
     (\<forall>q r. cache_entries c q = Some r \<longrightarrow> (q, r) \<in> H) \<and>
     (\<forall>k v. record_file k \<longrightarrow> backing (cache_store_state c) k = Some v \<longrightarrow>
        (\<exists>q r. (q, r) \<in> H \<and> k = cache_key_for_query lib q \<and> encode_record lib r = Some v)) \<and>
     max_record_bytes c \<noteq> - 1"

lemma authentic_less:
  assumes "authentic lib H c"
    and "\<And>q r. cache_entries c' q = Some r \<Longrightarrow> cache_entries c q = Some r \<or> (q, r) \<in> H"
    and "\<And>k v. record_file k \<Longrightarrow> backing (cache_store_state c') k = Some v \<Longrightarrow>
      backing (cache_store_state c) k = Some v"
    and "max_record_bytes c' = max_record_bytes c"
  shows "authentic lib H c'"
  unfolding authentic_def
proof (intro conjI allI impI)
  show "(q, r) \<in> H" if "cache_entries c' q = Some r" for q r
    using assms(1) assms(2) [OF that] by (auto simp: authentic_def)
  show "\<exists>q r. (q, r) \<in> H \<and> k = cache_key_for_query lib q \<and> encode_record lib r = Some v"
    if "record_file k" "backing (cache_store_state c') k = Some v" for k v
    using assms(1) assms(3) [OF that] that(1) by (auto simp: authentic_def)
qed (use assms(1,4) in \<open>simp add: authentic_def\<close>)

lemma drop_stored_authentic:
  assumes "authentic lib H c"
  shows "authentic lib H (fst (drop_stored ops key c))"
proof -
  obtain s r where s: "store_remove ops key (cache_store_state c) = (s, r)"
    by (cases "store_remove ops key (cache_store_state c)")
  have "fst (drop_stored ops key c) = c\<lparr>cache_store_state := s\<rparr>"
    using s by (simp add: drop_stored_def split: sum.splits)
  then show ?thesis using remove_effect [OF s] by (intro authentic_less [OF assms]) auto
qed

lemma forget_entry_authentic: "authentic lib H c \<Longrightarrow> authentic lib H (forget_entry q c)"
  by (erule authentic_less) (auto simp: forget_entry_def split: if_splits)

lemma drop_stored_result [simp]: "snd (drop_stored ops key c) \<noteq> Inr (Some resp)"
  by (simp add: drop_stored_def split: prod.splits sum.splits)

text \<open>What a lookup finds in the store was put there for the same query.\<close>

lemma loaded_record:
  assumes "authentic lib H c" and "codec_ok lib" and "inj_on (sha256 lib) Q" and "fst ` H \<subseteq> Q"
    and "q \<in> Q"
    and "store_load ops (cache_key_for_query lib q) (max_record_bytes c) (cache_store_state c) =
      (s, Inr (Some v))"
    and "decode_record lib v = Some r"
  shows "(q, r) \<in> H"
proof -
  have lim: "max_record_bytes c \<noteq> - 1" using assms(1) by (simp add: authentic_def)
  have "backing (cache_store_state c) (cache_key_for_query lib q) = Some v"
    using load_exact [OF assms(6) lim] .
  then obtain q' r' where h: "(q', r') \<in> H"
    "cache_key_for_query lib q = cache_key_for_query lib q'" "encode_record lib r' = Some v"
    using assms(1) cache_key_record_file unfolding authentic_def by metis
  have "q' \<in> Q" using subsetD [OF assms(4) imageI [OF h(1), of fst]] by simp
  then have "q' = q" using inj_onD [OF assms(3) cache_key_inject [OF h(2)] assms(5)] by simp
  moreover have "r' = r" using h(3) assms(2,7) by (auto simp: codec_ok_def)
  ultimately show ?thesis using h(1) by simp
qed

lemma lookup_authentic:
  assumes "authentic lib H c" and "codec_ok lib" and "inj_on (sha256 lib) Q" and "fst ` H \<subseteq> Q"
    and "q \<in> Q" and "cache_lookup ops lib q now policy c = (c', res)"
  shows "authentic lib H c' \<and>
    (\<forall>resp. res = Inr (Some resp) \<longrightarrow>
       (\<exists>r. (q, r) \<in> H \<and> is_fresh r now (policy_max_age c policy) \<and> resp = into_response r True))"
proof -
  let ?key = "cache_key_for_query lib q" and ?age = "policy_max_age c policy"
  have dropped: ?thesis if "cache_lookup ops lib q now policy c = drop_stored ops ?key d"
    "authentic lib H d" for d
  proof -
    have "drop_stored ops ?key d = (c', res)" using that(1) assms(6) by simp
    then show ?thesis
      using drop_stored_authentic [OF that(2), of ?key] drop_stored_result [of ?key d] by auto
  qed
  show ?thesis
  proof (cases "duration_is_zero ?age")
    case True
    then have "cache_lookup ops lib q now policy c = drop_stored ops ?key (forget_entry q c)"
      by (simp add: cache_lookup_def)
    then show ?thesis by (rule dropped) (rule forget_entry_authentic [OF assms(1)])
  next
    case live: False
    show ?thesis
    proof (cases "cache_entries c q")
      case (Some r)
      show ?thesis
      proof (cases "is_fresh r now ?age")
        case True
        with live Some assms(6) have "c' = c" "res = Inr (Some (into_response r True))"
          by (simp_all add: cache_lookup_def)
        moreover have "(q, r) \<in> H" using assms(1) Some by (simp add: authentic_def)
        ultimately show ?thesis using assms(1) True by auto
      next
        case False
        with live Some have "cache_lookup ops lib q now policy c = drop_stored ops ?key (forget_entry q c)"
          by (simp add: cache_lookup_def)
        then show ?thesis by (rule dropped) (rule forget_entry_authentic [OF assms(1)])
      qed
    next
      case None
      obtain s l where l: "store_load ops ?key (max_record_bytes c) (cache_store_state c) = (s, l)"
        by (cases "store_load ops ?key (max_record_bytes c) (cache_store_state c)")
      let ?c = "c\<lparr>cache_store_state := s\<rparr>"
      have same: "backing s = backing (cache_store_state c)"
        using load_keeps [OF l] assms(1) by (simp add: authentic_def)
      then have ok: "authentic lib H ?c" by (intro authentic_less [OF assms(1)]) simp_all
      have unfold: "cache_lookup ops lib q now policy c = lookup_stored ops lib q now ?age c"
        using live None by (simp add: cache_lookup_def)
      show ?thesis
      proof (cases "\<exists>v r. l = Inr (Some v) \<and> decode_record lib v = Some r")
        case True
        then obtain v r where v: "l = Inr (Some v)" "decode_record lib v = Some r" by blast
        have H: "(q, r) \<in> H" using loaded_record [OF assms(1-5)] l v by simp
        show ?thesis
        proof (cases "is_fresh r now ?age")
          case True
          with unfold l v assms(6) have "c' = ?c\<lparr>cache_entries := (cache_entries c)(q \<mapsto> r)\<rparr>"
            "res = Inr (Some (into_response r True))"
            by (simp_all add: lookup_stored_def Let_def)
          moreover have "authentic lib H (?c\<lparr>cache_entries := (cache_entries c)(q \<mapsto> r)\<rparr>)"
            by (rule authentic_less [OF ok]) (use H in \<open>auto split: if_splits\<close>)
          ultimately show ?thesis using H True by auto
        next
          case False
          with unfold l v have "cache_lookup ops lib q now policy c = drop_stored ops ?key ?c"
            by (simp add: lookup_stored_def Let_def)
          then show ?thesis by (rule dropped) (rule ok)
        qed
      next
        case False
        then have "cache_lookup ops lib q now policy c = drop_stored ops ?key ?c \<or>
            cache_lookup ops lib q now policy c = (?c, Inl CacheStorage) \<or>
            cache_lookup ops lib q now policy c = (?c, Inr None)"
          using unfold l by (cases l) (auto simp: lookup_stored_def Let_def split: option.splits)
        then show ?thesis using dropped [OF _ ok] ok assms(6) by auto
      qed
    qed
  qed
qed

lemma store_response_authentic:
  assumes "authentic lib H c" and "is_success r \<Longrightarrow> (q, record_of r) \<in> H"
  shows "authentic lib H (fst (cache_store_response ops lib q r c))"
proof (cases "\<exists>v. is_success r \<and> utf8_valid (resp_body r) \<and> encode_record lib (record_of r) = Some v \<and>
    \<not> unat (max_record_bytes c) < length v")
  case False
  then have "fst (cache_store_response ops lib q r c) = c"
    by (auto simp: cache_store_response_def record_of_def Let_def split: option.splits)
  with assms(1) show ?thesis by simp
next
  case True
  then obtain v where v: "is_success r" "utf8_valid (resp_body r)"
    "encode_record lib (record_of r) = Some v" "\<not> unat (max_record_bytes c) < length v" by blast
  let ?key = "cache_key_for_query lib q"
  obtain s p where p: "store_put ops ?key v (cache_store_state c) = (s, p)"
    by (cases "store_put ops ?key v (cache_store_state c)")
  have H: "(q, record_of r) \<in> H" using assms(2) v(1) by simp
  have ok: "authentic lib H (c\<lparr>cache_store_state := s\<rparr>)"
    unfolding authentic_def
  proof (intro conjI allI impI)
    fix k w assume k: "record_file k" "backing (cache_store_state (c\<lparr>cache_store_state := s\<rparr>)) k = Some w"
    from put_effect [OF p k(1)] k(2)
    have "backing (cache_store_state c) k = Some w \<or> k = ?key \<and> w = v" by simp
    then show "\<exists>q r. (q, r) \<in> H \<and> k = cache_key_for_query lib q \<and> encode_record lib r = Some w"
      using assms(1) k(1) H v(3) unfolding authentic_def by blast
  qed (use assms(1) in \<open>simp_all add: authentic_def\<close>)
  have "authentic lib H (c\<lparr>cache_store_state := s, cache_entries := (cache_entries c)(q \<mapsto> record_of r)\<rparr>)"
    by (rule authentic_less [OF ok]) (use H in \<open>auto split: if_splits\<close>)
  moreover have "fst (cache_store_response ops lib q r c) \<in>
      {c\<lparr>cache_store_state := s\<rparr>,
       c\<lparr>cache_store_state := s, cache_entries := (cache_entries c)(q \<mapsto> record_of r)\<rparr>}"
    using v p by (auto simp: cache_store_response_def record_of_def Let_def split: sum.splits)
  ultimately show ?thesis using ok by auto
qed

lemma flush_authentic:
  assumes "authentic lib H c"
  shows "authentic lib H (fst (cache_flush ops clear_persistent c))"
proof -
  obtain s r where s: "store_clear ops (cache_store_state c) = (s, r)"
    by (cases "store_clear ops (cache_store_state c)")
  have "fst (cache_flush ops clear_persistent c) \<in>
      {c\<lparr>cache_entries := \<lambda>_. None\<rparr>, c\<lparr>cache_entries := \<lambda>_. None, cache_store_state := s\<rparr>}"
    using s by (auto simp: cache_flush_def Let_def split: sum.splits)
  moreover have "authentic lib H (c\<lparr>cache_entries := \<lambda>_. None\<rparr>)"
    by (rule authentic_less [OF assms]) simp_all
  moreover have "authentic lib H (c\<lparr>cache_entries := \<lambda>_. None, cache_store_state := s\<rparr>)"
    using clear_effect [OF s] by (intro authentic_less [OF assms]) auto
  ultimately show ?thesis by auto
qed

lemma run_authentic:
  assumes "authentic lib H c" and "codec_ok lib" and "inj_on (sha256 lib) Q" and "fst ` H \<subseteq> Q"
    and "\<And>op q. op \<in> set os \<Longrightarrow> op_query op = Some q \<Longrightarrow> q \<in> Q" and "offered os \<subseteq> H"
  shows "authentic lib H (cache_run ops lib os c)"
  using assms(1,5,6)
proof (induction os arbitrary: c)
  case Nil
  then show ?case by (simp add: cache_run_def)
next
  case (Cons op os)
  have "offered os \<subseteq> H" using Cons.prems(3) by (auto simp: offered_def)
  moreover have "authentic lib H (cache_apply ops lib op c)"
  proof (cases op)
    case (CacheLookup q now policy)
    then have "q \<in> Q" using Cons.prems(2) [of op q] by simp
    then show ?thesis
      using lookup_authentic [OF Cons.prems(1) assms(2-4), of q now policy] CacheLookup
      by (cases "cache_lookup ops lib q now policy c") auto
  next
    case (CacheStoreResponse q r)
    then have "is_success r \<Longrightarrow> (q, record_of r) \<in> H"
      using Cons.prems(3) by (auto simp: offered_def)
    then show ?thesis using store_response_authentic [OF Cons.prems(1)] CacheStoreResponse by simp
  next
    case (CacheFlush b)
    then show ?thesis using flush_authentic [OF Cons.prems(1)] by simp
  qed
  ultimately show ?case
    using Cons.IH Cons.prems(2) by (auto simp: cache_run_def)
qed

end

section \<open>Both stores keep the contract\<close>

interpretation memory: cache_backing memory_store "\<lambda>m. m"
proof
  show "\<And>k limit s s' r. store_load memory_store k limit s = (s', r) \<Longrightarrow> limit \<noteq> - 1 \<Longrightarrow> s' = s"
    by (auto simp: memory_store_def memory_load_def split: option.splits if_splits)
  show "\<And>k limit s s' v. store_load memory_store k limit s = (s', Inr (Some v)) \<Longrightarrow>
      limit \<noteq> - 1 \<Longrightarrow> s k = Some v"
    by (auto simp: memory_store_def memory_load_def split: option.splits if_splits)
qed (auto simp: memory_store_def split: if_splits)

definition held_in :: "path \<Rightarrow> disk \<Rightarrow> string \<Rightarrow> bytes option" where
  "held_in directory d key = contents d (entry_path directory key)"

lemma entry_path_inject [simp]: "entry_path p k = entry_path p k' \<longleftrightarrow> k = k'"
  by (simp add: entry_path_def)

lemma record_file_not_temporary: "record_file k \<Longrightarrow> \<not> ends_with ''.tmp'' (last (entry_path p k))"
  by (auto simp: record_file_def entry_path_def ends_with_def starts_with_iff)

lemma map_store_result_eq:
  "map_store_result x = (s', r) \<Longrightarrow> \<exists>r0. x = (s', r0) \<and> (\<forall>y. r = Inr y \<longleftrightarrow> r0 = Inr y)"
  by (cases x) (auto simp: map_store_result_def split: sum.splits)

lemma map_store_result_Inr: "map_store_result x = (s', Inr y) \<Longrightarrow> x = (s', Inr y)"
  by (cases x) (auto simp: map_store_result_def split: sum.splits)

lemma std_remove_file_effect:
  assumes "std_remove_file p d = (d', r)"
  shows "contents d' q = Some w \<Longrightarrow> contents d q = Some w" and "r = Inr u \<Longrightarrow> contents d' p = None"
proof -
  obtain d1 m where m: "os_remove_file p d = (d1, m)" by (cases "os_remove_file p d")
  have d': "d' = d1" using assms m by (auto simp: std_remove_file_def split: sum.splits)
  have absent: "m = Inl IoNotFound \<Longrightarrow> nodes d1 p = None"
    using m by (auto simp: os_remove_file_def split: prod.splits option.splits node.splits)
  have "(contents d' q = Some w \<longrightarrow> contents d q = Some w) \<and> (r = Inr u \<longrightarrow> contents d' p = None)"
    using m
  proof (cases rule: remove_file_cases)
    case (1 k)
    have "r = Inr u \<Longrightarrow> k = IoNotFound"
      using assms m 1(1) by (auto simp: std_remove_file_def split: if_splits)
    then show ?thesis using d' 1 absent by (auto simp: contents_def)
  next
    case (2 x)
    then show ?thesis using d' by (auto simp: contents_def)
  qed
  then show "contents d' q = Some w \<Longrightarrow> contents d q = Some w" "r = Inr u \<Longrightarrow> contents d' p = None"
    by blast+
qed

lemma directory_clear_effect:
  assumes "directory_clear p d = (d', r)"
  shows "contents d' q = Some w \<Longrightarrow> contents d q = Some w"
proof -
  obtain d1 a where a: "os_remove_dir_all p d = (d1, a)" by (cases "os_remove_dir_all p d")
  obtain d2 b where b: "os_create_dir_all p d1 = (d2, b)" by (cases "os_create_dir_all p d1")
  have one: "contents d1 q = Some w \<Longrightarrow> contents d q = Some w"
    using a by (auto simp: os_remove_dir_all_def contents_def
        split: prod.splits option.splits node.splits if_splits)
  have two: "contents d2 q = Some w \<Longrightarrow> contents d1 q = Some w"
    using b by (cases rule: create_dir_all_cases) (auto simp: contents_def split: if_splits)
  have "d' = d1 \<or> d' = d2"
    using assms a b
    by (auto simp: directory_clear_def std_remove_dir_all_def std_create_dir_all_def
        map_store_result_def map_io_result_def split: sum.splits if_splits)
  then show "contents d' q = Some w \<Longrightarrow> contents d q = Some w" using one two by auto
qed

interpretation directory: cache_backing "directory_store p" "held_in p" for p
proof
  fix k limit s s' r
  assume "store_load (directory_store p) k limit s = (s', r)" and lim: "limit \<noteq> - 1"
  then obtain r0 where r0: "std_read_bounded (entry_path p k) limit s = (s', r0)"
    by (auto simp: directory_store_def dest: map_store_result_eq)
  show "held_in p s' = held_in p s"
    using std_read_bounded_cases [OF r0 lim] by (auto simp: held_in_def contents_def)
next
  fix k limit s s' v
  assume "store_load (directory_store p) k limit s = (s', Inr (Some v))" and lim: "limit \<noteq> - 1"
  then have r0: "std_read_bounded (entry_path p k) limit s = (s', Inr (Some v))"
    by (auto simp: directory_store_def dest: map_store_result_Inr)
  show "held_in p s k = Some v"
    using std_read_bounded_cases [OF r0 lim] by (simp add: held_in_def)
next
  fix k v s s' "done" k' w
  assume "store_put (directory_store p) k v s = (s', done)" and k': "record_file k'"
    and w: "held_in p s' k' = Some w"
  then obtain r0 where r0: "std_write_atomic (entry_path p k) v s = (s', r0)"
    by (auto simp: directory_store_def dest: map_store_result_eq)
  show "held_in p s k' = Some w \<or> k' = k \<and> w = v"
  proof (cases r0)
    case (Inl e)
    then have "\<forall>q. contents s' q \<noteq> contents s q \<longrightarrow> q \<noteq> [] \<and> ends_with ''.tmp'' (last q)"
      using write_atomic_cases [OF r0] by simp
    then have "contents s' (entry_path p k') = contents s (entry_path p k')"
      using record_file_not_temporary [OF k'] by blast
    with w show ?thesis by (simp add: held_in_def)
  next
    case (Inr u)
    then have "nodes s' = (\<lambda>q. if q = entry_path p k then Some (RegularFile v)
        else if is_ancestor q (path_parent (entry_path p k)) then Some Directory else nodes s q)"
      using write_atomic_cases [OF r0] by simp
    with w show ?thesis by (auto simp: held_in_def contents_def split: if_splits)
  qed
next
  fix k s s' "done" k' w
  assume "store_remove (directory_store p) k s = (s', done)" and "held_in p s' k' = Some w"
  then show "held_in p s k' = Some w"
    by (auto simp: directory_store_def held_in_def dest!: map_store_result_eq
        dest: std_remove_file_effect(1))
next
  fix k s s' u
  assume "store_remove (directory_store p) k s = (s', Inr u)"
  then show "held_in p s' k = None"
    by (auto simp: directory_store_def held_in_def dest!: map_store_result_eq
        dest: std_remove_file_effect(2))
next
  fix s s' "done" k' w
  assume "store_clear (directory_store p) s = (s', done)" and "held_in p s' k' = Some w"
  then show "held_in p s k' = Some w"
    by (auto simp: directory_store_def held_in_def dest: directory_clear_effect)
qed

section \<open>What a lookup may return\<close>

lemma fresh_age:
  "is_fresh r now max_age \<Longrightarrow>
     rec_time r \<le> now \<and> min (now - rec_time r) (2 ^ 63 - 1) < int (unat (dur_secs max_age))"
proof -
  assume fresh: "is_fresh r now max_age"
  then have le: "rec_time r \<le> now"
    and lt: "nat (i64_saturating_sub now (rec_time r)) < unat (dur_secs max_age)"
    by (auto simp: is_fresh_def Let_def split: if_splits)
  from lt have "i64_saturating_sub now (rec_time r) < int (unat (dur_secs max_age))" by linarith
  with le show ?thesis by (simp add: i64_saturating_sub_def min.commute)
qed

text \<open>
  C10. Every response the directory cache serves is one a caller stored earlier for the same
  query, unaltered, successful and still fresh under the policy of this lookup: for every
  sequence of lookups, stores and flushes that began with an empty cache directory, whatever
  calls of the operating system failed on the way. The queries must not collide under SHA-256,
  and the codec must decode what it encoded.
\<close>
theorem cache_serves_only_stored:
  assumes "codec_ok lib" and "inj_on (sha256 lib) Q"
    and "\<And>op query. op \<in> set os \<Longrightarrow> op_query op = Some query \<Longrightarrow> query \<in> Q" and "q \<in> Q"
    and "\<And>k. held_in p d k = None"
    and "cache_lookup (directory_store p) lib q now policy
      (cache_run (directory_store p) lib os (http_cache_new d age)) = (c', Inr (Some resp))"
  shows "\<exists>r. CacheStoreResponse q r \<in> set os \<and> is_success r \<and>
    resp = r\<lparr>resp_from_cache := True\<rparr> \<and> resp_time r \<le> now \<and>
    min (now - resp_time r) (2 ^ 63 - 1) < int (unat (dur_secs
      (policy_max_age (cache_run (directory_store p) lib os (http_cache_new d age)) policy)))"
proof -
  let ?c = "cache_run (directory_store p) lib os (http_cache_new d age)"
  have "fst ` offered os \<subseteq> Q" using assms(3) by (fastforce simp: offered_def)
  moreover have "directory.authentic p lib (offered os) (http_cache_new d age)"
    using assms(5) by (simp add: directory.authentic_def http_cache_new_def DEFAULT_MAX_RECORD_BYTES_def)
  then have "directory.authentic p lib (offered os) ?c"
    using directory.run_authentic assms(1-3) calculation by blast
  ultimately obtain r where r: "(q, r) \<in> offered os" "is_fresh r now (policy_max_age ?c policy)"
    "resp = into_response r True"
    using directory.lookup_authentic [OF _ assms(1,2) _ assms(4,6)] by blast
  then obtain s where s: "CacheStoreResponse q s \<in> set os" "is_success s" "r = record_of s"
    by (auto simp: offered_def)
  have "resp = s\<lparr>resp_from_cache := True\<rparr>"
    using r(3) s(3) by (simp add: into_response_def record_of_def)
  moreover have "resp_time s = rec_time r" using s(3) by (simp add: record_of_def)
  ultimately show ?thesis using s(1,2) fresh_age [OF r(2)] by metis
qed

definition demo_response :: http_response where
  "demo_response = \<lparr>resp_time = 100, resp_status_code = 200, resp_body = [0x68, 0x69], resp_from_cache = False\<rparr>"

text \<open>A codec that writes the body alone and a digest that is the query itself.\<close>

definition demo_libraries :: http_libraries where
  "demo_libraries =
     \<lparr>sha256 = map of_char,
      encode_record = \<lambda>r. if r = record_of demo_response then Some (rec_content r) else None,
      decode_record = \<lambda>v. if v = [0x68, 0x69] then Some (record_of demo_response) else None\<rparr>"

definition demo_hour :: duration where
  "demo_hour = \<lparr>dur_secs = 3600, dur_nanos = 0\<rparr>"

definition demo_cache_disk :: disk where
  "demo_cache_disk =
     \<lparr>nodes = [[''cache''] \<mapsto> Directory], temp_file_sequence = 0, faults = []\<rparr>"

lemma demo_put:
  "snd (std_write_atomic [''cache'', k] v demo_cache_disk) = Inr ()"
proof -
  have "temporary_path [''cache'', k] 0 = [''cache'', k @ ''.nexus-'' @ format_016x 0 @ ''.tmp'']"
    by (simp add: temporary_path_def path_parent_def path_stem_def)
  then show ?thesis
    by (simp add: std_write_atomic_def fill_and_replace_def os_call_defs os_create_dir_all_def
        path_parent_def is_ancestor_def next_fault_def demo_cache_disk_def put_node_def
        map_io_result_def eval_nat_numeral Let_def)
qed

lemma demo_lookup:
  "snd (cache_lookup (directory_store [''cache'']) demo_libraries ''/x'' 200 DefaultPolicy
     (cache_run (directory_store [''cache'']) demo_libraries
        [CacheStoreResponse ''/x'' demo_response] (http_cache_new demo_cache_disk demo_hour))) =
   Inr (Some (demo_response\<lparr>resp_from_cache := True\<rparr>))"
proof -
  let ?k = "cache_key_for_query demo_libraries ''/x''"
  obtain s where put: "std_write_atomic [''cache'', ?k] [0x68, 0x69] demo_cache_disk = (s, Inr ())"
    using demo_put [of ?k "[0x68, 0x69]"] by (cases "std_write_atomic [''cache'', ?k] [0x68, 0x69] demo_cache_disk") auto
  have "store_put (directory_store [''cache'']) ?k [0x68, 0x69] demo_cache_disk = (s, Inr ())"
    using put by (simp add: directory_store_def entry_path_def map_store_result_def)
  moreover have "encode_record demo_libraries (record_of demo_response) = Some [0x68, 0x69]"
    by (simp add: demo_libraries_def record_of_def demo_response_def)
  moreover have "is_success demo_response" "utf8_valid (resp_body demo_response)"
    by (simp_all add: is_success_def demo_response_def)
  ultimately have "cache_run (directory_store [''cache'']) demo_libraries
      [CacheStoreResponse ''/x'' demo_response] (http_cache_new demo_cache_disk demo_hour) =
    (http_cache_new demo_cache_disk demo_hour)\<lparr>cache_store_state := s,
       cache_entries := [''/x'' \<mapsto> record_of demo_response]\<rparr>"
    by (simp add: cache_run_def cache_store_response_def record_of_def http_cache_new_def
        DEFAULT_MAX_RECORD_BYTES_def)
  moreover have "is_fresh (record_of demo_response) 200 demo_hour"
    by (simp add: is_fresh_def record_of_def demo_response_def demo_hour_def i64_saturating_sub_def)
  moreover have "\<not> duration_is_zero demo_hour" by (simp add: duration_is_zero_def demo_hour_def)
  ultimately show ?thesis
    by (simp add: cache_lookup_def policy_max_age_def http_cache_new_def into_response_def
        record_of_def)
qed

lemma demo_codec_ok: "codec_ok demo_libraries"
  by (simp add: codec_ok_def demo_libraries_def record_of_def demo_response_def)

lemma cache_serves_only_stored_witness:
  "\<exists>r. CacheStoreResponse ''/x'' r \<in> set [CacheStoreResponse ''/x'' demo_response] \<and>
     demo_response\<lparr>resp_from_cache := True\<rparr> = r\<lparr>resp_from_cache := True\<rparr>"
proof -
  let ?c = "cache_run (directory_store [''cache'']) demo_libraries
        [CacheStoreResponse ''/x'' demo_response] (http_cache_new demo_cache_disk demo_hour)"
  have "cache_lookup (directory_store [''cache'']) demo_libraries ''/x'' 200 DefaultPolicy ?c =
      (fst (cache_lookup (directory_store [''cache'']) demo_libraries ''/x'' 200 DefaultPolicy ?c),
       Inr (Some (demo_response\<lparr>resp_from_cache := True\<rparr>)))"
    by (simp add: prod_eq_iff demo_lookup)
  moreover have "held_in [''cache''] demo_cache_disk k = None" for k
    by (simp add: held_in_def contents_def demo_cache_disk_def entry_path_def)
  ultimately show ?thesis
    using cache_serves_only_stored [OF demo_codec_ok, of "{''/x''}"
        "[CacheStoreResponse ''/x'' demo_response]" "''/x''"]
    by auto
qed

end
