(* ===== verification/Network_Client.thy ===== *)
theory Network_Client
  imports Network_Cache
begin

text \<open>
  The client half of \<open>nexus-network/src/http.rs\<close>: \<open>HttpClient::get\<close> with its cache, and
  \<open>HttpClient::download\<close>. The transport is an argument, a function on the transport's own state
  that answers a request under a bound; the clock's reading is the argument \<open>now\<close>.
\<close>

type_synonym 't transport = "http_request \<Rightarrow> usize \<Rightarrow> 't \<Rightarrow> 't \<times> (transport_error + transport_response)"

section \<open>The client\<close>

record ('t, 's) http_client =
  client_base_url :: base_url
  client_transport :: 't
  client_cache :: "'s http_cache option"
  client_max_response_bytes :: usize
  last_cache_error :: "cache_error option"

definition DEFAULT_MAX_RESPONSE_BYTES :: usize where
  "DEFAULT_MAX_RESPONSE_BYTES = 8 * 1024 * 1024"

definition http_client_new :: "string \<Rightarrow> 't \<Rightarrow> request_error + ('t, 's) http_client" where
  "http_client_new base_url transport =
     (case base_url_parse base_url of
        Inl e \<Rightarrow> Inl e
      | Inr base \<Rightarrow> Inr \<lparr>client_base_url = base, client_transport = transport, client_cache = None,
                         client_max_response_bytes = DEFAULT_MAX_RESPONSE_BYTES,
                         last_cache_error = None\<rparr>)"

definition http_client_new_with_cache ::
  "string \<Rightarrow> 't \<Rightarrow> 's http_cache \<Rightarrow> request_error + ('t, 's) http_client" where
  "http_client_new_with_cache base_url transport cache =
     (case base_url_parse base_url of
        Inl e \<Rightarrow> Inl e
      | Inr base \<Rightarrow> Inr \<lparr>client_base_url = base, client_transport = transport,
                         client_cache = Some cache,
                         client_max_response_bytes = DEFAULT_MAX_RESPONSE_BYTES,
                         last_cache_error = None\<rparr>)"

definition client_with_config :: "usize \<Rightarrow> ('t, 's) http_client \<Rightarrow> ('t, 's) http_client" where
  "client_with_config max_response_bytes c = c\<lparr>client_max_response_bytes := max max_response_bytes 1\<rparr>"

text \<open>The first half of \<open>get\<close>: a response from the cache, or the error the cache gave.\<close>

definition ask_cache ::
  "'s cache_store \<Rightarrow> http_libraries \<Rightarrow> string \<Rightarrow> int \<Rightarrow> cache_policy \<Rightarrow> ('t, 's) http_client \<Rightarrow>
     ('t, 's) http_client \<times> http_response option" where
  "ask_cache ops lib target now policy c =
     (case client_cache c of
        None \<Rightarrow> (c, None)
      | Some cache \<Rightarrow>
          (case cache_lookup ops lib target now policy cache of
             (cache, Inr response) \<Rightarrow> (c\<lparr>client_cache := Some cache\<rparr>, response)
           | (cache, Inl e) \<Rightarrow> (c\<lparr>client_cache := Some cache, last_cache_error := Some e\<rparr>, None)))"

definition keep_response ::
  "'s cache_store \<Rightarrow> http_libraries \<Rightarrow> string \<Rightarrow> http_response \<Rightarrow> ('t, 's) http_client \<Rightarrow>
     ('t, 's) http_client" where
  "keep_response ops lib target response c =
     (case client_cache c of
        None \<Rightarrow> c
      | Some cache \<Rightarrow>
          (case cache_store_response ops lib target response cache of
             (cache, Inl e) \<Rightarrow> c\<lparr>client_cache := Some cache, last_cache_error := Some e\<rparr>
           | (cache, Inr _) \<Rightarrow> c\<lparr>client_cache := Some cache\<rparr>))"

definition client_get ::
  "'t transport \<Rightarrow> 's cache_store \<Rightarrow> http_libraries \<Rightarrow> int \<Rightarrow> string \<Rightarrow> string \<Rightarrow> cache_policy \<Rightarrow>
     ('t, 's) http_client \<Rightarrow> ('t, 's) http_client \<times> (client_error + http_response)" where
  "client_get transport ops lib now endpoint parameters policy c =
     (case build_target endpoint parameters of
        Inl _ \<Rightarrow> (c, Inl ClientInvalidRequest)
      | Inr target \<Rightarrow>
          (case http_request_new (client_base_url c) target of
             Inl _ \<Rightarrow> (c, Inl ClientInvalidRequest)
           | Inr request \<Rightarrow>
               (case ask_cache ops lib target now policy (c\<lparr>last_cache_error := None\<rparr>) of
                  (c, Some response) \<Rightarrow> (c, Inr response)
                | (c, None) \<Rightarrow>
                    (case transport request (client_max_response_bytes c) (client_transport c) of
                       (t, Inl e) \<Rightarrow> (c\<lparr>client_transport := t\<rparr>, Inl (map_transport_error e))
                     | (t, Inr raw) \<Rightarrow>
                         let c = c\<lparr>client_transport := t\<rparr>
                         in case validate_response raw (client_max_response_bytes c) of
                              Inl e \<Rightarrow> (c, Inl e)
                            | Inr _ \<Rightarrow>
                                let response =
                                  \<lparr>resp_time = now, resp_status_code = raw_status_code raw,
                                   resp_body = raw_body raw, resp_from_cache = False\<rparr>
                                in (keep_response ops lib target response c, Inr response)))))"

section \<open>Downloads\<close>

datatype download_error =
  DownloadInvalidRequest | DownloadInvalidLimit | DownloadTransport | DownloadBodyTooLarge
  | DownloadHttpStatus u16 | DownloadEmptyBody | DownloadContentLengthMismatch | DownloadStorage

definition map_download_transport_error :: "transport_error \<Rightarrow> download_error" where
  "map_download_transport_error e =
     (case e of
        TransportBodyTooLarge \<Rightarrow> DownloadBodyTooLarge
      | RequestFailed \<Rightarrow> DownloadTransport
      | InvalidResponse \<Rightarrow> DownloadTransport)"

text \<open>The checks between the answer and the write.\<close>

definition check_download :: "usize \<Rightarrow> transport_response \<Rightarrow> download_error + unit" where
  "check_download max_bytes raw =
     (if unat max_bytes < length (raw_body raw) then Inl DownloadBodyTooLarge
      else if raw_status_code raw \<noteq> 200 then Inl (DownloadHttpStatus (raw_status_code raw))
      else if raw_body raw = [] then Inl DownloadEmptyBody
      else case raw_content_length raw of
        Some declared \<Rightarrow>
          if declared \<noteq> body_length (raw_body raw) then Inl DownloadContentLengthMismatch else Inr ()
      | None \<Rightarrow> Inr ())"

text \<open>A receipt is the number of bytes committed.\<close>

definition client_download ::
  "'t transport \<Rightarrow> (path \<Rightarrow> bytes \<Rightarrow> 'f \<Rightarrow> 'f \<times> (file_system_error + unit)) \<Rightarrow> path \<Rightarrow> string \<Rightarrow>
     string \<Rightarrow> usize \<Rightarrow> ('t, 's) http_client \<Rightarrow> 'f \<Rightarrow>
     ('t, 's) http_client \<times> 'f \<times> (download_error + nat)" where
  "client_download transport write_atomic destination endpoint parameters max_bytes c fs =
     (if max_bytes = 0 then (c, fs, Inl DownloadInvalidLimit)
      else case build_target endpoint parameters of
        Inl _ \<Rightarrow> (c, fs, Inl DownloadInvalidRequest)
      | Inr target \<Rightarrow>
          (case http_request_new (client_base_url c) target of
             Inl _ \<Rightarrow> (c, fs, Inl DownloadInvalidRequest)
           | Inr request \<Rightarrow>
               (case transport request max_bytes (client_transport c) of
                  (t, Inl e) \<Rightarrow> (c\<lparr>client_transport := t\<rparr>, fs, Inl (map_download_transport_error e))
                | (t, Inr raw) \<Rightarrow>
                    (case check_download max_bytes raw of
                       Inl e \<Rightarrow> (c\<lparr>client_transport := t\<rparr>, fs, Inl e)
                     | Inr _ \<Rightarrow>
                         (case write_atomic destination (raw_body raw) fs of
                            (fs, Inl _) \<Rightarrow> (c\<lparr>client_transport := t\<rparr>, fs, Inl DownloadStorage)
                          | (fs, Inr _) \<Rightarrow>
                              (c\<lparr>client_transport := t\<rparr>, fs, Inr (length (raw_body raw))))))))"

section \<open>Reason phrases\<close>

definition known_statuses :: "(u16 \<times> string) list" where
  "known_statuses =
     [(100, ''Continue''),
      (101, ''Switching Protocols''),
      (102, ''Processing''),
      (103, ''Early Hints''),
      (200, ''OK''),
      (201, ''Created''),
      (202, ''Accepted''),
      (203, ''Non-Authoritative Information''),
      (204, ''No Content''),
      (205, ''Reset Content''),
      (206, ''Partial Content''),
      (207, ''Multi-Status''),
      (208, ''Already Reported''),
      (226, ''IM Used''),
      (300, ''Multiple Choices''),
      (301, ''Moved Permanently''),
      (302, ''Found''),
      (303, ''See Other''),
      (304, ''Not Modified''),
      (305, ''Use Proxy''),
      (306, ''Switch Proxy''),
      (307, ''Temporary Redirect''),
      (308, ''Permanent Redirect''),
      (400, ''Bad Request''),
      (401, ''Unauthorized''),
      (402, ''Payment Required''),
      (403, ''Forbidden''),
      (404, ''Not Found''),
      (405, ''Method Not Allowed''),
      (406, ''Not Acceptable''),
      (407, ''Proxy Authentication Required''),
      (408, ''Request Timeout''),
      (409, ''Conflict''),
      (410, ''Gone''),
      (411, ''Length Required''),
      (412, ''Precondition Failed''),
      (413, ''Payload Too Large''),
      (414, ''URI Too Long''),
      (415, ''Unsupported Media Type''),
      (416, ''Range Not Satisfiable''),
      (417, ''Expectation Failed''),
      (418, ''I'' @ [CHR 0x27] @ ''m a teapot''),
      (421, ''Misdirected Request''),
      (422, ''Unprocessable Content''),
      (423, ''Locked''),
      (424, ''Failed Dependency''),
      (425, ''Too Early''),
      (426, ''Upgrade Required''),
      (428, ''Precondition Required''),
      (429, ''Too Many Requests''),
      (431, ''Request Header Fields Too Large''),
      (451, ''Unavailable For Legal Reasons''),
      (500, ''Internal Server Error''),
      (501, ''Not Implemented''),
      (502, ''Bad Gateway''),
      (503, ''Service Unavailable''),
      (504, ''Gateway Timeout''),
      (505, ''HTTP Version Not Supported''),
      (506, ''Variant Also Negotiates''),
      (507, ''Insufficient Storage''),
      (508, ''Loop Detected''),
      (510, ''Not Extended''),
      (511, ''Network Authentication Required'')]"

definition status_message :: "u16 \<Rightarrow> string" where
  "status_message status_code =
     (case map_of known_statuses status_code of
        Some phrase \<Rightarrow> phrase
      | None \<Rightarrow> ''Unknown status code'')"

definition status_line :: "http_response \<Rightarrow> string" where
  "status_line r =
     decimal_digits (unat (resp_status_code r)) @ '' '' @ status_message (resp_status_code r)"

section \<open>What a request returns\<close>

lemma validate_response_ok:
  "validate_response raw limit = Inr u \<Longrightarrow>
     100 \<le> raw_status_code raw \<and> raw_status_code raw \<le> 599 \<and> length (raw_body raw) \<le> unat limit \<and>
     raw_content_length raw \<in> {None, Some (body_length (raw_body raw))}"
  by (auto simp: validate_response_def split: if_splits option.splits)

lemma ask_cache_keeps:
  "ask_cache ops lib target now policy c = (c', r) \<Longrightarrow>
     client_max_response_bytes c' = client_max_response_bytes c \<and>
     client_base_url c' = client_base_url c \<and> client_transport c' = client_transport c"
  by (auto simp: ask_cache_def split: option.splits prod.splits sum.splits)

lemma lookup_stored_from_cache:
  "lookup_stored ops lib q now age c = (c', Inr (Some response)) \<Longrightarrow> resp_from_cache response"
  by (auto simp: lookup_stored_def drop_stored_def into_response_def Let_def
      split: prod.splits sum.splits option.splits if_splits)

lemma cache_lookup_from_cache:
  "cache_lookup ops lib q now policy c = (c', Inr (Some response)) \<Longrightarrow> resp_from_cache response"
  by (auto simp: cache_lookup_def drop_stored_def into_response_def Let_def lookup_stored_from_cache
      split: prod.splits sum.splits option.splits if_splits)

lemma ask_cache_response:
  "ask_cache ops lib target now policy c = (c', Some response) \<Longrightarrow>
     resp_from_cache response \<and>
     (\<exists>cache cache'. client_cache c = Some cache \<and>
        cache_lookup ops lib target now policy cache = (cache', Inr (Some response)))"
  by (auto simp: ask_cache_def split: option.splits prod.splits sum.splits
      dest: cache_lookup_from_cache)

lemma keep_response_transport [simp]:
  "client_transport (keep_response ops lib target response c) = client_transport c"
  by (simp add: keep_response_def split: option.splits prod.splits sum.splits)

text \<open>The request the client makes for a target.\<close>

definition request_for :: "('t, 's) http_client \<Rightarrow> string \<Rightarrow> http_request" where
  "request_for c target =
     \<lparr>request_base_url = client_base_url c, request_target = target,
      request_absolute_url = base_as_str (client_base_url c) @ target\<rparr>"

lemma http_request_new_Inr:
  "http_request_new base target = Inr request \<longleftrightarrow>
     validate_target target = Inr () \<and>
     request = \<lparr>request_base_url = base, request_target = target,
                request_absolute_url = base_as_str base @ target\<rparr>"
  by (auto simp: http_request_new_def split: sum.splits)

text \<open>
  C28. A response of \<open>HttpClient::get\<close> is either one its cache gave for this target, and then the
  transport was not used; or the checked answer of the transport to exactly one request, for a
  valid target under the client's own origin: its status is an HTTP status, its body is within
  the configured bound and agrees with the declared length, and it carries the time read before
  the request.
\<close>
theorem get_answers_are_checked:
  assumes "client_get transport ops lib now endpoint parameters policy c = (c', Inr response)"
  shows "\<exists>target. build_target endpoint parameters = Inr target \<and> validate_target target = Inr () \<and>
    (if resp_from_cache response
     then client_transport c' = client_transport c \<and>
       (\<exists>cache cache'. client_cache c = Some cache \<and>
          cache_lookup ops lib target now policy cache = (cache', Inr (Some response)))
     else \<exists>raw. transport (request_for c target) (client_max_response_bytes c) (client_transport c) =
         (client_transport c', Inr raw) \<and>
       resp_time response = now \<and> resp_body response = raw_body raw \<and>
       resp_status_code response = raw_status_code raw \<and>
       100 \<le> raw_status_code raw \<and> raw_status_code raw \<le> 599 \<and>
       length (raw_body raw) \<le> unat (client_max_response_bytes c) \<and>
       raw_content_length raw \<in> {None, Some (body_length (raw_body raw))})"
proof -
  let ?c0 = "c\<lparr>last_cache_error := None\<rparr>"
  from assms obtain target where target: "build_target endpoint parameters = Inr target"
    by (auto simp: client_get_def split: sum.splits)
  with assms obtain request where "http_request_new (client_base_url c) target = Inr request"
    by (auto simp: client_get_def split: sum.splits)
  then have valid: "validate_target target = Inr ()" and request: "request = request_for c target"
    and new: "http_request_new (client_base_url c) target = Inr (request_for c target)"
    by (simp_all add: http_request_new_Inr request_for_def)
  obtain c1 asked where ask: "ask_cache ops lib target now policy ?c0 = (c1, asked)"
    by (cases "ask_cache ops lib target now policy ?c0")
  note keeps = ask_cache_keeps [OF ask]
  show ?thesis
  proof (cases asked)
    case (Some r)
    with assms target new ask have "c' = c1" "response = r" by (simp_all add: client_get_def)
    with ask_cache_response [of ops lib target now policy ?c0 c1 r] ask Some keeps target valid
    show ?thesis by auto
  next
    case None
    obtain t answer where t: "transport (request_for c target) (client_max_response_bytes c)
        (client_transport c) = (t, answer)"
      by (cases "transport (request_for c target) (client_max_response_bytes c) (client_transport c)")
    from assms target new ask None keeps t obtain raw where raw: "answer = Inr raw"
      by (auto simp: client_get_def split: sum.splits)
    with assms target new ask None keeps t
    obtain u where ok: "validate_response raw (client_max_response_bytes c) = Inr u"
      by (auto simp: client_get_def Let_def split: sum.splits)
    with assms target new ask None keeps t raw
    have "response = \<lparr>resp_time = now, resp_status_code = raw_status_code raw,
        resp_body = raw_body raw, resp_from_cache = False\<rparr>" "client_transport c' = t"
      by (auto simp: client_get_def Let_def)
    with validate_response_ok [OF ok] target valid t raw show ?thesis by auto
  qed
qed

text \<open>
  C29. \<open>HttpClient::download\<close> commits a file only when the server answered 200 with a nonempty body
  within the limit and of the declared length, and then the destination holds exactly that
  body. Every failure, of the request, the checks or the write, leaves the destination as it
  was; a failure before the write leaves the whole disk as it was.
\<close>
theorem download_commits_checked_body:
  assumes "client_download transport std_write_atomic destination endpoint parameters max_bytes c d =
    (c', d', result)"
  shows "case result of
    Inr n \<Rightarrow> \<exists>target raw t. build_target endpoint parameters = Inr target \<and>
      transport (request_for c target) max_bytes (client_transport c) = (t, Inr raw) \<and>
      raw_status_code raw = 200 \<and> n = length (raw_body raw) \<and> 0 < n \<and> n \<le> unat max_bytes \<and>
      raw_content_length raw \<in> {None, Some (body_length (raw_body raw))} \<and>
      contents d' destination = Some (raw_body raw)
  | Inl e \<Rightarrow> contents d' destination = contents d destination \<and> (e \<noteq> DownloadStorage \<longrightarrow> d' = d)"
proof (cases "\<exists>target. max_bytes \<noteq> 0 \<and> build_target endpoint parameters = Inr target \<and>
    http_request_new (client_base_url c) target = Inr (request_for c target)")
  case False
  have "d' = d \<and> (\<exists>e. result = Inl e)"
    using assms False
    by (auto simp: client_download_def http_request_new_Inr request_for_def
        split: sum.splits if_splits)
  then show ?thesis by auto
next
  case True
  then obtain target where target: "max_bytes \<noteq> 0" "build_target endpoint parameters = Inr target"
    "http_request_new (client_base_url c) target = Inr (request_for c target)" by blast
  obtain t answer where t: "transport (request_for c target) max_bytes (client_transport c) = (t, answer)"
    by (cases "transport (request_for c target) max_bytes (client_transport c)")
  show ?thesis
  proof (cases "\<exists>raw. answer = Inr raw \<and> check_download max_bytes raw = Inr ()")
    case False
    then have "d' = d \<and> (\<exists>e. result = Inl e)"
      using assms target t by (auto simp: client_download_def split: sum.splits)
    then show ?thesis by auto
  next
    case True
    then obtain raw where raw: "answer = Inr raw" "check_download max_bytes raw = Inr ()" by blast
    then have checks: "raw_status_code raw = 200" "raw_body raw \<noteq> []"
      "length (raw_body raw) \<le> unat max_bytes"
      "raw_content_length raw \<in> {None, Some (body_length (raw_body raw))}"
      by (auto simp: check_download_def split: if_splits option.splits)
    obtain d1 w where w: "std_write_atomic destination (raw_body raw) d = (d1, w)"
      by (cases "std_write_atomic destination (raw_body raw) d")
    show ?thesis
    proof (cases w)
      case (Inl e)
      then have "d' = d1" "result = Inl DownloadStorage"
        using assms target t raw w by (simp_all add: client_download_def)
      then show ?thesis using write_atomic_cases [OF w] Inl by (simp add: contents_def)
    next
      case (Inr u)
      then have "d' = d1" "result = Inr (length (raw_body raw))"
        using assms target t raw w by (simp_all add: client_download_def)
      moreover have "contents d1 destination = Some (raw_body raw)"
        using write_atomic_cases [OF w] Inr by (simp add: contents_def)
      ultimately show ?thesis using target t raw checks by auto
    qed
  qed
qed

section \<open>Examples\<close>

text \<open>A transport that answers every request with the same body and counts the requests.\<close>

definition demo_transport :: "nat transport" where
  "demo_transport request limit n =
     (Suc n, Inr \<lparr>raw_status_code = 200, raw_content_length = Some 2, raw_body = [0x68, 0x69]\<rparr>)"

definition demo_client :: "(nat, unit) http_client" where
  "demo_client =
     \<lparr>client_base_url = BaseUrl ''https://h.test'', client_transport = 0, client_cache = None,
      client_max_response_bytes = 10, last_cache_error = None\<rparr>"

lemma demo_target: "build_target ''/x'' ''k=1'' = Inr ''/x?k=1''" "validate_target ''/x?k=1'' = Inr ()"
  by code_simp+

lemma demo_request:
  "http_request_new (BaseUrl ''https://h.test'') ''/x?k=1'' = Inr (request_for demo_client ''/x?k=1'')"
  by (simp add: http_request_new_Inr request_for_def demo_client_def demo_target)

lemma demo_get:
  "client_get demo_transport null_store demo_libraries 5 ''/x'' ''k=1'' DefaultPolicy demo_client =
     (demo_client\<lparr>client_transport := 1\<rparr>,
      Inr \<lparr>resp_time = 5, resp_status_code = 200, resp_body = [0x68, 0x69], resp_from_cache = False\<rparr>)"
  using demo_request
  by (simp add: client_get_def demo_target ask_cache_def keep_response_def demo_client_def
      demo_transport_def validate_response_def body_length_def Let_def)

lemma get_answers_are_checked_witness:
  "\<exists>target raw. build_target ''/x'' ''k=1'' = Inr target \<and>
     demo_transport (request_for demo_client target) 10 0 = (1, Inr raw) \<and> raw_body raw = [0x68, 0x69]"
  using get_answers_are_checked [OF demo_get] by (auto simp: demo_client_def)

lemma demo_download:
  "snd (snd (client_download demo_transport std_write_atomic [''cache'', ''f''] ''/x'' ''k=1'' 10
     demo_client demo_cache_disk)) = Inr 2"
proof -
  obtain d where "std_write_atomic [''cache'', ''f''] [0x68, 0x69] demo_cache_disk = (d, Inr ())"
    using demo_put [of "''f''" "[0x68, 0x69]"]
    by (cases "std_write_atomic [''cache'', ''f''] [0x68, 0x69] demo_cache_disk") auto
  then show ?thesis
    using demo_request
    by (simp add: client_download_def demo_target demo_client_def demo_transport_def
        check_download_def body_length_def)
qed

lemma download_commits_checked_body_witness:
  "contents (fst (snd (client_download demo_transport std_write_atomic [''cache'', ''f''] ''/x'' ''k=1''
     10 demo_client demo_cache_disk))) [''cache'', ''f''] = Some [0x68, 0x69]"
proof -
  let ?run = "client_download demo_transport std_write_atomic [''cache'', ''f''] ''/x'' ''k=1'' 10
    demo_client demo_cache_disk"
  have "?run = (fst ?run, fst (snd ?run), Inr 2)" by (simp add: prod_eq_iff demo_download)
  from download_commits_checked_body [OF this] show ?thesis
    by (auto simp: demo_transport_def)
qed

end
