(* ===== verification/Network_Update.thy ===== *)
theory Network_Update
  imports Network_Client
begin

text \<open>
  \<open>nexus-network/src/update.rs\<close>: versions, discovery of releases, bounded download plans and
  the rollback-safe replacement of a file. The JSON library is an argument: its value type is
  a type variable, its accessors the fields of \<open>json_library\<close>; so is the decoder serde derives
  for the release metadata. The downloader of \<open>stage_with_fallback\<close> is a function on its own
  state, the file system of a commit the pair \<open>file_len\<close>, \<open>move_noreplace\<close> of \<open>file_store\<close>.
\<close>

unbundle bit_operations_syntax

section \<open>Versions\<close>

datatype version =
  Version (version_major: u16) (version_minor: u16) (version_build: u16) (version_revision: u16)

instantiation version :: linorder
begin

definition less_eq_version :: "version \<Rightarrow> version \<Rightarrow> bool" where
  "v \<le> w \<longleftrightarrow>
     (version_major v, version_minor v, version_build v, version_revision v) \<le>
     (version_major w, version_minor w, version_build w, version_revision w)"

definition less_version :: "version \<Rightarrow> version \<Rightarrow> bool" where
  "v < w \<longleftrightarrow>
     (version_major v, version_minor v, version_build v, version_revision v) <
     (version_major w, version_minor w, version_build w, version_revision w)"

instance
  by standard (auto simp: less_eq_version_def less_version_def version.expand)

end

definition version_display :: "version \<Rightarrow> string" where
  "version_display v =
     decimal_digits (unat (version_major v)) @ ''.'' @ decimal_digits (unat (version_minor v)) @
     ''.'' @ decimal_digits (unat (version_build v)) @
     (if version_revision v > 0 then ''.'' @ decimal_digits (unat (version_revision v)) else [])"

datatype version_parse_error = VersionParseError

definition ascii_digit :: "char \<Rightarrow> bool" where
  "ascii_digit c \<longleftrightarrow> 48 \<le> code_of c \<and> code_of c \<le> 57"

definition parse_version_part :: "string \<Rightarrow> u16 option" where
  "parse_version_part part =
     (if part = [] \<or> \<not> list_all ascii_digit part then None
      else map_option of_nat (parse_unsigned 16 part))"

definition version_from_str :: "string \<Rightarrow> version_parse_error + version" where
  "version_from_str value =
     (let value = (case strip_prefix ''v'' value of Some v \<Rightarrow> v | None \<Rightarrow> value);
          parts = split_on CHR ''.'' value
      in if \<not> (2 \<le> length parts \<and> length parts \<le> 4) then Inl VersionParseError
         else case those (map parse_version_part parts) of
           None \<Rightarrow> Inl VersionParseError
         | Some nums \<Rightarrow>
             let parsed = nums @ replicate (4 - length nums) 0
             in Inr (Version (parsed ! 0) (parsed ! 1) (parsed ! 2) (parsed ! 3)))"

section \<open>Download sources\<close>

record download_source =
  source_base_url :: base_url
  source_target :: string

definition download_source_parse :: "string \<Rightarrow> request_error + download_source" where
  "download_source_parse absolute_url =
     (case split_absolute absolute_url of
        Inl e \<Rightarrow> Inl e
      | Inr (base, target) \<Rightarrow> Inr \<lparr>source_base_url = base, source_target = target\<rparr>)"

definition source_absolute_url :: "download_source \<Rightarrow> string" where
  "source_absolute_url s = base_as_str (source_base_url s) @ source_target s"

definition legacy_direct_checksum_sources :: "download_source \<Rightarrow> download_source list" where
  "legacy_direct_checksum_sources source =
     (let (path, query) = (case split_once ''?'' (source_target source) of
            Some (path, query) \<Rightarrow> (path, Some query) | None \<Rightarrow> (source_target source, None));
          build = (\<lambda>suffix.
            source\<lparr>source_target := path @ suffix @
              (case query of Some q \<Rightarrow> ''?'' @ q | None \<Rightarrow> [])\<rparr>)
      in [build ''.md5'', build ''.md5sum''])"

section \<open>Release metadata\<close>

record release_asset_wire =
  asset_name :: string
  asset_browser_download_url :: string

record release_metadata_wire =
  wire_tag_name :: string
  wire_body :: "string option"
  wire_assets :: "release_asset_wire list"

record release_metadata =
  release_version :: version
  release_changelog :: "string option"
  release_download_source :: download_source

datatype metadata_error = InvalidJson | InvalidVersion | MissingSelfUpdateAsset | InvalidAssetUrl

definition release_metadata_from_json ::
  "(bytes \<Rightarrow> release_metadata_wire option) \<Rightarrow> bytes \<Rightarrow> metadata_error + release_metadata" where
  "release_metadata_from_json decode bytes =
     (case decode bytes of
        None \<Rightarrow> Inl InvalidJson
      | Some wire \<Rightarrow>
          (case version_from_str (wire_tag_name wire) of
             Inl _ \<Rightarrow> Inl InvalidVersion
           | Inr v \<Rightarrow>
               (case find (\<lambda>a. asset_name a = ''d3d11.dll'') (wire_assets wire) of
                  None \<Rightarrow> Inl MissingSelfUpdateAsset
                | Some asset \<Rightarrow>
                    (case download_source_parse (asset_browser_download_url asset) of
                       Inl _ \<Rightarrow> Inl InvalidAssetUrl
                     | Inr source \<Rightarrow>
                         Inr \<lparr>release_version = v, release_changelog = wire_body wire,
                              release_download_source = source\<rparr>))))"

datatype update_check_error = UpdateRequest | UpdateHttpStatus u16 | UpdateInvalidMetadata

definition zero_duration :: duration where
  "zero_duration = \<lparr>dur_secs = 0, dur_nanos = 0\<rparr>"

definition fetch_release_metadata ::
  "'t transport \<Rightarrow> 's cache_store \<Rightarrow> http_libraries \<Rightarrow> (bytes \<Rightarrow> release_metadata_wire option) \<Rightarrow>
     int \<Rightarrow> string \<Rightarrow> ('t, 's) http_client \<Rightarrow>
     ('t, 's) http_client \<times> (update_check_error + release_metadata)" where
  "fetch_release_metadata transport ops lib decode now endpoint c =
     (case client_get transport ops lib now endpoint [] (MaxAge zero_duration) c of
        (c, Inl _) \<Rightarrow> (c, Inl UpdateRequest)
      | (c, Inr response) \<Rightarrow>
          if \<not> is_success response then (c, Inl (UpdateHttpStatus (resp_status_code response)))
          else case release_metadata_from_json decode (resp_body response) of
            Inl _ \<Rightarrow> (c, Inl UpdateInvalidMetadata)
          | Inr m \<Rightarrow> (c, Inr m))"

definition self_update_sources :: "release_metadata \<Rightarrow> download_source list" where
  "self_update_sources release = [release_download_source release]"

section \<open>GitHub releases\<close>

datatype github_repository_error = GithubRepositoryError

definition github_repository_path :: "string \<Rightarrow> github_repository_error + string" where
  "github_repository_path repository_url =
     (case split_absolute repository_url of
        Inl _ \<Rightarrow> Inl GithubRepositoryError
      | Inr (base, target) \<Rightarrow>
          if base_as_str base \<noteq> ''https://github.com'' \<or> CHR ''?'' \<in> set target
          then Inl GithubRepositoryError
          else case split_on CHR ''/'' (trim_char CHR ''/'' target) of
            [owner, repository] \<Rightarrow>
              if owner = [] \<or> repository = [] then Inl GithubRepositoryError
              else Inr (''/'' @ owner @ ''/'' @ repository)
          | _ \<Rightarrow> Inl GithubRepositoryError)"

definition github_releases_endpoint :: "string \<Rightarrow> github_repository_error + string" where
  "github_releases_endpoint repository_url =
     map_sum id (\<lambda>p. ''/repos'' @ p @ ''/releases'') (github_repository_path repository_url)"

definition github_latest_release_endpoint :: "string \<Rightarrow> github_repository_error + string" where
  "github_latest_release_endpoint repository_url =
     map_sum id (\<lambda>p. ''/repos'' @ p @ ''/releases/latest'') (github_repository_path repository_url)"

text \<open>The accessors of the JSON library's value type the code uses.\<close>

record 'j json_library =
  json_from_slice :: "bytes \<Rightarrow> 'j option"
  json_get :: "'j \<Rightarrow> string \<Rightarrow> 'j option"
  json_as_bool :: "'j \<Rightarrow> bool option"
  json_as_str :: "'j \<Rightarrow> string option"
  json_as_array :: "'j \<Rightarrow> 'j list option"

definition json_field :: "'j json_library \<Rightarrow> ('j \<Rightarrow> 'v option) \<Rightarrow> string \<Rightarrow> 'j \<Rightarrow> 'v option" where
  "json_field js as name value = Option.bind (json_get js value name) as"

definition dll_asset_source :: "'j json_library \<Rightarrow> 'j \<Rightarrow> download_source option" where
  "dll_asset_source js asset =
     (case json_field js (json_as_str js) ''name'' asset of
        None \<Rightarrow> None
      | Some name \<Rightarrow>
          if \<not> ends_with ''.dll'' name then None
          else case json_field js (json_as_str js) ''browser_download_url'' asset of
            None \<Rightarrow> None
          | Some url \<Rightarrow>
              (case download_source_parse url of Inl _ \<Rightarrow> None | Inr source \<Rightarrow> Some source))"

fun first_dll_source :: "'j json_library \<Rightarrow> 'j list \<Rightarrow> download_source option" where
  "first_dll_source js [] = None"
| "first_dll_source js (asset # assets) =
     (case dll_asset_source js asset of
        Some source \<Rightarrow> Some source
      | None \<Rightarrow> first_dll_source js assets)"

record addon_release =
  addon_version :: version
  addon_source :: download_source

datatype github_release_error = GithubInvalidJson | GithubInvalidShape

text \<open>One pass of the loop over the releases; every \<open>continue\<close> keeps the selection.\<close>

definition consider_release ::
  "'j json_library \<Rightarrow> version \<Rightarrow> bool \<Rightarrow> 'j \<Rightarrow> addon_release option \<Rightarrow> addon_release option" where
  "consider_release js current allow_prereleases release selected =
     (case json_field js (json_as_bool js) ''prerelease'' release of
        None \<Rightarrow> selected
      | Some prerelease \<Rightarrow>
          if prerelease \<and> \<not> allow_prereleases then selected
          else case json_field js (json_as_str js) ''tag_name'' release of
            None \<Rightarrow> selected
          | Some tag_name \<Rightarrow>
              (case version_from_str tag_name of
                 Inl _ \<Rightarrow> selected
               | Inr v \<Rightarrow>
                   if v \<le> (case selected of Some item \<Rightarrow> addon_version item | None \<Rightarrow> current)
                   then selected
                   else case json_field js (json_as_array js) ''assets'' release of
                     None \<Rightarrow> selected
                   | Some assets \<Rightarrow>
                       (case first_dll_source js assets of
                          Some source \<Rightarrow> Some \<lparr>addon_version = v, addon_source = source\<rparr>
                        | None \<Rightarrow> selected)))"

definition select_github_addon_update ::
  "'j json_library \<Rightarrow> bytes \<Rightarrow> version \<Rightarrow> bool \<Rightarrow> github_release_error + addon_release option" where
  "select_github_addon_update js bytes current allow_prereleases =
     (case json_from_slice js bytes of
        None \<Rightarrow> Inl GithubInvalidJson
      | Some value \<Rightarrow>
          (case json_as_array js value of
             None \<Rightarrow> Inl GithubInvalidShape
           | Some releases \<Rightarrow>
               Inr (fold (consider_release js current allow_prereleases) releases None)))"

definition select_latest_github_dll ::
  "'j json_library \<Rightarrow> bytes \<Rightarrow> github_release_error + download_source option" where
  "select_latest_github_dll js bytes =
     (case json_from_slice js bytes of
        None \<Rightarrow> Inl GithubInvalidJson
      | Some value \<Rightarrow>
          (case json_field js (json_as_array js) ''assets'' value of
             None \<Rightarrow> Inl GithubInvalidShape
           | Some assets \<Rightarrow> Inr (first_dll_source js assets)))"

section \<open>Checksums\<close>

datatype digest_parse_error = DigestParseError

definition byte_whitespace :: "u8 \<Rightarrow> bool" where
  "byte_whitespace b \<longleftrightarrow> b \<in> {0x20, 0x09, 0x0A, 0x0C, 0x0D}"

definition hex_byte_value :: "u8 \<Rightarrow> nat option" where
  "hex_byte_value b = hex_value (char_of (unat b))"

text \<open>The first token of the text: skip white space, then take what is not.\<close>

definition first_token :: "bytes \<Rightarrow> bytes" where
  "first_token text =
     takeWhile (\<lambda>b. \<not> byte_whitespace b) (dropWhile byte_whitespace text)"

fun hex_pairs :: "bytes \<Rightarrow> bytes option" where
  "hex_pairs (a # b # rest) =
     (case (hex_byte_value a, hex_byte_value b, hex_pairs rest) of
        (Some x, Some y, Some bytes) \<Rightarrow> Some (of_nat (16 * x + y) # bytes)
      | _ \<Rightarrow> None)"
| "hex_pairs [] = Some []"
| "hex_pairs [a] = None"

definition parse_checksum_file :: "bytes \<Rightarrow> digest_parse_error + bytes" where
  "parse_checksum_file bytes =
     (if \<not> utf8_valid bytes then Inl DigestParseError
      else let token = first_token bytes
           in if length token \<noteq> 32 \<or> \<not> list_all (\<lambda>b. hex_byte_value b \<noteq> None) token
              then Inl DigestParseError
              else case hex_pairs token of
                None \<Rightarrow> Inl DigestParseError | Some digest \<Rightarrow> Inr digest)"

definition direct_addon_update_available :: "bytes \<Rightarrow> bytes \<Rightarrow> digest_parse_error + bool" where
  "direct_addon_update_available local checksum_response =
     map_sum id (\<lambda>remote. local \<noteq> remote) (parse_checksum_file checksum_response)"

section \<open>Plans\<close>

datatype plan_error = NoSources | InvalidLimit | OverlappingPaths

record replacement_plan =
  plan_current :: path
  plan_staged :: path
  plan_backup :: path

definition replacement_plan_new :: "path \<Rightarrow> path \<Rightarrow> path \<Rightarrow> plan_error + replacement_plan" where
  "replacement_plan_new current staged backup =
     (if current = staged \<or> current = backup \<or> staged = backup then Inl OverlappingPaths
      else Inr \<lparr>plan_current = current, plan_staged = staged, plan_backup = backup\<rparr>)"

datatype commit_plan = InstallPlan path | ReplacePlan replacement_plan

record download_plan =
  dl_sources :: "download_source list"
  dl_staging :: path
  dl_max_bytes :: usize
  dl_commit :: commit_plan

definition validate_download_parameters :: "download_source list \<Rightarrow> usize \<Rightarrow> plan_error + unit" where
  "validate_download_parameters sources max_bytes =
     (if sources = [] then Inl NoSources
      else if max_bytes = 0 then Inl InvalidLimit
      else Inr ())"

definition plan_replacement ::
  "download_source list \<Rightarrow> replacement_plan \<Rightarrow> usize \<Rightarrow> plan_error + download_plan" where
  "plan_replacement sources replacement max_bytes =
     (case validate_download_parameters sources max_bytes of
        Inl e \<Rightarrow> Inl e
      | Inr _ \<Rightarrow> Inr \<lparr>dl_sources = sources, dl_staging = plan_staged replacement,
                      dl_max_bytes = max_bytes, dl_commit = ReplacePlan replacement\<rparr>)"

definition plan_installation ::
  "download_source list \<Rightarrow> path \<Rightarrow> path \<Rightarrow> usize \<Rightarrow> plan_error + download_plan" where
  "plan_installation sources staging destination max_bytes =
     (case validate_download_parameters sources max_bytes of
        Inl e \<Rightarrow> Inl e
      | Inr _ \<Rightarrow>
          if staging = destination then Inl OverlappingPaths
          else Inr \<lparr>dl_sources = sources, dl_staging = staging, dl_max_bytes = max_bytes,
                    dl_commit = InstallPlan destination\<rparr>)"

datatype self_update_decision =
  UpToDate | RemoteOlder | UpdateAvailable release_metadata download_plan

definition plan_self_update ::
  "version \<Rightarrow> release_metadata \<Rightarrow> replacement_plan \<Rightarrow> usize \<Rightarrow> plan_error + self_update_decision" where
  "plan_self_update current release replacement max_bytes =
     (if release_version release = current then Inr UpToDate
      else if release_version release < current then Inr RemoteOlder
      else case plan_replacement (self_update_sources release) replacement max_bytes of
        Inl e \<Rightarrow> Inl e
      | Inr download \<Rightarrow> Inr (UpdateAvailable release download))"

section \<open>Staging\<close>

datatype stage_error = AllSourcesFailed

text \<open>A downloader reports the number of bytes it staged, or \<open>None\<close> for a failed attempt.\<close>

type_synonym 'd downloader = "download_source \<Rightarrow> path \<Rightarrow> usize \<Rightarrow> 'd \<Rightarrow> 'd \<times> usize option"

fun stage_loop :: "'d downloader \<Rightarrow> path \<Rightarrow> usize \<Rightarrow> download_source list \<Rightarrow> 'd \<Rightarrow> 'd \<times> (stage_error + usize)" where
  "stage_loop stage staging max_bytes [] d = (d, Inl AllSourcesFailed)"
| "stage_loop stage staging max_bytes (source # sources) d =
     (case stage source staging max_bytes d of
        (d, Some bytes) \<Rightarrow>
          if bytes > 0 \<and> bytes \<le> max_bytes then (d, Inr bytes)
          else stage_loop stage staging max_bytes sources d
      | (d, None) \<Rightarrow> stage_loop stage staging max_bytes sources d)"

definition stage_with_fallback :: "'d downloader \<Rightarrow> download_plan \<Rightarrow> 'd \<Rightarrow> 'd \<times> (stage_error + usize)" where
  "stage_with_fallback stage plan d =
     stage_loop stage (dl_staging plan) (dl_max_bytes plan) (dl_sources plan) d"

section \<open>Committing\<close>

datatype replacement_error =
  MissingStaged | EmptyStaged | MissingCurrent | BackupOccupied | ReplacementStorage | MoveCurrent
  | InstallFailedRolledBack | RollbackFailed

datatype commit_error = InvalidStagedArtifact | DestinationOccupied | CommitStorage | CommitReplacement

datatype commit_outcome = Installed | Replaced

type_synonym 'f file_len = "path \<Rightarrow> 'f \<Rightarrow> 'f \<times> (file_system_error + nat option)"
type_synonym 'f file_move = "path \<Rightarrow> path \<Rightarrow> 'f \<Rightarrow> 'f \<times> (file_system_error + unit)"

definition validate_staged :: "'f file_len \<Rightarrow> path \<Rightarrow> 'f \<Rightarrow> 'f \<times> (replacement_error + unit)" where
  "validate_staged file_len staged fs =
     (case file_len staged fs of
        (fs, Inl _) \<Rightarrow> (fs, Inl ReplacementStorage)
      | (fs, Inr None) \<Rightarrow> (fs, Inl MissingStaged)
      | (fs, Inr (Some n)) \<Rightarrow> (fs, if n = 0 then Inl EmptyStaged else Inr ()))"

text \<open>The checks of \<open>apply_replacement\<close>, before anything is moved.\<close>

definition check_replacement ::
  "'f file_len \<Rightarrow> replacement_plan \<Rightarrow> 'f \<Rightarrow> 'f \<times> (replacement_error + unit)" where
  "check_replacement file_len plan fs =
     (case validate_staged file_len (plan_staged plan) fs of
        (fs, Inl e) \<Rightarrow> (fs, Inl e)
      | (fs, Inr _) \<Rightarrow>
          (case file_len (plan_current plan) fs of
             (fs, Inl _) \<Rightarrow> (fs, Inl ReplacementStorage)
           | (fs, Inr None) \<Rightarrow> (fs, Inl MissingCurrent)
           | (fs, Inr (Some _)) \<Rightarrow>
               (case file_len (plan_backup plan) fs of
                  (fs, Inl _) \<Rightarrow> (fs, Inl ReplacementStorage)
                | (fs, Inr (Some _)) \<Rightarrow> (fs, Inl BackupOccupied)
                | (fs, Inr None) \<Rightarrow> (fs, Inr ()))))"

text \<open>The three moves: save the current file, install the staged one, else restore.\<close>

definition swap_in :: "'f file_move \<Rightarrow> replacement_plan \<Rightarrow> 'f \<Rightarrow> 'f \<times> (replacement_error + unit)" where
  "swap_in move_noreplace plan fs =
     (case move_noreplace (plan_current plan) (plan_backup plan) fs of
        (fs, Inl _) \<Rightarrow> (fs, Inl MoveCurrent)
      | (fs, Inr _) \<Rightarrow>
          (case move_noreplace (plan_staged plan) (plan_current plan) fs of
             (fs, Inr _) \<Rightarrow> (fs, Inr ())
           | (fs, Inl _) \<Rightarrow>
               (case move_noreplace (plan_backup plan) (plan_current plan) fs of
                  (fs, Inr _) \<Rightarrow> (fs, Inl InstallFailedRolledBack)
                | (fs, Inl _) \<Rightarrow> (fs, Inl RollbackFailed))))"

definition apply_replacement ::
  "'f file_len \<Rightarrow> 'f file_move \<Rightarrow> replacement_plan \<Rightarrow> 'f \<Rightarrow> 'f \<times> (replacement_error + unit)" where
  "apply_replacement file_len move_noreplace plan fs =
     (case check_replacement file_len plan fs of
        (fs, Inl e) \<Rightarrow> (fs, Inl e)
      | (fs, Inr _) \<Rightarrow> swap_in move_noreplace plan fs)"

definition commit_error_from :: "replacement_error \<Rightarrow> commit_error" where
  "commit_error_from e =
     (if e = MissingStaged \<or> e = EmptyStaged then InvalidStagedArtifact else CommitReplacement)"

definition commit_install ::
  "'f file_len \<Rightarrow> 'f file_move \<Rightarrow> path \<Rightarrow> path \<Rightarrow> 'f \<Rightarrow> 'f \<times> (commit_error + commit_outcome)" where
  "commit_install file_len move_noreplace staging destination fs =
     (case validate_staged file_len staging fs of
        (fs, Inl e) \<Rightarrow> (fs, Inl (commit_error_from e))
      | (fs, Inr _) \<Rightarrow>
          (case file_len destination fs of
             (fs, Inl _) \<Rightarrow> (fs, Inl CommitStorage)
           | (fs, Inr (Some _)) \<Rightarrow> (fs, Inl DestinationOccupied)
           | (fs, Inr None) \<Rightarrow>
               (case move_noreplace staging destination fs of
                  (fs, Inl _) \<Rightarrow> (fs, Inl CommitStorage)
                | (fs, Inr _) \<Rightarrow> (fs, Inr Installed))))"

definition commit_download ::
  "'f file_len \<Rightarrow> 'f file_move \<Rightarrow> download_plan \<Rightarrow> 'f \<Rightarrow> 'f \<times> (commit_error + commit_outcome)" where
  "commit_download file_len move_noreplace plan fs =
     (case dl_commit plan of
        InstallPlan destination \<Rightarrow> commit_install file_len move_noreplace (dl_staging plan) destination fs
      | ReplacePlan replacement \<Rightarrow>
          (case apply_replacement file_len move_noreplace replacement fs of
             (fs, Inl e) \<Rightarrow> (fs, Inl (commit_error_from e))
           | (fs, Inr _) \<Rightarrow> (fs, Inr Replaced)))"

section \<open>A replacement never loses the current file\<close>

lemma replacement_plan_distinct:
  "replacement_plan_new current staged backup = Inr plan \<Longrightarrow>
     plan_current plan = current \<and> plan_staged plan = staged \<and> plan_backup plan = backup \<and>
     current \<noteq> staged \<and> current \<noteq> backup \<and> staged \<noteq> backup"
  by (auto simp: replacement_plan_new_def split: if_splits)

context file_store
begin

lemma file_len_Some: "file_len p s = (s', Inr (Some n)) \<Longrightarrow> \<exists>x. view s p = Some x \<and> n = length x"
  by (drule file_len_exact) (cases "view s p"; simp)

lemma file_len_None: "file_len p s = (s', Inr None) \<Longrightarrow> view s p = None"
  by (drule file_len_exact) simp

lemma validate_staged_view:
  assumes "validate_staged file_len p s = (s', r)"
  shows "view s' = view s" and "r = Inr u \<Longrightarrow> \<exists>x. view s p = Some x \<and> x \<noteq> []"
proof -
  obtain s1 l where l: "file_len p s = (s1, l)" by (cases "file_len p s")
  with assms have s': "s' = s1"
    by (auto simp: validate_staged_def split: sum.splits option.splits)
  show "view s' = view s" using file_len_view [OF l] s' by simp
  assume "r = Inr u"
  with assms l obtain n where "l = Inr (Some n)" "n \<noteq> 0"
    by (auto simp: validate_staged_def split: sum.splits option.splits if_splits)
  with file_len_Some [of p s s1] l show "\<exists>x. view s p = Some x \<and> x \<noteq> []" by auto
qed

lemma check_replacement_view:
  assumes "check_replacement file_len plan s = (s', r)"
  shows "view s' = view s"
    and "r = Inr u \<Longrightarrow> (\<exists>x. view s (plan_staged plan) = Some x \<and> x \<noteq> []) \<and>
      view s (plan_current plan) \<noteq> None \<and> view s (plan_backup plan) = None"
    and "r = Inl e \<Longrightarrow> e \<in> {MissingStaged, EmptyStaged, MissingCurrent, BackupOccupied, ReplacementStorage}"
proof -
  obtain s1 v where v: "validate_staged file_len (plan_staged plan) s = (s1, v)"
    by (cases "validate_staged file_len (plan_staged plan) s")
  obtain s2 c where c: "file_len (plan_current plan) s1 = (s2, c)"
    by (cases "file_len (plan_current plan) s1")
  obtain s3 b where b: "file_len (plan_backup plan) s2 = (s3, b)"
    by (cases "file_len (plan_backup plan) s2")
  note views = validate_staged_view(1) [OF v] file_len_view [OF c] file_len_view [OF b]
  have "s' = s1 \<or> s' = s2 \<or> s' = s3"
    using assms v c b by (auto simp: check_replacement_def split: sum.splits option.splits)
  then show "view s' = view s" using views by auto
  show "(\<exists>x. view s (plan_staged plan) = Some x \<and> x \<noteq> []) \<and>
      view s (plan_current plan) \<noteq> None \<and> view s (plan_backup plan) = None" if "r = Inr u"
  proof -
    from assms v c b that obtain n u' where "v = Inr u'" "c = Inr (Some n)" "b = Inr None"
      by (auto simp: check_replacement_def split: sum.splits option.splits)
    then show ?thesis
      using validate_staged_view(2) [OF v] file_len_Some [of "plan_current plan" s1 s2 n]
        file_len_None [of "plan_backup plan" s2 s3] c b views
      by auto
  qed
  show "r = Inl e \<Longrightarrow> e \<in> {MissingStaged, EmptyStaged, MissingCurrent, BackupOccupied, ReplacementStorage}"
    using assms v c b
    by (auto simp: check_replacement_def validate_staged_def
        split: sum.splits option.splits prod.splits if_splits)
qed

text \<open>What the three moves leave, by outcome.\<close>

lemma swap_in_view:
  assumes "swap_in move_noreplace plan s = (s', r)"
    and "view s (plan_current plan) = Some old" and "view s (plan_staged plan) = Some new"
    and "view s (plan_backup plan) = None"
    and "distinct [plan_current plan, plan_staged plan, plan_backup plan]"
  shows "case r of
      Inr _ \<Rightarrow> view s' = (view s)(plan_current plan \<mapsto> new, plan_staged plan := None, plan_backup plan \<mapsto> old)
    | Inl InstallFailedRolledBack \<Rightarrow> view s' = view s
    | Inl MoveCurrent \<Rightarrow> view s' = view s \<or> view s' = (view s)(plan_backup plan \<mapsto> old)
    | Inl RollbackFailed \<Rightarrow> (\<exists>x. view s' = (view s)(plan_backup plan \<mapsto> old, plan_current plan := x) \<and>
        x \<in> {None, Some old, Some new})
    | Inl _ \<Rightarrow> False"
proof -
  let ?c = "plan_current plan" and ?n = "plan_staged plan" and ?b = "plan_backup plan"
  obtain s1 m1 where m1: "move_noreplace ?c ?b s = (s1, m1)" by (cases "move_noreplace ?c ?b s")
  obtain s2 m2 where m2: "move_noreplace ?n ?c s1 = (s2, m2)" by (cases "move_noreplace ?n ?c s1")
  obtain s3 m3 where m3: "move_noreplace ?b ?c s2 = (s3, m3)" by (cases "move_noreplace ?b ?c s2")
  show ?thesis
  proof (cases m1)
    case (Inl e)
    with assms(1) m1 have "s' = s1" "r = Inl MoveCurrent" by (simp_all add: swap_in_def)
    with move_err [of ?c ?b s s1 e] m1 Inl assms(2) show ?thesis by auto
  next
    case saved: (Inr u)
    have v1: "view s1 = (view s)(?c := None, ?b \<mapsto> old)"
      using move_ok [of ?c ?b s s1 u] m1 saved assms(2) by simp
    show ?thesis
    proof (cases m2)
      case (Inr u')
      with assms(1) m1 m2 saved have "s' = s2" "r = Inr ()" by (simp_all add: swap_in_def)
      moreover have "view s2 = (view s1)(?n := None, ?c := view s1 ?n)"
        using move_ok [of ?n ?c s1 s2 u'] m2 Inr by simp
      ultimately show ?thesis using v1 assms(3,5) by (auto simp: fun_eq_iff)
    next
      case failed: (Inl e)
      have v2: "view s2 = view s1 \<or> view s2 = (view s1)(?c \<mapsto> new)"
        using move_err [of ?n ?c s1 s2 e] m2 failed v1 assms(3,5) by auto
      show ?thesis
      proof (cases m3)
        case (Inr u')
        with assms(1) m1 m2 m3 saved failed have r: "s' = s3" "r = Inl InstallFailedRolledBack"
          by (simp_all add: swap_in_def)
        have "view s2 ?c = None" "view s3 = (view s2)(?b := None, ?c := view s2 ?b)"
          using move_ok [of ?b ?c s2 s3 u'] m3 Inr by simp_all
        moreover from this v2 have "view s2 = view s1" by (metis fun_upd_same option.distinct(1))
        ultimately show ?thesis using r v1 assms(2,4,5) by (auto simp: fun_eq_iff)
      next
        case (Inl e')
        with assms(1) m1 m2 m3 saved failed have r: "s' = s3" "r = Inl RollbackFailed"
          by (simp_all add: swap_in_def)
        have "view s3 = view s2 \<or> view s2 ?c = None \<and> view s3 = (view s2)(?c := view s2 ?b)"
          using move_err [of ?b ?c s2 s3 e'] m3 Inl by auto
        with v2 v1 assms(5) have "\<exists>x \<in> {None, Some old, Some new}. view s3 = (view s)(?b \<mapsto> old, ?c := x)"
          by (auto simp: fun_upd_twist)
        then show ?thesis using r by auto
      qed
    qed
  qed
qed

lemma apply_replacement_view:
  assumes "replacement_plan_new current staged backup = Inr plan"
    and "apply_replacement file_len move_noreplace plan s = (s', r)"
    and "view s current = Some old"
  shows "(\<forall>p. p \<notin> {current, staged, backup} \<longrightarrow> view s' p = view s p) \<and>
    (case r of
      Inr _ \<Rightarrow> (\<exists>new. new \<noteq> [] \<and> view s staged = Some new \<and> view s' current = Some new \<and>
        view s' staged = None \<and> view s' backup = Some old)
    | Inl MoveCurrent \<Rightarrow> view s' current = Some old \<and> view s' staged = view s staged
    | Inl RollbackFailed \<Rightarrow> view s' backup = Some old \<and> view s' staged = view s staged
    | Inl _ \<Rightarrow> view s' = view s)"
proof -
  note plan = replacement_plan_distinct [OF assms(1)]
  obtain s1 c where c: "check_replacement file_len plan s = (s1, c)"
    by (cases "check_replacement file_len plan s")
  show ?thesis
  proof (cases c)
    case (Inl e)
    with assms(2) c have "s' = s1" "r = Inl e" by (simp_all add: apply_replacement_def)
    with check_replacement_view(1,3) [OF c] Inl show ?thesis by auto
  next
    case (Inr u)
    with assms(2) c have swap: "swap_in move_noreplace plan s1 = (s', r)"
      by (simp add: apply_replacement_def)
    from check_replacement_view [OF c] Inr plan obtain new where
      v: "view s1 = view s" "view s staged = Some new" "new \<noteq> []" "view s backup = None" by auto
    have "distinct [plan_current plan, plan_staged plan, plan_backup plan]" using plan by auto
    from swap_in_view [OF swap _ _ _ this, of old new] v plan assms(3)
    have "case r of
        Inr _ \<Rightarrow> view s' = (view s)(current \<mapsto> new, staged := None, backup \<mapsto> old)
      | Inl InstallFailedRolledBack \<Rightarrow> view s' = view s
      | Inl MoveCurrent \<Rightarrow> view s' = view s \<or> view s' = (view s)(backup \<mapsto> old)
      | Inl RollbackFailed \<Rightarrow> (\<exists>x. view s' = (view s)(backup \<mapsto> old, current := x) \<and>
          x \<in> {None, Some old, Some new})
      | Inl _ \<Rightarrow> False"
      by (simp only: simp_thms)
    with plan v assms(3) show ?thesis
      by (auto split: sum.splits replacement_error.splits)
  qed
qed

end

text \<open>
  C9. A replacement never loses the file it replaces, whichever calls of the operating system
  fail: on success the staged contents are current and the old ones are the backup; every error
  but two leaves all files as they were; if the current file could not be saved it is still
  current; and if even the rollback failed, the old contents are the backup. No other file is
  touched.
\<close>
theorem replacement_never_loses:
  assumes "replacement_plan_new current staged backup = Inr plan"
    and "apply_replacement std_file_len std_move_noreplace plan d = (d', r)"
    and "contents d current = Some old"
  shows "(\<forall>p. p \<notin> {current, staged, backup} \<longrightarrow> contents d' p = contents d p) \<and>
    (case r of
      Inr _ \<Rightarrow> (\<exists>new. new \<noteq> [] \<and> contents d staged = Some new \<and> contents d' current = Some new \<and>
        contents d' staged = None \<and> contents d' backup = Some old)
    | Inl MoveCurrent \<Rightarrow> contents d' current = Some old \<and> contents d' staged = contents d staged
    | Inl RollbackFailed \<Rightarrow> contents d' backup = Some old \<and> contents d' staged = contents d staged
    | Inl _ \<Rightarrow> contents d' = contents d)"
  using assms by (rule std.apply_replacement_view)

definition demo_update_disk :: "os_fault option list \<Rightarrow> disk" where
  "demo_update_disk fs =
     \<lparr>nodes = [[''cur''] \<mapsto> RegularFile [1], [''new''] \<mapsto> RegularFile [2]],
      temp_file_sequence = 0, faults = fs\<rparr>"

text \<open>The link that would install the staged file fails; the restoring move succeeds.\<close>

definition demo_plan :: replacement_plan where
  "demo_plan = \<lparr>plan_current = [''cur''], plan_staged = [''new''], plan_backup = [''old'']\<rparr>"

lemma demo_replacement:
  "snd (apply_replacement std_file_len std_move_noreplace demo_plan
     (demo_update_disk [None, None, None, None, None, denied])) = Inl InstallFailedRolledBack"
  by (simp add: apply_replacement_def check_replacement_def validate_staged_def swap_in_def
      std_file_len_def std_move_noreplace_def os_call_defs next_fault_def put_node_def
      demo_plan_def demo_update_disk_def denied_def fault_kind_def)

lemma replacement_never_loses_witness:
  "contents (fst (apply_replacement std_file_len std_move_noreplace demo_plan
     (demo_update_disk [None, None, None, None, None, denied]))) [''cur''] = Some [1]"
proof -
  let ?d = "demo_update_disk [None, None, None, None, None, denied]"
  let ?run = "apply_replacement std_file_len std_move_noreplace demo_plan ?d"
  have run: "?run = (fst ?run, Inl InstallFailedRolledBack)" by (simp add: prod_eq_iff demo_replacement)
  have plan: "replacement_plan_new [''cur''] [''new''] [''old''] = Inr demo_plan"
    by (simp add: replacement_plan_new_def demo_plan_def)
  have cur: "contents ?d [''cur''] = Some [1]" by (simp add: contents_def demo_update_disk_def)
  from replacement_never_loses [OF plan run cur] cur show ?thesis by simp
qed

section \<open>Versions print and parse\<close>

lemma decimal_digits_chars: "c \<in> set (decimal_digits n) \<Longrightarrow> ascii_digit c"
proof (induction n rule: decimal_digits.induct)
  case (1 n)
  have "ascii_digit (digit_char k)" if "k < 10" for k
    using that by (simp add: ascii_digit_def digit_code)
  with 1 show ?case
    by (cases "n < 10") (auto simp: decimal_digits.simps [of n])
qed

lemma decimal_digits_plain: "CHR ''.'' \<notin> set (decimal_digits n)"
proof
  assume "CHR ''.'' \<in> set (decimal_digits n)"
  from decimal_digits_chars [OF this] show False by (simp add: ascii_digit_def)
qed

lemma decimal_digits_not_Nil [simp]: "decimal_digits n \<noteq> []"
  using decimal_digits_head [of n] by auto

lemma decimal_digits_not_v: "strip_prefix ''v'' (decimal_digits n @ s) = None"
proof -
  obtain c r where c: "decimal_digits n = c # r" using decimal_digits_head [of n] by auto
  then have "ascii_digit c" using decimal_digits_chars [of c n] by simp
  then have "c \<noteq> CHR ''v''" by (auto simp: ascii_digit_def)
  with c show ?thesis by (simp add: strip_prefix_def)
qed

lemma parse_version_part_digits: "parse_version_part (decimal_digits (unat w)) = Some w"
proof -
  have "unat w < 2 ^ 16" using unsigned_less [of w] by simp
  then have "parse_unsigned 16 (decimal_digits (unat w)) = Some (unat w)" by (rule decimal_roundtrip)
  moreover have "list_all ascii_digit (decimal_digits (unat w))"
    by (simp add: list_all_iff decimal_digits_chars)
  ultimately show ?thesis by (simp add: parse_version_part_def)
qed

lemma split_version:
  "split_on CHR ''.'' (decimal_digits n @ CHR ''.'' # s) = decimal_digits n # split_on CHR ''.'' s"
  "split_on CHR ''.'' (decimal_digits n) = [decimal_digits n]"
  by (simp_all add: split_on_delimited split_on_one decimal_digits_plain)

lemma version_from_display: "version_from_str (version_display v) = Inr v"
  by (cases v)
    (auto simp: version_from_str_def version_display_def decimal_digits_not_v split_version
      parse_version_part_digits eval_nat_numeral word_gt_0)

lemma version_from_tag: "version_from_str (''v'' @ version_display v) = Inr v"
proof -
  have "version_from_str (''v'' @ version_display v) = version_from_str (version_display v)"
    using strip_prefix_append [of "''v''" "version_display v"]
    by (simp add: version_from_str_def version_display_def decimal_digits_not_v)
  then show ?thesis by (simp add: version_from_display)
qed

text \<open>
  Every version is read back from what \<open>Display\<close> prints, with or without the release tag's
  leading \<open>v\<close>, and printing is injective.
\<close>
theorem version_roundtrip:
  "version_from_str (version_display v) = Inr v \<and> version_from_str (''v'' @ version_display v) = Inr v \<and>
   (version_display v = version_display w \<longleftrightarrow> v = w)"
  using version_from_display [of v] version_from_display [of w] version_from_tag by (metis sum.inject(2))

section \<open>The selected release\<close>

text \<open>The release an entry of the response stands for, when it is eligible and newer.\<close>

definition release_candidate ::
  "'j json_library \<Rightarrow> version \<Rightarrow> bool \<Rightarrow> 'j \<Rightarrow> addon_release option" where
  "release_candidate js current allow_prereleases release =
     consider_release js current allow_prereleases release None"

definition candidates :: "'j json_library \<Rightarrow> version \<Rightarrow> bool \<Rightarrow> 'j list \<Rightarrow> addon_release list" where
  "candidates js current allow_prereleases releases =
     List.map_filter (release_candidate js current allow_prereleases) releases"

definition newest :: "addon_release list \<Rightarrow> addon_release option" where
  "newest xs = find (\<lambda>c. list_all (\<lambda>x. addon_version x \<le> addon_version c) xs) xs"

definition keep_newer :: "addon_release \<Rightarrow> addon_release option \<Rightarrow> addon_release option" where
  "keep_newer c sel =
     (case sel of
        None \<Rightarrow> Some c
      | Some s \<Rightarrow> if addon_version c \<le> addon_version s then Some s else Some c)"

lemma candidate_newer:
  "release_candidate js current allow release = Some c \<Longrightarrow> current < addon_version c"
  by (auto simp: release_candidate_def consider_release_def
      split: option.splits sum.splits if_splits)

lemma consider_release_step:
  assumes "\<And>s. sel = Some s \<Longrightarrow> current < addon_version s"
  shows "consider_release js current allow release sel =
    (case release_candidate js current allow release of None \<Rightarrow> sel | Some c \<Rightarrow> keep_newer c sel)"
  using assms
  by (cases sel)
    (auto simp: release_candidate_def consider_release_def keep_newer_def
      split: option.splits sum.splits if_splits dest: order.strict_trans2)

lemma fold_consider_release:
  assumes "\<And>s. sel = Some s \<Longrightarrow> current < addon_version s"
  shows "fold (consider_release js current allow) releases sel =
    fold keep_newer (candidates js current allow releases) sel"
  using assms
proof (induction releases arbitrary: sel)
  case Nil
  then show ?case by (simp add: candidates_def List.map_filter_def)
next
  case (Cons r releases)
  let ?sel = "consider_release js current allow r sel"
  have step: "?sel = (case release_candidate js current allow r of None \<Rightarrow> sel | Some c \<Rightarrow> keep_newer c sel)"
    using Cons.prems by (rule consider_release_step)
  have "current < addon_version s" if "?sel = Some s" for s
    using that Cons.prems candidate_newer [of js current allow r] unfolding step
    by (auto simp: keep_newer_def split: option.splits if_splits)
  from Cons.IH [OF this] show ?case
    unfolding fold.simps comp_def step
    by (auto simp: candidates_def List.map_filter_def split: option.splits)
qed

lemma find_append: "find P (xs @ ys) = (case find P xs of Some x \<Rightarrow> Some x | None \<Rightarrow> find P ys)"
  by (induction xs) auto

lemma newest_snoc: "newest xs = sel \<Longrightarrow> (xs \<noteq> [] \<Longrightarrow> sel \<noteq> None) \<Longrightarrow> newest (xs @ [c]) = keep_newer c sel"
proof -
  let ?le = "\<lambda>x y. addon_version x \<le> addon_version y"
  assume sel: "newest xs = sel" and some: "xs \<noteq> [] \<Longrightarrow> sel \<noteq> None"
  show "newest (xs @ [c]) = keep_newer c sel"
  proof (cases sel)
    case None
    with some have "xs = []" by blast
    with None show ?thesis by (simp add: newest_def keep_newer_def)
  next
    case (Some s)
    have s: "s \<in> set xs" "\<And>x. x \<in> set xs \<Longrightarrow> ?le x s"
      using find_Some_iff_in [OF sel [unfolded newest_def Some]] by (auto simp: list_all_iff)
    show ?thesis
    proof (cases "?le c s")
      case True
      have "list_all (\<lambda>x. ?le x y) (xs @ [c]) = list_all (\<lambda>x. ?le x y) xs" if "y \<in> set xs" for y
        using True s by (auto simp: list_all_iff)
      then have "find (\<lambda>y. list_all (\<lambda>x. ?le x y) (xs @ [c])) xs = newest xs"
        unfolding newest_def by (intro find_cong refl)
      then show ?thesis using True Some sel by (simp add: newest_def [of "xs @ [c]"] find_append keep_newer_def)
    next
      case False
      then have max: "\<And>x. x \<in> set xs \<Longrightarrow> ?le x c" "\<And>x. x \<in> set xs \<Longrightarrow> \<not> ?le c x"
        using s(2) by (meson le_cases order_trans)+
      then have "find (\<lambda>y. list_all (\<lambda>x. ?le x y) (xs @ [c])) xs = None"
        by (auto simp: find_None_iff)
      then show ?thesis using False Some max(1) by (simp add: newest_def find_append keep_newer_def list_all_iff)
    qed
  qed
qed

lemma fold_keep_newer: "fold keep_newer xs None = newest xs \<and> (xs \<noteq> [] \<longrightarrow> newest xs \<noteq> None)"
proof (induction xs rule: rev_induct)
  case Nil
  show ?case by (simp add: newest_def)
next
  case (snoc c xs)
  then have "newest (xs @ [c]) = keep_newer c (newest xs)" by (intro newest_snoc) auto
  with snoc show ?case by (auto simp: keep_newer_def split: option.splits)
qed

text \<open>
  C11. The single pass over the releases of a response selects exactly the first of the newest
  candidates: the releases with a readable tag newer than the current version, a DLL asset with
  a valid URL, and, unless they are allowed, no prerelease flag. In particular nothing is
  selected only when there is no candidate.
\<close>
theorem github_selection_is_newest:
  assumes "json_from_slice js bytes = Some value" and "json_as_array js value = Some releases"
  shows "select_github_addon_update js bytes current allow_prereleases =
      Inr (newest (candidates js current allow_prereleases releases)) \<and>
    (newest (candidates js current allow_prereleases releases) = None \<longleftrightarrow>
       candidates js current allow_prereleases releases = [])"
proof -
  have "fold (consider_release js current allow_prereleases) releases None =
      newest (candidates js current allow_prereleases releases)"
    using fold_consider_release [of None] fold_keep_newer by simp
  then show ?thesis
    using assms fold_keep_newer [of "candidates js current allow_prereleases releases"]
    by (auto simp: select_github_addon_update_def newest_def)
qed

text \<open>A response of one release with one asset, its JSON values numbered.\<close>

definition demo_json :: "int json_library" where
  "demo_json =
     \<lparr>json_from_slice = \<lambda>bytes. Some 0,
      json_get = \<lambda>j name. map_of [((1, ''prerelease''), 2), ((1, ''tag_name''), 3), ((1, ''assets''), 4),
        ((5, ''name''), 6), ((5, ''browser_download_url''), 7)] (j, name),
      json_as_bool = \<lambda>j. if j = 2 then Some False else None,
      json_as_str = map_of [(3, ''v1.2.0''), (6, ''a.dll''), (7, ''https://h/a.dll'')],
      json_as_array = map_of [(0, [1]), (4, [5])]\<rparr>"

lemma demo_candidates:
  "candidates demo_json (Version 1 0 0 0) False [1] =
     [\<lparr>addon_version = Version 1 2 0 0,
       addon_source = \<lparr>source_base_url = BaseUrl ''https://h'', source_target = ''/a.dll''\<rparr>\<rparr>]"
proof -
  have "version_from_str ''v1.2.0'' = Inr (Version 1 2 0 0)"
  proof -
    have "version_display (Version 1 2 0 0) = ''1.2.0''" by code_simp
    then show ?thesis using version_from_tag [of "Version 1 2 0 0"] by simp
  qed
  moreover have "download_source_parse ''https://h/a.dll'' =
      Inr \<lparr>source_base_url = BaseUrl ''https://h'', source_target = ''/a.dll''\<rparr>"
    by code_simp
  moreover have "ends_with ''.dll'' ''a.dll''" by (simp add: ends_with_def starts_with_def)
  ultimately show ?thesis
    by (simp add: candidates_def List.map_filter_def release_candidate_def consider_release_def
        json_field_def demo_json_def dll_asset_source_def less_eq_version_def)
qed

lemma github_selection_is_newest_witness:
  "select_github_addon_update demo_json [] (Version 1 0 0 0) False =
     Inr (Some \<lparr>addon_version = Version 1 2 0 0,
       addon_source = \<lparr>source_base_url = BaseUrl ''https://h'', source_target = ''/a.dll''\<rparr>\<rparr>)"
proof -
  have "json_from_slice demo_json [] = Some 0" "json_as_array demo_json 0 = Some [1]"
    by (simp_all add: demo_json_def)
  from github_selection_is_newest [OF this, of "Version 1 0 0 0" False]
  show ?thesis by (simp add: demo_candidates newest_def)
qed

end
