(* ===== verification/Md5_Digest.thy ===== *)
theory Md5_Digest
  imports Text_Prelude
begin

text \<open>
  The MD5 digest of \<open>nexus-addon-manager/src/discovery.rs\<close>, which gives a binary its
  revision: the incremental state with its 64-byte buffer, the compression of a block, the
  padding of the tail, and the reading of a file in pieces. The specification is RFC 1321, written
  from its text and with nothing of the code's: the whole message is padded, and its blocks go
  through the 64 operations the RFC lists, with its table, its registers and its byte order.
\<close>

unbundle bit_operations_syntax

section \<open>The compression function\<close>

definition md5_shift :: "nat list" where
  "md5_shift =
     [7, 12, 17, 22, 7, 12, 17, 22, 7, 12, 17, 22, 7, 12, 17, 22,
      5, 9, 14, 20, 5, 9, 14, 20, 5, 9, 14, 20, 5, 9, 14, 20,
      4, 11, 16, 23, 4, 11, 16, 23, 4, 11, 16, 23, 4, 11, 16, 23,
      6, 10, 15, 21, 6, 10, 15, 21, 6, 10, 15, 21, 6, 10, 15, 21]"

definition md5_constant :: "u32 list" where
  "md5_constant =
     [0xd76aa478, 0xe8c7b756, 0x242070db, 0xc1bdceee,
      0xf57c0faf, 0x4787c62a, 0xa8304613, 0xfd469501,
      0x698098d8, 0x8b44f7af, 0xffff5bb1, 0x895cd7be,
      0x6b901122, 0xfd987193, 0xa679438e, 0x49b40821,
      0xf61e2562, 0xc040b340, 0x265e5a51, 0xe9b6c7aa,
      0xd62f105d, 0x02441453, 0xd8a1e681, 0xe7d3fbc8,
      0x21e1cde6, 0xc33707d6, 0xf4d50d87, 0x455a14ed,
      0xa9e3e905, 0xfcefa3f8, 0x676f02d9, 0x8d2a4c8a,
      0xfffa3942, 0x8771f681, 0x6d9d6122, 0xfde5380c,
      0xa4beea44, 0x4bdecfa9, 0xf6bb4b60, 0xbebfbc70,
      0x289b7ec6, 0xeaa127fa, 0xd4ef3085, 0x04881d05,
      0xd9d4d039, 0xe6db99e5, 0x1fa27cf8, 0xc4ac5665,
      0xf4292244, 0x432aff97, 0xab9423a7, 0xfc93a039,
      0x655b59c3, 0x8f0ccc92, 0xffeff47d, 0x85845dd1,
      0x6fa87e4f, 0xfe2ce6e0, 0xa3014314, 0x4e0811a1,
      0xf7537e82, 0xbd3af235, 0x2ad7d2bb, 0xeb86d391]"

type_synonym md5_words = "u32 \<times> u32 \<times> u32 \<times> u32"

text \<open>\<open>from_le_bytes\<close> and \<open>to_le_bytes\<close>.\<close>

fun u32_from_le_bytes :: "u8 list \<Rightarrow> u32" where
  "u32_from_le_bytes [] = 0"
| "u32_from_le_bytes (b # bs) = ucast b + 256 * u32_from_le_bytes bs"

definition u32_to_le_bytes :: "u32 \<Rightarrow> u8 list" where
  "u32_to_le_bytes w = map (\<lambda>i. ucast (drop_bit (8 * i) w)) [0 ..< 4]"

definition u64_to_le_bytes :: "u64 \<Rightarrow> u8 list" where
  "u64_to_le_bytes w = map (\<lambda>i. ucast (drop_bit (8 * i) w)) [0 ..< 8]"

text \<open>\<open>chunks_exact(n)\<close>: whole pieces of \<open>n\<close> elements.\<close>

function chunks_exact :: "nat \<Rightarrow> 'a list \<Rightarrow> 'a list list" where
  "chunks_exact n xs =
     (if n = 0 \<or> length xs < n then [] else take n xs # chunks_exact n (drop n xs))"
  by pat_completeness auto

termination by (relation "measure (\<lambda>(n, xs). length xs)") auto

declare chunks_exact.simps [simp del]

definition md5_mix :: "nat \<Rightarrow> u32 \<Rightarrow> u32 \<Rightarrow> u32 \<Rightarrow> u32 \<times> nat" where
  "md5_mix index b c d =
     (if index \<le> 15 then ((b AND c) OR (NOT b AND d), index)
      else if index \<le> 31 then ((d AND b) OR (NOT d AND c), (5 * index + 1) mod 16)
      else if index \<le> 47 then (b XOR c XOR d, (3 * index + 5) mod 16)
      else (c XOR (b OR NOT d), (7 * index) mod 16))"

definition md5_round :: "u32 list \<Rightarrow> nat \<Rightarrow> md5_words \<Rightarrow> md5_words" where
  "md5_round words index = (\<lambda>(a, b, c, d).
     let (mixed, word_index) = md5_mix index b c d;
         next_value = a + mixed + md5_constant ! index + words ! word_index
     in (d, b + word_rotl (md5_shift ! index) next_value, b, c))"

definition md5_compress :: "u8 list \<Rightarrow> md5_words \<Rightarrow> md5_words" where
  "md5_compress block = (\<lambda>(a0, b0, c0, d0).
     let words = map u32_from_le_bytes (chunks_exact 4 block);
         (a, b, c, d) = fold (md5_round words) [0 ..< 64] (a0, b0, c0, d0)
     in (a0 + a, b0 + b, c0 + c, d0 + d))"

definition md5_initial :: md5_words where
  "md5_initial = (0x67452301, 0xefcdab89, 0x98badcfe, 0x10325476)"

definition md5_output :: "md5_words \<Rightarrow> u8 list" where
  "md5_output = (\<lambda>(a, b, c, d). concat (map u32_to_le_bytes [a, b, c, d]))"

section \<open>The incremental digest\<close>

record md5 =
  md5_state :: md5_words
  md5_byte_len :: u64
  md5_buffer :: "u8 list"
  md5_buffered :: nat

definition md5_new :: md5 where
  "md5_new =
     \<lparr>md5_state = md5_initial, md5_byte_len = 0, md5_buffer = replicate 64 0, md5_buffered = 0\<rparr>"

text \<open>\<open>buffer[at..at + len].copy_from_slice(xs)\<close>.\<close>

definition copy_into :: "nat \<Rightarrow> 'a list \<Rightarrow> 'a list \<Rightarrow> 'a list" where
  "copy_into start xs buffer = take start buffer @ xs @ drop (start + length xs) buffer"

text \<open>The loop over whole blocks of the input, and what it leaves in the buffer.\<close>

function md5_absorb :: "u8 list \<Rightarrow> md5 \<Rightarrow> md5" where
  "md5_absorb input s =
     (if 64 \<le> length input
      then md5_absorb (drop 64 input) (s\<lparr>md5_state := md5_compress (take 64 input) (md5_state s)\<rparr>)
      else s\<lparr>md5_buffer := copy_into 0 input (md5_buffer s), md5_buffered := length input\<rparr>)"
  by pat_completeness auto

termination by (relation "measure (\<lambda>(input, s). length input)") auto

declare md5_absorb.simps [simp del]

definition md5_update :: "u8 list \<Rightarrow> md5 \<Rightarrow> md5" where
  "md5_update input s =
     (let s = s\<lparr>md5_byte_len := md5_byte_len s + of_nat (length input)\<rparr>
      in if md5_buffered s \<noteq> 0 then
           (let n = min (64 - md5_buffered s) (length input);
                s = s\<lparr>md5_buffer := copy_into (md5_buffered s) (take n input) (md5_buffer s),
                      md5_buffered := md5_buffered s + n\<rparr>
            in if md5_buffered s < 64 then s
               else md5_absorb (drop n input)
                 (s\<lparr>md5_state := md5_compress (md5_buffer s) (md5_state s), md5_buffered := 0\<rparr>))
         else md5_absorb input s)"

definition md5_tail :: "md5 \<Rightarrow> u8 list" where
  "md5_tail s =
     (let bit_len = md5_byte_len s * 8;
          tail = replicate 128 0;
          tail = copy_into 0 (take (md5_buffered s) (md5_buffer s)) tail;
          tail = tail[md5_buffered s := 0x80];
          tail_len = (if md5_buffered s < 56 then 64 else 128);
          tail = copy_into (tail_len - 8) (u64_to_le_bytes bit_len) tail
      in take tail_len tail)"

definition md5_finalize :: "md5 \<Rightarrow> u8 list" where
  "md5_finalize s = md5_output (fold md5_compress (chunks_exact 64 (md5_tail s)) (md5_state s))"

text \<open>
  \<open>revision_from_file\<close>: the reader answers each call with a piece of the file or an error; an
  empty piece is the end of the file. \<open>None\<close> is a script that stops before the end.
\<close>

datatype read_answer = ReadPiece "u8 list" | ReadFailed

fun revision_loop :: "read_answer list \<Rightarrow> md5 \<Rightarrow> (unit + u8 list) option" where
  "revision_loop [] s = None"
| "revision_loop (ReadFailed # answers) s = Some (Inl ())"
| "revision_loop (ReadPiece piece # answers) s =
     (if piece = [] then Some (Inr (md5_finalize s))
      else revision_loop answers (md5_update piece s))"

definition revision_from_file :: "read_answer list \<Rightarrow> (unit + u8 list) option" where
  "revision_from_file answers = revision_loop answers md5_new"

section \<open>The specification\<close>

text \<open>
  RFC 1321. Section 3.1 and 3.2: a one bit, zeros up to 448 modulo 512 bits, and the length in
  bits, of which the low-order 64 count. Section 2: the low-order byte of a word comes first.
\<close>

definition rfc_bytes :: "nat \<Rightarrow> nat \<Rightarrow> u8 list" where
  "rfc_bytes k n = map (\<lambda>i. of_nat (n div 256 ^ i mod 256)) [0 ..< k]"

definition rfc_word :: "u8 list \<Rightarrow> u32" where
  "rfc_word bs = of_nat (\<Sum>i<4. unat (bs ! i) * 256 ^ i)"

definition md5_padding :: "u8 list \<Rightarrow> u8 list" where
  "md5_padding m =
     0x80 # replicate ((55 + 64 - length m mod 64) mod 64) 0 @ rfc_bytes 8 (8 * length m)"

text \<open>Section 3.4: the auxiliary functions, and the table \<open>T\<close>, counted from one.\<close>

definition rfc_F :: "u32 \<Rightarrow> u32 \<Rightarrow> u32 \<Rightarrow> u32" where
  "rfc_F X Y Z = (X AND Y) OR (NOT X AND Z)"

definition rfc_G :: "u32 \<Rightarrow> u32 \<Rightarrow> u32 \<Rightarrow> u32" where
  "rfc_G X Y Z = (X AND Z) OR (Y AND NOT Z)"

definition rfc_H :: "u32 \<Rightarrow> u32 \<Rightarrow> u32 \<Rightarrow> u32" where
  "rfc_H X Y Z = X XOR Y XOR Z"

definition rfc_I :: "u32 \<Rightarrow> u32 \<Rightarrow> u32 \<Rightarrow> u32" where
  "rfc_I X Y Z = Y XOR (X OR NOT Z)"

definition rfc_T :: "nat list" where
  "rfc_T =
     [3614090360, 3905402710, 606105819, 3250441966,
      4118548399, 1200080426, 2821735955, 4249261313,
      1770035416, 2336552879, 4294925233, 2304563134,
      1804603682, 4254626195, 2792965006, 1236535329,
      4129170786, 3225465664, 643717713, 3921069994,
      3593408605, 38016083, 3634488961, 3889429448,
      568446438, 3275163606, 4107603335, 1163531501,
      2850285829, 4243563512, 1735328473, 2368359562,
      4294588738, 2272392833, 1839030562, 4259657740,
      2763975236, 1272893353, 4139469664, 3200236656,
      681279174, 3936430074, 3572445317, 76029189,
      3654602809, 3873151461, 530742520, 3299628645,
      4096336452, 1126891415, 2878612391, 4237533241,
      1700485571, 2399980690, 4293915773, 2240044497,
      1873313359, 4264355552, 2734768916, 1309151649,
      4149444226, 3174756917, 718787259, 3951481745]"

text \<open>
  The operation \<open>[abcd k s i]\<close> is \<open>a = b + ((a + f(b,c,d) + X[k] + T[i]) <<< s)\<close>. The registers
  \<open>A\<close>, \<open>B\<close>, \<open>C\<close>, \<open>D\<close> are a list, and the order says which of them is \<open>a\<close>.
\<close>

datatype register_order = ABCD | DABC | CDAB | BCDA

fun register_start :: "register_order \<Rightarrow> nat" where
  "register_start ABCD = 0"
| "register_start BCDA = 1"
| "register_start CDAB = 2"
| "register_start DABC = 3"

type_synonym rfc_operation = "register_order \<times> nat \<times> nat \<times> nat"

definition rfc_round1 :: "rfc_operation list" where
  "rfc_round1 =
     [(ABCD, 0, 7, 1), (DABC, 1, 12, 2), (CDAB, 2, 17, 3), (BCDA, 3, 22, 4),
      (ABCD, 4, 7, 5), (DABC, 5, 12, 6), (CDAB, 6, 17, 7), (BCDA, 7, 22, 8),
      (ABCD, 8, 7, 9), (DABC, 9, 12, 10), (CDAB, 10, 17, 11), (BCDA, 11, 22, 12),
      (ABCD, 12, 7, 13), (DABC, 13, 12, 14), (CDAB, 14, 17, 15), (BCDA, 15, 22, 16)]"

definition rfc_round2 :: "rfc_operation list" where
  "rfc_round2 =
     [(ABCD, 1, 5, 17), (DABC, 6, 9, 18), (CDAB, 11, 14, 19), (BCDA, 0, 20, 20),
      (ABCD, 5, 5, 21), (DABC, 10, 9, 22), (CDAB, 15, 14, 23), (BCDA, 4, 20, 24),
      (ABCD, 9, 5, 25), (DABC, 14, 9, 26), (CDAB, 3, 14, 27), (BCDA, 8, 20, 28),
      (ABCD, 13, 5, 29), (DABC, 2, 9, 30), (CDAB, 7, 14, 31), (BCDA, 12, 20, 32)]"

definition rfc_round3 :: "rfc_operation list" where
  "rfc_round3 =
     [(ABCD, 5, 4, 33), (DABC, 8, 11, 34), (CDAB, 11, 16, 35), (BCDA, 14, 23, 36),
      (ABCD, 1, 4, 37), (DABC, 4, 11, 38), (CDAB, 7, 16, 39), (BCDA, 10, 23, 40),
      (ABCD, 13, 4, 41), (DABC, 0, 11, 42), (CDAB, 3, 16, 43), (BCDA, 6, 23, 44),
      (ABCD, 9, 4, 45), (DABC, 12, 11, 46), (CDAB, 15, 16, 47), (BCDA, 2, 23, 48)]"

definition rfc_round4 :: "rfc_operation list" where
  "rfc_round4 =
     [(ABCD, 0, 6, 49), (DABC, 7, 10, 50), (CDAB, 14, 15, 51), (BCDA, 5, 21, 52),
      (ABCD, 12, 6, 53), (DABC, 3, 10, 54), (CDAB, 10, 15, 55), (BCDA, 1, 21, 56),
      (ABCD, 8, 6, 57), (DABC, 15, 10, 58), (CDAB, 6, 15, 59), (BCDA, 13, 21, 60),
      (ABCD, 4, 6, 61), (DABC, 11, 10, 62), (CDAB, 2, 15, 63), (BCDA, 9, 21, 64)]"

definition rfc_operate ::
  "(u32 \<Rightarrow> u32 \<Rightarrow> u32 \<Rightarrow> u32) \<Rightarrow> u32 list \<Rightarrow> rfc_operation \<Rightarrow> u32 list \<Rightarrow> u32 list" where
  "rfc_operate f X = (\<lambda>(order, k, s, i) registers.
     let p = register_start order;
         a = registers ! p; b = registers ! ((p + 1) mod 4);
         c = registers ! ((p + 2) mod 4); d = registers ! ((p + 3) mod 4)
     in registers[p := b + word_rotl s (a + f b c d + X ! k + of_nat (rfc_T ! (i - 1)))])"

definition rfc_block :: "u8 list \<Rightarrow> u32 list \<Rightarrow> u32 list" where
  "rfc_block block registers =
     (let X = map (\<lambda>j. rfc_word (take 4 (drop (4 * j) block))) [0 ..< 16];
          result = fold (rfc_operate rfc_I X) rfc_round4
            (fold (rfc_operate rfc_H X) rfc_round3
              (fold (rfc_operate rfc_G X) rfc_round2
                (fold (rfc_operate rfc_F X) rfc_round1 registers)))
      in map2 (+) registers result)"

text \<open>Section 3.3: the registers start as these bytes, low-order first.\<close>

definition rfc_initial :: "u32 list" where
  "rfc_initial = map rfc_word
     [[0x01, 0x23, 0x45, 0x67], [0x89, 0xab, 0xcd, 0xef], [0xfe, 0xdc, 0xba, 0x98],
      [0x76, 0x54, 0x32, 0x10]]"

text \<open>The message in blocks of 16 words; section 3.5: the output is \<open>A\<close>, \<open>B\<close>, \<open>C\<close>, \<open>D\<close>.\<close>

definition md5_reference :: "u8 list \<Rightarrow> u8 list" where
  "md5_reference m =
     (let padded = m @ md5_padding m;
          blocks = map (\<lambda>j. take 64 (drop (64 * j) padded)) [0 ..< length padded div 64];
          registers = fold rfc_block blocks rfc_initial
      in concat (map (rfc_bytes 4 \<circ> unat) registers))"

section \<open>The code's compression is the RFC's\<close>

lemma rfc_bytes_simps [simp]: "length (rfc_bytes k n) = k"
  by (simp add: rfc_bytes_def)

text \<open>Bytes of words, as the code shifts them out and as the RFC counts them.\<close>

lemma byte_of_word:
  fixes w :: "'a::len word"
  shows "(ucast (drop_bit (8 * i) w) :: u8) = of_nat (unat w div 256 ^ i mod 256)"
proof -
  have "unat (ucast (drop_bit (8 * i) w) :: u8) = drop_bit (8 * i) (unat w) mod 256"
    by (simp only: unsigned_ucast_eq unsigned_drop_bit_eq) (simp add: take_bit_eq_mod)
  also have "\<dots> = unat w div 256 ^ i mod 256"
    by (simp add: drop_bit_eq_div power_mult)
  finally show ?thesis
    by (simp add: word_unat_eq_iff unsigned_of_nat take_bit_eq_mod)
qed

lemma u32_to_le_bytes_rfc: "u32_to_le_bytes w = rfc_bytes 4 (unat w)"
  by (simp add: u32_to_le_bytes_def rfc_bytes_def byte_of_word)

lemma u64_to_le_bytes_rfc: "u64_to_le_bytes (of_nat n) = rfc_bytes 8 n"
proof -
  have "n mod 2 ^ 64 div 256 ^ i mod 256 = n div 256 ^ i mod 256" if "i < 8" for i
  proof -
    have "(2::nat) ^ 64 = 256 ^ i * 256 ^ (8 - i)"
      using that by (simp flip: power_add)
    then have "n mod 2 ^ 64 div 256 ^ i = n div 256 ^ i mod 256 ^ (8 - i)"
      by (simp only: mod_mult2_eq) simp
    moreover have "256 dvd (256::nat) ^ (8 - i)" using that by (simp add: dvd_power)
    ultimately show ?thesis by (simp only: mod_mod_cancel)
  qed
  then show ?thesis
    by (simp add: u64_to_le_bytes_def rfc_bytes_def byte_of_word unsigned_of_nat take_bit_eq_mod)
qed

lemma u32_from_le_bytes_rfc:
  assumes "length bs = 4"
  shows "u32_from_le_bytes bs = rfc_word bs"
proof -
  obtain a b c d where "bs = [a, b, c, d]"
    using assms by (auto simp: numeral_eq_Suc length_Suc_conv)
  moreover have "{..<4::nat} = {0, 1, 2, 3}" by auto
  ultimately show ?thesis by (simp add: rfc_word_def algebra_simps)
qed

text \<open>
  The code turns its four words once per operation; the RFC leaves the registers in place and
  turns the order it names them in. The registers that hold the code's words at an order:
\<close>

fun registers_at :: "register_order \<Rightarrow> md5_words \<Rightarrow> u32 list" where
  "registers_at ABCD (a, b, c, d) = [a, b, c, d]"
| "registers_at DABC (a, b, c, d) = [b, c, d, a]"
| "registers_at CDAB (a, b, c, d) = [c, d, a, b]"
| "registers_at BCDA (a, b, c, d) = [d, a, b, c]"

fun order_after :: "register_order \<Rightarrow> register_order" where
  "order_after ABCD = DABC"
| "order_after DABC = CDAB"
| "order_after CDAB = BCDA"
| "order_after BCDA = ABCD"

lemma update_register:
  "[a, b, c, d][2 := x] = [a, b, x, d]" "[a, b, c, d][3 := x] = [a, b, c, x]"
  by (simp_all add: eval_nat_numeral)

lemma operate_step:
  "rfc_operate f X (order, k, s, i) (registers_at order (a, b, c, d)) =
     registers_at (order_after order)
       (d, b + word_rotl s (a + f b c d + X ! k + of_nat (rfc_T ! (i - 1))), b, c)"
  by (cases order) (simp_all add: rfc_operate_def update_register)

text \<open>The tables of the code at an index hold the operation the RFC lists there.\<close>

definition listed_at ::
  "(u32 \<Rightarrow> u32 \<Rightarrow> u32 \<Rightarrow> u32) \<Rightarrow> nat \<Rightarrow> rfc_operation \<Rightarrow> bool" where
  "listed_at f index = (\<lambda>(order, k, s, i).
     (\<forall>b c d. md5_mix index b c d = (f b c d, k)) \<and> md5_shift ! index = s \<and>
     md5_constant ! index = of_nat (rfc_T ! (i - 1)))"

fun orders_turn :: "register_order \<Rightarrow> rfc_operation list \<Rightarrow> bool" where
  "orders_turn order [] \<longleftrightarrow> order = ABCD"
| "orders_turn order ((order', k, s, i) # ops) \<longleftrightarrow>
     order' = order \<and> orders_turn (order_after order) ops"

lemma rounds_agree:
  assumes "list_all2 (listed_at f) indices ops" and "orders_turn order ops"
  shows "fold (rfc_operate f X) ops (registers_at order w) =
     registers_at ABCD (fold (md5_round X) indices w)"
  using assms
proof (induction indices ops arbitrary: order w rule: list_all2_induct)
  case Nil
  then show ?case by simp
next
  case (Cons index indices oper ops)
  obtain order' k s i where oper: "oper = (order', k, s, i)" by (cases oper)
  obtain a b c d where w: "w = (a, b, c, d)" by (cases w)
  have "rfc_operate f X oper (registers_at order w) =
      registers_at (order_after order) (md5_round X index w)"
    using Cons.hyps(1) Cons.prems
    by (simp add: oper w operate_step md5_round_def listed_at_def Let_def ac_simps)
  then show ?case using Cons by (simp add: oper)
qed

lemmas md5_tables = listed_at_def md5_mix_def md5_shift_def md5_constant_def rfc_T_def

lemma round1_listed: "list_all2 (listed_at rfc_F) [0 ..< 16] rfc_round1"
  by (simp add: md5_tables rfc_F_def rfc_round1_def upt_rec)

lemma round2_listed: "list_all2 (listed_at rfc_G) [16 ..< 32] rfc_round2"
  by (simp add: md5_tables rfc_G_def rfc_round2_def upt_rec ac_simps)

lemma round3_listed: "list_all2 (listed_at rfc_H) [32 ..< 48] rfc_round3"
  by (simp add: md5_tables rfc_H_def rfc_round3_def upt_rec ac_simps)

lemma round4_listed: "list_all2 (listed_at rfc_I) [48 ..< 64] rfc_round4"
  by (simp add: md5_tables rfc_I_def rfc_round4_def upt_rec)

lemma rounds_turn:
  "orders_turn ABCD rfc_round1" "orders_turn ABCD rfc_round2"
  "orders_turn ABCD rfc_round3" "orders_turn ABCD rfc_round4"
  by (simp_all add: rfc_round1_def rfc_round2_def rfc_round3_def rfc_round4_def)

lemma chunks_exact_short:
  assumes "length xs < n"
  shows "chunks_exact n xs = []"
  using assms by (simp add: chunks_exact.simps)

lemma chunks_exact_step:
  assumes "0 < n" and "n \<le> length xs"
  shows "chunks_exact n xs = take n xs # chunks_exact n (drop n xs)"
  using assms by (simp add: chunks_exact.simps [of n xs])

text \<open>Whole pieces, as the RFC counts them from the front.\<close>

lemma chunks_exact_pieces:
  assumes "0 < n"
  shows "chunks_exact n xs = map (\<lambda>j. take n (drop (n * j) xs)) [0 ..< length xs div n]"
proof (induction n xs rule: chunks_exact.induct)
  case (1 n xs)
  show ?case
  proof (cases "n = 0 \<or> length xs < n")
    case True
    then show ?thesis by (auto simp: chunks_exact.simps)
  next
    case False
    then have count: "length xs div n = Suc (length (drop n xs) div n)"
      by (simp add: le_div_geq)
    have "chunks_exact n xs = take n xs # chunks_exact n (drop n xs)"
      using False by (simp add: chunks_exact_step)
    also have "\<dots> = take n (drop (n * 0) xs) #
        map (\<lambda>j. take n (drop (n * Suc j) xs)) [0 ..< length (drop n xs) div n]"
      using 1 False by (simp add: add.commute)
    also have "\<dots> = map (\<lambda>j. take n (drop (n * j) xs)) [0 ..< length xs div n]"
      unfolding count by (simp only: map_upt_Suc)
    finally show ?thesis .
  qed
qed

lemma words_agree:
  assumes "length block = 64"
  shows "map u32_from_le_bytes (chunks_exact 4 block) =
     map (\<lambda>j. rfc_word (take 4 (drop (4 * j) block))) [0 ..< 16]"
  using assms by (simp add: chunks_exact_pieces u32_from_le_bytes_rfc)

lemma compress_agrees:
  assumes "length block = 64"
  shows "rfc_block block (registers_at ABCD w) = registers_at ABCD (md5_compress block w)"
proof -
  obtain a b c d where w: "w = (a, b, c, d)" by (cases w)
  define words where "words = map u32_from_le_bytes (chunks_exact 4 block)"
  obtain a' b' c' d' where run: "fold (md5_round words) [0 ..< 64] w = (a', b', c', d')"
    by (metis prod_cases4)
  have split: "[0 ..< 64] = [0 ..< 16] @ [16 ..< 32] @ [32 ..< 48] @ [48 ..< (64::nat)]"
    by (simp add: upt_rec)
  have "fold (rfc_operate rfc_I words) rfc_round4
      (fold (rfc_operate rfc_H words) rfc_round3
        (fold (rfc_operate rfc_G words) rfc_round2
          (fold (rfc_operate rfc_F words) rfc_round1 (registers_at ABCD w)))) =
      registers_at ABCD (fold (md5_round words) [0 ..< 64] w)"
    unfolding split fold_append comp_apply
    by (simp only: rounds_agree [OF round1_listed rounds_turn(1)]
        rounds_agree [OF round2_listed rounds_turn(2)]
        rounds_agree [OF round3_listed rounds_turn(3)]
        rounds_agree [OF round4_listed rounds_turn(4)])
  then have "rfc_block block (registers_at ABCD w) =
      map2 (+) (registers_at ABCD w) (registers_at ABCD (a', b', c', d'))"
    unfolding rfc_block_def Let_def words_agree [OF assms, symmetric] words_def [symmetric] run
    by simp
  moreover have "md5_compress block w = (a + a', b + b', c + c', d + d')"
    using run unfolding w words_def by (simp add: md5_compress_def Let_def)
  ultimately show ?thesis by (simp add: w)
qed

lemma blocks_agree:
  assumes "\<And>block. block \<in> set blocks \<Longrightarrow> length block = 64"
  shows "fold rfc_block blocks (registers_at ABCD w) =
     registers_at ABCD (fold md5_compress blocks w)"
  using assms by (induction blocks arbitrary: w) (simp_all add: compress_agrees)

lemma initial_agrees: "rfc_initial = registers_at ABCD md5_initial"
  by (simp add: rfc_initial_def md5_initial_def flip: u32_from_le_bytes_rfc)

lemma output_agrees: "concat (map (rfc_bytes 4 \<circ> unat) (registers_at ABCD w)) = md5_output w"
  by (cases w) (simp add: md5_output_def u32_to_le_bytes_rfc)

text \<open>The reference digest, in terms of the code's compression of whole blocks.\<close>

lemma md5_reference_blocks:
  "md5_reference m =
     md5_output (fold md5_compress (chunks_exact 64 (m @ md5_padding m)) md5_initial)"
proof -
  have "length block = 64" if member: "block \<in> set (chunks_exact 64 xs)" for block and xs :: "u8 list"
  proof -
    obtain j where j: "j < length xs div 64" "block = take 64 (drop (64 * j) xs)"
      using member unfolding chunks_exact_pieces [OF zero_less_numeral] by auto
    then have "64 * Suc j \<le> length xs" by (meson Suc_leI div_times_less_eq_dividend
      le_trans mult_le_mono2 times_div_less_eq_dividend)
    then show ?thesis using j by simp
  qed
  then show ?thesis
    by (simp add: md5_reference_def Let_def initial_agrees blocks_agree output_agrees
        flip: chunks_exact_pieces)
qed

section \<open>Whole blocks\<close>

lemma chunks_exact_append:
  assumes "0 < n" and "length xs = k * n"
  shows "chunks_exact n (xs @ ys) = chunks_exact n xs @ chunks_exact n ys"
  using assms(2)
proof (induction k arbitrary: xs)
  case 0
  then show ?case using assms(1) by (simp add: chunks_exact_short)
next
  case (Suc k)
  have "length (drop n xs) = k * n" using Suc.prems by simp
  from Suc.IH [OF this] show ?case
    using Suc.prems assms(1) by (simp add: chunks_exact_step)
qed

definition blocks_folded :: "u8 list \<Rightarrow> md5_words" where
  "blocks_folded m = fold md5_compress (chunks_exact 64 m) md5_initial"

lemma blocks_folded_append:
  assumes "length m = k * 64"
  shows "blocks_folded (m @ xs) = fold md5_compress (chunks_exact 64 xs) (blocks_folded m)"
  using assms by (simp add: blocks_folded_def chunks_exact_append [where k = k])

lemma blocks_folded_block:
  assumes "length m = k * 64" and "length xs = 64"
  shows "blocks_folded (m @ xs) = md5_compress xs (blocks_folded m)"
  using assms by (simp add: blocks_folded_append [where k = k] chunks_exact_step chunks_exact_short)

section \<open>The state after any pieces\<close>

text \<open>
  The state after a message \<open>m\<close>: \<open>m\<close> is a number of whole blocks, which are folded, and a rest
  of less than a block, which stands in the buffer.
\<close>

definition md5_holds :: "u8 list \<Rightarrow> u8 list \<Rightarrow> md5 \<Rightarrow> bool" where
  "md5_holds whole rest s \<longleftrightarrow>
     length whole mod 64 = 0 \<and> length rest < 64 \<and>
     md5_state s = blocks_folded whole \<and> length (md5_buffer s) = 64 \<and>
     md5_buffered s = length rest \<and> take (length rest) (md5_buffer s) = rest"

lemma length_copy_into:
  assumes "start + length xs \<le> length buffer"
  shows "length (copy_into start xs buffer) = length buffer"
  using assms by (simp add: copy_into_def)

lemma md5_holds_new: "md5_holds [] [] md5_new"
  by (simp add: md5_holds_def md5_new_def blocks_folded_def chunks_exact_short)

lemma mod_64E:
  assumes "length m mod 64 = 0"
  obtains k where "length m = k * 64"
  using assms by (metis dvd_def mod_0_imp_dvd mult.commute)

lemma md5_absorb_holds:
  assumes "length whole mod 64 = 0" and "md5_state s = blocks_folded whole"
    and "length (md5_buffer s) = 64"
  shows "\<exists>more rest. input = more @ rest \<and> md5_holds (whole @ more) rest (md5_absorb input s) \<and>
     md5_byte_len (md5_absorb input s) = md5_byte_len s"
  using assms
proof (induction input s arbitrary: whole rule: md5_absorb.induct)
  case (1 input s)
  obtain k where k: "length whole = k * 64" using 1(2) by (rule mod_64E)
  show ?case
  proof (cases "64 \<le> length input")
    case True
    let ?s = "s\<lparr>md5_state := md5_compress (take 64 input) (md5_state s)\<rparr>"
    have state: "md5_state ?s = blocks_folded (whole @ take 64 input)"
      using True 1(3) by (simp add: blocks_folded_block [OF k])
    have len: "length (whole @ take 64 input) mod 64 = 0" using True 1(2) by simp
    obtain more rest where "drop 64 input = more @ rest"
      "md5_holds ((whole @ take 64 input) @ more) rest (md5_absorb (drop 64 input) ?s)"
      "md5_byte_len (md5_absorb (drop 64 input) ?s) = md5_byte_len ?s"
      using 1(1) [OF True len state] 1(4) by auto
    moreover have "input = (take 64 input @ more) @ rest"
      using \<open>drop 64 input = more @ rest\<close> by (metis append_take_drop_id append.assoc)
    moreover have "md5_absorb input s = md5_absorb (drop 64 input) ?s"
      using True by (simp add: md5_absorb.simps [of input s])
    ultimately show ?thesis by (metis append.assoc md5.select_convs(2) md5.surjective md5.update_convs(1))
  next
    case False
    then have "md5_holds whole input (md5_absorb input s)"
      using 1(2-4) by (simp add: md5_absorb.simps [of input s] md5_holds_def copy_into_def)
    then have "md5_holds (whole @ []) input (md5_absorb input s)" by simp
    moreover have "md5_byte_len (md5_absorb input s) = md5_byte_len s"
      using False by (simp add: md5_absorb.simps [of input s])
    ultimately show ?thesis by (metis append_Nil)
  qed
qed

lemma md5_update_holds:
  assumes held: "md5_holds whole rest s"
  shows "\<exists>whole' rest'. whole' @ rest' = whole @ rest @ input \<and>
     md5_holds whole' rest' (md5_update input s) \<and>
     md5_byte_len (md5_update input s) = md5_byte_len s + of_nat (length input)"
proof (cases "rest = []")
  case True
  let ?s = "s\<lparr>md5_byte_len := md5_byte_len s + of_nat (length input)\<rparr>"
  have "md5_update input s = md5_absorb input ?s"
    using held True by (simp add: md5_update_def md5_holds_def)
  moreover have "\<exists>more rest. input = more @ rest \<and> md5_holds (whole @ more) rest (md5_absorb input ?s) \<and>
     md5_byte_len (md5_absorb input ?s) = md5_byte_len ?s"
    using held by (intro md5_absorb_holds) (simp_all add: md5_holds_def)
  ultimately show ?thesis using True
    by simp (metis append.assoc)
next
  case False
  define n where "n = min (64 - length rest) (length input)"
  define len where "len = md5_byte_len s + of_nat (length input)"
  let ?s = "s\<lparr>md5_byte_len := len,
     md5_buffer := copy_into (length rest) (take n input) (md5_buffer s),
     md5_buffered := length rest + n\<rparr>"
  have facts: "length rest < 64" "md5_buffered s = length rest" "length (md5_buffer s) = 64"
    "take (length rest) (md5_buffer s) = rest" "length whole mod 64 = 0"
    "md5_state s = blocks_folded whole"
    using held by (simp_all add: md5_holds_def)
  have n: "n \<le> length input" "length rest + n \<le> 64" "length (take n input) = n"
    using facts by (simp_all add: n_def)
  have buffer: "take (length rest + n) (md5_buffer ?s) = rest @ take n input"
    using facts n by (simp add: copy_into_def)
  have size: "length (md5_buffer ?s) = 64" using facts n by (simp add: copy_into_def)
  show ?thesis
  proof (cases "length rest + n < 64")
    case True
    then have all: "n = length input" by (auto simp: n_def)
    have "md5_update input s = ?s"
      using False True facts by (simp add: md5_update_def Let_def n_def len_def)
    moreover have "md5_holds whole (rest @ input) ?s"
      using True all facts buffer size by (simp add: md5_holds_def)
    ultimately show ?thesis by (intro exI [of _ whole] exI [of _ "rest @ input"]) (simp add: len_def)
  next
    case full: False
    let ?t = "?s\<lparr>md5_state := md5_compress (md5_buffer ?s) (md5_state s), md5_buffered := 0\<rparr>"
    have n64: "length rest + n = 64" using full n by simp
    have block: "md5_buffer ?s = rest @ take n input" using buffer size n64 by simp
    obtain k where k: "length whole = k * 64" using facts(5) by (rule mod_64E)
    have state: "md5_state ?t = blocks_folded (whole @ rest @ take n input)"
      using block n64 n facts by (simp add: blocks_folded_block [OF k])
    have run: "md5_update input s = md5_absorb (drop n input) ?t"
      using False full facts by (simp add: md5_update_def Let_def n_def len_def)
    have "\<exists>more rest'. drop n input = more @ rest' \<and>
       md5_holds ((whole @ rest @ take n input) @ more) rest' (md5_absorb (drop n input) ?t) \<and>
       md5_byte_len (md5_absorb (drop n input) ?t) = md5_byte_len ?t"
      by (rule md5_absorb_holds) (use state facts n n64 size in simp_all)
    then obtain more rest' where split: "drop n input = more @ rest'"
      and after: "md5_holds ((whole @ rest @ take n input) @ more) rest' (md5_update input s)"
      and count: "md5_byte_len (md5_update input s) = len"
      unfolding run by auto
    have "((whole @ rest @ take n input) @ more) @ rest' = whole @ rest @ input"
      using split by (metis append.assoc append_take_drop_id)
    with after count show ?thesis unfolding len_def by blast
  qed
qed

section \<open>The padded tail\<close>

lemma tail_layout:
  assumes "length r < k" and "k \<le> n" and "n \<le> 128" and "length e = n - k"
  shows "take n (copy_into k e ((copy_into 0 r (replicate 128 0))[length r := x])) =
     r @ x # replicate (k - Suc (length r)) 0 @ e"
proof -
  have "128 - length r = Suc (127 - length r)" using assms by simp
  then have base: "(copy_into 0 r (replicate 128 0))[length r := x] =
      r @ x # replicate (127 - length r) 0"
    by (simp add: copy_into_def list_update_append)
  have "take k (r @ x # replicate (127 - length r) 0) = r @ x # replicate (k - Suc (length r)) 0"
    using assms by (simp add: take_Cons' min_def)
  then have "take k ((r @ replicate (128 - length r) 0)[length r := x]) =
      r @ x # replicate (k - Suc (length r)) 0"
    using assms base by (simp add: copy_into_def)
  then have "copy_into k e ((copy_into 0 r (replicate 128 0))[length r := x]) =
      (r @ x # replicate (k - Suc (length r)) 0 @ e) @ drop n ((copy_into 0 r (replicate 128 0))[length r := x])"
    using assms by (simp add: copy_into_def)
  moreover have "length (r @ x # replicate (k - Suc (length r)) 0 @ e) = n" using assms by simp
  ultimately show ?thesis by (metis append_eq_conv_conj)
qed

lemma md5_tail_layout:
  assumes held: "md5_holds whole rest s" and size: "md5_byte_len s = of_nat (length (whole @ rest))"
  shows "md5_tail s = rest @ md5_padding (whole @ rest)"
proof -
  have facts: "length rest < 64" "md5_buffered s = length rest" "length (md5_buffer s) = 64"
    "take (length rest) (md5_buffer s) = rest" "length whole mod 64 = 0"
    using held by (simp_all add: md5_holds_def)
  have rem: "length (whole @ rest) mod 64 = length rest"
    using facts by (metis length_append mod_add_left_eq add_0 mod_less)
  define e where "e = rfc_bytes 8 (8 * length (whole @ rest))"
  have "md5_byte_len s * 8 = of_nat (8 * length (whole @ rest))"
    unfolding size of_nat_mult of_nat_numeral by (rule mult.commute)
  then have bits: "u64_to_le_bytes (md5_byte_len s * 8) = e"
    by (simp only: u64_to_le_bytes_rfc e_def)
  have e: "length e = 8" by (simp add: e_def)
  show ?thesis
  proof (cases "length rest < 56")
    case True
    have gap: "(55 + 64 - length rest) mod 64 = 56 - Suc (length rest)"
    proof -
      have "55 + 64 - length rest = (55 - length rest) + 64" using True by simp
      then have "(55 + 64 - length rest) mod 64 = (55 - length rest) mod 64"
        by (simp only: mod_add_self2)
      then show ?thesis using True by simp
    qed
    have "md5_tail s = take 64 (copy_into 56 e ((copy_into 0 rest (replicate 128 0))[length rest := 0x80]))"
      using True facts by (simp add: md5_tail_def Let_def bits)
    also have "\<dots> = rest @ 0x80 # replicate (56 - Suc (length rest)) 0 @ e"
      using True e by (intro tail_layout) simp_all
    finally show ?thesis by (simp only: md5_padding_def rem gap e_def)
  next
    case False
    have gap: "(55 + 64 - length rest) mod 64 = 120 - Suc (length rest)"
      using False facts by simp
    have "md5_tail s = take 128 (copy_into 120 e ((copy_into 0 rest (replicate 128 0))[length rest := 0x80]))"
      using False facts by (simp add: md5_tail_def Let_def bits)
    also have "\<dots> = rest @ 0x80 # replicate (120 - Suc (length rest)) 0 @ e"
      using False facts e by (intro tail_layout) simp_all
    finally show ?thesis by (simp only: md5_padding_def rem gap e_def)
  qed
qed

lemma md5_finalize_holds:
  assumes held: "md5_holds whole rest s" and size: "md5_byte_len s = of_nat (length (whole @ rest))"
  shows "md5_finalize s = md5_reference (whole @ rest)"
proof -
  obtain k where k: "length whole = k * 64"
    using held by (auto simp: md5_holds_def elim: mod_64E)
  have "md5_state s = blocks_folded whole" using held by (simp add: md5_holds_def)
  then show ?thesis
    unfolding md5_finalize_def md5_reference_blocks md5_tail_layout [OF held size]
      blocks_folded_def [symmetric]
    by (simp add: blocks_folded_append [OF k])
qed

lemma revision_loop_reference:
  assumes "md5_holds whole rest s" and "md5_byte_len s = of_nat (length (whole @ rest))"
    and "\<And>p. p \<in> set pieces \<Longrightarrow> p \<noteq> []"
  shows "revision_loop (map ReadPiece pieces @ ReadPiece [] # later) s =
     Some (Inr (md5_reference (whole @ rest @ concat pieces)))"
  using assms
proof (induction pieces arbitrary: whole rest s)
  case Nil
  then show ?case by (simp add: md5_finalize_holds)
next
  case (Cons p pieces)
  obtain whole' rest' where next_step: "whole' @ rest' = whole @ rest @ p"
    "md5_holds whole' rest' (md5_update p s)"
    "md5_byte_len (md5_update p s) = md5_byte_len s + of_nat (length p)"
    using md5_update_holds [OF Cons.prems(1)] by blast
  have "md5_byte_len (md5_update p s) = of_nat (length (whole' @ rest'))"
    unfolding next_step using Cons.prems(2) by simp
  from Cons.IH [OF next_step(2) this] Cons.prems(3)
  have "revision_loop (map ReadPiece pieces @ ReadPiece [] # later) (md5_update p s) =
     Some (Inr (md5_reference (whole' @ rest' @ concat pieces)))" by simp
  also have "whole' @ rest' @ concat pieces = whole @ rest @ p @ concat pieces"
    using next_step(1) by (metis append.assoc)
  finally show ?case using Cons.prems(3) by simp
qed

lemma revision_loop_failed:
  assumes "\<And>p. p \<in> set pieces \<Longrightarrow> p \<noteq> []"
  shows "revision_loop (map ReadPiece pieces @ ReadFailed # later) s = Some (Inl ())"
  using assms by (induction pieces arbitrary: s) auto

text \<open>
  The test vector of section A.5, the digest of \<open>abc\<close>: the block of the padded message, and the
  registers after each round.
\<close>

definition abc_block :: "u32 list" where
  "abc_block = [0x80636261, 0, 0, 0, 0, 0, 0, 0, 0, 0, 0, 0, 0, 0, 24, 0]"

lemma operate_run:
  "rfc_operate f X (ABCD, k, s, i) [a, b, c, d] =
     [b + word_rotl s (a + f b c d + X ! k + of_nat (rfc_T ! (i - 1))), b, c, d]"
  "rfc_operate f X (DABC, k, s, i) [a, b, c, d] =
     [a, b, c, a + word_rotl s (d + f a b c + X ! k + of_nat (rfc_T ! (i - 1)))]"
  "rfc_operate f X (CDAB, k, s, i) [a, b, c, d] =
     [a, b, d + word_rotl s (c + f d a b + X ! k + of_nat (rfc_T ! (i - 1))), d]"
  "rfc_operate f X (BCDA, k, s, i) [a, b, c, d] =
     [a, c + word_rotl s (b + f c d a + X ! k + of_nat (rfc_T ! (i - 1))), c, d]"
  by (simp_all add: rfc_operate_def update_register)

lemma word_rotl_shifts:
  assumes "0 < n" and "n < 32"
  shows "word_rotl n (w :: u32) = push_bit n w OR drop_bit (32 - n) w"
proof (rule bit_word_eqI)
  fix m assume "m < LENGTH(32)"
  then have "m < 32" by simp
  show "bit (word_rotl n w) m \<longleftrightarrow> bit (push_bit n w OR drop_bit (32 - n) w) m"
  proof (cases "n \<le> m")
    case True
    then have "(m + (32 - n)) mod 32 = m - n"
      using assms \<open>m < 32\<close> by (simp add: le_mod_geq)
    then show ?thesis
      using True assms \<open>m < 32\<close> by (auto simp: bit_simps dest: bit_imp_le_length)
  next
    case False
    then have "(m + (32 - n)) mod 32 = 32 - n + m" using assms by simp
    then show ?thesis using False assms \<open>m < 32\<close> by (auto simp: bit_simps)
  qed
qed

lemma fold_registers: "fold f (x # xs) [a, b, c, d] = fold f xs (f x [a, b, c, d])"
  by simp

lemmas rfc_run = operate_run fold_registers rfc_T_def abc_block_def word_rotl_shifts

lemma abc_round1:
  "fold (rfc_operate rfc_F abc_block) rfc_round1
     [0x67452301, 0xefcdab89, 0x98badcfe, 0x10325476] =
     [0xdda9b9a6, 0x72aff2e0, 0xe396856b, 0xa1051895]"
  by (simp add: rfc_run rfc_F_def rfc_round1_def del: fold_Cons)

lemma abc_round2:
  "fold (rfc_operate rfc_G abc_block) rfc_round2
     [0xdda9b9a6, 0x72aff2e0, 0xe396856b, 0xa1051895] =
     [0x790a77fb, 0x726342d3, 0xa62884aa, 0x9f47e4f8]"
  by (simp add: rfc_run rfc_G_def rfc_round2_def del: fold_Cons)

lemma abc_round3:
  "fold (rfc_operate rfc_H abc_block) rfc_round3
     [0x790a77fb, 0x726342d3, 0xa62884aa, 0x9f47e4f8] =
     [0x7f2e507b, 0x7beb9700, 0x8fae6399, 0x99d9679d]"
  by (simp add: rfc_run rfc_H_def rfc_round3_def del: fold_Cons)

lemma abc_round4:
  "fold (rfc_operate rfc_I abc_block) rfc_round4
     [0x7f2e507b, 0x7beb9700, 0x8fae6399, 0x99d9679d] =
     [0x310ade8f, 0xc08226b3, 0xe484b9d8, 0x624d8cb2]"
  by (simp add: rfc_run rfc_I_def rfc_round4_def del: fold_Cons)

lemma abc_padded:
  "[97, 98, 99] @ md5_padding [97, 98, 99] =
     97 # 98 # 99 # 0x80 # replicate 52 0 @ [24, 0, 0, 0, 0, 0, 0, 0]"
  by (simp add: md5_padding_def rfc_bytes_def upt_rec)

lemma no_bytes: "u32_from_le_bytes (replicate 4 0) = 0"
  by (simp add: eval_nat_numeral)

lemma abc_words:
  "map (\<lambda>j. rfc_word (take 4 (drop (4 * j) ([97, 98, 99] @ md5_padding [97, 98, 99])))) [0 ..< 16] =
     abc_block"
  unfolding abc_padded abc_block_def
  by (simp add: upt_rec no_bytes flip: u32_from_le_bytes_rfc)

lemma md5_reference_abc:
  "md5_reference [97, 98, 99] =
     [0x90, 0x01, 0x50, 0x98, 0x3c, 0xd2, 0x4f, 0xb0,
      0xd6, 0x96, 0x3f, 0x7d, 0x28, 0xe1, 0x7f, 0x72]"
proof -
  let ?padded = "[97, 98, 99] @ md5_padding [97, 98, 99]"
  have size: "length ?padded = 64" unfolding abc_padded by simp
  have initial: "rfc_initial = [0x67452301, 0xefcdab89, 0x98badcfe, 0x10325476]"
    by (simp add: initial_agrees md5_initial_def)
  have "rfc_block ?padded rfc_initial = [0x98500190, 0xb04fd23c, 0x7d3f96d6, 0x727fe128]"
    unfolding rfc_block_def Let_def abc_words initial abc_round1 abc_round2 abc_round3 abc_round4
    by simp
  then show ?thesis
    using size by (simp add: md5_reference_def Let_def rfc_bytes_def upt_rec del: append.simps)
qed

text \<open>
  C33.
  The revision of a file is the MD5 digest of its whole content as RFC 1321 defines it, whatever
  pieces the reader delivers the content in: the padding, the table, the shifts, the order of the
  words and registers, the initial state and the byte order are those of the RFC, and the
  buffering of the incremental digest loses, repeats and moves no byte. The witness is the RFC's
  own test vector, the digest of \<open>abc\<close>.
\<close>
theorem revision_is_md5:
  assumes "[] \<notin> set pieces"
  shows "revision_from_file (map ReadPiece pieces @ ReadPiece [] # later) =
     Some (Inr (md5_reference (concat pieces)))"
  using revision_loop_reference [OF md5_holds_new, of pieces later] assms
  by (auto simp: revision_from_file_def md5_new_def)

lemma revision_is_md5_witness:
  "revision_from_file (map ReadPiece [[97, 98], [99]] @ ReadPiece [] # []) =
     Some (Inr [0x90, 0x01, 0x50, 0x98, 0x3c, 0xd2, 0x4f, 0xb0,
       0xd6, 0x96, 0x3f, 0x7d, 0x28, 0xe1, 0x7f, 0x72])"
  using revision_is_md5 [of "[[97, 98], [99]]" "[]"] by (simp add: md5_reference_abc)

end
