(* ===== verification/Addon_Module.thy ===== *)
theory Addon_Module
  imports Addon_Host
begin

text \<open>
  The native addon loader (src/crates/nexus-addon-loader, module.rs and platform.rs): loading a
  library, checking its image, its definition export and its callbacks, and the explicit life of
  the loaded module up to the release of its library reference.

  The platform and the native code it runs are a record of functions on a state of their own, an
  argument of the operations; \<open>None\<close> is a Rust unwind that the boundary contains. Each call
  the loader makes into native code is recorded in a trace, which the code does not keep: the
  properties are about that trace.
\<close>

section \<open>Image bounds\<close>

record module_bounds =
  mb_base :: usize
  mb_size :: usize
  mb_end :: usize

datatype bounds_error = BoundsEmpty | BoundsOverflow

definition module_bounds_new :: "usize \<Rightarrow> usize \<Rightarrow> bounds_error + module_bounds" where
  "module_bounds_new base sz =
     (if sz = 0 then Inl BoundsEmpty
      else case checked_add base sz of
             None \<Rightarrow> Inl BoundsOverflow
           | Some e \<Rightarrow> Inr \<lparr>mb_base = base, mb_size = sz, mb_end = e\<rparr>)"

definition contains_address :: "usize \<Rightarrow> module_bounds \<Rightarrow> bool" where
  "contains_address a b \<longleftrightarrow> mb_base b \<le> a \<and> a < mb_end b"

definition contains_range :: "usize \<Rightarrow> usize \<Rightarrow> module_bounds \<Rightarrow> bool" where
  "contains_range a len b \<longleftrightarrow>
     (if a < mb_base b then False
      else case checked_add a len of None \<Rightarrow> False | Some e \<Rightarrow> e \<le> mb_end b)"

definition cap_read :: "usize \<Rightarrow> usize \<Rightarrow> module_bounds \<Rightarrow> usize option" where
  "cap_read a requested b =
     (if contains_address a b then Some (min requested (mb_end b - a)) else None)"

section \<open>The platform\<close>

text \<open>
  What the code reads off a path: its text, and the answers of \<open>is_absolute\<close>, \<open>parent\<close>,
  \<open>file_name\<close> and \<open>extension\<close> of \<open>std::path::Path\<close>.
\<close>

record dll_path =
  dp_text :: string
  dp_absolute :: bool
  dp_parent :: "string option"
  dp_file_name :: "string option"
  dp_extension :: "string option"

datatype path_policy_error = NotAbsolute | NotDll

definition absolute_dll_path :: "dll_path \<Rightarrow> path_policy_error + dll_path" where
  "absolute_dll_path p =
     (if \<not> dp_absolute p then Inl NotAbsolute
      else case dp_extension p of
             None \<Rightarrow> Inl NotDll
           | Some e \<Rightarrow>
               if \<not> eq_ignore_ascii_case e ''dll'' \<or> dp_file_name p = None then Inl NotDll else Inr p)"

datatype platform_error =
    PathEncoding | LoadLibraryFailed | MissingDefinitionExport | ModuleImageFailed
  | MemoryQuery | MemoryNotReadable | AddressNotExecutable | FreeLibraryFailed

datatype platform_operation =
  LoadLibrary | InspectImage | ResolveDefinitionExport | InspectCodeAddress | FreeLibrary

text \<open>The exported definition with the addresses of its callbacks (0 is \<open>None\<close>).\<close>

record abi_definition =
  ab_fields :: raw_definition
  ab_load :: usize
  ab_unload :: usize

definition definition_view :: "abi_definition \<Rightarrow> raw_definition" where
  "definition_view d = (ab_fields d)\<lparr>rd_load := ab_load d \<noteq> 0, rd_unload := ab_unload d \<noteq> 0\<rparr>"

text \<open>
  A reader of the memory of one image, run in the native state of the moment; it may fail, return
  too much, or unwind.
\<close>

type_synonym 'p image_reader = "'p \<Rightarrow> usize \<Rightarrow> usize \<Rightarrow> (string + u8 list) option"

record 'p module_image =
  mi_bounds :: module_bounds
  mi_memory :: "'p image_reader"

record 'p loader_platform =
  lp_load_library :: "dll_path \<Rightarrow> 'p \<Rightarrow> 'p \<times> (platform_error + usize) option"
  lp_module_image :: "usize \<Rightarrow> 'p \<Rightarrow> 'p \<times> (platform_error + 'p module_image) option"
  lp_resolve_export :: "usize \<Rightarrow> 'p \<Rightarrow> 'p \<times> (platform_error + usize) option"
  lp_is_executable :: "usize \<Rightarrow> usize \<Rightarrow> 'p \<Rightarrow> 'p \<times> (platform_error + bool) option"
  lp_free_library :: "usize \<Rightarrow> 'p \<Rightarrow> 'p \<times> (platform_error + unit) option"
  lp_call_export :: "usize \<Rightarrow> 'p \<Rightarrow> 'p \<times> usize option"
  lp_call_load :: "usize \<Rightarrow> api_revision \<Rightarrow> 'p \<Rightarrow> 'p \<times> unit option"
  lp_call_unload :: "usize \<Rightarrow> 'p \<Rightarrow> 'p \<times> unit option"
  lp_read_definition :: "usize \<Rightarrow> 'p \<Rightarrow> abi_definition"

text \<open>\<open>ModuleImage::read_bounded\<close>: capped to the image, and the answer checked against the cap.\<close>

definition image_read ::
  "'p module_image \<Rightarrow> 'p \<Rightarrow> usize \<Rightarrow> usize \<Rightarrow> (string + u8 list) option"
where
  "image_read img p a maximum =
     (if a = 0 then Some (Inl ''module memory address was null'')
      else case cap_read a maximum (mi_bounds img) of
             None \<Rightarrow> Some (Inl ''module memory address is outside the image'')
           | Some capped \<Rightarrow>
               (case mi_memory img p a capped of
                  None \<Rightarrow> None
                | Some (Inl e) \<Rightarrow> Some (Inl e)
                | Some (Inr bytes) \<Rightarrow>
                    if unat capped < length bytes
                    then Some (Inl ''platform memory reader exceeded its requested bound'')
                    else Some (Inr bytes)))"

section \<open>Native calls\<close>

datatype free_result = FreeDone | FreeRefused | FreeUnwound

datatype native_call =
    LoadedLibrary usize
  | CalledExport usize
  | CalledLoad usize
  | CalledUnload usize
  | RanCleanup bool
  | TriedFree usize free_result
  | GuardEntered
  | GuardLeft

record 'p native_world =
  nw_state :: 'p
  nw_trace :: "native_call list"

definition record_call :: "native_call \<Rightarrow> 'p native_world \<Rightarrow> 'p native_world" where
  "record_call e w = w\<lparr>nw_trace := nw_trace w @ [e]\<rparr>"

text \<open>A call that is not recorded changes the native state only.\<close>

definition query :: "('p \<Rightarrow> 'p \<times> 'r) \<Rightarrow> 'p native_world \<Rightarrow> 'p native_world \<times> 'r" where
  "query f w = (let (p, r) = f (nw_state w) in (w\<lparr>nw_state := p\<rparr>, r))"

definition native_load_library ::
  "'p loader_platform \<Rightarrow> dll_path \<Rightarrow> 'p native_world \<Rightarrow>
   'p native_world \<times> (platform_error + usize) option"
where
  "native_load_library P path w =
     (let (w, r) = query (lp_load_library P path) w
      in (case r of Some (Inr handle) \<Rightarrow> record_call (LoadedLibrary handle) w | _ \<Rightarrow> w, r))"

definition free_outcome :: "(platform_error + unit) option \<Rightarrow> free_result" where
  "free_outcome r =
     (case r of None \<Rightarrow> FreeUnwound | Some (Inl e) \<Rightarrow> FreeRefused | Some (Inr u) \<Rightarrow> FreeDone)"

definition native_free_library ::
  "'p loader_platform \<Rightarrow> usize \<Rightarrow> 'p native_world \<Rightarrow>
   'p native_world \<times> (platform_error + unit) option"
where
  "native_free_library P handle w =
     (let (w, r) = query (lp_free_library P handle) w
      in (record_call (TriedFree handle (free_outcome r)) w, r))"

definition native_call_export ::
  "'p loader_platform \<Rightarrow> usize \<Rightarrow> 'p native_world \<Rightarrow> 'p native_world \<times> usize option"
where
  "native_call_export P a w = query (lp_call_export P a) (record_call (CalledExport a) w)"

definition native_call_load ::
  "'p loader_platform \<Rightarrow> usize \<Rightarrow> api_revision \<Rightarrow> 'p native_world \<Rightarrow>
   'p native_world \<times> unit option"
where
  "native_call_load P a api w = query (lp_call_load P a api) (record_call (CalledLoad a) w)"

definition native_call_unload ::
  "'p loader_platform \<Rightarrow> usize \<Rightarrow> 'p native_world \<Rightarrow> 'p native_world \<times> unit option"
where
  "native_call_unload P a w = query (lp_call_unload P a) (record_call (CalledUnload a) w)"

section \<open>Loading\<close>

datatype definition_issue =
    IssueModuleAccess | IssueZeroSignature | IssueMissingLoad | IssueMissingUnload
  | IssueRevision | IssueNullMetadata | IssueMetadataMemory | IssueReaderContract
  | IssueUnterminated | IssueUtf8

fun definition_issue_of :: "definition_error \<Rightarrow> definition_issue" where
  "definition_issue_of (ModuleAccess e) = IssueModuleAccess"
| "definition_issue_of ZeroSignature = IssueZeroSignature"
| "definition_issue_of MissingLoadCallback = IssueMissingLoad"
| "definition_issue_of MissingUnloadCallback = IssueMissingUnload"
| "definition_issue_of (UnsupportedRevision v) = IssueRevision"
| "definition_issue_of (NullMetadata f) = IssueNullMetadata"
| "definition_issue_of (MemoryRead f e) = IssueMetadataMemory"
| "definition_issue_of (ReaderExceededBound f n m) = IssueReaderContract"
| "definition_issue_of (UnterminatedMetadata f n) = IssueUnterminated"
| "definition_issue_of (InvalidUtf8 f) = IssueUtf8"

datatype panic_boundary =
    AtLoadLibrary | AtInspectImage | AtResolveExport | AtDefinitionExport | AtValidation
  | AtCodeAddress | AtLoadCallback | AtUnloadCallback | AtHostCleanup | AtFreeLibrary

datatype load_error =
    LoadPath path_policy_error
  | LoadPlatform platform_operation platform_error
  | LoadPanic panic_boundary
  | NullDefinition | MisalignedDefinition | DefinitionOutsideImage | DefinitionUnreadable
  | DefinitionRejected definition_issue
  | ExportOutsideImage | ExportNotExecutable
  | LoadOutsideImage | LoadNotExecutable
  | UnloadOutsideImage | UnloadNotExecutable

datatype code_address = DefinitionExport | LoadCallback | UnloadCallback

fun code_outside_error :: "code_address \<Rightarrow> load_error" where
  "code_outside_error DefinitionExport = ExportOutsideImage"
| "code_outside_error LoadCallback = LoadOutsideImage"
| "code_outside_error UnloadCallback = UnloadOutsideImage"

fun code_not_executable_error :: "code_address \<Rightarrow> load_error" where
  "code_not_executable_error DefinitionExport = ExportNotExecutable"
| "code_not_executable_error LoadCallback = LoadNotExecutable"
| "code_not_executable_error UnloadCallback = UnloadNotExecutable"

text \<open>\<open>catch_boundary\<close> and the two \<open>map_err\<close>s of a fallible platform call.\<close>

definition contained ::
  "panic_boundary \<Rightarrow> platform_operation \<Rightarrow> (platform_error + 'a) option \<Rightarrow> load_error + 'a"
where
  "contained boundary operation r =
     (case r of
        None \<Rightarrow> Inl (LoadPanic boundary)
      | Some (Inl source) \<Rightarrow> Inl (LoadPlatform operation source)
      | Some (Inr v) \<Rightarrow> Inr v)"

text \<open>The \<open>?\<close> operator over a state that is threaded through.\<close>

definition try_then :: "('w \<times> ('e + 'a)) \<Rightarrow> ('a \<Rightarrow> 'w \<Rightarrow> 'w \<times> ('e + 'b)) \<Rightarrow> 'w \<times> ('e + 'b)" where
  "try_then x f = (case x of (w, Inl e) \<Rightarrow> (w, Inl e) | (w, Inr a) \<Rightarrow> f a w)"

definition validate_code_address ::
  "'p loader_platform \<Rightarrow> usize \<Rightarrow> module_bounds \<Rightarrow> usize \<Rightarrow> code_address \<Rightarrow> 'p native_world \<Rightarrow>
   'p native_world \<times> (load_error + unit)"
where
  "validate_code_address P handle bounds a kind w =
     (if a = 0 \<or> \<not> contains_address a bounds then (w, Inl (code_outside_error kind))
      else
        (let (w, r) = query (lp_is_executable P handle a) w
         in try_then (w, contained AtCodeAddress InspectCodeAddress r)
              (\<lambda>executable w.
                 (w, if executable then Inr () else Inl (code_not_executable_error kind)))))"

definition abi_definition_size :: usize where "abi_definition_size = 72"
definition abi_definition_align :: usize where "abi_definition_align = 8"

definition copy_definition ::
  "'p loader_platform \<Rightarrow> 'p module_image \<Rightarrow> usize \<Rightarrow> 'p \<Rightarrow> load_error + abi_definition"
where
  "copy_definition P img pointer p =
     (if pointer = 0 then Inl NullDefinition
      else if pointer mod abi_definition_align \<noteq> 0 then Inl MisalignedDefinition
      else if \<not> contains_range pointer abi_definition_size (mi_bounds img)
      then Inl DefinitionOutsideImage
      else case image_read img p pointer abi_definition_size of
             None \<Rightarrow> Inl (LoadPanic AtValidation)
           | Some (Inl e) \<Rightarrow> Inl DefinitionUnreadable
           | Some (Inr readable) \<Rightarrow>
               if length readable < unat abi_definition_size then Inl DefinitionUnreadable
               else Inr (lp_read_definition P pointer p))"

text \<open>
  The live module as the host's validation reads it. The texts of the reader's errors are
  discarded by every caller, so one text stands for a failed read and one for an unwind.
\<close>

definition unwound_read :: string where "unwound_read = ''unwound''"

definition live_view :: "'p module_image \<Rightarrow> 'p \<Rightarrow> abi_definition \<Rightarrow> live_module" where
  "live_view img p d =
     Inr (definition_view d, \<lambda>a n.
       case image_read img p a n of
         None \<Rightarrow> Inl unwound_read
       | Some (Inl e) \<Rightarrow> Inl ''failed''
       | Some (Inr bytes) \<Rightarrow> Inr bytes)"

definition is_unwound_read :: "definition_error \<Rightarrow> bool" where
  "is_unwound_read e \<longleftrightarrow> (\<exists>f \<in> set [NameField, AuthorField, DescriptionField, UpdateLinkField].
     e = MemoryRead f unwound_read)"

definition validate_live ::
  "'p module_image \<Rightarrow> 'p \<Rightarrow> abi_definition \<Rightarrow> metadata_limits \<Rightarrow> load_error + owned_definition"
where
  "validate_live img p d limits =
     (case validate_and_copy_definition (live_view img p d) limits of
        Inl e \<Rightarrow> Inl (if is_unwound_read e then LoadPanic AtValidation
                       else DefinitionRejected (definition_issue_of e))
      | Inr owned \<Rightarrow> Inr owned)"

datatype module_state =
    ModInspected | ModActive | ModActivationFailed | ModShutdownRequested | ModQuiesced
  | ModUnloadComplete | ModCleanupComplete | ModReleaseUncertain | ModReleased

record 'p addon_module =
  am_handle :: "usize option"
  am_image :: "'p module_image"
  am_definition :: abi_definition
  am_owned :: owned_definition
  am_load :: usize
  am_unload :: usize
  am_gate :: callback_gate
  am_state :: module_state
  am_release_on_drop :: bool

text \<open>The definition at the exported address is copied, validated and its callbacks checked.\<close>

definition accept_definition ::
  "'p loader_platform \<Rightarrow> metadata_limits \<Rightarrow> usize \<Rightarrow> 'p module_image \<Rightarrow> usize \<Rightarrow>
   'p native_world \<Rightarrow> 'p native_world \<times> (load_error + 'p addon_module)"
where
  "accept_definition P limits handle img pointer w =
     try_then (w, copy_definition P img pointer (nw_state w)) (\<lambda>d w.
     try_then (w, validate_live img (nw_state w) d limits) (\<lambda>owned w.
     try_then (w, if ab_load d = 0 then Inl (DefinitionRejected IssueMissingLoad) else Inr ()) (\<lambda>_ w.
     try_then (validate_code_address P handle (mi_bounds img) (ab_load d) LoadCallback w) (\<lambda>_ w.
     try_then (if ab_unload d = 0 then (w, Inr ())
               else validate_code_address P handle (mi_bounds img) (ab_unload d) UnloadCallback w)
       (\<lambda>_ w.
         (w, Inr \<lparr>am_handle = Some handle, am_image = img, am_definition = d, am_owned = owned,
                  am_load = ab_load d, am_unload = ab_unload d, am_gate = gate_open,
                  am_state = ModInspected, am_release_on_drop = True\<rparr>))))))"

text \<open>What \<open>load_absolute\<close> does while the provisional owner holds the library.\<close>

definition inspect_library ::
  "'p loader_platform \<Rightarrow> metadata_limits \<Rightarrow> usize \<Rightarrow> 'p native_world \<Rightarrow>
   'p native_world \<times> (load_error + 'p addon_module)"
where
  "inspect_library P limits handle w =
     (let (w, r) = query (lp_module_image P handle) w
      in try_then (w, contained AtInspectImage InspectImage r) (\<lambda>img w.
         let (w, r) = query (lp_resolve_export P handle) w
         in try_then (w, contained AtResolveExport ResolveDefinitionExport r) (\<lambda>export w.
            try_then (validate_code_address P handle (mi_bounds img) export DefinitionExport w) (\<lambda>_ w.
              let (w, r) = native_call_export P export w
              in try_then (w, case r of None \<Rightarrow> Inl (LoadPanic AtDefinitionExport) | Some a \<Rightarrow> Inr a)
                   (\<lambda>pointer w. accept_definition P limits handle img pointer w)))))"

text \<open>
  \<open>load_absolute\<close>: on every failure after the library was loaded the provisional owner is
  dropped, which releases the library and ignores the outcome.
\<close>

definition load_absolute ::
  "'p loader_platform \<Rightarrow> dll_path \<Rightarrow> metadata_limits \<Rightarrow> 'p native_world \<Rightarrow>
   'p native_world \<times> (load_error + 'p addon_module)"
where
  "load_absolute P path limits w =
     (let (w, r) = native_load_library P path w
      in try_then (w, contained AtLoadLibrary LoadLibrary r) (\<lambda>handle w.
           case inspect_library P limits handle w of
             (w, Inl e) \<Rightarrow> (fst (native_free_library P handle w), Inl e)
           | (w, Inr m) \<Rightarrow> (w, Inr m)))"

definition load_addon ::
  "'p loader_platform \<Rightarrow> dll_path \<Rightarrow> metadata_limits \<Rightarrow> 'p native_world \<Rightarrow>
   'p native_world \<times> (load_error + 'p addon_module)"
where
  "load_addon P path limits w =
     (case absolute_dll_path path of
        Inl e \<Rightarrow> (w, Inl (LoadPath e))
      | Inr path \<Rightarrow> load_absolute P path limits w)"

section \<open>The life of a module\<close>

datatype module_operation =
  Activate | RequestShutdown | DrainCallbacks | InvokeUnload | CompleteHostCleanup | Release

datatype module_error =
    ModInvalidTransition module_operation module_state
  | ModAdmissionClosed
  | ModDrainTimedOut
  | ModDrainIncomplete
  | ModPanic panic_boundary
  | ModCleanupFailed
  | ModPlatform platform_operation platform_error

definition mod_close_gate :: "'p addon_module \<Rightarrow> 'p addon_module" where
  "mod_close_gate m = m\<lparr>am_gate := fst (gate_close (am_gate m))\<rparr>"

definition mod_activate ::
  "'p loader_platform \<Rightarrow> api_revision \<Rightarrow> 'p addon_module \<Rightarrow> 'p native_world \<Rightarrow>
   'p native_world \<times> 'p addon_module \<times> (module_error + unit)"
where
  "mod_activate P api m w =
     (if am_state m \<noteq> ModInspected then (w, m, Inl (ModInvalidTransition Activate (am_state m)))
      else
        (let (entered, admitted) = gate_try_enter (am_gate m)
         in if \<not> admitted then (w, m\<lparr>am_gate := entered\<rparr>, Inl ModAdmissionClosed)
            else
              (let (w, r) = native_call_load P (am_load m) api w;
                   m = m\<lparr>am_gate := fst (gate_leave entered)\<rparr>
               in case r of
                    Some u \<Rightarrow> (w, m\<lparr>am_state := ModActive\<rparr>, Inr ())
                  | None \<Rightarrow>
                      (w, (mod_close_gate m)\<lparr>am_state := ModActivationFailed\<rparr>,
                       Inl (ModPanic AtLoadCallback)))))"

definition mod_request_shutdown :: "'p addon_module \<Rightarrow> 'p addon_module \<times> (module_error + unit)" where
  "mod_request_shutdown m =
     (if am_state m \<in> {ModActive, ModActivationFailed}
      then ((mod_close_gate m)\<lparr>am_state := ModShutdownRequested\<rparr>, Inr ())
      else (m, Inl (ModInvalidTransition RequestShutdown (am_state m))))"

text \<open>\<open>None\<close> is a wait that has not returned within the rounds given.\<close>

definition mod_wait_for_callbacks ::
  "nat \<Rightarrow> wait_round list \<Rightarrow> 'p addon_module \<Rightarrow> 'p addon_module \<times> (module_error + unit) option"
where
  "mod_wait_for_callbacks timeout script m =
     (if am_state m \<noteq> ModShutdownRequested
      then (m, Some (Inl (ModInvalidTransition DrainCallbacks (am_state m))))
      else
        (let (g, drained) = gate_wait timeout script (am_gate m); m = m\<lparr>am_gate := g\<rparr>
         in case drained of
              None \<Rightarrow> (m, None)
            | Some False \<Rightarrow> (m, Some (Inl ModDrainTimedOut))
            | Some True \<Rightarrow> (m\<lparr>am_state := ModQuiesced\<rparr>, Some (Inr ()))))"

definition mod_invoke_unload ::
  "'p loader_platform \<Rightarrow> 'p addon_module \<Rightarrow> 'p native_world \<Rightarrow>
   'p native_world \<times> 'p addon_module \<times> (module_error + unit)"
where
  "mod_invoke_unload P m w =
     (if am_state m \<noteq> ModQuiesced
      then (w, m, Inl (ModInvalidTransition InvokeUnload (am_state m)))
      else
        (let (w, r) = (if am_unload m = 0 then (w, Some ())
                       else native_call_unload P (am_unload m) w)
         in (w, m\<lparr>am_state := ModUnloadComplete\<rparr>,
             case r of Some u \<Rightarrow> Inr () | None \<Rightarrow> Inl (ModPanic AtUnloadCallback))))"

text \<open>The cleanup closure returns, fails or unwinds; what it does to the host is its caller's.\<close>

datatype cleanup_answer = CleanupOk | CleanupErr | CleanupUnwound

definition mod_complete_cleanup ::
  "cleanup_answer \<Rightarrow> 'p addon_module \<Rightarrow> 'p native_world \<Rightarrow>
   'p native_world \<times> 'p addon_module \<times> (module_error + unit)"
where
  "mod_complete_cleanup answer m w =
     (if am_state m \<noteq> ModUnloadComplete
      then (w, m, Inl (ModInvalidTransition CompleteHostCleanup (am_state m)))
      else
        (let w = record_call (RanCleanup (answer = CleanupOk)) w
         in case answer of
              CleanupUnwound \<Rightarrow> (w, m, Inl (ModPanic AtHostCleanup))
            | CleanupErr \<Rightarrow> (w, m, Inl ModCleanupFailed)
            | CleanupOk \<Rightarrow> (w, m\<lparr>am_state := ModCleanupComplete\<rparr>, Inr ())))"

text \<open>
  \<open>release\<close> consumes the module; the module returned is what it became. A failure hands it
  back inside the error, with \<open>release_on_drop\<close> cleared; after a success the caller has none.
\<close>

definition mod_release ::
  "'p loader_platform \<Rightarrow> 'p addon_module \<Rightarrow> 'p native_world \<Rightarrow>
   'p native_world \<times> 'p addon_module \<times> (module_error + unit)"
where
  "mod_release P m w =
     (let failed = (\<lambda>w m e. (w, m\<lparr>am_release_on_drop := False\<rparr>, Inl e))
      in if am_state m \<notin> {ModInspected, ModCleanupComplete}
         then failed w m (ModInvalidTransition Release (am_state m))
         else
           (let m = (if am_state m = ModInspected then mod_close_gate m else m)
            in if in_flight (am_gate m) \<noteq> 0 then failed w m ModDrainIncomplete
               else case am_handle m of
                      None \<Rightarrow> failed w m (ModInvalidTransition Release (am_state m))
                    | Some handle \<Rightarrow>
                        (let (w, r) = native_free_library P handle w
                         in case r of
                              Some (Inr u) \<Rightarrow>
                                (w, m\<lparr>am_handle := None, am_state := ModReleased\<rparr>, Inr ())
                            | Some (Inl source) \<Rightarrow> failed w m (ModPlatform FreeLibrary source)
                            | None \<Rightarrow>
                                failed w (m\<lparr>am_handle := None, am_state := ModReleaseUncertain\<rparr>)
                                  (ModPanic AtFreeLibrary))))"

definition release_is_retryable :: "'p addon_module \<Rightarrow> bool" where
  "release_is_retryable m \<longleftrightarrow>
     am_handle m \<noteq> None \<and> am_state m \<in> {ModInspected, ModCleanupComplete}"

definition mod_drop ::
  "'p loader_platform \<Rightarrow> 'p addon_module \<Rightarrow> 'p native_world \<Rightarrow> 'p native_world \<times> 'p addon_module"
where
  "mod_drop P m w =
     (let m = (if am_state m = ModInspected then mod_close_gate m else m);
          safe = (am_release_on_drop m \<and> in_flight (am_gate m) = 0 \<and>
                  am_state m \<in> {ModInspected, ModCleanupComplete})
      in case am_handle m of
           None \<Rightarrow> (w, m)
         | Some handle \<Rightarrow>
             (if safe then fst (native_free_library P handle w) else w, m\<lparr>am_handle := None\<rparr>))"

text \<open>A registration wrapper that enters or leaves through its clone of the gate.\<close>

definition mod_enter :: "'p addon_module \<Rightarrow> 'p native_world \<Rightarrow> 'p native_world \<times> 'p addon_module \<times> bool" where
  "mod_enter m w =
     (let (g, admitted) = gate_try_enter (am_gate m)
      in (if admitted then record_call GuardEntered w else w, m\<lparr>am_gate := g\<rparr>, admitted))"

definition record_leaves :: "nat \<Rightarrow> 'p native_world \<Rightarrow> 'p native_world" where
  "record_leaves n w = (record_call GuardLeft ^^ n) w"

definition mod_leave :: "'p addon_module \<Rightarrow> 'p native_world \<Rightarrow> 'p native_world \<times> 'p addon_module" where
  "mod_leave m w = (record_call GuardLeft w, m\<lparr>am_gate := fst (gate_leave (am_gate m))\<rparr>)"

section \<open>The protocol of native calls\<close>

text \<open>
  What the native side may see of one loaded library, as an automaton over its calls: the load
  callback at most once and first, the unload callback at most once after it and only when no
  guard is inside, the host's cleanup after that, and the release only of a library whose load
  callback never ran or whose cleanup succeeded. Once the unload callback, the cleanup or a
  release was tried no guard enters, and after a definite release nothing happens.
\<close>

datatype native_phase = Mapped | Running | Stopped | Gone

record native_protocol =
  np_phase :: native_phase
  np_guards :: nat
  np_sealed :: bool
  np_cleaned :: bool

definition protocol_start :: native_protocol where
  "protocol_start = \<lparr>np_phase = Mapped, np_guards = 0, np_sealed = False, np_cleaned = False\<rparr>"

definition callbacks_over :: "usize \<Rightarrow> native_protocol \<Rightarrow> bool" where
  "callbacks_over unload s \<longleftrightarrow>
     np_guards s = 0 \<and> np_phase s = (if unload = 0 then Running else Stopped)"

fun protocol_step ::
  "usize \<Rightarrow> usize \<Rightarrow> usize \<Rightarrow> native_call \<Rightarrow> native_protocol \<Rightarrow> native_protocol option"
where
  "protocol_step handle load unload (CalledLoad a) s =
     (if a = load \<and> np_phase s = Mapped \<and> \<not> np_sealed s
      then Some (s\<lparr>np_phase := Running\<rparr>) else None)"
| "protocol_step handle load unload (CalledUnload a) s =
     (if a = unload \<and> unload \<noteq> 0 \<and> np_phase s = Running \<and> np_guards s = 0 \<and> \<not> np_sealed s
      then Some (s\<lparr>np_phase := Stopped, np_sealed := True\<rparr>) else None)"
| "protocol_step handle load unload (RanCleanup ok) s =
     (if callbacks_over unload s \<and> \<not> np_cleaned s
      then Some (s\<lparr>np_sealed := True, np_cleaned := ok\<rparr>) else None)"
| "protocol_step handle load unload (TriedFree h r) s =
     (if h = handle \<and> np_guards s = 0 \<and>
        (np_phase s = Mapped \<or> np_cleaned s \<and> callbacks_over unload s)
      then Some (s\<lparr>np_sealed := True, np_phase := (if r = FreeRefused then np_phase s else Gone)\<rparr>)
      else None)"
| "protocol_step handle load unload GuardEntered s =
     (if np_phase s \<in> {Mapped, Running} \<and> \<not> np_sealed s
      then Some (s\<lparr>np_guards := np_guards s + 1\<rparr>) else None)"
| "protocol_step handle load unload GuardLeft s =
     (if 0 < np_guards s then Some (s\<lparr>np_guards := np_guards s - 1\<rparr>) else None)"
| "protocol_step handle load unload (LoadedLibrary h) s = None"
| "protocol_step handle load unload (CalledExport a) s = None"

fun protocol_run ::
  "usize \<Rightarrow> usize \<Rightarrow> usize \<Rightarrow> native_call list \<Rightarrow> native_protocol \<Rightarrow> native_protocol option"
where
  "protocol_run handle load unload [] s = Some s"
| "protocol_run handle load unload (c # cs) s =
     Option.bind (protocol_step handle load unload c s) (protocol_run handle load unload cs)"

section \<open>Histories of one module\<close>

text \<open>
  What can happen after a load: the owner's operations, registration wrappers entering and
  leaving through their clones of the gate, also after the owner has released or dropped the
  module, and native code changing its own state. A wrapper enters only while fewer than
  \<open>2 ^ 64 - 1\<close> others are inside.
\<close>

record 'p module_life =
  ml_world :: "'p native_world"
  ml_module :: "'p addon_module"
  ml_owned :: bool

inductive life_step :: "'p loader_platform \<Rightarrow> 'p module_life \<Rightarrow> 'p module_life \<Rightarrow> bool"
  for P :: "'p loader_platform"
where
  life_activate:
    "mod_activate P api m w = (w', m', r) \<Longrightarrow>
     life_step P \<lparr>ml_world = w, ml_module = m, ml_owned = True\<rparr>
       \<lparr>ml_world = w', ml_module = m', ml_owned = True\<rparr>"
| life_shutdown:
    "mod_request_shutdown m = (m', r) \<Longrightarrow>
     life_step P \<lparr>ml_world = w, ml_module = m, ml_owned = True\<rparr>
       \<lparr>ml_world = w, ml_module = m', ml_owned = True\<rparr>"
| life_wait:
    "mod_wait_for_callbacks timeout script m = (m', r) \<Longrightarrow>
     life_step P \<lparr>ml_world = w, ml_module = m, ml_owned = True\<rparr>
       \<lparr>ml_world = record_leaves (unat (in_flight (am_gate m)) - unat (in_flight (am_gate m'))) w,
        ml_module = m', ml_owned = True\<rparr>"
| life_unload:
    "mod_invoke_unload P m w = (w', m', r) \<Longrightarrow>
     life_step P \<lparr>ml_world = w, ml_module = m, ml_owned = True\<rparr>
       \<lparr>ml_world = w', ml_module = m', ml_owned = True\<rparr>"
| life_cleanup:
    "mod_complete_cleanup answer m w = (w', m', r) \<Longrightarrow>
     life_step P \<lparr>ml_world = w, ml_module = m, ml_owned = True\<rparr>
       \<lparr>ml_world = w', ml_module = m', ml_owned = True\<rparr>"
| life_release:
    "mod_release P m w = (w', m', r) \<Longrightarrow>
     life_step P \<lparr>ml_world = w, ml_module = m, ml_owned = True\<rparr>
       \<lparr>ml_world = w', ml_module = m', ml_owned = (r \<noteq> Inr ())\<rparr>"
| life_drop:
    "mod_drop P m w = (w', m') \<Longrightarrow>
     life_step P \<lparr>ml_world = w, ml_module = m, ml_owned = True\<rparr>
       \<lparr>ml_world = w', ml_module = m', ml_owned = False\<rparr>"
| life_enter:
    "mod_enter m w = (w', m', admitted) \<Longrightarrow> unat (in_flight (am_gate m)) < 2 ^ 64 - 1 \<Longrightarrow>
     life_step P \<lparr>ml_world = w, ml_module = m, ml_owned = owned\<rparr>
       \<lparr>ml_world = w', ml_module = m', ml_owned = owned\<rparr>"
| life_leave:
    "mod_leave m w = (w', m') \<Longrightarrow> in_flight (am_gate m) \<noteq> 0 \<Longrightarrow>
     life_step P \<lparr>ml_world = w, ml_module = m, ml_owned = owned\<rparr>
       \<lparr>ml_world = w', ml_module = m', ml_owned = owned\<rparr>"
| life_native:
    "life_step P \<lparr>ml_world = w, ml_module = m, ml_owned = owned\<rparr>
       \<lparr>ml_world = w\<lparr>nw_state := p\<rparr>, ml_module = m, ml_owned = owned\<rparr>"

end
