(* ===== verification/Addon_Discovery.thy ===== *)
theory Addon_Discovery
  imports Md5_Digest Addon_Module "HOL-Library.Char_ord" "HOL-Library.List_Lexorder"
begin

text \<open>
  Discovery of addon libraries (src/crates/nexus-addon-manager, discovery.rs) and the bounded
  buffer of diagnostics (diagnostics.rs): binary revisions, the directory scan, and the ordering of
  what a scan found by the case-insensitive key of its path.
\<close>

unbundle bit_operations_syntax

section \<open>Revisions\<close>

type_synonym binary_revision = "u8 list"

definition hex_lower_digits :: string where "hex_lower_digits = ''0123456789abcdef''"

definition legacy_hex :: "binary_revision \<Rightarrow> string" where
  "legacy_hex revision =
     concat (map (\<lambda>b. [hex_lower_digits ! unat (drop_bit 4 b), hex_lower_digits ! unat (b AND 0x0f)])
       revision)"

definition matches_legacy_hex :: "binary_revision \<Rightarrow> string \<Rightarrow> bool" where
  "matches_legacy_hex revision value \<longleftrightarrow>
     length value = 32 \<and> eq_ignore_ascii_case (legacy_hex revision) value"

section \<open>Candidates\<close>

datatype discovery_error =
    DirectoryNotAbsolute | DirectoryNotNormalized | CandidatePath path_policy_error
  | OutsideDirectory | DuplicateEntry | EmptyBinary | ReadDirectory | InspectEntry | ReadBinary

text \<open>A directory is accepted by what \<open>is_absolute\<close> and \<open>components\<close> say of its path.\<close>

datatype path_component = PathPrefix string | PathRoot | PathCurDir | PathParentDir | PathNormal string

definition addon_directory ::
  "bool \<Rightarrow> path_component list \<Rightarrow> string \<Rightarrow> discovery_error + string"
where
  "addon_directory absolute components directory =
     (if \<not> absolute then Inl DirectoryNotAbsolute
      else if \<exists>c \<in> set components. c = PathCurDir \<or> c = PathParentDir
      then Inl DirectoryNotNormalized
      else Inr directory)"

definition contains_direct_child :: "string \<Rightarrow> dll_path \<Rightarrow> bool" where
  "contains_direct_child directory path \<longleftrightarrow> dp_parent path = Some directory"

record discovered_dll =
  dd_path :: dll_path
  dd_revision :: binary_revision
  dd_byte_len :: u64

definition discovered_dll_new ::
  "dll_path \<Rightarrow> binary_revision \<Rightarrow> u64 \<Rightarrow> discovery_error + discovered_dll"
where
  "discovered_dll_new path revision byte_len =
     (if byte_len = 0 then Inl EmptyBinary
      else case absolute_dll_path path of
             Inl e \<Rightarrow> Inl (CandidatePath e)
           | Inr path \<Rightarrow> Inr \<lparr>dd_path = path, dd_revision = revision, dd_byte_len = byte_len\<rparr>)"

definition path_key :: "dll_path \<Rightarrow> string" where
  "path_key path =
     to_ascii_lowercase (map (\<lambda>c. if c = CHR ''/'' then CHR 0x5C else c) (dp_text path))"

fun adjacent :: "('a \<Rightarrow> 'a \<Rightarrow> bool) \<Rightarrow> 'a list \<Rightarrow> bool" where
  "adjacent p (x # y # xs) = (p x y \<or> adjacent p (y # xs))"
| "adjacent p xs = False"

definition normalize_discovery ::
  "string \<Rightarrow> discovered_dll list \<Rightarrow> discovery_error + discovered_dll list"
where
  "normalize_discovery directory entries =
     (if \<exists>e \<in> set entries. \<not> contains_direct_child directory (dd_path e) then Inl OutsideDirectory
      else
        (let entries = sort_key (\<lambda>e. path_key (dd_path e)) entries
         in if adjacent (\<lambda>a b. path_key (dd_path a) = path_key (dd_path b)) entries
            then Inl DuplicateEntry else Inr entries))"

section \<open>Scanning\<close>

text \<open>
  One directory entry as the file system answers for it: its file type (symbolic link, regular
  file), its length, and the reads of its content; \<open>None\<close> is an error of the call.
\<close>

record scan_entry =
  se_path :: dll_path
  se_type :: "(bool \<times> bool) option"
  se_len :: "u64 option"
  se_content :: "read_answer list option"

definition file_revision :: "read_answer list option \<Rightarrow> (discovery_error + binary_revision) option" where
  "file_revision content =
     (case content of
        None \<Rightarrow> Some (Inl ReadBinary)
      | Some answers \<Rightarrow>
          map_option (\<lambda>r. case r of Inl _ \<Rightarrow> Inl ReadBinary | Inr d \<Rightarrow> Inr d)
            (revision_from_file answers))"

text \<open>One turn of the loop: skipped, an error, or a candidate. \<open>None\<close> is a read that never ends.\<close>

definition scan_one :: "scan_entry \<Rightarrow> (discovery_error + discovered_dll option) option" where
  "scan_one entry =
     (case se_type entry of
        None \<Rightarrow> Some (Inl InspectEntry)
      | Some (is_symlink, is_file) \<Rightarrow>
          if is_symlink \<or> \<not> is_file then Some (Inr None)
          else if case dp_extension (se_path entry) of None \<Rightarrow> True
                  | Some e \<Rightarrow> \<not> eq_ignore_ascii_case e ''dll''
          then Some (Inr None)
          else case se_len entry of
                 None \<Rightarrow> Some (Inl InspectEntry)
               | Some len \<Rightarrow>
                   if len = 0 then Some (Inr None)
                   else map_option
                     (\<lambda>r. case r of
                        Inl e \<Rightarrow> Inl e
                      | Inr revision \<Rightarrow>
                          (case discovered_dll_new (se_path entry) revision len of
                             Inl e \<Rightarrow> Inl e | Inr d \<Rightarrow> Inr (Some d)))
                     (file_revision (se_content entry)))"

fun scan_loop ::
  "scan_entry option list \<Rightarrow> discovered_dll list \<Rightarrow> (discovery_error + discovered_dll list) option"
where
  "scan_loop [] found = Some (Inr found)"
| "scan_loop (None # entries) found = Some (Inl InspectEntry)"
| "scan_loop (Some entry # entries) found =
     (case scan_one entry of
        None \<Rightarrow> None
      | Some (Inl e) \<Rightarrow> Some (Inl e)
      | Some (Inr None) \<Rightarrow> scan_loop entries found
      | Some (Inr (Some d)) \<Rightarrow> scan_loop entries (found @ [d]))"

definition std_scan ::
  "string \<Rightarrow> scan_entry option list option \<Rightarrow> (discovery_error + discovered_dll list) option"
where
  "std_scan directory listing =
     (case listing of
        None \<Rightarrow> Some (Inl ReadDirectory)
      | Some entries \<Rightarrow>
          map_option
            (\<lambda>r. case r of Inl e \<Rightarrow> Inl e | Inr found \<Rightarrow> normalize_discovery directory found)
            (scan_loop entries []))"

section \<open>Diagnostics\<close>

datatype diagnostic_severity = SeverityInfo | SeverityWarning | SeverityError

datatype diagnostic_code =
    CandidateDiscovered | CandidateChanged | CandidateRemoved | CandidateRenamed
  | DefinitionInspected | PolicyBlockedCode | ActivatedCode | UnloadRequestedCode | DrainComplete
  | NativeUnloadCompleteCode | ModuleReleasedCode | ActivationFailedCode | CleanupRetryRequired
  | ReleaseRetryRequired | ReleasePinned | HotReloadComplete | BoundaryPanicContained

record diagnostic =
  dg_sequence :: u64
  dg_severity :: diagnostic_severity
  dg_code :: diagnostic_code
  dg_owner :: "owner_token option"

record diagnostic_buffer =
  db_capacity :: nat
  db_next :: u64
  db_entries :: "diagnostic list"

definition diagnostics_new :: "nat \<Rightarrow> diagnostic_buffer" where
  "diagnostics_new capacity = \<lparr>db_capacity = capacity, db_next = 1, db_entries = []\<rparr>"

definition diagnostics_push ::
  "diagnostic_severity \<Rightarrow> diagnostic_code \<Rightarrow> owner_token option \<Rightarrow> diagnostic_buffer \<Rightarrow>
   diagnostic_buffer"
where
  "diagnostics_push severity code owner b =
     (if db_capacity b = 0 then b
      else
        (let kept = (if length (db_entries b) = db_capacity b then tl (db_entries b) else db_entries b)
         in b\<lparr>db_entries := kept @ [\<lparr>dg_sequence = db_next b, dg_severity = severity, dg_code = code,
                                      dg_owner = owner\<rparr>],
              db_next := saturating_add (db_next b) 1\<rparr>))"

definition diagnostics_take :: "diagnostic_buffer \<Rightarrow> diagnostic_buffer \<times> diagnostic list" where
  "diagnostics_take b = (b\<lparr>db_entries := []\<rparr>, db_entries b)"

lemma diagnostics_bounded:
  "length (db_entries b) \<le> db_capacity b \<Longrightarrow>
   length (db_entries (diagnostics_push sev code owner b)) \<le> db_capacity (diagnostics_push sev code owner b)"
  by (auto simp: diagnostics_push_def Let_def)

section \<open>What a normalised scan is\<close>

lemma adjacent_distinct:
  assumes "sorted (map f xs)" and "\<not> adjacent (\<lambda>a b. f a = f b) xs"
  shows "sorted_wrt (<) (map f xs)"
  using assms
proof (induction "\<lambda>a b. f a = f b" xs rule: adjacent.induct)
  case (1 x y xs)
  then have "sorted_wrt (<) (map f (y # xs))" and "f x < f y" by auto
  then show ?case by auto
qed auto

lemma strictly_sorted_not_adjacent:
  "sorted_wrt (<) (map f xs) \<Longrightarrow> \<not> adjacent (\<lambda>a b. f a = f b) xs" for f :: "'a \<Rightarrow> 'b::linorder"
  by (induction "\<lambda>a b. f a = f b" xs rule: adjacent.induct) auto

lemma sort_key_distinct_strict:
  fixes f :: "'a \<Rightarrow> 'b::linorder"
  assumes "distinct (map f xs)"
  shows "sorted_wrt (<) (map f (sort_key f xs))"
proof -
  have "distinct (map f (sort_key f xs))"
    using assms by (simp add: distinct_map inj_on_def)
  then show ?thesis by (simp add: strict_sorted_iff)
qed

lemma normalize_discovery_iff:
  "normalize_discovery directory entries = Inr found \<longleftrightarrow>
     (\<forall>e \<in> set entries. contains_direct_child directory (dd_path e)) \<and>
     distinct (map (\<lambda>e. path_key (dd_path e)) entries) \<and>
     found = sort_key (\<lambda>e. path_key (dd_path e)) entries"
proof -
  let ?f = "\<lambda>e. path_key (dd_path e)"
  have "\<not> adjacent (\<lambda>a b. ?f a = ?f b) (sort_key ?f entries) \<longleftrightarrow> distinct (map ?f entries)"
  proof
    assume "\<not> adjacent (\<lambda>a b. ?f a = ?f b) (sort_key ?f entries)"
    then have "sorted_wrt (<) (map ?f (sort_key ?f entries))" by (intro adjacent_distinct) simp_all
    then have "distinct (map ?f (sort_key ?f entries))" by (simp add: strict_sorted_iff)
    then show "distinct (map ?f entries)" by (simp add: distinct_map)
  next
    assume "distinct (map ?f entries)"
    then show "\<not> adjacent (\<lambda>a b. ?f a = ?f b) (sort_key ?f entries)"
      by (intro strictly_sorted_not_adjacent sort_key_distinct_strict)
  qed
  then show ?thesis by (auto simp: normalize_discovery_def Let_def)
qed

section \<open>What the diagnostics keep\<close>

text \<open>
  A history of the buffer: reports and takes. \<open>reports\<close> is what was ever reported, \<open>untaken\<close> how
  many of those came after the last take. The sequence number of a report counts from 1 and stays
  at the largest word once it is there.
\<close>

type_synonym report = "diagnostic_severity \<times> diagnostic_code \<times> owner_token option"

datatype buffer_op = Report diagnostic_severity diagnostic_code "owner_token option" | TakeAll

fun buffer_apply :: "buffer_op \<Rightarrow> diagnostic_buffer \<Rightarrow> diagnostic_buffer" where
  "buffer_apply (Report s c ow) b = diagnostics_push s c ow b"
| "buffer_apply TakeAll b = fst (diagnostics_take b)"

fun reported :: "buffer_op \<Rightarrow> report list" where
  "reported (Report s c ow) = [(s, c, ow)]"
| "reported TakeAll = []"

definition reports :: "buffer_op list \<Rightarrow> report list" where
  "reports ops = concat (map reported ops)"

definition untaken :: "buffer_op list \<Rightarrow> nat" where
  "untaken ops = length (takeWhile (\<lambda>x. x \<noteq> TakeAll) (rev ops))"

definition sequence_number :: "nat \<Rightarrow> u64" where
  "sequence_number i = of_nat (min i (2 ^ 64 - 1))"

definition numbered :: "report list \<Rightarrow> diagnostic list" where
  "numbered ds = map (\<lambda>(i, s, c, ow). \<lparr>dg_sequence = sequence_number i, dg_severity = s, dg_code = c,
     dg_owner = ow\<rparr>) (enumerate 1 ds)"

lemma sequence_number_Suc: "saturating_add (sequence_number i) 1 = sequence_number (Suc i)"
proof -
  have u: "unat (sequence_number i) = min i (2 ^ 64 - 1)" for i
    by (simp add: sequence_number_def unsigned_of_nat take_bit_nat_eq_self)
  have "unat (saturating_add (sequence_number i) 1) = unat (sequence_number (Suc i))"
    by (simp add: unat_saturating_add u min_def)
  then show ?thesis by (simp add: word_unat_eq_iff)
qed

lemma reports_snoc [simp]:
  "reports (ops @ [TakeAll]) = reports ops"
  "reports (ops @ [Report s c ow]) = reports ops @ [(s, c, ow)]"
  by (simp_all add: reports_def)

lemma untaken_snoc [simp]:
  "untaken (ops @ [TakeAll]) = 0" "untaken (ops @ [Report s c ow]) = Suc (untaken ops)"
  by (simp_all add: untaken_def)

lemma numbered_snoc: "numbered (ds @ [(s, c, ow)]) = numbered ds @
    [\<lparr>dg_sequence = sequence_number (Suc (length ds)), dg_severity = s, dg_code = c, dg_owner = ow\<rparr>]"
  by (simp add: numbered_def enumerate_append_eq)

lemma length_numbered [simp]: "length (numbered ds) = length ds"
  by (simp add: numbered_def)

lemma untaken_le: "untaken ops \<le> length (reports ops)"
proof (induction ops rule: rev_induct)
  case (snoc x xs)
  then show ?case by (cases x) simp_all
qed (simp add: untaken_def)

lemma diagnostics_after:
  "db_capacity (fold buffer_apply ops (diagnostics_new capacity)) = capacity \<and>
   (0 < capacity \<longrightarrow> db_next (fold buffer_apply ops (diagnostics_new capacity)) =
      sequence_number (Suc (length (reports ops)))) \<and>
   db_entries (fold buffer_apply ops (diagnostics_new capacity)) =
     drop (length (reports ops) - min (untaken ops) capacity) (numbered (reports ops))"
proof (induction ops rule: rev_induct)
  case Nil
  then show ?case
    by (simp add: diagnostics_new_def reports_def untaken_def numbered_def sequence_number_def)
next
  case (snoc x ops)
  let ?b = "fold buffer_apply ops (diagnostics_new capacity)" and ?n = "length (reports ops)"
    and ?N = "numbered (reports ops)"
  show ?case
  proof (cases x)
    case TakeAll
    then show ?thesis using snoc by (simp add: diagnostics_take_def)
  next
    case (Report s c ow)
    have len: "length (db_entries ?b) = min (untaken ops) capacity"
      using snoc untaken_le [of ops] by simp
    consider "capacity = 0" | "0 < capacity" "untaken ops < capacity" | "0 < capacity" "capacity \<le> untaken ops"
      by linarith
    then show ?thesis
    proof cases
      case 1
      then show ?thesis using snoc Report by (simp add: diagnostics_push_def)
    next
      case 2
      then show ?thesis
        using snoc Report len by (simp add: diagnostics_push_def Let_def numbered_snoc sequence_number_Suc)
    next
      case 3
      have n: "capacity \<le> ?n" using 3(2) untaken_le [of ops] by simp
      then have "Suc ?n - capacity = Suc (?n - capacity)" by simp
      moreover have "tl (drop (?n - capacity) ?N) = drop (Suc (?n - capacity)) ?N"
        by (simp add: drop_Suc tl_drop)
      ultimately show ?thesis
        using snoc Report len 3 n
        by (simp add: diagnostics_push_def Let_def numbered_snoc sequence_number_Suc min_def)
    qed
  qed
qed

text \<open>
  C39.
  The bounded diagnostics keep exactly the latest reports nobody took: after any history of reports
  and takes the buffer holds the last of the reports since the last take, up to its capacity, in
  order, numbered consecutively from 1 over the whole history (up to the largest word).
\<close>
theorem diagnostics_keep_latest:
  "db_entries (fold buffer_apply ops (diagnostics_new capacity)) =
      drop (length (reports ops) - min (untaken ops) capacity) (numbered (reports ops)) \<and>
   length (db_entries (fold buffer_apply ops (diagnostics_new capacity))) = min (untaken ops) capacity"
  using diagnostics_after [of ops capacity] untaken_le [of ops] by simp

text \<open>A take between the reports: only what came after it is left.\<close>

lemma diagnostics_keep_latest_example:
  "map dg_code (db_entries (fold buffer_apply
     [Report SeverityInfo CandidateDiscovered None, Report SeverityInfo CandidateChanged None, TakeAll,
      Report SeverityError ReleasePinned None] (diagnostics_new 2))) = [ReleasePinned]"
  by (simp add: diagnostics_push_def diagnostics_take_def diagnostics_new_def Let_def)

end
