(* ===== verification/Addon_Config.thy ===== *)
theory Addon_Config
  imports Text_Prelude
begin

text \<open>
  The persisted addon configuration (src/crates/nexus-addon-manager/src/config.rs): the ordered
  \<open>AddonConfig.json\<close> document with its recognised entries, the fields it does not know, and the
  values it keeps opaque. The JSON library is a record of functions on values of its own type; an
  object is the map from its keys to its members.
\<close>

record 'j json_values =
  jv_parse :: "u8 list \<Rightarrow> 'j option"
  jv_pretty :: "'j list \<Rightarrow> u8 list option"
  jv_array :: "'j \<Rightarrow> 'j list option"
  jv_object :: "'j \<Rightarrow> (string \<rightharpoonup> 'j) option"
  jv_u64 :: "'j \<Rightarrow> u64 option"
  jv_bool :: "'j \<Rightarrow> bool option"
  jv_str :: "'j \<Rightarrow> string option"
  jv_of_object :: "(string \<rightharpoonup> 'j) \<Rightarrow> 'j"
  jv_of_u32 :: "u32 \<Rightarrow> 'j"
  jv_of_bool :: "bool \<Rightarrow> 'j"
  jv_of_str :: "string \<Rightarrow> 'j"

definition max_config_bytes :: nat where "max_config_bytes = 8 * 1024 * 1024"
definition max_config_entries :: nat where "max_config_entries = 16384"

definition key_signature :: string where "key_signature = ''Signature''"
definition key_favorite :: string where "key_favorite = ''IsFavorite''"
definition key_update_mode :: string where "key_update_mode = ''UpdateMode''"
definition key_prereleases :: string where "key_prereleases = ''AllowPrereleases''"
definition key_loaded :: string where "key_loaded = ''IsLoaded''"
definition key_disable_version :: string where "key_disable_version = ''DisableVersion''"
definition key_last_game_build :: string where "key_last_game_build = ''LastGameBuild''"
definition key_name :: string where "key_name = ''Name''"
definition key_pausing_updates :: string where "key_pausing_updates = ''IsPausingUpdates''"

lemmas key_defs =
  key_signature_def key_favorite_def key_update_mode_def key_prereleases_def key_loaded_def
  key_disable_version_def key_last_game_build_def key_name_def key_pausing_updates_def

datatype update_mode = ModeNone | ModeBackground | ModeNotify | ModeAutomatic

fun update_mode_code :: "update_mode \<Rightarrow> u32" where
  "update_mode_code ModeNone = 0"
| "update_mode_code ModeBackground = 1"
| "update_mode_code ModeNotify = 2"
| "update_mode_code ModeAutomatic = 3"

definition update_mode_from_legacy :: "u64 \<Rightarrow> update_mode option" where
  "update_mode_from_legacy value =
     (if value = 0 then Some ModeBackground else if value = 1 then Some ModeBackground
      else if value = 2 then Some ModeNotify else if value = 3 then Some ModeAutomatic else None)"

datatype config_access = Writable | ReadOnlyAllowlist "u32 set"

definition is_writable :: "config_access \<Rightarrow> bool" where
  "is_writable access \<longleftrightarrow> access = Writable"

record addon_config =
  ac_favorite :: bool
  ac_update_mode :: update_mode
  ac_allow_prereleases :: bool
  ac_enabled :: bool
  ac_disable_version :: string
  ac_last_game_build :: u32
  ac_last_name :: string
  ac_persist :: bool

definition registered_default :: addon_config where
  "registered_default =
     \<lparr>ac_favorite = False, ac_update_mode = ModeAutomatic, ac_allow_prereleases = False,
      ac_enabled = True, ac_disable_version = [], ac_last_game_build = 0, ac_last_name = [],
      ac_persist = True\<rparr>"

record 'j known_entry =
  ke_signature :: u32
  ke_config :: addon_config
  ke_unknown :: "string \<rightharpoonup> 'j"

datatype 'j config_entry = Known "'j known_entry" | Opaque 'j

type_synonym 'j config_document = "'j config_entry list"

datatype config_error =
    ConfigTooLarge | MalformedJson | RootNotArray | TooManyEntries | ConfigZeroSignature
  | ConfigRead | ConfigWrite | ConfigSerialize | ConfigInvariant

section \<open>Parsing\<close>

definition read_bool :: "'j json_values \<Rightarrow> (string \<rightharpoonup> 'j) \<Rightarrow> string \<Rightarrow> bool \<Rightarrow> bool option" where
  "read_bool js obj key d = (case obj key of None \<Rightarrow> Some d | Some v \<Rightarrow> jv_bool js v)"

definition read_string :: "'j json_values \<Rightarrow> (string \<rightharpoonup> 'j) \<Rightarrow> string \<Rightarrow> string \<Rightarrow> string option" where
  "read_string js obj key d = (case obj key of None \<Rightarrow> Some d | Some v \<Rightarrow> jv_str js v)"

text \<open>\<open>u32::try_from\<close> of an unsigned 64-bit value.\<close>

definition u32_try_from :: "u64 \<Rightarrow> u32 option" where
  "u32_try_from n = (if unat n < 2 ^ 32 then Some (ucast n) else None)"

definition read_u32 :: "'j json_values \<Rightarrow> (string \<rightharpoonup> 'j) \<Rightarrow> string \<Rightarrow> u32 \<Rightarrow> u32 option" where
  "read_u32 js obj key d =
     (case obj key of None \<Rightarrow> Some d | Some v \<Rightarrow> Option.bind (jv_u64 js v) u32_try_from)"

definition read_signature :: "'j json_values \<Rightarrow> (string \<rightharpoonup> 'j) \<Rightarrow> u32 option" where
  "read_signature js obj =
     Option.bind (Option.bind (Option.bind (obj key_signature) (jv_u64 js)) u32_try_from)
       (\<lambda>s. if s \<noteq> 0 then Some s else None)"

definition read_update_mode :: "'j json_values \<Rightarrow> (string \<rightharpoonup> 'j) \<Rightarrow> update_mode option" where
  "read_update_mode js obj =
     Option.bind
       (case obj key_pausing_updates of
          None \<Rightarrow> Some ModeAutomatic
        | Some v \<Rightarrow> map_option (\<lambda>b. if b then ModeBackground else ModeAutomatic) (jv_bool js v))
       (\<lambda>mode.
         case obj key_update_mode of
           None \<Rightarrow> Some mode
         | Some v \<Rightarrow> Option.bind (jv_u64 js v) update_mode_from_legacy)"

definition known_keys :: "string list" where
  "known_keys = [key_signature, key_favorite, key_update_mode, key_prereleases, key_loaded,
     key_disable_version, key_last_game_build, key_name]"

definition remove_keys :: "string list \<Rightarrow> (string \<rightharpoonup> 'j) \<Rightarrow> (string \<rightharpoonup> 'j)" where
  "remove_keys keys m = fold (\<lambda>k m. m(k := None)) keys m"

definition parse_known_entry :: "'j json_values \<Rightarrow> 'j \<Rightarrow> 'j known_entry option" where
  "parse_known_entry js value =
     Option.bind (jv_object js value) (\<lambda>obj.
     Option.bind (read_signature js obj) (\<lambda>sig.
     Option.bind (read_update_mode js obj) (\<lambda>mode.
     Option.bind (read_bool js obj key_favorite False) (\<lambda>favorite.
     Option.bind (read_bool js obj key_prereleases False) (\<lambda>prereleases.
     Option.bind (read_bool js obj key_loaded False) (\<lambda>loaded.
     Option.bind (read_string js obj key_disable_version []) (\<lambda>disable_version.
     Option.bind (read_u32 js obj key_last_game_build 0) (\<lambda>build.
     Option.bind (read_string js obj key_name []) (\<lambda>name.
       Some \<lparr>ke_signature = sig,
         ke_config = \<lparr>ac_favorite = favorite, ac_update_mode = mode,
           ac_allow_prereleases = prereleases, ac_enabled = loaded,
           ac_disable_version = disable_version, ac_last_game_build = build,
           ac_last_name = name, ac_persist = True\<rparr>,
         ke_unknown = remove_keys known_keys obj\<rparr>)))))))))"

text \<open>The loop over the values, with the signatures seen so far.\<close>

fun parse_entries :: "'j json_values \<Rightarrow> u32 set \<Rightarrow> 'j list \<Rightarrow> 'j config_document" where
  "parse_entries js seen [] = []"
| "parse_entries js seen (value # values) =
     (case parse_known_entry js value of
        None \<Rightarrow> Opaque value # parse_entries js seen values
      | Some known \<Rightarrow>
          if ke_signature known \<in> seen then Opaque value # parse_entries js seen values
          else Known known # parse_entries js (insert (ke_signature known) seen) values)"

definition parse_document :: "'j json_values \<Rightarrow> u8 list \<Rightarrow> config_error + 'j config_document" where
  "parse_document js bytes =
     (if max_config_bytes < length bytes then Inl ConfigTooLarge
      else case jv_parse js bytes of
             None \<Rightarrow> Inl MalformedJson
           | Some root \<Rightarrow>
               (case jv_array js root of
                  None \<Rightarrow> Inl RootNotArray
                | Some values \<Rightarrow>
                    if max_config_entries < length values then Inl TooManyEntries
                    else Inr (parse_entries js {} values)))"

text \<open>
  \<open>load\<close>: \<open>None\<close> for a file that cannot be opened; the reader delivers the content, of which at
  most one byte over the limit is taken, or fails.
\<close>

definition load_document ::
  "'j json_values \<Rightarrow> (unit + u8 list) option \<Rightarrow> config_error + 'j config_document"
where
  "load_document js file =
     (case file of
        None \<Rightarrow> Inl ConfigRead
      | Some (Inl _) \<Rightarrow> Inl ConfigRead
      | Some (Inr content) \<Rightarrow> parse_document js (take (max_config_bytes + 1) content))"

section \<open>Writing\<close>

definition known_to_value :: "'j json_values \<Rightarrow> 'j known_entry \<Rightarrow> 'j" where
  "known_to_value js e =
     (let c = ke_config e
      in jv_of_object js ((ke_unknown e)
           (key_signature \<mapsto> jv_of_u32 js (ke_signature e),
            key_favorite \<mapsto> jv_of_bool js (ac_favorite c),
            key_update_mode \<mapsto> jv_of_u32 js (update_mode_code (ac_update_mode c)),
            key_prereleases \<mapsto> jv_of_bool js (ac_allow_prereleases c),
            key_loaded \<mapsto> jv_of_bool js (ac_enabled c),
            key_disable_version \<mapsto> jv_of_str js (ac_disable_version c),
            key_last_game_build \<mapsto> jv_of_u32 js (ac_last_game_build c),
            key_name \<mapsto> jv_of_str js (ac_last_name c))))"

fun entry_value :: "'j json_values \<Rightarrow> 'j config_entry \<Rightarrow> 'j option" where
  "entry_value js (Known e) =
     (if ac_persist (ke_config e) then Some (known_to_value js e) else None)"
| "entry_value js (Opaque v) = Some v"

definition document_values :: "'j json_values \<Rightarrow> 'j config_document \<Rightarrow> 'j list" where
  "document_values js doc = List.map_filter (entry_value js) doc"

definition to_json :: "'j json_values \<Rightarrow> 'j config_document \<Rightarrow> config_error + u8 list" where
  "to_json js doc =
     (case jv_pretty js (document_values js doc) of
        None \<Rightarrow> Inl ConfigSerialize
      | Some bytes \<Rightarrow>
          (let bytes = bytes @ [10]
           in if max_config_bytes < length bytes then Inl ConfigTooLarge else Inr bytes))"

text \<open>
  \<open>save\<close> truncates the file, writes the bytes and synchronises: whether each of the three
  succeeds is given, and the result is the content the file is left with, where it is known.
\<close>

record save_answers =
  sa_open :: bool
  sa_write :: "nat option"
  sa_sync :: bool

definition save_document ::
  "'j json_values \<Rightarrow> save_answers \<Rightarrow> 'j config_document \<Rightarrow> u8 list \<Rightarrow> u8 list \<times> (config_error + unit)"
where
  "save_document js answers doc content =
     (case to_json js doc of
        Inl e \<Rightarrow> (content, Inl e)
      | Inr bytes \<Rightarrow>
          if \<not> sa_open answers then (content, Inl ConfigWrite)
          else case sa_write answers of
                 Some written \<Rightarrow> (take written bytes, Inl ConfigWrite)
               | None \<Rightarrow> (bytes, if sa_sync answers then Inr () else Inl ConfigWrite))"

section \<open>Access\<close>

fun is_known :: "u32 \<Rightarrow> 'j config_entry \<Rightarrow> bool" where
  "is_known sig (Known e) = (ke_signature e = sig)"
| "is_known sig (Opaque v) = False"

fun entry_config :: "'j config_entry \<Rightarrow> addon_config option" where
  "entry_config (Known e) = Some (ke_config e)"
| "entry_config (Opaque v) = None"

definition config_get :: "u32 \<Rightarrow> 'j config_document \<Rightarrow> addon_config option" where
  "config_get sig doc = Option.bind (find (is_known sig) doc) entry_config"

fun change_entry :: "(addon_config \<Rightarrow> addon_config) \<Rightarrow> 'j config_entry \<Rightarrow> 'j config_entry" where
  "change_entry f (Known e) = Known (e\<lparr>ke_config := f (ke_config e)\<rparr>)"
| "change_entry f (Opaque v) = Opaque v"

text \<open>\<open>get_or_insert\<close> hands out a reference; \<open>f\<close> is what the caller does through it.\<close>

definition config_change ::
  "u32 \<Rightarrow> (addon_config \<Rightarrow> addon_config) \<Rightarrow> 'j config_document \<Rightarrow>
   'j config_document \<times> (config_error + addon_config)"
where
  "config_change sig f doc =
     (if sig = 0 then (doc, Inl ConfigZeroSignature)
      else
        (let doc = (if find (is_known sig) doc \<noteq> None then doc
                    else doc @ [Known \<lparr>ke_signature = sig, ke_config = registered_default,
                                       ke_unknown = (\<lambda>_. None)\<rparr>]);
             doc = update_first (is_known sig) (change_entry f) doc
         in (doc, case config_get sig doc of Some c \<Rightarrow> Inr c | None \<Rightarrow> Inl ConfigInvariant)))"

definition opaque_signature :: "'j json_values \<Rightarrow> 'j \<Rightarrow> u64 option" where
  "opaque_signature js v =
     Option.bind (jv_object js v) (\<lambda>obj. Option.bind (obj key_signature) (jv_u64 js))"

fun kept_entry :: "'j json_values \<Rightarrow> u32 \<Rightarrow> 'j config_entry \<Rightarrow> bool" where
  "kept_entry js sig (Known e) = (ke_signature e \<noteq> sig)"
| "kept_entry js sig (Opaque v) = (opaque_signature js v \<noteq> Some (ucast sig))"

definition config_remove :: "'j json_values \<Rightarrow> u32 \<Rightarrow> 'j config_document \<Rightarrow> 'j config_document" where
  "config_remove js sig doc = filter (kept_entry js sig) doc"

definition known_len :: "'j config_document \<Rightarrow> nat" where
  "known_len doc = length (filter (\<lambda>e. entry_config e \<noteq> None) doc)"

definition opaque_len :: "'j config_document \<Rightarrow> nat" where
  "opaque_len doc = length doc - known_len doc"

section \<open>The document's invariant\<close>

text \<open>
  What the code relies on of the JSON library. A written value is read back as \<open>jr_again\<close> of it:
  integers, booleans and strings are exact, arrays and objects keep their elements and keys, and a
  floating-point number may come back as another one, since the library's exact reading of those is
  an option that is not enabled. Not every
  value can be read back, since the reader bounds the nesting: \<open>jr_element\<close> are the values that may
  be elements of a document, \<open>jr_member\<close> those that may be members of such an element.
\<close>

record 'j json_reading =
  jr_again :: "'j \<Rightarrow> 'j"
  jr_element :: "'j \<Rightarrow> bool"
  jr_member :: "'j \<Rightarrow> bool"

definition members_ok :: "'j json_reading \<Rightarrow> (string \<rightharpoonup> 'j) \<Rightarrow> bool" where
  "members_ok jr m \<longleftrightarrow> finite (dom m) \<and> (\<forall>w \<in> ran m. jr_member jr w)"

definition json_lawful :: "'j json_values \<Rightarrow> 'j json_reading \<Rightarrow> bool" where
  "json_lawful js jr \<longleftrightarrow>
     (\<forall>m. finite (dom m) \<longrightarrow> jv_object js (jv_of_object js m) = Some m) \<and>
     (\<forall>n. jv_u64 js (jv_of_u32 js n) = Some (ucast n)) \<and>
     (\<forall>b. jv_bool js (jv_of_bool js b) = Some b) \<and>
     (\<forall>t. jv_str js (jv_of_str js t) = Some t) \<and>
     (\<forall>v. jv_object js (jr_again jr v) = map_option ((\<circ>) (map_option (jr_again jr))) (jv_object js v)) \<and>
     (\<forall>v. jv_u64 js (jr_again jr v) = jv_u64 js v) \<and>
     (\<forall>v. jv_bool js (jr_again jr v) = jv_bool js v) \<and>
     (\<forall>v. jv_str js (jr_again jr v) = jv_str js v) \<and>
     (\<forall>bytes root vs. jv_parse js bytes = Some root \<longrightarrow> jv_array js root = Some vs \<longrightarrow>
        list_all (jr_element jr) vs) \<and>
     (\<forall>v m. jr_element jr v \<longrightarrow> jv_object js v = Some m \<longrightarrow> members_ok jr m) \<and>
     (\<forall>n. jr_member jr (jv_of_u32 js n)) \<and> (\<forall>b. jr_member jr (jv_of_bool js b)) \<and>
     (\<forall>t. jr_member jr (jv_of_str js t)) \<and>
     (\<forall>m. members_ok jr m \<longrightarrow> jr_element jr (jv_of_object js m)) \<and>
     (\<forall>vs bytes. list_all (jr_element jr) vs \<longrightarrow> jv_pretty js vs = Some bytes \<longrightarrow>
        Option.bind (jv_parse js (bytes @ [10])) (jv_array js) = Some (map (jr_again jr) vs))"

definition entry_ok :: "'j json_values \<Rightarrow> 'j json_reading \<Rightarrow> 'j known_entry \<Rightarrow> bool" where
  "entry_ok js jr e \<longleftrightarrow>
     ke_signature e \<noteq> 0 \<and> members_ok jr (ke_unknown e) \<and>
     dom (ke_unknown e) \<inter> set known_keys = {} \<and>
     (case ke_unknown e key_pausing_updates of None \<Rightarrow> True | Some v \<Rightarrow> jv_bool js v \<noteq> None)"

text \<open>
  Signatures are distinct, and a value kept opaque is one that is not recognised or that repeats
  the signature of an entry before it.
\<close>

fun wf_entries :: "'j json_values \<Rightarrow> 'j json_reading \<Rightarrow> u32 set \<Rightarrow> 'j config_document \<Rightarrow> bool" where
  "wf_entries js jr seen [] = True"
| "wf_entries js jr seen (Known e # es) =
     (entry_ok js jr e \<and> ke_signature e \<notin> seen \<and> wf_entries js jr (insert (ke_signature e) seen) es)"
| "wf_entries js jr seen (Opaque v # es) =
     (jr_element jr v \<and>
      (case parse_known_entry js v of None \<Rightarrow> True | Some k \<Rightarrow> ke_signature k \<in> seen) \<and>
      wf_entries js jr seen es)"

lemma remove_keys_apply: "remove_keys keys m k = (if k \<in> set keys then None else m k)"
proof -
  have "fold (\<lambda>k m. m(k := None)) keys m k = (if k \<in> set keys then None else m k)"
    by (induction keys arbitrary: m) auto
  then show ?thesis by (simp add: remove_keys_def)
qed

lemma read_signature_nonzero: "read_signature js obj = Some s \<Longrightarrow> s \<noteq> 0"
  by (auto simp: read_signature_def bind_eq_Some_conv split: if_splits)

lemma pausing_not_known: "key_pausing_updates \<notin> set known_keys"
  by (simp add: known_keys_def key_defs)

lemma parse_known_entry_ok:
  assumes "json_lawful js jr" and "parse_known_entry js v = Some e" and "jr_element jr v"
  shows "entry_ok js jr e \<and> ac_persist (ke_config e)"
proof -
  obtain obj where obj: "jv_object js v = Some obj" and sig: "read_signature js obj = Some (ke_signature e)"
    and mode: "read_update_mode js obj \<noteq> None" and unknown: "ke_unknown e = remove_keys known_keys obj"
    and persist: "ac_persist (ke_config e)"
    using assms(2) by (auto simp: parse_known_entry_def bind_eq_Some_conv)
  have "members_ok jr obj" using assms(1,3) obj by (simp add: json_lawful_def)
  moreover have "dom (ke_unknown e) \<subseteq> dom obj" "ran (ke_unknown e) \<subseteq> ran obj"
    by (auto simp: unknown remove_keys_apply ran_def split: if_splits)
  ultimately have "members_ok jr (ke_unknown e)"
    by (auto simp: members_ok_def intro: rev_finite_subset)
  moreover have "dom (ke_unknown e) \<inter> set known_keys = {}"
    by (auto simp: unknown remove_keys_apply split: if_splits)
  moreover have "case ke_unknown e key_pausing_updates of None \<Rightarrow> True | Some v \<Rightarrow> jv_bool js v \<noteq> None"
    using mode by (auto simp: unknown remove_keys_apply read_update_mode_def pausing_not_known
        bind_eq_Some_conv split: option.splits)
  ultimately show ?thesis using read_signature_nonzero [OF sig] persist by (simp add: entry_ok_def)
qed

lemma parse_entries_wf:
  "json_lawful js jr \<Longrightarrow> list_all (jr_element jr) vs \<Longrightarrow> wf_entries js jr seen (parse_entries js seen vs)"
  by (induction vs arbitrary: seen) (auto simp: parse_known_entry_ok split: option.splits)

section \<open>The round trip of one entry\<close>

definition reread_mode :: "update_mode \<Rightarrow> update_mode" where
  "reread_mode mode = (if mode = ModeNone then ModeBackground else mode)"

definition reread_config :: "addon_config \<Rightarrow> addon_config" where
  "reread_config c = c\<lparr>ac_update_mode := reread_mode (ac_update_mode c)\<rparr>"

text \<open>What an entry is after it was written and read; only values of the library's own may differ.\<close>

definition again_unknown :: "'j json_reading \<Rightarrow> 'j known_entry \<Rightarrow> 'j known_entry" where
  "again_unknown jr e = e\<lparr>ke_unknown := map_option (jr_again jr) \<circ> ke_unknown e\<rparr>"

fun reread :: "'j json_reading \<Rightarrow> 'j config_entry \<Rightarrow> 'j config_entry" where
  "reread jr (Known e) = Known (again_unknown jr (e\<lparr>ke_config := reread_config (ke_config e)\<rparr>))"
| "reread jr (Opaque v) = Opaque (jr_again jr v)"

text \<open>Reading again what was written gives the same recognised entry, or again none.\<close>

lemma parse_again:
  assumes "json_lawful js jr"
  shows "parse_known_entry js (jr_again jr v) = map_option (again_unknown jr) (parse_known_entry js v)"
proof (cases "jv_object js v")
  case None
  then show ?thesis using assms by (simp add: json_lawful_def parse_known_entry_def)
next
  case (Some obj)
  let ?obj = "map_option (jr_again jr) \<circ> obj"
  have obj: "jv_object js (jr_again jr v) = Some ?obj"
    using assms Some by (simp add: json_lawful_def)
  have same: "jv_u64 js (jr_again jr v) = jv_u64 js v" "jv_bool js (jr_again jr v) = jv_bool js v"
    "jv_str js (jr_again jr v) = jv_str js v" for v
    using assms by (simp_all add: json_lawful_def)
  have reads: "read_signature js ?obj = read_signature js obj"
    "read_update_mode js ?obj = read_update_mode js obj"
    "read_bool js ?obj k d = read_bool js obj k d"
    "read_string js ?obj k t = read_string js obj k t" "read_u32 js ?obj k n = read_u32 js obj k n"
    for k d t n
    by (cases "obj key_signature"; cases "obj key_update_mode"; cases "obj key_pausing_updates"; cases "obj k";
        simp add: read_signature_def read_update_mode_def read_bool_def read_string_def read_u32_def same)+
  have rest: "remove_keys known_keys ?obj = map_option (jr_again jr) \<circ> remove_keys known_keys obj"
    by (auto simp: remove_keys_apply)
  show ?thesis
    unfolding parse_known_entry_def Some obj Option.bind.bind_lunit reads rest
    by (auto simp: again_unknown_def bind_eq_Some_conv bind_eq_None_conv intro!: option.expand
        split: bind_splits)
qed

lemma unat_ucast_u64: "unat (ucast (n :: u32) :: u64) = unat n"
proof -
  have small: "unat n < 2 ^ 64" using unsigned_less [of n, where 'a = nat] by simp
  show ?thesis
    unfolding unsigned_ucast_eq by (rule take_bit_nat_eq_self) (use small in simp)
qed

lemma unat_ucast_u32: "unat (n :: u64) < 2 ^ 32 \<Longrightarrow> unat (ucast n :: u32) = unat n"
  unfolding unsigned_ucast_eq by (rule take_bit_nat_eq_self) simp

lemma u32_try_from_ucast [simp]: "u32_try_from (ucast (n :: u32)) = Some n"
proof -
  have small: "unat (ucast n :: u64) < 2 ^ 32"
    using unsigned_less [of n, where 'a = nat] by (simp add: unat_ucast_u64)
  have "unat (ucast (ucast n :: u64) :: u32) = unat n"
    unfolding unat_ucast_u32 [OF small] by (rule unat_ucast_u64)
  then have "ucast (ucast n :: u64) = n" by (rule unsigned_word_eqI)
  then show ?thesis using small by (simp add: u32_try_from_def)
qed

lemma mode_code_reread:
  "update_mode_from_legacy (ucast (update_mode_code mode)) = Some (reread_mode mode)"
  by (cases mode) (simp_all add: update_mode_from_legacy_def reread_mode_def)

lemma parse_written_entry:
  assumes laws: "json_lawful js jr" and ok: "entry_ok js jr e" and persist: "ac_persist (ke_config e)"
  shows "parse_known_entry js (known_to_value js e) = Some (e\<lparr>ke_config := reread_config (ke_config e)\<rparr>)"
proof -
  let ?c = "ke_config e"
  define m where "m = (ke_unknown e)
     (key_signature \<mapsto> jv_of_u32 js (ke_signature e),
      key_favorite \<mapsto> jv_of_bool js (ac_favorite ?c),
      key_update_mode \<mapsto> jv_of_u32 js (update_mode_code (ac_update_mode ?c)),
      key_prereleases \<mapsto> jv_of_bool js (ac_allow_prereleases ?c),
      key_loaded \<mapsto> jv_of_bool js (ac_enabled ?c),
      key_disable_version \<mapsto> jv_of_str js (ac_disable_version ?c),
      key_last_game_build \<mapsto> jv_of_u32 js (ac_last_game_build ?c),
      key_name \<mapsto> jv_of_str js (ac_last_name ?c))"
  have unknown: "finite (dom (ke_unknown e))" "dom (ke_unknown e) \<inter> set known_keys = {}"
    "ke_signature e \<noteq> 0" using ok by (simp_all add: entry_ok_def members_ok_def)
  have obj: "jv_object js (known_to_value js e) = Some m"
    using laws unknown by (simp add: json_lawful_def known_to_value_def Let_def m_def)
  have members: "m key_signature = Some (jv_of_u32 js (ke_signature e))"
    "m key_favorite = Some (jv_of_bool js (ac_favorite ?c))"
    "m key_update_mode = Some (jv_of_u32 js (update_mode_code (ac_update_mode ?c)))"
    "m key_prereleases = Some (jv_of_bool js (ac_allow_prereleases ?c))"
    "m key_loaded = Some (jv_of_bool js (ac_enabled ?c))"
    "m key_disable_version = Some (jv_of_str js (ac_disable_version ?c))"
    "m key_last_game_build = Some (jv_of_u32 js (ac_last_game_build ?c))"
    "m key_name = Some (jv_of_str js (ac_last_name ?c))"
    "m key_pausing_updates = ke_unknown e key_pausing_updates"
    by (simp_all add: m_def key_defs)
  have scalars: "jv_u64 js (jv_of_u32 js n) = Some (ucast n)" "jv_bool js (jv_of_bool js b) = Some b"
    "jv_str js (jv_of_str js t) = Some t" for n b t
    using laws by (simp_all add: json_lawful_def)
  have mode: "read_update_mode js m = Some (reread_mode (ac_update_mode ?c))"
    using ok by (auto simp: read_update_mode_def members scalars mode_code_reread entry_ok_def
        split: option.splits)
  have sig: "read_signature js m = Some (ke_signature e)"
    using unknown by (simp add: read_signature_def members scalars)
  have rest: "remove_keys known_keys m = ke_unknown e"
  proof
    fix k
    show "remove_keys known_keys m k = ke_unknown e k"
      using unknown(2) by (auto simp: remove_keys_apply known_keys_def m_def)
  qed
  have built: "read_u32 js m key_last_game_build 0 = Some (ac_last_game_build ?c)"
    by (simp add: read_u32_def members scalars)
  show ?thesis
    unfolding parse_known_entry_def obj
    using persist
    by (simp add: sig mode built rest read_bool_def read_string_def members scalars reread_config_def)
qed

lemma written_member:
  assumes "json_lawful js jr" and "entry_ok js jr e"
  shows "jr_element jr (known_to_value js e)"
proof -
  have upd: "members_ok jr (m(k \<mapsto> w))" if "members_ok jr m" "jr_member jr w" for m k w
    using that by (auto simp: members_ok_def ran_def split: if_splits)
  show ?thesis
    using assms by (simp add: known_to_value_def Let_def json_lawful_def entry_ok_def upd del: fun_upd_apply)
qed

lemma written_elements:
  assumes "json_lawful js jr" and "wf_entries js jr seen doc"
  shows "list_all (jr_element jr) (document_values js doc)"
  using assms(2)
proof (induction doc arbitrary: seen)
  case (Cons x doc)
  then show ?case
    using written_member [OF assms(1)] by (cases x) (auto simp: document_values_def)
qed (simp add: document_values_def)

lemma parse_written_entries:
  assumes "json_lawful js jr" and "wf_entries js jr seen doc"
    and "\<forall>e. Known e \<in> set doc \<longrightarrow> ac_persist (ke_config e)"
  shows "parse_entries js seen (map (jr_again jr) (document_values js doc)) = map (reread jr) doc"
  using assms(2,3)
proof (induction doc arbitrary: seen)
  case (Cons x doc)
  show ?case
  proof (cases x)
    case (Known e)
    then have "parse_known_entry js (known_to_value js e) = Some (e\<lparr>ke_config := reread_config (ke_config e)\<rparr>)"
      using Cons.prems assms(1) by (intro parse_written_entry) auto
    then show ?thesis using Known Cons.prems Cons.IH [of "insert (ke_signature e) seen"]
      by (simp add: document_values_def parse_again [OF assms(1)]) (simp add: again_unknown_def)
  next
    case (Opaque v)
    then show ?thesis using Cons.prems Cons.IH [of seen]
      by (auto simp: document_values_def parse_again [OF assms(1)] again_unknown_def split: option.splits)
  qed
qed (simp add: document_values_def)

section \<open>Every operation keeps the invariant\<close>

definition known_signatures :: "'j config_document \<Rightarrow> u32 set" where
  "known_signatures doc = {s. \<exists>e. Known e \<in> set doc \<and> ke_signature e = s}"

lemma wf_entries_append:
  "wf_entries js jr seen (xs @ ys) \<longleftrightarrow>
   wf_entries js jr seen xs \<and> wf_entries js jr (seen \<union> known_signatures xs) ys"
proof (induction xs arbitrary: seen)
  case (Cons x xs)
  have "known_signatures (Known e # xs) = insert (ke_signature e) (known_signatures xs)" for e
    by (auto simp: known_signatures_def)
  moreover have "known_signatures (Opaque v # xs) = known_signatures xs" for v
    by (auto simp: known_signatures_def)
  ultimately show ?case using Cons by (cases x) auto
qed (simp add: known_signatures_def)

lemma wf_entries_change:
  "wf_entries js jr seen doc \<Longrightarrow> wf_entries js jr seen (update_first p (change_entry f) doc)"
proof (induction doc arbitrary: seen)
  case (Cons x doc)
  then show ?case by (cases x) (auto simp: entry_ok_def)
qed simp

lemma find_known_None: "find (is_known s) doc = None \<Longrightarrow> s \<notin> known_signatures doc"
  by (auto simp: find_None_iff known_signatures_def)

lemma config_change_wf:
  assumes "wf_entries js jr {} doc"
  shows "wf_entries js jr {} (fst (config_change sig f doc))"
proof (cases "sig = 0 \<or> find (is_known sig) doc \<noteq> None")
  case True
  then show ?thesis using assms by (auto simp: config_change_def Let_def intro: wf_entries_change)
next
  case False
  then have "sig \<notin> known_signatures doc" using find_known_None by auto
  then have "wf_entries js jr {} (doc @ [Known \<lparr>ke_signature = sig, ke_config = registered_default,
      ke_unknown = (\<lambda>_. None)\<rparr>])"
    using assms False by (simp add: wf_entries_append entry_ok_def members_ok_def)
  then show ?thesis using False by (simp add: config_change_def Let_def wf_entries_change)
qed

lemma parsed_opaque_signature:
  assumes "parse_known_entry js v = Some k"
  shows "opaque_signature js v = Some (ucast (ke_signature k))"
proof -
  obtain obj where obj: "jv_object js v = Some obj" "read_signature js obj = Some (ke_signature k)"
    using assms by (auto simp: parse_known_entry_def bind_eq_Some_conv)
  then obtain n where n: "Option.bind (obj key_signature) (jv_u64 js) = Some n"
    "unat n < 2 ^ 32" "ke_signature k = ucast n"
    by (auto simp: read_signature_def u32_try_from_def bind_eq_Some_conv split: if_splits)
  have "unat (ucast (ucast n :: u32) :: u64) = unat n"
    unfolding unat_ucast_u64 by (rule unat_ucast_u32 [OF n(2)])
  then have "ucast (ucast n :: u32) = n" by (rule unsigned_word_eqI)
  then show ?thesis using obj n by (simp add: opaque_signature_def)
qed

lemma config_remove_wf_seen:
  "wf_entries js jr seen doc \<Longrightarrow> wf_entries js jr (seen - {sig}) (config_remove js sig doc)"
proof (induction doc arbitrary: seen)
  case (Cons x doc)
  show ?case
  proof (cases x)
    case (Known e)
    then show ?thesis
      using Cons.prems Cons.IH [of "insert (ke_signature e) seen"]
      by (auto simp: config_remove_def insert_Diff_if)
  next
    case (Opaque v)
    then show ?thesis using Cons.prems Cons.IH [of seen]
      by (auto simp: config_remove_def parsed_opaque_signature split: option.splits)
  qed
qed (simp add: config_remove_def)

lemma config_remove_wf: "wf_entries js jr {} doc \<Longrightarrow> wf_entries js jr {} (config_remove js sig doc)"
  using config_remove_wf_seen [of js jr "{}" doc sig] by simp

section \<open>Properties\<close>

text \<open>What the manager does to its document between reading and writing it.\<close>

datatype config_op =
    ChangeConfig u32 "addon_config \<Rightarrow> addon_config"
  | RemoveConfig u32

fun config_apply :: "'j json_values \<Rightarrow> config_op \<Rightarrow> 'j config_document \<Rightarrow> 'j config_document" where
  "config_apply js (ChangeConfig sig f) doc = fst (config_change sig f doc)"
| "config_apply js (RemoveConfig sig) doc = config_remove js sig doc"

lemma config_ops_wf: "wf_entries js jr {} doc \<Longrightarrow> wf_entries js jr {} (fold (config_apply js) ops doc)"
proof (induction ops arbitrary: doc)
  case (Cons op ops)
  then have "wf_entries js jr {} (config_apply js op doc)"
    by (cases op) (simp_all add: config_change_wf config_remove_wf)
  then show ?case using Cons.IH by simp
qed simp

lemma parse_document_wf:
  "json_lawful js jr \<Longrightarrow> parse_document js bytes = Inr doc \<Longrightarrow> wf_entries js jr {} doc"
  by (auto simp: parse_document_def json_lawful_def intro!: parse_entries_wf split: if_splits option.splits)

lemma written_parses:
  assumes "json_lawful js jr" and "list_all (jr_element jr) vs" and "jv_pretty js vs = Some b"
  shows "\<exists>root. jv_parse js (b @ [10]) = Some root \<and> jv_array js root = Some (map (jr_again jr) vs)"
proof -
  have "Option.bind (jv_parse js (b @ [10])) (jv_array js) = Some (map (jr_again jr) vs)"
    using assms unfolding json_lawful_def by blast
  then show ?thesis by (auto simp: bind_eq_Some_conv)
qed

lemma written_document_parses:
  assumes "json_lawful js jr" and "wf_entries js jr {} doc"
    and "\<forall>e. Known e \<in> set doc \<longrightarrow> ac_persist (ke_config e)"
    and "length doc \<le> max_config_entries" and "to_json js doc = Inr bytes"
  shows "parse_document js bytes = Inr (map (reread jr) doc)"
proof -
  obtain b where b: "jv_pretty js (document_values js doc) = Some b" "bytes = b @ [10]"
    and size: "length bytes \<le> max_config_bytes"
    using assms(5) by (auto simp: to_json_def Let_def not_less split: option.splits if_splits)
  then obtain root where root: "jv_parse js bytes = Some root"
    "jv_array js root = Some (map (jr_again jr) (document_values js doc))"
    using written_parses [OF assms(1) written_elements [OF assms(1,2)]] by blast
  have "length (document_values js doc) \<le> length doc"
    by (simp add: document_values_def List.map_filter_def)
  then have "length (document_values js doc) \<le> max_config_entries" using assms(4) by simp
  then show ?thesis
    using size root parse_written_entries [OF assms(1-3)]
    by (simp add: parse_document_def not_less)
qed

text \<open>
  C32.
  A configuration that was read, then changed and pruned in any way that keeps its entries
  persistent and within the limit of 16384, is written to bytes that read back entry by entry and
  in the same order: every field of a recognised entry is the same, except that an update mode
  \<open>None\<close> comes back as \<open>Background\<close>, which the code documents; the members the program does not
  know keep their keys, and they and the values kept opaque are what the JSON library reads back for
  them, so they are the same up to floating-point numbers.
\<close>
theorem config_roundtrip:
  assumes "json_lawful js jr" and "parse_document js original = Inr doc0"
    and "doc = fold (config_apply js) ops doc0"
    and "\<forall>e. Known e \<in> set doc \<longrightarrow> ac_persist (ke_config e)"
    and "length doc \<le> max_config_entries" and "to_json js doc = Inr bytes"
  shows "parse_document js bytes = Inr (map (reread jr) doc)"
  using written_document_parses [OF assms(1) _ assms(4-6)]
    config_ops_wf [OF parse_document_wf [OF assms(1,2)]] assms(3) by simp

datatype demo_value =
    DemoNumber u64 | DemoBool bool | DemoText string | DemoFloat nat
  | DemoObject "string \<Rightarrow> demo_value option" | DemoArray "demo_value list"

primrec demo_again :: "demo_value \<Rightarrow> demo_value" where
  "demo_again (DemoNumber n) = DemoNumber n"
| "demo_again (DemoBool b) = DemoBool b"
| "demo_again (DemoText t) = DemoText t"
| "demo_again (DemoFloat x) = DemoFloat (x + 1)"
| "demo_again (DemoObject m) = DemoObject (map_option demo_again \<circ> m)"
| "demo_again (DemoArray vs) = DemoArray (map demo_again vs)"

definition demo_entry :: "demo_value known_entry" where
  "demo_entry = \<lparr>ke_signature = 7, ke_config = registered_default, ke_unknown = Map.empty\<rparr>"

text \<open>
  The values of a library, and one that reads a document of one floating-point number, and writes
  one document and reads it, the number having changed.
\<close>

definition demo_config_json :: "demo_value json_values" where
  "demo_config_json =
     \<lparr>jv_parse = (\<lambda>b. if b = [] then Some (DemoArray []) else Some (DemoText [])),
      jv_pretty = (\<lambda>vs. None),
      jv_array = (\<lambda>v. case v of DemoArray vs \<Rightarrow> Some vs | _ \<Rightarrow> None),
      jv_object = (\<lambda>v. case v of DemoObject m \<Rightarrow> if finite (dom m) then Some m else None | _ \<Rightarrow> None),
      jv_u64 = (\<lambda>v. case v of DemoNumber n \<Rightarrow> Some n | _ \<Rightarrow> None),
      jv_bool = (\<lambda>v. case v of DemoBool b \<Rightarrow> Some b | _ \<Rightarrow> None),
      jv_str = (\<lambda>v. case v of DemoText t \<Rightarrow> Some t | _ \<Rightarrow> None),
      jv_of_object = DemoObject, jv_of_u32 = (\<lambda>n. DemoNumber (ucast n)),
      jv_of_bool = DemoBool, jv_of_str = DemoText\<rparr>"

definition demo_library :: "demo_value json_values" where
  "demo_library =
     (let v = known_to_value demo_config_json demo_entry
      in demo_config_json
           \<lparr>jv_parse := (\<lambda>b. Some (if b = [] then DemoArray [DemoFloat 5]
                              else DemoArray [DemoFloat 6, demo_again v])),
            jv_pretty := (\<lambda>vs. if vs = [DemoFloat 5, v] then Some [1] else None)\<rparr>)"

definition demo_reading :: "demo_value json_reading" where
  "demo_reading = \<lparr>jr_again = demo_again, jr_element = \<lambda>_. True, jr_member = \<lambda>_. True\<rparr>"

lemma dom_map_option: "dom (map_option f \<circ> m) = dom m"
  by (auto simp: dom_def)

lemma demo_library_lawful: "json_lawful demo_library demo_reading"
proof -
  have "jv_object demo_library (demo_again v) = map_option ((\<circ>) (map_option demo_again)) (jv_object demo_library v)"
    "jv_u64 demo_library (demo_again v) = jv_u64 demo_library v"
    "jv_bool demo_library (demo_again v) = jv_bool demo_library v"
    "jv_str demo_library (demo_again v) = jv_str demo_library v" for v
    by (cases v; simp add: demo_library_def demo_config_json_def Let_def dom_map_option)+
  then show ?thesis
    by (auto simp: json_lawful_def demo_reading_def members_ok_def)
      (auto simp: demo_library_def demo_config_json_def Let_def list_all_def
        split: demo_value.splits if_splits)
qed

theorem config_roundtrip_witness:
  "parse_document demo_library [1, 10] = Inr [Opaque (DemoFloat 6), Known demo_entry]"
proof -
  let ?ops = "[ChangeConfig 7 (\<lambda>c. c)]"
  have start: "parse_document demo_library [] = Inr [Opaque (DemoFloat 5)]"
    by (simp add: parse_document_def demo_library_def demo_config_json_def Let_def
        max_config_entries_def parse_known_entry_def)
  have doc: "[Opaque (DemoFloat 5), Known demo_entry] =
      fold (config_apply demo_library) ?ops [Opaque (DemoFloat 5)]"
    by (simp add: config_change_def demo_entry_def Let_def)
  have same: "known_to_value demo_library demo_entry = known_to_value demo_config_json demo_entry"
    by (simp add: known_to_value_def demo_library_def demo_config_json_def Let_def)
  have written: "to_json demo_library [Opaque (DemoFloat 5), Known demo_entry] = Inr [1, 10]"
    by (simp add: to_json_def document_values_def List.map_filter_def same)
      (simp add: demo_entry_def registered_default_def demo_library_def Let_def max_config_bytes_def)
  have "parse_document demo_library [1, 10] =
      Inr (map (reread demo_reading) [Opaque (DemoFloat 5), Known demo_entry])"
    by (rule config_roundtrip [OF demo_library_lawful start doc _ _ written])
      (simp_all add: demo_entry_def registered_default_def max_config_entries_def)
  then show ?thesis
    by (simp add: demo_entry_def reread_config_def reread_mode_def registered_default_def
        demo_reading_def again_unknown_def comp_def)
qed

end
