(* ===== verification/Addon_Manager.thy ===== *)
theory Addon_Manager
  imports Addon_Discovery Addon_Config Addon_Lifecycle Address_Ownership
begin

text \<open>
  The addon manager (src/crates/nexus-addon-manager/src/manager.rs): its state, the shared cleaner,
  the release of modules, and the activation policy. For each discovered library it composes the
  native loader, the host's lifecycle, the ownership index and the configuration document. An
  operation changes the manager's state and is done, fails, or is still waiting for callbacks to
  drain. The injected adapters (platform, address resolver, cleaner, JSON library) are a record of
  functions; \<open>None\<close> is an unwind.
\<close>

section \<open>State\<close>

datatype activation_request = StartupRequest | RuntimeRequest | HotReloadRequest

datatype manager_state =
    MgrDiscovered | MgrPolicyBlocked | MgrInspected | MgrActive | MgrUnloadRequested | MgrDraining
  | MgrDrained | MgrNativeUnloadComplete | MgrActivationFailed | MgrReleaseFailed | MgrUnloaded
  | MgrRemoved

datatype policy_reason =
    DisabledByUser | NotAllowlisted | VersionDisabled | StartupClosed | LaunchOnlyPolicy
  | HotLoadingLocked

datatype inspect_outcome = InspectReady owner_token | InspectBlocked u32 policy_reason

datatype enable_effect =
    NoRuntimeChange | ActivationAvailable | UnloadAvailable owner_token
  | EnableRestartRequired "owner_token option"

datatype manager_boundary =
  AtDirectoryScanner | AtAddressResolver | AtHostCoordinator | AtRegistrationCleaner

record address_range =
  rg_start :: usize
  rg_end :: usize

datatype range_error = RangeUnavailable | RangeEmpty | RangeOverflowed | SizeMismatch | RangeOverlap

definition address_range_new :: "usize \<Rightarrow> usize \<Rightarrow> range_error + address_range" where
  "address_range_new start sz =
     (if sz = 0 then Inl RangeEmpty
      else case checked_add start sz of
             None \<Rightarrow> Inl RangeOverflowed
           | Some e \<Rightarrow> Inr \<lparr>rg_start = start, rg_end = e\<rparr>)"

definition range_len :: "address_range \<Rightarrow> usize" where
  "range_len r = rg_end r - rg_start r"

definition range_contains :: "usize \<Rightarrow> address_range \<Rightarrow> bool" where
  "range_contains a r \<longleftrightarrow> rg_start r \<le> a \<and> a < rg_end r"

definition range_overlaps :: "address_range \<Rightarrow> address_range \<Rightarrow> bool" where
  "range_overlaps a b \<longleftrightarrow> rg_start a < rg_end b \<and> rg_start b < rg_end a"

text \<open>\<open>LoadedModuleAddressResolver\<close>.\<close>

definition loaded_module_range :: "'p addon_module \<Rightarrow> range_error + address_range" where
  "loaded_module_range m =
     address_range_new (mb_base (mi_bounds (am_image m))) (mb_size (mi_bounds (am_image m)))"

record definition_summary =
  ds_signature :: u32
  ds_name :: "u8 list"
  ds_version :: "u16 \<times> u16 \<times> u16 \<times> u16"
  ds_author :: "u8 list"
  ds_description :: "u8 list"
  ds_flags :: addon_flags
  ds_provider :: u32
  ds_update_link :: "u8 list option"

definition summary_from_module :: "'p addon_module \<Rightarrow> definition_summary" where
  "summary_from_module m =
     (let d = am_owned m
      in \<lparr>ds_signature = od_signature d, ds_name = od_name d, ds_version = od_version d,
          ds_author = od_author d, ds_description = od_description d, ds_flags = od_flags d,
          ds_provider = od_provider d, ds_update_link = od_update_link d\<rparr>)"

record manager_options =
  mo_metadata_limits :: metadata_limits
  mo_diagnostic_capacity :: nat
  mo_game_build :: u32

definition manager_options_default :: manager_options where
  "manager_options_default =
     \<lparr>mo_metadata_limits = metadata_limits_default, mo_diagnostic_capacity = 256, mo_game_build = 0\<rparr>"

datatype host_issue =
    HostDefinition | HostApiTable | HostDuplicateSignature | HostGenerationExhausted
  | HostUnknownOwner | HostInvalidTransition | HostHotReloadForbidden | HostRuntimeUnloadForbidden
  | HostDrainTimedOut | HostCleanup | HostDrainIncomplete

fun host_issue_of :: "host_error \<Rightarrow> host_issue" where
  "host_issue_of (DefinitionFailed e) = HostDefinition"
| "host_issue_of (DuplicateSignature s e) = HostDuplicateSignature"
| "host_issue_of (GenerationExhausted s) = HostGenerationExhausted"
| "host_issue_of (UnknownOwner owner) = HostUnknownOwner"
| "host_issue_of (InvalidTransition owner l st) = HostInvalidTransition"
| "host_issue_of (HotReloadForbidden s) = HostHotReloadForbidden"
| "host_issue_of (RuntimeUnloadForbidden owner) = HostRuntimeUnloadForbidden"
| "host_issue_of (DrainTimedOut owner) = HostDrainTimedOut"
| "host_issue_of (CleanupFailed owner ph e) = HostCleanup"
| "host_issue_of (DrainIncomplete owner) = HostDrainIncomplete"

datatype manager_error =
    MgrDiscovery discovery_error
  | MgrConfig config_error
  | MgrLoad load_error
  | MgrModule module_error
  | MgrHost host_issue
  | MgrAddress range_error
  | MgrOwnership address_ownership_error
  | MgrUnknownPath
  | MgrUnknownOwner
  | MgrInvalidState string manager_state
  | MgrCandidateMissing
  | MgrPolicy policy_reason
  | MgrConfigReadOnly
  | MgrBoundaryPanic manager_boundary
  | MgrReleaseFailure bool
  | MgrReleaseNotRetryable

record 'p entry =
  en_discovered :: discovered_dll
  en_present :: bool
  en_state :: manager_state
  en_module :: "'p addon_module option"
  en_range :: "address_range option"
  en_owner :: "owner_token option"
  en_last_owner :: "owner_token option"
  en_summary :: "definition_summary option"
  en_loaded_revision :: "binary_revision option"
  en_blocked_by :: "policy_reason option"
  en_failed_cursor :: nat
  en_needs_ack :: bool
  en_return_state :: "manager_state option"

definition entry_discovered :: "discovered_dll \<Rightarrow> 'p entry" where
  "entry_discovered d =
     \<lparr>en_discovered = d, en_present = True, en_state = MgrDiscovered, en_module = None,
      en_range = None, en_owner = None, en_last_owner = None, en_summary = None,
      en_loaded_revision = None, en_blocked_by = None, en_failed_cursor = 0,
      en_needs_ack = False, en_return_state = None\<rparr>"

text \<open>
  The cleaner is shared between the host and the manager: a slot that is empty while a lease is
  out. The slot is the host's \<open>ah_cleaner\<close>.
\<close>

record ('p, 'c, 'j) manager =
  mg_directory :: string
  mg_native :: "'p native_world"
  mg_host :: "'c option addon_host"
  mg_ownership :: "owner_token addr_index"
  mg_configs :: "'j config_document"
  mg_access :: config_access
  mg_options :: manager_options
  mg_entries :: "(string, 'p entry) btree"
  mg_owner_paths :: "owner_token \<Rightarrow> string option"
  mg_launch_attempted :: "u32 set"
  mg_startup_open :: bool
  mg_diagnostics :: diagnostic_buffer

text \<open>Registration cleanup may fail or unwind; the address resolver too.\<close>

record ('p, 'c, 'j) adapters =
  ad_platform :: "'p loader_platform"
  ad_resolve :: "'p addon_module \<Rightarrow> (range_error + address_range) option"
  ad_clean :: "owner_token \<Rightarrow> cleanup_phase \<Rightarrow> 'c \<Rightarrow> 'c \<times> (string + unit) option"
  ad_json :: "'j json_values"
  ad_tables_populated :: bool

definition manager_new ::
  "string \<Rightarrow> 'p native_world \<Rightarrow> 'c \<Rightarrow> owner_token addr_index \<Rightarrow> 'j config_document \<Rightarrow>
   config_access \<Rightarrow> manager_options \<Rightarrow> ('p, 'c, 'j) manager"
where
  "manager_new directory native cleaner ownership configs access options =
     \<lparr>mg_directory = directory, mg_native = native, mg_host = host_with (Some cleaner),
      mg_ownership = ownership, mg_configs = configs, mg_access = access, mg_options = options,
      mg_entries = [], mg_owner_paths = (\<lambda>_. None), mg_launch_attempted = {},
      mg_startup_open = True,
      mg_diagnostics = diagnostics_new (mo_diagnostic_capacity options)\<rparr>"

section \<open>Outcomes\<close>

datatype 'a outcome = Done 'a | Failed manager_error | Waiting

definition then_do ::
  "('s \<Rightarrow> 's \<times> 'a outcome) \<Rightarrow> ('a \<Rightarrow> 's \<Rightarrow> 's \<times> 'b outcome) \<Rightarrow> 's \<Rightarrow> 's \<times> 'b outcome"
where
  "then_do f g s =
     (case f s of
        (s', Done a) \<Rightarrow> g a s'
      | (s', Failed e) \<Rightarrow> (s', Failed e)
      | (s', Waiting) \<Rightarrow> (s', Waiting))"

definition give :: "'a \<Rightarrow> 's \<Rightarrow> 's \<times> 'a outcome" where "give a s = (s, Done a)"

definition fail_with :: "manager_error \<Rightarrow> 's \<Rightarrow> 's \<times> 'a outcome" where
  "fail_with e s = (s, Failed e)"

definition lift_result :: "('e \<Rightarrow> manager_error) \<Rightarrow> 'e + 'a \<Rightarrow> 'a outcome" where
  "lift_result f r = (case r of Inl e \<Rightarrow> Failed (f e) | Inr a \<Rightarrow> Done a)"

definition require :: "bool \<Rightarrow> manager_error \<Rightarrow> 's \<Rightarrow> 's \<times> unit outcome" where
  "require ok e s = (s, if ok then Done () else Failed e)"

definition change :: "('s \<Rightarrow> 's) \<Rightarrow> 's \<Rightarrow> 's \<times> unit outcome" where
  "change f s = (f s, Done ())"

type_synonym ('p, 'c, 'j, 'a) operation =
  "('p, 'c, 'j) manager \<Rightarrow> ('p, 'c, 'j) manager \<times> 'a outcome"

definition emit ::
  "diagnostic_severity \<Rightarrow> diagnostic_code \<Rightarrow> owner_token option \<Rightarrow> ('p, 'c, 'j, unit) operation"
where
  "emit severity code owner =
     change (\<lambda>g. g\<lparr>mg_diagnostics := diagnostics_push severity code owner (mg_diagnostics g)\<rparr>)"

definition emit_release_failure :: "owner_token option \<Rightarrow> bool \<Rightarrow> ('p, 'c, 'j, unit) operation" where
  "emit_release_failure owner retryable =
     emit SeverityError (if retryable then ReleaseRetryRequired else ReleasePinned) owner"

definition owner_key :: "owner_token \<Rightarrow> ('p, 'c, 'j, string) operation" where
  "owner_key owner g =
     (g, case mg_owner_paths g owner of None \<Rightarrow> Failed MgrUnknownOwner | Some key \<Rightarrow> Done key)"

definition entry_at :: "string \<Rightarrow> ('p, 'c, 'j, 'p entry) operation" where
  "entry_at key g =
     (g, case map_of (mg_entries g) key of None \<Rightarrow> Failed MgrUnknownPath | Some e \<Rightarrow> Done e)"

definition change_at :: "string \<Rightarrow> ('p entry \<Rightarrow> 'p entry) \<Rightarrow> ('p, 'c, 'j, unit) operation" where
  "change_at key f g =
     (case map_of (mg_entries g) key of
        None \<Rightarrow> (g, Failed MgrUnknownPath)
      | Some e \<Rightarrow> (g\<lparr>mg_entries := bt_update key f (mg_entries g)\<rparr>, Done ()))"

text \<open>The module of an entry is operated on in place; without one the given error is returned.\<close>

definition with_module ::
  "string \<Rightarrow> manager_error \<Rightarrow>
   ('p addon_module \<Rightarrow> 'p native_world \<Rightarrow> 'p native_world \<times> 'p addon_module \<times> (module_error + unit) option) \<Rightarrow>
   ('p, 'c, 'j, unit) operation"
where
  "with_module key missing f g =
     (case map_of (mg_entries g) key of
        None \<Rightarrow> (g, Failed MgrUnknownPath)
      | Some e \<Rightarrow>
          (case en_module e of
             None \<Rightarrow> (g, Failed missing)
           | Some m \<Rightarrow>
               (let (w, m', r) = f m (mg_native g)
                in (g\<lparr>mg_native := w, mg_entries := bt_update key (\<lambda>e. e\<lparr>en_module := Some m'\<rparr>) (mg_entries g)\<rparr>,
                    case r of None \<Rightarrow> Waiting | Some r \<Rightarrow> lift_result MgrModule r))))"

text \<open>\<open>module.take()\<close>.\<close>

definition take_module :: "string \<Rightarrow> manager_error \<Rightarrow> ('p, 'c, 'j, 'p addon_module) operation" where
  "take_module key missing g =
     (case map_of (mg_entries g) key of
        None \<Rightarrow> (g, Failed MgrUnknownPath)
      | Some e \<Rightarrow>
          (case en_module e of
             None \<Rightarrow> (g, Failed missing)
           | Some m \<Rightarrow>
               (g\<lparr>mg_entries := bt_update key (\<lambda>e. e\<lparr>en_module := None\<rparr>) (mg_entries g)\<rparr>, Done m)))"

definition release_module ::
  "('p, 'c, 'j) adapters \<Rightarrow> 'p addon_module \<Rightarrow>
   ('p, 'c, 'j, 'p addon_module + unit) operation"
where
  "release_module A m g =
     (let (w, m', r) = mod_release (ad_platform A) m (mg_native g)
      in (g\<lparr>mg_native := w\<rparr>, Done (case r of Inr u \<Rightarrow> Inr () | Inl e \<Rightarrow> Inl m')))"

definition drop_module :: "('p, 'c, 'j) adapters \<Rightarrow> 'p addon_module \<Rightarrow> ('p, 'c, 'j, unit) operation" where
  "drop_module A m = change (\<lambda>g. g\<lparr>mg_native := fst (mod_drop (ad_platform A) m (mg_native g))\<rparr>)"

text \<open>An operation of the host.\<close>

definition host_op ::
  "('c option addon_host \<Rightarrow> 'c option addon_host \<times> (host_error + 'a)) \<Rightarrow>
   ('p, 'c, 'j, host_error + 'a) operation"
where
  "host_op f g = (let (h, r) = f (mg_host g) in (g\<lparr>mg_host := h\<rparr>, Done r))"

definition host_try ::
  "('c option addon_host \<Rightarrow> 'c option addon_host \<times> (host_error + 'a)) \<Rightarrow>
   ('p, 'c, 'j, 'a) operation"
where
  "host_try f = then_do (host_op f) (\<lambda>r g. (g, lift_result (\<lambda>e. MgrHost (host_issue_of e)) r))"

definition close_ownership :: "owner_token \<Rightarrow> ('p, 'c, 'j, unit) operation" where
  "close_ownership owner =
     change (\<lambda>g.
       let ((idx, gates), _) = addr_close owner (mg_ownership g, ah_gates (mg_host g))
       in g\<lparr>mg_ownership := idx, mg_host := (mg_host g)\<lparr>ah_gates := gates\<rparr>\<rparr>)"

definition retire_ownership :: "owner_token \<Rightarrow> ('p, 'c, 'j, unit) operation" where
  "retire_ownership owner = change (\<lambda>g. g\<lparr>mg_ownership := fst (addr_retire owner (mg_ownership g))\<rparr>)"

section \<open>The shared cleaner\<close>

definition cleaner_busy :: cleanup_error where "cleaner_busy = ''registration cleaner is busy''"

definition cleaner_lease :: "'c option \<Rightarrow> 'c option \<times> (cleanup_error + 'c)" where
  "cleaner_lease slot = (case slot of None \<Rightarrow> (None, Inl cleaner_busy) | Some c \<Rightarrow> (None, Inr c))"

text \<open>Dropping the lease puts the cleaner back, unless another one has taken its place.\<close>

definition cleaner_restore :: "'c \<Rightarrow> 'c option \<Rightarrow> 'c option" where
  "cleaner_restore c slot = (case slot of None \<Rightarrow> Some c | Some c' \<Rightarrow> Some c')"

text \<open>
  One cleanup through a lease. The texts of its errors are discarded by every caller, so one text
  stands for a failure and one for an unwind.
\<close>

definition shared_cleanup ::
  "('p, 'c, 'j) adapters \<Rightarrow> owner_token \<Rightarrow> cleanup_phase \<Rightarrow> 'c option \<Rightarrow>
   'c option \<times> (cleanup_error + unit)"
where
  "shared_cleanup A owner phase slot =
     (case cleaner_lease slot of
        (slot', Inl e) \<Rightarrow> (slot', Inl e)
      | (slot', Inr c) \<Rightarrow>
          (case ad_clean A owner phase c of
             (c', r) \<Rightarrow>
               (cleaner_restore c' slot',
                case r of
                  None \<Rightarrow> Inl unwound_read
                | Some (Inl e) \<Rightarrow> Inl ''failed''
                | Some (Inr u) \<Rightarrow> Inr ())))"

definition run_direct_cleanup ::
  "('p, 'c, 'j) adapters \<Rightarrow> owner_token \<Rightarrow> cleanup_phase \<Rightarrow> ('p, 'c, 'j, unit) operation"
where
  "run_direct_cleanup A owner phase g =
     (let (slot, r) = shared_cleanup A owner phase (ah_cleaner (mg_host g));
          g = g\<lparr>mg_host := (mg_host g)\<lparr>ah_cleaner := slot\<rparr>\<rparr>
      in case r of
           Inr u \<Rightarrow> (g, Done ())
         | Inl e \<Rightarrow>
             if e = unwound_read
             then then_do (emit SeverityError BoundaryPanicContained (Some owner))
                    (\<lambda>_. fail_with (MgrBoundaryPanic AtRegistrationCleaner)) g
             else (g, Failed (MgrHost HostCleanup)))"

section \<open>Releases\<close>

definition release_rejected_module ::
  "('p, 'c, 'j) adapters \<Rightarrow> string \<Rightarrow> 'p addon_module \<Rightarrow> manager_state \<Rightarrow>
   ('p, 'c, 'j, unit) operation"
where
  "release_rejected_module A key m return_state =
     then_do (release_module A m) (\<lambda>r.
       case r of
         Inr u \<Rightarrow> give ()
       | Inl m' \<Rightarrow>
           then_do (change_at key (\<lambda>e. e\<lparr>en_module := Some m', en_state := MgrReleaseFailed,
               en_needs_ack := False, en_return_state := Some return_state\<rparr>)) (\<lambda>_.
           then_do (emit_release_failure None (release_is_retryable m')) (\<lambda>_.
             fail_with (MgrReleaseFailure (release_is_retryable m')))))"

definition absent_or :: "manager_state \<Rightarrow> 'p entry \<Rightarrow> manager_state" where
  "absent_or st e = (if en_present e then st else MgrRemoved)"

definition released_entry :: "'p entry \<Rightarrow> 'p entry" where
  "released_entry e =
     (let next_state = (case en_return_state e of
                          Some st \<Rightarrow> st | None \<Rightarrow> absent_or MgrUnloaded e)
      in e\<lparr>en_module := None, en_range := None, en_owner := None, en_return_state := None,
           en_blocked_by := (if next_state \<noteq> MgrPolicyBlocked then None else en_blocked_by e),
           en_state := next_state, en_needs_ack := False\<rparr>)"

definition finish_successful_release ::
  "string \<Rightarrow> owner_token option \<Rightarrow> bool \<Rightarrow> ('p, 'c, 'j, unit) operation"
where
  "finish_successful_release key owner acknowledge_host =
     then_do
       (if acknowledge_host
        then (case owner of
                None \<Rightarrow> give (Inl MgrUnknownOwner)
              | Some owner \<Rightarrow>
                  then_do (host_op (acknowledge_module_released owner))
                    (\<lambda>r. give (case r of Inl e \<Rightarrow> Inl (MgrHost (host_issue_of e)) | Inr u \<Rightarrow> Inr ())))
        else give (Inr ())) (\<lambda>host_result.
     then_do (change_at key released_entry) (\<lambda>_.
     then_do (case owner of None \<Rightarrow> give () | Some owner \<Rightarrow> retire_ownership owner) (\<lambda>_.
     then_do (emit SeverityInfo ModuleReleasedCode owner) (\<lambda>_ g.
       (g, lift_result id host_result)))))"

text \<open>A release that failed keeps the module and what a later release has to do.\<close>

definition keep_unreleased ::
  "string \<Rightarrow> owner_token \<Rightarrow> bool \<Rightarrow> 'p addon_module \<Rightarrow> ('p, 'c, 'j, unit) operation"
where
  "keep_unreleased key owner needs_ack m' =
     then_do (change_at key (\<lambda>e. e\<lparr>en_module := Some m', en_state := MgrReleaseFailed,
         en_needs_ack := needs_ack, en_return_state := Some (absent_or MgrUnloaded e)\<rparr>)) (\<lambda>_.
     then_do (emit_release_failure (Some owner) (release_is_retryable m')) (\<lambda>_.
       fail_with (MgrReleaseFailure (release_is_retryable m'))))"

section \<open>Policy and configuration\<close>

definition config_for :: "u32 \<Rightarrow> 'j config_document \<Rightarrow> addon_config" where
  "config_for sig configs =
     (case config_get sig configs of None \<Rightarrow> registered_default | Some c \<Rightarrow> c)"

definition change_config ::
  "u32 \<Rightarrow> (addon_config \<Rightarrow> addon_config) \<Rightarrow> ('p, 'c, 'j, addon_config) operation"
where
  "change_config sig f g =
     (let (configs, r) = config_change sig f (mg_configs g)
      in (g\<lparr>mg_configs := configs\<rparr>, lift_result MgrConfig r))"

definition config_for_or_register :: "u32 \<Rightarrow> ('p, 'c, 'j, addon_config) operation" where
  "config_for_or_register sig g =
     (case mg_access g of
        Writable \<Rightarrow> change_config sig (\<lambda>c. c) g
      | ReadOnlyAllowlist allowed \<Rightarrow> (g, Done (config_for sig (mg_configs g))))"

definition policy_after_enable ::
  "definition_summary \<Rightarrow> binary_revision \<Rightarrow> activation_request \<Rightarrow> addon_config \<Rightarrow>
   ('p, 'c, 'j, policy_reason option) operation"
where
  "policy_after_enable summary revision request config g =
     (if ac_disable_version config \<noteq> [] \<and> matches_legacy_hex revision (ac_disable_version config)
      then (g, Done (Some VersionDisabled))
      else if request = StartupRequest \<and> \<not> mg_startup_open g then (g, Done (Some StartupClosed))
      else
        (let sig = ds_signature summary;
             launch_only = flags_contain (ds_flags summary) flag_launch_only;
             already_attempted = (launch_only \<and> sig \<in> mg_launch_attempted g);
             g = (if launch_only then g\<lparr>mg_launch_attempted := insert sig (mg_launch_attempted g)\<rparr> else g)
         in (g, Done
               (if launch_only \<and> (request \<noteq> StartupRequest \<or> already_attempted)
                then Some LaunchOnlyPolicy
                else if request = HotReloadRequest \<and>
                  flags_contain (ds_flags summary) flag_disable_hot_loading
                then Some HotLoadingLocked
                else None))))"

definition activation_policy ::
  "definition_summary \<Rightarrow> binary_revision \<Rightarrow> activation_request \<Rightarrow>
   ('p, 'c, 'j, policy_reason option) operation"
where
  "activation_policy summary revision request =
     then_do (config_for_or_register (ds_signature summary)) (\<lambda>config g.
       case mg_access g of
         ReadOnlyAllowlist allowed \<Rightarrow>
           if ds_signature summary \<notin> allowed then (g, Done (Some NotAllowlisted))
           else policy_after_enable summary revision request config g
       | Writable \<Rightarrow>
           if \<not> ac_enabled config then (g, Done (Some DisabledByUser))
           else policy_after_enable summary revision request config g)"

end
