(* ===== verification/Addon_Operations.thy ===== *)
theory Addon_Operations
  imports Addon_Manager
begin

text \<open>
  The operations of the addon manager that run native code
  (src/crates/nexus-addon-manager/src/manager.rs): inspection, activation, unloading with its
  drain, the release and its retry, the cleanup after a failed activation, and hot reload. Each
  is the sequence of calls of the code; where a step fails the rest is skipped.
\<close>

section \<open>Inspection\<close>

definition load_candidate ::
  "('p, 'c, 'j) adapters \<Rightarrow> dll_path \<Rightarrow> ('p, 'c, 'j, 'p addon_module) operation"
where
  "load_candidate A path g =
     (let (w, r) = load_absolute (ad_platform A) path (mo_metadata_limits (mg_options g)) (mg_native g)
      in (g\<lparr>mg_native := w\<rparr>, lift_result MgrLoad r))"

text \<open>\<open>?\<close> while the module is a local variable: a failure drops it.\<close>

definition or_drop ::
  "('p, 'c, 'j) adapters \<Rightarrow> 'p addon_module \<Rightarrow> ('p, 'c, 'j, 'a) operation \<Rightarrow>
   ('p, 'c, 'j, 'a) operation"
where
  "or_drop A m f g =
     (case f g of
        (g', Failed e) \<Rightarrow> (fst (drop_module A m g'), Failed e)
      | (g', r) \<Rightarrow> (g', r))"

definition resolve_range ::
  "('p, 'c, 'j) adapters \<Rightarrow> 'p addon_module \<Rightarrow> ('p, 'c, 'j, address_range) operation"
where
  "resolve_range A m =
     (case ad_resolve A m of
        None \<Rightarrow>
          then_do (emit SeverityError BoundaryPanicContained None)
            (\<lambda>_. fail_with (MgrBoundaryPanic AtAddressResolver))
      | Some r \<Rightarrow> (\<lambda>g. (g, lift_result MgrAddress r)))"

definition module_live :: "'p addon_module \<Rightarrow> 'p \<Rightarrow> live_module" where
  "module_live m p =
     (if am_handle m = None \<or> am_state m = ModReleased
      then Inl ''native add-on module is not live''
      else live_view (am_image m) p (am_definition m))"

text \<open>A module refused after its load is released, and then the error is returned.\<close>

definition reject ::
  "('p, 'c, 'j) adapters \<Rightarrow> string \<Rightarrow> 'p addon_module \<Rightarrow> manager_state \<Rightarrow> manager_error \<Rightarrow>
   ('p, 'c, 'j, 'a) operation"
where
  "reject A key m return_state error =
     then_do (release_rejected_module A key m return_state) (\<lambda>_. fail_with error)"

definition discover_module ::
  "('p, 'c, 'j) adapters \<Rightarrow> string \<Rightarrow> 'p addon_module \<Rightarrow> manager_state \<Rightarrow> activation_request \<Rightarrow>
   ('p, 'c, 'j, owner_token) operation"
where
  "discover_module A key m st request g =
     (let mode = (if request = HotReloadRequest then HotReload else InitialLoad);
          live = module_live m (nw_state (mg_native g))
      in then_do (host_op (discover live mode (mo_metadata_limits (mg_options g)))) (\<lambda>r.
           case r of
             Inr owner \<Rightarrow> give owner
           | Inl (DefinitionFailed e) \<Rightarrow>
               if is_unwound_read e
               then then_do (release_rejected_module A key m st) (\<lambda>_.
                    then_do (emit SeverityError BoundaryPanicContained None) (\<lambda>_.
                      fail_with (MgrBoundaryPanic AtHostCoordinator)))
               else reject A key m st (MgrHost (host_issue_of (DefinitionFailed e)))
           | Inl e \<Rightarrow> reject A key m st (MgrHost (host_issue_of e))) g)"

definition publish_module ::
  "('p, 'c, 'j) adapters \<Rightarrow> string \<Rightarrow> 'p addon_module \<Rightarrow> manager_state \<Rightarrow> owner_token \<Rightarrow>
   address_range \<Rightarrow> ('p, 'c, 'j, unit) operation"
where
  "publish_module A key m st owner area g =
     (case addr_publish owner (rg_start area) (range_len area) owner (mg_ownership g) of
        Inr (idx, _) \<Rightarrow> (g\<lparr>mg_ownership := idx\<rparr>, Done ())
      | Inl e \<Rightarrow>
          then_do (host_op (cancel_discovery owner)) (\<lambda>host_result.
          then_do (release_rejected_module A key m st) (\<lambda>_.
            case host_result of
              Inl he \<Rightarrow> fail_with (MgrHost (host_issue_of he))
            | Inr u \<Rightarrow> fail_with (MgrOwnership e))) g)"

definition admitted_entry ::
  "'p addon_module \<Rightarrow> address_range \<Rightarrow> owner_token \<Rightarrow> definition_summary \<Rightarrow> binary_revision \<Rightarrow>
   'p entry \<Rightarrow> 'p entry"
where
  "admitted_entry m area owner summary revision e =
     e\<lparr>en_module := Some m, en_range := Some area, en_owner := Some owner,
       en_last_owner := Some owner, en_summary := Some summary,
       en_loaded_revision := Some revision, en_blocked_by := None,
       en_state := MgrInspected, en_failed_cursor := 0\<rparr>"

definition admit_module ::
  "('p, 'c, 'j) adapters \<Rightarrow> string \<Rightarrow> 'p entry \<Rightarrow> 'p addon_module \<Rightarrow> activation_request \<Rightarrow>
   ('p, 'c, 'j, inspect_outcome) operation"
where
  "admit_module A key e m request =
     then_do (or_drop A m (resolve_range A m)) (\<lambda>area.
     then_do
       (if range_len area \<noteq> mb_size (mi_bounds (am_image m))
        then reject A key m (en_state e) (MgrAddress SizeMismatch) else give ()) (\<lambda>_.
     then_do (\<lambda>g.
       if \<exists>(k, other) \<in> set (mg_entries g). k \<noteq> key \<and>
            (case en_range other of None \<Rightarrow> False | Some r \<Rightarrow> range_overlaps area r)
       then reject A key m (en_state e) (MgrAddress RangeOverlap) g else (g, Done ())) (\<lambda>_.
     then_do (discover_module A key m (en_state e) request) (\<lambda>owner.
     then_do (\<lambda>g.
       case host_callback_gate owner (mg_host g) of
         Inr _ \<Rightarrow> (g, Done ())
       | Inl error \<Rightarrow>
           then_do (host_op (cancel_discovery owner))
             (\<lambda>_. reject A key m (en_state e) (MgrHost (host_issue_of error))) g) (\<lambda>_.
     then_do (publish_module A key m (en_state e) owner area) (\<lambda>_.
     then_do (change_at key
       (admitted_entry m area owner (summary_from_module m) (dd_revision (en_discovered e)))) (\<lambda>_.
     then_do (change (\<lambda>g. g\<lparr>mg_owner_paths := (mg_owner_paths g)(owner \<mapsto> key)\<rparr>)) (\<lambda>_.
     then_do (emit SeverityInfo DefinitionInspected (Some owner)) (\<lambda>_.
       give (InspectReady owner))))))))))"

definition inspectable :: "manager_state \<Rightarrow> bool" where
  "inspectable st \<longleftrightarrow> st \<in> {MgrDiscovered, MgrPolicyBlocked, MgrUnloaded, MgrRemoved}"

definition inspect ::
  "('p, 'c, 'j) adapters \<Rightarrow> dll_path \<Rightarrow> activation_request \<Rightarrow>
   ('p, 'c, 'j, inspect_outcome) operation"
where
  "inspect A path request =
     (let key = path_key path
      in then_do (entry_at key) (\<lambda>e.
         then_do (require (en_present e) MgrCandidateMissing) (\<lambda>_.
         then_do (require (inspectable (en_state e))
           (MgrInvalidState ''Discovered, PolicyBlocked, Unloaded, or Removed'' (en_state e))) (\<lambda>_.
         then_do (load_candidate A (dd_path (en_discovered e))) (\<lambda>m.
         then_do (or_drop A m
           (activation_policy (summary_from_module m) (dd_revision (en_discovered e)) request)) (\<lambda>policy.
           case policy of
             None \<Rightarrow> admit_module A key e m request
           | Some reason \<Rightarrow>
               then_do (change_at key (\<lambda>e. e\<lparr>en_summary := Some (summary_from_module m),
                   en_blocked_by := Some reason, en_state := MgrPolicyBlocked\<rparr>)) (\<lambda>_.
               then_do (release_rejected_module A key m MgrPolicyBlocked) (\<lambda>_.
               then_do (emit SeverityWarning PolicyBlockedCode None) (\<lambda>_.
                 give (InspectBlocked (ds_signature (summary_from_module m)) reason))))))))))"

section \<open>Activation\<close>

text \<open>A Rust string is its bytes, here as characters.\<close>

definition text_of_bytes :: "u8 list \<Rightarrow> string" where
  "text_of_bytes bytes = map (\<lambda>b. char_of (unat b)) bytes"

definition run_activation ::
  "('p, 'c, 'j) adapters \<Rightarrow> string \<Rightarrow> manager_state \<Rightarrow> api_revision \<Rightarrow> ('p, 'c, 'j, unit) operation"
where
  "run_activation A key st api =
     with_module key (MgrInvalidState ''live inspected module'' st) (\<lambda>m w.
       let (w, m, r) = mod_activate (ad_platform A) api m w in (w, m, Some r))"

text \<open>What the manager does when the native load callback failed; the error itself is returned.\<close>

definition activation_failed :: "string \<Rightarrow> owner_token \<Rightarrow> module_error \<Rightarrow> ('p, 'c, 'j, 'a) operation" where
  "activation_failed key owner error =
     then_do (host_op (acknowledge_activation_failed owner)) (\<lambda>_.
     then_do (close_ownership owner) (\<lambda>_.
     then_do (change_at key (\<lambda>e. e\<lparr>en_state := MgrActivationFailed\<rparr>)) (\<lambda>_.
     then_do (emit SeverityError ActivationFailedCode (Some owner)) (\<lambda>_.
       fail_with (MgrModule error)))))"

definition record_activation :: "definition_summary \<Rightarrow> ('p, 'c, 'j, unit) operation" where
  "record_activation summary g =
     (if is_writable (mg_access g)
      then then_do (change_config (ds_signature summary)
             (\<lambda>c. c\<lparr>ac_last_game_build := mo_game_build (mg_options g),
                   ac_last_name := text_of_bytes (ds_name summary)\<rparr>)) (\<lambda>_. give ()) g
      else (g, Done ()))"

definition activate :: "('p, 'c, 'j) adapters \<Rightarrow> owner_token \<Rightarrow> ('p, 'c, 'j, unit) operation" where
  "activate A owner =
     then_do (require (ad_tables_populated A) (MgrHost HostApiTable)) (\<lambda>_.
     then_do (owner_key owner) (\<lambda>key.
     then_do (entry_at key) (\<lambda>e.
     then_do (require (en_state e = MgrInspected) (MgrInvalidState ''Inspected'' (en_state e))) (\<lambda>_.
     then_do (\<lambda>g. (g, lift_result (\<lambda>e. MgrHost (host_issue_of e)) (host_api_table owner (mg_host g)))) (\<lambda>api.
     then_do (\<lambda>g.
       case run_activation A key (en_state e) api g of
         (g', Failed (MgrModule error)) \<Rightarrow> activation_failed key owner error g'
       | x \<Rightarrow> x) (\<lambda>_.
     then_do (host_try (acknowledge_loaded owner)) (\<lambda>_.
     then_do (entry_at key) (\<lambda>e.
     case en_summary e of
       None \<Rightarrow> fail_with (MgrInvalidState ''copied definition metadata'' MgrInspected)
     | Some summary \<Rightarrow>
         then_do (record_activation summary) (\<lambda>_.
         then_do (change_at key (\<lambda>e. e\<lparr>en_state := MgrActive\<rparr>)) (\<lambda>_.
           emit SeverityInfo ActivatedCode (Some owner)))))))))))"

section \<open>Unloading\<close>

definition manager_request_unload ::
  "owner_token \<Rightarrow> unload_reason \<Rightarrow> ('p, 'c, 'j, unit) operation"
where
  "manager_request_unload owner reason =
     then_do (owner_key owner) (\<lambda>key.
     then_do (entry_at key) (\<lambda>e.
     then_do (require (en_state e = MgrActive) (MgrInvalidState ''Active'' (en_state e))) (\<lambda>_.
     then_do (host_try (request_unload owner reason)) (\<lambda>_.
     then_do (with_module key (MgrInvalidState ''live active module'' (en_state e))
       (\<lambda>m w. let (m, r) = mod_request_shutdown m in (w, m, Some r))) (\<lambda>_.
     then_do (change_at key (\<lambda>e. e\<lparr>en_state := MgrUnloadRequested\<rparr>)) (\<lambda>_.
       emit SeverityInfo UnloadRequestedCode (Some owner)))))))"

text \<open>The host's drain; the wait for its gate is told the rounds of \<open>host_script\<close>.\<close>

definition drain_host ::
  "('p, 'c, 'j) adapters \<Rightarrow> owner_token \<Rightarrow> nat \<Rightarrow> wait_round list \<Rightarrow> ('p, 'c, 'j, unit) operation"
where
  "drain_host A owner timeout script g =
     (case drain_registrations (shared_cleanup A) owner timeout script (mg_host g) of
        None \<Rightarrow> (g, Waiting)
      | Some (h, r) \<Rightarrow>
          (let g = g\<lparr>mg_host := h\<rparr>
           in case r of
                Inr u \<Rightarrow> (g, Done ())
              | Inl (CleanupFailed failed_owner phase error) \<Rightarrow>
                  if error = unwound_read
                  then then_do (emit SeverityError BoundaryPanicContained (Some owner))
                         (\<lambda>_. fail_with (MgrBoundaryPanic AtHostCoordinator)) g
                  else then_do (emit SeverityWarning CleanupRetryRequired (Some owner))
                         (\<lambda>_. fail_with (MgrHost HostCleanup)) g
              | Inl e \<Rightarrow>
                  then_do (emit SeverityWarning CleanupRetryRequired (Some owner))
                    (\<lambda>_. fail_with (MgrHost (host_issue_of e))) g))"

definition wait_module ::
  "string \<Rightarrow> manager_error \<Rightarrow> nat \<Rightarrow> wait_round list \<Rightarrow> ('p, 'c, 'j, unit) operation"
where
  "wait_module key missing timeout script =
     with_module key missing (\<lambda>m w.
       let (m', r) = mod_wait_for_callbacks timeout script m
       in (record_leaves (unat (in_flight (am_gate m)) - unat (in_flight (am_gate m'))) w, m', r))"

definition drain ::
  "('p, 'c, 'j) adapters \<Rightarrow> owner_token \<Rightarrow> nat \<Rightarrow> wait_round list \<Rightarrow> wait_round list \<Rightarrow>
   ('p, 'c, 'j, unit) operation"
where
  "drain A owner timeout host_script module_script =
     then_do (owner_key owner) (\<lambda>key.
     then_do (entry_at key) (\<lambda>e.
     then_do (require (en_state e \<in> {MgrUnloadRequested, MgrDraining})
       (MgrInvalidState ''UnloadRequested or Draining'' (en_state e))) (\<lambda>_.
     then_do (change_at key (\<lambda>e. e\<lparr>en_state := MgrDraining\<rparr>)) (\<lambda>_.
     then_do (drain_host A owner timeout host_script) (\<lambda>_.
     then_do (wait_module key (MgrInvalidState ''live draining module'' MgrDraining)
       timeout module_script) (\<lambda>_.
     then_do (change_at key (\<lambda>e. e\<lparr>en_state := MgrDrained\<rparr>)) (\<lambda>_.
       emit SeverityInfo DrainComplete (Some owner))))))))"

definition unload_call :: "('p, 'c, 'j) adapters \<Rightarrow> string \<Rightarrow> manager_error \<Rightarrow> ('p, 'c, 'j, unit) operation" where
  "unload_call A key missing =
     with_module key missing (\<lambda>m w.
       let (w, m, r) = mod_invoke_unload (ad_platform A) m w in (w, m, Some r))"

text \<open>The state advances also when the callback unwound; the error is returned at the end.\<close>

definition invoke_native_unload ::
  "('p, 'c, 'j) adapters \<Rightarrow> owner_token \<Rightarrow> ('p, 'c, 'j, unit) operation"
where
  "invoke_native_unload A owner =
     then_do (owner_key owner) (\<lambda>key.
     then_do (entry_at key) (\<lambda>e.
     then_do (require (en_state e = MgrDrained) (MgrInvalidState ''Drained'' (en_state e))) (\<lambda>_.
     then_do (\<lambda>g.
       case unload_call A key (MgrInvalidState ''live drained module'' (en_state e)) g of
         (g', Failed (MgrModule error)) \<Rightarrow> (g', Done (Inl error))
       | (g', Failed error) \<Rightarrow> (g', Failed error)
       | (g', Waiting) \<Rightarrow> (g', Waiting)
       | (g', Done u) \<Rightarrow> (g', Done (Inr ()))) (\<lambda>result.
     then_do (close_ownership owner) (\<lambda>_.
     then_do (change_at key (\<lambda>e. e\<lparr>en_state := MgrNativeUnloadComplete\<rparr>)) (\<lambda>_.
     then_do (emit (case result of Inr u \<Rightarrow> SeverityInfo | Inl e \<Rightarrow> SeverityError)
       NativeUnloadCompleteCode (Some owner)) (\<lambda>_ g.
       (g, lift_result MgrModule result))))))))"

definition cleanup_call :: "string \<Rightarrow> manager_error \<Rightarrow> ('p, 'c, 'j, unit) operation" where
  "cleanup_call key missing =
     with_module key missing (\<lambda>m w.
       let (w, m, r) = mod_complete_cleanup CleanupOk m w in (w, m, Some r))"

definition release_taken ::
  "('p, 'c, 'j) adapters \<Rightarrow> string \<Rightarrow> owner_token \<Rightarrow> bool \<Rightarrow> 'p addon_module \<Rightarrow>
   ('p, 'c, 'j, unit) operation"
where
  "release_taken A key owner needs_ack m =
     then_do (release_module A m) (\<lambda>r.
       case r of
         Inr u \<Rightarrow> finish_successful_release key (Some owner) needs_ack
       | Inl m' \<Rightarrow> keep_unreleased key owner needs_ack m')"

definition finish_unload :: "('p, 'c, 'j) adapters \<Rightarrow> owner_token \<Rightarrow> ('p, 'c, 'j, unit) operation" where
  "finish_unload A owner =
     then_do (owner_key owner) (\<lambda>key.
     then_do (entry_at key) (\<lambda>e.
     then_do (require (en_state e = MgrNativeUnloadComplete)
       (MgrInvalidState ''NativeUnloadComplete'' (en_state e))) (\<lambda>_.
     then_do (cleanup_call key (MgrInvalidState ''live cleaned module'' (en_state e))) (\<lambda>_.
     then_do (take_module key (MgrInvalidState ''live cleaned module'' (en_state e))) (\<lambda>m.
       release_taken A key owner True m)))))"

definition retry_release :: "('p, 'c, 'j) adapters \<Rightarrow> dll_path \<Rightarrow> ('p, 'c, 'j, unit) operation" where
  "retry_release A path =
     (let key = path_key path
      in then_do (entry_at key) (\<lambda>e.
         then_do (require (en_state e = MgrReleaseFailed) (MgrInvalidState ''ReleaseFailed'' (en_state e))) (\<lambda>_.
         then_do (take_module key MgrReleaseNotRetryable) (\<lambda>m.
         then_do (release_module A m) (\<lambda>r.
           case r of
             Inr u \<Rightarrow> finish_successful_release key (en_owner e) (en_needs_ack e)
           | Inl m' \<Rightarrow>
               then_do (change_at key (\<lambda>e. e\<lparr>en_module := Some m'\<rparr>)) (\<lambda>_.
               then_do (case en_owner e of
                          None \<Rightarrow> give ()
                        | Some owner \<Rightarrow> emit_release_failure (Some owner) (release_is_retryable m')) (\<lambda>_.
                 fail_with (if release_is_retryable m' then MgrReleaseFailure True
                            else MgrReleaseNotRetryable))))))))"

section \<open>Cleaning up a failed activation\<close>

text \<open>
  The loop over the phases before the drain. Each turn advances the cursor, so three turns are
  more than it can take; a loop out of turns would be \<open>Waiting\<close>.
\<close>

fun direct_cleanup_loop ::
  "nat \<Rightarrow> ('p, 'c, 'j) adapters \<Rightarrow> string \<Rightarrow> owner_token \<Rightarrow> ('p, 'c, 'j, unit) operation"
where
  "direct_cleanup_loop 0 A key owner g = (g, Waiting)"
| "direct_cleanup_loop (Suc turns) A key owner g =
     then_do (entry_at key) (\<lambda>e.
       if en_failed_cursor e < pre_drain_count
       then then_do (run_direct_cleanup A owner (cleanup_order ! en_failed_cursor e)) (\<lambda>_.
            then_do (change_at key (\<lambda>e. e\<lparr>en_failed_cursor := en_failed_cursor e + 1\<rparr>)) (\<lambda>_.
              direct_cleanup_loop turns A key owner))
       else give ()) g"

definition wait_host_gate ::
  "owner_token \<Rightarrow> nat \<Rightarrow> wait_round list \<Rightarrow> ('p, 'c, 'j, unit) operation"
where
  "wait_host_gate owner timeout script g =
     (case host_callback_gate owner (mg_host g) of
        Inl e \<Rightarrow> (g, Failed (MgrHost (host_issue_of e)))
      | Inr _ \<Rightarrow>
          (let (gate, drained) = gate_wait timeout script (ah_gates (mg_host g) owner);
               g = g\<lparr>mg_host := (mg_host g)\<lparr>ah_gates := (ah_gates (mg_host g))(owner := gate)\<rparr>\<rparr>
           in case drained of
                None \<Rightarrow> (g, Waiting)
              | Some False \<Rightarrow> (g, Failed (MgrHost HostDrainTimedOut))
              | Some True \<Rightarrow> (g, Done ())))"

definition begin_failed_cleanup ::
  "string \<Rightarrow> owner_token \<Rightarrow> manager_state \<Rightarrow> ('p, 'c, 'j, unit) operation"
where
  "begin_failed_cleanup key owner st =
     (if st = MgrActivationFailed
      then then_do (close_ownership owner) (\<lambda>_.
           then_do (with_module key (MgrInvalidState ''failed live module'' st)
             (\<lambda>m w. let (m, r) = mod_request_shutdown m in (w, m, Some r))) (\<lambda>_.
             change_at key (\<lambda>e. e\<lparr>en_state := MgrDraining\<rparr>)))
      else give ())"

definition cleanup_activation_failure ::
  "('p, 'c, 'j) adapters \<Rightarrow> owner_token \<Rightarrow> nat \<Rightarrow> wait_round list \<Rightarrow> wait_round list \<Rightarrow>
   ('p, 'c, 'j, unit) operation"
where
  "cleanup_activation_failure A owner timeout host_script module_script =
     then_do (owner_key owner) (\<lambda>key.
     then_do (entry_at key) (\<lambda>e.
     then_do (require (en_state e \<in> {MgrActivationFailed, MgrDraining})
       (MgrInvalidState ''ActivationFailed or Draining'' (en_state e))) (\<lambda>_.
     then_do (begin_failed_cleanup key owner (en_state e)) (\<lambda>_.
     then_do (direct_cleanup_loop 3 A key owner) (\<lambda>_.
     then_do (wait_host_gate owner timeout host_script) (\<lambda>_.
     then_do (wait_module key (MgrInvalidState ''failed live module'' MgrDraining)
       timeout module_script) (\<lambda>_.
     then_do (run_direct_cleanup A owner OwnedResources) (\<lambda>_.
     then_do (change_at key (\<lambda>e. e\<lparr>en_failed_cursor := length cleanup_order\<rparr>)) (\<lambda>_.
     then_do (unload_call A key (MgrInvalidState ''failed live module'' MgrDraining)) (\<lambda>_.
     then_do (cleanup_call key (MgrInvalidState ''failed live module'' MgrDraining)) (\<lambda>_.
     then_do (change_at key (\<lambda>e. e\<lparr>en_state := MgrNativeUnloadComplete\<rparr>)) (\<lambda>_.
     then_do (take_module key MgrReleaseNotRetryable) (\<lambda>m.
       release_taken A key owner False m)))))))))))))"

section \<open>Hot reload\<close>

definition hot_reload ::
  "('p, 'c, 'j) adapters \<Rightarrow> owner_token \<Rightarrow> nat \<Rightarrow> wait_round list \<Rightarrow> wait_round list \<Rightarrow>
   ('p, 'c, 'j, owner_token) operation"
where
  "hot_reload A owner timeout host_script module_script =
     then_do (owner_key owner) (\<lambda>key.
     then_do (entry_at key) (\<lambda>e.
     case en_summary e of
       None \<Rightarrow> fail_with (MgrInvalidState ''copied definition metadata'' (en_state e))
     | Some summary \<Rightarrow>
         then_do (require (\<not> flags_contain (ds_flags summary) flag_disable_hot_loading)
           (MgrPolicy HotLoadingLocked)) (\<lambda>_.
         then_do (require (\<not> flags_contain (ds_flags summary) flag_launch_only)
           (MgrPolicy LaunchOnlyPolicy)) (\<lambda>_.
         then_do (manager_request_unload owner RuntimeUnload) (\<lambda>_.
         then_do (drain A owner timeout host_script module_script) (\<lambda>_.
         then_do (invoke_native_unload A owner) (\<lambda>_.
         then_do (finish_unload A owner) (\<lambda>_.
         then_do (inspect A (dd_path (en_discovered e)) HotReloadRequest) (\<lambda>result.
           case result of
             InspectBlocked sig reason \<Rightarrow> fail_with (MgrPolicy reason)
           | InspectReady new_owner \<Rightarrow>
               then_do (activate A new_owner) (\<lambda>_.
               then_do (emit SeverityInfo HotReloadComplete (Some new_owner)) (\<lambda>_.
                 give new_owner)))))))))))"

end
