(* ===== verification/Addon_Directory.thy ===== *)
theory Addon_Directory
  imports Addon_Manager
begin

text \<open>
  The operations of the addon manager that run no native code
  (src/crates/nexus-addon-manager, manager.rs and plans.rs): the desired state, update and
  uninstall plans, the application of directory scans and watcher events, and what the manager
  shows of its state.
\<close>

section \<open>Desired state and plans\<close>

definition set_enabled :: "u32 \<Rightarrow> bool \<Rightarrow> ('p, 'c, 'j, enable_effect) operation" where
  "set_enabled sig enabled =
     then_do (\<lambda>g. require (is_writable (mg_access g)) MgrConfigReadOnly g) (\<lambda>_.
     then_do (change_config sig (\<lambda>c. c\<lparr>ac_enabled := enabled\<rparr>)) (\<lambda>_ g.
       case find (\<lambda>e. case en_summary e of None \<Rightarrow> False | Some d \<Rightarrow> ds_signature d = sig)
              (map snd (mg_entries g)) of
         None \<Rightarrow> (g, Done NoRuntimeChange)
       | Some e \<Rightarrow>
           if \<not> enabled \<and> en_state e = MgrActive
           then (g, case en_owner e of
                      None \<Rightarrow> Failed MgrUnknownOwner
                    | Some owner \<Rightarrow>
                        (case en_summary e of
                           None \<Rightarrow> Failed MgrUnknownOwner
                         | Some d \<Rightarrow>
                             Done (if flags_contain (ds_flags d) flag_disable_hot_loading
                                   then EnableRestartRequired (Some owner)
                                   else UnloadAvailable owner)))
           else if enabled \<and> en_present e \<and> en_module e = None
           then (g, Done
             (if (case en_summary e of None \<Rightarrow> False
                  | Some d \<Rightarrow> flags_contain (ds_flags d) flag_launch_only) \<and> \<not> mg_startup_open g
              then EnableRestartRequired (en_last_owner e) else ActivationAvailable))
           else (g, Done NoRuntimeChange)))"

datatype update_consent = UpdatesDisabled | StageOnly | ConfirmationRequired | AutomaticConsent

datatype update_timing = RuntimeHotReload | UpdateRestartRequired | BeforeNextActivation

datatype update_step =
    StepRequestUnload owner_token
  | ReplaceAfterUnload dll_path dll_path
  | ReplaceOnRestart dll_path dll_path
  | ReplaceInactive dll_path dll_path
  | StepRescan
  | ActivateHotReload

record update_plan =
  up_owner :: owner_token
  up_consent :: update_consent
  up_timing :: update_timing
  up_steps :: "update_step list"

fun consent_of :: "update_mode \<Rightarrow> update_consent" where
  "consent_of ModeNone = UpdatesDisabled"
| "consent_of ModeBackground = StageOnly"
| "consent_of ModeNotify = ConfirmationRequired"
| "consent_of ModeAutomatic = AutomaticConsent"

definition plan_update :: "owner_token \<Rightarrow> dll_path \<Rightarrow> ('p, 'c, 'j, update_plan) operation" where
  "plan_update owner staged =
     then_do (owner_key owner) (\<lambda>key.
     then_do (entry_at key) (\<lambda>e g.
       case en_summary e of
         None \<Rightarrow> (g, Failed MgrUnknownOwner)
       | Some d \<Rightarrow>
           (let target = dd_path (en_discovered e);
                active = (en_owner e = Some owner \<and> en_state e = MgrActive);
                locked = (flags_contain (ds_flags d) flag_disable_hot_loading \<or>
                          flags_contain (ds_flags d) flag_launch_only);
                (timing, steps) =
                  (if active \<and> locked
                   then (UpdateRestartRequired, [ReplaceOnRestart staged target, StepRescan])
                   else if active
                   then (RuntimeHotReload, [StepRequestUnload owner, ReplaceAfterUnload staged target,
                           StepRescan, ActivateHotReload])
                   else (BeforeNextActivation, [ReplaceInactive staged target, StepRescan]))
            in (g, Done \<lparr>up_owner = owner,
                  up_consent = consent_of (ac_update_mode (config_for (ds_signature d) (mg_configs g))),
                  up_timing = timing, up_steps = steps\<rparr>))))"

datatype uninstall_timing = RuntimeAfterUnload | UninstallRestartRequired | UninstallImmediate

datatype uninstall_step =
    UninstallRequestUnload owner_token
  | RemoveAfterUnload dll_path
  | RemoveOnRestart dll_path
  | RemoveInactive dll_path
  | RemoveConfigStep u32
  | UninstallRescan

record uninstall_plan =
  un_owner :: owner_token
  un_timing :: uninstall_timing
  un_steps :: "uninstall_step list"

definition plan_uninstall :: "owner_token \<Rightarrow> ('p, 'c, 'j, uninstall_plan) operation" where
  "plan_uninstall owner =
     then_do (owner_key owner) (\<lambda>key.
     then_do (entry_at key) (\<lambda>e g.
       case en_summary e of
         None \<Rightarrow> (g, Failed MgrUnknownOwner)
       | Some d \<Rightarrow>
           (let target = dd_path (en_discovered e);
                active = (en_owner e = Some owner \<and> en_state e = MgrActive);
                locked = flags_contain (ds_flags d) flag_disable_hot_loading;
                (timing, steps) =
                  (if active \<and> locked
                   then (UninstallRestartRequired, [RemoveOnRestart target,
                           RemoveConfigStep (ds_signature d), UninstallRescan])
                   else if active
                   then (RuntimeAfterUnload, [UninstallRequestUnload owner, RemoveAfterUnload target,
                           RemoveConfigStep (ds_signature d), UninstallRescan])
                   else (UninstallImmediate, [RemoveInactive target,
                           RemoveConfigStep (ds_signature d), UninstallRescan]))
            in (g, Done \<lparr>un_owner = owner, un_timing = timing, un_steps = steps\<rparr>))))"

section \<open>The directory\<close>

datatype recommendation =
    NoAction | RecommendHotReload owner_token | RecommendUnload owner_token
  | RecommendRestart owner_token

datatype change_kind =
  ChangeAdded | ChangeModified | ChangeRemoved | ChangeRenamed | ChangeUnchanged

record directory_impact =
  di_path :: dll_path
  di_kind :: change_kind
  di_recommendation :: recommendation

datatype directory_event =
    EventUpsert discovered_dll
  | EventRemoved dll_path
  | EventRenamed dll_path discovered_dll
  | EventRescan

definition recommendation_for :: "'p entry \<Rightarrow> bool \<Rightarrow> bool \<Rightarrow> recommendation" where
  "recommendation_for e changed removed =
     (case en_owner e of
        None \<Rightarrow> NoAction
      | Some owner \<Rightarrow>
          if en_state e \<noteq> MgrActive then NoAction
          else
            (let flags = (case en_summary e of None \<Rightarrow> 0 | Some d \<Rightarrow> ds_flags d)
             in if flags_contain flags flag_disable_hot_loading \<or> flags_contain flags flag_launch_only
                then RecommendRestart owner
                else if removed then RecommendUnload owner
                else if changed then RecommendHotReload owner
                else NoAction))"

fun recommendation_owner :: "recommendation \<Rightarrow> owner_token option" where
  "recommendation_owner NoAction = None"
| "recommendation_owner (RecommendHotReload owner) = Some owner"
| "recommendation_owner (RecommendUnload owner) = Some owner"
| "recommendation_owner (RecommendRestart owner) = Some owner"

definition apply_upsert :: "discovered_dll \<Rightarrow> ('p, 'c, 'j, directory_impact) operation" where
  "apply_upsert candidate g =
     (if \<not> contains_direct_child (mg_directory g) (dd_path candidate)
      then (g, Failed (MgrDiscovery OutsideDirectory))
      else
        (let key = path_key (dd_path candidate);
             (kind, advice, code, g) =
               (case map_of (mg_entries g) key of
                  Some e \<Rightarrow>
                    (let changed = (dd_revision (en_discovered e) \<noteq> dd_revision candidate \<or>
                                    dd_byte_len (en_discovered e) \<noteq> dd_byte_len candidate);
                         e' = e\<lparr>en_discovered := candidate, en_present := True\<rparr>;
                         g = g\<lparr>mg_entries := bt_insert key e' (mg_entries g)\<rparr>
                     in if changed
                        then (ChangeModified, recommendation_for e' True False, CandidateChanged, g)
                        else (ChangeUnchanged, NoAction, CandidateDiscovered, g))
                | None \<Rightarrow>
                    (ChangeAdded, NoAction, CandidateDiscovered,
                     g\<lparr>mg_entries := bt_insert key (entry_discovered candidate) (mg_entries g)\<rparr>))
         in then_do
              (if kind \<noteq> ChangeUnchanged
               then emit SeverityInfo code (recommendation_owner advice) else give ())
              (\<lambda>_. give \<lparr>di_path = dd_path candidate, di_kind = kind, di_recommendation = advice\<rparr>) g))"

definition apply_removed :: "dll_path \<Rightarrow> ('p, 'c, 'j, directory_impact) operation" where
  "apply_removed path g =
     (if \<not> contains_direct_child (mg_directory g) path
      then (g, Failed (MgrDiscovery OutsideDirectory))
      else case map_of (mg_entries g) (path_key path) of
             None \<Rightarrow> (g, Failed MgrUnknownPath)
           | Some e \<Rightarrow>
               if \<not> en_present e
               then (g, Done \<lparr>di_path = path, di_kind = ChangeUnchanged, di_recommendation = NoAction\<rparr>)
               else
                 (let e' = e\<lparr>en_present := False\<rparr>;
                      advice = recommendation_for e' False True;
                      e' = (if en_module e' = None then e'\<lparr>en_state := MgrRemoved\<rparr> else e');
                      g = g\<lparr>mg_entries := bt_insert (path_key path) e' (mg_entries g)\<rparr>
                  in then_do (emit SeverityInfo CandidateRemoved (recommendation_owner advice))
                       (\<lambda>_. give \<lparr>di_path = path, di_kind = ChangeRemoved, di_recommendation = advice\<rparr>) g))"

definition rename_key :: "string \<Rightarrow> string \<Rightarrow> (owner_token \<Rightarrow> string option) \<Rightarrow> owner_token \<Rightarrow> string option" where
  "rename_key old_key new_key paths owner =
     map_option (\<lambda>k. if k = old_key then new_key else k) (paths owner)"

definition apply_renamed :: "dll_path \<Rightarrow> discovered_dll \<Rightarrow> ('p, 'c, 'j, directory_impact) operation" where
  "apply_renamed old target g =
     (if \<not> contains_direct_child (mg_directory g) old \<or>
         \<not> contains_direct_child (mg_directory g) (dd_path target)
      then (g, Failed (MgrDiscovery OutsideDirectory))
      else
        (let old_key = path_key old; new_key = path_key (dd_path target)
         in if old_key = new_key then apply_upsert target g
            else if map_of (mg_entries g) new_key \<noteq> None then (g, Failed (MgrDiscovery DuplicateEntry))
            else case map_of (mg_entries g) old_key of
                   None \<Rightarrow> (g, Failed MgrUnknownPath)
                 | Some e \<Rightarrow>
                     (let e' = e\<lparr>en_discovered := target, en_present := True\<rparr>;
                          advice = recommendation_for e' True False;
                          g = g\<lparr>mg_entries := bt_insert new_key e' (bt_remove old_key (mg_entries g)),
                                mg_owner_paths := rename_key old_key new_key (mg_owner_paths g)\<rparr>
                      in then_do (emit SeverityInfo CandidateRenamed (recommendation_owner advice))
                           (\<lambda>_. give \<lparr>di_path = dd_path target, di_kind = ChangeRenamed,
                                      di_recommendation = advice\<rparr>) g)))"

fun apply_each :: "('a \<Rightarrow> ('p, 'c, 'j, 'b) operation) \<Rightarrow> 'a list \<Rightarrow> ('p, 'c, 'j, 'b list) operation" where
  "apply_each f [] = give []"
| "apply_each f (x # xs) =
     then_do (f x) (\<lambda>y. then_do (apply_each f xs) (\<lambda>ys. give (y # ys)))"

text \<open>The scanner answers with the candidates or an error, or unwinds.\<close>

definition refresh_discovery ::
  "(discovery_error + discovered_dll list) option \<Rightarrow> ('p, 'c, 'j, directory_impact list) operation"
where
  "refresh_discovery answer =
     (case answer of
        None \<Rightarrow>
          then_do (emit SeverityError BoundaryPanicContained None)
            (\<lambda>_. fail_with (MgrBoundaryPanic AtDirectoryScanner))
      | Some (Inl e) \<Rightarrow> fail_with (MgrDiscovery e)
      | Some (Inr scanned) \<Rightarrow>
          then_do (\<lambda>g. (g, lift_result MgrDiscovery (normalize_discovery (mg_directory g) scanned))) (\<lambda>found.
          then_do (apply_each apply_upsert found) (\<lambda>impacts.
          then_do (\<lambda>g. (g, Done (map (\<lambda>(k, e). dd_path (en_discovered e))
              (filter (\<lambda>(k, e). en_present e \<and> k \<notin> set (map (\<lambda>d. path_key (dd_path d)) found))
                (mg_entries g))))) (\<lambda>removed.
          then_do (apply_each apply_removed removed) (\<lambda>more.
            give (impacts @ more))))))"

definition apply_directory_event ::
  "directory_event \<Rightarrow> (discovery_error + discovered_dll list) option \<Rightarrow>
   ('p, 'c, 'j, directory_impact list) operation"
where
  "apply_directory_event event answer =
     (case event of
        EventUpsert candidate \<Rightarrow> then_do (apply_upsert candidate) (\<lambda>i. give [i])
      | EventRemoved path \<Rightarrow> then_do (apply_removed path) (\<lambda>i. give [i])
      | EventRenamed old target \<Rightarrow> then_do (apply_renamed old target) (\<lambda>i. give [i])
      | EventRescan \<Rightarrow> refresh_discovery answer)"

section \<open>Observation\<close>

definition finish_startup :: "('p, 'c, 'j) manager \<Rightarrow> ('p, 'c, 'j) manager" where
  "finish_startup g = g\<lparr>mg_startup_open := False\<rparr>"

definition manager_owner_for_address :: "usize \<Rightarrow> ('p, 'c, 'j) manager \<Rightarrow> owner_token option" where
  "manager_owner_for_address a g = owner_for_address (mg_ownership g) a"

definition manager_active_owner :: "u32 \<Rightarrow> ('p, 'c, 'j) manager \<Rightarrow> owner_token option" where
  "manager_active_owner sig g = active_owner sig (mg_host g)"

definition manager_callback_gate :: "owner_token \<Rightarrow> ('p, 'c, 'j) manager \<Rightarrow> manager_error + owner_token" where
  "manager_callback_gate owner g =
     (case host_callback_gate owner (mg_host g) of
        Inl e \<Rightarrow> Inl (MgrHost (host_issue_of e)) | Inr gate \<Rightarrow> Inr gate)"

definition take_diagnostics :: "('p, 'c, 'j) manager \<Rightarrow> ('p, 'c, 'j) manager \<times> diagnostic list" where
  "take_diagnostics g =
     (let (b, ds) = diagnostics_take (mg_diagnostics g) in (g\<lparr>mg_diagnostics := b\<rparr>, ds))"

text \<open>\<open>AddonSnapshot\<close>.\<close>

record addon_snapshot =
  sn_path :: dll_path
  sn_revision :: binary_revision
  sn_loaded_revision :: "binary_revision option"
  sn_state :: manager_state
  sn_present :: bool
  sn_owner :: "owner_token option"
  sn_last_owner :: "owner_token option"
  sn_summary :: "definition_summary option"
  sn_blocked_by :: "policy_reason option"

definition entry_snapshot :: "'p entry \<Rightarrow> addon_snapshot" where
  "entry_snapshot e =
     \<lparr>sn_path = dd_path (en_discovered e), sn_revision = dd_revision (en_discovered e),
      sn_loaded_revision = en_loaded_revision e, sn_state = en_state e, sn_present = en_present e,
      sn_owner = en_owner e, sn_last_owner = en_last_owner e, sn_summary = en_summary e,
      sn_blocked_by = en_blocked_by e\<rparr>"

definition manager_snapshots :: "('p, 'c, 'j) manager \<Rightarrow> addon_snapshot list" where
  "manager_snapshots g = map (\<lambda>(k, e). entry_snapshot e) (mg_entries g)"

definition manager_snapshot :: "dll_path \<Rightarrow> ('p, 'c, 'j) manager \<Rightarrow> addon_snapshot option" where
  "manager_snapshot path g = map_option entry_snapshot (map_of (mg_entries g) (path_key path))"

end
