(* ===== verification/Addon_Module_Life.thy ===== *)
theory Addon_Module_Life
  imports Addon_Module Addon_Lifecycle
begin

text \<open>
  What a loaded native module may see of its host (Addon_Module): every history of a module keeps
  to the protocol of native calls, whatever the platform and the native code answer, so that its
  library is released at most once, behind its drained gate and after its callbacks; and a load
  that fails releases the library it loaded.
\<close>

section \<open>Gates\<close>

lemma leave_in_flight: "in_flight g \<noteq> 0 \<Longrightarrow> unat (in_flight (fst (gate_leave g))) = unat (in_flight g) - 1"
  by (simp add: gate_leave_def Let_def unat_usize_pred unat_gt_0)

lemma enter_leave_gate: "gate_try_enter g = (g', True) \<Longrightarrow> fst (gate_leave g') = g"
  by (auto simp: gate_try_enter_def gate_leave_def Let_def split: if_splits)

lemma enter_refused_gate: "gate_try_enter g = (g', False) \<Longrightarrow> g' = g \<and> \<not> accepting g"
  by (auto simp: gate_try_enter_def Let_def split: if_splits)

lemma enter_admitted_gate:
  "gate_try_enter g = (g', True) \<Longrightarrow> unat (in_flight g) < 2 ^ 64 - 1 \<Longrightarrow>
   accepting g \<and> accepting g' \<and> unat (in_flight g') = Suc (unat (in_flight g))"
  by (auto simp: gate_try_enter_def Let_def unat_usize_Suc split: if_splits)

lemma leave_many_le: "unat (in_flight (leave_many n g)) \<le> unat (in_flight g)"
proof -
  have "k \<le> unat (in_flight g) \<Longrightarrow>
    unat (in_flight (((\<lambda>g. fst (gate_leave g)) ^^ k) g)) = unat (in_flight g) - k" for k
  proof (induction k)
    case (Suc k)
    then have "in_flight (((\<lambda>g. fst (gate_leave g)) ^^ k) g) \<noteq> 0"
      by (metis Suc_le_lessD unat_0 zero_less_diff less_numeral_extra(3) Suc_leD)
    with Suc show ?case by (simp add: leave_in_flight)
  qed simp
  then show ?thesis by (simp add: leave_many_def)
qed

lemma gate_wait_loop_le: "unat (in_flight (fst (gate_wait_loop timeout ss g))) \<le> unat (in_flight g)"
proof (induction timeout ss g rule: gate_wait_loop.induct)
  case (2 timeout s ss g)
  then show ?case
    using leave_many_le [of "wr_leaves s" g]
      leave_many_le [of "wr_leaves_after s" "leave_many (wr_leaves s) g"]
    by (auto simp: Let_def) (meson order_trans)+
qed simp

lemma gate_wait_le: "gate_wait timeout ss g = (g', r) \<Longrightarrow> unat (in_flight g') \<le> unat (in_flight g)"
  using gate_wait_loop_le [of timeout ss g] by (auto simp: gate_wait_def split: if_splits)

section \<open>The invariant\<close>

fun state_fits :: "module_state \<Rightarrow> bool \<Rightarrow> usize \<Rightarrow> native_protocol \<Rightarrow> usize option \<Rightarrow> bool" where
  "state_fits ModInspected acc ul s h = (np_phase s = Mapped \<and> \<not> np_cleaned s)"
| "state_fits ModActive acc ul s h = (np_phase s = Running \<and> \<not> np_sealed s \<and> \<not> np_cleaned s)"
| "state_fits ModActivationFailed acc ul s h =
     (np_phase s = Running \<and> \<not> np_sealed s \<and> \<not> np_cleaned s)"
| "state_fits ModShutdownRequested acc ul s h =
     (np_phase s = Running \<and> \<not> np_sealed s \<and> \<not> np_cleaned s \<and> \<not> acc)"
| "state_fits ModQuiesced acc ul s h =
     (np_phase s = Running \<and> \<not> np_sealed s \<and> \<not> np_cleaned s \<and> \<not> acc \<and> np_guards s = 0)"
| "state_fits ModUnloadComplete acc ul s h = (callbacks_over ul s \<and> \<not> np_cleaned s \<and> \<not> acc)"
| "state_fits ModCleanupComplete acc ul s h = (callbacks_over ul s \<and> np_cleaned s \<and> \<not> acc)"
| "state_fits ModReleaseUncertain acc ul s h = (h = None)"
| "state_fits ModReleased acc ul s h = (h = None)"

definition life_inv :: "usize \<Rightarrow> usize \<Rightarrow> usize \<Rightarrow> native_protocol \<Rightarrow> 'p module_life \<Rightarrow> bool" where
  "life_inv handle load unload s l \<longleftrightarrow>
     (let m = ml_module l; g = am_gate m
      in np_guards s = unat (in_flight g) \<and> (np_sealed s \<longrightarrow> \<not> accepting g) \<and>
         (np_phase s \<in> {Stopped, Gone} \<longrightarrow> np_sealed s) \<and>
         (ml_owned l \<longrightarrow>
            am_load m = load \<and> am_unload m = unload \<and> am_handle m \<in> {None, Some handle} \<and>
            state_fits (am_state m) (accepting g) unload s (am_handle m)))"

lemmas life_defs =
  life_inv_def Let_def record_call_def query_def native_call_load_def native_call_unload_def
  native_free_library_def mod_close_gate_def gate_close_def

definition protocol_extends ::
  "usize \<Rightarrow> usize \<Rightarrow> usize \<Rightarrow> native_protocol \<Rightarrow> 'p module_life \<Rightarrow> 'p module_life \<Rightarrow> bool"
where
  "protocol_extends handle load unload s l l' \<longleftrightarrow>
     (\<exists>calls s'. nw_trace (ml_world l') = nw_trace (ml_world l) @ calls \<and>
        protocol_run handle load unload calls s = Some s' \<and> life_inv handle load unload s' l')"

lemma protocol_extendsI:
  "nw_trace (ml_world l') = nw_trace (ml_world l) @ calls \<Longrightarrow>
   protocol_run handle load unload calls s = Some s' \<Longrightarrow> life_inv handle load unload s' l' \<Longrightarrow>
   protocol_extends handle load unload s l l'"
  by (auto simp: protocol_extends_def)

lemma protocol_silent:
  "nw_trace (ml_world l') = nw_trace (ml_world l) \<Longrightarrow> life_inv handle load unload s l' \<Longrightarrow>
   protocol_extends handle load unload s l l'"
  by (auto simp: protocol_extends_def intro!: exI [of _ "[]"])

section \<open>Every operation keeps to the protocol\<close>

lemma activate_extends:
  assumes inv: "life_inv h ld ul s \<lparr>ml_world = w, ml_module = m, ml_owned = True\<rparr>"
    and run: "mod_activate P api m w = (w', m', r)"
  shows "protocol_extends h ld ul s \<lparr>ml_world = w, ml_module = m, ml_owned = True\<rparr>
    \<lparr>ml_world = w', ml_module = m', ml_owned = True\<rparr>"
proof (cases "am_state m = ModInspected")
  case False
  then show ?thesis using run inv by (auto simp: mod_activate_def intro: protocol_silent)
next
  case True
  obtain g admitted where enter: "gate_try_enter (am_gate m) = (g, admitted)" by fastforce
  show ?thesis
  proof (cases admitted)
    case False
    then have "g = am_gate m" using enter_refused_gate [of "am_gate m" g] enter by simp
    then show ?thesis using run inv True False enter
      by (auto simp: mod_activate_def intro: protocol_silent)
  next
    case admitted: True
    have gate: "fst (gate_leave g) = am_gate m" using enter_leave_gate [of "am_gate m" g] enter admitted by simp
    have acc: "accepting (am_gate m)"
      using enter admitted by (auto simp: gate_try_enter_def Let_def split: if_splits)
    then have open_now: "\<not> np_sealed s" "np_phase s = Mapped" "am_load m = ld"
      using inv True by (auto simp: life_inv_def Let_def)
    show ?thesis
      by (rule protocol_extendsI [where calls = "[CalledLoad ld]" and s' = "s\<lparr>np_phase := Running\<rparr>"])
        (use run inv True admitted enter gate acc open_now in
          \<open>auto simp: mod_activate_def life_defs split: prod.splits option.splits\<close>)
  qed
qed

lemma shutdown_extends:
  assumes inv: "life_inv h ld ul s \<lparr>ml_world = w, ml_module = m, ml_owned = True\<rparr>"
    and run: "mod_request_shutdown m = (m', r)"
  shows "protocol_extends h ld ul s \<lparr>ml_world = w, ml_module = m, ml_owned = True\<rparr>
    \<lparr>ml_world = w, ml_module = m', ml_owned = True\<rparr>"
  by (rule protocol_silent)
    (use run inv in \<open>auto simp: mod_request_shutdown_def life_defs split: if_splits\<close>)

lemma protocol_leaves:
  "n \<le> np_guards s \<Longrightarrow>
   protocol_run h ld ul (replicate n GuardLeft) s = Some (s\<lparr>np_guards := np_guards s - n\<rparr>)"
proof (induction n arbitrary: s)
  case (Suc n)
  then show ?case using Suc.IH [of "s\<lparr>np_guards := np_guards s - 1\<rparr>"] by simp
qed simp

lemma record_leaves_trace: "nw_trace (record_leaves n w) = nw_trace w @ replicate n GuardLeft"
proof -
  have "nw_trace ((record_call GuardLeft ^^ n) w) = nw_trace w @ replicate n GuardLeft"
    by (induction n) (simp_all add: record_call_def replicate_append_same)
  then show ?thesis by (simp add: record_leaves_def)
qed

lemma wait_extends:
  assumes inv: "life_inv h ld ul s \<lparr>ml_world = w, ml_module = m, ml_owned = True\<rparr>"
    and run: "mod_wait_for_callbacks timeout script m = (m', r)"
  shows "protocol_extends h ld ul s \<lparr>ml_world = w, ml_module = m, ml_owned = True\<rparr>
    \<lparr>ml_world = record_leaves (unat (in_flight (am_gate m)) - unat (in_flight (am_gate m'))) w,
     ml_module = m', ml_owned = True\<rparr>"
proof (cases "am_state m = ModShutdownRequested")
  case False
  then have "m' = m" using run by (simp add: mod_wait_for_callbacks_def)
  then show ?thesis using inv by (auto simp: record_leaves_def intro: protocol_silent)
next
  case True
  obtain g drained where wait: "gate_wait timeout script (am_gate m) = (g, drained)" by fastforce
  have g: "am_gate m' = g" "am_load m' = am_load m" "am_unload m' = am_unload m"
    "am_handle m' = am_handle m"
    "am_state m' = (if drained = Some True then ModQuiesced else ModShutdownRequested)"
    using run True wait by (auto simp: mod_wait_for_callbacks_def Let_def split: option.splits bool.splits)
  have le: "unat (in_flight g) \<le> unat (in_flight (am_gate m))" and acc: "accepting g = accepting (am_gate m)"
    using gate_wait_le [OF wait] gate_wait_accepting [OF wait] by auto
  have zero: "in_flight g = 0" if "drained = Some True" using gate_wait_True wait that by blast
  let ?n = "unat (in_flight (am_gate m)) - unat (in_flight g)"
  have guards: "np_guards s = unat (in_flight (am_gate m))" using inv by (simp add: life_inv_def Let_def)
  show ?thesis
  proof (rule protocol_extendsI [where calls = "replicate ?n GuardLeft"])
    show "protocol_run h ld ul (replicate ?n GuardLeft) s = Some (s\<lparr>np_guards := np_guards s - ?n\<rparr>)"
      using guards by (intro protocol_leaves) simp
    show "life_inv h ld ul (s\<lparr>np_guards := np_guards s - ?n\<rparr>)
      \<lparr>ml_world = record_leaves (unat (in_flight (am_gate m)) - unat (in_flight (am_gate m'))) w,
       ml_module = m', ml_owned = True\<rparr>"
      using inv True g le acc zero guards by (auto simp: life_inv_def Let_def)
  qed (simp add: record_leaves_trace g)
qed

lemma unload_extends:
  assumes inv: "life_inv h ld ul s \<lparr>ml_world = w, ml_module = m, ml_owned = True\<rparr>"
    and run: "mod_invoke_unload P m w = (w', m', r)"
  shows "protocol_extends h ld ul s \<lparr>ml_world = w, ml_module = m, ml_owned = True\<rparr>
    \<lparr>ml_world = w', ml_module = m', ml_owned = True\<rparr>"
proof (cases "am_state m = ModQuiesced")
  case False
  then show ?thesis using run inv by (auto simp: mod_invoke_unload_def intro: protocol_silent)
next
  case True
  show ?thesis
  proof (cases "ul = 0")
    case none: True
    show ?thesis
      by (rule protocol_silent)
        (use run inv True none in
          \<open>auto simp: mod_invoke_unload_def life_defs callbacks_over_def split: prod.splits option.splits\<close>)
  next
    case some: False
    show ?thesis
      by (rule protocol_extendsI [where calls = "[CalledUnload ul]"
            and s' = "s\<lparr>np_phase := Stopped, np_sealed := True\<rparr>"])
        (use run inv True some in
          \<open>auto simp: mod_invoke_unload_def life_defs callbacks_over_def split: prod.splits option.splits\<close>)
  qed
qed

lemma cleanup_extends:
  assumes inv: "life_inv h ld ul s \<lparr>ml_world = w, ml_module = m, ml_owned = True\<rparr>"
    and run: "mod_complete_cleanup answer m w = (w', m', r)"
  shows "protocol_extends h ld ul s \<lparr>ml_world = w, ml_module = m, ml_owned = True\<rparr>
    \<lparr>ml_world = w', ml_module = m', ml_owned = True\<rparr>"
proof (cases "am_state m = ModUnloadComplete")
  case False
  then show ?thesis using run inv by (auto simp: mod_complete_cleanup_def intro: protocol_silent)
next
  case True
  show ?thesis
    by (rule protocol_extendsI [where calls = "[RanCleanup (answer = CleanupOk)]"
          and s' = "s\<lparr>np_sealed := True, np_cleaned := (answer = CleanupOk)\<rparr>"])
      (use run inv True in
        \<open>auto simp: mod_complete_cleanup_def life_defs callbacks_over_def split: cleanup_answer.splits\<close>)
qed

lemma free_extends:
  assumes "np_guards s = 0" and "np_phase s = Mapped \<or> np_cleaned s \<and> callbacks_over ul s"
    and "native_free_library P h w = (w', r)"
    and "life_inv h ld ul (s\<lparr>np_sealed := True,
       np_phase := (if free_outcome r = FreeRefused then np_phase s else Gone)\<rparr>) l'"
    and "ml_world l' = w'" and "ml_world l = w"
  shows "protocol_extends h ld ul s l l'"
  using assms
  by (intro protocol_extendsI [where calls = "[TriedFree h (free_outcome r)]"])
    (auto simp: native_free_library_def query_def record_call_def split: prod.splits)

lemma release_extends:
  assumes inv: "life_inv h ld ul s \<lparr>ml_world = w, ml_module = m, ml_owned = True\<rparr>"
    and run: "mod_release P m w = (w', m', r)"
  shows "protocol_extends h ld ul s \<lparr>ml_world = w, ml_module = m, ml_owned = True\<rparr>
    \<lparr>ml_world = w', ml_module = m', ml_owned = (r \<noteq> Inr ())\<rparr>"
proof (cases "am_state m \<in> {ModInspected, ModCleanupComplete}")
  case False
  then have "w' = w" "m' = m\<lparr>am_release_on_drop := False\<rparr>" "r \<noteq> Inr ()"
    using run by (auto simp: mod_release_def Let_def)
  then show ?thesis using inv by (auto simp: life_inv_def Let_def intro!: protocol_silent)
next
  case state: True
  define c where "c = (if am_state m = ModInspected then mod_close_gate m else m)"
  have c: "am_state c = am_state m" "am_handle c = am_handle m" "am_load c = am_load m"
    "am_unload c = am_unload m" "in_flight (am_gate c) = in_flight (am_gate m)"
    by (simp_all add: c_def mod_close_gate_def gate_close_def)
  have closed: "\<not> accepting (am_gate c)"
    using state inv by (auto simp: c_def life_defs)
  show ?thesis
  proof (cases "in_flight (am_gate c) \<noteq> 0 \<or> am_handle c = None")
    case True
    then have "w' = w" "m' = c\<lparr>am_release_on_drop := False\<rparr>" "r \<noteq> Inr ()"
      using run state by (auto simp: mod_release_def c_def [symmetric] Let_def split: option.splits if_splits)
    then show ?thesis using inv state c closed
      by (auto simp: life_inv_def Let_def intro!: protocol_silent)
  next
    case False
    then have handle: "am_handle c = Some h" and zero: "in_flight (am_gate c) = 0"
      using inv c by (auto simp: life_inv_def Let_def)
    obtain w1 f where free: "native_free_library P h w = (w1, f)" by fastforce
    have ready: "np_guards s = 0" "np_phase s = Mapped \<or> np_cleaned s \<and> callbacks_over ul s"
      using inv state zero c by (auto simp: life_inv_def Let_def)
    have "mod_release P m w = (case f of
        Some (Inr u) \<Rightarrow> (w1, c\<lparr>am_handle := None, am_state := ModReleased\<rparr>, Inr ())
      | Some (Inl e) \<Rightarrow> (w1, c\<lparr>am_release_on_drop := False\<rparr>, Inl (ModPlatform FreeLibrary e))
      | None \<Rightarrow> (w1, c\<lparr>am_handle := None, am_state := ModReleaseUncertain,
                   am_release_on_drop := False\<rparr>, Inl (ModPanic AtFreeLibrary)))"
      unfolding mod_release_def Let_def c_def [symmetric]
      using state handle zero free by (simp split: option.splits sum.splits)
    then have out: "w' = w1"
      "m' = (case f of Some (Inr u) \<Rightarrow> c\<lparr>am_handle := None, am_state := ModReleased\<rparr>
              | Some (Inl e) \<Rightarrow> c\<lparr>am_release_on_drop := False\<rparr>
              | None \<Rightarrow> c\<lparr>am_handle := None, am_state := ModReleaseUncertain,
                           am_release_on_drop := False\<rparr>)"
      "(r \<noteq> Inr ()) = (free_outcome f \<noteq> FreeDone)"
      using run by (auto simp: free_outcome_def split: option.splits sum.splits)
    show ?thesis
      by (rule free_extends [OF ready free])
        (use inv state c closed zero handle out in
          \<open>auto simp: life_inv_def Let_def callbacks_over_def free_outcome_def split: option.splits sum.splits\<close>)
  qed
qed

lemma drop_extends:
  assumes inv: "life_inv h ld ul s \<lparr>ml_world = w, ml_module = m, ml_owned = True\<rparr>"
    and run: "mod_drop P m w = (w', m')"
  shows "protocol_extends h ld ul s \<lparr>ml_world = w, ml_module = m, ml_owned = True\<rparr>
    \<lparr>ml_world = w', ml_module = m', ml_owned = False\<rparr>"
proof -
  define c where "c = (if am_state m = ModInspected then mod_close_gate m else m)"
  define safe where "safe = (am_release_on_drop c \<and> in_flight (am_gate c) = 0 \<and>
      am_state c \<in> {ModInspected, ModCleanupComplete})"
  have c: "am_state c = am_state m" "am_handle c = am_handle m"
    "in_flight (am_gate c) = in_flight (am_gate m)"
    by (simp_all add: c_def mod_close_gate_def gate_close_def)
  have closed: "\<not> accepting (am_gate c)" if safe
    using that inv by (auto simp: safe_def c_def life_defs split: if_splits)
  have acc: "accepting (am_gate c) \<Longrightarrow> accepting (am_gate m)"
    by (auto simp: c_def mod_close_gate_def gate_close_def split: if_splits)
  show ?thesis
  proof (cases "safe \<and> am_handle m \<noteq> None")
    case True
    then have handle: "am_handle m = Some h" using inv by (auto simp: life_inv_def Let_def)
    obtain w1 f where free: "native_free_library P h w = (w1, f)" by fastforce
    have ready: "np_guards s = 0" "np_phase s = Mapped \<or> np_cleaned s \<and> callbacks_over ul s"
      using inv True c by (auto simp: safe_def life_inv_def Let_def)
    have out: "w' = w1" "m' = c\<lparr>am_handle := None\<rparr>"
      using run True handle free c(2) safe_def
      by (simp_all add: mod_drop_def c_def [symmetric] Let_def)
    show ?thesis
      by (rule free_extends [OF ready free])
        (use inv c closed True out in \<open>auto simp: safe_def life_inv_def Let_def\<close>)
  next
    case False
    then have "w' = w" "am_gate m' = am_gate c"
      using run c(2)
      by (auto simp: mod_drop_def c_def [symmetric] safe_def Let_def split: option.splits)
    then show ?thesis using inv c acc
      by (auto simp: life_inv_def Let_def intro!: protocol_silent)
  qed
qed

lemma enter_extends:
  assumes inv: "life_inv h ld ul s \<lparr>ml_world = w, ml_module = m, ml_owned = owned\<rparr>"
    and run: "mod_enter m w = (w', m', admitted)" and few: "unat (in_flight (am_gate m)) < 2 ^ 64 - 1"
  shows "protocol_extends h ld ul s \<lparr>ml_world = w, ml_module = m, ml_owned = owned\<rparr>
    \<lparr>ml_world = w', ml_module = m', ml_owned = owned\<rparr>"
proof -
  obtain g where enter: "gate_try_enter (am_gate m) = (g, admitted)"
    and out: "w' = (if admitted then record_call GuardEntered w else w)" "m' = m\<lparr>am_gate := g\<rparr>"
    using run by (auto simp: mod_enter_def split: prod.splits)
  show ?thesis
  proof (cases admitted)
    case False
    then have "g = am_gate m" using enter enter_refused_gate [of "am_gate m" g] by simp
    then show ?thesis using False inv out by (auto simp: life_inv_def Let_def intro!: protocol_silent)
  next
    case True
    then have g: "accepting (am_gate m)" "accepting g" "unat (in_flight g) = Suc (unat (in_flight (am_gate m)))"
      using enter enter_admitted_gate [of "am_gate m" g] few by simp_all
    have unsealed: "\<not> np_sealed s" "np_phase s \<in> {Mapped, Running}"
      using inv g by (cases "np_phase s"; auto simp: life_inv_def Let_def)+
    have fits: "state_fits st True ul s hd \<Longrightarrow>
       state_fits st True ul (s\<lparr>np_guards := Suc (np_guards s)\<rparr>) hd" for st hd
      by (cases st) auto
    show ?thesis
      by (rule protocol_extendsI [where calls = "[GuardEntered]"
            and s' = "s\<lparr>np_guards := np_guards s + 1\<rparr>"])
        (use inv out True g unsealed fits in \<open>auto simp: life_inv_def Let_def record_call_def\<close>)
  qed
qed

lemma leave_extends:
  assumes inv: "life_inv h ld ul s \<lparr>ml_world = w, ml_module = m, ml_owned = owned\<rparr>"
    and run: "mod_leave m w = (w', m')" and inside: "in_flight (am_gate m) \<noteq> 0"
  shows "protocol_extends h ld ul s \<lparr>ml_world = w, ml_module = m, ml_owned = owned\<rparr>
    \<lparr>ml_world = w', ml_module = m', ml_owned = owned\<rparr>"
proof -
  have out: "w' = record_call GuardLeft w" "m' = m\<lparr>am_gate := fst (gate_leave (am_gate m))\<rparr>"
    using run by (auto simp: mod_leave_def)
  have less: "unat (in_flight (fst (gate_leave (am_gate m)))) = unat (in_flight (am_gate m)) - 1"
    using inside by (rule leave_in_flight)
  have acc: "accepting (fst (gate_leave (am_gate m))) = accepting (am_gate m)"
    by (simp add: gate_leave_def Let_def)
  have pos: "0 < np_guards s" using inv inside by (simp add: life_inv_def Let_def unat_gt_0)
  then have fits: "state_fits st a ul s hd \<Longrightarrow>
     state_fits st a ul (s\<lparr>np_guards := np_guards s - 1\<rparr>) hd" for st a hd
    by (cases st) (auto simp: callbacks_over_def)
  show ?thesis
    by (rule protocol_extendsI [where calls = "[GuardLeft]"
          and s' = "s\<lparr>np_guards := np_guards s - 1\<rparr>"])
      (use inv out less acc pos fits in \<open>auto simp: life_inv_def Let_def record_call_def\<close>)
qed

lemma life_step_extends:
  assumes "life_step P l l'" and "life_inv h ld ul s l"
  shows "protocol_extends h ld ul s l l'"
  using assms
proof (induction rule: life_step.induct)
  case life_activate
  from life_activate(2,1) show ?case by (rule activate_extends)
next
  case life_shutdown
  from life_shutdown(2,1) show ?case by (rule shutdown_extends)
next
  case life_wait
  from life_wait(2,1) show ?case by (rule wait_extends)
next
  case life_unload
  from life_unload(2,1) show ?case by (rule unload_extends)
next
  case life_cleanup
  from life_cleanup(2,1) show ?case by (rule cleanup_extends)
next
  case life_release
  from life_release(2,1) show ?case by (rule release_extends)
next
  case life_drop
  from life_drop(2,1) show ?case by (rule drop_extends)
next
  case life_enter
  from life_enter(3,1,2) show ?case by (rule enter_extends)
next
  case life_leave
  from life_leave(3,1,2) show ?case by (rule leave_extends)
next
  case life_native
  then show ?case by (auto simp: life_inv_def Let_def intro!: protocol_silent)
qed

lemma protocol_run_append:
  "protocol_run h ld ul (xs @ ys) s = Option.bind (protocol_run h ld ul xs s) (protocol_run h ld ul ys)"
proof (induction xs arbitrary: s)
  case (Cons x xs)
  then show ?case by (cases "protocol_step h ld ul x s") simp_all
qed simp

lemma life_steps_extend:
  assumes "(life_step P)\<^sup>*\<^sup>* l l'" and "life_inv h ld ul s l"
  shows "protocol_extends h ld ul s l l'"
  using assms
proof (induction rule: rtranclp_induct)
  case base
  then show ?case by (auto intro: protocol_silent)
next
  case (step l1 l2)
  from step.IH [OF step.prems] obtain c1 s1 where
    1: "nw_trace (ml_world l1) = nw_trace (ml_world l) @ c1" "protocol_run h ld ul c1 s = Some s1"
      "life_inv h ld ul s1 l1" by (auto simp: protocol_extends_def)
  from life_step_extends [OF step.hyps(2) 1(3)] obtain c2 s2 where
    2: "nw_trace (ml_world l2) = nw_trace (ml_world l1) @ c2" "protocol_run h ld ul c2 s1 = Some s2"
      "life_inv h ld ul s2 l2" by (auto simp: protocol_extends_def)
  show ?case
    by (rule protocol_extendsI [where calls = "c1 @ c2" and s' = s2])
      (use 1 2 in \<open>auto simp: protocol_run_append\<close>)
qed

section \<open>What the protocol promises\<close>

lemma protocol_sealed_quiet:
  assumes "protocol_run h ld ul calls s = Some s'" and "np_sealed s" and "np_guards s = 0"
  shows "GuardEntered \<notin> set calls \<and> CalledLoad a \<notin> set calls \<and> CalledUnload b \<notin> set calls \<and>
    np_sealed s' \<and> np_guards s' = 0"
  using assms
proof (induction calls arbitrary: s)
  case (Cons c cs)
  then show ?case by (cases c) (auto split: if_splits bind_splits)
qed simp

lemma protocol_gone_ends:
  assumes "protocol_run h ld ul calls s = Some s'" and "np_phase s = Gone" and "np_sealed s"
    and "np_guards s = 0"
  shows "calls = []"
proof (cases calls)
  case (Cons c cs)
  then show ?thesis using assms by (cases c) (auto simp: callbacks_over_def split: if_splits bind_splits)
qed

text \<open>The state of the protocol after a run counts what was called.\<close>

definition calls_counted :: "usize \<Rightarrow> native_call list \<Rightarrow> native_protocol \<Rightarrow> bool" where
  "calls_counted unload calls s \<longleftrightarrow>
     count_list calls GuardEntered = count_list calls GuardLeft + np_guards s \<and>
     ((\<exists>a. CalledLoad a \<in> set calls) \<longleftrightarrow> np_phase s \<in> {Running, Stopped} \<or> np_phase s = Gone \<and> np_cleaned s) \<and>
     (np_phase s \<in> {Stopped} \<longrightarrow> CalledUnload unload \<in> set calls) \<and>
     (np_cleaned s \<longrightarrow> RanCleanup True \<in> set calls \<and> (unload \<noteq> 0 \<longrightarrow> CalledUnload unload \<in> set calls))"

lemma calls_counted_step:
  assumes "calls_counted ul calls s" and "protocol_step h ld ul c s = Some s'"
    and "np_cleaned s \<longrightarrow> np_phase s \<in> {Running, Stopped, Gone}"
  shows "calls_counted ul (calls @ [c]) s' \<and>
    (np_cleaned s' \<longrightarrow> np_phase s' \<in> {Running, Stopped, Gone})"
  using assms by (cases c; cases "np_phase s")
    (auto simp: calls_counted_def callbacks_over_def split: if_splits)

lemma calls_counted_run:
  assumes "protocol_run h ld ul calls protocol_start = Some s"
  shows "calls_counted ul calls s \<and> (np_cleaned s \<longrightarrow> np_phase s \<in> {Running, Stopped, Gone})"
  using assms
proof (induction calls arbitrary: s rule: rev_induct)
  case Nil
  then show ?case by (auto simp: calls_counted_def protocol_start_def)
next
  case (snoc c cs)
  from snoc.prems obtain s1 where run: "protocol_run h ld ul cs protocol_start = Some s1"
    and last_step: "protocol_step h ld ul c s1 = Some s"
    by (auto simp: protocol_run_append split: bind_splits)
  from snoc.IH [OF run] show ?case using calls_counted_step [OF _ last_step] by blast
qed

lemma protocol_free:
  assumes "protocol_run h ld ul (before @ TriedFree a r # later) protocol_start = Some s"
  shows "a = h \<and> count_list before GuardEntered = count_list before GuardLeft \<and>
    GuardEntered \<notin> set later \<and>
    ((\<exists>b. CalledLoad b \<in> set before) \<longrightarrow>
       RanCleanup True \<in> set before \<and> (ul \<noteq> 0 \<longrightarrow> CalledUnload ul \<in> set before)) \<and>
    (r \<noteq> FreeRefused \<longrightarrow> later = [])"
proof -
  obtain s1 s2 where run: "protocol_run h ld ul before protocol_start = Some s1"
    and free: "protocol_step h ld ul (TriedFree a r) s1 = Some s2"
    and rest: "protocol_run h ld ul later s2 = Some s"
    using assms by (auto simp: protocol_run_append split: bind_splits)
  have s2: "np_sealed s2" "np_guards s2 = 0" "np_guards s1 = 0" "a = h"
    "np_phase s1 = Mapped \<or> np_cleaned s1 \<and> callbacks_over ul s1"
    "r \<noteq> FreeRefused \<longrightarrow> np_phase s2 = Gone"
    using free by (auto split: if_splits)
  have "GuardEntered \<notin> set later" using protocol_sealed_quiet [OF rest] s2 by blast
  moreover have "r \<noteq> FreeRefused \<longrightarrow> later = []" using protocol_gone_ends [OF rest] s2 by blast
  ultimately show ?thesis using calls_counted_run [OF run] s2
    by (auto simp: calls_counted_def callbacks_over_def split: if_splits)
qed

lemma protocol_load_once:
  "protocol_run h ld ul calls s = Some s' \<Longrightarrow>
   count_list calls (CalledLoad a) \<le> (if np_phase s = Mapped then 1 else 0)"
proof (induction calls arbitrary: s)
  case (Cons c cs)
  from Cons.prems obtain s1 where "protocol_step h ld ul c s = Some s1"
    and "protocol_run h ld ul cs s1 = Some s'" by (auto split: bind_splits)
  with Cons.IH [of s1] show ?case by (cases c) (auto split: if_splits)
qed simp

lemma protocol_unload_once:
  "protocol_run h ld ul calls s = Some s' \<Longrightarrow>
   count_list calls (CalledUnload a) \<le> (if np_phase s \<in> {Mapped, Running} then 1 else 0)"
proof (induction calls arbitrary: s)
  case (Cons c cs)
  from Cons.prems obtain s1 where "protocol_step h ld ul c s = Some s1"
    and "protocol_run h ld ul cs s1 = Some s'" by (auto split: bind_splits)
  with Cons.IH [of s1] show ?case by (cases c) (auto split: if_splits)
qed simp

section \<open>Loading\<close>

lemma query_trace: "query f w = (w', r) \<Longrightarrow> nw_trace w' = nw_trace w"
  by (auto simp: query_def split: prod.splits)

lemma validate_code_trace:
  "validate_code_address P h b a kind w = (w', r) \<Longrightarrow> nw_trace w' = nw_trace w"
  by (auto simp: validate_code_address_def try_then_def Let_def dest!: query_trace
      split: if_splits prod.splits sum.splits)

text \<open>What inspection may call, and what it hands over when it accepts.\<close>

definition inspected ::
  "usize \<Rightarrow> native_call list \<Rightarrow> 'p native_world \<times> (load_error + 'p addon_module) \<Rightarrow> bool"
where
  "inspected h trace x \<longleftrightarrow>
     (case snd x of
        Inl e \<Rightarrow> nw_trace (fst x) = trace \<or> (\<exists>a. nw_trace (fst x) = trace @ [CalledExport a])
      | Inr m \<Rightarrow> am_handle m = Some h \<and> am_gate m = gate_open \<and> am_state m = ModInspected \<and>
                 am_release_on_drop m \<and> (\<exists>a. nw_trace (fst x) = trace @ [CalledExport a]))"

lemma try_then_inspected:
  assumes "nw_trace (fst x) = trace \<or> (\<exists>a. nw_trace (fst x) = trace @ [CalledExport a])"
    and "\<And>w a. x = (w, Inr a) \<Longrightarrow> inspected h trace (f a w)"
  shows "inspected h trace (try_then x f)"
  using assms by (cases x; cases "snd x") (auto simp: try_then_def inspected_def)

lemma accept_definition_inspected:
  assumes "nw_trace w = trace @ [CalledExport a]"
  shows "inspected h trace (accept_definition P limits h img pointer w)"
  unfolding accept_definition_def
proof (intro try_then_inspected)
  fix w1 w2 w3 w4 w5 d owned u1 u2 u3
  assume steps: "(w, copy_definition P img pointer (nw_state w)) = (w1, Inr d)"
    "(w1, validate_live img (nw_state w1) d limits) = (w2, Inr owned)"
    "(w2, if ab_load d = 0 then Inl (DefinitionRejected IssueMissingLoad) else Inr ()) = (w3, Inr u1)"
  then have w3: "w3 = w" by auto
  show "nw_trace (fst (validate_code_address P h (mi_bounds img) (ab_load d) LoadCallback w3)) = trace \<or>
    (\<exists>a. nw_trace (fst (validate_code_address P h (mi_bounds img) (ab_load d) LoadCallback w3)) =
      trace @ [CalledExport a])"
    using validate_code_trace [OF prod.collapse [symmetric], of P h _ "ab_load d" LoadCallback w3] assms w3
    by auto
  assume checked: "validate_code_address P h (mi_bounds img) (ab_load d) LoadCallback w3 = (w4, Inr u2)"
  have w4: "nw_trace w4 = trace @ [CalledExport a]"
    using validate_code_trace [OF checked] assms w3 by simp
  let ?last = "if ab_unload d = 0 then (w4, Inr ())
     else validate_code_address P h (mi_bounds img) (ab_unload d) UnloadCallback w4"
  have last_trace: "nw_trace (fst ?last) = trace @ [CalledExport a]"
    using validate_code_trace [OF prod.collapse [symmetric], of P h _ "ab_unload d" UnloadCallback w4] w4
    by auto
  then show "nw_trace (fst ?last) = trace \<or> (\<exists>a. nw_trace (fst ?last) = trace @ [CalledExport a])"
    by blast
  assume "?last = (w5, Inr u3)"
  then show "inspected h trace (w5, Inr \<lparr>am_handle = Some h, am_image = img, am_definition = d,
      am_owned = owned, am_load = ab_load d, am_unload = ab_unload d, am_gate = gate_open,
      am_state = ModInspected, am_release_on_drop = True\<rparr>)"
    using last_trace by (simp add: inspected_def)
qed (use assms in auto)

lemma inspect_library_inspected: "inspected h (nw_trace w) (inspect_library P limits h w)"
proof -
  obtain w1 r1 where q1: "query (lp_module_image P h) w = (w1, r1)" by fastforce
  obtain w2 r2 where q2: "query (lp_resolve_export P h) w1 = (w2, r2)" by fastforce
  have t1: "nw_trace w1 = nw_trace w" and t2: "nw_trace w2 = nw_trace w"
    using query_trace [OF q1] query_trace [OF q2] by simp_all
  show ?thesis
    unfolding inspect_library_def q1 Let_def prod.case
  proof (rule try_then_inspected)
    fix w1' img assume "(w1, contained AtInspectImage InspectImage r1) = (w1', Inr img)"
    then have w1': "w1' = w1" by simp
    show "inspected h (nw_trace w) (case query (lp_resolve_export P h) w1' of (w, r) \<Rightarrow>
      try_then (w, contained AtResolveExport ResolveDefinitionExport r) (\<lambda>export w.
      try_then (validate_code_address P h (mi_bounds img) export DefinitionExport w) (\<lambda>_ w.
        case native_call_export P export w of (w, r) \<Rightarrow>
        try_then (w, case r of None \<Rightarrow> Inl (LoadPanic AtDefinitionExport) | Some a \<Rightarrow> Inr a)
          (\<lambda>pointer w. accept_definition P limits h img pointer w))))"
      unfolding w1' q2 prod.case
    proof (intro try_then_inspected)
      fix w2' export assume "(w2, contained AtResolveExport ResolveDefinitionExport r2) = (w2', Inr export)"
      then have w2': "w2' = w2" by simp
      let ?v = "validate_code_address P h (mi_bounds img) export DefinitionExport w2'"
      have v: "nw_trace (fst ?v) = nw_trace w"
        using validate_code_trace [OF prod.collapse [symmetric], of P h _ export DefinitionExport w2'] w2' t2
        by auto
      then show "nw_trace (fst ?v) = nw_trace w \<or> (\<exists>a. nw_trace (fst ?v) = nw_trace w @ [CalledExport a])"
        by blast
      fix w3 u assume "?v = (w3, Inr u)"
      with v have w3: "nw_trace w3 = nw_trace w" by simp
      obtain w4 r4 where c: "native_call_export P export w3 = (w4, r4)" by fastforce
      have w4: "nw_trace w4 = nw_trace w @ [CalledExport export]"
        using query_trace [OF c [unfolded native_call_export_def]] w3 by (simp add: record_call_def)
      show "inspected h (nw_trace w) (case native_call_export P export w3 of (w, r) \<Rightarrow>
        try_then (w, case r of None \<Rightarrow> Inl (LoadPanic AtDefinitionExport) | Some a \<Rightarrow> Inr a)
          (\<lambda>pointer w. accept_definition P limits h img pointer w))"
        unfolding c prod.case
        by (rule try_then_inspected) (use w4 in \<open>auto intro: accept_definition_inspected\<close>)
    qed (use t2 in simp)
  qed (use t1 in simp)
qed

section \<open>Properties\<close>

lemma load_absolute_traced:
  "case load_absolute P path limits w of
     (w', Inl e) \<Rightarrow>
       nw_trace w' = nw_trace w \<or>
       (\<exists>h calls f. nw_trace w' = nw_trace w @ LoadedLibrary h # calls @ [TriedFree h f] \<and>
          (calls = [] \<or> (\<exists>a. calls = [CalledExport a])))
   | (w', Inr m) \<Rightarrow>
       \<exists>h a. nw_trace w' = nw_trace w @ [LoadedLibrary h, CalledExport a] \<and>
         am_handle m = Some h \<and> am_state m = ModInspected \<and> am_gate m = gate_open \<and>
         am_release_on_drop m"
proof -
  obtain w1 r1 where q: "query (lp_load_library P path) w = (w1, r1)" by fastforce
  note t = query_trace [OF q]
  show ?thesis
  proof (cases "\<exists>h. r1 = Some (Inr h)")
    case False
    then show ?thesis using t q
      by (auto simp: load_absolute_def native_load_library_def contained_def try_then_def
          split: option.splits sum.splits)
  next
    case True
    then obtain h where h: "r1 = Some (Inr h)" by blast
    define w2 where "w2 = record_call (LoadedLibrary h) w1"
    obtain w3 r3 where i: "inspect_library P limits h w2 = (w3, r3)" by fastforce
    have ins: "inspected h (nw_trace w @ [LoadedLibrary h]) (w3, r3)"
      using inspect_library_inspected [of h w2 P limits] i t by (simp add: w2_def record_call_def)
    show ?thesis
    proof (cases r3)
      case (Inr m)
      then show ?thesis using ins i q h
        by (auto simp: load_absolute_def native_load_library_def contained_def try_then_def
            w2_def [symmetric] inspected_def)
    next
      case (Inl e)
      obtain w4 f where free: "native_free_library P h w3 = (w4, f)" by fastforce
      then have w4: "nw_trace w4 = nw_trace w3 @ [TriedFree h (free_outcome f)]"
        by (auto simp: native_free_library_def record_call_def dest!: query_trace split: prod.splits)
      have "load_absolute P path limits w = (w4, Inl e)"
        using i q h Inl free
        by (simp add: load_absolute_def native_load_library_def contained_def try_then_def
            w2_def [symmetric])
      moreover have "nw_trace w3 = nw_trace w @ LoadedLibrary h # [] \<or>
          (\<exists>a. nw_trace w3 = nw_trace w @ LoadedLibrary h # [CalledExport a])"
        using ins Inl by (simp add: inspected_def)
      ultimately show ?thesis using w4 by fastforce
    qed
  qed
qed

text \<open>After its load every module starts the protocol.\<close>

lemma loaded_life_inv:
  assumes "load_absolute P path limits w0 = (w1, Inr m)"
  obtains h where "am_handle m = Some h"
    and "life_inv h (am_load m) (am_unload m) protocol_start
      \<lparr>ml_world = w1, ml_module = m, ml_owned = True\<rparr>"
proof -
  have "am_state m = ModInspected" "am_gate m = gate_open" "\<exists>h. am_handle m = Some h"
    using load_absolute_traced [where P = P and path = path and limits = limits and w = w0] unfolding assms by auto
  then show ?thesis using that by (auto simp: life_inv_def protocol_start_def gate_open_def)
qed

lemma module_follows_protocol:
  assumes "load_absolute P path limits w0 = (w1, Inr m)"
    and "(life_step P)\<^sup>*\<^sup>* \<lparr>ml_world = w1, ml_module = m, ml_owned = True\<rparr> l"
  shows "\<exists>h calls s. am_handle m = Some h \<and> nw_trace (ml_world l) = nw_trace w1 @ calls \<and>
    protocol_run h (am_load m) (am_unload m) calls protocol_start = Some s"
  using loaded_life_inv [OF assms(1)] life_steps_extend [OF assms(2)]
  by (metis protocol_extends_def module_life.select_convs(1))

text \<open>
  A load that fails leaves no library behind: either none was loaded, or the one that was is
  released, once and last, after at most the definition export was called. A load that succeeds
  hands over the handle it loaded, in a module that is only inspected, and has released nothing.
\<close>
theorem failed_load_releases_library:
  "case load_absolute P path limits w of
     (w', Inl e) \<Rightarrow>
       nw_trace w' = nw_trace w \<or>
       (\<exists>h calls f. nw_trace w' = nw_trace w @ LoadedLibrary h # calls @ [TriedFree h f] \<and>
          (calls = [] \<or> (\<exists>a. calls = [CalledExport a])))
   | (w', Inr m) \<Rightarrow>
       \<exists>h a. nw_trace w' = nw_trace w @ [LoadedLibrary h, CalledExport a] \<and>
         am_handle m = Some h \<and> am_state m = ModInspected \<and> am_gate m = gate_open \<and>
         am_release_on_drop m"
  by (rule load_absolute_traced)

text \<open>
  C31.
  The library of a loaded module is released only when its callbacks are over: at every attempt
  each guard that entered its gate has left and none enters again, and if its load callback ran
  the host's cleanup has succeeded after the unload callback it has, if any. A release that
  happened, or of which it is unknown whether it happened, is the last call for that module;
  so the library is released at most once, in every history, whatever the platform answers.
\<close>
theorem module_released_behind_callbacks:
  assumes "load_absolute P path limits w0 = (w1, Inr m)"
    and "(life_step P)\<^sup>*\<^sup>* \<lparr>ml_world = w1, ml_module = m, ml_owned = True\<rparr> l"
    and "nw_trace (ml_world l) = nw_trace w1 @ before @ TriedFree a r # later"
  shows "am_handle m = Some a \<and>
    count_list before GuardEntered = count_list before GuardLeft \<and> GuardEntered \<notin> set later \<and>
    ((\<exists>b. CalledLoad b \<in> set before) \<longrightarrow>
       RanCleanup True \<in> set before \<and>
       (am_unload m \<noteq> 0 \<longrightarrow> CalledUnload (am_unload m) \<in> set before)) \<and>
    (r \<noteq> FreeRefused \<longrightarrow> later = [])"
proof -
  obtain h s where h: "am_handle m = Some h" and
    run: "protocol_run h (am_load m) (am_unload m) (before @ TriedFree a r # later) protocol_start = Some s"
    using module_follows_protocol [OF assms(1,2)] assms(3) by auto
  from protocol_free [OF run] h show ?thesis by simp
qed

definition demo_bounds :: module_bounds where
  "demo_bounds = \<lparr>mb_base = 4096, mb_size = 4096, mb_end = 8192\<rparr>"

definition demo_abi :: abi_definition where
  "demo_abi = \<lparr>ab_fields = demo_definition\<lparr>rd_name := 4200, rd_author := 4201,
     rd_description := 4202, rd_update_link := 0\<rparr>, ab_load = 4097, ab_unload = 4098\<rparr>"

definition demo_platform :: "unit loader_platform" where
  "demo_platform =
     \<lparr>lp_load_library = (\<lambda>path p. (p, Some (Inr 7))),
      lp_module_image = (\<lambda>h p. (p, Some (Inr \<lparr>mi_bounds = demo_bounds,
        mi_memory = (\<lambda>p a n. Some (Inr (replicate (unat n) 0)))\<rparr>))),
      lp_resolve_export = (\<lambda>h p. (p, Some (Inr 4096))),
      lp_is_executable = (\<lambda>h a p. (p, Some (Inr True))),
      lp_free_library = (\<lambda>h p. (p, Some (Inr ()))),
      lp_call_export = (\<lambda>a p. (p, Some 4104)),
      lp_call_load = (\<lambda>a api p. (p, Some ())),
      lp_call_unload = (\<lambda>a p. (p, Some ())),
      lp_read_definition = (\<lambda>a p. demo_abi)\<rparr>"

definition demo_path :: dll_path where
  "demo_path = \<lparr>dp_text = ''C:/a.dll'', dp_absolute = True, dp_parent = Some ''C:/'',
     dp_file_name = Some ''a.dll'', dp_extension = Some ''dll''\<rparr>"

definition demo_world :: "unit native_world" where
  "demo_world = \<lparr>nw_state = (), nw_trace = []\<rparr>"

definition demo_image :: "unit module_image" where
  "demo_image = \<lparr>mi_bounds = demo_bounds, mi_memory = (\<lambda>p a n. Some (Inr (replicate (unat n) 0)))\<rparr>"

definition demo_reader :: module_memory where
  "demo_reader = (\<lambda>a n.
     case image_read demo_image () a n of
       None \<Rightarrow> Inl unwound_read
     | Some (Inl e) \<Rightarrow> Inl ''failed''
     | Some (Inr bytes) \<Rightarrow> Inr bytes)"

lemma position_zeros: "0 < n \<Longrightarrow> position (\<lambda>b. b = 0) (replicate n (0 :: u8)) = Some 0"
  by (cases n) simp_all

lemma demo_copy:
  assumes "4096 \<le> a" and "a < 5000"
  shows "copy_at demo_reader a f metadata_limits_default = Inr []"
proof -
  let ?n = "for_field f metadata_limits_default + 1"
  have cap: "cap_read a ?n demo_bounds = Some (min ?n (8192 - a))" and "a \<noteq> 0"
    using assms by (auto simp: cap_read_def contains_address_def demo_bounds_def word_le_nat_alt word_less_nat_alt)
  have "unat (8192 - a) = 8192 - unat a" using assms
    by (subst unat_sub) (auto simp: word_le_nat_alt word_less_nat_alt)
  then have pos: "0 < unat (min ?n (8192 - a))" "unat (min ?n (8192 - a)) \<le> unat ?n"
    using assms by (cases f; auto simp: metadata_limits_default_def min_def word_le_nat_alt word_less_nat_alt)+
  have "demo_reader a ?n = Inr (replicate (unat (min ?n (8192 - a))) 0)"
    using \<open>a \<noteq> 0\<close> cap by (simp add: demo_reader_def image_read_def demo_image_def)
  then show ?thesis using pos by (simp add: copy_at_def Let_def position_zeros)
qed

lemma demo_copied:
  "\<exists>owned. validate_live demo_image () demo_abi metadata_limits_default = Inr owned"
proof -
  have "\<exists>owned. validate_and_copy_definition (Inr (definition_view demo_abi, demo_reader))
      metadata_limits_default = Inr owned"
    by (simp add: validate_and_copy_definition_def definition_view_def demo_abi_def demo_definition_def
        api_revision_try_from_def copy_required_def copy_optional_def demo_copy)
  then show ?thesis by (auto simp: validate_live_def live_view_def demo_reader_def [symmetric])
qed

lemma demo_load:
  obtains m where "load_absolute demo_platform demo_path metadata_limits_default demo_world =
     (\<lparr>nw_state = (), nw_trace = [LoadedLibrary 7, CalledExport 4096]\<rparr>, Inr m)"
    and "am_state m = ModInspected" and "am_handle m = Some 7" and "am_gate m = gate_open"
    and "am_load m = 4097" and "am_unload m = 4098"
proof -
  obtain owned where v: "validate_live demo_image () demo_abi metadata_limits_default = Inr owned"
    using demo_copied by blast
  have parts: "ab_load demo_abi = 4097" "ab_unload demo_abi = 4098" "mi_bounds demo_image = demo_bounds"
    by (simp_all add: demo_abi_def demo_image_def)
  have code: "validate_code_address demo_platform 7 demo_bounds a kind w = (w, Inr ())"
    if "4096 \<le> a" "a < 8192" for a kind w
    using that by (auto simp: validate_code_address_def contains_address_def demo_bounds_def query_def
        demo_platform_def contained_def try_then_def)
  have copied: "copy_definition demo_platform demo_image 4104 () = Inr demo_abi"
    by (simp add: copy_definition_def abi_definition_align_def abi_definition_size_def
        contains_range_def checked_add_def demo_image_def demo_bounds_def image_read_def cap_read_def
        contains_address_def demo_platform_def)
  have accepted: "accept_definition demo_platform metadata_limits_default 7 demo_image 4104 w =
      (w, Inr \<lparr>am_handle = Some 7, am_image = demo_image, am_definition = demo_abi, am_owned = owned,
         am_load = 4097, am_unload = 4098, am_gate = gate_open, am_state = ModInspected,
         am_release_on_drop = True\<rparr>)" for w
    by (simp add: accept_definition_def try_then_def copied v code parts)
  have calls: "lp_load_library demo_platform path p = (p, Some (Inr 7))"
    "lp_module_image demo_platform h p = (p, Some (Inr demo_image))"
    "lp_resolve_export demo_platform h p = (p, Some (Inr 4096))"
    "lp_call_export demo_platform b p = (p, Some 4104)" for path h b p
    by (simp_all add: demo_platform_def demo_image_def)
  show ?thesis
    by (rule that [of "\<lparr>am_handle = Some 7, am_image = demo_image, am_definition = demo_abi,
         am_owned = owned, am_load = 4097, am_unload = 4098, am_gate = gate_open,
         am_state = ModInspected, am_release_on_drop = True\<rparr>"])
      (simp_all add: load_absolute_def native_load_library_def inspect_library_def query_def
        native_call_export_def record_call_def contained_def try_then_def accepted calls code parts demo_world_def)
qed

theorem module_released_behind_callbacks_witness:
  "\<exists>(m :: unit addon_module) (l :: unit module_life). nw_trace (ml_world l) = [LoadedLibrary 7, CalledExport 4096, CalledLoad 4097,
       CalledUnload 4098, RanCleanup True, TriedFree 7 FreeDone] \<and> am_handle m = Some 7"
proof -
  obtain m where load: "load_absolute demo_platform demo_path metadata_limits_default demo_world =
     (\<lparr>nw_state = (), nw_trace = [LoadedLibrary 7, CalledExport 4096]\<rparr>, Inr m)"
    and m: "am_state m = ModInspected" "am_handle m = Some 7" "am_gate m = gate_open"
      "am_load m = 4097" "am_unload m = 4098" by (rule demo_load)
  define w where "w calls = \<lparr>nw_state = (), nw_trace = LoadedLibrary 7 # CalledExport 4096 # calls\<rparr>"
    for calls
  define at where "at calls m owned = \<lparr>ml_world = w calls, ml_module = m, ml_owned = owned\<rparr>"
    for calls owned and m :: "unit addon_module"
  define m1 where "m1 = m\<lparr>am_state := ModActive\<rparr>"
  define shut where "shut = \<lparr>accepting = False, in_flight = 0\<rparr>"
  define m2 where "m2 st = m\<lparr>am_gate := shut, am_state := st\<rparr>" for st
  have 1: "life_step demo_platform (at [] m True) (at [CalledLoad 4097] m1 True)"
    unfolding at_def by (rule life_activate [where api = V1 and r = "Inr ()"])
      (simp add: mod_activate_def m gate_try_enter_def gate_open_def gate_leave_def w_def m1_def
        native_call_load_def query_def record_call_def demo_platform_def)
  have 2: "life_step demo_platform (at [CalledLoad 4097] m1 True)
      (at [CalledLoad 4097] (m2 ModShutdownRequested) True)"
    unfolding at_def by (rule life_shutdown [where r = "Inr ()"])
      (simp add: mod_request_shutdown_def m m1_def m2_def shut_def mod_close_gate_def gate_close_def
        gate_open_def)
  have 3: "life_step demo_platform (at [CalledLoad 4097] (m2 ModShutdownRequested) True)
      (at [CalledLoad 4097] (m2 ModQuiesced) True)"
    using life_wait [of 0 "[]" "m2 ModShutdownRequested" "m2 ModQuiesced" "Some (Inr ())" demo_platform
        "w [CalledLoad 4097]"]
    by (simp add: at_def mod_wait_for_callbacks_def m2_def shut_def gate_wait_def record_leaves_def)
  have 4: "life_step demo_platform (at [CalledLoad 4097] (m2 ModQuiesced) True)
      (at [CalledLoad 4097, CalledUnload 4098] (m2 ModUnloadComplete) True)"
    unfolding at_def by (rule life_unload [where r = "Inr ()"])
      (simp add: mod_invoke_unload_def m m2_def w_def native_call_unload_def query_def record_call_def
        demo_platform_def)
  have 5: "life_step demo_platform (at [CalledLoad 4097, CalledUnload 4098] (m2 ModUnloadComplete) True)
      (at [CalledLoad 4097, CalledUnload 4098, RanCleanup True] (m2 ModCleanupComplete) True)"
    unfolding at_def by (rule life_cleanup [where r = "Inr ()" and answer = CleanupOk])
      (simp add: mod_complete_cleanup_def m2_def w_def record_call_def)
  let ?gone = "(m2 ModReleased)\<lparr>am_handle := None\<rparr>"
  have 6: "life_step demo_platform
      (at [CalledLoad 4097, CalledUnload 4098, RanCleanup True] (m2 ModCleanupComplete) True)
      (at [CalledLoad 4097, CalledUnload 4098, RanCleanup True, TriedFree 7 FreeDone] ?gone False)"
    using life_release [of demo_platform "m2 ModCleanupComplete"
        "w [CalledLoad 4097, CalledUnload 4098, RanCleanup True]"
        "w [CalledLoad 4097, CalledUnload 4098, RanCleanup True, TriedFree 7 FreeDone]" ?gone "Inr ()"]
    by (simp add: at_def mod_release_def m m2_def shut_def w_def native_free_library_def query_def
        record_call_def free_outcome_def demo_platform_def)
  let ?l = "at [CalledLoad 4097, CalledUnload 4098, RanCleanup True, TriedFree 7 FreeDone] ?gone False"
  have run: "(life_step demo_platform)\<^sup>*\<^sup>* (at [] m True) ?l"
    using 1 2 3 4 5 6 by (meson converse_rtranclp_into_rtranclp rtranclp.rtrancl_refl)
  have trace: "nw_trace (ml_world ?l) = [LoadedLibrary 7, CalledExport 4096, CalledLoad 4097,
       CalledUnload 4098, RanCleanup True, TriedFree 7 FreeDone]"
    by (simp add: at_def w_def)
  have "am_handle m = Some 7"
    using module_released_behind_callbacks [OF load run [unfolded at_def w_def],
        of "[CalledLoad 4097, CalledUnload 4098, RanCleanup True]" 7 FreeDone "[]"]
    by simp
  with trace show ?thesis by blast
qed

end
