(* ===== verification/Manager_Logic.thy ===== *)
theory Manager_Logic
  imports Addon_Operations Addon_Directory Addon_Module_Life
begin

text \<open>
  Reasoning about the operations of the addon manager: what holds after a sequence of steps that
  may stop early, the steps that leave entries and native calls alone, and how many libraries the
  entries hold.
\<close>

section \<open>Sequences that may stop early\<close>

definition runs ::
  "('s \<Rightarrow> bool) \<Rightarrow> ('s \<Rightarrow> 's \<times> 'a outcome) \<Rightarrow> ('a \<Rightarrow> 's \<Rightarrow> bool) \<Rightarrow> ('s \<Rightarrow> bool) \<Rightarrow> bool"
where
  "runs P f Q E \<longleftrightarrow>
     (\<forall>s. P s \<longrightarrow> (case snd (f s) of Done a \<Rightarrow> Q a (fst (f s)) | _ \<Rightarrow> E (fst (f s))))"

lemma runsI:
  "(\<And>s. P s \<Longrightarrow> case snd (f s) of Done a \<Rightarrow> Q a (fst (f s)) | _ \<Rightarrow> E (fst (f s))) \<Longrightarrow> runs P f Q E"
  by (simp add: runs_def)

lemma runsD: "runs P f Q E \<Longrightarrow> P s \<Longrightarrow> f s = (s', Done a) \<Longrightarrow> Q a s'"
  by (force simp: runs_def)

lemma runs_end: "runs P f (\<lambda>_. Q) Q \<Longrightarrow> P s \<Longrightarrow> Q (fst (f s))"
  by (cases "snd (f s)") (force simp: runs_def)+

named_theorems runs_rules

lemma runs_then [runs_rules]:
  assumes "runs P f Q E" and "\<And>a. runs (Q a) (g a) R E"
  shows "runs P (then_do f g) R E"
proof (rule runsI)
  fix s
  assume P: "P s"
  obtain s' r where f: "f s = (s', r)" by fastforce
  show "case snd (then_do f g s) of Done a \<Rightarrow> R a (fst (then_do f g s)) | _ \<Rightarrow> E (fst (then_do f g s))"
  proof (cases r)
    case (Done a)
    then have "Q a s'" using assms(1) P f by (auto simp: runs_def dest!: spec [of _ s])
    moreover have step: "then_do f g s = g a s'" using f Done by (simp add: then_do_def)
    ultimately show ?thesis unfolding step using assms(2) [of a] by (simp add: runs_def)
  qed (use assms(1) P f in \<open>auto simp: runs_def then_do_def dest!: spec [of _ s]\<close>)
qed

lemma runs_weaken:
  assumes "runs P f Q E" and "\<And>s. P' s \<Longrightarrow> P s" and "\<And>a s. Q a s \<Longrightarrow> Q' a s" and "\<And>s. E s \<Longrightarrow> E' s"
  shows "runs P' f Q' E'"
  using assms unfolding runs_def by (fastforce split: outcome.splits)

lemma runs_give [runs_rules]: "(\<And>s. P s \<Longrightarrow> Q a s) \<Longrightarrow> runs P (give a) Q E"
  by (simp add: runs_def give_def)

lemma runs_fail [runs_rules]: "(\<And>s. P s \<Longrightarrow> E s) \<Longrightarrow> runs P (fail_with e) Q E"
  by (simp add: runs_def fail_with_def)

lemma runs_if: "(b \<Longrightarrow> runs P f Q E) \<Longrightarrow> (\<not> b \<Longrightarrow> runs P g Q E) \<Longrightarrow> runs P (if b then f else g) Q E"
  by simp

lemma runs_require: "(\<And>s. P s \<Longrightarrow> E s) \<Longrightarrow> runs P (require b e) (\<lambda>_ s. P s \<and> b) E"
  by (simp add: runs_def require_def)

section \<open>Steps that touch no entry and call no native code\<close>

definition native_view ::
  "('p, 'c, 'j) manager \<Rightarrow>
   string \<times> (string, 'p entry) btree \<times> native_call list \<times> (owner_token \<Rightarrow> string option)"
where
  "native_view g = (mg_directory g, mg_entries g, nw_trace (mg_native g), mg_owner_paths g)"

definition quiet :: "('p, 'c, 'j, 'a) operation \<Rightarrow> bool" where
  "quiet f \<longleftrightarrow> (\<forall>g. native_view (fst (f g)) = native_view g)"

lemma quietD: "quiet f \<Longrightarrow> native_view (fst (f g)) = native_view g"
  by (simp add: quiet_def)

named_theorems quiet_steps

lemma quiet_then [quiet_steps]: "quiet f \<Longrightarrow> (\<And>a. quiet (k a)) \<Longrightarrow> quiet (then_do f k)"
  unfolding quiet_def then_do_def by (simp split: prod.splits outcome.splits) (metis fst_conv)

lemma quiet_give [quiet_steps]: "quiet (give a)" by (simp add: quiet_def give_def)

lemma quiet_fail [quiet_steps]: "quiet (fail_with e)" by (simp add: quiet_def fail_with_def)

lemma quiet_require [quiet_steps]: "quiet (require b e)" by (simp add: quiet_def require_def)

lemma quiet_answer [quiet_steps]: "quiet (\<lambda>g. (g, f g))" by (simp add: quiet_def)

lemma quiet_change:
  "(\<And>g. native_view (f g) = native_view g) \<Longrightarrow> quiet (change f)"
  by (simp add: quiet_def change_def)

lemma quiet_emit [quiet_steps]: "quiet (emit severity code owner)"
  unfolding emit_def by (rule quiet_change) (simp add: native_view_def)

lemma quiet_emit_release [quiet_steps]: "quiet (emit_release_failure owner retryable)"
  unfolding emit_release_failure_def by (rule quiet_emit)

lemma quiet_owner_key [quiet_steps]: "quiet (owner_key owner)"
  by (simp add: quiet_def owner_key_def)

lemma quiet_entry_at [quiet_steps]: "quiet (entry_at key)"
  by (simp add: quiet_def entry_at_def)

lemma quiet_host_op [quiet_steps]: "quiet (host_op f)"
  by (auto simp: quiet_def native_view_def host_op_def Let_def split: prod.splits)

lemma quiet_host_try [quiet_steps]: "quiet (host_try f)"
  unfolding host_try_def by (intro quiet_steps)

lemma quiet_close [quiet_steps]: "quiet (close_ownership owner)"
  unfolding close_ownership_def by (rule quiet_change) (simp add: native_view_def Let_def split: prod.splits)

lemma quiet_retire [quiet_steps]: "quiet (retire_ownership owner)"
  unfolding retire_ownership_def by (rule quiet_change) (simp add: native_view_def)

lemma emit_fail_view: "native_view (fst (then_do (emit s c ow) (\<lambda>_. fail_with e) g)) = native_view g"
  by (intro quietD quiet_steps)

lemma quiet_direct_cleanup [quiet_steps]: "quiet (run_direct_cleanup A owner phase)"
  unfolding quiet_def run_direct_cleanup_def
  by (auto simp: Let_def emit_fail_view split: prod.splits sum.splits) (simp_all add: native_view_def)

lemma quiet_change_config [quiet_steps]: "quiet (change_config sig f)"
  by (auto simp: quiet_def native_view_def change_config_def Let_def split: prod.splits)

lemma quiet_register [quiet_steps]: "quiet (config_for_or_register sig)"
  using quiet_change_config unfolding quiet_def config_for_or_register_def
  by (auto split: config_access.splits)

lemma quiet_after_enable [quiet_steps]: "quiet (policy_after_enable summary revision request config)"
  by (auto simp: quiet_def native_view_def policy_after_enable_def Let_def)

lemma quiet_policy [quiet_steps]: "quiet (activation_policy summary revision request)"
  unfolding activation_policy_def
  by (rule quiet_then [OF quiet_register])
    (auto simp: quiet_def quietD [OF quiet_after_enable] split: config_access.splits)

lemma quiet_resolve [quiet_steps]: "quiet (resolve_range A m)"
  unfolding resolve_range_def
  by (cases "ad_resolve A m") (simp_all, intro quiet_steps, simp add: quiet_def)

lemma quiet_record_activation [quiet_steps]: "quiet (record_activation summary)"
proof -
  have "quiet (then_do (change_config (ds_signature summary) f) (\<lambda>_. give ()))" for f
    by (intro quiet_steps)
  then show ?thesis by (auto simp: quiet_def record_activation_def)
qed

lemma quiet_drain_host [quiet_steps]: "quiet (drain_host A owner timeout script)"
  unfolding quiet_def drain_host_def
  by (auto simp: Let_def emit_fail_view split: prod.splits sum.splits option.splits host_error.splits)
    (simp_all add: native_view_def)

lemma quiet_wait_host [quiet_steps]: "quiet (wait_host_gate owner timeout script)"
  by (auto simp: quiet_def native_view_def wait_host_gate_def Let_def
      split: prod.splits sum.splits option.splits bool.splits)

section \<open>The loop before the drain\<close>

lemma direct_cleanup_returns_step: "run_direct_cleanup A owner phase g \<noteq> (g', Waiting)"
  by (auto simp: run_direct_cleanup_def Let_def then_do_def emit_def change_def fail_with_def
      split: prod.splits sum.splits)

lemma direct_cleanup_enough:
  assumes "\<And>e. map_of (mg_entries g) key = Some e \<Longrightarrow> pre_drain_count - en_failed_cursor e < turns"
    and "0 < turns"
  shows "direct_cleanup_loop (turns + n) A key owner g = direct_cleanup_loop turns A key owner g \<and>
    snd (direct_cleanup_loop turns A key owner g) \<noteq> Waiting"
  using assms
proof (induction turns arbitrary: g)
  case (Suc turns)
  show ?case
  proof (cases "map_of (mg_entries g) key")
    case None
    then show ?thesis by (simp add: then_do_def entry_at_def)
  next
    case (Some e)
    show ?thesis
    proof (cases "en_failed_cursor e < pre_drain_count")
      case False
      then show ?thesis using Some by (simp add: then_do_def entry_at_def give_def)
    next
      case True
      obtain g1 r where run: "run_direct_cleanup A owner (cleanup_order ! en_failed_cursor e) g = (g1, r)"
        by fastforce
      then have same: "mg_entries g1 = mg_entries g"
        using quietD [OF quiet_direct_cleanup, of A owner "cleanup_order ! en_failed_cursor e" g]
        by (simp add: native_view_def)
      define g2 where "g2 = g1\<lparr>mg_entries := bt_update key (\<lambda>e. e\<lparr>en_failed_cursor := en_failed_cursor e + 1\<rparr>) (mg_entries g1)\<rparr>"
      have step: "direct_cleanup_loop (Suc k) A key owner g =
          (case r of Done u \<Rightarrow> direct_cleanup_loop k A key owner g2 | Failed x \<Rightarrow> (g1, Failed x) | Waiting \<Rightarrow> (g1, Waiting))" for k
        using Some True run same
        by (simp add: then_do_def entry_at_def change_at_def g2_def split: outcome.splits)
      show ?thesis
      proof (cases r)
        case (Done u)
        have "direct_cleanup_loop (turns + n) A key owner g2 = direct_cleanup_loop turns A key owner g2 \<and>
            snd (direct_cleanup_loop turns A key owner g2) \<noteq> Waiting"
        proof (rule Suc.IH)
          show "pre_drain_count - en_failed_cursor e' < turns" if "map_of (mg_entries g2) key = Some e'" for e'
            using that Suc.prems(1) [OF Some] Some same True by (auto simp: g2_def)
          show "0 < turns" using Suc.prems(1) [OF Some] True by simp
        qed
        then show ?thesis using Done by (simp add: step del: direct_cleanup_loop.simps)
      next
        case (Failed x)
        then show ?thesis by (simp add: step del: direct_cleanup_loop.simps)
      next
        case Waiting
        then show ?thesis using run direct_cleanup_returns_step by blast
      qed
    qed
  qed
qed simp

text \<open>
  C40.
  The loop over the cleanup phases before the drain comes to its end: within three turns it has
  succeeded or failed, from every state of the manager and with every cleaner, and further turns
  change nothing.
\<close>
theorem direct_cleanup_terminates:
  "direct_cleanup_loop (3 + n) A key owner g = direct_cleanup_loop 3 A key owner g \<and>
   snd (direct_cleanup_loop 3 A key owner g) \<noteq> Waiting"
  by (rule direct_cleanup_enough) (simp_all add: pre_drain_count_def less_Suc_eq_le)

end
