(* ===== verification/Manager_Accounts.thy ===== *)
theory Manager_Accounts
  imports Manager_Logic
begin

text \<open>
  The accounts of the addon manager: between its operations and at every early end of one, the
  libraries loaded are exactly those its entries hold and those that were released.
\<close>

section \<open>Accounts\<close>

definition module_handle :: "'p entry \<Rightarrow> usize option" where
  "module_handle e = Option.bind (en_module e) am_handle"

definition held_in :: "usize \<Rightarrow> (string, 'p entry) btree \<Rightarrow> nat" where
  "held_in h es = length (filter (\<lambda>p. module_handle (snd p) = Some h) es)"

definition released_calls :: "usize \<Rightarrow> native_call list \<Rightarrow> nat" where
  "released_calls h t = count_list t (TriedFree h FreeDone) + count_list t (TriedFree h FreeUnwound)"

definition accounted :: "usize \<Rightarrow> nat \<Rightarrow> native_call list \<Rightarrow> bool" where
  "accounted h held t \<longleftrightarrow>
     held + released_calls h t \<le> count_list t (LoadedLibrary h) \<and>
     count_list t (LoadedLibrary h) \<le>
       held + released_calls h t + count_list t (TriedFree h FreeRefused)"

definition local_held :: "usize \<Rightarrow> 'p addon_module option \<Rightarrow> nat" where
  "local_held h l = of_bool (Option.bind l am_handle = Some h)"

definition idle_empty :: "(string, 'p entry) btree \<Rightarrow> bool" where
  "idle_empty es \<longleftrightarrow> (\<forall>p \<in> set es. inspectable (en_state (snd p)) \<longrightarrow> en_module (snd p) = None)"

text \<open>The manager's books, with the module an operation holds in a local variable.\<close>

definition sound :: "'p addon_module option \<Rightarrow> ('p, 'c, 'j) manager \<Rightarrow> bool" where
  "sound l g \<longleftrightarrow>
     bt_wf (mg_entries g) \<and> idle_empty (mg_entries g) \<and>
     (\<forall>h. accounted h (held_in h (mg_entries g) + local_held h l) (nw_trace (mg_native g)))"

definition vacant :: "string \<Rightarrow> ('p, 'c, 'j) manager \<Rightarrow> bool" where
  "vacant key g \<longleftrightarrow> (\<exists>e. map_of (mg_entries g) key = Some e \<and> en_module e = None)"

definition carrying :: "string \<Rightarrow> 'p addon_module \<Rightarrow> ('p, 'c, 'j) manager \<Rightarrow> bool" where
  "carrying key m g \<longleftrightarrow> sound (Some m) g \<and> vacant key g"

definition emptied :: "string \<Rightarrow> ('p, 'c, 'j) manager \<Rightarrow> bool" where
  "emptied key g \<longleftrightarrow> sound None g \<and> vacant key g"

lemma local_held_None [simp]: "local_held h None = 0"
  by (simp add: local_held_def)

lemma sound_view: "native_view g' = native_view g \<Longrightarrow> sound l g' = sound l g"
  by (simp add: sound_def native_view_def)

lemma vacant_view: "native_view g' = native_view g \<Longrightarrow> vacant key g' = vacant key g"
  by (simp add: vacant_def native_view_def)

lemma emptied_sound: "emptied key g \<Longrightarrow> sound None g"
  by (simp add: emptied_def)

definition viewed :: "(('p, 'c, 'j) manager \<Rightarrow> bool) \<Rightarrow> bool" where
  "viewed P \<longleftrightarrow> (\<forall>g g'. native_view g' = native_view g \<longrightarrow> P g \<longrightarrow> P g')"

lemma viewed_states [simp]: "viewed (sound l)" "viewed (carrying key m)" "viewed (emptied key)"
  unfolding viewed_def carrying_def emptied_def using sound_view vacant_view by blast+

lemma runs_quiet:
  assumes "quiet f" and "viewed P" and "\<And>g. P g \<Longrightarrow> E g"
  shows "runs P f (\<lambda>_. P) E"
proof (rule runsI)
  fix g
  assume "P g"
  then have "P (fst (f g))" using assms(1,2) by (auto simp: viewed_def dest: quietD)
  then show "case snd (f g) of Done a \<Rightarrow> P (fst (f g)) | _ \<Rightarrow> E (fst (f g))"
    using assms(3) by (simp split: outcome.splits)
qed

section \<open>Updates of an entry\<close>

lemma held_update:
  assumes "bt_wf es" and "map_of es key = Some e"
  shows "held_in h (bt_update key f es) + of_bool (module_handle e = Some h) =
    held_in h es + of_bool (module_handle (f e) = Some h)"
  using bt_wf_distinct [OF assms(1)] assms(2)
proof (induction es)
  case (Cons p es)
  show ?case
  proof (cases "fst p = key")
    case True
    have "fst p \<notin> fst ` set es" using Cons.prems(1) by simp
    then have "\<forall>q \<in> set es. fst q \<noteq> key" using True by (metis image_eqI)
    then have "map (\<lambda>p. if fst p = key then (fst p, f (snd p)) else p) es = es"
      by (intro map_idI) simp
    then show ?thesis using True Cons.prems by (auto simp: bt_update_def held_in_def)
  next
    case False
    have "bt_update key f (p # es) = p # bt_update key f es" using False by (simp add: bt_update_def)
    moreover have "held_in h (p # es) = of_bool (module_handle (snd p) = Some h) + held_in h es" for es
      by (simp add: held_in_def)
    ultimately show ?thesis using Cons.IH Cons.prems False by auto
  qed
qed simp

lemma sound_update:
  assumes "sound l g" and "map_of (mg_entries g) key = Some e"
    and "inspectable (en_state (f e)) \<Longrightarrow> en_module (f e) = None"
    and "\<And>h. of_bool (module_handle (f e) = Some h) + local_held h l' =
      of_bool (module_handle e = Some h) + local_held h l"
  shows "sound l' (g\<lparr>mg_entries := bt_update key f (mg_entries g)\<rparr>)"
proof -
  have wf: "bt_wf (mg_entries g)" using assms(1) by (simp add: sound_def)
  have "held_in h (bt_update key f (mg_entries g)) + local_held h l' =
      held_in h (mg_entries g) + local_held h l" for h
    using held_update [OF wf assms(2), of h f] assms(4) [of h] by linarith
  moreover have "idle_empty (bt_update key f (mg_entries g))"
  proof -
    have "en_module (f (snd p)) = None"
      if "p \<in> set (mg_entries g)" "fst p = key" "inspectable (en_state (f (snd p)))" for p
    proof -
      have "map_of (mg_entries g) key = Some (snd p)"
        using that(1,2) map_of_eq_Some_iff [OF bt_wf_distinct [OF wf]] by (metis prod.collapse)
      then show ?thesis using that(3) assms(2,3) by simp
    qed
    then show ?thesis using assms(1) by (auto simp: idle_empty_def sound_def bt_update_def)
  qed
  ultimately show ?thesis using assms(1) wf by (simp add: sound_def)
qed

lemma runs_change_at:
  assumes "\<And>g e. P g \<Longrightarrow> map_of (mg_entries g) key = Some e \<Longrightarrow>
      Q (g\<lparr>mg_entries := bt_update key f (mg_entries g)\<rparr>)"
    and "\<And>g. P g \<Longrightarrow> map_of (mg_entries g) key = None \<Longrightarrow> E g"
  shows "runs P (change_at key f) (\<lambda>_. Q) E"
  using assms by (auto simp: runs_def change_at_def split: option.splits)

lemma runs_change_kept:
  fixes f :: "'p entry \<Rightarrow> 'p entry"
  assumes "\<And>e. en_module (f e) = en_module e \<and> (inspectable (en_state (f e)) \<longrightarrow> inspectable (en_state e))"
  shows "runs (sound None) (change_at key f :: ('p, 'c, 'j, unit) operation) (\<lambda>_. sound None) (sound None)"
proof (rule runs_change_at)
  fix g :: "('p, 'c, 'j) manager" and e
  assume s: "sound None g" and e: "map_of (mg_entries g) key = Some e"
  have "inspectable (en_state (f e)) \<Longrightarrow> en_module (f e) = None"
    using assms [of e] s map_of_SomeD [OF e] by (auto simp: sound_def idle_empty_def)
  then show "sound None (g\<lparr>mg_entries := bt_update key f (mg_entries g)\<rparr>)"
    using sound_update [OF s e] assms [of e] by (simp add: module_handle_def)
qed simp

lemma vacant_update:
  "vacant key g \<Longrightarrow> (\<And>e. en_module (f e) = en_module e) \<Longrightarrow>
   vacant key (g\<lparr>mg_entries := bt_update key f (mg_entries g)\<rparr>)"
  by (auto simp: vacant_def)

lemma runs_change_carrying:
  fixes f :: "'p entry \<Rightarrow> 'p entry"
  assumes "\<And>e. en_module (f e) = en_module e"
  shows "runs (carrying key m) (change_at key f :: ('p, 'c, 'j, unit) operation) (\<lambda>_. carrying key m) E"
proof (rule runs_change_at)
  fix g :: "('p, 'c, 'j) manager" and e
  assume c: "carrying key m g" and e: "map_of (mg_entries g) key = Some e"
  then have "en_module e = None" by (auto simp: carrying_def vacant_def)
  then show "carrying key m (g\<lparr>mg_entries := bt_update key f (mg_entries g)\<rparr>)"
    using c e assms sound_update [of "Some m" g key e f "Some m"]
    by (auto simp: carrying_def module_handle_def intro!: vacant_update)
qed (auto simp: carrying_def vacant_def)

text \<open>The module goes from the local variable into its entry.\<close>

lemma runs_change_install_at:
  fixes f :: "'p entry \<Rightarrow> 'p entry"
  assumes "\<And>g. P g \<Longrightarrow> carrying key m g"
    and "\<And>g e. P g \<Longrightarrow> map_of (mg_entries g) key = Some e \<Longrightarrow>
      en_module (f e) = Some m \<and> \<not> inspectable (en_state (f e))"
  shows "runs P (change_at key f :: ('p, 'c, 'j, unit) operation) (\<lambda>_. sound None) E"
proof (rule runs_change_at)
  fix g :: "('p, 'c, 'j) manager" and e
  assume P: "P g" and e: "map_of (mg_entries g) key = Some e"
  then have c: "carrying key m g" and "en_module e = None"
    using assms(1) [OF P] by (auto simp: carrying_def vacant_def)
  then show "sound None (g\<lparr>mg_entries := bt_update key f (mg_entries g)\<rparr>)"
    using assms(2) [OF P e] by (intro sound_update [OF _ e, of "Some m"])
      (simp_all add: carrying_def module_handle_def local_held_def)
qed (use assms(1) in \<open>force simp: carrying_def vacant_def\<close>)

lemma runs_change_install:
  assumes "\<And>e. en_module (f e) = Some m \<and> \<not> inspectable (en_state (f e))"
  shows "runs (carrying key m) (change_at key f) (\<lambda>_. sound None) E"
  by (rule runs_change_install_at [where m = m]) (use assms in simp_all)

lemma runs_change_emptied:
  fixes f :: "'p entry \<Rightarrow> 'p entry"
  assumes "\<And>e. en_module (f e) = None"
  shows "runs (emptied key) (change_at key f :: ('p, 'c, 'j, unit) operation) (\<lambda>_. sound None) E"
proof (rule runs_change_at)
  fix g :: "('p, 'c, 'j) manager" and e
  assume c: "emptied key g" and e: "map_of (mg_entries g) key = Some e"
  then have "en_module e = None" by (auto simp: emptied_def vacant_def)
  then show "sound None (g\<lparr>mg_entries := bt_update key f (mg_entries g)\<rparr>)"
    using c assms [of e] by (intro sound_update [OF _ e, of None])
      (simp_all add: emptied_def module_handle_def)
qed (auto simp: emptied_def vacant_def)

section \<open>Modules in and out of their entries\<close>

text \<open>An operation on a module that loads and releases nothing.\<close>

definition books_alone :: "native_call list \<Rightarrow> bool" where
  "books_alone calls \<longleftrightarrow> (\<forall>h r. LoadedLibrary h \<notin> set calls \<and> TriedFree h r \<notin> set calls)"

definition harmless ::
  "('p addon_module \<Rightarrow> 'p native_world \<Rightarrow> 'p native_world \<times> 'p addon_module \<times> 'r) \<Rightarrow> bool"
where
  "harmless f \<longleftrightarrow>
     (\<forall>m w. am_handle (fst (snd (f m w))) = am_handle m \<and>
        (\<exists>calls. nw_trace (fst (f m w)) = nw_trace w @ calls \<and> books_alone calls))"

lemma accounted_alone: "books_alone calls \<Longrightarrow> accounted h n (t @ calls) = accounted h n t"
  by (simp add: accounted_def released_calls_def books_alone_def count_list_0_iff)

lemma sound_native:
  "sound l g \<Longrightarrow> nw_trace w = nw_trace (mg_native g) @ calls \<Longrightarrow> books_alone calls \<Longrightarrow>
   sound l (g\<lparr>mg_native := w\<rparr>)"
  by (simp add: sound_def accounted_alone)

lemma runs_with_module:
  assumes "harmless f"
  shows "runs (sound None) (with_module key missing f :: ('p, 'c, 'j, unit) operation)
    (\<lambda>_. sound None) (sound None)"
proof (rule runsI)
  fix g :: "('p, 'c, 'j) manager"
  assume s: "sound None g"
  show "case snd (with_module key missing f g) of
      Done a \<Rightarrow> sound None (fst (with_module key missing f g))
    | _ \<Rightarrow> sound None (fst (with_module key missing f g))"
  proof (cases "map_of (mg_entries g) key")
    case (Some e)
    show ?thesis
    proof (cases "en_module e")
      case m: (Some m)
      obtain w m' r where f: "f m (mg_native g) = (w, m', r)" by (metis prod_cases3)
      then obtain calls where c: "am_handle m' = am_handle m" "nw_trace w = nw_trace (mg_native g) @ calls"
        "books_alone calls" using assms unfolding harmless_def by (metis fst_conv snd_conv)
      let ?g = "g\<lparr>mg_native := w\<rparr>"
      have n: "sound None ?g" using sound_native [OF s c(2,3)] .
      have "\<not> inspectable (en_state e)"
        using s m map_of_SomeD [OF Some] by (auto simp: sound_def idle_empty_def)
      then have "sound None (?g\<lparr>mg_entries := bt_update key (\<lambda>e. e\<lparr>en_module := Some m'\<rparr>) (mg_entries ?g)\<rparr>)"
        using Some m c(1) by (intro sound_update [OF n, of key e]) (simp_all add: module_handle_def)
      then show ?thesis using f Some m by (simp add: with_module_def split: outcome.splits option.splits)
    qed (use s Some in \<open>simp add: with_module_def\<close>)
  qed (use s in \<open>simp add: with_module_def\<close>)
qed

lemma runs_take_module:
  "runs (sound None) (take_module key missing :: ('p, 'c, 'j, 'p addon_module) operation)
    (\<lambda>m. carrying key m) (sound None)"
proof (rule runsI)
  fix g :: "('p, 'c, 'j) manager"
  assume s: "sound None g"
  show "case snd (take_module key missing g) of
      Done m \<Rightarrow> carrying key m (fst (take_module key missing g))
    | _ \<Rightarrow> sound None (fst (take_module key missing g))"
  proof (cases "map_of (mg_entries g) key")
    case (Some e)
    show ?thesis
    proof (cases "en_module e")
      case m: (Some m)
      have "sound (Some m) (g\<lparr>mg_entries := bt_update key (\<lambda>e. e\<lparr>en_module := None\<rparr>) (mg_entries g)\<rparr>)"
        using m by (intro sound_update [OF s Some]) (simp_all add: module_handle_def local_held_def)
      then show ?thesis using Some m by (simp add: take_module_def carrying_def vacant_def)
    qed (use s Some in \<open>simp add: take_module_def\<close>)
  qed (use s in \<open>simp add: take_module_def\<close>)
qed

section \<open>Loads and releases\<close>

lemma accounted_loaded: "accounted h n t \<Longrightarrow> accounted h (n + of_bool (a = h)) (t @ [LoadedLibrary a])"
  by (auto simp: accounted_def released_calls_def)

lemma accounted_freed:
  "accounted h (n + of_bool (a = h)) t \<Longrightarrow> accounted h n (t @ [TriedFree a r])"
  by (cases r) (auto simp: accounted_def released_calls_def split: if_splits)

lemma accounted_refused: "accounted h n t \<Longrightarrow> accounted h n (t @ [TriedFree a FreeRefused])"
  by (auto simp: accounted_def released_calls_def)

lemma free_trace:
  "native_free_library P a w = (w', r) \<Longrightarrow> nw_trace w' = nw_trace w @ [TriedFree a (free_outcome r)]"
  by (auto simp: native_free_library_def record_call_def dest!: query_trace split: prod.splits)

lemma mod_release_books:
  assumes run: "mod_release P m w = (w', m', r)"
  shows "(\<exists>a f. am_handle m = Some a \<and> nw_trace w' = nw_trace w @ [TriedFree a f] \<and>
      (r \<noteq> Inr () \<longrightarrow> am_handle m' = (if f = FreeRefused then Some a else None)) \<and>
      (r = Inr () \<longrightarrow> f = FreeDone)) \<or>
    r \<noteq> Inr () \<and> am_handle m' = am_handle m \<and> nw_trace w' = nw_trace w"
proof -
  define c where "c = (if am_state m = ModInspected then mod_close_gate m else m)"
  have c: "am_handle c = am_handle m" by (simp add: c_def mod_close_gate_def)
  show ?thesis
  proof (cases "am_state m \<in> {ModInspected, ModCleanupComplete} \<and> in_flight (am_gate c) = 0 \<and> am_handle m \<noteq> None")
    case False
    then have "w' = w" "am_handle m' = am_handle m" "r \<noteq> Inr ()"
      using run c by (auto simp: mod_release_def c_def [symmetric] Let_def split: option.splits if_splits)
    then show ?thesis by simp
  next
    case True
    then obtain a where a: "am_handle m = Some a" by blast
    obtain w1 f where free: "native_free_library P a w = (w1, f)" by fastforce
    have "mod_release P m w = (case f of
        Some (Inr u) \<Rightarrow> (w1, c\<lparr>am_handle := None, am_state := ModReleased\<rparr>, Inr ())
      | Some (Inl e) \<Rightarrow> (w1, c\<lparr>am_release_on_drop := False\<rparr>, Inl (ModPlatform FreeLibrary e))
      | None \<Rightarrow> (w1, c\<lparr>am_handle := None, am_state := ModReleaseUncertain,
                   am_release_on_drop := False\<rparr>, Inl (ModPanic AtFreeLibrary)))"
      unfolding mod_release_def Let_def c_def [symmetric]
      using True a c free by (simp split: option.splits sum.splits)
    then show ?thesis using run a c free_trace [OF free]
      by (auto simp: free_outcome_def split: option.splits sum.splits)
  qed
qed

lemma sound_freed:
  assumes "sound (Some m) g" and "am_handle m = Some a"
    and "nw_trace w = nw_trace (mg_native g) @ [TriedFree a f]"
  shows "sound None (g\<lparr>mg_native := w\<rparr>)"
proof -
  have "accounted h (held_in h (mg_entries g)) (nw_trace w)" for h
  proof -
    have "accounted h (held_in h (mg_entries g) + of_bool (a = h)) (nw_trace (mg_native g))"
      using assms(1,2) by (simp add: sound_def local_held_def)
    then show ?thesis unfolding assms(3) by (rule accounted_freed)
  qed
  then show ?thesis using assms(1) by (simp add: sound_def)
qed

lemma vacant_native [simp]: "vacant key (g\<lparr>mg_native := w\<rparr>) = vacant key g"
  by (simp add: vacant_def)

lemma sound_local: "am_handle m' = am_handle m \<Longrightarrow> sound (Some m) g \<Longrightarrow> sound (Some m') g"
  by (simp add: sound_def local_held_def)

lemma sound_no_handle: "am_handle m = None \<Longrightarrow> sound (Some m) g = sound None g"
  by (simp add: sound_def local_held_def)

lemma runs_release_module:
  "runs (carrying key m) (release_module A m :: ('p, 'c, 'j, 'p addon_module + unit) operation)
     (\<lambda>r. case r of Inl m' \<Rightarrow> carrying key m' | Inr u \<Rightarrow> emptied key) E"
proof (rule runsI)
  fix g :: "('p, 'c, 'j) manager"
  assume "carrying key m g"
  then have s: "sound (Some m) g" and v: "vacant key g" by (simp_all add: carrying_def)
  obtain w m' r where run: "mod_release (ad_platform A) m (mg_native g) = (w, m', r)"
    by (metis prod_cases3)
  have out: "release_module A m g =
      (g\<lparr>mg_native := w\<rparr>, Done (case r of Inr u \<Rightarrow> Inr () | Inl e \<Rightarrow> Inl m'))"
    using run by (simp add: release_module_def)
  consider (freed) a f where "am_handle m = Some a"
      "nw_trace w = nw_trace (mg_native g) @ [TriedFree a f]"
      "r \<noteq> Inr () \<longrightarrow> am_handle m' = (if f = FreeRefused then Some a else None)"
      "r = Inr () \<longrightarrow> f = FreeDone"
    | (kept) "r \<noteq> Inr ()" "am_handle m' = am_handle m" "nw_trace w = nw_trace (mg_native g)"
    using mod_release_books [OF run] by blast
  then show "case snd (release_module A m g) of
      Done r \<Rightarrow> (case r of Inl m' \<Rightarrow> carrying key m' | Inr u \<Rightarrow> emptied key) (fst (release_module A m g))
    | _ \<Rightarrow> E (fst (release_module A m g))"
  proof cases
    case freed
    have none: "sound None (g\<lparr>mg_native := w\<rparr>)" using sound_freed [OF s freed(1,2)] .
    show ?thesis
    proof (cases r)
      case (Inl e)
      have "sound (Some m') (g\<lparr>mg_native := w\<rparr>)"
      proof (cases "f = FreeRefused")
        case True
        then have "sound (Some m) (g\<lparr>mg_native := w\<rparr>)"
          using s freed(2) by (simp add: sound_def accounted_refused)
        then show ?thesis using freed(1,3) True Inl sound_local [of m' m] by simp
      next
        case False
        then show ?thesis using none freed(3) Inl by (simp add: sound_no_handle)
      qed
      then show ?thesis using out Inl v by (simp add: carrying_def)
    next
      case (Inr u)
      then show ?thesis using out none v by (simp add: emptied_def)
    qed
  next
    case kept
    then obtain e where r: "r = Inl e" by (cases r) auto
    have "sound (Some m') (g\<lparr>mg_native := w\<rparr>)"
      using s kept by (simp add: sound_def local_held_def)
    then show ?thesis using out r v by (simp add: carrying_def)
  qed
qed

text \<open>A module fresh from its load is released when it is dropped.\<close>

definition fresh :: "'p addon_module \<Rightarrow> bool" where
  "fresh m \<longleftrightarrow> am_state m = ModInspected \<and> am_gate m = gate_open \<and> am_release_on_drop m"

lemma drop_fresh_sound:
  assumes "fresh m" and "sound (Some m) g"
  shows "sound None (fst (drop_module A m g))"
proof (cases "am_handle m")
  case None
  then have "mod_drop (ad_platform A) m (mg_native g) = (mg_native g, mod_close_gate m)"
    using assms(1) by (simp add: mod_drop_def fresh_def mod_close_gate_def)
  then show ?thesis using assms(2) None by (simp add: drop_module_def change_def sound_no_handle)
next
  case (Some a)
  obtain w r where free: "native_free_library (ad_platform A) a (mg_native g) = (w, r)" by fastforce
  have "fst (mod_drop (ad_platform A) m (mg_native g)) = w"
    using assms(1) Some free
    by (simp add: mod_drop_def fresh_def mod_close_gate_def gate_open_def gate_close_def)
  then show ?thesis using sound_freed [OF assms(2) Some free_trace [OF free]]
    by (simp add: drop_module_def change_def)
qed

lemma runs_or_drop:
  assumes "runs (carrying key m) f Q (carrying key m)" and "fresh m"
    and "\<And>g. P g \<Longrightarrow> carrying key m g" and "\<And>g g'. f g \<noteq> (g', Waiting)"
  shows "runs P (or_drop A m f) Q (sound None)"
proof (rule runsI)
  fix g
  assume P: "P g"
  obtain g' r where f: "f g = (g', r)" by fastforce
  have run: "case r of Done a \<Rightarrow> Q a g' | _ \<Rightarrow> carrying key m g'"
    using assms(1) [unfolded runs_def, rule_format, OF assms(3) [OF P]] unfolding f fst_conv snd_conv .
  show "case snd (or_drop A m f g) of Done a \<Rightarrow> Q a (fst (or_drop A m f g))
      | _ \<Rightarrow> sound None (fst (or_drop A m f g))"
  proof (cases r)
    case (Failed e)
    then have "sound None (fst (drop_module A m g'))"
      using run by (intro drop_fresh_sound [OF assms(2)]) (simp add: carrying_def)
    then show ?thesis using f Failed by (simp add: or_drop_def)
  qed (use f run assms(4) in \<open>auto simp: or_drop_def\<close>)
qed

lemma runs_load_candidate:
  "runs (emptied key) (load_candidate A path :: ('p, 'c, 'j, 'p addon_module) operation)
     (\<lambda>m g. carrying key m g \<and> fresh m) (sound None)"
proof (rule runsI)
  fix g :: "('p, 'c, 'j) manager"
  assume "emptied key g"
  then have s: "sound None g" and v: "vacant key g" by (simp_all add: emptied_def)
  obtain w r where l: "load_absolute (ad_platform A) path (mo_metadata_limits (mg_options g))
      (mg_native g) = (w, r)" by fastforce
  note t = load_absolute_traced [where P = "ad_platform A" and path = path and w = "mg_native g"
      and limits = "mo_metadata_limits (mg_options g)", unfolded l, simplified]
  show "case snd (load_candidate A path g) of
      Done m \<Rightarrow> carrying key m (fst (load_candidate A path g)) \<and> fresh m
    | _ \<Rightarrow> sound None (fst (load_candidate A path g))"
  proof (cases r)
    case (Inr m)
    then obtain h a where h: "nw_trace w = (nw_trace (mg_native g) @ [LoadedLibrary h]) @ [CalledExport a]"
      and m: "am_handle m = Some h" "fresh m" using t by (auto simp: fresh_def)
    have "accounted i (held_in i (mg_entries g) + local_held i (Some m)) (nw_trace w)" for i
      using accounted_loaded [of i "held_in i (mg_entries g)" "nw_trace (mg_native g)" h] s m(1)
      unfolding h by (subst accounted_alone) (auto simp: books_alone_def sound_def local_held_def)
    then show ?thesis using s v m(2) l Inr
      by (simp add: load_candidate_def lift_result_def carrying_def sound_def)
  next
    case (Inl e)
    have "sound None (g\<lparr>mg_native := w\<rparr>)"
    proof (cases "nw_trace w = nw_trace (mg_native g)")
      case False
      then obtain h calls f where h: "nw_trace w =
          (nw_trace (mg_native g) @ [LoadedLibrary h] @ calls) @ [TriedFree h f]"
        and calls: "books_alone calls" using t Inl by (auto simp: books_alone_def)
      have "accounted i (held_in i (mg_entries g)) (nw_trace w)" for i
        unfolding h using accounted_loaded [of i "held_in i (mg_entries g)" "nw_trace (mg_native g)" h] s
          accounted_alone [OF calls, of i _ "nw_trace (mg_native g) @ [LoadedLibrary h]"]
        by (intro accounted_freed) (simp add: sound_def)
      then show ?thesis using s by (simp add: sound_def)
    qed (use s in \<open>simp add: sound_def\<close>)
    then show ?thesis using l Inl by (simp add: load_candidate_def lift_result_def)
  qed
qed

section \<open>The operations\<close>

text \<open>The interpretation of every early end: the books are right and no module is lost.\<close>

lemmas quiet_sound = runs_quiet [where P = "sound None" and E = "sound None", OF _ viewed_states(1)]

lemma runs_sound: "quiet f \<Longrightarrow> runs (sound None) f (\<lambda>_. sound None) (sound None)"
  by (rule quiet_sound)

lemma runs_carrying:
  fixes f :: "('p, 'c, 'j, 'a) operation"
  assumes "quiet f" and "\<And>g. \<exists>a. snd (f g) = Done a"
  shows "runs (carrying key m) f (\<lambda>_. carrying key m) E"
proof (rule runsI)
  fix g :: "('p, 'c, 'j) manager"
  assume c: "carrying key m g"
  have "carrying key m (fst (f g))"
    using c quietD [OF assms(1), of g] viewed_states(2) unfolding viewed_def by blast
  moreover obtain a where "snd (f g) = Done a" using assms(2) [of g] by blast
  ultimately show "case snd (f g) of Done a \<Rightarrow> carrying key m (fst (f g)) | _ \<Rightarrow> E (fst (f g))" by simp
qed

lemma runs_emptied_end: "runs P f (\<lambda>_. emptied key) E \<Longrightarrow> runs P f (\<lambda>_. sound None) E"
  by (erule runs_weaken) (auto dest: emptied_sound)

lemma runs_from_emptied: "runs (sound None) f Q E \<Longrightarrow> runs (emptied key) f Q E"
  by (erule runs_weaken) (auto dest: emptied_sound)

lemma fails_after_emptied: "quiet f \<Longrightarrow> runs (emptied key) f (\<lambda>_. emptied key) (sound None)"
  by (rule runs_quiet) (simp_all add: emptied_def)

lemma runs_rejected:
  "runs (carrying key m) (release_rejected_module A key m st) (\<lambda>_. emptied key) (sound None)"
  unfolding release_rejected_module_def
proof (rule runs_then [OF runs_release_module])
  fix r
  show "runs ((case r of Inl m' \<Rightarrow> carrying key m' | Inr u \<Rightarrow> emptied key))
     (case r of
       Inl m' \<Rightarrow> then_do (change_at key (\<lambda>e. e\<lparr>en_module := Some m', en_state := MgrReleaseFailed,
               en_needs_ack := False, en_return_state := Some st\<rparr>)) (\<lambda>_.
           then_do (emit_release_failure None (release_is_retryable m')) (\<lambda>_.
             fail_with (MgrReleaseFailure (release_is_retryable m'))))
     | Inr u \<Rightarrow> give ()) (\<lambda>_. emptied key) (sound None)"
  proof (cases r)
    case (Inl m')
    show ?thesis unfolding Inl sum.case
      by (intro runs_then [OF runs_change_install] runs_then [OF runs_sound] runs_fail quiet_steps)
        (simp_all add: inspectable_def)
  qed (auto intro: runs_give)
qed

lemma quiet_if [quiet_steps]: "quiet f \<Longrightarrow> quiet g \<Longrightarrow> quiet (if b then f else g)"
  by simp

lemma quiet_option [quiet_steps]:
  "quiet f \<Longrightarrow> (\<And>a. quiet (k a)) \<Longrightarrow> quiet (case x of None \<Rightarrow> f | Some a \<Rightarrow> k a)"
  by (cases x) simp_all

lemma runs_finish_release:
  "runs (emptied key) (finish_successful_release key owner ack) (\<lambda>_. sound None) (sound None)"
  unfolding finish_successful_release_def
  by (intro runs_then [OF fails_after_emptied] runs_then [OF runs_change_emptied] runs_then [OF runs_sound]
      runs_sound quiet_steps) (simp add: released_entry_def Let_def)

lemma runs_keep_unreleased:
  "runs (carrying key m) (keep_unreleased key owner ack m) (\<lambda>_. sound None) (sound None)"
  unfolding keep_unreleased_def
  by (intro runs_then [OF runs_change_install] runs_then [OF runs_sound] runs_fail quiet_steps)
    (simp_all add: inspectable_def)

lemma runs_release_taken:
  "runs (carrying key m) (release_taken A key owner ack m) (\<lambda>_. sound None) (sound None)"
  unfolding release_taken_def
proof (rule runs_then [OF runs_release_module])
  fix r
  show "runs (case r of Inl m' \<Rightarrow> carrying key m' | Inr u \<Rightarrow> emptied key)
     (case r of Inl m' \<Rightarrow> keep_unreleased key owner ack m'
        | Inr u \<Rightarrow> finish_successful_release key (Some owner) ack) (\<lambda>_. sound None) (sound None)"
    by (cases r) (simp_all add: runs_keep_unreleased runs_finish_release)
qed

lemma runs_reject: "runs (carrying key m) (reject A key m st error) Q (sound None)"
  unfolding reject_def
  by (intro runs_then [OF runs_rejected] runs_fail) (simp add: emptied_def)

lemma harmlessI:
  assumes "\<And>m w. am_handle (fst (snd (f m w))) = am_handle m"
    and "\<And>m w. \<exists>calls. nw_trace (fst (f m w)) = nw_trace w @ calls \<and> books_alone calls"
  shows "harmless f"
  using assms by (simp add: harmless_def)

lemma harmless_steps:
  "harmless (\<lambda>m w. let (w, m, r) = mod_activate P api m w in (w, m, Some r))"
  "harmless (\<lambda>m w. let (m, r) = mod_request_shutdown m in (w, m, Some r))"
  "harmless (\<lambda>m w. let (w, m, r) = mod_invoke_unload P m w in (w, m, Some r))"
  "harmless (\<lambda>m w. let (w, m, r) = mod_complete_cleanup answer m w in (w, m, Some r))"
  "harmless (\<lambda>m w. let (m', r) = mod_wait_for_callbacks timeout script m
     in (record_leaves (unat (in_flight (am_gate m)) - unat (in_flight (am_gate m'))) w, m', r))"
  by (auto intro!: harmlessI simp: mod_activate_def mod_request_shutdown_def mod_invoke_unload_def
      mod_complete_cleanup_def mod_wait_for_callbacks_def mod_close_gate_def Let_def
      native_call_load_def native_call_unload_def query_def record_call_def record_leaves_trace
      books_alone_def split: prod.splits option.splits bool.splits cleanup_answer.splits)

lemma runs_on_module_error:
  assumes "runs P f (\<lambda>_. P) P" and "\<And>e. runs P (h e) (\<lambda>_. P) P"
  shows "runs P (\<lambda>g. case f g of (g', Failed (MgrModule e)) \<Rightarrow> h e g' | x \<Rightarrow> x) (\<lambda>_. P) P"
proof (rule runsI)
  fix g
  assume "P g"
  then have "P (fst (f g))" using runs_end [OF assms(1)] by blast
  then have "P (fst (h e (fst (f g))))" "P (fst (f g))" for e using runs_end [OF assms(2)] by blast+
  then show "case snd (case f g of (g', Failed (MgrModule e)) \<Rightarrow> h e g' | x \<Rightarrow> x) of
      Done a \<Rightarrow> P (fst (case f g of (g', Failed (MgrModule e)) \<Rightarrow> h e g' | x \<Rightarrow> x))
    | _ \<Rightarrow> P (fst (case f g of (g', Failed (MgrModule e)) \<Rightarrow> h e g' | x \<Rightarrow> x))"
    by (cases "f g") (auto split: outcome.splits manager_error.splits)
qed

text \<open>The steps that keep the books, for the operations composed of them.\<close>

lemma runs_then_sound:
  "runs (sound None) f (\<lambda>_. sound None) (sound None) \<Longrightarrow>
   (\<And>a. runs (sound None) (k a) (\<lambda>_. sound None) (sound None)) \<Longrightarrow>
   runs (sound None) (then_do f k) (\<lambda>_. sound None) (sound None)"
  by (rule runs_then)

lemma runs_answer: "runs (sound None) (\<lambda>g. (g, f g)) (\<lambda>_. sound None) (sound None)"
  by (simp add: runs_def split: outcome.splits)

lemma sound_option:
  "runs P f Q E \<Longrightarrow> (\<And>a. runs P (k a) Q E) \<Longrightarrow>
   runs P (case x of None \<Rightarrow> f | Some a \<Rightarrow> k a) Q E"
  by (cases x) simp_all

lemmas sound_steps =
  runs_then_sound runs_sound runs_answer sound_option runs_if runs_change_kept runs_with_module
  harmless_steps runs_on_module_error quiet_emit quiet_emit_release quiet_owner_key quiet_entry_at quiet_require
  quiet_host_op quiet_host_try quiet_close quiet_retire quiet_direct_cleanup quiet_change_config
  quiet_record_activation quiet_drain_host quiet_wait_host quiet_give quiet_fail

lemma sound_activate: "runs (sound None) (activate A owner) (\<lambda>_. sound None) (sound None)"
  unfolding activate_def run_activation_def activation_failed_def
  by (intro sound_steps) (simp_all add: inspectable_def)

lemma sound_request_unload:
  "runs (sound None) (manager_request_unload owner reason) (\<lambda>_. sound None) (sound None)"
  unfolding manager_request_unload_def by (intro sound_steps) (simp_all add: inspectable_def)

lemma sound_drain:
  "runs (sound None) (drain A owner timeout hs ms) (\<lambda>_. sound None) (sound None)"
  unfolding drain_def wait_module_def by (intro sound_steps) (simp_all add: inspectable_def)

lemma sound_finish_unload:
  "runs (sound None) (finish_unload A owner) (\<lambda>_. sound None) (sound None)"
  unfolding finish_unload_def cleanup_call_def
  by (intro sound_steps runs_then [OF runs_take_module] runs_release_taken)

lemma sound_unload_call:
  fixes A :: "('p, 'c, 'j) adapters"
  shows "runs (sound None) (\<lambda>g.
       case unload_call A key missing g of
         (g', Failed (MgrModule error)) \<Rightarrow> (g', Done (Inl error))
       | (g', Failed error) \<Rightarrow> (g', Failed error)
       | (g', Waiting) \<Rightarrow> (g', Waiting)
       | (g', Done u) \<Rightarrow> (g', Done (Inr ()))) (\<lambda>_. sound None) (sound None)"
proof (rule runsI)
  fix g :: "('p, 'c, 'j) manager"
  assume "sound None g"
  moreover have "runs (sound None) (unload_call A key missing) (\<lambda>_. sound None) (sound None)"
    unfolding unload_call_def by (intro sound_steps)
  ultimately have "sound None (fst (unload_call A key missing g))" by (rule runs_end [rotated])
  then show "case snd (case unload_call A key missing g of
         (g', Failed (MgrModule error)) \<Rightarrow> (g', Done (Inl error))
       | (g', Failed error) \<Rightarrow> (g', Failed error)
       | (g', Waiting) \<Rightarrow> (g', Waiting)
       | (g', Done u) \<Rightarrow> (g', Done (Inr ()))) of
       Done a \<Rightarrow> sound None (fst (case unload_call A key missing g of
         (g', Failed (MgrModule error)) \<Rightarrow> (g', Done (Inl error))
       | (g', Failed error) \<Rightarrow> (g', Failed error)
       | (g', Waiting) \<Rightarrow> (g', Waiting)
       | (g', Done u) \<Rightarrow> (g', Done (Inr ()))))
     | _ \<Rightarrow> sound None (fst (case unload_call A key missing g of
         (g', Failed (MgrModule error)) \<Rightarrow> (g', Done (Inl error))
       | (g', Failed error) \<Rightarrow> (g', Failed error)
       | (g', Waiting) \<Rightarrow> (g', Waiting)
       | (g', Done u) \<Rightarrow> (g', Done (Inr ()))))"
    by (auto split: prod.splits outcome.splits manager_error.splits)
qed

lemma sound_invoke_unload:
  "runs (sound None) (invoke_native_unload A owner) (\<lambda>_. sound None) (sound None)"
  unfolding invoke_native_unload_def
  by (intro sound_steps sound_unload_call) (simp_all add: inspectable_def)

lemma sound_cleanup_loop:
  "runs (sound None) (direct_cleanup_loop turns A key owner) (\<lambda>_. sound None) (sound None)"
proof (induction turns)
  case 0
  show ?case by (simp add: runs_def)
next
  case (Suc turns)
  have "direct_cleanup_loop (Suc turns) A key owner =
      then_do (entry_at key) (\<lambda>e.
        if en_failed_cursor e < pre_drain_count
        then then_do (run_direct_cleanup A owner (cleanup_order ! en_failed_cursor e)) (\<lambda>_.
             then_do (change_at key (\<lambda>e. e\<lparr>en_failed_cursor := en_failed_cursor e + 1\<rparr>)) (\<lambda>_.
               direct_cleanup_loop turns A key owner))
        else give ())"
    by (rule ext) simp
  then show ?case by simp (intro sound_steps Suc.IH, simp)
qed

lemma sound_cleanup_failure:
  "runs (sound None) (cleanup_activation_failure A owner timeout hs ms) (\<lambda>_. sound None) (sound None)"
  unfolding cleanup_activation_failure_def begin_failed_cleanup_def wait_module_def unload_call_def
    cleanup_call_def
  by (intro sound_steps sound_cleanup_loop runs_then [OF runs_take_module] runs_release_taken)
    (simp_all add: inspectable_def)

text \<open>What an operation knows of the entry it works on.\<close>

definition entry_is :: "string \<Rightarrow> ('p entry \<Rightarrow> bool) \<Rightarrow> ('p, 'c, 'j) manager \<Rightarrow> bool" where
  "entry_is key p g \<longleftrightarrow> (\<exists>e. map_of (mg_entries g) key = Some e \<and> p e)"

lemma runs_entry_at:
  "runs (sound None) (entry_at key) (\<lambda>e g. sound None g \<and> map_of (mg_entries g) key = Some e) (sound None)"
  by (simp add: runs_def entry_at_def split: outcome.splits option.splits)

lemma runs_frame:
  assumes "runs P f Q E" and "\<And>g. K g \<Longrightarrow> K (fst (f g))"
  shows "runs (\<lambda>g. P g \<and> K g) f (\<lambda>a g. Q a g \<and> K g) E"
  using assms unfolding runs_def by (fastforce split: outcome.splits)

lemma take_keeps_state:
  "entry_is key (\<lambda>e. en_state e = st) g \<Longrightarrow>
   entry_is key (\<lambda>e. en_state e = st) (fst (take_module key missing g))"
  by (auto simp: entry_is_def take_module_def split: option.splits)

lemma release_keeps_entries [simp]: "mg_entries (fst (release_module A m g)) = mg_entries g"
  by (simp add: release_module_def Let_def split: prod.splits)

lemma sound_retry: "runs (sound None) (retry_release A path) (\<lambda>_. sound None) (sound None)"
proof -
  define key where "key = path_key path"
  let ?failed = "entry_is key (\<lambda>e. en_state e = MgrReleaseFailed)"
  have last: "runs (\<lambda>g. (case r of Inl m' \<Rightarrow> carrying key m' | Inr u \<Rightarrow> emptied key) g \<and> ?failed g)
     (case r of
        Inl m' \<Rightarrow> then_do (change_at key (\<lambda>e. e\<lparr>en_module := Some m'\<rparr>)) (\<lambda>_.
               then_do (case en_owner e of
                          None \<Rightarrow> give ()
                        | Some owner \<Rightarrow> emit_release_failure (Some owner) (release_is_retryable m')) (\<lambda>_.
                 fail_with (if release_is_retryable m' then MgrReleaseFailure True
                            else MgrReleaseNotRetryable)))
      | Inr u \<Rightarrow> finish_successful_release key (en_owner e) (en_needs_ack e)) (\<lambda>_. sound None) (sound None)"
    for r and e :: "'a entry"
  proof (cases r)
    case (Inl m')
    show ?thesis unfolding Inl sum.case
      by (intro runs_then [OF runs_change_install_at [where m = m']] runs_then_sound runs_sound quiet_steps)
        (auto simp: entry_is_def inspectable_def)
  next
    case (Inr u)
    show ?thesis unfolding Inr sum.case by (rule runs_weaken [OF runs_finish_release]) simp_all
  qed
  have "runs (\<lambda>g. sound None g \<and> ?failed g) (then_do (take_module key MgrReleaseNotRetryable) (\<lambda>m.
         then_do (release_module A m) (\<lambda>r.
           case r of
             Inr u \<Rightarrow> finish_successful_release key (en_owner e) (en_needs_ack e)
           | Inl m' \<Rightarrow>
               then_do (change_at key (\<lambda>e. e\<lparr>en_module := Some m'\<rparr>)) (\<lambda>_.
               then_do (case en_owner e of
                          None \<Rightarrow> give ()
                        | Some owner \<Rightarrow> emit_release_failure (Some owner) (release_is_retryable m')) (\<lambda>_.
                 fail_with (if release_is_retryable m' then MgrReleaseFailure True
                            else MgrReleaseNotRetryable)))))) (\<lambda>_. sound None) (sound None)" for e :: "'a entry"
    by (intro runs_then [OF runs_frame [OF runs_take_module]] runs_then [OF runs_frame [OF runs_release_module]]
        last) (simp_all add: take_keeps_state, simp add: entry_is_def)
  then show ?thesis unfolding retry_release_def Let_def key_def [symmetric]
    by (intro runs_then [OF runs_entry_at] runs_then [OF runs_require])
      (auto intro: runs_weaken simp: entry_is_def)
qed

section \<open>Inspection and reload\<close>

lemma runs_pure: "(b \<Longrightarrow> runs P f Q E) \<Longrightarrow> runs (\<lambda>g. P g \<and> b) f Q E"
  by (cases b) (simp_all add: runs_def)

text \<open>An operation that looks at the state to decide what to run.\<close>

lemma runs_pointwise:
  assumes "\<And>g. P g \<Longrightarrow> \<exists>k. f g = k g \<and> runs P k Q E"
  shows "runs P f Q E"
proof (rule runsI)
  fix g
  assume P: "P g"
  then obtain k where k: "f g = k g" "runs P k Q E" using assms by blast
  show "case snd (f g) of Done a \<Rightarrow> Q a (fst (f g)) | _ \<Rightarrow> E (fst (f g))"
    unfolding k(1) using k(2) P by (simp add: runs_def)
qed

lemma resolve_returns: "resolve_range A m g \<noteq> (g', Waiting)"
  by (cases "ad_resolve A m")
    (simp_all add: resolve_range_def then_do_def emit_def change_def fail_with_def lift_result_def
      split: sum.splits)

lemma policy_returns: "activation_policy summary revision request g \<noteq> (g', Waiting)"
  by (auto simp: activation_policy_def then_do_def config_for_or_register_def change_config_def
      policy_after_enable_def lift_result_def Let_def split: prod.splits outcome.splits sum.splits config_access.splits)

lemma carrying_quiet: "quiet f \<Longrightarrow> runs (carrying key m) f (\<lambda>_. carrying key m) (carrying key m)"
  by (rule runs_quiet) simp_all

lemma runs_host_op: "runs (carrying key m) (host_op f) (\<lambda>_. carrying key m) E"
  by (rule runs_carrying [OF quiet_host_op]) (auto simp: host_op_def Let_def split: prod.splits)

lemma runs_discover_module:
  "runs (carrying key m) (discover_module A key m st request) (\<lambda>_. carrying key m) (sound None)"
proof (rule runs_pointwise)
  fix g :: "('a, 'b, 'c) manager"
  define mode where "mode = (if request = HotReloadRequest then HotReload else InitialLoad)"
  define live where "live = module_live m (nw_state (mg_native g))"
  define k :: "('a, 'b, 'c, owner_token) operation" where
    "k = then_do (host_op (discover live mode (mo_metadata_limits (mg_options g)))) (\<lambda>r.
           case r of
             Inr owner \<Rightarrow> give owner
           | Inl (DefinitionFailed e) \<Rightarrow>
               if is_unwound_read e
               then then_do (release_rejected_module A key m st) (\<lambda>_.
                    then_do (emit SeverityError BoundaryPanicContained None) (\<lambda>_.
                      fail_with (MgrBoundaryPanic AtHostCoordinator)))
               else reject A key m st (MgrHost (host_issue_of (DefinitionFailed e)))
           | Inl e \<Rightarrow> reject A key m st (MgrHost (host_issue_of e)))"
  have "runs (carrying key m) k (\<lambda>_. carrying key m) (sound None)"
    unfolding k_def
  proof (rule runs_then [OF runs_host_op])
    fix r :: "host_error + owner_token"
    have unwound: "runs (carrying key m) (then_do (release_rejected_module A key m st) (\<lambda>_.
        then_do (emit SeverityError BoundaryPanicContained None) (\<lambda>_.
          fail_with (MgrBoundaryPanic AtHostCoordinator)))) Q (sound None)"
      for Q :: "owner_token \<Rightarrow> ('a, 'b, 'c) manager \<Rightarrow> bool"
      by (intro runs_then [OF runs_rejected] runs_then [OF fails_after_emptied] runs_fail quiet_steps)
        (simp add: emptied_def)
    show "runs (carrying key m) (case r of
             Inr owner \<Rightarrow> give owner
           | Inl (DefinitionFailed e) \<Rightarrow>
               if is_unwound_read e
               then then_do (release_rejected_module A key m st) (\<lambda>_.
                    then_do (emit SeverityError BoundaryPanicContained None) (\<lambda>_.
                      fail_with (MgrBoundaryPanic AtHostCoordinator)))
               else reject A key m st (MgrHost (host_issue_of (DefinitionFailed e)))
           | Inl e \<Rightarrow> reject A key m st (MgrHost (host_issue_of e))) (\<lambda>_. carrying key m) (sound None)"
      by (auto simp: unwound intro: runs_reject runs_give split: sum.splits host_error.splits)
  qed
  then show "\<exists>k. discover_module A key m st request g = k g \<and>
      runs (carrying key m) k (\<lambda>_. carrying key m) (sound None)"
    by (intro exI [of _ k]) (simp add: discover_module_def k_def mode_def live_def Let_def)
qed

lemma runs_publish_module:
  "runs (carrying key m) (publish_module A key m st owner area) (\<lambda>_. carrying key m) (sound None)"
proof (rule runs_pointwise)
  fix g :: "('a, 'b, 'c) manager"
  show "\<exists>k. publish_module A key m st owner area g = k g \<and>
      runs (carrying key m) k (\<lambda>_. carrying key m) (sound None)"
  proof (cases "addr_publish owner (rg_start area) (range_len area) owner (mg_ownership g)")
    case (Inl e)
    show ?thesis
      by (rule exI [of _ "then_do (host_op (cancel_discovery owner)) (\<lambda>host_result.
          then_do (release_rejected_module A key m st) (\<lambda>_.
            case host_result of
              Inl he \<Rightarrow> fail_with (MgrHost (host_issue_of he))
            | Inr u \<Rightarrow> fail_with (MgrOwnership e)))"], rule conjI)
        (simp add: publish_module_def Inl,
         auto intro!: runs_then [OF runs_host_op] runs_then [OF runs_rejected] runs_fail
           simp: emptied_def split: sum.splits)
  next
    case (Inr x)
    then show ?thesis
      by (intro exI [of _ "change (\<lambda>g. g\<lparr>mg_ownership := fst x\<rparr>)"] conjI runs_carrying quiet_change)
        (simp_all add: publish_module_def change_def native_view_def split: prod.splits)
  qed
qed

lemma runs_check_gate:
  "runs (carrying key m) (\<lambda>g.
       case host_callback_gate owner (mg_host g) of
         Inr _ \<Rightarrow> (g, Done ())
       | Inl error \<Rightarrow>
           then_do (host_op (cancel_discovery owner))
             (\<lambda>_. reject A key m st (MgrHost (host_issue_of error))) g) (\<lambda>_. carrying key m) (sound None)"
proof (rule runs_pointwise)
  fix g :: "('a, 'b, 'c) manager"
  show "\<exists>k. (case host_callback_gate owner (mg_host g) of
         Inr _ \<Rightarrow> (g, Done ())
       | Inl error \<Rightarrow>
           then_do (host_op (cancel_discovery owner))
             (\<lambda>_. reject A key m st (MgrHost (host_issue_of error))) g) = k g \<and>
      runs (carrying key m) k (\<lambda>_. carrying key m) (sound None)"
  proof (cases "host_callback_gate owner (mg_host g)")
    case (Inl error)
    show ?thesis unfolding Inl sum.case
      by (rule exI, rule conjI, rule refl) (intro runs_then [OF runs_host_op] runs_reject)
  next
    case (Inr x)
    show ?thesis unfolding Inr sum.case
      by (rule exI [of _ "give ()"]) (simp add: give_def runs_def)
  qed
qed

lemma runs_check:
  "runs (carrying key m) (if b then reject A key m st e else give ()) (\<lambda>_. carrying key m) (sound None)"
  by (simp add: runs_reject runs_give)

lemma runs_check_overlap:
  "runs (carrying key m) (\<lambda>g. if p g then reject A key m st e g else (g, Done ()))
     (\<lambda>_. carrying key m) (sound None)"
  by (rule runs_pointwise)
    (auto simp: give_def [symmetric] intro: runs_give runs_reject)

lemma admitted_installs:
  "en_module (admitted_entry m area owner summary revision e) = Some m \<and>
   \<not> inspectable (en_state (admitted_entry m area owner summary revision e))"
  by (simp add: admitted_entry_def inspectable_def)

lemma runs_admit_module:
  assumes "fresh m"
  shows "runs (carrying key m) (admit_module A key e m request) (\<lambda>_. sound None) (sound None)"
proof -
  have installed: "runs (carrying key m) (then_do (change_at key (admitted_entry m area owner
        (summary_from_module m) (dd_revision (en_discovered e)))) (\<lambda>_.
      then_do (change (\<lambda>g. g\<lparr>mg_owner_paths := (mg_owner_paths g)(owner \<mapsto> key)\<rparr>)) (\<lambda>_.
      then_do (emit SeverityInfo DefinitionInspected (Some owner)) (\<lambda>_.
        give (InspectReady owner))))) (\<lambda>_. sound None) (sound None)" for area owner
  proof (rule runs_then [OF runs_change_install])
    show "runs (sound None) (then_do
          (change (\<lambda>g. g\<lparr>mg_owner_paths := (mg_owner_paths g)(owner \<mapsto> key)\<rparr>)) (\<lambda>_.
        then_do (emit SeverityInfo DefinitionInspected (Some owner)) (\<lambda>_.
          give (InspectReady owner)))) (\<lambda>_. sound None) (sound None)"
    proof (rule runs_then_sound)
      show "runs (sound None) (change (\<lambda>g. g\<lparr>mg_owner_paths := (mg_owner_paths g)(owner \<mapsto> key)\<rparr>))
          (\<lambda>_. sound None) (sound None)"
        by (simp add: runs_def change_def sound_def)
    qed (intro runs_sound quiet_steps)
  qed (rule admitted_installs)
  show ?thesis unfolding admit_module_def
    by (rule runs_then [OF runs_or_drop [OF carrying_quiet [OF quiet_resolve] assms _ resolve_returns]],
        assumption, rule runs_then [OF runs_check], rule runs_then [OF runs_check_overlap],
        rule runs_then [OF runs_discover_module], rule runs_then [OF runs_check_gate],
        rule runs_then [OF runs_publish_module], rule installed)
qed

lemma sound_inspect: "runs (sound None) (inspect A path request) (\<lambda>_. sound None) (sound None)"
proof -
  define key where "key = path_key path"
  have blocked: "runs (carrying key m) (then_do (change_at key (\<lambda>e. e\<lparr>en_summary := Some (summary_from_module m),
        en_blocked_by := Some reason, en_state := MgrPolicyBlocked\<rparr>)) (\<lambda>_.
      then_do (release_rejected_module A key m MgrPolicyBlocked) (\<lambda>_.
      then_do (emit SeverityWarning PolicyBlockedCode None) (\<lambda>_.
        give (InspectBlocked (ds_signature (summary_from_module m)) reason))))) (\<lambda>_. sound None) (sound None)"
    for m reason
    by (rule runs_then [OF runs_change_carrying], simp, rule runs_then [OF runs_rejected],
        rule runs_from_emptied) (intro runs_then_sound runs_sound quiet_steps)
  have loaded: "runs (\<lambda>g. carrying key m g \<and> fresh m)
     (then_do (or_drop A m
           (activation_policy (summary_from_module m) (dd_revision (en_discovered e)) request)) (\<lambda>policy.
           case policy of
             None \<Rightarrow> admit_module A key e m request
           | Some reason \<Rightarrow>
               then_do (change_at key (\<lambda>e. e\<lparr>en_summary := Some (summary_from_module m),
                   en_blocked_by := Some reason, en_state := MgrPolicyBlocked\<rparr>)) (\<lambda>_.
               then_do (release_rejected_module A key m MgrPolicyBlocked) (\<lambda>_.
               then_do (emit SeverityWarning PolicyBlockedCode None) (\<lambda>_.
                 give (InspectBlocked (ds_signature (summary_from_module m)) reason))))))
     (\<lambda>_. sound None) (sound None)" for m and e :: "'a entry"
    by (rule runs_pure,
        rule runs_then [OF runs_or_drop [OF carrying_quiet [OF quiet_policy] _ _ policy_returns]],
        assumption, assumption, rule sound_option, erule runs_admit_module, rule blocked)
  have checked: "runs (\<lambda>g. sound None g \<and> map_of (mg_entries g) key = Some e)
      (then_do (require b x) (\<lambda>_. then_do (require (inspectable (en_state e)) y) (\<lambda>_. k)))
      (\<lambda>_. sound None) (sound None)"
    if "runs (emptied key) k (\<lambda>_. sound None) (sound None)" for e :: "'a entry" and b x y k
  proof (rule runs_then [OF runs_require], simp, rule runs_then [OF runs_require], simp)
    show "runs (\<lambda>g. ((sound None g \<and> map_of (mg_entries g) key = Some e) \<and> b) \<and> inspectable (en_state e)) k
        (\<lambda>_. sound None) (sound None)"
      by (rule runs_weaken [OF that])
        (auto simp: emptied_def vacant_def sound_def idle_empty_def dest!: map_of_SomeD bspec)
  qed
  show ?thesis unfolding inspect_def Let_def key_def [symmetric]
    by (rule runs_then [OF runs_entry_at], rule checked, rule runs_then [OF runs_load_candidate], rule loaded)
qed

lemma sound_hot_reload:
  "runs (sound None) (hot_reload A owner timeout hs ms) (\<lambda>_. sound None) (sound None)"
proof -
  have last: "runs (sound None) (case result of
        InspectBlocked sig reason \<Rightarrow> fail_with (MgrPolicy reason)
      | InspectReady new_owner \<Rightarrow>
          then_do (activate A new_owner) (\<lambda>_.
          then_do (emit SeverityInfo HotReloadComplete (Some new_owner)) (\<lambda>_. give new_owner)))
      (\<lambda>_. sound None) (sound None)" for result
    by (cases result) (simp_all, (intro runs_then_sound sound_activate runs_sound quiet_steps)+)
  show ?thesis unfolding hot_reload_def
    by (intro runs_then_sound sound_option sound_request_unload sound_drain sound_invoke_unload
        sound_finish_unload sound_inspect last runs_sound quiet_steps)
qed

end
