(* ===== verification/Manager_History.thy ===== *)
theory Manager_History
  imports Manager_Accounts
begin

text \<open>
  Histories of the addon manager: every public operation with arbitrary arguments, also with
  owners of earlier generations, the native code between them, and the accounts of libraries
  over all of it.
\<close>

section \<open>The directory operations\<close>

lemma held_insert_new:
  "map_of es key = None \<Longrightarrow> held_in h (bt_insert key e es) = held_in h es + of_bool (module_handle e = Some h)"
  by (induction es) (auto simp: held_in_def split: if_splits)

lemma insert_known:
  "bt_wf es \<Longrightarrow> map_of es key = Some e \<Longrightarrow> bt_insert key e' es = bt_update key (\<lambda>_. e') es"
proof (induction es)
  case (Cons p es)
  have wf: "bt_wf es" and above: "\<forall>q \<in> set es. fst p < fst q"
    using Cons.prems(1) by (auto simp: bt_wf_def)
  show ?case
  proof (cases "fst p = key")
    case True
    have "map (\<lambda>q. if fst q = key then (fst q, e') else q) es = es"
      using above True by (intro map_idI) auto
    then show ?thesis using True by (simp add: bt_update_def)
  next
    case False
    then have known: "map_of es key = Some e" using Cons.prems(2) by (cases p) auto
    then have "fst p < key" using above map_of_SomeD [OF known] by force
    then show ?thesis using Cons.IH [OF wf known] by (auto simp: bt_update_def)
  qed
qed simp

lemma held_remove:
  assumes "bt_wf es" and "map_of es key = Some e"
  shows "held_in h (bt_remove key es) + of_bool (module_handle e = Some h) = held_in h es"
  using bt_wf_distinct [OF assms(1)] assms(2)
proof (induction es)
  case (Cons p es)
  have keep: "held_in h (p # es) = of_bool (module_handle (snd p) = Some h) + held_in h es" for es
    by (simp add: held_in_def)
  show ?case
  proof (cases "fst p = key")
    case True
    have "fst p \<notin> fst ` set es" using Cons.prems(1) by simp
    then have "filter (\<lambda>q. fst q \<noteq> key) es = es"
      using True by (simp add: filter_id_conv) (metis image_eqI)
    then show ?thesis using True Cons.prems(2) keep by (cases p) (auto simp: bt_remove_def)
  next
    case False
    then have "bt_remove key (p # es) = p # bt_remove key es" by (simp add: bt_remove_def)
    moreover have "map_of es key = Some e" using False Cons.prems(2) by (cases p) auto
    ultimately show ?thesis using Cons.IH Cons.prems(1) by (simp add: keep)
  qed
qed simp

lemma sound_known:
  assumes "sound None g" and "map_of (mg_entries g) key = Some e"
    and "en_module e' = en_module e" and "inspectable (en_state e') \<Longrightarrow> en_module e' = None"
  shows "sound None (g\<lparr>mg_entries := bt_insert key e' (mg_entries g)\<rparr>)"
proof -
  have "bt_insert key e' (mg_entries g) = bt_update key (\<lambda>_. e') (mg_entries g)"
    using assms(1,2) by (intro insert_known) (simp_all add: sound_def)
  then show ?thesis using sound_update [OF assms(1,2), of "\<lambda>_. e'" None] assms(3,4)
    by (simp add: module_handle_def)
qed

lemma sound_idle: "sound l g \<Longrightarrow> map_of (mg_entries g) key = Some e \<Longrightarrow>
    inspectable (en_state e) \<Longrightarrow> en_module e = None"
  by (auto simp: sound_def idle_empty_def dest!: map_of_SomeD bspec)

lemma idle_insert:
  "idle_empty es \<Longrightarrow> (inspectable (en_state e) \<Longrightarrow> en_module e = None) \<Longrightarrow>
   idle_empty (bt_insert key e es)"
  by (induction es) (auto simp: idle_empty_def)

lemma sound_new:
  assumes "sound None g" and "map_of (mg_entries g) key = None" and "en_module e = None"
  shows "sound None (g\<lparr>mg_entries := bt_insert key e (mg_entries g)\<rparr>)"
  using assms by (simp add: sound_def held_insert_new module_handle_def idle_insert)

lemma sound_end: "quiet f \<Longrightarrow> sound None g \<Longrightarrow> sound None (fst (f g))"
  using runs_end [OF runs_sound] by blast

lemma sound_upsert:
  assumes "sound None g"
  shows "sound None (fst (apply_upsert candidate g))"
proof (cases "map_of (mg_entries g) (path_key (dd_path candidate))")
  case None
  then show ?thesis using sound_new [OF assms None, of "entry_discovered candidate"] assms
    by (auto simp: apply_upsert_def Let_def entry_discovered_def intro!: sound_end quiet_steps)
next
  case (Some e)
  have "sound None (g\<lparr>mg_entries := bt_insert (path_key (dd_path candidate))
      (e\<lparr>en_discovered := candidate, en_present := True\<rparr>) (mg_entries g)\<rparr>)"
    using sound_idle [OF assms Some] by (intro sound_known [OF assms Some]) simp_all
  then show ?thesis using Some assms
    by (auto simp: apply_upsert_def Let_def intro!: sound_end quiet_steps)
qed

lemma sound_removed: "sound None g \<Longrightarrow> sound None (fst (apply_removed path g))"
  unfolding apply_removed_def
  by (auto simp: Let_def split: option.splits
      intro!: sound_end quiet_steps sound_known dest: sound_idle)

lemma sound_renamed: "sound None g \<Longrightarrow> sound None (fst (apply_renamed old target g))"
proof -
  assume s: "sound None g"
  define old_key where "old_key = path_key old"
  define new_key where "new_key = path_key (dd_path target)"
  show ?thesis
  proof (cases "(\<not> contains_direct_child (mg_directory g) old \<or>
         \<not> contains_direct_child (mg_directory g) (dd_path target)) \<or> old_key = new_key \<or>
         map_of (mg_entries g) new_key \<noteq> None \<or> map_of (mg_entries g) old_key = None")
    case True
    then show ?thesis using s sound_upsert [OF s]
      by (auto simp: apply_renamed_def old_key_def new_key_def Let_def split: option.splits)
  next
    case False
    then obtain e where e: "map_of (mg_entries g) old_key = Some e" by auto
    define e' where "e' = e\<lparr>en_discovered := target, en_present := True\<rparr>"
    define es where "es = bt_insert new_key e' (bt_remove old_key (mg_entries g))"
    have wf: "bt_wf (mg_entries g)" and idle: "idle_empty (mg_entries g)" using s by (simp_all add: sound_def)
    have new: "map_of (bt_remove old_key (mg_entries g)) new_key = None" using False by auto
    have same: "module_handle e' = module_handle e" by (simp add: e'_def module_handle_def)
    have "held_in h es = held_in h (mg_entries g)" for h
      using held_remove [OF wf e, of h] by (simp add: es_def held_insert_new [OF new] same)
    moreover have "idle_empty es" unfolding es_def
      using idle sound_idle [OF s e] by (intro idle_insert) (auto simp: idle_empty_def bt_remove_def e'_def)
    moreover have "bt_wf es" using wf by (simp add: es_def)
    ultimately have "sound None (g\<lparr>mg_entries := es,
        mg_owner_paths := rename_key old_key new_key (mg_owner_paths g)\<rparr>)"
      using s by (simp add: sound_def)
    then show ?thesis using False e
      by (auto simp: apply_renamed_def old_key_def [symmetric] new_key_def [symmetric] Let_def
          e'_def [symmetric] es_def [symmetric] intro!: sound_end quiet_steps)
  qed
qed

lemma runs_fst: "(\<And>g. P g \<Longrightarrow> P (fst (f g))) \<Longrightarrow> runs P f (\<lambda>_. P) P"
  by (simp add: runs_def split: outcome.splits)

lemma sound_each:
  assumes "\<And>x g. sound None g \<Longrightarrow> sound None (fst (f x g))"
  shows "runs (sound None) (apply_each f xs) (\<lambda>_. sound None) (sound None)"
proof (induction xs)
  case (Cons x xs)
  show ?case unfolding apply_each.simps
    by (rule runs_then_sound [OF runs_fst], erule assms, rule runs_then_sound [OF Cons.IH],
        rule runs_sound) (rule quiet_give)
qed (simp add: runs_sound quiet_give)

lemma sound_refresh: "runs (sound None) (refresh_discovery answer) (\<lambda>_. sound None) (sound None)"
proof -
  have scanned: "runs (sound None)
      (then_do (\<lambda>g. (g, lift_result MgrDiscovery (normalize_discovery (mg_directory g) scanned))) (\<lambda>found.
       then_do (apply_each apply_upsert found) (\<lambda>impacts.
       then_do (\<lambda>g. (g, Done (map (\<lambda>(k, e). dd_path (en_discovered e))
              (filter (\<lambda>(k, e). en_present e \<and> k \<notin> set (map (\<lambda>d. path_key (dd_path d)) found))
                (mg_entries g))))) (\<lambda>removed.
       then_do (apply_each apply_removed removed) (\<lambda>more.
         give (impacts @ more)))))) (\<lambda>_. sound None) (sound None)" for scanned
    by (rule runs_then_sound [OF runs_answer], rule runs_then_sound [OF sound_each [OF sound_upsert]],
        assumption, rule runs_then_sound [OF runs_answer],
        rule runs_then_sound [OF sound_each [OF sound_removed]], assumption, rule runs_sound, rule quiet_give)
  have "runs (sound None) (fail_with e) (\<lambda>_. sound None) (sound None)" for e
    by (rule runs_sound [OF quiet_fail])
  moreover have "runs (sound None) (then_do (emit s c ow) (\<lambda>_. fail_with e)) (\<lambda>_. sound None) (sound None)"
    for s c ow e by (intro runs_sound quiet_steps)
  ultimately show ?thesis using scanned
    by (auto simp: refresh_discovery_def split: option.splits sum.splits)
qed

lemma sound_event:
  "runs (sound None) (apply_directory_event event answer) (\<lambda>_. sound None) (sound None)"
proof (cases event)
  case (EventUpsert candidate)
  show ?thesis unfolding apply_directory_event_def EventUpsert directory_event.case
    by (rule runs_then_sound [OF runs_fst], erule sound_upsert, rule runs_sound, rule quiet_give)
next
  case (EventRemoved path)
  show ?thesis unfolding apply_directory_event_def EventRemoved directory_event.case
    by (rule runs_then_sound [OF runs_fst], erule sound_removed, rule runs_sound, rule quiet_give)
next
  case (EventRenamed old target)
  show ?thesis unfolding apply_directory_event_def EventRenamed directory_event.case
    by (rule runs_then_sound [OF runs_fst], erule sound_renamed, rule runs_sound, rule quiet_give)
qed (simp add: apply_directory_event_def sound_refresh)

lemma quiet_set_enabled: "quiet (set_enabled sig enabled)"
  unfolding set_enabled_def
  by (intro quiet_then quiet_steps) (auto simp: quiet_def require_def split: option.splits)

section \<open>Histories\<close>

text \<open>
  An operation that is still waiting has reached a state that counts, too. Between operations
  native code runs, wrappers enter and leave the gates of modules, and callbacks those of the
  host's owners.
\<close>

inductive manager_step ::
  "('p, 'c, 'j) adapters \<Rightarrow> ('p, 'c, 'j) manager \<Rightarrow> ('p, 'c, 'j) manager \<Rightarrow> bool"
  for A :: "('p, 'c, 'j) adapters"
where
  step_inspect: "manager_step A g (fst (inspect A path request g))"
| step_activate: "manager_step A g (fst (activate A owner g))"
| step_request: "manager_step A g (fst (manager_request_unload owner reason g))"
| step_drain: "manager_step A g (fst (drain A owner timeout host_script module_script g))"
| step_unload: "manager_step A g (fst (invoke_native_unload A owner g))"
| step_finish: "manager_step A g (fst (finish_unload A owner g))"
| step_retry: "manager_step A g (fst (retry_release A path g))"
| step_cleanup:
    "manager_step A g (fst (cleanup_activation_failure A owner timeout host_script module_script g))"
| step_reload: "manager_step A g (fst (hot_reload A owner timeout host_script module_script g))"
| step_enable: "manager_step A g (fst (set_enabled sig enabled g))"
| step_refresh: "manager_step A g (fst (refresh_discovery answer g))"
| step_event: "manager_step A g (fst (apply_directory_event event answer g))"
| step_startup: "manager_step A g (finish_startup g)"
| step_diagnostics: "manager_step A g (fst (take_diagnostics g))"
| step_native: "manager_step A g (g\<lparr>mg_native := (mg_native g)\<lparr>nw_state := p\<rparr>\<rparr>)"
| step_enter:
    "map_of (mg_entries g) key = Some e \<Longrightarrow> en_module e = Some m \<Longrightarrow>
     unat (in_flight (am_gate m)) < 2 ^ 64 - 1 \<Longrightarrow> mod_enter m (mg_native g) = (w, m', admitted) \<Longrightarrow>
     manager_step A g (g\<lparr>mg_native := w,
       mg_entries := bt_update key (\<lambda>e. e\<lparr>en_module := Some m'\<rparr>) (mg_entries g)\<rparr>)"
| step_leave:
    "map_of (mg_entries g) key = Some e \<Longrightarrow> en_module e = Some m \<Longrightarrow>
     in_flight (am_gate m) \<noteq> 0 \<Longrightarrow> mod_leave m (mg_native g) = (w, m') \<Longrightarrow>
     manager_step A g (g\<lparr>mg_native := w,
       mg_entries := bt_update key (\<lambda>e. e\<lparr>en_module := Some m'\<rparr>) (mg_entries g)\<rparr>)"
| step_callbacks: "manager_step A g (g\<lparr>mg_host := (mg_host g)\<lparr>ah_gates := gates\<rparr>\<rparr>)"

lemma sound_module_changed:
  assumes "sound None g" and "map_of (mg_entries g) key = Some e" and "en_module e = Some m"
    and "am_handle m' = am_handle m" and "nw_trace w = nw_trace (mg_native g) @ calls" and "books_alone calls"
  shows "sound None (g\<lparr>mg_native := w,
    mg_entries := bt_update key (\<lambda>e. e\<lparr>en_module := Some m'\<rparr>) (mg_entries g)\<rparr>)"
proof -
  let ?g = "g\<lparr>mg_native := w\<rparr>"
  have "\<not> inspectable (en_state e)" using sound_idle [OF assms(1,2)] assms(3) by auto
  then have "sound None (?g\<lparr>mg_entries := bt_update key (\<lambda>e. e\<lparr>en_module := Some m'\<rparr>) (mg_entries ?g)\<rparr>)"
    using assms by (intro sound_update [OF sound_native [OF assms(1,5,6)], of key e])
      (simp_all add: module_handle_def)
  then show ?thesis by simp
qed

lemma sound_step:
  assumes "manager_step A g g'" and "sound None g"
  shows "sound None g'"
  using assms
proof cases
  case (step_enter key e m w m' admitted)
  show ?thesis unfolding step_enter(1)
    by (rule sound_module_changed [OF assms(2) step_enter(2,3), where calls = "if admitted then [GuardEntered] else []"])
      (use step_enter(5) in \<open>auto simp: mod_enter_def record_call_def books_alone_def split: prod.splits\<close>)
next
  case (step_leave key e m w m')
  show ?thesis unfolding step_leave(1)
    by (rule sound_module_changed [OF assms(2) step_leave(2,3), where calls = "[GuardLeft]"])
      (use step_leave(5) in \<open>auto simp: mod_leave_def record_call_def books_alone_def\<close>)
qed (use runs_end [OF sound_inspect] runs_end [OF sound_activate] runs_end [OF sound_request_unload]
    runs_end [OF sound_drain] runs_end [OF sound_invoke_unload] runs_end [OF sound_finish_unload]
    runs_end [OF sound_retry] runs_end [OF sound_cleanup_failure] runs_end [OF sound_hot_reload]
    sound_end [OF quiet_set_enabled] runs_end [OF sound_refresh] runs_end [OF sound_event]
    in \<open>simp_all add: sound_def finish_startup_def take_diagnostics_def Let_def split: prod.splits\<close>)

section \<open>The accounts\<close>

lemma sound_history:
  assumes "(manager_step A)\<^sup>*\<^sup>* g0 g" and "sound None g0"
  shows "sound None g"
  using assms by (induction rule: rtranclp_induct) (auto dest: sound_step)

lemma sound_start:
  "sound None (manager_new directory \<lparr>nw_state = p, nw_trace = []\<rparr> cleaner ownership configs access options)"
  by (simp add: sound_def manager_new_def idle_empty_def held_in_def accounted_def released_calls_def)

text \<open>
  C34.
  The manager's books of native libraries balance after any history of its operations, whatever
  owners, paths, answers of the platform and unwinds it meets: no library is released more often
  than it was loaded while entries still hold it, and a library that was loaded is held by an
  entry, or was released, or the platform refused to release it. An entry that may be inspected
  again holds none, so loading it again loses no module.
\<close>
theorem manager_libraries_accounted:
  assumes "(manager_step A)\<^sup>*\<^sup>*
      (manager_new directory \<lparr>nw_state = p, nw_trace = []\<rparr> cleaner ownership configs access options) g"
  shows "held_in h (mg_entries g) + released_calls h (nw_trace (mg_native g))
      \<le> count_list (nw_trace (mg_native g)) (LoadedLibrary h) \<and>
    count_list (nw_trace (mg_native g)) (LoadedLibrary h)
      \<le> held_in h (mg_entries g) + released_calls h (nw_trace (mg_native g)) +
        count_list (nw_trace (mg_native g)) (TriedFree h FreeRefused) \<and>
    (map_of (mg_entries g) key = Some e \<longrightarrow> inspectable (en_state e) \<longrightarrow> en_module e = None)"
  using sound_history [OF assms sound_start] sound_idle [of None g key e]
  by (simp add: sound_def accounted_def)

definition demo_manager_adapters :: "(unit, unit, demo_value) adapters" where
  "demo_manager_adapters =
     \<lparr>ad_platform = demo_platform, ad_resolve = (\<lambda>m. Some (loaded_module_range m)),
      ad_clean = (\<lambda>owner phase c. (c, Some (Inr ()))), ad_json = demo_config_json,
      ad_tables_populated = True\<rparr>"

definition demo_candidate :: discovered_dll where
  "demo_candidate = \<lparr>dd_path = demo_path, dd_revision = [], dd_byte_len = 1\<rparr>"

definition demo_manager :: "(unit, unit, demo_value) manager" where
  "demo_manager = manager_new ''C:/'' \<lparr>nw_state = (), nw_trace = []\<rparr> () [] [] (ReadOnlyAllowlist {})
     manager_options_default"

theorem manager_libraries_accounted_witness:
  "\<exists>(g :: (unit, unit, demo_value) manager) e.
     nw_trace (mg_native g) = [LoadedLibrary 7, CalledExport 4096, TriedFree 7 FreeDone] \<and>
     map_of (mg_entries g) (path_key demo_path) = Some e \<and> en_state e = MgrPolicyBlocked \<and>
     en_module e = None \<and> held_in 7 (mg_entries g) = 0"
proof -
  define key where "key = path_key demo_path"
  define g1 where "g1 = fst (apply_directory_event (EventUpsert demo_candidate) None demo_manager)"
  define g2 where "g2 = fst (inspect demo_manager_adapters demo_path StartupRequest g1)"
  have child: "contains_direct_child ''C:/'' (dd_path demo_candidate)"
    by (simp add: contains_direct_child_def demo_candidate_def demo_path_def)
  have key': "path_key (dd_path demo_candidate) = key" by (simp add: key_def demo_candidate_def)
  have "mg_entries g1 = [(key, entry_discovered demo_candidate)]"
    and native: "mg_native g1 = demo_world" "mg_options g1 = manager_options_default"
      "mg_access g1 = ReadOnlyAllowlist {}"
    unfolding g1_def using child
    by (simp_all add: apply_directory_event_def apply_upsert_def then_do_def demo_manager_def
        manager_new_def emit_def change_def give_def Let_def key' demo_world_def)
  then have at: "map_of (mg_entries g1) key = Some (entry_discovered demo_candidate)"
    "mg_entries g1 = [(key, entry_discovered demo_candidate)]" by simp_all
  obtain m where load: "load_absolute demo_platform demo_path metadata_limits_default demo_world =
      (\<lparr>nw_state = (), nw_trace = [LoadedLibrary 7, CalledExport 4096]\<rparr>, Inr m)"
    and m: "am_state m = ModInspected" "am_handle m = Some 7" "am_gate m = gate_open"
    using demo_load by metis
  have path: "dd_path demo_candidate = demo_path" by (simp add: demo_candidate_def)
  have blocked: "inspectable (en_state (entry_discovered demo_candidate))"
    "en_present (entry_discovered demo_candidate)"
    "en_discovered (entry_discovered demo_candidate) = demo_candidate"
    by (simp_all add: entry_discovered_def inspectable_def)
  have "mg_entries g2 = bt_update key (\<lambda>e. e\<lparr>en_summary := Some (summary_from_module m),
        en_blocked_by := Some NotAllowlisted, en_state := MgrPolicyBlocked\<rparr>) (mg_entries g1) \<and>
      nw_trace (mg_native g2) = [LoadedLibrary 7, CalledExport 4096, TriedFree 7 FreeDone]"
    unfolding g2_def inspect_def Let_def key_def [symmetric]
    using at(1) native load m
    by (simp add: then_do_def entry_at_def require_def blocked load_candidate_def path lift_result_def
        demo_manager_adapters_def manager_options_default_def or_drop_def activation_policy_def
        config_for_or_register_def change_at_def release_rejected_module_def release_module_def
        mod_release_def mod_close_gate_def gate_close_def gate_open_def native_free_library_def query_def
        record_call_def free_outcome_def demo_platform_def emit_def change_def give_def)
  moreover have "(manager_step demo_manager_adapters)\<^sup>*\<^sup>* demo_manager g2"
    using step_event [of demo_manager_adapters demo_manager "EventUpsert demo_candidate" None]
      step_inspect [of demo_manager_adapters g1 demo_path StartupRequest]
    unfolding g1_def [symmetric] g2_def [symmetric] by (metis rtranclp.rtrancl_into_rtrancl rtranclp.rtrancl_refl)
  note books = manager_libraries_accounted [OF this [unfolded demo_manager_def], of 7]
  moreover have "en_module (entry_discovered demo_candidate) = None" by (simp add: entry_discovered_def)
  ultimately show ?thesis using books at
    by (intro exI [of _ g2]) (simp add: bt_update_def key_def released_calls_def)
qed

end
