(* ===== verification/Manager_Places.thy ===== *)
theory Manager_Places
  imports Manager_History
begin

text \<open>
  Where the addon manager keeps its candidates: the native operations leave the directory's
  candidates alone, every entry is filed under the key of a path in the directory, and a refresh
  makes the entries agree with a scan.
\<close>

section \<open>Operations that leave the candidates alone\<close>

definition places :: "('p, 'c, 'j) manager \<Rightarrow> string \<times> (string \<times> discovered_dll \<times> bool) list" where
  "places g = (mg_directory g, map (\<lambda>p. (fst p, en_discovered (snd p), en_present (snd p))) (mg_entries g))"

definition stays :: "('p, 'c, 'j, 'a) operation \<Rightarrow> bool" where
  "stays f \<longleftrightarrow> (\<forall>g. places (fst (f g)) = places g)"

named_theorems stays_steps

lemma staysD: "stays f \<Longrightarrow> places (fst (f g)) = places g"
  by (simp add: stays_def)

lemma stays_quiet: "quiet f \<Longrightarrow> stays f"
  by (simp add: stays_def quiet_def native_view_def places_def)

lemma stays_then [stays_steps]: "stays f \<Longrightarrow> (\<And>a. stays (k a)) \<Longrightarrow> stays (then_do f k)"
  unfolding stays_def then_do_def by (simp split: prod.splits outcome.splits) (metis fst_conv)

lemma stays_pointwise: "(\<And>g. \<exists>k. f g = k g \<and> stays k) \<Longrightarrow> stays f"
  unfolding stays_def by metis

lemma stays_change: "(\<And>g. places (f g) = places g) \<Longrightarrow> stays (change f)"
  by (simp add: stays_def change_def)

lemma places_update:
  "(\<And>e. en_discovered (f e) = en_discovered e \<and> en_present (f e) = en_present e) \<Longrightarrow>
   places (g\<lparr>mg_entries := bt_update key f (mg_entries g)\<rparr>) = places g"
  by (auto simp: places_def bt_update_def)

lemma stays_change_at [stays_steps]:
  "(\<And>e. en_discovered (f e) = en_discovered e \<and> en_present (f e) = en_present e) \<Longrightarrow> stays (change_at key f)"
  by (auto simp: stays_def change_at_def places_update split: option.splits)

lemma places_native [simp]: "places (g\<lparr>mg_native := w\<rparr>) = places g"
  by (simp add: places_def)

lemma places_module:
  "places (g\<lparr>mg_native := w, mg_entries := bt_update key (\<lambda>e. e\<lparr>en_module := m\<rparr>) (mg_entries g)\<rparr>) = places g"
  using places_update [of "\<lambda>e. e\<lparr>en_module := m\<rparr>" key "g\<lparr>mg_native := w\<rparr>"] by simp

lemma stays_with_module [stays_steps]: "stays (with_module key missing f)"
  by (auto simp: stays_def with_module_def places_module Let_def split: option.splits prod.splits)

lemma stays_take [stays_steps]: "stays (take_module key missing)"
  by (auto simp: stays_def take_module_def places_update split: option.splits)

lemma stays_release [stays_steps]: "stays (release_module A m)"
  by (auto simp: stays_def release_module_def Let_def split: prod.splits)

lemma stays_drop [stays_steps]: "stays (drop_module A m)"
  by (simp add: drop_module_def stays_def change_def)

lemma stays_load [stays_steps]: "stays (load_candidate A path)"
  by (simp add: load_candidate_def stays_def Let_def split: prod.splits)

lemma stays_or_drop [stays_steps]: "stays f \<Longrightarrow> stays (or_drop A m f)"
  by (auto simp: stays_def or_drop_def staysD [OF stays_drop] split: prod.splits outcome.splits)
    (metis fst_conv)+

lemma stays_if [stays_steps]: "stays f \<Longrightarrow> stays g \<Longrightarrow> stays (if b then f else g)"
  by simp

lemma stays_option [stays_steps]:
  "stays f \<Longrightarrow> (\<And>a. stays (k a)) \<Longrightarrow> stays (case x of None \<Rightarrow> f | Some a \<Rightarrow> k a)"
  by (cases x) simp_all

lemma stays_sum [stays_steps]:
  "(\<And>a. stays (f a)) \<Longrightarrow> (\<And>a. stays (k a)) \<Longrightarrow> stays (case x of Inl a \<Rightarrow> f a | Inr a \<Rightarrow> k a)"
  by (cases x) simp_all

lemmas stays_quiets = stays_quiet quiet_give quiet_fail quiet_require quiet_answer quiet_emit
  quiet_emit_release quiet_owner_key quiet_entry_at quiet_host_op quiet_host_try quiet_close quiet_retire
  quiet_direct_cleanup quiet_change_config quiet_policy quiet_resolve quiet_record_activation
  quiet_drain_host quiet_wait_host

lemma stays_rejected [stays_steps]: "stays (release_rejected_module A key m st)"
  unfolding release_rejected_module_def by (intro stays_steps stays_quiets) simp

lemma stays_reject [stays_steps]: "stays (reject A key m st x)"
  unfolding reject_def by (intro stays_steps stays_quiets)

lemma stays_finish_release [stays_steps]: "stays (finish_successful_release key ow b)"
  unfolding finish_successful_release_def by (intro stays_steps stays_quiets) (simp add: released_entry_def Let_def)

lemma stays_keep [stays_steps]: "stays (keep_unreleased key owner b m)"
  unfolding keep_unreleased_def by (intro stays_steps stays_quiets) simp

lemma stays_release_taken [stays_steps]: "stays (release_taken A key owner b m)"
  unfolding release_taken_def by (intro stays_steps stays_quiets)

lemma stays_on_error [stays_steps]:
  "stays f \<Longrightarrow> (\<And>e. stays (h e)) \<Longrightarrow>
   stays (\<lambda>g. case f g of (g', Failed (MgrModule e)) \<Rightarrow> h e g' | x \<Rightarrow> x)"
  by (auto simp: stays_def split: prod.splits outcome.splits manager_error.splits) (metis fst_conv)+

lemma stays_turned [stays_steps]:
  "stays f \<Longrightarrow>
   stays (\<lambda>g. case f g of
       (g', Failed (MgrModule e)) \<Rightarrow> (g', Done (Inl e))
     | (g', Failed e) \<Rightarrow> (g', Failed e)
     | (g', Waiting) \<Rightarrow> (g', Waiting)
     | (g', Done u) \<Rightarrow> (g', Done (Inr ())))"
  by (auto simp: stays_def split: prod.splits outcome.splits manager_error.splits) (metis fst_conv)+

lemma stays_activate: "stays (activate A owner)"
  unfolding activate_def run_activation_def activation_failed_def by (intro stays_steps stays_quiets) simp_all

lemma stays_request: "stays (manager_request_unload owner reason)"
  unfolding manager_request_unload_def by (intro stays_steps stays_quiets) simp_all

lemma stays_drain: "stays (drain A owner timeout hs ms)"
  unfolding drain_def wait_module_def by (intro stays_steps stays_quiets) simp_all

lemma stays_unload: "stays (invoke_native_unload A owner)"
  unfolding invoke_native_unload_def unload_call_def by (intro stays_steps stays_quiets) simp_all

lemma stays_finish: "stays (finish_unload A owner)"
  unfolding finish_unload_def cleanup_call_def by (intro stays_steps stays_quiets)

lemma stays_retry: "stays (retry_release A path)"
  unfolding retry_release_def Let_def by (intro stays_steps stays_quiets) simp_all

lemma stays_cleanup_loop: "stays (direct_cleanup_loop turns A key owner)"
proof (induction turns)
  case (Suc turns)
  have "direct_cleanup_loop (Suc turns) A key owner =
      then_do (entry_at key) (\<lambda>e.
        if en_failed_cursor e < pre_drain_count
        then then_do (run_direct_cleanup A owner (cleanup_order ! en_failed_cursor e)) (\<lambda>_.
             then_do (change_at key (\<lambda>e. e\<lparr>en_failed_cursor := en_failed_cursor e + 1\<rparr>)) (\<lambda>_.
               direct_cleanup_loop turns A key owner))
        else give ())"
    by (rule ext) simp
  then show ?case by simp (intro stays_steps stays_quiets Suc.IH, simp)
qed (simp add: stays_def)

lemma stays_cleanup_failure: "stays (cleanup_activation_failure A owner timeout hs ms)"
  unfolding cleanup_activation_failure_def begin_failed_cleanup_def wait_module_def unload_call_def cleanup_call_def
  by (intro stays_steps stays_quiets stays_cleanup_loop) simp_all

lemma stays_host_error [stays_steps]:
  "(\<And>e. stays (f e)) \<Longrightarrow> (\<And>owner. stays (k owner)) \<Longrightarrow> (\<And>e. stays (d e)) \<Longrightarrow>
   stays (case r of Inr owner \<Rightarrow> k owner | Inl (DefinitionFailed e) \<Rightarrow> d e | Inl e \<Rightarrow> f e)"
  by (auto split: sum.splits host_error.splits)

lemma stays_discover: "stays (discover_module A key m st request)"
proof (rule stays_pointwise)
  fix g :: "('a, 'b, 'c) manager"
  show "\<exists>k. discover_module A key m st request g = k g \<and> stays k"
    unfolding discover_module_def Let_def
    by (rule exI, rule conjI, rule refl) (intro stays_steps stays_quiets)
qed

lemma stays_publish: "stays (publish_module A key m st owner area)"
proof (rule stays_pointwise)
  fix g :: "('a, 'b, 'c) manager"
  show "\<exists>k. publish_module A key m st owner area g = k g \<and> stays k"
  proof (cases "addr_publish owner (rg_start area) (range_len area) owner (mg_ownership g)")
    case (Inl e)
    show ?thesis unfolding publish_module_def Inl sum.case
      by (rule exI, rule conjI, rule refl) (intro stays_steps stays_quiets)
  next
    case (Inr x)
    then show ?thesis
      by (intro exI [of _ "change (\<lambda>g. g\<lparr>mg_ownership := fst x\<rparr>)"] conjI)
        (simp_all add: publish_module_def change_def stays_def places_def split: prod.splits)
  qed
qed

lemma stays_check_gate:
  "stays (\<lambda>g.
       case host_callback_gate owner (mg_host g) of
         Inr _ \<Rightarrow> (g, Done ())
       | Inl error \<Rightarrow>
           then_do (host_op (cancel_discovery owner))
             (\<lambda>_. reject A key m st (MgrHost (host_issue_of error))) g)"
proof (rule stays_pointwise)
  fix g :: "('a, 'b, 'c) manager"
  show "\<exists>k. (case host_callback_gate owner (mg_host g) of
         Inr _ \<Rightarrow> (g, Done ())
       | Inl error \<Rightarrow>
           then_do (host_op (cancel_discovery owner))
             (\<lambda>_. reject A key m st (MgrHost (host_issue_of error))) g) = k g \<and> stays k"
  proof (cases "host_callback_gate owner (mg_host g)")
    case (Inl error)
    show ?thesis unfolding Inl sum.case
      by (rule exI, rule conjI, rule refl) (intro stays_steps stays_quiets)
  next
    case (Inr x)
    show ?thesis unfolding Inr sum.case by (rule exI [of _ "give ()"]) (simp add: give_def stays_def)
  qed
qed

lemma stays_check_overlap: "stays (\<lambda>g. if p g then reject A key m st e g else (g, Done ()))"
  using staysD [OF stays_reject] by (auto simp: stays_def)

lemma stays_admit: "stays (admit_module A key e m request)"
  unfolding admit_module_def
  by (intro stays_then stays_or_drop stays_quiet [OF quiet_resolve] stays_check_overlap stays_discover
      stays_check_gate stays_publish stays_change_at stays_change stays_if stays_reject stays_quiets)
    (simp_all add: admitted_entry_def places_def)

lemma stays_inspect: "stays (inspect A path request)"
  unfolding inspect_def Let_def by (intro stays_admit stays_steps stays_quiets) simp_all

lemma stays_reload: "stays (hot_reload A owner timeout hs ms)"
proof -
  have last: "stays (case result of
        InspectBlocked sig reason \<Rightarrow> fail_with (MgrPolicy reason)
      | InspectReady new_owner \<Rightarrow>
          then_do (activate A new_owner) (\<lambda>_.
          then_do (emit SeverityInfo HotReloadComplete (Some new_owner)) (\<lambda>_. give new_owner)))" for result
    by (cases result) (simp_all, (intro stays_then stays_activate stays_quiets)+)
  show ?thesis unfolding hot_reload_def
    by (intro last stays_then stays_option stays_request stays_drain stays_unload stays_finish stays_inspect stays_quiets)
qed

section \<open>Every entry has its place\<close>

definition placed :: "string \<Rightarrow> ('p, 'c, 'j) manager \<Rightarrow> bool" where
  "placed directory g \<longleftrightarrow>
     mg_directory g = directory \<and> bt_wf (mg_entries g) \<and>
     (\<forall>p \<in> set (mg_entries g). fst p = path_key (dd_path (en_discovered (snd p))) \<and>
        contains_direct_child directory (dd_path (en_discovered (snd p))))"

lemma placed_places:
  "placed directory g \<longleftrightarrow> fst (places g) = directory \<and> bt_wf (snd (places g)) \<and>
     (\<forall>(k, d, present) \<in> set (snd (places g)). k = path_key (dd_path d) \<and>
        contains_direct_child directory (dd_path d))"
  by (auto simp: placed_def places_def bt_wf_def comp_def)

lemma stays_placed: "stays f \<Longrightarrow> placed directory g \<Longrightarrow> placed directory (fst (f g))"
  unfolding placed_places by (simp add: staysD)

lemma set_bt_insert: "set (bt_insert k v m) \<subseteq> insert (k, v) (set m)"
  by (induction m) auto

lemma set_bt_remove: "set (bt_remove k m) \<subseteq> set m"
  by (auto simp: bt_remove_def)

lemma placed_insert:
  assumes "placed directory g" and "contains_direct_child directory (dd_path (en_discovered e))"
    and "key = path_key (dd_path (en_discovered e))"
  shows "placed directory (g\<lparr>mg_entries := bt_insert key e (mg_entries g)\<rparr>)"
  using assms set_bt_insert [of key e "mg_entries g"] by (fastforce simp: placed_def)

lemma placed_end: "quiet f \<Longrightarrow> placed directory g \<Longrightarrow> placed directory (fst (f g))"
  by (rule stays_placed [OF stays_quiet])

lemma placed_known: "placed directory g \<Longrightarrow> map_of (mg_entries g) key = Some e \<Longrightarrow>
    key = path_key (dd_path (en_discovered e)) \<and> contains_direct_child directory (dd_path (en_discovered e))"
  by (auto simp: placed_def dest!: map_of_SomeD bspec)

text \<open>What a reader of the directory sees at a key, and the module kept there.\<close>

definition present_at :: "('p, 'c, 'j) manager \<Rightarrow> string \<Rightarrow> discovered_dll option" where
  "present_at g key =
     (case map_of (mg_entries g) key of
        None \<Rightarrow> None | Some e \<Rightarrow> if en_present e then Some (en_discovered e) else None)"

definition module_at :: "('p, 'c, 'j) manager \<Rightarrow> string \<Rightarrow> 'p addon_module option" where
  "module_at g key = Option.bind (map_of (mg_entries g) key) en_module"

lemma upsert_effect:
  fixes g :: "('p, 'c, 'j) manager"
  assumes "placed directory g" and "contains_direct_child directory (dd_path d)"
  obtains g' i where "apply_upsert d g = (g', Done i)" and "placed directory g'"
    and "present_at g' = (present_at g)(path_key (dd_path d) \<mapsto> d)" and "module_at g' = module_at g"
    and "\<And>k. map_of (mg_entries g) k \<noteq> None \<Longrightarrow> map_of (mg_entries g') k \<noteq> None"
proof -
  define key where "key = path_key (dd_path d)"
  define e where "e = (case map_of (mg_entries g) key of
      None \<Rightarrow> entry_discovered d | Some e \<Rightarrow> e\<lparr>en_discovered := d, en_present := True\<rparr>)"
  define g1 where "g1 = g\<lparr>mg_entries := bt_insert key e (mg_entries g)\<rparr>"
  have e: "en_discovered e = d" "en_present e" "en_module e = module_at g key"
    by (simp_all add: e_def entry_discovered_def module_at_def split: option.splits)
  have dir: "mg_directory g = directory" using assms(1) by (simp add: placed_def)
  have "\<exists>report s c ow i. apply_upsert d g =
      then_do (if report then emit s c ow else give ()) (\<lambda>_. give i) g1"
  proof (cases "map_of (mg_entries g) key")
    case None
    then have "apply_upsert d g = then_do (if True then emit SeverityInfo CandidateDiscovered None else give ())
        (\<lambda>_. give \<lparr>di_path = dd_path d, di_kind = ChangeAdded, di_recommendation = NoAction\<rparr>) g1"
      using assms(2) dir by (simp add: apply_upsert_def key_def [symmetric] g1_def e_def)
    then show ?thesis by blast
  next
    case (Some e0)
    define changed where "changed = (dd_revision (en_discovered e0) \<noteq> dd_revision d \<or>
        dd_byte_len (en_discovered e0) \<noteq> dd_byte_len d)"
    define advice where "advice = (if changed then recommendation_for e True False else NoAction)"
    have "apply_upsert d g = then_do
        (if changed then emit SeverityInfo CandidateChanged (recommendation_owner advice) else give ())
        (\<lambda>_. give \<lparr>di_path = dd_path d, di_kind = (if changed then ChangeModified else ChangeUnchanged),
                    di_recommendation = advice\<rparr>) g1"
      unfolding apply_upsert_def Let_def key_def [symmetric] Some option.case changed_def [symmetric] advice_def
      using assms(2) dir Some by (cases changed) (simp_all add: g1_def e_def)
    then show ?thesis by blast
  qed
  then obtain s c ow report i where out: "apply_upsert d g =
      then_do (if report then emit s c ow else give ()) (\<lambda>_. give i) g1" by blast
  define g2 where "g2 = fst (apply_upsert d g)"
  have quiet: "quiet (then_do (if report then emit s c ow else give ()) (\<lambda>_. give i))" by (intro quiet_steps)
  have view: "native_view g2 = native_view g1" unfolding g2_def out by (rule quietD [OF quiet])
  have "snd (apply_upsert d g) = Done i"
    by (simp add: out then_do_def emit_def change_def give_def)
  then have "apply_upsert d g = (g2, Done i)" by (simp add: g2_def prod_eq_iff)
  moreover have "placed directory g1"
    unfolding g1_def using assms e(1) by (intro placed_insert) (simp_all add: key_def)
  then have "placed directory g2" unfolding g2_def out by (rule placed_end [OF quiet])
  moreover have "present_at g2 = (present_at g)(key \<mapsto> d)" "module_at g2 = module_at g"
    and "map_of (mg_entries g) k \<noteq> None \<Longrightarrow> map_of (mg_entries g2) k \<noteq> None" for k
    using view e by (auto simp: native_view_def present_at_def module_at_def g1_def fun_eq_iff)
  ultimately show ?thesis using that key_def by blast
qed

lemma removed_effect:
  fixes g :: "('p, 'c, 'j) manager"
  assumes "placed directory g" and "contains_direct_child directory path"
    and "map_of (mg_entries g) (path_key path) \<noteq> None"
  obtains g' i where "apply_removed path g = (g', Done i)" and "placed directory g'"
    and "present_at g' = (present_at g)(path_key path := None)" and "module_at g' = module_at g"
    and "\<And>k. map_of (mg_entries g) k \<noteq> None \<Longrightarrow> map_of (mg_entries g') k \<noteq> None"
proof -
  define key where "key = path_key path"
  obtain e0 where e0: "map_of (mg_entries g) key = Some e0" using assms(3) by (auto simp: key_def)
  have dir: "mg_directory g = directory" using assms(1) by (simp add: placed_def)
  show ?thesis
  proof (cases "en_present e0")
    case False
    then have "apply_removed path g =
        (g, Done \<lparr>di_path = path, di_kind = ChangeUnchanged, di_recommendation = NoAction\<rparr>)"
      using assms(2) dir e0 by (simp add: apply_removed_def key_def)
    moreover have "present_at g = (present_at g)(key := None)"
      using e0 False by (auto simp: present_at_def fun_eq_iff)
    ultimately show ?thesis using that assms(1) key_def by blast
  next
    case True
    define e where "e = (let e = e0\<lparr>en_present := False\<rparr> in
        if en_module e = None then e\<lparr>en_state := MgrRemoved\<rparr> else e)"
    define g1 where "g1 = g\<lparr>mg_entries := bt_insert key e (mg_entries g)\<rparr>"
    have e: "en_discovered e = en_discovered e0" "\<not> en_present e" "en_module e = en_module e0"
      by (simp_all add: e_def Let_def)
    obtain s c ow i where out: "apply_removed path g = then_do (emit s c ow) (\<lambda>_. give i) g1"
      using assms(2) dir e0 True by (auto simp: apply_removed_def key_def [symmetric] g1_def e_def Let_def)
    define g2 where "g2 = fst (apply_removed path g)"
    have quiet: "quiet (then_do (emit s c ow) (\<lambda>_. give i))" by (intro quiet_steps)
    have view: "native_view g2 = native_view g1" unfolding g2_def out by (rule quietD [OF quiet])
    have "snd (apply_removed path g) = Done i" by (simp add: out then_do_def emit_def change_def give_def)
    then have "apply_removed path g = (g2, Done i)" by (simp add: g2_def prod_eq_iff)
    moreover have "placed directory g1"
      unfolding g1_def using assms(1) placed_known [OF assms(1) e0] e(1)
      by (intro placed_insert) simp_all
    then have "placed directory g2" unfolding g2_def out by (rule placed_end [OF quiet])
    moreover have "present_at g2 = (present_at g)(key := None)" "module_at g2 = module_at g"
      and "map_of (mg_entries g) k \<noteq> None \<Longrightarrow> map_of (mg_entries g2) k \<noteq> None" for k
      using view e e0 by (auto simp: native_view_def present_at_def module_at_def g1_def fun_eq_iff)
    ultimately show ?thesis using that key_def by blast
  qed
qed

lemma placed_rename:
  assumes "placed directory g"
  shows "placed directory (fst (apply_renamed old target g))"
proof -
  define old_key where "old_key = path_key old"
  define new_key where "new_key = path_key (dd_path target)"
  have dir: "mg_directory g = directory" using assms by (simp add: placed_def)
  show ?thesis
  proof (cases "(\<not> contains_direct_child directory old \<or> \<not> contains_direct_child directory (dd_path target)) \<or>
      old_key = new_key \<or> map_of (mg_entries g) new_key \<noteq> None \<or> map_of (mg_entries g) old_key = None")
    case True
    have "contains_direct_child directory (dd_path target) \<Longrightarrow> placed directory (fst (apply_upsert target g))"
      using upsert_effect [OF assms, of target] by (metis fst_conv)
    then show ?thesis using True assms dir
      by (auto simp: apply_renamed_def old_key_def new_key_def Let_def split: option.splits)
  next
    case False
    then obtain e where e: "map_of (mg_entries g) old_key = Some e" by auto
    define e' where "e' = e\<lparr>en_discovered := target, en_present := True\<rparr>"
    define g1 where "g1 = g\<lparr>mg_entries := bt_insert new_key e' (bt_remove old_key (mg_entries g)),
        mg_owner_paths := rename_key old_key new_key (mg_owner_paths g)\<rparr>"
    have "placed directory (g\<lparr>mg_entries := bt_remove old_key (mg_entries g)\<rparr>)"
      using assms set_bt_remove [of old_key "mg_entries g"] by (auto simp: placed_def)
    from placed_insert [OF this, of e' new_key] have "placed directory g1"
      using False by (simp add: g1_def e'_def new_key_def placed_def)
    then show ?thesis using False e dir
      by (auto simp: apply_renamed_def old_key_def [symmetric] new_key_def [symmetric] Let_def
          e'_def [symmetric] g1_def [symmetric] intro!: placed_end quiet_steps)
  qed
qed

lemma upserts_effect:
  fixes g :: "('p, 'c, 'j) manager"
  assumes "placed directory g" and "\<forall>d \<in> set ds. contains_direct_child directory (dd_path d)"
    and "distinct (map (\<lambda>d. path_key (dd_path d)) ds)"
  shows "\<exists>g' is. apply_each apply_upsert ds g = (g', Done is) \<and> placed directory g' \<and>
    present_at g' = present_at g ++ map_of (map (\<lambda>d. (path_key (dd_path d), d)) ds) \<and>
    module_at g' = module_at g"
  using assms
proof (induction ds arbitrary: g)
  case Nil
  then show ?case by (simp add: give_def)
next
  case (Cons d ds)
  have child: "contains_direct_child directory (dd_path d)" using Cons.prems(2) by simp
  obtain g1 i where 1: "apply_upsert d g = (g1, Done i)" "placed directory g1"
    "present_at g1 = (present_at g)(path_key (dd_path d) \<mapsto> d)" "module_at g1 = module_at g"
    by (rule upsert_effect [OF Cons.prems(1) child]) (rule that)
  obtain g2 "is" where 2: "apply_each apply_upsert ds g1 = (g2, Done is)" "placed directory g2"
    "present_at g2 = present_at g1 ++ map_of (map (\<lambda>d. (path_key (dd_path d), d)) ds)"
    "module_at g2 = module_at g1"
    using Cons.IH [OF 1(2)] Cons.prems(2,3) by auto
  have "path_key (dd_path d) \<notin> dom (map_of (map (\<lambda>d. (path_key (dd_path d), d)) ds))"
    using Cons.prems(3) by (auto simp: dom_map_of_conv_image_fst image_iff)
  then have "present_at g2 = present_at g ++ map_of (map (\<lambda>d. (path_key (dd_path d), d)) (d # ds))"
    unfolding 2(3) 1(3) list.map map_of.simps fst_conv snd_conv map_add_upd
    by (rule map_add_upd_left)
  moreover have "apply_each apply_upsert (d # ds) g = (g2, Done (i # is))"
    using 1(1) 2(1) by (simp add: then_do_def give_def)
  moreover have "module_at g2 = module_at g" using 1(4) 2(4) by simp
  ultimately show ?case using 2(2) by blast
qed

lemma removals_effect:
  fixes g :: "('p, 'c, 'j) manager"
  assumes "placed directory g" and "\<forall>p \<in> set ps. contains_direct_child directory p"
    and "\<forall>p \<in> set ps. map_of (mg_entries g) (path_key p) \<noteq> None"
  shows "\<exists>g' is. apply_each apply_removed ps g = (g', Done is) \<and> placed directory g' \<and>
    present_at g' = (\<lambda>k. if k \<in> path_key ` set ps then None else present_at g k) \<and>
    module_at g' = module_at g"
  using assms
proof (induction ps arbitrary: g)
  case Nil
  then show ?case by (simp add: give_def)
next
  case (Cons p ps)
  have p: "contains_direct_child directory p" "map_of (mg_entries g) (path_key p) \<noteq> None"
    using Cons.prems(2,3) by simp_all
  obtain g1 i where 1: "apply_removed p g = (g1, Done i)" "placed directory g1"
    "present_at g1 = (present_at g)(path_key p := None)" "module_at g1 = module_at g"
    "\<And>k. map_of (mg_entries g) k \<noteq> None \<Longrightarrow> map_of (mg_entries g1) k \<noteq> None"
    by (rule removed_effect [OF Cons.prems(1) p]) (rule that)
  have rest: "\<forall>p \<in> set ps. contains_direct_child directory p"
    "\<forall>p \<in> set ps. map_of (mg_entries g1) (path_key p) \<noteq> None"
    using Cons.prems(2,3) 1(5) by simp_all
  obtain g2 "is" where 2: "apply_each apply_removed ps g1 = (g2, Done is)" "placed directory g2"
    "present_at g2 = (\<lambda>k. if k \<in> path_key ` set ps then None else present_at g1 k)"
    "module_at g2 = module_at g1"
    using Cons.IH [OF 1(2) rest] by blast
  then show ?case using 1 by (auto simp: then_do_def give_def fun_eq_iff)
qed

lemma refresh_effect:
  fixes g :: "('p, 'c, 'j) manager"
  assumes "placed directory g" and scan: "normalize_discovery directory scanned = Inr found"
  shows "\<exists>g' is. refresh_discovery (Some (Inr scanned)) g = (g', Done is) \<and> placed directory g' \<and>
    present_at g' = map_of (map (\<lambda>d. (path_key (dd_path d), d)) found) \<and> module_at g' = module_at g"
proof -
  let ?key = "\<lambda>d. path_key (dd_path d)"
  have dir: "mg_directory g = directory" using assms(1) by (simp add: placed_def)
  have found: "\<forall>d \<in> set found. contains_direct_child directory (dd_path d)" "distinct (map ?key found)"
    using scan unfolding normalize_discovery_iff
    by (auto simp: distinct_map)
  obtain g1 is1 where 1: "apply_each apply_upsert found g = (g1, Done is1)" "placed directory g1"
    "present_at g1 = present_at g ++ map_of (map (\<lambda>d. (?key d, d)) found)" "module_at g1 = module_at g"
    using upserts_effect [OF assms(1) found] by blast
  define gone where "gone = map (\<lambda>(k, e). dd_path (en_discovered e))
      (filter (\<lambda>(k, e). en_present e \<and> k \<notin> set (map ?key found)) (mg_entries g1))"
  have place: "path_key (dd_path (en_discovered e)) = k \<and> contains_direct_child directory (dd_path (en_discovered e))"
    if "(k, e) \<in> set (mg_entries g1)" for k e using 1(2) that by (auto simp: placed_def)
  have map: "(k, e) \<in> set (mg_entries g1) \<longleftrightarrow> map_of (mg_entries g1) k = Some e" for k e
    by (rule map_of_eq_Some_iff [OF bt_wf_distinct, symmetric]) (use 1(2) in \<open>simp add: placed_def\<close>)
  have "\<forall>p \<in> set gone. contains_direct_child directory p \<and> map_of (mg_entries g1) (path_key p) \<noteq> None"
    using place map by (auto simp: gone_def)
  then obtain g2 is2 where 2: "apply_each apply_removed gone g1 = (g2, Done is2)" "placed directory g2"
    "present_at g2 = (\<lambda>k. if k \<in> path_key ` set gone then None else present_at g1 k)"
    "module_at g2 = module_at g1"
    using removals_effect [OF 1(2)] by blast
  have gone: "path_key ` set gone = {k. present_at g1 k \<noteq> None \<and> k \<notin> ?key ` set found}"
  proof (rule set_eqI)
    fix k
    have "k \<in> path_key ` set gone \<longleftrightarrow>
        (\<exists>e. (k, e) \<in> set (mg_entries g1) \<and> en_present e \<and> k \<notin> ?key ` set found)"
    proof
      assume "k \<in> path_key ` set gone"
      then obtain j e where "(j, e) \<in> set (mg_entries g1)" "en_present e" "j \<notin> ?key ` set found"
        "k = path_key (dd_path (en_discovered e))" by (auto simp: gone_def)
      then show "\<exists>e. (k, e) \<in> set (mg_entries g1) \<and> en_present e \<and> k \<notin> ?key ` set found"
        using place by auto
    next
      assume "\<exists>e. (k, e) \<in> set (mg_entries g1) \<and> en_present e \<and> k \<notin> ?key ` set found"
      then obtain e where e: "(k, e) \<in> set (mg_entries g1)" "en_present e" "k \<notin> ?key ` set found" by blast
      then have "dd_path (en_discovered e) \<in> set gone" by (force simp: gone_def)
      then show "k \<in> path_key ` set gone" using place [OF e(1)] by auto
    qed
    then show "k \<in> path_key ` set gone \<longleftrightarrow> k \<in> {k. present_at g1 k \<noteq> None \<and> k \<notin> ?key ` set found}"
      by (auto simp: map present_at_def split: option.splits if_splits)
  qed
  have "present_at g2 = map_of (map (\<lambda>d. (?key d, d)) found)"
  proof
    fix k
    show "present_at g2 k = map_of (map (\<lambda>d. (?key d, d)) found) k"
    proof (cases "k \<in> ?key ` set found")
      case True
      then have "map_of (map (\<lambda>d. (?key d, d)) found) k \<noteq> None"
        by (auto simp: map_of_eq_None_iff image_iff)
      then show ?thesis using True gone 2(3) 1(3) by (auto simp: map_add_def split: option.splits)
    next
      case False
      then have "map_of (map (\<lambda>d. (?key d, d)) found) k = None"
        by (auto simp: map_of_eq_None_iff image_iff)
      then show ?thesis using False gone 2(3) by auto
    qed
  qed
  moreover have "refresh_discovery (Some (Inr scanned)) g = (g2, Done (is1 @ is2))"
    using scan dir 1(1) 2(1) unfolding gone_def
    by (simp add: refresh_discovery_def then_do_def lift_result_def give_def)
  ultimately show ?thesis using 1(4) 2(2,4) by auto
qed

section \<open>Refreshing\<close>

lemma placed_refresh:
  assumes "placed directory g"
  shows "placed directory (fst (refresh_discovery answer g))"
proof -
  have dir: "mg_directory g = directory" using assms by (simp add: placed_def)
  have failing: "placed directory (fst (then_do (emit s c ow) (\<lambda>_. fail_with e) g))" for s c ow e
    by (rule placed_end [OF _ assms]) (intro quiet_steps)
  consider "answer = None" | e where "answer = Some (Inl e)" | scanned where "answer = Some (Inr scanned)"
    by (metis option.exhaust sum.exhaust)
  then show ?thesis
  proof cases
    case 1
    show ?thesis unfolding refresh_discovery_def 1 option.case by (rule failing)
  next
    case 2
    then show ?thesis using assms by (simp add: refresh_discovery_def fail_with_def)
  next
    case 3
    show ?thesis
    proof (cases "normalize_discovery directory scanned")
      case (Inl e)
      then show ?thesis using assms 3 dir
        by (simp add: refresh_discovery_def then_do_def lift_result_def)
    next
      case (Inr found)
      then show ?thesis using refresh_effect [OF assms Inr] 3 by force
    qed
  qed
qed

lemma placed_event:
  assumes "placed directory g"
  shows "placed directory (fst (apply_directory_event event answer g))"
proof -
  have dir: "mg_directory g = directory" using assms by (simp add: placed_def)
  have give: "fst (then_do f (\<lambda>i. give [i]) g) = fst (f g)"
    for f :: "('a, 'b, 'c, directory_impact) operation"
    by (simp add: then_do_def give_def split: prod.splits outcome.splits)
  show ?thesis
  proof (cases event)
    case (EventUpsert d)
    have "placed directory (fst (apply_upsert d g))"
    proof (cases "contains_direct_child directory (dd_path d)")
      case True
      then show ?thesis using upsert_effect [OF assms True] by (metis fst_conv)
    qed (use assms dir in \<open>simp add: apply_upsert_def\<close>)
    then show ?thesis unfolding EventUpsert apply_directory_event_def directory_event.case give .
  next
    case (EventRemoved path)
    have "placed directory (fst (apply_removed path g))"
    proof (cases "contains_direct_child directory path \<and> map_of (mg_entries g) (path_key path) \<noteq> None")
      case True
      then show ?thesis using removed_effect [OF assms] by (metis fst_conv)
    qed (use assms dir in \<open>auto simp: apply_removed_def\<close>)
    then show ?thesis unfolding EventRemoved apply_directory_event_def directory_event.case give .
  next
    case (EventRenamed old target)
    show ?thesis unfolding EventRenamed apply_directory_event_def directory_event.case give
      by (rule placed_rename [OF assms])
  next
    case EventRescan
    then show ?thesis using placed_refresh [OF assms] by (simp add: apply_directory_event_def)
  qed
qed

lemma placed_step:
  assumes "manager_step A g g'" and "placed directory g"
  shows "placed directory g'"
  using assms
proof cases
  case (step_refresh answer)
  then show ?thesis using placed_refresh [OF assms(2)] by simp
next
  case (step_event event answer)
  then show ?thesis using placed_event [OF assms(2)] by simp
next
  case step_enter
  then show ?thesis using assms(2) by (simp add: placed_places places_module)
next
  case step_leave
  then show ?thesis using assms(2) by (simp add: placed_places places_module)
qed (use stays_placed [OF stays_inspect assms(2)] stays_placed [OF stays_activate assms(2)]
    stays_placed [OF stays_request assms(2)] stays_placed [OF stays_drain assms(2)]
    stays_placed [OF stays_unload assms(2)] stays_placed [OF stays_finish assms(2)]
    stays_placed [OF stays_retry assms(2)] stays_placed [OF stays_cleanup_failure assms(2)]
    stays_placed [OF stays_reload assms(2)] placed_end [OF quiet_set_enabled assms(2)]
    in \<open>simp_all add: placed_def finish_startup_def take_diagnostics_def Let_def split: prod.splits\<close>)

lemma placed_history:
  assumes "(manager_step A)\<^sup>*\<^sup>* (manager_new directory native cleaner ownership configs access options) g"
  shows "placed directory g"
  using assms
proof (induction rule: rtranclp_induct)
  case base
  show ?case by (simp add: placed_def manager_new_def)
qed (rule placed_step)

text \<open>
  C38.
  The manager's table of candidates is well formed after any history: its keys are strictly
  increasing, each is the key of the path its entry holds, and that path is a direct child of the
  managed directory, so no library has two entries and none outside the directory has one.
\<close>
theorem entries_well_filed:
  assumes "(manager_step A)\<^sup>*\<^sup>* (manager_new directory native cleaner ownership configs access options) g"
  shows "sorted_wrt (<) (map fst (mg_entries g)) \<and>
    (map_of (mg_entries g) key = Some e \<longrightarrow>
       key = path_key (dd_path (en_discovered e)) \<and>
       contains_direct_child directory (dd_path (en_discovered e)))"
  using placed_history [OF assms] placed_known [OF placed_history [OF assms]]
  by (auto simp: placed_def bt_wf_def)

theorem entries_well_filed_witness:
  "sorted_wrt (<) (map fst (mg_entries (fst (apply_upsert demo_candidate demo_manager)))) \<and>
   map_of (mg_entries (fst (apply_upsert demo_candidate demo_manager))) (path_key demo_path) =
     Some (entry_discovered demo_candidate)"
proof -
  have run: "manager_step demo_manager_adapters demo_manager (fst (apply_upsert demo_candidate demo_manager))"
    using step_event [of demo_manager_adapters demo_manager "EventUpsert demo_candidate" None]
    by (simp add: apply_directory_event_def then_do_def give_def case_prod_unfold split: outcome.splits)
  have child: "contains_direct_child ''C:/'' (dd_path demo_candidate)"
    by (simp add: contains_direct_child_def demo_candidate_def demo_path_def)
  then have "map_of (mg_entries (fst (apply_upsert demo_candidate demo_manager))) (path_key demo_path) =
     Some (entry_discovered demo_candidate)"
    by (simp add: apply_upsert_def demo_manager_def manager_new_def then_do_def emit_def change_def give_def Let_def)
      (simp add: demo_candidate_def)
  then show ?thesis
    using entries_well_filed [OF r_into_rtranclp [of "manager_step demo_manager_adapters",
        OF run [unfolded demo_manager_def]]]
    unfolding demo_manager_def by blast
qed

text \<open>
  C37.
  After any history, a refresh whose scan is valid succeeds and makes the manager's view of the
  directory exactly the scan: every scanned library is present with its revision, nothing else
  is, and no loaded module is lost or replaced by it.
\<close>
theorem refresh_is_exact:
  assumes "(manager_step A)\<^sup>*\<^sup>* (manager_new directory native cleaner ownership configs access options) g"
    and "normalize_discovery directory scanned = Inr found"
  shows "\<exists>g' impacts. refresh_discovery (Some (Inr scanned)) g = (g', Done impacts) \<and>
    present_at g' = map_of (map (\<lambda>d. (path_key (dd_path d), d)) scanned) \<and> module_at g' = module_at g"
proof -
  have keys: "distinct (map (\<lambda>d. path_key (dd_path d)) scanned)"
    and found: "found = sort_key (\<lambda>d. path_key (dd_path d)) scanned"
    using assms(2) by (simp_all add: normalize_discovery_iff)
  have "map_of (map (\<lambda>d. (path_key (dd_path d), d)) found) = map_of (map (\<lambda>d. (path_key (dd_path d), d)) scanned)"
    using keys by (subst map_of_inject_set) (auto simp: found comp_def distinct_map)
  then show ?thesis using refresh_effect [OF placed_history [OF assms(1)] assms(2)] by metis
qed

theorem refresh_is_exact_witness:
  "\<exists>g' impacts. refresh_discovery (Some (Inr [demo_candidate])) demo_manager = (g', Done impacts) \<and>
     present_at g' (path_key demo_path) = Some demo_candidate"
proof -
  have child: "contains_direct_child ''C:/'' (dd_path demo_candidate)"
    by (simp add: contains_direct_child_def demo_candidate_def demo_path_def)
  then have "normalize_discovery ''C:/'' [demo_candidate] = Inr [demo_candidate]"
    by (simp add: normalize_discovery_def)
  from refresh_is_exact [OF rtranclp.rtrancl_refl this] show ?thesis
    unfolding demo_manager_def by (fastforce simp: demo_candidate_def)
qed

end
