(* ===== verification/Manager_Stuck.thy ===== *)
theory Manager_Stuck
  imports Manager_History
begin

text \<open>
  The cleanup of a failed activation when it is tried again
  (src/crates/nexus-addon-manager/src/manager.rs, \<open>cleanup_activation_failure\<close>).
\<close>

section \<open>Retries\<close>

definition stuck :: "string \<Rightarrow> owner_token \<Rightarrow> 'p addon_module \<Rightarrow> ('p, 'c, 'j) manager \<Rightarrow> bool" where
  "stuck key owner m g \<longleftrightarrow>
     mg_owner_paths g owner = Some key \<and>
     entry_is key (\<lambda>e. en_state e = MgrDraining \<and> en_module e = Some m) g"

lemma stuck_view: "native_view g' = native_view g \<Longrightarrow> stuck key owner m g' = stuck key owner m g"
  by (simp add: stuck_def entry_is_def native_view_def)

lemma stuck_quiet: "quiet f \<Longrightarrow> runs (stuck key owner m) f (\<lambda>_. stuck key owner m) (stuck key owner m)"
  using stuck_view by (intro runs_quiet) (unfold viewed_def, blast+)

lemma stuck_change:
  assumes "\<And>e. en_state (f e) = en_state e \<and> en_module (f e) = en_module e"
  shows "runs (stuck key owner m) (change_at k f) (\<lambda>_. stuck key owner m) (stuck key owner m)"
  using assms by (intro runs_change_at) (auto simp: stuck_def entry_is_def)

lemma stuck_cleanup_loop:
  "runs (stuck key owner m) (direct_cleanup_loop turns A k owner') (\<lambda>_. stuck key owner m) (stuck key owner m)"
proof (induction turns)
  case 0
  show ?case by (simp add: runs_def)
next
  case (Suc turns)
  have "direct_cleanup_loop (Suc turns) A k owner' =
      then_do (entry_at k) (\<lambda>e.
        if en_failed_cursor e < pre_drain_count
        then then_do (run_direct_cleanup A owner' (cleanup_order ! en_failed_cursor e)) (\<lambda>_.
             then_do (change_at k (\<lambda>e. e\<lparr>en_failed_cursor := en_failed_cursor e + 1\<rparr>)) (\<lambda>_.
               direct_cleanup_loop turns A k owner'))
        else give ())"
    by (rule ext) simp
  then show ?case
    by simp (intro runs_then [OF stuck_quiet] runs_if stuck_quiet runs_then [OF stuck_change] Suc.IH
        quiet_steps, simp)
qed

lemma stuck_wait:
  assumes "am_state m \<noteq> ModShutdownRequested"
  shows "runs (stuck key owner m) (wait_module key missing timeout script) (\<lambda>_ _. False) (stuck key owner m)"
proof (rule runsI)
  fix g :: "('a, 'b, 'c) manager"
  assume s: "stuck key owner m g"
  then obtain e where e: "map_of (mg_entries g) key = Some e" "en_state e = MgrDraining"
    "en_module e = Some m" by (auto simp: stuck_def entry_is_def)
  have "wait_module key missing timeout script g =
      (g\<lparr>mg_native := record_leaves 0 (mg_native g),
         mg_entries := bt_update key (\<lambda>e. e\<lparr>en_module := Some m\<rparr>) (mg_entries g)\<rparr>,
       Failed (MgrModule (ModInvalidTransition DrainCallbacks (am_state m))))"
    using assms e by (simp add: wait_module_def with_module_def mod_wait_for_callbacks_def lift_result_def)
  then show "case snd (wait_module key missing timeout script g) of Done a \<Rightarrow> False
      | _ \<Rightarrow> stuck key owner m (fst (wait_module key missing timeout script g))"
    using s e by (simp add: stuck_def entry_is_def)
qed

lemma stuck_attempt:
  assumes "am_state m \<noteq> ModShutdownRequested"
  shows "runs (stuck key owner m) (cleanup_activation_failure A owner timeout hs ms) (\<lambda>_ _. False)
    (stuck key owner m)"
proof -
  have key: "runs (stuck key owner m) (owner_key owner) (\<lambda>k g. stuck key owner m g \<and> k = key)
      (stuck key owner m)"
    by (auto simp: runs_def owner_key_def stuck_def split: option.splits)
  have entry: "runs (stuck key owner m) (entry_at key)
      (\<lambda>e g. stuck key owner m g \<and> en_state e = MgrDraining) (stuck key owner m)"
    by (auto simp: runs_def entry_at_def stuck_def entry_is_def split: option.splits)
  show ?thesis unfolding cleanup_activation_failure_def
    by (rule runs_then [OF key], rule runs_pure, simp only:, rule runs_then [OF entry], rule runs_pure,
        rule runs_then [OF stuck_quiet [OF quiet_require]],
        rule runs_then [where Q = "\<lambda>_. stuck key owner m"],
        simp add: begin_failed_cleanup_def stuck_quiet quiet_give, rule runs_then [OF stuck_cleanup_loop],
        rule runs_then [OF stuck_quiet [OF quiet_wait_host]], rule runs_then [OF stuck_wait [OF assms]])
      (simp add: runs_def)
qed

lemma stuck_drain:
  assumes "am_state m \<noteq> ModShutdownRequested"
  shows "runs (stuck key owner m) (drain A owner timeout hs ms) (\<lambda>_ _. False) (stuck key owner m)"
proof -
  have key: "runs (stuck key owner m) (owner_key owner) (\<lambda>k g. stuck key owner m g \<and> k = key)
      (stuck key owner m)"
    by (auto simp: runs_def owner_key_def stuck_def split: option.splits)
  have draining: "runs (stuck key owner m) (change_at key (\<lambda>e. e\<lparr>en_state := MgrDraining\<rparr>))
      (\<lambda>_. stuck key owner m) (stuck key owner m)"
    by (intro runs_change_at) (auto simp: stuck_def entry_is_def)
  show ?thesis unfolding drain_def
    by (rule runs_then [OF key], rule runs_pure, simp only:, rule runs_then [OF stuck_quiet [OF quiet_entry_at]],
        rule runs_then [OF stuck_quiet [OF quiet_require]], rule runs_then [OF draining],
        rule runs_then [OF stuck_quiet [OF quiet_drain_host]], rule runs_then [OF stuck_wait [OF assms]])
      (simp add: runs_def)
qed

text \<open>A further attempt: the cleanup itself, or the drain that a draining entry also accepts.\<close>

definition cleanup_retried :: "owner_token \<Rightarrow> ('p, 'c, 'j) manager \<Rightarrow> ('p, 'c, 'j) manager \<Rightarrow> bool" where
  "cleanup_retried owner g g' \<longleftrightarrow>
     (\<exists>A timeout hs ms. g' = fst (cleanup_activation_failure A owner timeout hs ms g) \<or>
        g' = fst (drain A owner timeout hs ms g))"

lemma runs_never: "runs P f (\<lambda>_ _. False) E \<Longrightarrow> P g \<Longrightarrow> E (fst (f g)) \<and> snd (f g) \<noteq> Done a"
  by (cases "snd (f g)") (auto simp: runs_def dest!: spec [of _ g])

lemma stuck_retried:
  assumes "(cleanup_retried owner)\<^sup>*\<^sup>* g g'" and "stuck key owner m g" and "am_state m \<noteq> ModShutdownRequested"
  shows "stuck key owner m g'"
  using assms(1,2)
proof (induction rule: rtranclp_induct)
  case (step g1 g2)
  have s: "stuck key owner m g1" using step.IH step.prems .
  have "stuck key owner m (fst (cleanup_activation_failure A owner timeout hs ms g1))" for A timeout hs ms
    using runs_never [OF stuck_attempt [OF assms(3)] s] by blast
  moreover have "stuck key owner m (fst (drain A owner timeout hs ms g1))" for A timeout hs ms
    using runs_never [OF stuck_drain [OF assms(3)] s] by blast
  ultimately show ?case using step.hyps(2) by (auto simp: cleanup_retried_def)
qed

text \<open>
  C36.
  The cleanup of a failed activation can be tried again only until its callbacks have drained.
  Once the module has left the shutdown-requested state while the entry is still draining, which
  a failing cleanup of the owned resources or an unload callback that unwinds brings about, every
  further attempt fails and leaves entry and module as they are: the library stays loaded, however
  the adapters have recovered.
\<close>
theorem failed_cleanup_cannot_resume:
  assumes "mg_owner_paths g owner = Some key"
    and "map_of (mg_entries g) key = Some e" and "en_state e = MgrDraining" and "en_module e = Some m"
    and "am_state m \<noteq> ModShutdownRequested" and "(cleanup_retried owner)\<^sup>*\<^sup>* g g'"
  shows "(\<exists>e'. map_of (mg_entries g') key = Some e' \<and> en_state e' = MgrDraining \<and> en_module e' = Some m) \<and>
    snd (cleanup_activation_failure A owner timeout hs ms g') \<noteq> Done ()"
proof -
  have "stuck key owner m g" using assms(1-4) by (simp add: stuck_def entry_is_def)
  then have s: "stuck key owner m g'" using stuck_retried [OF assms(6) _ assms(5)] by blast
  then show ?thesis using runs_never [OF stuck_attempt [OF assms(5)] s]
    by (simp add: stuck_def entry_is_def)
qed

text \<open>A module whose load callback unwound, and a cleaner that fails on the owned resources once.\<close>

definition demo_failed :: "unit addon_module \<Rightarrow> (unit, unit, demo_value) manager" where
  "demo_failed m = demo_manager
     \<lparr>mg_entries := [(''a'', (entry_discovered demo_candidate)
        \<lparr>en_state := MgrActivationFailed, en_owner := Some demo_owner,
         en_module := Some (m\<lparr>am_state := ModActivationFailed, am_gate := fst (gate_close gate_open)\<rparr>)\<rparr>)],
      mg_owner_paths := [demo_owner \<mapsto> ''a''],
      mg_host := (host_with (Some ()))\<lparr>ah_records := [demo_owner \<mapsto>
        \<lparr>ar_owner = demo_owner, ar_definition = am_owned m, ar_load_mode = InitialLoad,
         ar_state = LoadFailed, ar_cleanup_cursor = 0\<rparr>]\<rparr>\<rparr>"

definition demo_busy_adapters :: "(unit, unit, demo_value) adapters" where
  "demo_busy_adapters = demo_manager_adapters
     \<lparr>ad_clean := (\<lambda>owner phase c. (c, Some (if phase = OwnedResources then Inl ''busy'' else Inr ())))\<rparr>"

theorem failed_cleanup_cannot_resume_witness:
  "\<exists>m. let (g, r) = cleanup_activation_failure demo_busy_adapters demo_owner 1 [] [] (demo_failed m)
       in r = Failed (MgrHost HostCleanup) \<and>
          snd (cleanup_activation_failure demo_manager_adapters demo_owner 1 [] [] g) \<noteq> Done ()"
proof -
  obtain m :: "unit addon_module" where "am_state m = ModInspected" using demo_load by metis
  define m2 where "m2 = m\<lparr>am_state := ModQuiesced, am_gate := fst (gate_close gate_open)\<rparr>"
  define g where "g = fst (cleanup_activation_failure demo_busy_adapters demo_owner 1 [] [] (demo_failed m))"
  have loop: "direct_cleanup_loop 3 A k ow = direct_cleanup_loop (Suc (Suc (Suc 0))) A k ow"
    for A :: "(unit, unit, demo_value) adapters" and k ow by (simp add: numeral_3_eq_3)
  note ev = cleanup_activation_failure_def then_do_def demo_failed_def owner_key_def entry_at_def require_def
    demo_manager_def manager_new_def begin_failed_cleanup_def close_ownership_def change_def addr_close_def
    with_module_def mod_request_shutdown_def mod_close_gate_def gate_close_def gate_open_def lift_result_def
    change_at_def run_direct_cleanup_def shared_cleanup_def cleaner_lease_def cleaner_restore_def
    host_with_def cleanup_order_def pre_drain_count_def demo_busy_adapters_def demo_manager_adapters_def
    wait_host_gate_def host_callback_gate_def gate_wait_def wait_module_def mod_wait_for_callbacks_def
    record_leaves_def entry_discovered_def give_def bt_update_def loop unwound_read_def
  have r: "snd (cleanup_activation_failure demo_busy_adapters demo_owner 1 [] [] (demo_failed m)) =
      Failed (MgrHost HostCleanup)"
    and paths: "mg_owner_paths g demo_owner = Some ''a''"
    and entry: "\<exists>e. map_of (mg_entries g) ''a'' = Some e \<and> en_state e = MgrDraining \<and> en_module e = Some m2"
    unfolding g_def by (simp_all add: ev m2_def)
  then obtain e where e: "map_of (mg_entries g) ''a'' = Some e" "en_state e = MgrDraining" "en_module e = Some m2"
    by blast
  have "am_state m2 \<noteq> ModShutdownRequested" by (simp add: m2_def)
  from failed_cleanup_cannot_resume [OF paths e this rtranclp.rtrancl_refl]
  have "snd (cleanup_activation_failure demo_manager_adapters demo_owner 1 [] [] g) \<noteq> Done ()" by blast
  then show ?thesis using r by (intro exI [of _ m]) (simp add: g_def case_prod_unfold)
qed

end
