(* ===== verification/Manager_Unload.thy ===== *)
theory Manager_Unload
  imports Manager_History
begin

text \<open>
  An unload that meets no failure: the manager's unload request, drain, native unload and release
  in a row take an active addon to the unloaded state.
\<close>

section \<open>Where an unload stands\<close>

record unload_point =
  at_state :: manager_state
  at_module :: module_state
  at_host :: lifecycle_state
  at_cursor :: nat

definition unload_at ::
  "owner_token \<Rightarrow> string \<Rightarrow> usize \<Rightarrow> usize \<Rightarrow> bool \<Rightarrow> (callback_gate \<Rightarrow> bool) \<Rightarrow> callback_gate \<Rightarrow> unload_point \<Rightarrow>
   ('p, 'c, 'j) manager \<Rightarrow> bool"
where
  "unload_at owner key handle unload present host_gate module_gate p g \<longleftrightarrow>
     mg_owner_paths g owner = Some key \<and>
     (\<exists>e m. map_of (mg_entries g) key = Some e \<and> en_state e = at_state p \<and> en_present e = present \<and>
        en_return_state e = None \<and>
        en_module e = Some m \<and> am_state m = at_module p \<and> am_handle m = Some handle \<and>
        am_unload m = unload \<and> am_gate m = module_gate) \<and>
     (\<exists>r. ah_records (mg_host g) owner = Some r \<and> ar_owner r = owner \<and> ar_state r = at_host p \<and>
        ar_cleanup_cursor r = at_cursor p) \<and>
     ah_cleaner (mg_host g) \<noteq> None \<and> host_gate (ah_gates (mg_host g) owner)"

text \<open>While the host runs, an addon whose definition disables hot loading is not unloaded.\<close>

definition may_unload :: "unload_reason \<Rightarrow> owner_token \<Rightarrow> ('p, 'c, 'j) manager \<Rightarrow> bool" where
  "may_unload reason owner g \<longleftrightarrow>
     reason = ShutdownUnload \<or>
     (case ah_records (mg_host g) owner of
        None \<Rightarrow> True
      | Some r \<Rightarrow> \<not> flags_contain (od_flags (ar_definition r)) flag_disable_hot_loading)"

lemma runs_request:
  "runs (\<lambda>g. unload_at owner key h ul pr (\<lambda>g. g = hg) mg
        \<lparr>at_state = MgrActive, at_module = ModActive, at_host = Loaded, at_cursor = 0\<rparr> g \<and>
      may_unload reason owner g)
     (manager_request_unload owner reason)
     (\<lambda>_. unload_at owner key h ul pr (\<lambda>g. g = hg\<lparr>accepting := False\<rparr>) (mg\<lparr>accepting := False\<rparr>)
        \<lparr>at_state = MgrUnloadRequested, at_module = ModShutdownRequested, at_host = UnloadRequested, at_cursor = 0\<rparr>)
     (\<lambda>_. False)"
  by (auto simp: runs_def unload_at_def may_unload_def manager_request_unload_def then_do_def owner_key_def entry_at_def
      require_def host_try_def host_op_def request_unload_def record_in_def put_record_def close_gate_def
      lift_result_def with_module_def mod_request_shutdown_def mod_close_gate_def gate_close_def
      change_at_def emit_def change_def)

section \<open>Cleanup that succeeds\<close>

definition cleans :: "('p, 'c, 'j) adapters \<Rightarrow> owner_token \<Rightarrow> bool" where
  "cleans A owner \<longleftrightarrow> (\<forall>phase c. snd (ad_clean A owner phase c) = Some (Inr ()))"

lemma shared_cleans:
  assumes "cleans A owner"
  obtains c' where "shared_cleanup A owner phase (Some c) = (Some c', Inr ())"
proof -
  obtain c' r where call: "ad_clean A owner phase c = (c', r)" by fastforce
  then have "r = Some (Inr ())" using assms by (metis cleans_def snd_conv)
  then show ?thesis using call that [of c']
    by (simp add: shared_cleanup_def cleaner_lease_def cleaner_restore_def)
qed

lemma until_cleans:
  assumes "cleans A owner"
  shows "ar_cleanup_cursor r \<le> bound \<Longrightarrow> ar_owner r = owner \<Longrightarrow>
    \<exists>c'. cleanup_until (shared_cleanup A) bound r (Some c) = (Some c', r\<lparr>ar_cleanup_cursor := bound\<rparr>, Inr ())"
proof (induction "bound - ar_cleanup_cursor r" arbitrary: r c)
  case 0
  then have "bound = ar_cleanup_cursor r" by simp
  then have "cleanup_until (shared_cleanup A) bound r (Some c) = (Some c, r\<lparr>ar_cleanup_cursor := bound\<rparr>, Inr ())"
    by (subst cleanup_until.simps) simp
  then show ?case by blast
next
  case (Suc n)
  obtain c1 where one: "shared_cleanup A owner (cleanup_order ! ar_cleanup_cursor r) (Some c) = (Some c1, Inr ())"
    by (rule shared_cleans [OF assms])
  define r1 where "r1 = r\<lparr>ar_cleanup_cursor := ar_cleanup_cursor r + 1\<rparr>"
  have "\<exists>c'. cleanup_until (shared_cleanup A) bound r1 (Some c1) =
      (Some c', r1\<lparr>ar_cleanup_cursor := bound\<rparr>, Inr ())"
    by (rule Suc.hyps(1)) (use Suc.hyps(2) Suc.prems in \<open>simp_all add: r1_def\<close>)
  moreover have "cleanup_until (shared_cleanup A) bound r (Some c) = cleanup_until (shared_cleanup A) bound r1 (Some c1)"
  proof -
    have "ar_cleanup_cursor r < bound" using Suc.hyps(2) by simp
    then show ?thesis using Suc.prems(2) one
      by (simp add: cleanup_until.simps [of _ bound r] cleanup_next_phase_def r1_def)
  qed
  ultimately show ?case by (simp add: r1_def)
qed

lemma drain_cleans:
  assumes "cleans A owner" and "ah_records h owner = Some r" and "ar_owner r = owner"
    and "ar_state r = UnloadRequested" and "ar_cleanup_cursor r = 0" and "ah_cleaner h = Some c"
    and wait: "gate_wait timeout script (ah_gates h owner) = (hg, Some True)"
  obtains c' where "drain_registrations (shared_cleanup A) owner timeout script h =
    Some (put_record owner (r\<lparr>ar_state := Draining, ar_cleanup_cursor := 3\<rparr>)
       (h\<lparr>ah_cleaner := Some c', ah_gates := (ah_gates h)(owner := hg)\<rparr>), Inr ())"
proof -
  let ?r = "r\<lparr>ar_state := Draining\<rparr>"
  obtain c1 where 1: "cleanup_until (shared_cleanup A) pre_drain_count ?r (Some c) =
      (Some c1, ?r\<lparr>ar_cleanup_cursor := pre_drain_count\<rparr>, Inr ())"
    using until_cleans [OF assms(1), of ?r pre_drain_count c] assms(3,5) by auto
  obtain c2 where 2: "cleanup_until (shared_cleanup A) (length cleanup_order)
      (?r\<lparr>ar_cleanup_cursor := pre_drain_count\<rparr>) (Some c1) =
      (Some c2, ?r\<lparr>ar_cleanup_cursor := length cleanup_order\<rparr>, Inr ())"
    using until_cleans [OF assms(1), of "?r\<lparr>ar_cleanup_cursor := pre_drain_count\<rparr>" "length cleanup_order" c1]
      assms(3) by (auto simp: pre_drain_count_def cleanup_order_def)
  have "length cleanup_order = 3" by (simp add: cleanup_order_def)
  then show ?thesis using that [of c2] assms(2-7) 1 2
    by (simp add: drain_registrations_def record_in_def put_record_def Let_def)
qed

lemma runs_drain:
  assumes "cleans A owner" and "gate_wait timeout hs hg = (hg', Some True)"
    and "gate_wait timeout ms mg = (mg', Some True)"
  shows "runs (unload_at owner key h ul pr (\<lambda>g. g = hg) mg
      \<lparr>at_state = MgrUnloadRequested, at_module = ModShutdownRequested, at_host = UnloadRequested, at_cursor = 0\<rparr>)
     (drain A owner timeout hs ms)
     (\<lambda>_. unload_at owner key h ul pr (\<lambda>g. in_flight g = 0) mg'
        \<lparr>at_state = MgrDrained, at_module = ModQuiesced, at_host = Draining, at_cursor = 3\<rparr>) (\<lambda>_. False)"
proof (rule runsI)
  fix g :: "('a, 'b, 'c) manager"
  assume at: "unload_at owner key h ul pr (\<lambda>g. g = hg) mg
      \<lparr>at_state = MgrUnloadRequested, at_module = ModShutdownRequested, at_host = UnloadRequested, at_cursor = 0\<rparr> g"
  then obtain e m r where e: "map_of (mg_entries g) key = Some e" "en_state e = MgrUnloadRequested"
      "en_present e = pr" "en_return_state e = None" "en_module e = Some m" "am_state m = ModShutdownRequested"
      "am_handle m = Some h" "am_unload m = ul" "am_gate m = mg"
    and r: "ah_records (mg_host g) owner = Some r" "ar_owner r = owner" "ar_state r = UnloadRequested"
      "ar_cleanup_cursor r = 0" "ah_gates (mg_host g) owner = hg"
    and path: "mg_owner_paths g owner = Some key" and cleaner: "ah_cleaner (mg_host g) \<noteq> None"
    by (auto simp: unload_at_def)
  obtain c where "ah_cleaner (mg_host g) = Some c" using cleaner by blast
  then obtain c' where d: "drain_registrations (shared_cleanup A) owner timeout hs (mg_host g) =
    Some (put_record owner (r\<lparr>ar_state := Draining, ar_cleanup_cursor := 3\<rparr>)
       ((mg_host g)\<lparr>ah_cleaner := Some c', ah_gates := (ah_gates (mg_host g))(owner := hg')\<rparr>), Inr ())"
    using drain_cleans [OF assms(1) r(1-4)] assms(2) r(5) by metis
  show "case snd (drain A owner timeout hs ms g) of
      Done a \<Rightarrow> unload_at owner key h ul pr (\<lambda>g. in_flight g = 0) mg'
        \<lparr>at_state = MgrDrained, at_module = ModQuiesced, at_host = Draining, at_cursor = 3\<rparr>
        (fst (drain A owner timeout hs ms g))
    | _ \<Rightarrow> False"
    using e r path d assms(3) gate_wait_True [OF assms(2)]
    by (simp add: drain_def then_do_def owner_key_def entry_at_def require_def change_at_def drain_host_def
        wait_module_def with_module_def mod_wait_for_callbacks_def lift_result_def emit_def change_def
        unload_at_def put_record_def Let_def)
qed

lemma close_in_flight:
  assumes "addr_close owner (idx, gates) = ((idx', gates'), b)"
  shows "in_flight (gates' o1) = in_flight (gates o1)"
  using assms by (auto simp: addr_close_def gate_close_def split: option.splits)

lemma runs_unload:
  assumes "\<And>p. snd (lp_call_unload (ad_platform A) ul p) = Some ()"
  shows "runs (unload_at owner key h ul pr (\<lambda>g. in_flight g = 0) mg
      \<lparr>at_state = MgrDrained, at_module = ModQuiesced, at_host = Draining, at_cursor = 3\<rparr>)
     (invoke_native_unload A owner)
     (\<lambda>_. unload_at owner key h ul pr (\<lambda>g. in_flight g = 0) mg
        \<lparr>at_state = MgrNativeUnloadComplete, at_module = ModUnloadComplete, at_host = Draining, at_cursor = 3\<rparr>)
     (\<lambda>_. False)"
proof (rule runsI)
  fix g :: "('a, 'b, 'c) manager"
  assume "unload_at owner key h ul pr (\<lambda>g. in_flight g = 0) mg
      \<lparr>at_state = MgrDrained, at_module = ModQuiesced, at_host = Draining, at_cursor = 3\<rparr> g"
  then obtain e m r where e: "map_of (mg_entries g) key = Some e" "en_state e = MgrDrained"
      "en_present e = pr" "en_return_state e = None" "en_module e = Some m" "am_state m = ModQuiesced"
      "am_handle m = Some h" "am_unload m = ul" "am_gate m = mg"
    and r: "ah_records (mg_host g) owner = Some r" "ar_owner r = owner" "ar_state r = Draining"
      "ar_cleanup_cursor r = 3" "in_flight (ah_gates (mg_host g) owner) = 0"
    and path: "mg_owner_paths g owner = Some key" and cleaner: "ah_cleaner (mg_host g) \<noteq> None"
    by (auto simp: unload_at_def)
  have "\<exists>w. native_call_unload (ad_platform A) ul (mg_native g) = (w, Some ())"
    using assms by (simp add: native_call_unload_def query_def case_prod_unfold)
  then obtain w where w: "mod_invoke_unload (ad_platform A) m (mg_native g) =
      (w, m\<lparr>am_state := ModUnloadComplete\<rparr>, Inr ())"
    using e(6,8) by (cases "ul = 0") (auto simp: mod_invoke_unload_def)
  obtain idx gates b where close: "addr_close owner (mg_ownership g, ah_gates (mg_host g)) = ((idx, gates), b)"
    by (metis prod.exhaust)
  show "case snd (invoke_native_unload A owner g) of
      Done a \<Rightarrow> unload_at owner key h ul pr (\<lambda>g. in_flight g = 0) mg
        \<lparr>at_state = MgrNativeUnloadComplete, at_module = ModUnloadComplete, at_host = Draining, at_cursor = 3\<rparr>
        (fst (invoke_native_unload A owner g))
    | _ \<Rightarrow> False"
    using e r path cleaner w close close_in_flight [OF close, of owner]
    by (simp add: invoke_native_unload_def unload_call_def then_do_def owner_key_def entry_at_def require_def
        change_at_def with_module_def lift_result_def close_ownership_def emit_def change_def unload_at_def)
qed

definition unloaded_at ::
  "owner_token \<Rightarrow> string \<Rightarrow> bool \<Rightarrow> ('p, 'c, 'j) manager \<Rightarrow> bool"
where
  "unloaded_at owner key present g \<longleftrightarrow>
     (\<exists>e. map_of (mg_entries g) key = Some e \<and> en_module e = None \<and> en_owner e = None \<and>
        en_state e = (if present then MgrUnloaded else MgrRemoved)) \<and>
     (\<exists>r. ah_records (mg_host g) owner = Some r \<and> ar_state r = Unloaded) \<and>
     (\<forall>a. owner_for_address (mg_ownership g) a \<noteq> Some owner)"

lemma runs_finish:
  assumes "\<And>p. snd (lp_free_library (ad_platform A) h p) = Some (Inr ())" and "in_flight mg = 0"
  shows "runs (unload_at owner key h ul pr (\<lambda>g. in_flight g = 0) mg
      \<lparr>at_state = MgrNativeUnloadComplete, at_module = ModUnloadComplete, at_host = Draining, at_cursor = 3\<rparr>)
     (finish_unload A owner) (\<lambda>_. unloaded_at owner key pr) (\<lambda>_. False)"
proof (rule runsI)
  fix g :: "('a, 'b, 'c) manager"
  assume "unload_at owner key h ul pr (\<lambda>g. in_flight g = 0) mg
      \<lparr>at_state = MgrNativeUnloadComplete, at_module = ModUnloadComplete, at_host = Draining, at_cursor = 3\<rparr> g"
  then obtain e m r where e: "map_of (mg_entries g) key = Some e" "en_state e = MgrNativeUnloadComplete"
      "en_present e = pr" "en_return_state e = None" "en_module e = Some m" "am_state m = ModUnloadComplete"
      "am_handle m = Some h" "am_unload m = ul" "am_gate m = mg"
    and r: "ah_records (mg_host g) owner = Some r" "ar_owner r = owner" "ar_state r = Draining"
      "ar_cleanup_cursor r = 3" "in_flight (ah_gates (mg_host g) owner) = 0"
    and path: "mg_owner_paths g owner = Some key"
    by (auto simp: unload_at_def)
  define m1 where "m1 = m\<lparr>am_state := ModCleanupComplete\<rparr>"
  define w1 where "w1 = record_call (RanCleanup True) (mg_native g)"
  have clean: "mod_complete_cleanup CleanupOk m (mg_native g) = (w1, m1, Inr ())"
    using e(6) by (simp add: mod_complete_cleanup_def m1_def w1_def)
  have "\<exists>w2. native_free_library (ad_platform A) h w1 = (w2, Some (Inr ()))"
    using assms(1) by (simp add: native_free_library_def query_def case_prod_unfold)
  then obtain w2 where free: "native_free_library (ad_platform A) h w1 = (w2, Some (Inr ()))" by blast
  then have release: "mod_release (ad_platform A) m1 w1 =
      (w2, m1\<lparr>am_handle := None, am_state := ModReleased\<rparr>, Inr ())"
    using e(7,9) assms(2) by (simp add: mod_release_def m1_def)
  have "owner_for_address (fst (addr_retire owner idx)) a \<noteq> Some owner" for idx :: "owner_token addr_index" and a
    by (auto simp: owner_for_address_def addr_retire_def Let_def dest!: find_Some_iff_in)
  moreover have "length cleanup_order = 3" by (simp add: cleanup_order_def)
  ultimately show "case snd (finish_unload A owner g) of
      Done a \<Rightarrow> unloaded_at owner key pr (fst (finish_unload A owner g)) | _ \<Rightarrow> False"
    using e r path clean release
    by (simp add: finish_unload_def cleanup_call_def then_do_def owner_key_def entry_at_def require_def
        change_at_def with_module_def lift_result_def take_module_def release_taken_def release_module_def
        finish_successful_release_def host_op_def acknowledge_module_released_def record_in_def put_record_def
        release_active_def give_def retire_ownership_def emit_def change_def unloaded_at_def released_entry_def
        absent_or_def)
qed

section \<open>The whole unload\<close>

text \<open>The calls a host makes to unload an addon, each after the success of the one before.\<close>

definition unload_sequence ::
  "('p, 'c, 'j) adapters \<Rightarrow> owner_token \<Rightarrow> unload_reason \<Rightarrow> nat \<Rightarrow> wait_round list \<Rightarrow>
   wait_round list \<Rightarrow> ('p, 'c, 'j, unit) operation"
where
  "unload_sequence A owner reason timeout hs ms =
     then_do (manager_request_unload owner reason) (\<lambda>_.
     then_do (drain A owner timeout hs ms) (\<lambda>_.
     then_do (invoke_native_unload A owner) (\<lambda>_.
       finish_unload A owner)))"

text \<open>
  C35.
  An active addon can be unloaded, at shutdown or, when its definition does not disable hot loading,
  while the host runs: when the cleaner succeeds, the callbacks of both gates leave in time, the
  unload callback returns and the platform releases the library, then request, drain, native unload
  and release all succeed, and leave the entry without module and owner and ready to be loaded
  again, the generation unloaded in the host, and no address attributed to it.
\<close>
theorem manager_unload_completes:
  assumes "unload_at owner key h ul pr (\<lambda>g. g = hg) mg
      \<lparr>at_state = MgrActive, at_module = ModActive, at_host = Loaded, at_cursor = 0\<rparr> g"
    and "may_unload reason owner g"
    and "cleans A owner"
    and "snd (gate_wait timeout hs (hg\<lparr>accepting := False\<rparr>)) = Some True"
    and "snd (gate_wait timeout ms (mg\<lparr>accepting := False\<rparr>)) = Some True"
    and "\<And>p. snd (lp_call_unload (ad_platform A) ul p) = Some ()"
    and "\<And>p. snd (lp_free_library (ad_platform A) h p) = Some (Inr ())"
  shows "\<exists>g' e r. unload_sequence A owner reason timeout hs ms g = (g', Done ()) \<and>
    map_of (mg_entries g') key = Some e \<and> en_module e = None \<and> en_owner e = None \<and>
    inspectable (en_state e) \<and> ah_records (mg_host g') owner = Some r \<and> ar_state r = Unloaded \<and>
    owner_for_address (mg_ownership g') a \<noteq> Some owner"
proof -
  obtain hg' mg' where wait: "gate_wait timeout hs (hg\<lparr>accepting := False\<rparr>) = (hg', Some True)"
    "gate_wait timeout ms (mg\<lparr>accepting := False\<rparr>) = (mg', Some True)"
    using assms(4,5) by (metis prod.collapse)
  have "runs (\<lambda>g. unload_at owner key h ul pr (\<lambda>g. g = hg) mg
        \<lparr>at_state = MgrActive, at_module = ModActive, at_host = Loaded, at_cursor = 0\<rparr> g \<and>
        may_unload reason owner g)
      (unload_sequence A owner reason timeout hs ms) (\<lambda>_. unloaded_at owner key pr) (\<lambda>_. False)"
    unfolding unload_sequence_def
    by (rule runs_then [OF runs_request], rule runs_then [OF runs_drain [OF assms(3) wait]],
        rule runs_then [OF runs_unload [OF assms(6)]],
        rule runs_finish [OF assms(7) gate_wait_True [OF wait(2)]])
  then have "case snd (unload_sequence A owner reason timeout hs ms g) of
      Done x \<Rightarrow> unloaded_at owner key pr (fst (unload_sequence A owner reason timeout hs ms g)) | _ \<Rightarrow> False"
    using assms(1,2) by (simp add: runs_def)
  then obtain g' where "unload_sequence A owner reason timeout hs ms g = (g', Done ())" and "unloaded_at owner key pr g'"
    by (cases "unload_sequence A owner reason timeout hs ms g") (auto split: outcome.splits)
  then show ?thesis by (auto simp: unloaded_at_def inspectable_def)
qed

definition demo_active :: "unit addon_module \<Rightarrow> (unit, unit, demo_value) manager" where
  "demo_active m = demo_manager
     \<lparr>mg_entries := [(''a'', (entry_discovered demo_candidate)
        \<lparr>en_state := MgrActive, en_owner := Some demo_owner, en_module := Some (m\<lparr>am_state := ModActive\<rparr>)\<rparr>)],
      mg_owner_paths := [demo_owner \<mapsto> ''a''],
      mg_host := (host_with (Some ()))\<lparr>ah_records := [demo_owner \<mapsto>
        \<lparr>ar_owner = demo_owner, ar_definition = am_owned m, ar_load_mode = InitialLoad,
         ar_state = Loaded, ar_cleanup_cursor = 0\<rparr>]\<rparr>\<rparr>"

theorem manager_unload_completes_witness:
  "\<exists>m g' e. unload_sequence demo_manager_adapters demo_owner ShutdownUnload 1 [] [] (demo_active m) = (g', Done ()) \<and>
     map_of (mg_entries g') ''a'' = Some e \<and> en_module e = None"
proof -
  obtain m :: "unit addon_module" where m: "am_handle m = Some 7" "am_gate m = gate_open" "am_unload m = 4098"
    using demo_load by metis
  have at: "unload_at demo_owner ''a'' 7 4098 True (\<lambda>g. g = gate_open) gate_open
      \<lparr>at_state = MgrActive, at_module = ModActive, at_host = Loaded, at_cursor = 0\<rparr> (demo_active m)"
    using m by (simp add: unload_at_def demo_active_def demo_manager_def manager_new_def entry_discovered_def
        host_with_def)
  have "may_unload ShutdownUnload demo_owner (demo_active m)"
    by (simp add: may_unload_def)
  moreover have "cleans demo_manager_adapters demo_owner"
    by (simp add: cleans_def demo_manager_adapters_def)
  moreover have "snd (gate_wait 1 [] (gate_open\<lparr>accepting := False\<rparr>)) = Some True"
    by (simp add: gate_wait_def gate_open_def)
  moreover have "snd (lp_call_unload (ad_platform demo_manager_adapters) 4098 p) = Some ()"
    "snd (lp_free_library (ad_platform demo_manager_adapters) 7 p) = Some (Inr ())" for p
    by (simp_all add: demo_manager_adapters_def demo_platform_def)
  ultimately show ?thesis using manager_unload_completes [OF at, of ShutdownUnload demo_manager_adapters 1 "[]" "[]"] by blast
qed

end
