(* ===== verification/Spec2Isabelle.thy ===== *)
theory Spec2Isabelle
  imports Address_Ownership Data_Link Event_Dispatch Dxgi_Reports Dxgi_Retirement Input_Managed
    Raw_WndProc Game_Persist Addon_Unload Network_Update Manager_Places Manager_Stuck
    Manager_Unload
begin

text \<open>
  A verification development for the Rust implementation of the Nexus addon runtime.

  \<^bold>\<open>The program.\<close> Nexus is loaded into a game process. It hooks the DXGI presentation
  calls, decides which of the game's swap chains is the primary one and draws an overlay into
  it; it loads addons (native modules that come and go while the game runs), which subscribe to
  events, register key bindings and window-procedure callbacks, share data, play game actions
  and fetch updates over the network. Three hazards shape the code: a callback must never run
  after its module was unloaded, a draw must never go to a surface other than the one the policy
  permitted, and files, libraries and resources must survive whatever fails half way.

  \<^bold>\<open>Theories and the code they model\<close> (paths below \<^verbatim>\<open>src/crates\<close>):

  \<^item> \<^verbatim>\<open>Nexus_Prelude\<close>: integers, association lists kept in key order (the code's
    \<^verbatim>\<open>BTreeMap\<close>), stable removal, lexicographic orderings; \<^verbatim>\<open>Text_Prelude\<close>: ASCII text
    as the code's string functions treat it, decimal and hexadecimal numbers.
  \<^item> \<^verbatim>\<open>Admission_Contract\<close>: the locale \<^verbatim>\<open>admission_control\<close>, the contract between a
    callback's permit counter and everything that retires callbacks.
  \<^item> \<^verbatim>\<open>Callback_Gate\<close>: \<^verbatim>\<open>nexus-core/src/callback_gate.rs\<close>. The gate, its methods, and
    the machine in which every atomic access of \<^verbatim>\<open>try_enter\<close> is a step of its own.
  \<^item> \<^verbatim>\<open>Owner_Token\<close>: \<^verbatim>\<open>OwnerToken\<close> and \<^verbatim>\<open>CallbackId\<close> of
    \<^verbatim>\<open>nexus-core/src/events.rs\<close>, and the locale \<^verbatim>\<open>owner_cleanup\<close> for registries that
    are cleaned by owner.
  \<^item> \<^verbatim>\<open>Address_Ownership\<close>: \<^verbatim>\<open>nexus-core/src/address_ownership.rs\<close>, the index from code
    addresses to owner generations, over any type of gate reference.
  \<^item> \<^verbatim>\<open>Data_Link\<close>: \<^verbatim>\<open>nexus-core/src/data_link.rs\<close>, the shared resources; \<^verbatim>\<open>share\<close>
    in one piece and split where it releases its lock.
  \<^item> \<^verbatim>\<open>Event_Admission\<close>, \<^verbatim>\<open>Event_Bus\<close>: the permits and the bus of
    \<^verbatim>\<open>nexus-core/src/events.rs\<close>, method by method; \<^verbatim>\<open>Event_Concurrency\<close>: the bus as a
    machine of threads whose steps are the critical sections of those methods;
    \<^verbatim>\<open>Event_Safety\<close>, \<^verbatim>\<open>Event_Guarantees\<close>, \<^verbatim>\<open>Event_Dispatch\<close>: its invariant and what
    follows from it.
  \<^item> \<^verbatim>\<open>Render_Observation\<close>, \<^verbatim>\<open>Render_Classifier\<close>, \<^verbatim>\<open>Render_Safety\<close>,
    \<^verbatim>\<open>Render_Session\<close>: the files of the same names in \<^verbatim>\<open>nexus-render/src\<close>.
  \<^item> \<^verbatim>\<open>Dxgi_Selection\<close>: the selection reports of \<^verbatim>\<open>nexus-dxgi/src/event.rs\<close>;
    \<^verbatim>\<open>Dxgi_Policy\<close>, \<^verbatim>\<open>Dxgi_Manager\<close>: \<^verbatim>\<open>PolicyState\<close> and the policy sections of the
    hook callbacks in \<^verbatim>\<open>nexus-dxgi/src/manager.rs\<close> and \<^verbatim>\<open>callbacks.rs\<close>;
    \<^verbatim>\<open>Dxgi_Tickets\<close>, \<^verbatim>\<open>Dxgi_Reports\<close>: what render tickets and reports guarantee over
    any sequence of sections; \<^verbatim>\<open>Dxgi_Retirement\<close>: the render lane and its queue of
    deferred retirements.
  \<^item> \<^verbatim>\<open>Panic_Gate\<close>, \<^verbatim>\<open>Raw_WndProc\<close>, \<^verbatim>\<open>Input_Bind\<close>, \<^verbatim>\<open>Input_Capture\<close>,
    \<^verbatim>\<open>Input_Managed\<close>, \<^verbatim>\<open>Game_Input\<close>, \<^verbatim>\<open>Game_Persist\<close>: the crate \<^verbatim>\<open>nexus-input\<close>:
    the panic budget of a registration (\<^verbatim>\<open>managed.rs\<close>), raw window-procedure callbacks
    (\<^verbatim>\<open>raw.rs\<close>), bindings and their text (\<^verbatim>\<open>bind.rs\<close>), capture, the managed registry, the
    invoker of game actions and its persistence (\<^verbatim>\<open>game.rs\<close>, \<^verbatim>\<open>game_ids.rs\<close>).
  \<^item> \<^verbatim>\<open>Addon_Definition\<close>: \<^verbatim>\<open>nexus-host/src/definition.rs\<close>, validation and deep copy of an
    exported definition; \<^verbatim>\<open>Addon_Host\<close>, \<^verbatim>\<open>Addon_Lifecycle\<close>, \<^verbatim>\<open>Addon_Unload\<close>:
    \<^verbatim>\<open>nexus-host/src/host.rs\<close>, its invariant and what an unload guarantees.
  \<^item> \<^verbatim>\<open>Addon_Cleanup\<close>, \<^verbatim>\<open>Cleanup_Order\<close>: \<^verbatim>\<open>nexus-addon-cleanup\<close>, the registration cleaner
    with its phases, progress and reports, and the order of its calls.
  \<^item> \<^verbatim>\<open>Network_Files\<close>, \<^verbatim>\<open>Network_Url\<close>, \<^verbatim>\<open>Network_Client\<close>, \<^verbatim>\<open>Network_Cache\<close>,
    \<^verbatim>\<open>Network_Update\<close>: the crate \<^verbatim>\<open>nexus-network\<close>: files, origins and targets, the HTTP
    client, the response cache, versions, releases and replacements.
  \<^item> \<^verbatim>\<open>Addon_Module\<close>, \<^verbatim>\<open>Addon_Module_Life\<close>: \<^verbatim>\<open>nexus-addon-loader\<close>, loading and
    inspecting a native module and its life up to the release, over a trace of the native calls.
  \<^item> \<^verbatim>\<open>Md5_Digest\<close>, \<^verbatim>\<open>Addon_Discovery\<close>, \<^verbatim>\<open>Addon_Config\<close>, \<^verbatim>\<open>Addon_Manager\<close>,
    \<^verbatim>\<open>Addon_Operations\<close>, \<^verbatim>\<open>Addon_Directory\<close>: the crate \<^verbatim>\<open>nexus-addon-manager\<close>: revisions,
    scans and diagnostics (\<^verbatim>\<open>discovery.rs\<close>, \<^verbatim>\<open>diagnostics.rs\<close>), the configuration document
    (\<^verbatim>\<open>config.rs\<close>), the manager's state and releases, its native operations, its directory
    operations and plans (\<^verbatim>\<open>manager.rs\<close>, \<^verbatim>\<open>plans.rs\<close>); \<^verbatim>\<open>Manager_Logic\<close>,
    \<^verbatim>\<open>Manager_Accounts\<close>, \<^verbatim>\<open>Manager_History\<close>, \<^verbatim>\<open>Manager_Places\<close>, \<^verbatim>\<open>Manager_Stuck\<close>,
    \<^verbatim>\<open>Manager_Unload\<close>: a logic of operations that may stop early, and what holds over any
    history of the manager.
\<close>

text \<open>
  \<^bold>\<open>How the parts fit.\<close> A DXGI hook callback samples the chain, enters the policy lock and
  runs one section (\<^verbatim>\<open>manager_op\<close>), which updates the observations, reconciles the
  classification with the sessions, asks the failure controller and issues a ticket; the
  render lane then re-validates the ticket and draws. Retirements found while another thread
  is in the lane are queued and drained by that thread. Independently, events are dispatched
  from a snapshot of subscriptions, one permit per callback; \<^verbatim>\<open>remove_owner\<close> closes the
  permits of a generation, removes its subscriptions and waits.

  The addon manager owns one entry per library of its directory. To load one it asks the loader
  for a module, the host for an owner generation and the ownership index for the module's range;
  to unload one it closes the gates, has the host run the cleaner over all services phase by
  phase, waits for both gates, calls the module's unload callback and releases the library. The
  host is the same record in \<^verbatim>\<open>Addon_Host\<close> and inside the manager, with the cleaner behind
  the manager's lease; the cleaner of \<^verbatim>\<open>Addon_Cleanup\<close> meets the host's contract as an
  interpretation of the locale of \<^verbatim>\<open>Addon_Lifecycle\<close>. The response cache and the updater
  write through \<^verbatim>\<open>Network_Files\<close>.

  \<^bold>\<open>Modelling conventions.\<close>

  \<^item> Structs are records, enums datatypes, \<^verbatim>\<open>u32\<close>, \<^verbatim>\<open>u64\<close> and \<^verbatim>\<open>usize\<close> machine words,
    errors values of a sum type. \<^verbatim>\<open>checked_add\<close> and \<^verbatim>\<open>saturating_add\<close> are written out.
    LUIDs and timestamps the code only compares or prints are integers.
  \<^item> A \<^verbatim>\<open>BTreeMap\<close> is an association list in key order; a \<^verbatim>\<open>HashMap\<close> is a map, or an
    association list where the code iterates over it.
  \<^item> Text is a list of characters, restricted to ASCII where the code folds case; text the code
    only stores or hashes is a list of bytes. A path is a record of what \<^verbatim>\<open>std::path\<close>
    answers about it.
  \<^item> A mutex or read-write section is one step. Sequences of sections are lists of operations
    (\<^verbatim>\<open>addr_apply\<close>, \<^verbatim>\<open>manager_run\<close>, \<^verbatim>\<open>host_run\<close>) or inductive step relations
    (\<^verbatim>\<open>gate_step\<close>, \<^verbatim>\<open>bus_step\<close>, \<^verbatim>\<open>lane_step\<close>, \<^verbatim>\<open>life_step\<close>, \<^verbatim>\<open>manager_step\<close>) with
    reachability by \<^verbatim>\<open>rtranclp\<close>. Atomic accesses are sequentially consistent single steps, as
    the orderings the code requests allow.
  \<^item> Code that is not in the repository is an argument: event handlers, the COM inspection of a
    swap chain, the allocator of shared resources, the native platform of the loader, the
    adapters of the cleaner, the HTTP transport, the JSON library, SHA-256, and the clock. A call
    that unwinds answers \<open>None\<close>; a file system call may fail by a schedule of faults, except
    that a failing creation of directories leaves none of them. The JSON library reads back what
    it printed exactly for integers, booleans, strings and the shape of values, but not for
    floating-point numbers. The message sink of the game may deliver any part of a batch it fails
    on, short of all of it (\<^verbatim>\<open>reports_undelivered\<close>, a hypothesis where it is needed).
  \<^item> A bounded wait is given the rounds it meets (which callbacks leave, what the clock reads),
    and is \<open>None\<close> or \<open>Waiting\<close> while those do not end it. The one loop with fuel,
    \<^verbatim>\<open>direct_cleanup_loop\<close>, gets three turns; each turn advances a cursor that stops at two, so
    they are enough (C40).
  \<^item> Counters that the code lets saturate or wrap are kept at their width. Where a guarantee
    needs that a counter did not reach its end, it says so: the gate and the bus count permits
    without a bound on threads only up to the word size, and a session's generation
    identifies its surface as long as it is not the last one.

  \<^bold>\<open>What the groups of lemmas show.\<close>

  \<^item> Callbacks: a closed and drained gate, a quiescent retirement and a returned
    \<^verbatim>\<open>unsubscribe\<close> are final under every interleaving (C3,
    C1, C2); addresses are attributed exactly
    (C15).
  \<^item> Rendering: the classifier selects the best admissible chain, without flapping while no
    user override applies
    (C27, C24); the failure budget is exact
    (C14); sessions refine a per-identity life cycle and their generations
    identify surfaces (C26, C16); a ticket is for
    the surface it was issued for (C4), retirements are delivered
    (C13), suppressed chains are not selected
    (C25).
  \<^item> Input: presses alternate with releases or removals, bindings are unique up to loaded
    documents, no main key stays stuck, though a modifier can
    (C19, C20, C17,
    C18); bindings and saved actions are read back as written
    (C21, C22, C23).
  \<^item> Host and cleaner: cleanup runs in order, behind the gate, and an unloaded generation is
    quiet; generations never overlap; definitions are copied exactly (C8,
    C6, C5, C7,
    C12).
  \<^item> Network: files are replaced all or nothing, answers are checked, the cache serves only what
    was stored, the newest eligible release is selected (C30,
    C9, C28, C29,
    C10, C11).
  \<^item> Loader and manager: a library is released behind its callbacks, the manager's books of
    libraries balance over every history, an unload goes through when nothing fails, a failed
    cleanup cannot be resumed, a refresh makes the table exactly the scan
    (C31, C34,
    C35, C36, C37,
    C38); revisions are MD5 by an independent account of RFC 1321, the
    configuration is read back as written up to floating-point numbers, the diagnostics keep the
    latest reports nobody took (C33, C32,
    C39).

  \<^bold>\<open>Not modelled\<close>: COM, Win32 and FFI glue, vtable shadowing and inline hooks (raw memory),
  the emission of observation events to their sink, destructors of handlers and panic payloads,
  the XML library and the file handling of the game bindings, the JSON text of the managed
  bindings (the section that assigns a parsed document is modelled), the path on which a panic
  unwinds through the render lane, the pinned API tables, the Windows implementations of the
  loader's platform and of the HTTP transport, logging, Dear ImGui and D3D11
  resources; the remaining crates (scheduler and settings, textures, user interface
  registries, backends, runtime assembly) are not modelled.
\<close>

end
